(* ===== verification/Stellar_Prelude.thy ===== *)
theory Stellar_Prelude
  imports Main "HOL-Library.Word" "HOL-Library.List_Lexorder" "HOL-Library.Char_ord"
begin

text \<open>
  Shared vocabulary of the development.

  \<^item> Machine types: \<open>u8\<close>, \<open>i64\<close>, \<open>u64\<close> are words of HOL-Library.Word; a byte string is a
    list of \<open>u8\<close>. The order on lists is the lexicographic one of
    HOL-Library.List\_Lexorder, which is the order of Rust's slices and strings.
  \<^item> A Rust \<open>String\<close> is a UTF-8 byte sequence; it is modelled by HOL's \<open>string\<close>, whose
    characters are bytes, and \<open>as_bytes\<close> reads it as a list of \<open>u8\<close>.
  \<^item> \<open>Result<T, E>\<close> is the sum \<open>E + T\<close>; \<open>and_then\<close> is the \<open>?\<close> operator.
  \<^item> \<open>std::cmp::Ordering\<close> is the datatype \<open>ordering\<close>.
  \<^item> \<open>HashMap<String, V>\<close> is an association list kept strictly sorted by key
    (\<open>hm_insert\<close>, \<open>hm_get\<close>, \<open>hm_remove\<close>): a canonical form, so that equality of maps is
    equality of lists. Nothing in the models depends on an iteration order that the Rust
    code leaves open.
\<close>

section \<open>Types\<close>

type_synonym u8 = "8 word"
type_synonym i64 = "64 word"
type_synonym u64 = "64 word"
type_synonym bytes = "u8 list"

named_theorems lex_simps \<open>lexicographic comparison of byte strings\<close>
named_theorems hm_simps \<open>lookup after an update of a hash map\<close>

section \<open>Results\<close>

definition and_then :: "'e + 'a \<Rightarrow> ('a \<Rightarrow> 'e + 'b) \<Rightarrow> 'e + 'b" where
  "and_then r f = (case r of Inl e \<Rightarrow> Inl e | Inr a \<Rightarrow> f a)"

lemma and_then_simps [simp]:
  "and_then (Inl e) f = Inl e"
  "and_then (Inr a) f = f a"
  by (simp_all add: and_then_def)

lemma and_then_Inr_iff:
  "and_then r f = Inr b \<longleftrightarrow> (\<exists>a. r = Inr a \<and> f a = Inr b)"
  by (cases r) auto

text \<open>Conversion of an error by the operator \<open>?\<close>.\<close>

definition map_err :: "('e \<Rightarrow> 'f) \<Rightarrow> 'e + 'a \<Rightarrow> 'f + 'a" where
  "map_err f r = (case r of Inl e \<Rightarrow> Inl (f e) | Inr a \<Rightarrow> Inr a)"

lemma map_err_simps [simp]: "map_err f (Inl e) = Inl (f e)" "map_err f (Inr a) = Inr a" "map_err f r = Inr b \<longleftrightarrow> r = Inr b"
  by (auto simp: map_err_def split: sum.splits)

text \<open>\<open>iter().map(f).collect::<Result<Vec<_>, _>>()\<close>: the first error, or all results.\<close>

fun collect_results :: "('a \<Rightarrow> 'e + 'b) \<Rightarrow> 'a list \<Rightarrow> 'e + 'b list" where
  "collect_results f [] = Inr []"
| "collect_results f (x # xs) =
     and_then (f x) (\<lambda>y. and_then (collect_results f xs) (\<lambda>ys. Inr (y # ys)))"

lemma collect_results_length:
  "collect_results f xs = Inr ys \<Longrightarrow> length ys = length xs"
  by (induction xs arbitrary: ys) (auto simp: and_then_Inr_iff)

lemma collect_results_total:
  "(\<And>x. x \<in> set xs \<Longrightarrow> f x = Inr (g x)) \<Longrightarrow> collect_results f xs = Inr (map g xs)"
  by (induction xs) auto

lemma collect_results_cong [fundef_cong]:
  assumes "xs = ys" and "\<And>x. x \<in> set ys \<Longrightarrow> f x = g x"
  shows "collect_results f xs = collect_results g ys"
  unfolding assms(1) using assms(2) by (induction ys) auto

section \<open>Orderings\<close>

datatype ordering = Less | Equal | Greater

definition cmp :: "'a::linorder \<Rightarrow> 'a \<Rightarrow> ordering" where
  "cmp a b = (if a < b then Less else if a = b then Equal else Greater)"

primrec reverse :: "ordering \<Rightarrow> ordering" where
  "reverse Less = Greater"
| "reverse Equal = Equal"
| "reverse Greater = Less"

lemma cmp_simps [simp]:
  "cmp a b = Less \<longleftrightarrow> a < b"
  "cmp a b = Equal \<longleftrightarrow> a = b"
  "cmp a b = Greater \<longleftrightarrow> b < a"
  by (auto simp: cmp_def)

lemma cmp_refl [simp]: "cmp a a = Equal"
  by simp

lemma reverse_cmp [simp]: "reverse (cmp a b) = cmp b a"
  by (auto simp: cmp_def)

lemma cmp_mono_eq:
  fixes f :: "'a::linorder \<Rightarrow> 'b::linorder"
  assumes "\<And>x y. x < y \<Longrightarrow> f x < f y"
  shows "cmp (f a) (f b) = cmp a b"
proof (cases a b rule: linorder_cases)
  case less
  then show ?thesis using assms [OF less] by (simp add: cmp_def)
next
  case greater
  then show ?thesis using assms [OF greater] by (auto simp: cmp_def)
qed simp

section \<open>Lexicographic order\<close>

lemma append_less_append_same [simp, lex_simps]:
  fixes p :: "'a::linorder list"
  shows "p @ x < p @ y \<longleftrightarrow> x < y"
  by (induction p) auto

lemma append_less_append_eq_len:
  fixes a b :: "'a::linorder list"
  assumes "length a = length b"
  shows "a @ x < b @ y \<longleftrightarrow> a < b \<or> a = b \<and> x < y"
  using assms by (induction a b rule: list_induct2) auto

lemma less_append_eq_len:
  fixes a b :: "'a::linorder list"
  assumes "length a = length b" and "a < b"
  shows "a @ x < b @ y"
  using append_less_append_eq_len [OF assms(1)] assms(2) by blast

lemma self_less_append [simp, lex_simps]:
  fixes a :: "'a::linorder list"
  shows "a < a @ b \<longleftrightarrow> b \<noteq> []"
  using append_less_append_same [of a "[]" b] by (cases b) auto

lemma self_le_append [simp, lex_simps]:
  fixes a :: "'a::linorder list"
  shows "a \<le> a @ b"
  by (cases "b = []") (auto simp: less_imp_le)

text \<open>Two byte strings of which neither is a prefix of the other are already ordered by
  their first difference, whatever follows.\<close>

lemma less_append_if_not_prefix:
  fixes a b :: "'a::linorder list"
  assumes "a < b" and "\<nexists>zs. b = a @ zs"
  shows "a @ x < b @ y"
  using assms
proof (induction a arbitrary: b)
  case Nil
  then show ?case by simp
next
  case (Cons h t)
  then obtain h' t' where b: "b = h' # t'" by (cases b) auto
  show ?case
  proof (cases "h < h'")
    case True
    then show ?thesis by (simp add: b)
  next
    case False
    with Cons.prems b have "h = h'" "t < t'" "\<nexists>zs. t' = t @ zs" by auto
    with Cons.IH b show ?thesis by simp
  qed
qed

text \<open>Complementing every element reverses the order of strings of equal length.\<close>

lemma map_antimono_less:
  fixes f :: "'a::linorder \<Rightarrow> 'b::linorder"
  assumes "length xs = length ys" and "\<And>a b. a < b \<Longrightarrow> f b < f a"
  shows "map f ys < map f xs \<longleftrightarrow> xs < ys"
  using assms(1)
proof (induction xs ys rule: list_induct2)
  case (Cons x xs y ys)
  have "f y < f x \<longleftrightarrow> x < y" "f y = f x \<longleftrightarrow> x = y"
    using assms(2) by (metis less_asym less_linear less_irrefl)+
  with Cons.IH show ?case by auto
qed simp

lemma map_mono_less:
  fixes f :: "'a::linorder \<Rightarrow> 'b::linorder"
  assumes "\<And>a b. a < b \<Longrightarrow> f a < f b"
  shows "map f xs < map f ys \<longleftrightarrow> xs < ys"
proof (induction xs arbitrary: ys)
  case (Cons x xs)
  have "f x < f y \<longleftrightarrow> x < y" "f x = f y \<longleftrightarrow> x = y" for y
    using assms by (metis less_asym less_linear less_irrefl)+
  with Cons.IH show ?case by (cases ys) auto
qed (case_tac ys; simp)

section \<open>Strings as bytes\<close>

definition as_bytes :: "string \<Rightarrow> bytes" where
  "as_bytes s = map of_char s"

definition of_bytes :: "bytes \<Rightarrow> string" where
  "of_bytes bs = map (\<lambda>b. char_of (unat b)) bs"

lemma of_char_less_256: "(of_char c :: nat) < 256"
  by (fact nat_of_char_less_256)

lemma unat_of_char [simp]: "unat (of_char c :: u8) = of_char c"
proof -
  have "(of_char c :: u8) = of_nat (of_char c)" by (simp add: of_nat_of_char)
  then show ?thesis by (simp only: unat_of_nat) (simp add: of_char_less_256)
qed

lemma of_bytes_as_bytes [simp]: "of_bytes (as_bytes s) = s"
  by (simp add: of_bytes_def as_bytes_def o_def)

lemma as_bytes_append [simp]: "as_bytes (s @ t) = as_bytes s @ as_bytes t"
  by (simp add: as_bytes_def)

lemma as_bytes_Nil [simp]: "as_bytes [] = []" "as_bytes s = [] \<longleftrightarrow> s = []"
  by (simp_all add: as_bytes_def)

lemma as_bytes_Cons [simp]: "as_bytes (c # s) = of_char c # as_bytes s"
  by (simp add: as_bytes_def)

lemma length_as_bytes [simp]: "length (as_bytes s) = length s"
  by (simp add: as_bytes_def)

lemma as_bytes_eq_iff [simp]: "as_bytes s = as_bytes t \<longleftrightarrow> s = t"
  by (metis of_bytes_as_bytes)

lemma of_char_less_iff: "(of_char c :: u8) < of_char d \<longleftrightarrow> c < d"
  by (simp add: word_less_nat_alt less_char_def)

lemma as_bytes_less_iff [simp, lex_simps]: "as_bytes s < as_bytes t \<longleftrightarrow> s < t"
  unfolding as_bytes_def by (rule map_mono_less) (simp add: of_char_less_iff)

lemma as_bytes_of_bytes [simp]: "as_bytes (of_bytes bs) = bs"
proof -
  have "(of_char (char_of (unat b) :: char) :: u8) = b" for b :: u8
  proof -
    have "unat b < 256" using unsigned_less [of b, where ?'a = nat] by simp
    then have "unat (of_char (char_of (unat b)) :: u8) = unat b" by simp
    then show ?thesis by (simp only: word_unat_eq_iff)
  qed
  then show ?thesis by (simp add: of_bytes_def as_bytes_def o_def)
qed

subsection \<open>UTF-8\<close>

text \<open>One decoding step of \<open>core::str\<close>: the number of bytes consumed, and whether they are
  a well-formed character. On ill-formed input the count is that of the maximal prefix of a
  well-formed character, which \<open>from_utf8_lossy\<close> replaces by U+FFFD.\<close>

definition is_cont :: "u8 \<Rightarrow> bool" where
  "is_cont b = (0x80 \<le> b \<and> b \<le> 0xBF)"

definition second_ok :: "u8 \<Rightarrow> u8 \<Rightarrow> bool" where
  "second_ok b0 b1 =
     (if b0 = 0xE0 then 0xA0 \<le> b1 \<and> b1 \<le> 0xBF
      else if b0 = 0xED then 0x80 \<le> b1 \<and> b1 \<le> 0x9F
      else if b0 = 0xF0 then 0x90 \<le> b1 \<and> b1 \<le> 0xBF
      else if b0 = 0xF4 then 0x80 \<le> b1 \<and> b1 \<le> 0x8F
      else is_cont b1)"

definition nth_ok :: "(u8 \<Rightarrow> bool) \<Rightarrow> bytes \<Rightarrow> nat \<Rightarrow> bool" where
  "nth_ok p bs i = (i < length bs \<and> p (bs ! i))"

definition utf8_next :: "u8 \<Rightarrow> bytes \<Rightarrow> nat \<times> bool" where
  "utf8_next b r =
     (if b \<le> 0x7F then (1, True)
      else if 0xC2 \<le> b \<and> b \<le> 0xDF then
        (if nth_ok is_cont r 0 then (2, True) else (1, False))
      else if 0xE0 \<le> b \<and> b \<le> 0xEF then
        (if nth_ok (second_ok b) r 0
         then (if nth_ok is_cont r 1 then (3, True) else (2, False))
         else (1, False))
      else if 0xF0 \<le> b \<and> b \<le> 0xF4 then
        (if nth_ok (second_ok b) r 0
         then (if nth_ok is_cont r 1
               then (if nth_ok is_cont r 2 then (4, True) else (3, False))
               else (2, False))
         else (1, False))
      else (1, False))"

fun utf8_valid :: "bytes \<Rightarrow> bool" where
  "utf8_valid [] = True"
| "utf8_valid (b # r) =
     (case utf8_next b r of (n, ok) \<Rightarrow> ok \<and> utf8_valid (drop (n - 1) r))"

fun from_utf8_lossy :: "bytes \<Rightarrow> bytes" where
  "from_utf8_lossy [] = []"
| "from_utf8_lossy (b # r) =
     (case utf8_next b r of (n, ok) \<Rightarrow>
        (if ok then b # take (n - 1) r else [0xEF, 0xBF, 0xBD])
        @ from_utf8_lossy (drop (n - 1) r))"

lemma from_utf8_lossy_valid [simp]: "utf8_valid bs \<Longrightarrow> from_utf8_lossy bs = bs"
  by (induction bs rule: utf8_valid.induct) (auto split: prod.splits)

text \<open>No byte of a well-formed string exceeds 0xF4; in particular none is 0xFF.\<close>

lemma utf8_next_bytes:
  assumes "utf8_next b r = (n, True)"
  shows "\<forall>x\<in>set (b # take (n - 1) r). x \<le> 0xF4"
proof -
  have c: "is_cont x \<Longrightarrow> x \<le> 0xF4" for x
    by (simp add: is_cont_def word_le_nat_alt)
  have s: "second_ok b x \<Longrightarrow> x \<le> 0xF4" for x
    using c by (auto simp: second_ok_def word_le_nat_alt split: if_splits)
  have 1: "take (Suc 0) r = [r ! 0]" if "0 < length r" using that by (cases r) auto
  have 2: "take 2 r = [r ! 0, r ! 1]" if "1 < length r"
    using that by (cases r; cases "tl r") (auto simp: numeral_2_eq_2)
  have 3: "take 3 r = [r ! 0, r ! 1, r ! 2]" if "2 < length r"
    using that by (cases r; cases "tl r"; cases "tl (tl r)") (auto simp: numeral_3_eq_3 numeral_2_eq_2)
  show ?thesis
    using assms c s 1 2 3
    by (auto simp: utf8_next_def nth_ok_def word_le_nat_alt split: if_splits)
qed

lemma utf8_valid_le_F4: "utf8_valid bs \<Longrightarrow> x \<in> set bs \<Longrightarrow> x \<le> 0xF4"
proof (induction bs rule: utf8_valid.induct)
  case (2 b r)
  obtain n ok where n: "utf8_next b r = (n, ok)" by fastforce
  with "2.prems" have ok: "ok" "utf8_valid (drop (n - 1) r)" by auto
  have "set (b # r) = set (b # take (n - 1) r) \<union> set (drop (n - 1) r)"
    by (metis append_Cons append_take_drop_id set_append)
  then show ?case
    using "2.IH" [OF n [symmetric] ok(2)] "2.prems"(2) utf8_next_bytes [of b r n] n ok(1) by auto
qed simp

lemma utf8_valid_no_FF: "utf8_valid bs \<Longrightarrow> 0xFF \<notin> set bs"
  using utf8_valid_le_F4 [of bs "0xFF"] by auto

lemma utf8_valid_ascii: "\<forall>b\<in>set bs. b \<le> 0x7F \<Longrightarrow> utf8_valid bs"
  by (induction bs) (auto simp: utf8_next_def)

section \<open>Hash maps\<close>

type_synonym ('k, 'v) hashmap = "('k \<times> 'v) list"

fun hm_get :: "('k, 'v) hashmap \<Rightarrow> 'k \<Rightarrow> 'v option" where
  "hm_get [] k = None"
| "hm_get ((k', v) # m) k = (if k = k' then Some v else hm_get m k)"

fun hm_insert :: "'k::linorder \<Rightarrow> 'v \<Rightarrow> ('k, 'v) hashmap \<Rightarrow> ('k, 'v) hashmap" where
  "hm_insert k v [] = [(k, v)]"
| "hm_insert k v ((k', v') # m) =
     (if k < k' then (k, v) # (k', v') # m
      else if k = k' then (k, v) # m
      else (k', v') # hm_insert k v m)"

fun hm_remove :: "'k \<Rightarrow> ('k, 'v) hashmap \<Rightarrow> ('k, 'v) hashmap" where
  "hm_remove k [] = []"
| "hm_remove k ((k', v') # m) = (if k = k' then m else (k', v') # hm_remove k m)"

definition hm_contains :: "('k, 'v) hashmap \<Rightarrow> 'k \<Rightarrow> bool" where
  "hm_contains m k = (hm_get m k \<noteq> None)"

definition hm_wf :: "('k::linorder, 'v) hashmap \<Rightarrow> bool" where
  "hm_wf m = sorted_wrt (<) (map fst m)"

definition hm_keys :: "('k, 'v) hashmap \<Rightarrow> 'k list" where
  "hm_keys m = map fst m"

text \<open>\<open>extend\<close> from an iterator of pairs: later pairs win.\<close>

definition hm_extend :: "('k::linorder, 'v) hashmap \<Rightarrow> ('k \<times> 'v) list \<Rightarrow> ('k, 'v) hashmap" where
  "hm_extend m kvs = fold (\<lambda>(k, v). hm_insert k v) kvs m"

lemma hm_get_insert [simp, hm_simps]:
  "hm_get (hm_insert k v m) k' = (if k' = k then Some v else hm_get m k')"
  by (induction k v m rule: hm_insert.induct) auto

lemma hm_get_eq_map_of: "hm_get m = map_of m"
  by (induction m) auto

lemma hm_get_None_iff: "hm_get m k = None \<longleftrightarrow> k \<notin> fst ` set m"
  by (simp add: hm_get_eq_map_of map_of_eq_None_iff)

lemma hm_get_remove [simp, hm_simps]:
  "hm_wf m \<Longrightarrow> hm_get (hm_remove k m) k' = (if k' = k then None else hm_get m k')"
proof (induction k m rule: hm_remove.induct)
  case (2 k k'' v m)
  have "hm_get m k'' = None" using "2.prems"
    by (auto simp: hm_wf_def hm_get_None_iff)
  with 2 show ?case by (auto simp: hm_wf_def)
qed simp

lemma hm_wf_Nil [simp]: "hm_wf []"
  by (simp add: hm_wf_def)

lemma set_hm_insert_keys: "fst ` set (hm_insert k v m) = insert k (fst ` set m)"
  by (induction k v m rule: hm_insert.induct) auto

lemma hm_wf_insert [simp]: "hm_wf m \<Longrightarrow> hm_wf (hm_insert k v m)"
proof (induction k v m rule: hm_insert.induct)
  case (2 k v k' v' m)
  then show ?case using set_hm_insert_keys [of k v m]
    by (auto simp: hm_wf_def)
qed (simp add: hm_wf_def)

lemma set_hm_remove_subset: "set (hm_remove k m) \<subseteq> set m"
  by (induction k m rule: hm_remove.induct) auto

lemma hm_wf_remove [simp]: "hm_wf m \<Longrightarrow> hm_wf (hm_remove k m)"
  using set_hm_remove_subset
  by (induction k m rule: hm_remove.induct) (fastforce simp: hm_wf_def)+

lemma hm_get_in_set: "hm_get m k = Some v \<Longrightarrow> (k, v) \<in> set m"
  by (simp add: hm_get_eq_map_of map_of_SomeD)

lemma hm_get_iff_set: "hm_wf m \<Longrightarrow> hm_get m k = Some v \<longleftrightarrow> (k, v) \<in> set m"
proof -
  assume "hm_wf m"
  then have "distinct (map fst m)"
    unfolding hm_wf_def by (simp add: strict_sorted_iff)
  then show ?thesis by (simp add: hm_get_eq_map_of)
qed

end
