(* ===== verification/Float64.thy ===== *)
theory Float64
  imports Stellar_Prelude
begin

text \<open>
  Rust's \<open>f64\<close>, as far as the database uses it: the IEEE-754 binary64 format as its 64 bits.

  Every finite number is an integer multiple of \<open>2 ^ -1074\<close>; \<open>f64_units\<close> is that integer, so
  that addition, multiplication, division and remainder are exact integer (or rational)
  operations followed by one rounding to nearest, ties to even (\<open>f64_round\<close>). The bits of a
  non-negative number, read as an integer, grow with its value, which makes rounding the one
  line \<open>e * 2 ^ 52 + m\<close> and comparison the comparison of \<open>f64_key\<close>. NaN payloads are not
  modelled: every NaN an operation produces is the canonical quiet NaN.

  \<open>f64_to_string\<close> is \<open>Display\<close>: the shortest decimal that reads back as the same number, the
  closest one if there are several, printed without an exponent.
\<close>

section \<open>Format\<close>

type_synonym f64 = "64 word"

definition f64_neg_bit :: "f64 \<Rightarrow> bool" where
  "f64_neg_bit f = (2 ^ 63 \<le> unat f)"

definition f64_mag :: "f64 \<Rightarrow> nat" where
  "f64_mag f = unat f mod 2 ^ 63"

definition f64_inf_mag :: nat where
  "f64_inf_mag = 2047 * 2 ^ 52"

definition f64_of_mag :: "bool \<Rightarrow> nat \<Rightarrow> f64" where
  "f64_of_mag neg m = of_nat ((if neg then 2 ^ 63 else 0) + m)"

definition f64_infinity :: f64 where "f64_infinity = 0x7FF0000000000000"
definition f64_neg_infinity :: f64 where "f64_neg_infinity = 0xFFF0000000000000"
definition f64_nan :: f64 where "f64_nan = 0x7FF8000000000000"

definition is_nan :: "f64 \<Rightarrow> bool" where
  "is_nan f = (f64_inf_mag < f64_mag f)"

definition is_infinite :: "f64 \<Rightarrow> bool" where
  "is_infinite f = (f64_mag f = f64_inf_mag)"

definition is_finite :: "f64 \<Rightarrow> bool" where
  "is_finite f = (f64_mag f < f64_inf_mag)"

text \<open>The magnitude in units of \<open>2 ^ -1074\<close>.\<close>

definition mag_units :: "nat \<Rightarrow> nat" where
  "mag_units m =
     (let e = m div 2 ^ 52; f = m mod 2 ^ 52
      in if e = 0 then f else (2 ^ 52 + f) * 2 ^ (e - 1))"

definition f64_units :: "f64 \<Rightarrow> int" where
  "f64_units f = (if f64_neg_bit f then - int (mag_units (f64_mag f)) else int (mag_units (f64_mag f)))"

section \<open>Comparison\<close>

definition f64_key :: "f64 \<Rightarrow> int" where
  "f64_key f = (if f64_neg_bit f then - int (f64_mag f) else int (f64_mag f))"

definition f64_partial_cmp :: "f64 \<Rightarrow> f64 \<Rightarrow> ordering option" where
  "f64_partial_cmp a b =
     (if is_nan a \<or> is_nan b then None else Some (cmp (f64_key a) (f64_key b)))"

definition f64_eq :: "f64 \<Rightarrow> f64 \<Rightarrow> bool" where
  "f64_eq a b = (f64_partial_cmp a b = Some Equal)"

definition f64_lt :: "f64 \<Rightarrow> f64 \<Rightarrow> bool" where
  "f64_lt a b = (f64_partial_cmp a b = Some Less)"

definition f64_le :: "f64 \<Rightarrow> f64 \<Rightarrow> bool" where
  "f64_le a b = (f64_lt a b \<or> f64_eq a b)"

text \<open>The integer comparison of the bits is the comparison of the values.\<close>

lemma mag_units_mono: "m < m' \<Longrightarrow> mag_units m < mag_units m'"
proof -
  assume lt: "m < m'"
  define e f e' f' where defs: "e = m div 2 ^ 52" "f = m mod 2 ^ 52" "e' = m' div 2 ^ 52" "f' = m' mod 2 ^ 52"
  have f: "f < 2 ^ 52" "f' < 2 ^ 52" by (simp_all add: defs)
  have m: "m = e * 2 ^ 52 + f" "m' = e' * 2 ^ 52 + f'" by (simp_all add: defs)
  have le: "e \<le> e'" unfolding defs using lt by (intro div_le_mono) simp
  have u: "mag_units m = (if e = 0 then f else (2 ^ 52 + f) * 2 ^ (e - 1))"
    "mag_units m' = (if e' = 0 then f' else (2 ^ 52 + f') * 2 ^ (e' - 1))"
    by (simp_all add: mag_units_def defs Let_def)
  show ?thesis
  proof (cases "e = e'")
    case True
    with lt m have "f < f'" by simp
    with True u show ?thesis by simp
  next
    case False
    with le have ee: "e < e'" by simp
    show ?thesis
    proof (cases "e = 0")
      case True
      have "mag_units m < 2 ^ 52" using u(1) True f by simp
      also have "(2::nat) ^ 52 \<le> (2 ^ 52 + f') * 2 ^ (e' - 1)"
        using mult_le_mono [of "2 ^ 52" "2 ^ 52 + f'" 1 "2 ^ (e' - 1)"] by simp
      also have "\<dots> = mag_units m'" using u(2) ee by simp
      finally show ?thesis .
    next
      case e0: False
      have "(2 ^ 52 + f) * 2 ^ (e - 1) < (2 ^ 53) * 2 ^ (e - 1)" using f by simp
      also have "\<dots> = (2::nat) ^ 52 * 2 ^ e" using e0 by (cases e) simp_all
      also have "\<dots> \<le> (2 ^ 52 + f') * 2 ^ (e' - 1)"
        using ee by (intro mult_le_mono power_increasing) auto
      finally show ?thesis using u e0 ee by simp
    qed
  qed
qed

lemma cmp_f64_key_units: "cmp (f64_key a) (f64_key b) = cmp (f64_units a) (f64_units b)"
proof -
  have mono: "mag_units m < mag_units m' \<longleftrightarrow> m < m'" for m m'
    using mag_units_mono by (metis less_asym' linorder_neqE_nat)
  have eq: "mag_units m = mag_units m' \<longleftrightarrow> m = m'" for m m'
    using mag_units_mono by (metis less_irrefl linorder_neqE_nat)
  have z: "mag_units m = 0 \<longleftrightarrow> m = 0" for m
    using eq [of m 0] by (simp add: mag_units_def)
  have neg: "int x = - int y \<longleftrightarrow> x = 0 \<and> y = 0" "- int x = int y \<longleftrightarrow> x = 0 \<and> y = 0" for x y
    by auto
  have "f64_key a < f64_key b \<longleftrightarrow> f64_units a < f64_units b"
    "f64_key a = f64_key b \<longleftrightarrow> f64_units a = f64_units b"
    using mono [of "f64_mag a" "f64_mag b"] mono [of "f64_mag b" "f64_mag a"]
      eq [of "f64_mag a" "f64_mag b"] z [of "f64_mag a"] z [of "f64_mag b"]
    by (auto simp: f64_key_def f64_units_def neg)
  then show ?thesis by (simp add: cmp_def)
qed

lemma f64_eq_refl: "\<not> is_nan a \<Longrightarrow> f64_eq a a"
  by (simp add: f64_eq_def f64_partial_cmp_def)

lemma f64_eq_sym: "f64_eq a b = f64_eq b a"
  by (auto simp: f64_eq_def f64_partial_cmp_def)

section \<open>Rounding\<close>

text \<open>\<open>floor (log2 n)\<close>, 0 for 0.\<close>

fun ilog2 :: "nat \<Rightarrow> nat" where
  "ilog2 n = (if n < 2 then 0 else Suc (ilog2 (n div 2)))"

declare ilog2.simps [simp del]

definition round_half_even :: "nat \<Rightarrow> nat \<Rightarrow> nat" where
  "round_half_even n d =
     (let q = n div d; r = n mod d
      in if 2 * r < d then q else if d < 2 * r then q + 1 else if even q then q else q + 1)"

text \<open>The magnitude nearest to \<open>num / den\<close> units.\<close>

definition round_mag :: "nat \<Rightarrow> nat \<Rightarrow> nat" where
  "round_mag num den =
     (let q = num div den;
          e = (if q < 2 ^ 53 then 0 else ilog2 q - 52);
          m = e * 2 ^ 52 + round_half_even num (den * 2 ^ e)
      in min m f64_inf_mag)"

definition f64_round :: "bool \<Rightarrow> nat \<Rightarrow> nat \<Rightarrow> f64" where
  "f64_round neg num den = f64_of_mag neg (round_mag num den)"

section \<open>Arithmetic\<close>

definition unit_den :: nat where
  "unit_den = 2 ^ 1074"

definition f64_of_i64 :: "i64 \<Rightarrow> f64" where
  "f64_of_i64 n = f64_round (sint n < 0) (nat \<bar>sint n\<bar> * unit_den) 1"

definition f64_of_nat :: "nat \<Rightarrow> f64" where
  "f64_of_nat n = f64_round False (n * unit_den) 1"

definition f64_neg :: "f64 \<Rightarrow> f64" where
  "f64_neg f = f64_of_mag (\<not> f64_neg_bit f) (f64_mag f)"

definition f64_abs :: "f64 \<Rightarrow> f64" where
  "f64_abs f = f64_of_mag False (f64_mag f)"

definition f64_add :: "f64 \<Rightarrow> f64 \<Rightarrow> f64" where
  "f64_add a b =
     (if is_nan a \<or> is_nan b then f64_nan
      else if is_infinite a then
        (if is_infinite b \<and> f64_neg_bit a \<noteq> f64_neg_bit b then f64_nan else a)
      else if is_infinite b then b
      else let s = f64_units a + f64_units b
           in if s = 0 then f64_of_mag (f64_neg_bit a \<and> f64_neg_bit b) 0
              else f64_round (s < 0) (nat \<bar>s\<bar>) 1)"

definition f64_sub :: "f64 \<Rightarrow> f64 \<Rightarrow> f64" where
  "f64_sub a b = (if is_nan b then f64_nan else f64_add a (f64_neg b))"

definition f64_mul :: "f64 \<Rightarrow> f64 \<Rightarrow> f64" where
  "f64_mul a b =
     (let neg = (f64_neg_bit a \<noteq> f64_neg_bit b) in
      if is_nan a \<or> is_nan b then f64_nan
      else if is_infinite a \<or> is_infinite b then
        (if f64_mag a = 0 \<or> f64_mag b = 0 then f64_nan else f64_of_mag neg f64_inf_mag)
      else f64_round neg (mag_units (f64_mag a) * mag_units (f64_mag b)) unit_den)"

definition f64_div :: "f64 \<Rightarrow> f64 \<Rightarrow> f64" where
  "f64_div a b =
     (let neg = (f64_neg_bit a \<noteq> f64_neg_bit b) in
      if is_nan a \<or> is_nan b then f64_nan
      else if is_infinite a then (if is_infinite b then f64_nan else f64_of_mag neg f64_inf_mag)
      else if is_infinite b then f64_of_mag neg 0
      else if f64_mag b = 0 then
        (if f64_mag a = 0 then f64_nan else f64_of_mag neg f64_inf_mag)
      else f64_round neg (mag_units (f64_mag a) * unit_den) (mag_units (f64_mag b)))"

text \<open>\<open>%\<close> is \<open>fmod\<close>: exact, with the sign of the dividend.\<close>

definition f64_rem :: "f64 \<Rightarrow> f64 \<Rightarrow> f64" where
  "f64_rem a b =
     (if is_nan a \<or> is_nan b \<or> is_infinite a \<or> f64_mag b = 0 then f64_nan
      else if is_infinite b then a
      else f64_round (f64_neg_bit a) (mag_units (f64_mag a) mod mag_units (f64_mag b)) 1)"

definition f64_trunc :: "f64 \<Rightarrow> f64" where
  "f64_trunc f =
     (if is_finite f
      then f64_round (f64_neg_bit f) (mag_units (f64_mag f) div unit_den * unit_den) 1
      else f)"

definition f64_fract :: "f64 \<Rightarrow> f64" where
  "f64_fract f = f64_sub f (f64_trunc f)"

text \<open>\<open>as i64\<close>: toward zero, saturating, NaN to 0.\<close>

definition f64_as_i64 :: "f64 \<Rightarrow> i64" where
  "f64_as_i64 f =
     (if is_nan f then 0
      else let t = int (mag_units (f64_mag f) div unit_den);
               n = (if f64_neg_bit f then - t else t)
           in word_of_int (max (- (2 ^ 63)) (min (2 ^ 63 - 1) n)))"

section \<open>Display\<close>

fun digits10 :: "nat \<Rightarrow> nat list" where
  "digits10 n = (if n < 10 then [n] else digits10 (n div 10) @ [n mod 10])"

declare digits10.simps [simp del]

definition digit_char :: "nat \<Rightarrow> char" where
  "digit_char d = char_of (48 + d)"

definition nat_to_string :: "nat \<Rightarrow> string" where
  "nat_to_string n = map digit_char (digits10 n)"

definition int_to_string :: "int \<Rightarrow> string" where
  "int_to_string i = (if i < 0 then ''-'' @ nat_to_string (nat (- i)) else nat_to_string (nat i))"

text \<open>The position of the decimal point of \<open>u / 2 ^ 1074\<close>: the \<open>k\<close> with
  \<open>10 ^ (k - 1) \<le> v < 10 ^ k\<close>. The fuel covers the 324 zeros of the smallest number.\<close>

fun lead_zeros :: "nat \<Rightarrow> nat \<Rightarrow> nat" where
  "lead_zeros 0 u = 0"
| "lead_zeros (Suc n) u = (if unit_den \<le> u then 0 else Suc (lead_zeros n (u * 10)))"

definition decimal_point :: "nat \<Rightarrow> int" where
  "decimal_point u =
     (if unit_den \<le> u then int (length (digits10 (u div unit_den)))
      else 1 - int (lead_zeros 400 u))"

definition decimal_num :: "nat \<Rightarrow> int \<Rightarrow> nat" where
  "decimal_num c p = (if 0 \<le> p then c * 10 ^ nat p * unit_den else c * unit_den)"

definition decimal_den :: "int \<Rightarrow> nat" where
  "decimal_den p = (if 0 \<le> p then 1 else 10 ^ nat (- p))"

text \<open>Does \<open>c * 10 ^ p\<close> read back as the magnitude \<open>m\<close>?\<close>

definition reads_back :: "nat \<Rightarrow> nat \<Rightarrow> int \<Rightarrow> bool" where
  "reads_back m c p = (round_mag (decimal_num c p) (decimal_den p) = m)"

text \<open>The shortest digits \<open>c\<close>, for the value \<open>c * 10 ^ p\<close>: with \<open>n\<close> digits, the nearer of the two
  neighbours of the value that read back. Seventeen digits always do.\<close>

fun shortest :: "nat \<Rightarrow> nat \<Rightarrow> nat \<Rightarrow> int \<Rightarrow> nat \<times> int" where
  "shortest 0 n m k = (0, k - int n)"
| "shortest (Suc fuel) n m k =
     (let p = k - int n; u = mag_units m;
          num = (if 0 \<le> p then u else u * 10 ^ nat (- p));
          den = (if 0 \<le> p then unit_den * 10 ^ nat p else unit_den);
          lo = num div den; r = num mod den;
          down = reads_back m lo p; up = (r \<noteq> 0 \<and> reads_back m (lo + 1) p)
      in if up \<and> (\<not> down \<or> den \<le> 2 * r) then (lo + 1, p)
         else if down then (lo, p)
         else shortest fuel (Suc n) m k)"

definition strip_zeros :: "nat list \<Rightarrow> nat list" where
  "strip_zeros ds = rev (dropWhile (\<lambda>d. d = 0) (rev ds))"

text \<open>The significant digits and the position of the decimal point.\<close>

definition f64_decimal :: "nat \<Rightarrow> nat list \<times> int" where
  "f64_decimal m =
     (case shortest 17 1 m (decimal_point (mag_units m)) of (c, p) \<Rightarrow>
        (strip_zeros (digits10 c), p + int (length (digits10 c))))"

definition decimal_to_string :: "nat list \<Rightarrow> int \<Rightarrow> string" where
  "decimal_to_string ds k =
     (let cs = map digit_char ds in
      if k \<le> 0 then ''0.'' @ replicate (nat (- k)) (CHR ''0'') @ cs
      else if nat k < length cs then take (nat k) cs @ ''.'' @ drop (nat k) cs
      else cs @ replicate (nat k - length cs) (CHR ''0''))"

definition f64_to_string :: "f64 \<Rightarrow> string" where
  "f64_to_string f =
     (if is_nan f then ''NaN''
      else (if f64_neg_bit f then ''-'' else []) @
           (if is_infinite f then ''inf''
            else if f64_mag f = 0 then ''0''
            else case f64_decimal (f64_mag f) of (ds, k) \<Rightarrow> decimal_to_string ds k))"

section \<open>Exactness of rounding\<close>

lemma ilog2_eq: "2 ^ k \<le> n \<Longrightarrow> n < 2 ^ Suc k \<Longrightarrow> ilog2 n = k"
proof (induction k arbitrary: n)
  case 0
  then show ?case by (subst ilog2.simps) simp
next
  case (Suc k)
  have "2 ^ k \<le> n div 2" "n div 2 < 2 ^ Suc k" using Suc.prems by auto
  with Suc show ?case by (subst ilog2.simps) auto
qed

lemma round_half_even_exact: "0 < d \<Longrightarrow> round_half_even (m * d) d = m"
  by (simp add: round_half_even_def)

lemma mag_units_normal:
  "2 ^ 52 \<le> m \<Longrightarrow> m < 2 ^ 53 \<Longrightarrow> mag_units (e * 2 ^ 52 + m) = m * 2 ^ e"
proof -
  assume m: "2 ^ 52 \<le> m" "m < 2 ^ 53"
  define f where "f = m - 2 ^ 52"
  have f: "m = 2 ^ 52 + f" "f < 2 ^ 52" using m by (simp_all add: f_def)
  have x: "e * 2 ^ 52 + m = f + (e + 1) * 2 ^ 52" using f by simp
  have "(e * 2 ^ 52 + m) div 2 ^ 52 = e + 1" "(e * 2 ^ 52 + m) mod 2 ^ 52 = f"
    unfolding x using f(2) by (simp_all only: div_mult_self1 mod_mult_self1) simp_all
  then show ?thesis using f by (simp add: mag_units_def Let_def)
qed

text \<open>A magnitude is rounded to itself.\<close>

lemma round_mag_units:
  assumes "m < f64_inf_mag"
  shows "round_mag (mag_units m) 1 = m"
proof (cases "m < 2 ^ 53")
  case True
  have "mag_units m = m"
  proof (cases "m < 2 ^ 52")
    case False
    with True mag_units_normal [of m 0] show ?thesis by simp
  qed (simp add: mag_units_def)
  then show ?thesis using True assms by (simp add: round_mag_def round_half_even_def Let_def)
next
  case False
  define e where "e = m div 2 ^ 52 - 1"
  define n where "n = 2 ^ 52 + m mod 2 ^ 52"
  have q: "2 \<le> m div 2 ^ 52" using div_le_mono [of "2 ^ 53" m "2 ^ 52"] False by simp
  have n: "2 ^ 52 \<le> n" "n < 2 ^ 53" by (simp_all add: n_def)
  have m: "m = e * 2 ^ 52 + n"
    using q div_mult_mod_eq [of m "2 ^ 52"] by (simp add: e_def n_def diff_mult_distrib)
  have u: "mag_units m = n * 2 ^ e" using mag_units_normal [OF n] m by simp
  have e: "1 \<le> e" using q by (simp add: e_def)
  have big: "2 ^ (52 + e) \<le> n * 2 ^ e" "n * 2 ^ e < 2 ^ Suc (52 + e)"
    using n by (simp_all add: power_add)
  then have "ilog2 (n * 2 ^ e) = 52 + e" by (rule ilog2_eq)
  moreover have "\<not> n * 2 ^ e < 2 ^ 53"
  proof -
    have "(2::nat) ^ 53 \<le> 2 ^ (52 + e)" using e by (intro power_increasing) auto
    with big(1) show ?thesis by linarith
  qed
  moreover have "e * 2 ^ 52 + n < f64_inf_mag" using m assms by simp
  ultimately have "round_mag (n * 2 ^ e) 1 = e * 2 ^ 52 + n"
    by (simp add: round_mag_def round_half_even_exact Let_def)
  then show ?thesis by (simp only: u m [symmetric])
qed

lemma unat_f64_of_mag: "m < 2 ^ 63 \<Longrightarrow> unat (f64_of_mag neg m) = (if neg then 2 ^ 63 else 0) + m"
  unfolding f64_of_mag_def by (subst unat_of_nat) simp

lemma f64_mag_of_mag [simp]: "m < 2 ^ 63 \<Longrightarrow> f64_mag (f64_of_mag neg m) = m"
  by (simp add: f64_mag_def unat_f64_of_mag)

lemma f64_neg_bit_of_mag [simp]: "m < 2 ^ 63 \<Longrightarrow> f64_neg_bit (f64_of_mag neg m) = neg"
  by (simp add: f64_neg_bit_def unat_f64_of_mag)

lemma f64_of_mag_id [simp]: "f64_of_mag (f64_neg_bit f) (f64_mag f) = f"
proof -
  have "unat f < 2 ^ 64" using unsigned_less [of f, where ?'a = nat] by simp
  then have "(if f64_neg_bit f then 2 ^ 63 else 0) + f64_mag f = unat f"
    by (auto simp: f64_mag_def f64_neg_bit_def le_mod_geq)
  then show ?thesis by (simp add: f64_of_mag_def)
qed

lemma inf_mag_less: "f64_inf_mag < 2 ^ 63"
  by (simp add: f64_inf_mag_def)

lemma mag_units_eq_0 [simp]: "mag_units m = 0 \<longleftrightarrow> m = 0"
  using mag_units_mono [of 0 m] by (cases m) (auto simp: mag_units_def)

lemma f64_constants [simp]:
  "f64_mag f64_infinity = f64_inf_mag" "\<not> f64_neg_bit f64_infinity"
  "f64_mag f64_neg_infinity = f64_inf_mag" "f64_neg_bit f64_neg_infinity"
  "f64_mag 0 = 0" "\<not> f64_neg_bit 0"
  by (simp_all add: f64_mag_def f64_neg_bit_def f64_inf_mag_def f64_infinity_def f64_neg_infinity_def)

end
