(* ===== verification/Values.thy ===== *)
theory Values
  imports Float64
begin

text \<open>
  The data model of \<open>document.rs\<close>: \<open>Value\<close>, its predicates, its partial order, and
  \<open>Document\<close>.

  Code outside the repository enters through the record \<open>libs\<close>: the crate
  \<open>rust_decimal\<close> on an abstract type \<open>'d\<close> of decimals, and the crate \<open>decimal_bytes\<close>, whose
  results are read through \<open>decimal_bytes\<close>. Where a lemma relies on their documented behaviour
  it says so by a hypothesis (\<open>dec_order\<close>). \<open>int_libs\<close> is a concrete instance, decimals
  that are integers, on which the hypotheses are checked.
\<close>

section \<open>Libraries\<close>

record decimal_bytes =
  db_bytes :: bytes
  db_is_nan :: bool
  db_is_pos_infinity :: bool
  db_is_neg_infinity :: bool
  db_is_zero :: bool

record 'd libs =
  dec_deserialize :: "bytes \<Rightarrow> 'd"
  dec_serialize :: "'d \<Rightarrow> bytes"
  dec_zero :: 'd
  dec_is_zero :: "'d \<Rightarrow> bool"
  dec_cmp :: "'d \<Rightarrow> 'd \<Rightarrow> ordering"
  dec_of_i64 :: "i64 \<Rightarrow> 'd"
  dec_of_f64 :: "f64 \<Rightarrow> 'd option"
  dec_to_f64 :: "'d \<Rightarrow> f64 option"
  dec_to_string :: "'d \<Rightarrow> string"
  dec_neg :: "'d \<Rightarrow> 'd"
  dec_checked_add :: "'d \<Rightarrow> 'd \<Rightarrow> 'd option"
  dec_checked_sub :: "'d \<Rightarrow> 'd \<Rightarrow> 'd option"
  dec_checked_mul :: "'d \<Rightarrow> 'd \<Rightarrow> 'd option"
  dec_checked_div :: "'d \<Rightarrow> 'd \<Rightarrow> 'd option"
  dec_checked_rem :: "'d \<Rightarrow> 'd \<Rightarrow> 'd option"
  decimal_bytes_from_str :: "string \<Rightarrow> decimal_bytes option"

text \<open>\<open>Ord\<close> of \<open>rust_decimal::Decimal\<close>: a total preorder, exact on integers.\<close>

definition dec_order :: "'d libs \<Rightarrow> bool" where
  "dec_order L \<longleftrightarrow>
     (\<forall>a b. dec_cmp L a b = reverse (dec_cmp L b a)) \<and>
     (\<forall>a b c. dec_cmp L a b = Less \<longrightarrow> dec_cmp L b c = Less \<longrightarrow> dec_cmp L a c = Less) \<and>
     (\<forall>a b c. dec_cmp L a b = Equal \<longrightarrow> dec_cmp L a c = dec_cmp L b c) \<and>
     (\<forall>m n. dec_cmp L (dec_of_i64 L m) (dec_of_i64 L n) = cmp (sint m) (sint n))"

lemma dec_orderD:
  assumes "dec_order L"
  shows dec_cmp_reverse: "dec_cmp L a b = reverse (dec_cmp L b a)"
    and dec_cmp_trans: "dec_cmp L a b = Less \<Longrightarrow> dec_cmp L b c = Less \<Longrightarrow> dec_cmp L a c = Less"
    and dec_cmp_of_i64: "dec_cmp L (dec_of_i64 L m) (dec_of_i64 L n) = cmp (sint m) (sint n)"
  using assms unfolding dec_order_def by blast+

lemma dec_cmp_self: "dec_order L \<Longrightarrow> dec_cmp L a a = Equal"
  using dec_cmp_reverse [of L a a] by (cases "dec_cmp L a a") auto

section \<open>Value\<close>

datatype json_number = PosInt u64 | NegInt i64 | FloatNum f64

datatype Value =
    VNull
  | VBool bool
  | VInt i64
  | VFloat f64
  | VDecimal bytes
  | VString string
  | VArray "Value list"
  | VObject "(string \<times> Value) list"
  | VReference string
  | VDatetime i64
  | VDuration u64
  | VBytes bytes
  | VRange (range_start: Value) (range_end: Value)

type_synonym fields = "(string, Value) hashmap"

text \<open>The derived \<open>PartialEq\<close>: structural, with IEEE equality of floats.\<close>

function value_eq :: "Value \<Rightarrow> Value \<Rightarrow> bool" where
  "value_eq v w =
     (case v of
        VNull \<Rightarrow> (case w of VNull \<Rightarrow> True | _ \<Rightarrow> False)
      | VBool a \<Rightarrow> (case w of VBool b \<Rightarrow> a = b | _ \<Rightarrow> False)
      | VInt a \<Rightarrow> (case w of VInt b \<Rightarrow> a = b | _ \<Rightarrow> False)
      | VFloat a \<Rightarrow> (case w of VFloat b \<Rightarrow> f64_eq a b | _ \<Rightarrow> False)
      | VDecimal a \<Rightarrow> (case w of VDecimal b \<Rightarrow> a = b | _ \<Rightarrow> False)
      | VString a \<Rightarrow> (case w of VString b \<Rightarrow> a = b | _ \<Rightarrow> False)
      | VArray as \<Rightarrow> (case w of
            VArray bs \<Rightarrow> length as = length bs \<and> list_all (\<lambda>(x, y). value_eq x y) (zip as bs)
          | _ \<Rightarrow> False)
      | VObject as \<Rightarrow> (case w of
            VObject bs \<Rightarrow> map fst as = map fst bs \<and>
              list_all (\<lambda>(x, y). value_eq x y) (zip (map snd as) (map snd bs))
          | _ \<Rightarrow> False)
      | VReference a \<Rightarrow> (case w of VReference b \<Rightarrow> a = b | _ \<Rightarrow> False)
      | VDatetime a \<Rightarrow> (case w of VDatetime b \<Rightarrow> a = b | _ \<Rightarrow> False)
      | VDuration a \<Rightarrow> (case w of VDuration b \<Rightarrow> a = b | _ \<Rightarrow> False)
      | VBytes a \<Rightarrow> (case w of VBytes b \<Rightarrow> a = b | _ \<Rightarrow> False)
      | VRange a b \<Rightarrow> (case w of VRange c d \<Rightarrow> value_eq a c \<and> value_eq b d | _ \<Rightarrow> False))"
  by pat_completeness auto

lemma size_value_elem: "x \<in> set xs \<Longrightarrow> size (x :: Value) < Suc (size_list size xs)"
  by (induction xs) auto

lemma size_value_field: "x \<in> snd ` set kvs \<Longrightarrow>
   size (x :: Value) < Suc (size_list (size_prod (\<lambda>_. 0) size) kvs)"
  by (induction kvs) (fastforce simp: less_Suc_eq)+

termination value_eq
  by (relation "measure (size \<circ> fst)")
    (auto dest!: set_zip_leftD intro: size_value_elem size_value_field)

declare value_eq.simps [simp del]

lemma value_eq_simps [simp]:
  "value_eq VNull w = (w = VNull)"
  "value_eq (VBool b) w = (w = VBool b)"
  "value_eq (VInt i) w = (w = VInt i)"
  "value_eq (VFloat f) (VFloat g) = f64_eq f g"
  "value_eq (VString s) w = (w = VString s)"
  "value_eq (VReference s) w = (w = VReference s)"
  "value_eq (VBytes bs) w = (w = VBytes bs)"
  by (subst value_eq.simps; auto split: Value.splits)+

definition is_numeric :: "Value \<Rightarrow> bool" where
  "is_numeric v = (case v of VInt _ \<Rightarrow> True | VFloat _ \<Rightarrow> True | VDecimal _ \<Rightarrow> True | _ \<Rightarrow> False)"

definition is_temporal :: "Value \<Rightarrow> bool" where
  "is_temporal v = (case v of VDatetime _ \<Rightarrow> True | VDuration _ \<Rightarrow> True | _ \<Rightarrow> False)"

definition type_name :: "Value \<Rightarrow> string" where
  "type_name v =
     (case v of
        VNull \<Rightarrow> ''null''
      | VBool _ \<Rightarrow> ''bool''
      | VInt _ \<Rightarrow> ''int''
      | VFloat _ \<Rightarrow> ''float''
      | VDecimal _ \<Rightarrow> ''decimal''
      | VString _ \<Rightarrow> ''string''
      | VArray _ \<Rightarrow> ''array''
      | VObject _ \<Rightarrow> ''object''
      | VReference _ \<Rightarrow> ''reference''
      | VDatetime _ \<Rightarrow> ''datetime''
      | VDuration _ \<Rightarrow> ''duration''
      | VBytes _ \<Rightarrow> ''bytes''
      | VRange _ _ \<Rightarrow> ''range'')"

lemma value_eq_type_name: "value_eq v w \<Longrightarrow> type_name v = type_name w"
  by (subst (asm) value_eq.simps) (cases v; cases w; simp add: type_name_def)

definition is_truthy :: "'d libs \<Rightarrow> Value \<Rightarrow> bool" where
  "is_truthy L v =
     (case v of
        VNull \<Rightarrow> False
      | VBool b \<Rightarrow> b
      | VInt n \<Rightarrow> n \<noteq> 0
      | VFloat f \<Rightarrow> \<not> f64_eq f 0
      | VDecimal d \<Rightarrow> \<not> dec_is_zero L (dec_deserialize L d)
      | VString s \<Rightarrow> s \<noteq> []
      | VArray arr \<Rightarrow> arr \<noteq> []
      | VObject obj \<Rightarrow> obj \<noteq> []
      | VBytes b \<Rightarrow> b \<noteq> []
      | VDuration ns \<Rightarrow> ns \<noteq> 0
      | VReference _ \<Rightarrow> True
      | VDatetime _ \<Rightarrow> True
      | VRange _ _ \<Rightarrow> True)"

definition as_decimal :: "'d libs \<Rightarrow> Value \<Rightarrow> 'd option" where
  "as_decimal L v =
     (case v of
        VInt n \<Rightarrow> Some (dec_of_i64 L n)
      | VFloat f \<Rightarrow> dec_of_f64 L f
      | VDecimal d \<Rightarrow> Some (dec_deserialize L d)
      | _ \<Rightarrow> None)"

section \<open>The partial order of values\<close>

definition partial_cmp_numeric :: "'d libs \<Rightarrow> Value \<Rightarrow> Value \<Rightarrow> ordering option" where
  "partial_cmp_numeric L a b =
     (if is_numeric a \<and> is_numeric b
      then case as_decimal L a of
             None \<Rightarrow> None
           | Some a_dec \<Rightarrow>
               (case as_decimal L b of
                  None \<Rightarrow> None
                | Some b_dec \<Rightarrow> Some (dec_cmp L a_dec b_dec))
      else None)"

definition partial_cmp :: "'d libs \<Rightarrow> Value \<Rightarrow> Value \<Rightarrow> ordering option" where
  "partial_cmp L v w =
     (case (v, w) of
        (VNull, VNull) \<Rightarrow> Some Equal
      | (VBool a, VBool b) \<Rightarrow> Some (cmp a b)
      | (VInt a, VInt b) \<Rightarrow> Some (cmp (sint a) (sint b))
      | (VFloat a, VFloat b) \<Rightarrow> f64_partial_cmp a b
      | (VDecimal a, VDecimal b) \<Rightarrow>
          Some (dec_cmp L (dec_deserialize L a) (dec_deserialize L b))
      | (VString a, VString b) \<Rightarrow> Some (cmp a b)
      | (VReference a, VReference b) \<Rightarrow> Some (cmp a b)
      | (VDatetime a, VDatetime b) \<Rightarrow> Some (cmp (sint a) (sint b))
      | (VDuration a, VDuration b) \<Rightarrow> Some (cmp a b)
      | (VBytes a, VBytes b) \<Rightarrow> Some (cmp a b)
      | _ \<Rightarrow> partial_cmp_numeric L v w)"

lemma f64_partial_cmp_reverse: "f64_partial_cmp a b = map_option reverse (f64_partial_cmp b a)"
  by (auto simp: f64_partial_cmp_def)

text \<open>The cross-type rule, read off the value types.\<close>

lemma partial_cmp_cross:
  assumes "is_numeric a" "is_numeric b" "type_name a \<noteq> type_name b"
    and "as_decimal L a = Some x" "as_decimal L b = Some y"
  shows "partial_cmp L a b = Some (dec_cmp L x y)"
  using assms
  by (cases a; cases b; simp add: is_numeric_def type_name_def as_decimal_def
    partial_cmp_def partial_cmp_numeric_def)

lemma partial_cmp_reverse:
  assumes "dec_order L"
  shows "partial_cmp L a b = map_option reverse (partial_cmp L b a)"
proof -
  have n: "partial_cmp_numeric L a b = map_option reverse (partial_cmp_numeric L b a)" for a b
    by (auto simp: partial_cmp_numeric_def dec_cmp_reverse [OF assms, symmetric] split: option.splits)
  show ?thesis
    by (cases a; cases b; simp add: partial_cmp_def dec_cmp_reverse [OF assms, symmetric]
        f64_partial_cmp_reverse [symmetric] n [symmetric])
qed

lemma partial_cmp_comparable_types:
  "partial_cmp L a b \<noteq> None \<Longrightarrow> is_numeric a \<and> is_numeric b \<or> type_name a = type_name b"
  by (cases a; cases b; simp add: is_numeric_def type_name_def partial_cmp_def partial_cmp_numeric_def)

section \<open>Document\<close>

record document =
  doc_id :: string
  doc_fields :: fields

fun split_once :: "char \<Rightarrow> string \<Rightarrow> (string \<times> string) option" where
  "split_once c [] = None"
| "split_once c (x # xs) =
     (if x = c then Some ([], xs)
      else case split_once c xs of None \<Rightarrow> None | Some (a, b) \<Rightarrow> Some (x # a, b))"

text \<open>\<open>str::split\<close> on a character: never empty.\<close>

fun split_str :: "char \<Rightarrow> string \<Rightarrow> string list" where
  "split_str c [] = [[]]"
| "split_str c (x # xs) =
     (if x = c then [] # split_str c xs
      else case split_str c xs of [] \<Rightarrow> [[x]] | s # ss \<Rightarrow> (x # s) # ss)"

definition first_segment :: "char \<Rightarrow> string \<Rightarrow> string" where
  "first_segment c s = takeWhile (\<lambda>x. x \<noteq> c) s"

definition collection :: "document \<Rightarrow> string" where
  "collection d = first_segment (CHR '':'') (doc_id d)"

definition key :: "document \<Rightarrow> string" where
  "key d = (case split_once (CHR '':'') (doc_id d) of None \<Rightarrow> doc_id d | Some (_, k) \<Rightarrow> k)"

lemma split_once_Some_iff:
  "split_once c s = Some (a, b) \<longleftrightarrow> s = a @ c # b \<and> c \<notin> set a"
proof (induction s arbitrary: a)
  case (Cons x s)
  show ?case
  proof (cases "x = c")
    case True
    then show ?thesis by (cases a) auto
  next
    case False
    show ?thesis
    proof (cases a)
      case Nil
      then show ?thesis using False by (auto split: option.splits prod.splits)
    next
      case (Cons y a')
      then show ?thesis using False Cons.IH [of a']
        by (auto split: option.splits prod.splits)
    qed
  qed
qed simp

lemma split_once_None_iff: "split_once c s = None \<longleftrightarrow> c \<notin> set s"
  by (induction s) (auto split: option.splits)

lemma first_segment_append [simp]: "c \<notin> set a \<Longrightarrow> first_segment c (a @ c # b) = a"
  unfolding first_segment_def by (induction a) auto

section \<open>JSON\<close>

text \<open>\<open>serde_json::Value\<close> and \<open>serde_json::Number\<close>, with their documented accessors.\<close>

datatype json =
    JNull | JBool bool | JNumber json_number | JString string
  | JArray "json list" | JObject "(string \<times> json) list"

definition json_as_i64 :: "json_number \<Rightarrow> i64 option" where
  "json_as_i64 n =
     (case n of
        PosInt u \<Rightarrow> if unat u < 2 ^ 63 then Some u else None
      | NegInt i \<Rightarrow> Some i
      | FloatNum _ \<Rightarrow> None)"

definition json_as_f64 :: "json_number \<Rightarrow> f64 option" where
  "json_as_f64 n =
     (case n of
        PosInt u \<Rightarrow> Some (f64_of_nat (unat u))
      | NegInt i \<Rightarrow> Some (f64_of_i64 i)
      | FloatNum f \<Rightarrow> Some f)"

fun from_json :: "json \<Rightarrow> Value" where
  "from_json JNull = VNull"
| "from_json (JBool b) = VBool b"
| "from_json (JNumber n) =
     (case json_as_i64 n of
        Some i \<Rightarrow> VInt i
      | None \<Rightarrow> VFloat (case json_as_f64 n of Some f \<Rightarrow> f | None \<Rightarrow> 0))"
| "from_json (JString s) = VString s"
| "from_json (JArray arr) = VArray (map from_json arr)"
| "from_json (JObject obj) = VObject (hm_extend [] (map (\<lambda>(k, v). (k, from_json v)) obj))"

definition RESERVED_FIELDS :: "string list" where
  "RESERVED_FIELDS = [''id'']"

definition is_reserved_field :: "string \<Rightarrow> bool" where
  "is_reserved_field name = (name \<in> set RESERVED_FIELDS)"

definition extract_user_fields :: "json \<Rightarrow> fields" where
  "extract_user_fields j =
     (case j of
        JObject obj \<Rightarrow>
          hm_extend [] (map (\<lambda>(k, v). (k, from_json v)) (filter (\<lambda>(k, _). \<not> is_reserved_field k) obj))
      | _ \<Rightarrow> [])"

section \<open>A concrete instance of the libraries\<close>

text \<open>Decimals that are integers of absolute value below \<open>2 ^ 96\<close>, which \<open>rust_decimal\<close> holds
  with scale 0; conversions to and from \<open>f64\<close> only for integral numbers.\<close>

definition int_checked :: "int \<Rightarrow> int option" where
  "int_checked i = (if \<bar>i\<bar> < 2 ^ 96 then Some i else None)"

fun le_int :: "bytes \<Rightarrow> int" where
  "le_int [] = 0"
| "le_int (b # bs) = uint b + 256 * le_int bs"

definition int_libs :: "int libs" where
  "int_libs = \<lparr>
     dec_deserialize = (\<lambda>bs. (if bs \<noteq> [] \<and> hd bs = 1 then - 1 else 1) * le_int (tl bs)),
     dec_serialize = (\<lambda>i. (if i < 0 then 1 else 0) #
                          map (\<lambda>k. word_of_int (\<bar>i\<bar> div 256 ^ k)) [0..<15]),
     dec_zero = 0,
     dec_is_zero = (\<lambda>i. i = 0),
     dec_cmp = cmp,
     dec_of_i64 = sint,
     dec_of_f64 = (\<lambda>f. if is_finite f \<and> f64_eq f (f64_trunc f) then Some (sint (f64_as_i64 f)) else None),
     dec_to_f64 = (\<lambda>i. Some (f64_round (i < 0) (nat \<bar>i\<bar> * unit_den) 1)),
     dec_to_string = int_to_string,
     dec_neg = uminus,
     dec_checked_add = (\<lambda>a b. int_checked (a + b)),
     dec_checked_sub = (\<lambda>a b. int_checked (a - b)),
     dec_checked_mul = (\<lambda>a b. int_checked (a * b)),
     dec_checked_div = (\<lambda>a b. if b = 0 then None else int_checked (a div b)),
     dec_checked_rem = (\<lambda>a b. if b = 0 then None else int_checked (a mod b)),
     decimal_bytes_from_str = (\<lambda>s. if s = ''0''
       then Some \<lparr>db_bytes = [0x80], db_is_nan = False, db_is_pos_infinity = False,
                  db_is_neg_infinity = False, db_is_zero = True\<rparr>
       else None) \<rparr>"

lemma int_libs_simps [simp]:
  "dec_cmp int_libs = cmp"
  "dec_of_i64 int_libs = sint"
  "dec_to_string int_libs = int_to_string"
  "dec_zero int_libs = 0"
  "dec_is_zero int_libs = (\<lambda>i. i = 0)"
  by (simp_all add: int_libs_def)

lemma int_libs_order: "dec_order int_libs"
  by (auto simp: dec_order_def)

end
