(* ===== verification/Ast.thy ===== *)
theory Ast
  imports Values
begin

text \<open>
  The expressions of \<open>query/ast/expr.rs\<close> and the traversals of the tree it offers: \<open>walk\<close>,
  \<open>any\<close>, \<open>contains_aggregate\<close> and \<open>try_to_value\<close>.

  A block is a list of statements; the type \<open>'q\<close> stands for the syntax trees the traversals
  never enter, \<open>SelectAst\<close> and the statements that are not expressions. A \<open>walk\<close> passes a state
  through its callback, which the closures of the code capture.
\<close>

section \<open>Operators and leaves\<close>

datatype BinaryOp =
    Add | Sub | Mul | Div
  | Eq | Ne | Gt | Gte | Lt | Lte
  | And | Or
  | Coalesce

datatype UnaryOp = Neg | Not | IsNull | IsNotNull | IsNone | IsNotNone

datatype AggregateArg = Wildcard | AggField string

record AggregateCall =
  agg_namespace :: "string option"
  agg_function :: string
  agg_arg :: AggregateArg
  agg_distinct :: bool

datatype FtsOperator = FtsSimple | FtsNamed string

record MatchField =
  mf_name :: string
  mf_boost :: "f64 option"

datatype MatchMode = MatchSum | MatchMax "f64 option"

datatype FtsTarget = FtsField string | FtsMatch "MatchField list" MatchMode

record ParentRef =
  pr_depth :: nat
  pr_field :: string

datatype TraversalDirection = Outgoing | Incoming | Bidirectional

datatype TraversalDepth = DSingle | DExact nat | DRange "nat option" "nat option"

datatype TraversalMode = Deduplicate | AllPaths

record FieldSelection =
  fs_alias :: "string option"
  fs_path :: string

datatype TraversalTarget =
    TEdge
  | TEdgeAll
  | TEdgeField string
  | TNode string
  | TNodeAll string
  | TNodeField string string
  | TEdgeFields "FieldSelection list"
  | TNodeFields string "FieldSelection list"

section \<open>Expressions\<close>

datatype 'q Expr =
    Literal Value
  | Field string
  | EBinaryOp "'q Expr" BinaryOp "'q Expr"
  | EUnaryOp UnaryOp "'q Expr"
  | FunctionCall string "string option" "'q Expr list"
  | Aggregate AggregateCall
  | InList "'q Expr" "'q Expr list" bool
  | InSubquery "'q Expr" 'q bool
  | InExpr "'q Expr" "'q Expr" bool
  | Subquery 'q
  | EParentRef ParentRef
  | ValueRef "string option"
  | EArray "'q Expr list"
  | EObject "(string \<times> 'q Expr) list"
  | EIndex "'q Expr" "'q Expr"
  | ESlice "'q Expr" "'q Expr option" "'q Expr option"
  | FieldAccess "'q Expr" string
  | EConstant string string
  | EVariable string
  | ERange "'q Expr" "'q Expr"
  | EFts FtsTarget FtsOperator string
  | KnnSearch string "'q Expr" nat "nat option"
  | Traversal "'q TraversalStep list" TraversalTarget "TraversalDirection option"
  | EIf "('q Expr \<times> 'q Statement list) list" "'q Statement list option"
  | EFor string "'q Expr" "'q Statement list"
  | EBreak
  | EContinue
and 'q TraversalStep =
    TraversalStep
      (ts_direction: TraversalDirection)
      (ts_label: "string option")
      (ts_edge_filter: "'q Expr option")
      (ts_depth: TraversalDepth)
      (ts_mode: TraversalMode)
      (ts_node_filter: "string option")
and 'q Statement = SExpr "'q Expr" | SOther 'q

section \<open>Walking the tree\<close>

text \<open>The expressions a \<open>walk\<close> visits right below a node, in the order of the code.\<close>

definition block_exprs :: "'q Statement list \<Rightarrow> 'q Expr list" where
  "block_exprs ss = List.concat (map (\<lambda>s. case s of SExpr e \<Rightarrow> [e] | SOther _ \<Rightarrow> []) ss)"

definition opt_list :: "'a option \<Rightarrow> 'a list" where
  "opt_list x = (case x of None \<Rightarrow> [] | Some a \<Rightarrow> [a])"

fun children :: "'q Expr \<Rightarrow> 'q Expr list" where
  "children (EBinaryOp l _ r) = [l, r]"
| "children (EUnaryOp _ e) = [e]"
| "children (FunctionCall _ _ args) = args"
| "children (InList e list _) = e # list"
| "children (InSubquery e _ _) = [e]"
| "children (InExpr e target _) = [e, target]"
| "children (EArray items) = items"
| "children (EObject pairs) = map snd pairs"
| "children (EIndex base index) = [base, index]"
| "children (ESlice base start end) = base # opt_list start @ opt_list end"
| "children (FieldAccess base _) = [base]"
| "children (ERange start end) = [start, end]"
| "children (KnnSearch _ vec _ _) = [vec]"
| "children (Traversal steps _ _) = List.concat (map (\<lambda>s. opt_list (ts_edge_filter s)) steps)"
| "children (EIf branches else_block) =
     List.concat (map (\<lambda>(cond, block). cond # block_exprs block) branches) @
     (case else_block of None \<Rightarrow> [] | Some block \<Rightarrow> block_exprs block)"
| "children (EFor _ iterable body) = iterable # block_exprs body"
| "children _ = []"

text \<open>\<open>ControlFlow\<close>: the callback returns \<open>Some t\<close> to break. A sequence of calls each
  followed by \<open>?\<close>.\<close>

fun for_each :: "('a \<Rightarrow> 's \<Rightarrow> 's \<times> 't option) \<Rightarrow> 'a list \<Rightarrow> 's \<Rightarrow> 's \<times> 't option" where
  "for_each g [] st = (st, None)"
| "for_each g (x # xs) st =
     (case g x st of
        (st', Some t) \<Rightarrow> (st', Some t)
      | (st', None) \<Rightarrow> for_each g xs st')"

lemma for_each_cong [fundef_cong]:
  assumes "xs = ys" "st = st'" "\<And>x s. x \<in> set ys \<Longrightarrow> g x s = h x s"
  shows "for_each g xs st = for_each h ys st'"
  using assms(3) unfolding assms(1,2)
  by (induction ys arbitrary: st') (auto split: prod.splits option.splits)

lemma size_block_exprs: "e \<in> set (block_exprs ss) \<Longrightarrow> size e < Suc (size_list size ss)"
  by (induction ss) (auto simp: block_exprs_def split: Statement.splits)

lemma size_branches:
  "(c, ss) \<in> set bs \<Longrightarrow> e = c \<or> e \<in> set (block_exprs ss) \<Longrightarrow>
   size e < Suc (size_list (size_prod size (size_list size)) bs)"
  by (induction bs) (fastforce dest: size_block_exprs)+

lemma size_pairs: "e \<in> snd ` set ps \<Longrightarrow> size e < Suc (size_list (size_prod (\<lambda>_. 0) size) ps)"
  by (induction ps) fastforce+

lemma size_elem: "e \<in> set es \<Longrightarrow> size e < Suc (size_list size es)"
  by (induction es) auto

lemma size_steps:
  "s \<in> set steps \<Longrightarrow> ts_edge_filter s = Some e \<Longrightarrow> size e < Suc (size_list size steps)"
proof (induction steps)
  case (Cons t steps)
  then show ?case by (cases t) auto
qed simp

lemma size_children: "c \<in> set (children e) \<Longrightarrow> size c < size e"
proof (cases e)
  case (EObject ps)
  assume "c \<in> set (children e)"
  then show ?thesis using EObject size_pairs [of c ps] by auto
next
  case (Traversal steps t d)
  assume "c \<in> set (children e)"
  then show ?thesis using Traversal
    by (auto simp: opt_list_def split: option.splits dest!: size_steps)
next
  case (EIf bs eb)
  assume "c \<in> set (children e)"
  then consider c' ss where "(c', ss) \<in> set bs" "c = c' \<or> c \<in> set (block_exprs ss)"
    | ss where "eb = Some ss" "c \<in> set (block_exprs ss)"
    using EIf by (auto split: option.splits)
  then show ?thesis
  proof cases
    case 1
    show ?thesis using size_branches [OF 1] EIf by (cases eb) auto
  next
    case 2
    show ?thesis using size_block_exprs [OF 2(2)] EIf 2 by auto
  qed
qed (auto simp: opt_list_def dest: size_elem size_block_exprs split: option.splits)

function walk :: "('q Expr \<Rightarrow> 's \<Rightarrow> 's \<times> 't option) \<Rightarrow> 'q Expr \<Rightarrow> 's \<Rightarrow> 's \<times> 't option" where
  "walk f e st =
     (case f e st of
        (st', Some t) \<Rightarrow> (st', Some t)
      | (st', None) \<Rightarrow> for_each (walk f) (children e) st')"
  by pat_completeness auto
termination by (relation "measure (\<lambda>(f, e, st). size e)") (auto dest: size_children)

declare walk.simps [simp del]

definition any :: "('q Expr \<Rightarrow> bool) \<Rightarrow> 'q Expr \<Rightarrow> bool" where
  "any f e = (snd (walk (\<lambda>x (_ :: unit). ((), if f x then Some () else None)) e ()) \<noteq> None)"

definition contains_aggregate :: "'q Expr \<Rightarrow> bool" where
  "contains_aggregate = any (\<lambda>e. case e of Aggregate _ \<Rightarrow> True | _ \<Rightarrow> False)"

text \<open>The nodes of the tree in pre-order.\<close>

function nodes :: "'q Expr \<Rightarrow> 'q Expr list" where
  "nodes e = e # List.concat (map nodes (children e))"
  by pat_completeness auto
termination by (relation "measure size") (auto dest: size_children)

declare nodes.simps [simp del]

section \<open>Properties\<close>

lemma for_each_append:
  "for_each g (xs @ ys) st =
     (case for_each g xs st of (st', Some t) \<Rightarrow> (st', Some t) | (st', None) \<Rightarrow> for_each g ys st')"
  by (induction xs arbitrary: st) (auto split: prod.splits option.splits)

lemma for_each_concat:
  "for_each (\<lambda>x. for_each g (h x)) xs st = for_each g (List.concat (map h xs)) st"
  by (induction xs arbitrary: st) (auto simp: for_each_append split: prod.splits option.splits)

lemma for_each_pred:
  "snd (for_each (\<lambda>x (_ :: unit). ((), if P x then Some () else None)) xs st) = None \<longleftrightarrow>
   (\<forall>x\<in>set xs. \<not> P x)"
  by (induction xs arbitrary: st) auto

lemma walk_nodes: "walk f e st = for_each f (nodes e) st"
proof (induction "size e" arbitrary: e st rule: less_induct)
  case less
  have "for_each (walk f) (children e) s = for_each (\<lambda>c. for_each f (nodes c)) (children e) s" for s
    by (rule for_each_cong) (auto intro: less size_children)
  then show ?case
    by (subst walk.simps, subst nodes.simps)
      (auto simp: for_each_concat split: prod.splits option.splits)
qed

lemma any_iff: "any P e \<longleftrightarrow> (\<exists>x\<in>set (nodes e). P x)"
  using for_each_pred [of P "nodes e" "()"] by (auto simp: any_def walk_nodes)

lemma is_aggregate_iff: "(case x of Aggregate _ \<Rightarrow> True | _ \<Rightarrow> False) \<longleftrightarrow> (\<exists>c. x = Aggregate c)"
  by (cases x) simp_all

text \<open>\<open>Expr::walk\<close> calls its callback on the nodes of the tree in pre-order, a node
  before what is below it, and stops at the first break: it is the loop over the list of nodes,
  whatever state the callback captures. So \<open>contains_aggregate\<close> holds just for the expressions
  with an aggregate call at some node.\<close>

theorem walk_visits_preorder:
  "walk f e st = for_each f (nodes e) st \<and>
   nodes e = e # List.concat (map nodes (children e)) \<and>
   contains_aggregate e = (\<exists>c. Aggregate c \<in> set (nodes e))"
proof (intro conjI)
  show "contains_aggregate e = (\<exists>c. Aggregate c \<in> set (nodes e))"
    unfolding contains_aggregate_def any_iff is_aggregate_iff by blast
qed (rule walk_nodes, rule nodes.simps)

end
