(* ===== verification/Key_Encoding.thy ===== *)
theory Key_Encoding
  imports Values
begin

unbundle bit_operations_syntax

text \<open>
  \<open>storage/encoding.rs\<close>: the byte keys of the storage layer.

  Edge keys are prefix, node and edge identifiers joined by NUL bytes. Secondary index keys are
  the ordered encodings of the indexed values, a separator 0xFF and the document key. Numbers
  are encoded in a fixed width of 16 bytes (sign, decimal exponent, BCD mantissa), strings with
  escaped NUL bytes and a double NUL as terminator.

  Lengths and digit counts are \<open>nat\<close>; the bytes are words. An index of the code that a contract
  of the crate \<open>decimal_bytes\<close> keeps in range (\<open>bytes[0]\<close> of a non-zero decimal, \<open>expect\<close> on the
  parse of \<open>"0"\<close>) is \<open>hd\<close>, respectively \<open>the\<close>.
\<close>

section \<open>Big- and little-endian integers, positions\<close>

fun to_le_bytes :: "nat \<Rightarrow> nat \<Rightarrow> bytes" where
  "to_le_bytes 0 n = []"
| "to_le_bytes (Suc k) n = of_nat (n mod 256) # to_le_bytes k (n div 256)"

definition to_be_bytes :: "nat \<Rightarrow> nat \<Rightarrow> bytes" where
  "to_be_bytes k n = rev (to_le_bytes k n)"

fun position :: "('a \<Rightarrow> bool) \<Rightarrow> 'a list \<Rightarrow> nat option" where
  "position p [] = None"
| "position p (x # xs) = (if p x then Some 0 else map_option Suc (position p xs))"

definition rposition :: "('a \<Rightarrow> bool) \<Rightarrow> 'a list \<Rightarrow> nat option" where
  "rposition p xs = map_option (\<lambda>i. length xs - 1 - i) (position p (rev xs))"

section \<open>Edge keys\<close>

definition EDGE_PREFIX_OUT :: u8 where "EDGE_PREFIX_OUT = 0x01"
definition EDGE_PREFIX_IN :: u8 where "EDGE_PREFIX_IN = 0x02"
definition EDGE_PREFIX_ID :: u8 where "EDGE_PREFIX_ID = 0x03"
definition EDGE_PREFIX_IDX :: u8 where "EDGE_PREFIX_IDX = 0x04"

definition encode_edge_out_key_single :: "string \<Rightarrow> string \<Rightarrow> bytes" where
  "encode_edge_out_key_single from to =
     EDGE_PREFIX_OUT # as_bytes from @ [0x00] @ as_bytes to"

definition encode_edge_out_key_multi :: "string \<Rightarrow> string \<Rightarrow> string \<Rightarrow> bytes" where
  "encode_edge_out_key_multi from to edge_id =
     EDGE_PREFIX_OUT # as_bytes from @ [0x00] @ as_bytes to @ [0x00] @ as_bytes edge_id"

definition encode_edge_in_key_single :: "string \<Rightarrow> string \<Rightarrow> bytes" where
  "encode_edge_in_key_single to from =
     EDGE_PREFIX_IN # as_bytes to @ [0x00] @ as_bytes from"

definition encode_edge_in_key_multi :: "string \<Rightarrow> string \<Rightarrow> string \<Rightarrow> bytes" where
  "encode_edge_in_key_multi to from edge_id =
     EDGE_PREFIX_IN # as_bytes to @ [0x00] @ as_bytes from @ [0x00] @ as_bytes edge_id"

definition encode_edge_id_key :: "string \<Rightarrow> bytes" where
  "encode_edge_id_key edge_id = EDGE_PREFIX_ID # as_bytes edge_id"

definition encode_edge_id_value :: "string \<Rightarrow> string \<Rightarrow> bytes" where
  "encode_edge_id_value from to = as_bytes from @ [0x00] @ as_bytes to"

definition decode_edge_id_value :: "bytes \<Rightarrow> (string \<times> string) option" where
  "decode_edge_id_value bs =
     (case position (\<lambda>b. b = 0x00) bs of
        None \<Rightarrow> None
      | Some sep \<Rightarrow>
          Some (of_bytes (from_utf8_lossy (take sep bs)),
                of_bytes (from_utf8_lossy (drop (sep + 1) bs))))"

definition encode_edge_out_prefix_v2 :: "string \<Rightarrow> bytes" where
  "encode_edge_out_prefix_v2 from = EDGE_PREFIX_OUT # as_bytes from @ [0x00]"

definition encode_edge_out_prefix_end_v2 :: "string \<Rightarrow> bytes" where
  "encode_edge_out_prefix_end_v2 from = EDGE_PREFIX_OUT # as_bytes from @ [0x01]"

definition encode_edge_out_target_prefix :: "string \<Rightarrow> string \<Rightarrow> bytes" where
  "encode_edge_out_target_prefix from to =
     EDGE_PREFIX_OUT # as_bytes from @ [0x00] @ as_bytes to @ [0x00]"

definition encode_edge_out_target_prefix_end :: "string \<Rightarrow> string \<Rightarrow> bytes" where
  "encode_edge_out_target_prefix_end from to =
     EDGE_PREFIX_OUT # as_bytes from @ [0x00] @ as_bytes to @ [0x01]"

definition encode_edge_in_prefix_v2 :: "string \<Rightarrow> bytes" where
  "encode_edge_in_prefix_v2 to = EDGE_PREFIX_IN # as_bytes to @ [0x00]"

definition encode_edge_in_prefix_end_v2 :: "string \<Rightarrow> bytes" where
  "encode_edge_in_prefix_end_v2 to = EDGE_PREFIX_IN # as_bytes to @ [0x01]"

section \<open>Numbers\<close>

definition TAG_NULL :: u8 where "TAG_NULL = 0x00"
definition TAG_BOOL :: u8 where "TAG_BOOL = 0x01"
definition TAG_NUMBER :: u8 where "TAG_NUMBER = 0x02"
definition TAG_STRING :: u8 where "TAG_STRING = 0x04"
definition TAG_ARRAY :: u8 where "TAG_ARRAY = 0x05"
definition TAG_OBJECT :: u8 where "TAG_OBJECT = 0x06"
definition TAG_DATETIME :: u8 where "TAG_DATETIME = 0x07"
definition TAG_DURATION :: u8 where "TAG_DURATION = 0x08"
definition TAG_BYTES :: u8 where "TAG_BYTES = 0x09"
definition TAG_RANGE :: u8 where "TAG_RANGE = 0x0A"

definition NUMERIC_FIXED_WIDTH :: nat where "NUMERIC_FIXED_WIDTH = 16"
definition NUMERIC_SIGN_NEGATIVE :: u8 where "NUMERIC_SIGN_NEGATIVE = 0x00"
definition NUMERIC_SIGN_ZERO :: u8 where "NUMERIC_SIGN_ZERO = 0x80"
definition NUMERIC_SIGN_POSITIVE :: u8 where "NUMERIC_SIGN_POSITIVE = 0xFF"
definition NUMERIC_NEG_INFINITY :: bytes where "NUMERIC_NEG_INFINITY = replicate 16 0x00"
definition NUMERIC_POS_INFINITY :: bytes where "NUMERIC_POS_INFINITY = replicate 15 0xFF @ [0xFE]"
definition NUMERIC_NAN :: bytes where "NUMERIC_NAN = replicate 16 0xFF"

lemmas tag_defs =
  TAG_NULL_def TAG_BOOL_def TAG_NUMBER_def TAG_STRING_def TAG_ARRAY_def TAG_OBJECT_def
  TAG_DATETIME_def TAG_DURATION_def TAG_BYTES_def TAG_RANGE_def

lemmas numeric_defs =
  NUMERIC_FIXED_WIDTH_def NUMERIC_SIGN_NEGATIVE_def NUMERIC_SIGN_ZERO_def
  NUMERIC_SIGN_POSITIVE_def

definition encode_zero :: bytes where
  "encode_zero = NUMERIC_SIGN_ZERO # replicate (NUMERIC_FIXED_WIDTH - 1) 0x00"

text \<open>A 16-byte array written from its first bytes, the rest filled with \<open>pad\<close>.\<close>

definition fixed_width :: "u8 \<Rightarrow> bytes \<Rightarrow> bytes" where
  "fixed_width pad bs = bs @ replicate (NUMERIC_FIXED_WIDTH - length bs) pad"

definition encode_number_fixed_width :: "'d libs \<Rightarrow> string \<Rightarrow> bytes" where
  "encode_number_fixed_width L s =
     (let dec = (case decimal_bytes_from_str L s of
                   Some d \<Rightarrow> d
                 | None \<Rightarrow> the (decimal_bytes_from_str L ''0''));
          bs = db_bytes dec
      in if db_is_nan dec then NUMERIC_NAN
         else if db_is_pos_infinity dec then NUMERIC_POS_INFINITY
         else if db_is_neg_infinity dec then NUMERIC_NEG_INFINITY
         else if db_is_zero dec then encode_zero
         else
           let exponent = (if 3 \<le> length bs then [bs ! 1, bs ! 2] else [0x00, 0x00]);
               mantissa_len = min (length bs - 3) 13;
               pad_byte = (if hd bs = NUMERIC_SIGN_NEGATIVE then 0xFF else 0x00)
           in fixed_width pad_byte (hd bs # exponent @ take mantissa_len (drop 3 bs)))"

definition count_digits_u64 :: "nat \<Rightarrow> nat" where
  "count_digits_u64 n =
     (if n < 10 then 1
      else if n < 100 then 2
      else if n < 1000 then 3
      else if n < 10000 then 4
      else if n < 100000 then 5
      else if n < 1000000 then 6
      else if n < 10000000 then 7
      else if n < 100000000 then 8
      else if n < 1000000000 then 9
      else if n < 10000000000 then 10
      else if n < 100000000000 then 11
      else if n < 1000000000000 then 12
      else if n < 10000000000000 then 13
      else if n < 100000000000000 then 14
      else if n < 1000000000000000 then 15
      else if n < 10000000000000000 then 16
      else if n < 100000000000000000 then 17
      else if n < 1000000000000000000 then 18
      else if n < 10000000000000000000 then 19
      else 20)"

text \<open>The digit loop of \<open>int_to_bcd\<close>: \<open>k\<close> decimal digits, most significant first.\<close>

fun low_digits :: "nat \<Rightarrow> nat \<Rightarrow> nat list" where
  "low_digits 0 n = []"
| "low_digits (Suc k) n = low_digits k (n div 10) @ [n mod 10]"

definition get_or_zero :: "nat list \<Rightarrow> nat \<Rightarrow> nat" where
  "get_or_zero ds i = (if i < length ds then ds ! i else 0)"

definition bcd_byte :: "nat \<Rightarrow> nat \<Rightarrow> u8" where
  "bcd_byte high low = push_bit 4 (of_nat high) OR of_nat low"

definition pack_bcd :: "nat list \<Rightarrow> bytes" where
  "pack_bcd ds =
     (let padded = (if even (length ds) then length ds else length ds + 1)
      in map (\<lambda>i. bcd_byte (get_or_zero ds (i * 2)) (get_or_zero ds (i * 2 + 1))) [0..<padded div 2])"

definition int_to_bcd :: "nat \<Rightarrow> nat \<Rightarrow> bytes" where
  "int_to_bcd n digit_count = pack_bcd (low_digits digit_count n)"

definition complement :: "u8 \<Rightarrow> u8" where
  "complement m = 0xFF - m"

definition encode_i64_fixed_width :: "i64 \<Rightarrow> bytes" where
  "encode_i64_fixed_width n =
     (if n = 0 then encode_zero
      else
        let is_negative = sint n < 0;
            abs_n = nat \<bar>sint n\<bar>;
            digit_count = count_digits_u64 abs_n;
            mantissa = int_to_bcd abs_n digit_count
        in if is_negative
           then fixed_width 0xFF
                  ([NUMERIC_SIGN_NEGATIVE, 0xFF - 0x40, 0xFF - of_nat digit_count] @
                   map complement mantissa)
           else fixed_width 0x00 ([NUMERIC_SIGN_POSITIVE, 0x40, of_nat digit_count] @ mantissa))"

text \<open>The scanner of \<open>encode_float_string\<close>.\<close>

record float_scan =
  fs_digits :: "nat list"
  fs_decimal_pos :: int
  fs_found_decimal :: bool
  fs_in_exponent :: bool
  fs_exp_negative :: bool
  fs_exponent :: int
  fs_leading_zeros :: int
  fs_found_significant :: bool

definition float_scan_init :: float_scan where
  "float_scan_init = \<lparr>fs_digits = [], fs_decimal_pos = 0, fs_found_decimal = False,
     fs_in_exponent = False, fs_exp_negative = False, fs_exponent = 0, fs_leading_zeros = 0,
     fs_found_significant = False\<rparr>"

definition float_scan_char :: "char \<Rightarrow> float_scan \<Rightarrow> float_scan" where
  "float_scan_char c s =
     (if CHR ''0'' \<le> c \<and> c \<le> CHR ''9'' then
        let digit = of_char c - of_char (CHR ''0'') in
        if fs_in_exponent s then s\<lparr>fs_exponent := fs_exponent s * 10 + int digit\<rparr>
        else if digit = 0 \<and> \<not> fs_found_significant s \<and> fs_found_decimal s
        then s\<lparr>fs_leading_zeros := fs_leading_zeros s + 1\<rparr>
        else if digit \<noteq> 0 \<or> fs_found_significant s
        then s\<lparr>fs_found_significant := True, fs_digits := fs_digits s @ [digit],
               fs_decimal_pos := fs_decimal_pos s + (if fs_found_decimal s then 0 else 1)\<rparr>
        else s
      else if c = CHR ''.'' then s\<lparr>fs_found_decimal := True\<rparr>
      else if c = CHR ''e'' \<or> c = CHR ''E'' then s\<lparr>fs_in_exponent := True\<rparr>
      else if c = CHR ''-'' \<and> fs_in_exponent s then s\<lparr>fs_exp_negative := True\<rparr>
      else s)"

definition encode_float_string :: "string \<Rightarrow> bool \<Rightarrow> bytes" where
  "encode_float_string s is_negative =
     (let st = fold float_scan_char s float_scan_init;
          exponent = (if fs_exp_negative st then - fs_exponent st else fs_exponent st);
          decimal_pos = fs_decimal_pos st + exponent
      in if \<not> fs_found_significant st \<or> fs_digits st = [] then encode_zero
         else
           let decimal_pos' = (if decimal_pos \<le> 0 then decimal_pos - fs_leading_zeros st
                               else decimal_pos);
               exp_bytes = to_be_bytes 2 (nat ((0x4000 + decimal_pos') mod 65536));
               mantissa = take 13 (pack_bcd (fs_digits st))
           in if is_negative
              then fixed_width 0xFF
                     (NUMERIC_SIGN_NEGATIVE # map complement exp_bytes @ map complement mantissa)
              else fixed_width 0x00 (NUMERIC_SIGN_POSITIVE # exp_bytes @ mantissa))"

definition encode_f64_fixed_width :: "f64 \<Rightarrow> bytes" where
  "encode_f64_fixed_width f =
     (if is_nan f then NUMERIC_NAN
      else if f64_eq f f64_infinity then NUMERIC_POS_INFINITY
      else if f64_eq f f64_neg_infinity then NUMERIC_NEG_INFINITY
      else if f64_eq f 0 then encode_zero
      else
        let is_negative = f64_lt f 0; abs_f = f64_abs f
        in if f64_eq abs_f (f64_trunc abs_f) \<and> f64_le abs_f (f64_of_i64 0x7FFFFFFFFFFFFFFF)
           then encode_i64_fixed_width (if is_negative then - f64_as_i64 abs_f else f64_as_i64 abs_f)
           else encode_float_string (f64_to_string abs_f) is_negative)"

section \<open>Values\<close>

text \<open>The escape loop of strings: a NUL byte becomes 0x00 0xFF.\<close>

fun escape_nul :: "bytes \<Rightarrow> bytes" where
  "escape_nul [] = []"
| "escape_nul (b # bs) = (if b = 0x00 then b # 0xFF # escape_nul bs else b # escape_nul bs)"

fun encode_value_ordered :: "'d libs \<Rightarrow> Value \<Rightarrow> bytes" where
  "encode_value_ordered L VNull = [TAG_NULL]"
| "encode_value_ordered L (VBool b) = [TAG_BOOL, if b then 1 else 0]"
| "encode_value_ordered L (VInt n) = TAG_NUMBER # encode_i64_fixed_width n"
| "encode_value_ordered L (VFloat f) = TAG_NUMBER # encode_f64_fixed_width f"
| "encode_value_ordered L (VDecimal d) =
     TAG_NUMBER # encode_number_fixed_width L (dec_to_string L (dec_deserialize L d))"
| "encode_value_ordered L (VString s) = TAG_STRING # escape_nul (as_bytes s) @ [0x00, 0x00]"
| "encode_value_ordered L (VArray _) = [0xFF]"
| "encode_value_ordered L (VObject _) = [0xFF]"
| "encode_value_ordered L (VReference i) = TAG_STRING # escape_nul (as_bytes i) @ [0x00, 0x00]"
| "encode_value_ordered L (VDatetime ms) =
     TAG_DATETIME # to_be_bytes 8 (unat (ms XOR 0x8000000000000000))"
| "encode_value_ordered L (VDuration ns) = TAG_DURATION # to_be_bytes 8 (unat ns)"
| "encode_value_ordered L (VBytes b) = TAG_BYTES # to_be_bytes 4 (length b) @ b"
| "encode_value_ordered L (VRange s e) =
     TAG_RANGE # to_be_bytes 4 (length (encode_value_ordered L s)) @
       encode_value_ordered L s @ encode_value_ordered L e"

definition len_prefixed :: "bytes \<Rightarrow> bytes" where
  "len_prefixed bs = to_le_bytes 4 (length bs) @ bs"

fun encode_value_for_hash :: "'d libs \<Rightarrow> Value \<Rightarrow> bytes" where
  "encode_value_for_hash L VNull = [TAG_NULL]"
| "encode_value_for_hash L (VBool b) = [TAG_BOOL, if b then 1 else 0]"
| "encode_value_for_hash L (VInt n) = TAG_NUMBER # encode_i64_fixed_width n"
| "encode_value_for_hash L (VFloat f) = TAG_NUMBER # encode_f64_fixed_width f"
| "encode_value_for_hash L (VDecimal d) =
     TAG_NUMBER # encode_number_fixed_width L (dec_to_string L (dec_deserialize L d))"
| "encode_value_for_hash L (VString s) = TAG_STRING # as_bytes s @ [0x00]"
| "encode_value_for_hash L (VArray arr) =
     TAG_ARRAY # to_le_bytes 4 (length arr) @
       concat (map (\<lambda>e. len_prefixed (encode_value_for_hash L e)) arr)"
| "encode_value_for_hash L (VObject obj) =
     (let pairs = sort_key fst (map (\<lambda>(k, v). (k, encode_value_for_hash L v)) obj)
      in TAG_OBJECT # to_le_bytes 4 (length pairs) @
         concat (map (\<lambda>(k, e). len_prefixed (as_bytes k) @ len_prefixed e) pairs))"
| "encode_value_for_hash L (VReference i) = TAG_STRING # as_bytes i @ [0x00]"
| "encode_value_for_hash L (VDatetime ms) = TAG_DATETIME # to_le_bytes 8 (unat ms)"
| "encode_value_for_hash L (VDuration ns) = TAG_DURATION # to_le_bytes 8 (unat ns)"
| "encode_value_for_hash L (VBytes b) = TAG_BYTES # to_le_bytes 4 (length b) @ b"
| "encode_value_for_hash L (VRange s e) =
     TAG_RANGE # len_prefixed (encode_value_for_hash L s) @ len_prefixed (encode_value_for_hash L e)"

section \<open>Edge field index keys\<close>

definition encode_edge_field_index_key :: "'d libs \<Rightarrow> string \<Rightarrow> Value \<Rightarrow> string \<Rightarrow> bytes" where
  "encode_edge_field_index_key L field v edge_id =
     EDGE_PREFIX_IDX # as_bytes field @ [0x00] @ encode_value_ordered L v @ [0x00] @ as_bytes edge_id"

definition encode_edge_field_index_prefix :: "string \<Rightarrow> bytes" where
  "encode_edge_field_index_prefix field = EDGE_PREFIX_IDX # as_bytes field @ [0x00]"

definition encode_edge_field_index_prefix_end :: "string \<Rightarrow> bytes" where
  "encode_edge_field_index_prefix_end field = EDGE_PREFIX_IDX # as_bytes field @ [0x01]"

definition encode_edge_field_index_value_prefix :: "'d libs \<Rightarrow> string \<Rightarrow> Value \<Rightarrow> bytes" where
  "encode_edge_field_index_value_prefix L field v =
     EDGE_PREFIX_IDX # as_bytes field @ [0x00] @ encode_value_ordered L v @ [0x00]"

section \<open>Index keys\<close>

definition encode_value_with_delimiter :: "'d libs \<Rightarrow> Value \<Rightarrow> bytes" where
  "encode_value_with_delimiter L v = encode_value_ordered L v"

definition encode_index_key :: "'d libs \<Rightarrow> Value list \<Rightarrow> string \<Rightarrow> bytes" where
  "encode_index_key L vs doc_key =
     concat (map (encode_value_with_delimiter L) vs) @ [0xFF] @ as_bytes doc_key"

definition encode_index_prefix :: "'d libs \<Rightarrow> Value list \<Rightarrow> bytes" where
  "encode_index_prefix L vs = concat (map (encode_value_with_delimiter L) vs)"

definition encode_range_bound_exclusive :: "'d libs \<Rightarrow> Value \<Rightarrow> bytes" where
  "encode_range_bound_exclusive L v = encode_value_with_delimiter L v @ [0xFF]"

text \<open>The loop of \<open>byte_successor\<close>, on the reversed bytes: from the right, the first byte below
  0xFF is incremented and what follows it is cut off.\<close>

fun increment_rev :: "bytes \<Rightarrow> bytes option" where
  "increment_rev [] = None"
| "increment_rev (b # bs) = (if b < 0xFF then Some ((b + 1) # bs) else increment_rev bs)"

definition byte_successor :: "bytes \<Rightarrow> bytes" where
  "byte_successor bs = (case increment_rev (rev bs) of Some r \<Rightarrow> rev r | None \<Rightarrow> bs @ [0x00])"

definition extract_doc_key :: "bytes \<Rightarrow> string option" where
  "extract_doc_key k =
     (case rposition (\<lambda>b. b = 0xFF) k of
        None \<Rightarrow> None
      | Some separator_pos \<Rightarrow>
          (let tail = drop (separator_pos + 1) k
           in if utf8_valid tail then Some (of_bytes tail) else None))"

function skip_string :: "bytes \<Rightarrow> nat \<Rightarrow> nat option" where
  "skip_string data i =
     (if i + 1 < length data then
        if data ! i = 0x00 \<and> data ! (i + 1) = 0x00 then Some (i + 2)
        else if data ! i = 0x00 \<and> data ! (i + 1) = 0xFF then skip_string data (i + 2)
        else skip_string data (i + 1)
      else None)"
  by pat_completeness auto

termination skip_string
  by (relation "measure (\<lambda>(data, i). length data - i)") auto

declare skip_string.simps [simp del]

definition skip_encoded_value :: "bytes \<Rightarrow> nat option" where
  "skip_encoded_value data =
     (case data of
        [] \<Rightarrow> None
      | t # _ \<Rightarrow>
          if t = TAG_NULL then Some 1
          else if t = TAG_BOOL then Some 2
          else if t = TAG_NUMBER then Some (1 + NUMERIC_FIXED_WIDTH)
          else if t = TAG_STRING then skip_string data 1
          else None)"

section \<open>Order of the integer encoding\<close>

lemma length_low_digits [simp]: "length (low_digits k n) = k"
  by (induction k arbitrary: n) auto

lemma low_digits_less_10: "d \<in> set (low_digits k n) \<Longrightarrow> d < 10"
  by (induction k arbitrary: n) auto

lemma low_digits_mono:
  assumes "m < n" "n < 10 ^ k"
  shows "low_digits k m < low_digits k n"
  using assms
proof (induction k arbitrary: m n)
  case (Suc k)
  have "n div 10 < 10 ^ k" using Suc.prems(2) by (simp add: div_less_iff_less_mult mult.commute)
  moreover have "m div 10 < n div 10 \<or> m div 10 = n div 10 \<and> m mod 10 < n mod 10"
    using div_le_mono [OF less_imp_le [OF Suc.prems(1)], of 10] Suc.prems(1)
      div_mult_mod_eq [of m 10] div_mult_mod_eq [of n 10] by linarith
  ultimately show ?case
    using Suc.IH [of "m div 10" "n div 10"] by (auto simp: append_less_append_eq_len)
qed simp

fun pack_pairs :: "nat list \<Rightarrow> bytes" where
  "pack_pairs [] = []"
| "pack_pairs [h] = [bcd_byte h 0]"
| "pack_pairs (h # l # ds) = bcd_byte h l # pack_pairs ds"

lemma pack_bcd_alt:
  "pack_bcd ds = map (\<lambda>i. bcd_byte (get_or_zero ds (i * 2)) (get_or_zero ds (i * 2 + 1)))
     [0..<(length ds + 1) div 2]"
  by (simp add: pack_bcd_def Let_def)

lemma pack_bcd_eq_pairs: "pack_bcd ds = pack_pairs ds"
proof (induction ds rule: pack_pairs.induct)
  case (3 h l ds)
  have n: "(length (h # l # ds) + 1) div 2 = Suc ((length ds + 1) div 2)" by simp
  have up: "[0..<Suc n] = 0 # map Suc [0..<n]" for n
    by (simp add: map_Suc_upt upt_conv_Cons del: upt_Suc)
  have "pack_bcd (h # l # ds) = bcd_byte h l # pack_bcd ds"
    unfolding pack_bcd_alt n up by (simp add: get_or_zero_def o_def)
  with 3 show ?case by simp
qed (simp_all add: pack_bcd_def get_or_zero_def)

lemma bcd_byte_eq: "h < 10 \<Longrightarrow> l < 10 \<Longrightarrow> unat (bcd_byte h l) = 16 * h + l"
proof -
  have "\<forall>h\<in>set [0..<10]. \<forall>l\<in>set [0..<10]. unat (bcd_byte h l) = 16 * h + l"
    unfolding bcd_byte_def by code_simp
  then show "h < 10 \<Longrightarrow> l < 10 \<Longrightarrow> unat (bcd_byte h l) = 16 * h + l" by simp
qed

lemma pack_pairs_mono:
  assumes "length xs = length ys" "\<forall>d\<in>set xs. d < 10" "\<forall>d\<in>set ys. d < 10" "xs < ys"
  shows "pack_pairs xs < pack_pairs ys"
  using assms
proof (induction xs arbitrary: ys rule: pack_pairs.induct)
  case (2 h)
  then obtain h' where "ys = [h']" by (cases ys) auto
  with 2 show ?case by (simp add: word_less_nat_alt bcd_byte_eq)
next
  case (3 h l ds)
  then obtain h' l' ds' where ys: "ys = h' # l' # ds'"
    by (cases ys; cases "tl ys") auto
  with 3 show ?case
    by (auto simp: word_less_nat_alt bcd_byte_eq)
qed simp

lemma length_pack_pairs: "length (pack_pairs ds) = (length ds + 1) div 2"
  by (induction ds rule: pack_pairs.induct) auto

lemma count_digits_u64_bounds:
  assumes "0 < n" "n < 10 ^ 20"
  shows "n < 10 ^ count_digits_u64 n" "10 ^ (count_digits_u64 n - 1) \<le> n"
    "0 < count_digits_u64 n" "count_digits_u64 n \<le> 20"
  using assms unfolding count_digits_u64_def by (simp_all split: if_split)

lemma count_digits_u64_mono:
  assumes "0 < m" "m < n" "n < 10 ^ 20" 
  shows "count_digits_u64 m \<le> count_digits_u64 n"
proof (rule ccontr)
  assume "\<not> ?thesis"
  then have "count_digits_u64 n \<le> count_digits_u64 m - 1" by simp
  then have "(10::nat) ^ count_digits_u64 n \<le> 10 ^ (count_digits_u64 m - 1)"
    by (intro power_increasing) auto
  also have "\<dots> \<le> m" using count_digits_u64_bounds [of m] assms by simp
  also have "m < 10 ^ count_digits_u64 n" using count_digits_u64_bounds [of n] assms by simp
  finally show False by simp
qed

text \<open>A positive number; a negative one is the bytewise complement of its absolute value.\<close>

definition encode_positive :: "nat \<Rightarrow> bytes" where
  "encode_positive n =
     fixed_width 0x00 ([NUMERIC_SIGN_POSITIVE, 0x40, of_nat (count_digits_u64 n)] @
       int_to_bcd n (count_digits_u64 n))"

lemma length_int_to_bcd [simp]: "length (int_to_bcd n k) = (k + 1) div 2"
  by (simp add: int_to_bcd_def pack_bcd_eq_pairs length_pack_pairs)

lemma length_encode_positive [simp]:
  "0 < n \<Longrightarrow> n < 10 ^ 20 \<Longrightarrow> length (encode_positive n) = NUMERIC_FIXED_WIDTH"
  using count_digits_u64_bounds(4) [of n]
  by (simp add: encode_positive_def fixed_width_def NUMERIC_FIXED_WIDTH_def)

lemma complement_antimono: "a < b \<Longrightarrow> complement b < complement a"
proof -
  have "unat (complement x) = 255 - unat x" for x
  proof -
    have "x \<le> (0xFF :: u8)"
      using unsigned_less [of x, where ?'a = nat] by (simp add: word_le_nat_alt)
    then show ?thesis by (simp add: complement_def unat_sub_if' word_le_nat_alt)
  qed
  moreover assume "a < b"
  moreover have "unat b < 256" using unsigned_less [of b, where ?'a = nat] by simp
  ultimately show ?thesis by (simp add: word_less_nat_alt)
qed

lemma abs_i64_bound: "nat \<bar>sint (n :: i64)\<bar> < 10 ^ 20"
proof -
  have "- (2 ^ 63) \<le> sint n" "sint n < 2 ^ 63"
    using sint_ge [of n] sint_lt [of n] by simp_all
  then show ?thesis by simp
qed

lemma encode_i64_cases:
  "encode_i64_fixed_width n =
     (if sint n = 0 then encode_zero
      else if sint n < 0 then map complement (encode_positive (nat \<bar>sint n\<bar>))
      else encode_positive (nat \<bar>sint n\<bar>))"
  by (auto simp: encode_i64_fixed_width_def encode_positive_def fixed_width_def Let_def
      numeric_defs complement_def signed_eq_0_iff)

lemma encode_positive_mono:
  assumes "0 < m" "m < n" "n < 10 ^ 20"
  shows "encode_positive m < encode_positive n"
proof (cases "count_digits_u64 m = count_digits_u64 n")
  case True
  have "low_digits (count_digits_u64 n) m < low_digits (count_digits_u64 n) n"
    using assms count_digits_u64_bounds(1) [of n] by (intro low_digits_mono) auto
  then have "int_to_bcd m (count_digits_u64 n) < int_to_bcd n (count_digits_u64 n)"
    unfolding int_to_bcd_def pack_bcd_eq_pairs
    by (intro pack_pairs_mono) (auto dest: low_digits_less_10)
  then show ?thesis
    by (simp add: encode_positive_def fixed_width_def True append_less_append_eq_len)
next
  case False
  then have "count_digits_u64 m < count_digits_u64 n"
    using count_digits_u64_mono [OF assms] by simp
  moreover have "count_digits_u64 n \<le> 20" using count_digits_u64_bounds(4) [of n] assms by simp
  ultimately have "(of_nat (count_digits_u64 m) :: u8) < of_nat (count_digits_u64 n)"
    by (simp add: word_less_nat_alt unat_of_nat)
  then show ?thesis by (simp add: encode_positive_def fixed_width_def)
qed

lemma length_encode_i64 [simp]: "length (encode_i64_fixed_width n) = NUMERIC_FIXED_WIDTH"
  using abs_i64_bound [of n]
  by (simp add: encode_i64_cases) (simp add: encode_zero_def numeric_defs)

lemma encode_i64_mono:
  assumes "sint m < sint n"
  shows "encode_i64_fixed_width m < encode_i64_fixed_width n"
proof -
  have pos: "encode_positive k = 0xFF # tl (encode_positive k)" for k
    by (simp add: encode_positive_def fixed_width_def numeric_defs)
  have zero: "encode_zero = 0x80 # tl encode_zero"
    by (simp add: encode_zero_def numeric_defs)
  have neg: "map complement (encode_positive k) = 0x00 # tl (map complement (encode_positive k))" for k
    by (subst pos) (simp add: complement_def map_tl)
  consider "sint n < 0" | "sint m < 0" "0 \<le> sint n" | "0 \<le> sint m" using assms by linarith
  then show ?thesis
  proof cases
    case 1
    have "encode_positive (nat \<bar>sint n\<bar>) < encode_positive (nat \<bar>sint m\<bar>)"
      using 1 assms abs_i64_bound [of m] by (intro encode_positive_mono) auto
    then show ?thesis using 1 assms abs_i64_bound [of m] abs_i64_bound [of n]
      by (simp add: encode_i64_cases map_antimono_less complement_antimono)
  next
    case 2
    then show ?thesis
      by (cases "sint n = 0"; simp add: encode_i64_cases)
        (subst neg, subst zero, simp, subst neg, subst pos, simp)
  next
    case 3
    show ?thesis
    proof (cases "sint m = 0")
      case True
      then show ?thesis using assms
        by (simp add: encode_i64_cases) (subst pos, subst zero, simp)
    next
      case False
      then show ?thesis using 3 assms abs_i64_bound [of n]
        by (simp add: encode_i64_cases encode_positive_mono)
    qed
  qed
qed

lemma encode_i64_less_iff [lex_simps]:
  "encode_i64_fixed_width m < encode_i64_fixed_width n \<longleftrightarrow> sint m < sint n"
  using encode_i64_mono [of m n] encode_i64_mono [of n m]
  by (metis less_asym linorder_less_linear signed_word_eqI)

section \<open>Order and unique parsing of value encodings\<close>

lemma escape_nul_less:
  "xs < ys \<Longrightarrow> escape_nul xs @ 0x00 # 0x00 # a < escape_nul ys @ 0x00 # 0x00 # b"
proof (induction xs arbitrary: ys)
  case Nil
  then obtain y ys' where "ys = y # ys'" by (cases ys) auto
  then show ?case by (auto simp: word_gt_0)
next
  case (Cons x xs)
  then obtain y ys' where ys: "ys = y # ys'" by (cases ys) auto
  with Cons show ?case by (auto simp: word_gt_0)
qed

lemma escape_nul_inj:
  assumes "escape_nul xs @ 0x00 # 0x00 # a = escape_nul ys @ 0x00 # 0x00 # b"
  shows "xs = ys \<and> a = b"
proof -
  have "xs = ys"
    using escape_nul_less [of xs ys a b] escape_nul_less [of ys xs b a] assms
    by (metis less_irrefl linorder_less_linear)
  with assms show ?thesis by simp
qed

lemma length_to_le_bytes [simp]: "length (to_le_bytes k n) = k"
  by (induction k arbitrary: n) auto

lemma length_to_be_bytes [simp]: "length (to_be_bytes k n) = k"
  by (simp add: to_be_bytes_def)

lemma to_le_bytes_inj:
  "m < 256 ^ k \<Longrightarrow> n < 256 ^ k \<Longrightarrow> to_le_bytes k m = to_le_bytes k n \<longleftrightarrow> m = n"
proof (induction k arbitrary: m n)
  case (Suc k)
  have u: "(of_nat (x mod 256) :: u8) = of_nat (y mod 256) \<longleftrightarrow> x mod 256 = y mod 256" for x y
    by (simp add: of_nat_eq_iff word_eq_iff_unsigned unat_of_nat word_unat_eq_iff)
  have "m div 256 < 256 ^ k" "n div 256 < 256 ^ k"
    using Suc.prems by (simp_all add: div_less_iff_less_mult mult.commute)
  with Suc.IH show ?case
    by (auto simp: u) (metis div_mult_mod_eq)
qed simp

lemma to_be_bytes_inj:
  "m < 256 ^ k \<Longrightarrow> n < 256 ^ k \<Longrightarrow> to_be_bytes k m = to_be_bytes k n \<longleftrightarrow> m = n"
  by (simp add: to_be_bytes_def to_le_bytes_inj)

lemma to_be_bytes_Suc: "to_be_bytes (Suc k) n = to_be_bytes k (n div 256) @ [of_nat (n mod 256)]"
  by (simp add: to_be_bytes_def)

lemma to_be_bytes_mono:
  "m < n \<Longrightarrow> n < 256 ^ k \<Longrightarrow> to_be_bytes k m < to_be_bytes k n"
proof (induction k arbitrary: m n)
  case (Suc k)
  have "n div 256 < 256 ^ k" using Suc.prems(2) by (simp add: div_less_iff_less_mult mult.commute)
  moreover have "m div 256 < n div 256 \<or> m div 256 = n div 256 \<and> m mod 256 < n mod 256"
    using div_le_mono [OF less_imp_le [OF Suc.prems(1)], of 256] Suc.prems(1)
      div_mult_mod_eq [of m 256] div_mult_mod_eq [of n 256] by linarith
  moreover have "(of_nat (m mod 256) :: u8) < of_nat (n mod 256) \<longleftrightarrow> m mod 256 < n mod 256"
    by (simp add: word_less_nat_alt unat_of_nat)
  ultimately show ?case
    using Suc.IH [of "m div 256" "n div 256"]
    by (auto simp: to_be_bytes_Suc append_less_append_eq_len)
qed simp

lemma cmp_to_be_bytes:
  assumes "m < 256 ^ k" "n < 256 ^ k"
  shows "cmp (to_be_bytes k m) (to_be_bytes k n) = cmp m n"
  using to_be_bytes_mono [of m n k] to_be_bytes_mono [of n m k] assms
  by (cases m n rule: linorder_cases) (auto simp: cmp_def)

lemma sint_eq_unat: "sint (w :: 64 word) = (if unat w < 2 ^ 63 then int (unat w) else int (unat w) - 2 ^ 64)"
proof -
  have lt: "unat w < 2 ^ 64" using unsigned_less [of w, where ?'a = nat] by simp
  have "sint w = signed_take_bit 63 (uint w)" by (simp add: sint_uint)
  also have "\<dots> = (uint w + 2 ^ 63) mod 2 ^ 64 - 2 ^ 63"
    by (simp add: signed_take_bit_eq_take_bit_shift take_bit_eq_mod)
  also have "\<dots> = (if unat w < 2 ^ 63 then int (unat w) else int (unat w) - 2 ^ 64)"
  proof -
    obtain u where u: "uint w = int u" "unat w = u" by (metis uint_nat)
    have "(int u + 2 ^ 63) mod 2 ^ 64 = (if u < 2 ^ 63 then int u + 2 ^ 63 else int u - 2 ^ 63)"
    proof (cases "u < 2 ^ 63")
      case False
      then have "(int u + 2 ^ 63) mod 2 ^ 64 = (int u + 2 ^ 63 - 2 ^ 64) mod 2 ^ 64"
        by (intro mod_pos_geq) simp_all
      also have "\<dots> = int u - 2 ^ 63" using False lt u(2) by (simp add: mod_pos_pos_trivial)
      finally show ?thesis using False by simp
    qed (simp add: mod_pos_pos_trivial)
    then show ?thesis unfolding u by simp
  qed
  finally show ?thesis .
qed

lemma unat_flip_sign: "int (unat ((w :: 64 word) XOR 0x8000000000000000)) = sint w + 2 ^ 63"
proof -
  have lt: "unat w < 2 ^ 64" using unsigned_less [of w, where ?'a = nat] by simp
  have "uint (w XOR 0x8000000000000000) = uint w XOR 2 ^ 63"
    by (simp add: unsigned_xor_eq)
  also have "\<dots> = flip_bit 63 (uint w)" by (simp add: flip_bit_eq_xor push_bit_eq_mult)
  finally have e: "uint (w XOR 0x8000000000000000) = flip_bit 63 (uint w)" .
  have "uint w div 2 ^ 63 = (if 2 ^ 63 \<le> unat w then 1 else 0)"
  proof -
    have "unat w div 2 ^ 63 = (if 2 ^ 63 \<le> unat w then 1 else 0)"
      using lt by (auto intro!: div_nat_eqI)
    then have "int (unat w div 2 ^ 63) = (if 2 ^ 63 \<le> unat w then 1 else 0)" by simp
    then show ?thesis by (simp add: zdiv_int)
  qed
  then have b: "bit (uint w) 63 \<longleftrightarrow> 2 ^ 63 \<le> unat w" by (simp add: bit_iff_odd)
  show ?thesis
    using e unfolding flip_bit_eq_if using b
    by (auto simp: sint_eq_unat set_bit_eq unset_bit_eq)
qed

declare NUMERIC_FIXED_WIDTH_def [simp]

lemma length_fixed_width [simp]: "length (fixed_width pad bs) = max NUMERIC_FIXED_WIDTH (length bs)"
  by (simp add: fixed_width_def)

lemma length_encode_zero [simp]: "length encode_zero = NUMERIC_FIXED_WIDTH"
  by (simp add: encode_zero_def)

lemma length_numeric_markers [simp]:
  "length NUMERIC_NAN = NUMERIC_FIXED_WIDTH"
  "length NUMERIC_POS_INFINITY = NUMERIC_FIXED_WIDTH"
  "length NUMERIC_NEG_INFINITY = NUMERIC_FIXED_WIDTH"
  by (simp_all add: NUMERIC_NAN_def NUMERIC_POS_INFINITY_def NUMERIC_NEG_INFINITY_def)

lemma length_encode_float_string [simp]: "length (encode_float_string s neg) = NUMERIC_FIXED_WIDTH"
  by (simp add: encode_float_string_def Let_def)

lemma length_encode_f64 [simp]: "length (encode_f64_fixed_width f) = NUMERIC_FIXED_WIDTH"
  by (simp add: encode_f64_fixed_width_def Let_def)

lemma length_encode_number [simp]: "length (encode_number_fixed_width L s) = NUMERIC_FIXED_WIDTH"
  by (simp add: encode_number_fixed_width_def Let_def)

text \<open>Lengths are written as \<open>u32\<close>: parsing is unique for values that fit.\<close>

fun encodable :: "'d libs \<Rightarrow> Value \<Rightarrow> bool" where
  "encodable L (VBytes b) = (length b < 2 ^ 32)"
| "encodable L (VRange s e) =
     (encodable L s \<and> encodable L e \<and> length (encode_value_ordered L s) < 2 ^ 32)"
| "encodable L _ = True"

lemma encode_value_prefix_free:
  assumes "encodable L a" "encodable L b"
    and "encode_value_ordered L a @ x = encode_value_ordered L b @ y"
  shows "encode_value_ordered L a = encode_value_ordered L b \<and> x = y"
  using assms
proof (induction a arbitrary: b x y)
  case (VRange s e)
  show ?case
  proof (cases b)
    case (VRange s' e')
    with VRange.prems
    have "to_be_bytes 4 (length (encode_value_ordered L s)) = to_be_bytes 4 (length (encode_value_ordered L s'))"
      by (simp add: append_eq_append_conv)
    then have len: "length (encode_value_ordered L s) = length (encode_value_ordered L s')"
      using VRange.prems VRange to_be_bytes_inj [of _ 4] by simp
    with VRange.prems VRange VRange.IH(2) [of e' x y] show ?thesis
      by (simp add: append_eq_append_conv)
  qed (use VRange.prems in \<open>simp_all add: tag_defs\<close>)
next
  case (VBytes bs)
  show ?case
  proof (cases b)
    case (VBytes cs)
    with VBytes.prems have "length bs = length cs"
      using to_be_bytes_inj [of "length bs" 4 "length cs"] by (simp add: append_eq_append_conv)
    with VBytes.prems VBytes show ?thesis by (simp add: append_eq_append_conv)
  qed (use VBytes.prems in \<open>simp_all add: tag_defs\<close>)
next
  case (VString s)
  then show ?case by (cases b) (auto simp: tag_defs dest: escape_nul_inj)
next
  case (VReference s)
  then show ?case by (cases b) (auto simp: tag_defs dest: escape_nul_inj)
qed (case_tac b; simp add: tag_defs append_eq_append_conv)+

lemma escape_nul_less_iff [lex_simps]:
  "escape_nul xs @ 0x00 # 0x00 # a < escape_nul ys @ 0x00 # 0x00 # b \<longleftrightarrow> xs < ys \<or> xs = ys \<and> a < b"
  using escape_nul_less [of xs ys a b] escape_nul_less [of ys xs b a]
  by (cases xs ys rule: linorder_cases) auto

lemma cmp_Cons_same [simp]: "cmp (x # xs) (x # ys) = cmp xs ys"
  by (simp add: cmp_def)

lemma cmp_escape_nul: "cmp (escape_nul xs @ [0x00, 0x00]) (escape_nul ys @ [0x00, 0x00]) = cmp xs ys"
  using escape_nul_less_iff [of xs "[]" ys "[]"] escape_nul_inj [of xs "[]" ys "[]"]
  by (auto simp: cmp_def)

lemma cmp_as_bytes [simp]: "cmp (as_bytes s) (as_bytes t) = cmp s t"
  by (simp add: cmp_def)

lemma cmp_encode_i64: "cmp (encode_i64_fixed_width m) (encode_i64_fixed_width n) = cmp (sint m) (sint n)"
  using encode_i64_mono [of m n] encode_i64_mono [of n m]
  by (cases "sint m" "sint n" rule: linorder_cases) (auto simp: cmp_def dest: signed_word_eqI)

lemma unat_less_256_pow: "unat (w :: 64 word) < 256 ^ 8"
  using unsigned_less [of w, where ?'a = nat] by simp

lemma cmp_u64_be_bytes: "cmp (to_be_bytes 8 (unat m)) (to_be_bytes 8 (unat n)) = cmp m n"
  for m n :: u64
  using cmp_to_be_bytes [OF unat_less_256_pow unat_less_256_pow, of m n]
  by (simp add: cmp_def word_less_nat_alt word_unat_eq_iff)

lemma cmp_shift: "int M = a + c \<Longrightarrow> int N = b + c \<Longrightarrow> cmp M N = cmp a b"
  by (auto simp: cmp_def)

lemma cmp_flip_sign: "cmp (m XOR 0x8000000000000000) (n XOR 0x8000000000000000) = cmp (sint m) (sint n)"
  for m n :: i64
  using cmp_shift [OF unat_flip_sign unat_flip_sign, of m n]
  by (simp only: cmp_def word_less_nat_alt word_unat_eq_iff)

text \<open>The scalar types on which the encoding and the order of values agree.\<close>

definition order_encoded :: "Value \<Rightarrow> bool" where
  "order_encoded v =
     (case v of VNull \<Rightarrow> True | VBool _ \<Rightarrow> True | VInt _ \<Rightarrow> True | VString _ \<Rightarrow> True | VReference _ \<Rightarrow> True
      | VDatetime _ \<Rightarrow> True | VDuration _ \<Rightarrow> True | _ \<Rightarrow> False)"

lemma encode_value_order:
  assumes "order_encoded a" "type_name a = type_name b"
  shows "partial_cmp L a b = Some (cmp (encode_value_ordered L a) (encode_value_ordered L b))"
  using assms
  by (cases a; cases b; simp add: order_encoded_def type_name_def partial_cmp_def cmp_escape_nul
      cmp_encode_i64 cmp_u64_be_bytes cmp_flip_sign) (auto simp: cmp_def)

text \<open>Keys of a compound index compare field by field.\<close>

lemma encode_prefix_free_less:
  assumes "encodable L a" "encodable L b" "encode_value_ordered L a < encode_value_ordered L b"
  shows "encode_value_ordered L a @ x < encode_value_ordered L b @ y"
proof (rule less_append_if_not_prefix [OF assms(3)])
  show "\<nexists>zs. encode_value_ordered L b = encode_value_ordered L a @ zs"
    using encode_value_prefix_free [OF assms(1,2), of _ "[]"] assms(3) by fastforce
qed

lemma encode_index_prefix_Cons:
  "encode_index_prefix L (v # vs) = encode_value_ordered L v @ encode_index_prefix L vs"
  by (simp add: encode_index_prefix_def encode_value_with_delimiter_def)

lemma compound_key_order:
  assumes "length as = length bs" "\<forall>v\<in>set as. encodable L v" "\<forall>v\<in>set bs. encodable L v"
  shows "encode_index_prefix L as @ x < encode_index_prefix L bs @ y \<longleftrightarrow>
    map (encode_value_ordered L) as < map (encode_value_ordered L) bs \<or>
    map (encode_value_ordered L) as = map (encode_value_ordered L) bs \<and> x < y"
  using assms
proof (induction as bs rule: list_induct2)
  case (Cons a as b bs)
  have e: "encodable L a" "encodable L b" using Cons.prems by auto
  have lt: "encode_value_ordered L a @ u < encode_value_ordered L b @ v"
    if "encode_value_ordered L a < encode_value_ordered L b" for u v
    using encode_prefix_free_less [OF e that] .
  have gt: "encode_value_ordered L b @ v < encode_value_ordered L a @ u"
    if "encode_value_ordered L b < encode_value_ordered L a" for u v
    using encode_prefix_free_less [OF e(2,1) that] .
  show ?case
    using Cons lt gt
    by (cases "encode_value_ordered L a" "encode_value_ordered L b" rule: linorder_cases)
      (auto simp: encode_index_prefix_Cons dest: less_not_sym)
qed (simp add: encode_index_prefix_def)

section \<open>Parsing keys\<close>

lemma position_append_first:
  "\<forall>x\<in>set xs. \<not> p x \<Longrightarrow> p y \<Longrightarrow> position p (xs @ y # ys) = Some (length xs)"
  by (induction xs) auto

lemma rposition_append_last:
  assumes "\<forall>x\<in>set ys. \<not> p x" "p y"
  shows "rposition p (xs @ y # ys) = Some (length xs)"
  using assms position_append_first [of "rev ys" p y "rev xs"] by (simp add: rposition_def)

lemma extract_encoded_doc_key:
  assumes "utf8_valid (as_bytes k)"
  shows "extract_doc_key (encode_index_key L vs k) = Some k"
proof -
  have "rposition (\<lambda>b. b = 0xFF) (encode_index_key L vs k)
      = Some (length (concat (map (encode_value_with_delimiter L) vs)))"
    using utf8_valid_no_FF [OF assms] unfolding encode_index_key_def
    by (simp add: rposition_append_last) (intro rposition_append_last; auto)
  then show ?thesis using assms by (simp add: extract_doc_key_def Let_def encode_index_key_def)
qed

lemma skip_string_escaped:
  "skip_string (pre @ escape_nul s @ 0x00 # 0x00 # rest) (length pre)
     = Some (length pre + length (escape_nul s) + 2)"
proof (induction s arbitrary: pre)
  case Nil
  then show ?case by (subst skip_string.simps) (simp add: nth_append)
next
  case (Cons b bs)
  show ?case
  proof (cases "b = 0")
    case True
    then show ?thesis using Cons [of "pre @ [0x00, 0xFF]"]
      by (subst skip_string.simps) (simp add: nth_append)
  next
    case False
    then show ?thesis using Cons [of "pre @ [b]"]
      by (subst skip_string.simps) (simp add: nth_append)
  qed
qed

section \<open>Key ranges\<close>

lemma append_le_append_same [simp]: "(p :: 'a::linorder list) @ x \<le> p @ y \<longleftrightarrow> x \<le> y"
  by (metis append_less_append_same not_le)

lemma less_one_word: "(b :: u8) < 1 \<longleftrightarrow> b = 0"
  by (metis word_less_1 word_neq_0_conv zero_less_one)

text \<open>The strings from \<open>p b\<close> up to \<open>p (b + 1)\<close> are those that start with \<open>p b\<close>.\<close>

lemma between_prefixes:
  fixes p :: bytes
  assumes "b < 0xFF" "\<forall>x\<in>set fs. x = 0xFF"
  shows "p @ b # fs \<le> k \<and> k < p @ [b + 1] \<longleftrightarrow> (\<exists>r. k = p @ b # fs @ r)"
proof -
  have lt: "x < b + 1 \<longleftrightarrow> x \<le> b" for x :: u8
    using assms(1) unsigned_less [of b, where ?'a = nat]
    by (simp add: word_less_nat_alt word_le_nat_alt unat_word_ariths(1))
      (metis less_Suc_eq_le mod_less)
  have FF: "(x :: u8) \<le> 0xFF" for x
    using unsigned_less [of x, where ?'a = nat] by (simp add: word_le_nat_alt)
  have nFF: "\<not> (0xFF :: u8) < x" for x
    using FF [of x] by (simp add: not_less)
  have top: "fs \<le> t \<longleftrightarrow> (\<exists>r. t = fs @ r)" for t
    using assms(2)
  proof (induction fs arbitrary: t)
    case (Cons f fs)
    then show ?case using FF by (cases t) (auto simp: nFF)
  qed simp
  show ?thesis
  proof (induction p arbitrary: k)
    case Nil
    show ?case
    proof (cases k)
      case (Cons x t)
      have "b # fs \<le> x # t \<and> x # t < [b + 1] \<longleftrightarrow> x = b \<and> fs \<le> t"
        using lt [of x] lt [of b] by (auto simp: not_less)
      then show ?thesis using Cons top [of t] by auto
    qed simp
  next
    case (Cons q p)
    note IH = Cons.IH
    show ?case
    proof (cases k)
      case (Cons x t)
      have "(q # p) @ b # fs \<le> x # t \<and> x # t < (q # p) @ [b + 1] \<longleftrightarrow>
          x = q \<and> (p @ b # fs \<le> t \<and> t < p @ [b + 1])" by auto
      then show ?thesis using Cons IH [of t] by auto
    qed simp
  qed
qed


lemma between_nul:
  fixes p :: bytes
  shows "p @ [0x00] \<le> k \<and> k < p @ [0x01] \<longleftrightarrow> (\<exists>r. k = p @ 0x00 # r)"
  using between_prefixes [of 0 "[]" p k] by simp

lemma increment_rev_Some:
  "increment_rev bs = Some r \<Longrightarrow>
     \<exists>fs b t. bs = fs @ b # t \<and> r = (b + 1) # t \<and> b < 0xFF \<and> (\<forall>x\<in>set fs. x = 0xFF)"
proof (induction bs)
  case (Cons b bs)
  show ?case
  proof (cases "b < 0xFF")
    case True
    with Cons.prems show ?thesis by (intro exI [of _ "[]"]) auto
  next
    case False
    then have "b = 0xFF"
      using unsigned_less [of b, where ?'a = nat] by (simp add: word_less_nat_alt word_unat_eq_iff)
    moreover obtain fs c t where "bs = fs @ c # t" "r = (c + 1) # t" "c < 0xFF" "\<forall>x\<in>set fs. x = 0xFF"
      using Cons False by auto
    ultimately show ?thesis by (intro exI [of _ "b # fs"]) auto
  qed
qed simp

lemma increment_rev_None: "increment_rev bs = None \<longleftrightarrow> (\<forall>x\<in>set bs. x = 0xFF)"
proof (induction bs)
  case (Cons b bs)
  have "\<not> b < 0xFF \<longleftrightarrow> b = 0xFF"
    using unsigned_less [of b, where ?'a = nat] by (auto simp: word_less_nat_alt word_unat_eq_iff)
  with Cons show ?case by auto
qed simp

text \<open>\<open>byte_successor\<close> closes the range of the keys with a given prefix, unless the prefix
  consists of 0xFF bytes.\<close>

lemma byte_successor_range:
  assumes "\<exists>x\<in>set bs. x \<noteq> 0xFF"
  shows "bs \<le> k \<and> k < byte_successor bs \<longleftrightarrow> (\<exists>r. k = bs @ r)"
proof -
  obtain r where r: "increment_rev (rev bs) = Some r"
    using assms increment_rev_None [of "rev bs"] by (cases "increment_rev (rev bs)") auto
  then obtain fs b t where d: "rev bs = fs @ b # t" "r = (b + 1) # t" "b < 0xFF" "\<forall>x\<in>set fs. x = 0xFF"
    using increment_rev_Some by blast
  have bs: "bs = rev t @ b # rev fs" using arg_cong [OF d(1), of rev] by simp
  have "byte_successor bs = rev t @ [b + 1]" by (simp add: byte_successor_def r d(2))
  then show ?thesis
    using between_prefixes [OF d(3), of "rev fs" "rev t" k] d(4) by (simp add: bs)
qed

lemma byte_successor_all_FF:
  "\<forall>x\<in>set bs. x = 0xFF \<Longrightarrow> byte_successor bs = bs @ [0x00]"
  using increment_rev_None [of "rev bs"] by (simp add: byte_successor_def)

section \<open>Edge keys\<close>

lemma append_nul_inj:
  assumes "0 \<notin> set (a :: bytes)" "0 \<notin> set b" "a @ 0 # x = b @ 0 # y"
  shows "a = b \<and> x = y"
  using assms
proof (induction a arbitrary: b)
  case Nil
  then show ?case by (cases b) auto
next
  case (Cons c a)
  then show ?case by (cases b) auto
qed

section \<open>Integers and integral floats\<close>

lemma round_half_even_scale: "0 < d \<Longrightarrow> round_half_even (a * d) (b * d) = round_half_even a b"
proof -
  assume d: "0 < d"
  have "2 * (a mod b * d) < b * d \<longleftrightarrow> 2 * (a mod b) < b" "b * d < 2 * (a mod b * d) \<longleftrightarrow> b < 2 * (a mod b)"
    using d by (metis mult.assoc mult_less_cancel2)+
  then show ?thesis using d by (simp add: round_half_even_def Let_def mult_mod_left [symmetric])
qed

lemma i64_max_f64: "f64_of_i64 0x7FFFFFFFFFFFFFFF = 0x43E0000000000000"
proof -
  define N where "N = (2 ^ 63 - 1 :: nat)"
  have N: "2 ^ 62 \<le> N" "N < 2 ^ 63" "53 \<le> N" by (simp_all add: N_def)
  have "2 ^ 62 * unit_den \<le> N * unit_den" "N * unit_den < 2 ^ 63 * unit_den"
    using N by (auto simp: unit_den_def)
  then have "ilog2 (N * unit_den) = 1136"
    by (intro ilog2_eq) (simp_all only: unit_den_def power_add [symmetric] Suc_eq_plus1, simp_all)
  moreover have "\<not> N * unit_den < 2 ^ 53"
  proof -
    have "(2::nat) ^ 53 * 1 \<le> N * unit_den"
      using N by (intro mult_le_mono) (auto simp: unit_den_def N_def)
    then show ?thesis by simp
  qed
  moreover have "round_half_even (N * unit_den) (2 ^ 1084) = 2 ^ 53"
  proof -
    have "(2::nat) ^ 1084 = 2 ^ 10 * unit_den" by (simp only: unit_den_def power_add [symmetric]) simp
    then have "round_half_even (N * unit_den) (2 ^ 1084) = round_half_even N (2 ^ 10)"
      by (simp only:) (rule round_half_even_scale, simp add: unit_den_def)
    also have "\<dots> = 2 ^ 53" by (simp add: N_def round_half_even_def)
    finally show ?thesis .
  qed
  ultimately have "round_mag (N * unit_den) 1 = 1084 * 2 ^ 52 + 2 ^ 53"
    by (simp add: round_mag_def Let_def f64_inf_mag_def del: power_numeral) simp
  moreover have "nat \<bar>sint (0x7FFFFFFFFFFFFFFF :: i64)\<bar> = N" "\<not> sint (0x7FFFFFFFFFFFFFFF :: i64) < 0"
    by (simp_all add: N_def)
  ultimately show ?thesis
    by (simp add: f64_of_i64_def f64_round_def f64_of_mag_def)
qed

lemma units_two_63: "mag_units (f64_mag 0x43E0000000000000) = 2 ^ 63 * unit_den"
proof -
  have "f64_mag 0x43E0000000000000 = 1085 * 2 ^ 52 + 2 ^ 52" by (simp add: f64_mag_def)
  then have "mag_units (f64_mag 0x43E0000000000000) = 2 ^ 52 * 2 ^ 1085"
    using mag_units_normal [of "2 ^ 52" 1085] by simp
  also have "\<dots> = 2 ^ 63 * unit_den" by (simp only: unit_den_def power_add [symmetric]) simp
  finally show ?thesis .
qed

lemma encode_f64_integral:
  assumes fin: "is_finite f" and u: "f64_units f = sint n * int unit_den" and n: "sint n \<noteq> - (2 ^ 63)"
  shows "encode_f64_fixed_width f = encode_i64_fixed_width n"
proof -
  define m where "m = f64_mag f"
  define k where "k = nat \<bar>sint n\<bar>"
  have den: "0 < unit_den" by (simp add: unit_den_def)
  have m: "m < f64_inf_mag" "m < 2 ^ 63" using fin inf_mag_less by (simp_all add: is_finite_def m_def)
  have units: "mag_units m = k * unit_den"
  proof -
    have "int (mag_units m) = \<bar>f64_units f\<bar>" by (simp add: f64_units_def m_def)
    also have "\<dots> = int (k * unit_den)" by (simp add: u abs_mult k_def)
    finally show ?thesis by (simp only: of_nat_eq_iff)
  qed
  have k: "k < 2 ^ 63" using n sint_ge [of n] sint_lt [of n] by (simp add: k_def)
  have nan: "\<not> is_nan f" "\<not> is_nan 0" "\<not> is_nan f64_infinity" "\<not> is_nan f64_neg_infinity"
    using m by (simp_all add: is_nan_def m_def)
  have key: "f64_key f = (if f64_neg_bit f then - int m else int m)" by (simp add: f64_key_def m_def)
  have ninf: "\<not> f64_eq f f64_infinity" "\<not> f64_eq f f64_neg_infinity"
    using nan key m by (auto simp: f64_eq_def f64_partial_cmp_def f64_key_def [of f64_infinity]
        f64_key_def [of f64_neg_infinity])
  have zero: "f64_eq f 0 \<longleftrightarrow> m = 0"
    using nan key by (auto simp: f64_eq_def f64_partial_cmp_def f64_key_def [of 0])
  have m0: "m = 0 \<longleftrightarrow> sint n = 0"
    using units den mag_units_eq_0 [of m] by (auto simp: k_def)
  have "f64_units 0 = 0" by (simp add: f64_units_def)
  then have neg: "f64_lt f 0 \<longleftrightarrow> sint n < 0"
    using u den nan
    by (simp add: f64_lt_def f64_partial_cmp_def cmp_f64_key_units mult_less_0_iff)
  define a where "a = f64_abs f"
  have a: "f64_mag a = m" "\<not> f64_neg_bit a" using m by (simp_all add: a_def f64_abs_def m_def)
  have "f64_trunc a = a"
    using a m units den round_mag_units [OF m(1)] f64_of_mag_id [of a]
    by (simp add: f64_trunc_def is_finite_def f64_round_def)
  moreover have "f64_le a (f64_of_i64 0x7FFFFFFFFFFFFFFF)"
  proof -
    have "f64_units a \<le> f64_units 0x43E0000000000000"
      using a units k units_two_63 by (simp add: f64_units_def f64_neg_bit_def mult_right_mono)
    moreover have "\<not> is_nan a" "\<not> is_nan 0x43E0000000000000"
      using a m by (simp_all add: is_nan_def) (simp add: f64_mag_def f64_inf_mag_def)
    ultimately show ?thesis
      unfolding i64_max_f64 f64_le_def f64_lt_def f64_eq_def f64_partial_cmp_def cmp_f64_key_units
      by (auto simp: cmp_def)
  qed
  moreover have "f64_eq a a" using a m by (intro f64_eq_refl) (simp add: is_nan_def)
  moreover have "f64_as_i64 a = word_of_int (int k)"
    using a m units den k by (simp add: f64_as_i64_def is_nan_def)
  moreover have "(if sint n < 0 then - word_of_int (int k) else word_of_int (int k)) = n"
    by (simp add: k_def flip: of_int_minus)
  ultimately show ?thesis
    using nan ninf zero m0 neg
    by (auto simp: encode_f64_fixed_width_def a_def [symmetric] Let_def signed_eq_0_iff
        encode_i64_fixed_width_def [of 0])
qed

section \<open>The hash encoding\<close>

text \<open>Values whose encoding for unique constraints determines them: no number that is not an
  \<open>Int\<close>, no reference, and lengths that fit in \<open>u32\<close>.\<close>

fun hash_exact :: "'d libs \<Rightarrow> Value \<Rightarrow> bool" where
  "hash_exact L (VFloat _) = False"
| "hash_exact L (VDecimal _) = False"
| "hash_exact L (VReference _) = False"
| "hash_exact L (VArray arr) =
     (length arr < 2 ^ 32 \<and>
      list_all (\<lambda>e. hash_exact L e \<and> length (encode_value_for_hash L e) < 2 ^ 32) arr)"
| "hash_exact L (VObject obj) =
     (hm_wf obj \<and> length obj < 2 ^ 32 \<and>
      list_all (\<lambda>(k, e). length k < 2 ^ 32 \<and> hash_exact L e \<and> length (encode_value_for_hash L e) < 2 ^ 32) obj)"
| "hash_exact L (VRange s e) =
     (hash_exact L s \<and> hash_exact L e \<and> length (encode_value_for_hash L s) < 2 ^ 32 \<and>
      length (encode_value_for_hash L e) < 2 ^ 32)"
| "hash_exact L _ = True"

lemma encode_i64_eq_iff [simp]: "encode_i64_fixed_width m = encode_i64_fixed_width n \<longleftrightarrow> m = n"
  using encode_i64_less_iff [of m n] encode_i64_less_iff [of n m]
  by (metis less_irrefl linorder_less_linear signed_word_eqI)

lemma u64_le_bytes_inj: "to_le_bytes 8 (unat m) = to_le_bytes 8 (unat n) \<longleftrightarrow> m = n" for m n :: u64
  using to_le_bytes_inj [OF unat_less_256_pow unat_less_256_pow, of m n] by (simp add: word_unat_eq_iff)

lemma len_prefixed_inj:
  assumes "length a < 2 ^ 32" "length b < 2 ^ 32" "len_prefixed a @ x = len_prefixed b @ y"
  shows "a = b \<and> x = y"
proof -
  have "length a = length b"
    using assms to_le_bytes_inj [of "length a" 4 "length b"]
    by (simp add: len_prefixed_def append_eq_append_conv)
  with assms(3) show ?thesis by (simp add: len_prefixed_def append_eq_append_conv)
qed

lemma len_prefixed_concat_inj:
  assumes "length xs = length ys" "\<forall>x\<in>set xs. length x < 2 ^ 32" "\<forall>y\<in>set ys. length y < 2 ^ 32"
    and "concat (map len_prefixed xs) = concat (map len_prefixed ys)"
  shows "xs = ys"
  using assms
proof (induction xs ys rule: list_induct2)
  case (Cons x xs y ys)
  then have "x = y \<and> concat (map len_prefixed xs) = concat (map len_prefixed ys)"
    using len_prefixed_inj [of x y] by simp
  with Cons show ?case by simp
qed simp

lemma encode_object_eq:
  assumes "hm_wf obj"
  shows "encode_value_for_hash L (VObject obj) =
    TAG_OBJECT # to_le_bytes 4 (length obj) @
      concat (map len_prefixed (concat (map (\<lambda>(k, v). [as_bytes k, encode_value_for_hash L v]) obj)))"
proof -
  have "sort_key fst (map (\<lambda>(k, v). (k, encode_value_for_hash L v)) obj)
      = map (\<lambda>(k, v). (k, encode_value_for_hash L v)) obj"
    using assms
    by (intro sort_key_id_if_sorted) (simp add: hm_wf_def strict_sorted_iff o_def case_prod_beta)
  moreover have "concat (map (\<lambda>(k, e). len_prefixed (as_bytes k) @ len_prefixed e)
        (map (\<lambda>(k, v). (k, encode_value_for_hash L v)) obj))
      = concat (map len_prefixed (concat (map (\<lambda>(k, v). [as_bytes k, encode_value_for_hash L v]) obj)))"
    by (induction obj) auto
  ultimately show ?thesis by (simp add: Let_def)
qed

lemma concat_pairs_inj:
  assumes "length xs = length ys"
    and "concat (map (\<lambda>(k, v). [as_bytes k, f v]) xs) = concat (map (\<lambda>(k, v). [as_bytes k, f v]) ys)"
  shows "map fst xs = map fst ys \<and> map (f \<circ> snd) xs = map (f \<circ> snd) ys"
  using assms by (induction xs ys rule: list_induct2) auto

lemma map_eq_elems:
  assumes "map f xs = map f ys" "\<And>x y. x \<in> set xs \<Longrightarrow> y \<in> set ys \<Longrightarrow> f x = f y \<Longrightarrow> x = y"
  shows "xs = ys"
proof -
  have "length xs = length ys" using assms(1) map_eq_imp_length_eq by blast
  then show ?thesis using assms by (induction xs ys rule: list_induct2) auto
qed

lemma encode_for_hash_inj:
  assumes "hash_exact L a" "hash_exact L b" "encode_value_for_hash L a = encode_value_for_hash L b"
  shows "a = b"
  using assms
proof (induction a arbitrary: b)
  case (VArray xs)
  show ?case
  proof (cases b)
    case b: (VArray ys)
    have bounds: "length xs < 2 ^ 32" "length ys < 2 ^ 32"
      "\<forall>e\<in>set xs. length (encode_value_for_hash L e) < 2 ^ 32"
      "\<forall>e\<in>set ys. length (encode_value_for_hash L e) < 2 ^ 32"
      using VArray.prems b by (auto simp: list_all_iff)
    have eq: "to_le_bytes 4 (length xs) = to_le_bytes 4 (length ys)"
      "concat (map len_prefixed (map (encode_value_for_hash L) xs))
         = concat (map len_prefixed (map (encode_value_for_hash L) ys))"
      using VArray.prems(3) b by (simp_all add: append_eq_append_conv o_def)
    have "length xs = length ys" using eq(1) to_le_bytes_inj [of _ 4] bounds by simp
    then have "map (encode_value_for_hash L) xs = map (encode_value_for_hash L) ys"
      using bounds eq(2) by (intro len_prefixed_concat_inj) auto
    then have "xs = ys"
      by (rule map_eq_elems) (use VArray b in \<open>auto simp: list_all_iff\<close>)
    then show ?thesis by (simp add: b)
  qed (use VArray.prems in \<open>simp_all add: tag_defs Let_def\<close>)
next
  case (VObject xs)
  show ?case
  proof (cases b)
    case b: (VObject ys)
    have wf: "hm_wf xs" "hm_wf ys" using VObject.prems b by auto
    have bounds: "length xs < 2 ^ 32" "length ys < 2 ^ 32"
      "\<forall>(k, e)\<in>set xs. length k < 2 ^ 32 \<and> hash_exact L e \<and> length (encode_value_for_hash L e) < 2 ^ 32"
      "\<forall>(k, e)\<in>set ys. length k < 2 ^ 32 \<and> hash_exact L e \<and> length (encode_value_for_hash L e) < 2 ^ 32"
      using VObject.prems b by (auto simp: list_all_iff)
    let ?p = "\<lambda>(k, v). [as_bytes k, encode_value_for_hash L v]"
    have eq: "to_le_bytes 4 (length xs) = to_le_bytes 4 (length ys)"
      "concat (map len_prefixed (concat (map ?p xs))) = concat (map len_prefixed (concat (map ?p ys)))"
      using VObject.prems(3) unfolding b encode_object_eq [OF wf(1)] encode_object_eq [OF wf(2)]
      by (simp_all add: append_eq_append_conv)
    have len: "length xs = length ys" using eq(1) to_le_bytes_inj [of _ 4] bounds by simp
    have l2: "length (concat (map ?p zs)) = 2 * length zs" for zs
      by (induction zs) auto
    have "concat (map ?p xs) = concat (map ?p ys)"
      using bounds eq(2) len l2 by (intro len_prefixed_concat_inj) auto
    then have m: "map fst xs = map fst ys"
      "map (encode_value_for_hash L) (map snd xs) = map (encode_value_for_hash L) (map snd ys)"
      using concat_pairs_inj [OF len] by auto
    have "map snd xs = map snd ys"
      by (rule map_eq_elems [OF m(2)]) (use VObject.IH bounds in \<open>fastforce\<close>)
    with m(1) show ?thesis by (simp add: b pair_list_eqI)
  qed (use VObject.prems in \<open>simp_all add: tag_defs Let_def\<close>)
next
  case (VRange s e)
  show ?case
  proof (cases b)
    case b: (VRange s' e')
    have "len_prefixed (encode_value_for_hash L s) @ len_prefixed (encode_value_for_hash L e) =
        len_prefixed (encode_value_for_hash L s') @ len_prefixed (encode_value_for_hash L e')"
      using VRange.prems(3) b by simp
    moreover have bounds: "length (encode_value_for_hash L s) < 2 ^ 32" "length (encode_value_for_hash L s') < 2 ^ 32"
      "length (encode_value_for_hash L e) < 2 ^ 32" "length (encode_value_for_hash L e') < 2 ^ 32"
      using VRange.prems(1,2) b by simp_all
    ultimately have s: "encode_value_for_hash L s = encode_value_for_hash L s'"
      and "len_prefixed (encode_value_for_hash L e) = len_prefixed (encode_value_for_hash L e')"
      using len_prefixed_inj by blast+
    then have "encode_value_for_hash L e = encode_value_for_hash L e'"
      using len_prefixed_inj [OF bounds(3,4), of "[]" "[]"] by simp
    with s VRange b show ?thesis by auto
  qed (use VRange.prems in \<open>simp_all add: tag_defs Let_def\<close>)
next
  case (VBytes bs)
  show ?case
  proof (cases b)
    case (VBytes cs)
    then have "length bs = length cs" using arg_cong [OF VBytes.prems(3), of length] by simp
    then show ?thesis using VBytes.prems VBytes by (simp add: append_eq_append_conv)
  qed (use VBytes.prems in \<open>simp_all add: tag_defs Let_def\<close>)
next
  case (VBool x)
  then show ?case by (cases b) (simp_all add: tag_defs Let_def split: if_splits)
qed (case_tac b; simp add: tag_defs Let_def u64_le_bytes_inj)+

lemma of_char_eq_0: "(of_char c :: u8) = 0 \<longleftrightarrow> c = CHR 0x00"
proof -
  have "(of_char c :: u8) = 0 \<longleftrightarrow> unat (of_char c :: u8) = 0" by (simp only: unat_eq_0)
  also have "\<dots> \<longleftrightarrow> (of_char c :: nat) = of_char (CHR 0x00)" by (simp only: unat_of_char) simp
  finally show ?thesis by (simp only: of_char_eq_iff)
qed

lemma nul_in_as_bytes: "0 \<in> set (as_bytes s) \<longleftrightarrow> CHR 0x00 \<in> set s"
  using of_char_eq_0 by (auto simp: as_bytes_def image_def)

section \<open>Properties\<close>



text \<open>C2: Index keys with the same number of fields compare field by field, then by document key:
  no field's bytes run into the next one's.\<close>

theorem index_key_field_by_field:
  assumes "length as = length bs" "\<forall>v\<in>set as \<union> set bs. encodable L v"
  shows "encode_index_key L as k < encode_index_key L bs l \<longleftrightarrow>
    map (encode_value_ordered L) as < map (encode_value_ordered L) bs \<or>
    map (encode_value_ordered L) as = map (encode_value_ordered L) bs \<and> k < l"
  using compound_key_order [OF assms(1), of L "0xFF # as_bytes k" "0xFF # as_bytes l"] assms(2)
  by (simp add: encode_index_key_def encode_index_prefix_def)

theorem index_key_field_by_field_witness:
  "encode_index_key int_libs [VString ''a'', VInt 2] ''k1'' < encode_index_key int_libs [VString ''a'', VInt 2] ''k2''"
  using index_key_field_by_field
    [of "[VString ''a'', VInt 2]" "[VString ''a'', VInt 2]" int_libs "''k1''" "''k2''"] by simp

text \<open>C3: The document key is recovered from every index key; a document key is a Rust string,
  hence well-formed UTF-8.\<close>

theorem extract_doc_key_roundtrip:
  assumes "utf8_valid (as_bytes k)"
  shows "extract_doc_key (encode_index_key L vs k) = Some k"
  using assms by (rule extract_encoded_doc_key)

theorem extract_doc_key_roundtrip_witness:
  "extract_doc_key (encode_index_key int_libs [VInt (- 1), VArray []] ''alice'') = Some ''alice''"
  by (rule extract_doc_key_roundtrip) (simp add: utf8_next_def)

text \<open>\<open>skip_encoded_value\<close> finds the end of an encoded null, bool, number, string or
  reference, whatever follows it; on every other type it gives up.\<close>

theorem skip_encoded_value_exact:
  "skip_encoded_value (encode_value_ordered L v @ rest) =
     (if type_name v \<in> {''null'', ''bool'', ''int'', ''float'', ''decimal'', ''string'', ''reference''}
      then Some (length (encode_value_ordered L v)) else None)"
  using skip_string_escaped [of "[TAG_STRING]" _ rest]
  by (cases v) (simp_all add: skip_encoded_value_def type_name_def tag_defs)

text \<open>An integral float other than \<open>-2^63\<close> has the key of the integer it equals, so that
  indexes and unique constraints identify \<open>100\<close> and \<open>100.0\<close>.\<close>

theorem float_int_same_key:
  assumes "is_finite f" "f64_units f = sint n * int unit_den" "sint n \<noteq> - (2 ^ 63)"
  shows "encode_value_ordered L (VFloat f) = encode_value_ordered L (VInt n) \<and>
    encode_value_for_hash L (VFloat f) = encode_value_for_hash L (VInt n)"
  using encode_f64_integral [OF assms] by simp

theorem float_int_same_key_witness:
  "encode_value_ordered int_libs (VFloat 0x4059000000000000) = encode_value_ordered int_libs (VInt 100) \<and>
   encode_value_for_hash int_libs (VFloat 0x4059000000000000) = encode_value_for_hash int_libs (VInt 100)"
proof (rule float_int_same_key)
  have m: "f64_mag 0x4059000000000000 = 1028 * 2 ^ 52 + 100 * 2 ^ 46" by (simp add: f64_mag_def)
  have "mag_units (f64_mag 0x4059000000000000) = 100 * 2 ^ 46 * 2 ^ 1028"
    unfolding m by (rule mag_units_normal) simp_all
  also have "\<dots> = 100 * unit_den" by (simp only: mult.assoc power_add [symmetric] unit_den_def) simp
  finally show "f64_units 0x4059000000000000 = sint (100 :: i64) * int unit_den"
    by (simp add: f64_units_def f64_neg_bit_def)
  show "is_finite 0x4059000000000000" by (simp add: is_finite_def m f64_inf_mag_def)
qed simp

text \<open>C4: The encoding hashed for unique constraints is injective on values without floats,
  decimals and references.\<close>

theorem encode_value_for_hash_injective:
  assumes "hash_exact L a" "hash_exact L b"
  shows "encode_value_for_hash L a = encode_value_for_hash L b \<longleftrightarrow> a = b"
  using encode_for_hash_inj [OF assms] by auto

theorem encode_value_for_hash_injective_witness:
  "encode_value_for_hash int_libs (VArray [VString ''a'', VInt 1]) \<noteq>
   encode_value_for_hash int_libs (VArray [VString ''b'', VInt 1])"
  using encode_value_for_hash_injective
    [of int_libs "VArray [VString ''a'', VInt 1]" "VArray [VString ''b'', VInt 1]"] by simp

text \<open>The half-open range that lists the outgoing edges of a node holds exactly the OUT keys
  whose source is that node, for NUL-free identifiers: a node whose identifier extends another's
  does not leak into its range.\<close>

theorem edge_out_range_exact:
  assumes "CHR 0x00 \<notin> set from" "CHR 0x00 \<notin> set f"
    and "k = encode_edge_out_key_single f t \<or> k = encode_edge_out_key_multi f t e"
  shows "encode_edge_out_prefix_v2 from \<le> k \<and> k < encode_edge_out_prefix_end_v2 from \<longleftrightarrow> f = from"
proof -
  obtain r where k: "k = EDGE_PREFIX_OUT # as_bytes f @ 0 # r"
    using assms(3) by (auto simp: encode_edge_out_key_single_def encode_edge_out_key_multi_def)
  have "encode_edge_out_prefix_v2 from \<le> k \<and> k < encode_edge_out_prefix_end_v2 from \<longleftrightarrow>
      (\<exists>s. as_bytes f @ 0 # r = as_bytes from @ 0 # s)"
    using between_nul [of "EDGE_PREFIX_OUT # as_bytes from" k]
    by (simp add: encode_edge_out_prefix_v2_def encode_edge_out_prefix_end_v2_def k)
  also have "\<dots> \<longleftrightarrow> f = from"
    using append_nul_inj [of "as_bytes f" "as_bytes from"] assms(1,2) by (auto simp: nul_in_as_bytes)
  finally show ?thesis .
qed

theorem edge_out_range_exact_witness:
  "encode_edge_out_prefix_v2 ''user:al'' \<le> encode_edge_out_key_single ''user:al'' ''user:bob'' \<and>
   encode_edge_out_key_single ''user:al'' ''user:bob'' < encode_edge_out_prefix_end_v2 ''user:al'' \<and>
   \<not> (encode_edge_out_prefix_v2 ''user:al'' \<le> encode_edge_out_key_single ''user:alice'' ''user:bob'' \<and>
     encode_edge_out_key_single ''user:alice'' ''user:bob'' < encode_edge_out_prefix_end_v2 ''user:al'')"
  using edge_out_range_exact [of "''user:al''" "''user:al''" _ "''user:bob''"]
    edge_out_range_exact [of "''user:al''" "''user:alice''" _ "''user:bob''"] by fastforce

text \<open>The same for the incoming edges of a node.\<close>

lemma edge_in_range_exact:
  assumes "CHR 0x00 \<notin> set to" "CHR 0x00 \<notin> set t"
    and "k = encode_edge_in_key_single t f \<or> k = encode_edge_in_key_multi t f e"
  shows "encode_edge_in_prefix_v2 to \<le> k \<and> k < encode_edge_in_prefix_end_v2 to \<longleftrightarrow> t = to"
proof -
  obtain r where k: "k = EDGE_PREFIX_IN # as_bytes t @ 0 # r"
    using assms(3) by (auto simp: encode_edge_in_key_single_def encode_edge_in_key_multi_def)
  have "encode_edge_in_prefix_v2 to \<le> k \<and> k < encode_edge_in_prefix_end_v2 to \<longleftrightarrow>
      (\<exists>s. as_bytes t @ 0 # r = as_bytes to @ 0 # s)"
    using between_nul [of "EDGE_PREFIX_IN # as_bytes to" k]
    by (simp add: encode_edge_in_prefix_v2_def encode_edge_in_prefix_end_v2_def k)
  also have "\<dots> \<longleftrightarrow> t = to"
    using append_nul_inj [of "as_bytes t" "as_bytes to"] assms(1,2) by (auto simp: nul_in_as_bytes)
  finally show ?thesis .
qed

text \<open>Decoding the value of the edge ID index gives back its endpoints.\<close>

theorem edge_id_value_roundtrip:
  assumes "CHR 0x00 \<notin> set from" "utf8_valid (as_bytes from)" "utf8_valid (as_bytes to)"
  shows "decode_edge_id_value (encode_edge_id_value from to) = Some (from, to)"
proof -
  have "position (\<lambda>b. b = 0x00) (as_bytes from @ 0x00 # as_bytes to) = Some (length from)"
    using position_append_first [of "as_bytes from" "\<lambda>b. b = 0x00" "0x00" "as_bytes to"] assms(1)
      nul_in_as_bytes [of "from"] by fastforce
  then show ?thesis using assms by (simp add: decode_edge_id_value_def encode_edge_id_value_def)
qed

theorem edge_id_value_roundtrip_witness:
  "decode_edge_id_value (encode_edge_id_value ''user:a'' ''user:b'') = Some (''user:a'', ''user:b'')"
  by (rule edge_id_value_roundtrip) (simp_all add: utf8_next_def)

text \<open>\<open>byte_successor\<close> is the exclusive upper bound of the keys with a prefix, provided that
  some byte of the prefix is not 0xFF.\<close>

theorem byte_successor_bounds_prefix:
  assumes "\<exists>x\<in>set bs. x \<noteq> 0xFF"
  shows "bs \<le> k \<and> k < byte_successor bs \<longleftrightarrow> (\<exists>r. k = bs @ r)"
  using assms by (rule byte_successor_range)

theorem byte_successor_bounds_prefix_witness:
  "[0x02, 0xFF] \<le> [0x02, 0xFF, 0x07 :: u8] \<and> [0x02, 0xFF, 0x07] < byte_successor [0x02, 0xFF]"
  using byte_successor_bounds_prefix [of "[0x02, 0xFF]" "[0x02, 0xFF, 0x07]"] by simp

text \<open>For a prefix of 0xFF bytes it is not: every index key of an array or object lies above
  the bound computed for its own value.\<close>

theorem byte_successor_misses_array_keys:
  "byte_successor (encode_value_ordered L (VArray xs)) \<le> encode_index_key L [VArray ys] k"
  by (simp add: byte_successor_all_FF encode_index_key_def encode_value_with_delimiter_def)

end
