(* ===== verification/Keyspace.thy ===== *)
theory Keyspace
  imports Key_Encoding
begin

text \<open>
  The interface of the storage engine (the crate \<open>fjall\<close>) as the storage layer uses it, and
  \<open>StorageError\<close>.

  A keyspace is a state of an abstract type \<open>'ks\<close>; its operations are the fields of the record
  \<open>fjall\<close>. Each may fail with an error of the engine. The locale \<open>keyspace\<close> states what the
  engine documents: a keyspace holds a finite map from byte strings to byte strings, a
  successful write changes that map, and an iterator yields the entries of its range in key
  order, possibly cut short by an error; \<open>fetch_update\<close> replaces one entry atomically and returns
  the one it saw. \<open>mem_fjall\<close> is an in-memory engine, an
  association list, on which the laws are discharged.
\<close>

section \<open>Errors\<close>

text \<open>\<open>StoragePanic\<close> is not a constructor of the code: it stands for a panic.\<close>

datatype StorageError =
    Fjall string
  | Serialization string
  | Conflict string
  | Index string
  | Io string
  | NotFound string
  | AlreadyExists string
  | InvalidOperation string
  | CollectionNotLoaded string
  | IndexLookupFailed string
  | BackendNotFound string
  | InvalidConfig string
  | TransactionFailed string
  | OtherError string
  | StoragePanic string

section \<open>Engine\<close>

type_synonym ks_item = "StorageError + (bytes \<times> bytes)"

record 'ks fjall =
  ks_get :: "'ks \<Rightarrow> bytes \<Rightarrow> StorageError + bytes option"
  ks_insert :: "bytes \<Rightarrow> bytes \<Rightarrow> 'ks \<Rightarrow> StorageError + 'ks"
  ks_remove :: "bytes \<Rightarrow> 'ks \<Rightarrow> StorageError + 'ks"
  ks_fetch_update :: "bytes \<Rightarrow> (bytes option \<Rightarrow> bytes option) \<Rightarrow> 'ks \<Rightarrow> StorageError + (bytes option \<times> 'ks)"
  ks_prefix :: "bytes \<Rightarrow> 'ks \<Rightarrow> ks_item list"
  ks_range :: "bytes option \<Rightarrow> bytes option \<Rightarrow> 'ks \<Rightarrow> ks_item list"

text \<open>The entries of a map whose keys satisfy a predicate, in key order.\<close>

definition entries :: "(bytes \<rightharpoonup> bytes) \<Rightarrow> (bytes \<Rightarrow> bool) \<Rightarrow> (bytes \<times> bytes) list" where
  "entries m P = map (\<lambda>k. (k, the (m k))) (sorted_list_of_set {k \<in> dom m. P k})"

text \<open>What an iterator may yield: all entries, or some of them up to an error.\<close>

definition yields :: "ks_item list \<Rightarrow> (bytes \<times> bytes) list \<Rightarrow> bool" where
  "yields items kvs \<longleftrightarrow>
     items = map Inr kvs \<or> (\<exists>n e rest. items = map Inr (take n kvs) @ Inl e # rest)"

lemma yields_simps:
  "yields [] kvs \<longleftrightarrow> kvs = []"
  "yields (Inl e # r) kvs"
  "yields (Inr x # r) kvs \<longleftrightarrow> (\<exists>kvs'. kvs = x # kvs' \<and> yields r kvs')"
proof -
  show "yields [] kvs \<longleftrightarrow> kvs = []" by (auto simp: yields_def)
  show "yields (Inl e # r) kvs"
    unfolding yields_def by (intro disjI2 exI [of _ 0] exI [of _ e] exI [of _ r]) simp
  show "yields (Inr x # r) kvs \<longleftrightarrow> (\<exists>kvs'. kvs = x # kvs' \<and> yields r kvs')"
  proof
    assume "yields (Inr x # r) kvs"
    then consider "Inr x # r = map Inr kvs" | n e rest where "Inr x # r = map Inr (take n kvs) @ Inl e # rest"
      by (auto simp: yields_def)
    then show "\<exists>kvs'. kvs = x # kvs' \<and> yields r kvs'"
    proof cases
      case 1
      then show ?thesis by (cases kvs) (auto simp: yields_def)
    next
      case (2 n e rest)
      then show ?thesis by (cases kvs; cases n) (auto simp: yields_def)
    qed
  next
    assume "\<exists>kvs'. kvs = x # kvs' \<and> yields r kvs'"
    then obtain kvs' where k: "kvs = x # kvs'" "yields r kvs'" by blast
    from k(2) consider "r = map Inr kvs'" | n e rest where "r = map Inr (take n kvs') @ Inl e # rest"
      by (auto simp: yields_def)
    then show "yields (Inr x # r) kvs"
    proof cases
      case 1
      then show ?thesis by (simp add: yields_def k(1))
    next
      case (2 n e rest)
      then show ?thesis unfolding yields_def k(1)
        by (intro disjI2 exI [of _ "Suc n"] exI [of _ e] exI [of _ rest]) simp
    qed
  qed
qed

definition in_range :: "bytes option \<Rightarrow> bytes option \<Rightarrow> bytes \<Rightarrow> bool" where
  "in_range lo hi k \<longleftrightarrow>
     (case lo of None \<Rightarrow> True | Some l \<Rightarrow> l \<le> k) \<and> (case hi of None \<Rightarrow> True | Some h \<Rightarrow> k < h)"

definition has_prefix :: "bytes \<Rightarrow> bytes \<Rightarrow> bool" where
  "has_prefix p k \<longleftrightarrow> take (length p) k = p"

lemma has_prefix_iff: "has_prefix p k \<longleftrightarrow> (\<exists>r. k = p @ r)"
  by (metis append_eq_conv_conj append_take_drop_id has_prefix_def)

lemma map_fst_entries: "map fst (entries m P) = sorted_list_of_set {k \<in> dom m. P k}"
  by (simp add: entries_def o_def)

lemma set_entries: "finite (dom m) \<Longrightarrow> set (entries m P) = {(k, v). m k = Some v \<and> P k}"
  by (auto simp: entries_def)

lemma distinct_entries: "distinct (map fst (entries m P))"
  by (simp add: map_fst_entries)

locale keyspace =
  fixes F :: "'ks fjall" and content :: "'ks \<Rightarrow> bytes \<rightharpoonup> bytes"
  assumes content_finite: "finite (dom (content s))"
    and get_content: "ks_get F s k = Inr r \<Longrightarrow> r = content s k"
    and insert_content: "ks_insert F k v s = Inr s' \<Longrightarrow> content s' = (content s)(k \<mapsto> v)"
    and remove_content: "ks_remove F k s = Inr s' \<Longrightarrow> content s' = (content s)(k := None)"
    and fetch_update_content:
      "ks_fetch_update F k f s = Inr (old, s') \<Longrightarrow>
         old = content s k \<and> content s' = (content s)(k := f old)"
    and prefix_yields: "yields (ks_prefix F p s) (entries (content s) (has_prefix p))"
    and range_yields: "yields (ks_range F lo hi s) (entries (content s) (in_range lo hi))"
begin

lemma insert_get:
  assumes "ks_insert F k v s = Inr s'" "ks_get F s' k' = Inr r"
  shows "r = (if k' = k then Some v else content s k')"
  using insert_content [OF assms(1)] get_content [OF assms(2)] by simp

end

section \<open>An in-memory engine\<close>

type_synonym mem_ks = "(bytes \<times> bytes) list"

definition mem_update :: "bytes \<Rightarrow> bytes option \<Rightarrow> mem_ks \<Rightarrow> mem_ks" where
  "mem_update k r s =
     (case r of None \<Rightarrow> [] | Some v \<Rightarrow> [(k, v)]) @ filter (\<lambda>kv. fst kv \<noteq> k) s"

definition mem_filter :: "(bytes \<Rightarrow> bool) \<Rightarrow> mem_ks \<Rightarrow> (bytes \<times> bytes) list" where
  "mem_filter P s =
     map (\<lambda>k. (k, the (map_of s k))) (sort (remdups (filter P (map fst s))))"

definition mem_fjall :: "mem_ks fjall" where
  "mem_fjall = \<lparr>
     ks_get = (\<lambda>s k. Inr (map_of s k)),
     ks_insert = (\<lambda>k v s. Inr (mem_update k (Some v) s)),
     ks_remove = (\<lambda>k s. Inr (mem_update k None s)),
     ks_fetch_update = (\<lambda>k f s. Inr (map_of s k, mem_update k (f (map_of s k)) s)),
     ks_prefix = (\<lambda>p s. map Inr (mem_filter (has_prefix p) s)),
     ks_range = (\<lambda>lo hi s. map Inr (mem_filter (in_range lo hi) s)) \<rparr>"

lemma map_of_filter_other: "map_of (filter (\<lambda>kv. fst kv \<noteq> k) s) = (map_of s)(k := None)"
  by (induction s) auto

lemma map_of_mem_update: "map_of (mem_update k r s) = (map_of s)(k := r)"
  by (auto simp: mem_update_def map_of_filter_other split: option.splits)

lemma mem_filter_entries: "mem_filter P s = entries (map_of s) P"
proof -
  have "{k \<in> dom (map_of s). P k} = set (filter P (map fst s))"
    by (auto simp: dom_map_of_conv_image_fst)
  then show ?thesis
    by (simp only: entries_def mem_filter_def sorted_list_of_set_sort_remdups)
qed

interpretation mem: keyspace mem_fjall map_of
  by unfold_locales
    (auto simp: mem_fjall_def map_of_mem_update yields_def mem_filter_entries finite_dom_map_of)

lemma mem_keyspace: "keyspace mem_fjall map_of"
  by (rule mem.keyspace_axioms)

lemma mem_fjall_simps [simp]:
  "ks_get mem_fjall s k = Inr (map_of s k)"
  "ks_insert mem_fjall k v s = Inr (mem_update k (Some v) s)"
  "ks_remove mem_fjall k s = Inr (mem_update k None s)"
  "ks_fetch_update mem_fjall k f s = Inr (map_of s k, mem_update k (f (map_of s k)) s)"
  "ks_prefix mem_fjall p s = map Inr (mem_filter (has_prefix p) s)"
  "ks_range mem_fjall lo hi s = map Inr (mem_filter (in_range lo hi) s)"
  by (simp_all add: mem_fjall_def)

end
