(* ===== verification/Schema_Types.thy ===== *)
theory Schema_Types
  imports Values
begin

text \<open>
  The data types of \<open>schema/types.rs\<close>: field types, field and index definitions, collection
  schemas.
\<close>

datatype IndexType = BTree | Hnsw | FullText

datatype DistanceMetric = Cosine | Euclidean | Dot

record HnswParams =
  dimension :: nat
  metric :: DistanceMetric
  hnsw_m :: nat
  ef_construction :: nat

definition hnsw_default :: HnswParams where
  "hnsw_default = \<lparr>dimension = 0, metric = Cosine, hnsw_m = 16, ef_construction = 200\<rparr>"

definition hnsw_new :: "nat \<Rightarrow> HnswParams" where
  "hnsw_new dim = hnsw_default\<lparr>dimension := dim\<rparr>"

datatype SchemaMode = Strict | Flexible

datatype DefaultValue =
  DNull | DBool bool | DInt i64 | DFloat f64 | DString string | DNow

text \<open>\<open>FieldType\<close> and \<open>FieldDef\<close> refer to each other.\<close>

datatype FieldType =
    TString | TInt | TFloat | TDecimal | TBool | TDatetime | TDuration | TBytes
  | TObject "FieldDef list" SchemaMode
  | TArray FieldType
  | TAnyArray
  | TReference "string option"
  | TAny
  | TRange FieldType
  | TUnion "FieldType list"
and FieldDef =
    FieldDef (fd_name: string) (fd_type: FieldType) (fd_required: bool) (fd_default: "DefaultValue option")

record IndexDef =
  idx_name :: string
  idx_fields :: "string list"
  idx_unique :: bool
  idx_type :: IndexType
  idx_hnsw_params :: "HnswParams option"
  idx_analyzer :: "string option"

record CollectionSchema =
  schema_name :: string
  schema_mode :: SchemaMode
  schema_fields :: "FieldDef list"
  schema_indexes :: "IndexDef list"

definition schema_flexible :: "string \<Rightarrow> CollectionSchema" where
  "schema_flexible n = \<lparr>schema_name = n, schema_mode = Flexible, schema_fields = [], schema_indexes = []\<rparr>"

definition schema_strict :: "string \<Rightarrow> CollectionSchema" where
  "schema_strict n = \<lparr>schema_name = n, schema_mode = Strict, schema_fields = [], schema_indexes = []\<rparr>"

definition get_field :: "CollectionSchema \<Rightarrow> string \<Rightarrow> FieldDef option" where
  "get_field s n = find (\<lambda>f. fd_name f = n) (schema_fields s)"

definition is_strict :: "CollectionSchema \<Rightarrow> bool" where
  "is_strict s = (schema_mode s = Strict)"

end
