(* ===== verification/Suggestions.thy ===== *)
theory Suggestions
  imports Values
begin

text \<open>
  \<open>util/suggestions.rs\<close>: "did you mean" suggestions by prefix and edit distance. The two-row
  dynamic program of \<open>levenshtein\<close> is proved equal to the recursive edit distance.
  \<open>str::to_lowercase\<close> enters as the argument \<open>lower\<close>, since the Unicode case tables are data.
\<close>

section \<open>Edit distance\<close>

text \<open>The characters of a string, each as its bytes.\<close>

fun utf8_chars :: "bytes \<Rightarrow> bytes list" where
  "utf8_chars [] = []"
| "utf8_chars (b # r) =
     (case utf8_next b r of (n, _) \<Rightarrow> (b # take (n - 1) r) # utf8_chars (drop (n - 1) r))"

text \<open>The inner loop: from the entries of the previous row and the entry to the left, the rest of
  the current row.\<close>

fun lev_row :: "'a \<Rightarrow> 'a list \<Rightarrow> nat list \<Rightarrow> nat \<Rightarrow> nat list" where
  "lev_row a (b # bs) (p0 # p1 # ps) left =
     (let c = min (min (p1 + 1) (left + 1)) (p0 + (if a = b then 0 else 1))
      in c # lev_row a bs (p1 # ps) c)"
| "lev_row a _ _ left = []"

text \<open>The outer loop.\<close>

fun lev_rows :: "nat \<Rightarrow> 'a list \<Rightarrow> 'a list \<Rightarrow> nat list \<Rightarrow> nat list" where
  "lev_rows i [] bs prev = prev"
| "lev_rows i (a # as) bs prev = lev_rows (i + 1) as bs (i # lev_row a bs prev i)"

definition levenshtein_chars :: "'a list \<Rightarrow> 'a list \<Rightarrow> nat" where
  "levenshtein_chars a b =
     (let m = length a; n = length b in
      if m = 0 then n
      else if n = 0 then m
      else lev_rows 1 a b [0..<n + 1] ! n)"

definition levenshtein :: "string \<Rightarrow> string \<Rightarrow> nat" where
  "levenshtein a b = levenshtein_chars (utf8_chars (as_bytes a)) (utf8_chars (as_bytes b))"

section \<open>Suggestions\<close>

definition starts_with :: "string \<Rightarrow> string \<Rightarrow> bool" where
  "starts_with s p = (take (length p) s = p)"

definition similar_score :: "(string \<Rightarrow> string) \<Rightarrow> string \<Rightarrow> string \<Rightarrow> nat option" where
  "similar_score lower needle candidate =
     (let needle_lower = lower needle; candidate_lower = lower candidate in
      if starts_with candidate_lower needle_lower \<or> starts_with needle_lower candidate_lower
      then Some 0
      else
        let distance = levenshtein needle_lower candidate_lower
        in if distance \<le> 2 \<and> distance < length needle_lower then Some distance else None)"

definition find_similar :: "(string \<Rightarrow> string) \<Rightarrow> string \<Rightarrow> string list \<Rightarrow> nat \<Rightarrow> string list" where
  "find_similar lower needle candidates max_results =
     (let scored = List.map_filter
            (\<lambda>c. map_option (\<lambda>s. (c, s)) (similar_score lower needle c)) candidates
      in map fst (take max_results (sort_key snd scored)))"

fun join_comma :: "string list \<Rightarrow> string" where
  "join_comma [] = []"
| "join_comma [s] = s"
| "join_comma (s # ss) = s @ '', '' @ join_comma ss"

definition format_suggestions :: "string list \<Rightarrow> string" where
  "format_suggestions ss = (if ss = [] then [] else ''. Did you mean: '' @ join_comma ss @ ''?'')"

definition format_suggestions_with_prefix :: "string list \<Rightarrow> string \<Rightarrow> string" where
  "format_suggestions_with_prefix ss prefix =
     (if ss = [] then []
      else ''. Did you mean: '' @ join_comma (map (\<lambda>s. prefix @ ''::'' @ s) ss) @ ''?'')"

section \<open>The edit distance\<close>

fun edit_distance :: "'a list \<Rightarrow> 'a list \<Rightarrow> nat" where
  "edit_distance [] ys = length ys"
| "edit_distance xs [] = length xs"
| "edit_distance (x # xs) (y # ys) =
     min (min (edit_distance xs (y # ys) + 1) (edit_distance (x # xs) ys + 1))
         (edit_distance xs ys + (if x = y then 0 else 1))"

lemma edit_distance_Nil2 [simp]: "edit_distance xs [] = length xs"
  by (cases xs) auto

text \<open>Row \<open>i\<close> of the table holds the distances of the first \<open>i\<close> characters to every prefix; the
  recursion peels characters off the end, hence the reversals.\<close>

definition lev_table :: "'a list \<Rightarrow> 'a list \<Rightarrow> 'a list \<Rightarrow> nat list" where
  "lev_table as done rest = map (\<lambda>j. edit_distance (rev as) (rev (done @ take j rest))) [0..<length rest + 1]"

lemma lev_table_Cons:
  "lev_table as done (b # rest) = edit_distance (rev as) (rev done) # lev_table as (done @ [b]) rest"
proof -
  have "[0..<length (b # rest) + 1] = 0 # map Suc [0..<length rest + 1]"
    by (simp add: map_Suc_upt upt_conv_Cons del: upt_Suc)
  then show ?thesis by (simp add: lev_table_def del: upt_Suc)
qed

lemma lev_table_hd: "\<exists>t. lev_table as done rest = edit_distance (rev as) (rev done) # t"
proof (cases rest)
  case Nil
  then show ?thesis by (simp add: lev_table_def)
next
  case (Cons b rest')
  then show ?thesis by (simp only: lev_table_Cons) blast
qed

lemma lev_row_correct:
  "lev_row a rest (lev_table as done rest) (edit_distance (rev (as @ [a])) (rev done))
     = tl (lev_table (as @ [a]) done rest)"
proof (induction rest arbitrary: "done")
  case Nil
  then show ?case by (simp add: lev_table_def)
next
  case (Cons b rest)
  obtain t where t: "lev_table as (done @ [b]) rest = edit_distance (rev as) (rev (done @ [b])) # t"
    using lev_table_hd by blast
  let ?c = "edit_distance (rev (as @ [a])) (rev (done @ [b]))"
  have "lev_row a (b # rest) (lev_table as done (b # rest)) (edit_distance (rev (as @ [a])) (rev done))
      = ?c # lev_row a rest (lev_table as (done @ [b]) rest) ?c"
    by (simp add: lev_table_Cons t Let_def)
  also have "\<dots> = ?c # tl (lev_table (as @ [a]) (done @ [b]) rest)" by (simp only: Cons.IH)
  also have "\<dots> = lev_table (as @ [a]) (done @ [b]) rest"
    using lev_table_hd [of "as @ [a]" "done @ [b]" rest] by fastforce
  also have "\<dots> = tl (lev_table (as @ [a]) done (b # rest))" by (simp add: lev_table_Cons)
  finally show ?case .
qed

lemma lev_rows_correct:
  "lev_rows (length as + 1) rest bs (lev_table as [] bs) = lev_table (as @ rest) [] bs"
proof (induction rest arbitrary: as)
  case (Cons a rest)
  have "Suc (length as) # lev_row a bs (lev_table as [] bs) (Suc (length as)) = lev_table (as @ [a]) [] bs"
    using lev_row_correct [of a bs as "[]"] lev_table_hd [of "as @ [a]" "[]" bs] by fastforce
  then show ?case using Cons.IH [of "as @ [a]"] by simp
qed simp

lemma levenshtein_chars_correct: "levenshtein_chars a b = edit_distance (rev a) (rev b)"
proof -
  have "[0..<length b + 1] = lev_table [] [] b"
    by (auto simp: lev_table_def intro!: nth_equalityI simp del: upt_Suc)
  then have "lev_rows 1 a b [0..<length b + 1] = lev_table a [] b"
    using lev_rows_correct [of "[]" a b] by simp
  then have "lev_rows 1 a b [0..<length b + 1] ! length b = edit_distance (rev a) (rev b)"
    by (simp add: lev_table_def del: upt_Suc)
  then show ?thesis by (cases a; cases b) (simp_all add: levenshtein_chars_def Let_def del: upt_Suc)
qed

section \<open>Properties\<close>

text \<open>C9: The two-row dynamic program computes the edit distance.\<close>

theorem levenshtein_is_edit_distance:
  "levenshtein a b = edit_distance (rev (utf8_chars (as_bytes a))) (rev (utf8_chars (as_bytes b)))"
  by (simp add: levenshtein_def levenshtein_chars_correct)

text \<open>Suggestions are candidates, at most as many as asked for, in order of their score.\<close>

lemma find_similar_sound:
  "set (find_similar lower needle cs n) \<subseteq> {c \<in> set cs. similar_score lower needle c \<noteq> None}"
  "length (find_similar lower needle cs n) \<le> n"
  by (auto simp: find_similar_def Let_def List.map_filter_def dest!: in_set_takeD)

end
