(* ===== verification/Schema_Validate.thy ===== *)
theory Schema_Validate
  imports Schema_Types Suggestions
begin

text \<open>
  \<open>schema/validate.rs\<close>: validation of documents against a schema, with defaults, and validation
  of schemas. Arguments stand for what the code reads from outside: \<open>lower\<close> for
  \<open>str::to_lowercase\<close>, \<open>now\<close> for the seconds since the epoch that \<open>SystemTime::now\<close> gives.

  A \<open>HashMap\<close> is iterated in key order; where the code stops at the first unknown field it meets,
  the model reports the least one.
\<close>

section \<open>Errors\<close>

datatype BindError =
    UnknownCollection string "string list"
  | UnknownField string string "string list"
  | TypeMismatch string string string
  | RequiredFieldMissing string string
  | RequiredFieldNull string string
  | NestedError string BindError
  | ArrayElementError string nat BindError
  | DuplicateFieldName string string
  | DefaultValueTypeMismatch string string string string
  | UnknownFunction string string
  | InvalidAggregateArg string string
  | MixedAggregateAndFields
  | InvalidGroupField string
  | ArityMismatch string nat nat
  | ParentRefOutsideSubquery
  | ConstantCalledAsFunction string string
  | FunctionUsedAsConstant string string
  | UnknownConstant string string "string list"
  | UndefinedVariable string
  | ArgumentTypeMismatch string string string string
  | FtsMixedOperators
  | FtsDuplicateOperatorName string
  | FtsUnknownScoreName string
  | NameTooLong string string nat
  | InvalidName string string
  | DuplicateIndexName string string
  | IndexFieldNotFound string string string
  | InvalidIndexConfig string string string

definition MAX_NAME_LENGTH :: nat where "MAX_NAME_LENGTH = 120"

section \<open>Formatting\<close>

fun join_bar :: "string list \<Rightarrow> string" where
  "join_bar [] = []"
| "join_bar [s] = s"
| "join_bar (s # ss) = s @ '' | '' @ join_bar ss"

fun format_type :: "FieldType \<Rightarrow> string" where
  "format_type TString = ''String''"
| "format_type TInt = ''Int''"
| "format_type TFloat = ''Float''"
| "format_type TDecimal = ''Decimal''"
| "format_type TBool = ''Bool''"
| "format_type TDatetime = ''Datetime''"
| "format_type TDuration = ''Duration''"
| "format_type TBytes = ''Bytes''"
| "format_type (TObject _ _) = ''Object''"
| "format_type (TArray inner) = ''Array<'' @ format_type inner @ ''>''"
| "format_type TAnyArray = ''Array''"
| "format_type (TReference (Some coll)) = ''Reference<'' @ coll @ ''>''"
| "format_type (TReference None) = ''Reference''"
| "format_type TAny = ''Any''"
| "format_type (TRange inner) = ''Range<'' @ format_type inner @ ''>''"
| "format_type (TUnion types) = join_bar (map format_type types)"

definition format_value_type :: "Value \<Rightarrow> string" where
  "format_value_type v =
     (case v of
        VNull \<Rightarrow> ''Null'' | VBool _ \<Rightarrow> ''Bool'' | VInt _ \<Rightarrow> ''Int'' | VFloat _ \<Rightarrow> ''Float''
      | VDecimal _ \<Rightarrow> ''Decimal'' | VString _ \<Rightarrow> ''String'' | VArray _ \<Rightarrow> ''Array''
      | VObject _ \<Rightarrow> ''Object'' | VReference _ \<Rightarrow> ''Reference'' | VDatetime _ \<Rightarrow> ''Datetime''
      | VDuration _ \<Rightarrow> ''Duration'' | VBytes _ \<Rightarrow> ''Bytes'' | VRange _ _ \<Rightarrow> ''Range'')"

definition format_default_type :: "DefaultValue \<Rightarrow> string" where
  "format_default_type d =
     (case d of DNull \<Rightarrow> ''Null'' | DBool _ \<Rightarrow> ''Bool'' | DInt _ \<Rightarrow> ''Int'' | DFloat _ \<Rightarrow> ''Float''
      | DString _ \<Rightarrow> ''String'' | DNow \<Rightarrow> ''Now()'')"

definition default_to_value :: "i64 \<Rightarrow> DefaultValue \<Rightarrow> Value" where
  "default_to_value now d =
     (case d of DNull \<Rightarrow> VNull | DBool b \<Rightarrow> VBool b | DInt i \<Rightarrow> VInt i | DFloat f \<Rightarrow> VFloat f
      | DString s \<Rightarrow> VString s | DNow \<Rightarrow> VDatetime now)"

section \<open>Documents\<close>

definition unknown_field :: "(string \<Rightarrow> string) \<Rightarrow> string \<Rightarrow> FieldDef list \<Rightarrow> string \<Rightarrow> BindError" where
  "unknown_field lower coll defs f =
     UnknownField coll f (find_similar lower f (map fd_name defs) 3)"

definition type_mismatch :: "string \<Rightarrow> Value \<Rightarrow> FieldType \<Rightarrow> BindError" where
  "type_mismatch nm v t = TypeMismatch nm (format_type t) (format_value_type v)"

text \<open>The element loop of arrays: the first error, with the index of the element.\<close>

fun first_element_error ::
  "string \<Rightarrow> (Value \<Rightarrow> BindError + unit) \<Rightarrow> nat \<Rightarrow> Value list \<Rightarrow> BindError + unit" where
  "first_element_error nm f i [] = Inr ()"
| "first_element_error nm f i (e # es) =
     (case f e of
        Inl err \<Rightarrow> Inl (ArrayElementError nm i err)
      | Inr _ \<Rightarrow> first_element_error nm f (i + 1) es)"

definition is_ok :: "'e + 'a \<Rightarrow> bool" where
  "is_ok r = (case r of Inl _ \<Rightarrow> False | Inr _ \<Rightarrow> True)"

lemma size_fd_type: "size (fd_type d) < size d"
  by (cases d) simp

lemma size_fd_type_bound: "2 * size (fd_type d) < Suc (Suc (2 * size d + n))"
  using size_fd_type [of d] by linarith

lemma size_fd_object_bound: "TObject ds m = fd_type d \<Longrightarrow> 2 * size_list size ds < Suc (2 * size d + n)"
  using size_fd_type [of d] by (cases "fd_type d") auto

lemma size_union_bound: "(x :: FieldType) \<in> set xs \<Longrightarrow> 2 * size x < Suc (Suc (2 * size_list size xs))"
  by (induction xs) auto

function (sequential)
  validate_field_type ::
    "(string \<Rightarrow> string) \<Rightarrow> i64 \<Rightarrow> string \<Rightarrow> Value \<Rightarrow> FieldType \<Rightarrow> BindError + unit"
and validate_and_default_object_fields ::
    "(string \<Rightarrow> string) \<Rightarrow> i64 \<Rightarrow> string \<Rightarrow> fields \<Rightarrow> FieldDef list \<Rightarrow> SchemaMode \<Rightarrow> BindError + fields"
and object_field_loop ::
    "(string \<Rightarrow> string) \<Rightarrow> i64 \<Rightarrow> string \<Rightarrow> fields \<Rightarrow> FieldDef list \<Rightarrow> fields \<Rightarrow> BindError + fields"
where
  "validate_field_type lower now nm v t =
     (if v = VNull then Inr ()
      else case t of
        TAny \<Rightarrow> Inr ()
      | TString \<Rightarrow> (case v of VString _ \<Rightarrow> Inr () | _ \<Rightarrow> Inl (type_mismatch nm v t))
      | TInt \<Rightarrow> (case v of VInt _ \<Rightarrow> Inr () | _ \<Rightarrow> Inl (type_mismatch nm v t))
      | TFloat \<Rightarrow> (case v of VFloat _ \<Rightarrow> Inr () | VInt _ \<Rightarrow> Inr () | _ \<Rightarrow> Inl (type_mismatch nm v t))
      | TDecimal \<Rightarrow> (case v of VDecimal _ \<Rightarrow> Inr () | VInt _ \<Rightarrow> Inr () | VFloat _ \<Rightarrow> Inr ()
                     | _ \<Rightarrow> Inl (type_mismatch nm v t))
      | TBool \<Rightarrow> (case v of VBool _ \<Rightarrow> Inr () | _ \<Rightarrow> Inl (type_mismatch nm v t))
      | TDatetime \<Rightarrow> (case v of VDatetime _ \<Rightarrow> Inr () | VString _ \<Rightarrow> Inr () | VInt _ \<Rightarrow> Inr ()
                      | _ \<Rightarrow> Inl (type_mismatch nm v t))
      | TDuration \<Rightarrow> (case v of VDuration _ \<Rightarrow> Inr () | _ \<Rightarrow> Inl (type_mismatch nm v t))
      | TBytes \<Rightarrow> (case v of VBytes _ \<Rightarrow> Inr () | _ \<Rightarrow> Inl (type_mismatch nm v t))
      | TObject defs mode \<Rightarrow>
          (case v of
             VObject obj \<Rightarrow>
               and_then (validate_and_default_object_fields lower now nm obj defs mode) (\<lambda>_. Inr ())
           | _ \<Rightarrow> Inl (type_mismatch nm v t))
      | TArray inner \<Rightarrow>
          (case v of
             VArray es \<Rightarrow>
               first_element_error nm (\<lambda>e. validate_field_type lower now ''element'' e inner) 0 es
           | _ \<Rightarrow> Inl (type_mismatch nm v t))
      | TAnyArray \<Rightarrow> (case v of VArray _ \<Rightarrow> Inr () | _ \<Rightarrow> Inl (type_mismatch nm v t))
      | TReference expected_collection \<Rightarrow>
          (case v of
             VReference i \<Rightarrow>
               (case expected_collection of
                  None \<Rightarrow> Inr ()
                | Some expected \<Rightarrow>
                    if starts_with i (expected @ '':'') then Inr ()
                    else Inl (TypeMismatch nm (''Reference<'' @ expected @ ''>'')
                                (''Reference('' @ i @ '')'')))
           | _ \<Rightarrow> Inl (type_mismatch nm v t))
      | TRange elem \<Rightarrow>
          (case v of
             VRange s e \<Rightarrow>
               and_then (if s \<noteq> VNull then validate_field_type lower now nm s elem else Inr ())
                 (\<lambda>_. if e \<noteq> VNull then validate_field_type lower now nm e elem else Inr ())
           | _ \<Rightarrow> Inl (type_mismatch nm v t))
      | TUnion types \<Rightarrow>
          if list_ex (\<lambda>t'. is_ok (validate_field_type lower now nm v t')) types then Inr ()
          else Inl (type_mismatch nm v t))"
| "validate_and_default_object_fields lower now parent fs defs mode =
     (case (if mode = Strict then find (\<lambda>f. f \<notin> fd_name ` set defs) (hm_keys fs) else None) of
        Some f \<Rightarrow> Inl (NestedError parent (unknown_field lower parent defs f))
      | None \<Rightarrow> object_field_loop lower now parent fs defs fs)"
| "object_field_loop lower now parent fs [] result = Inr result"
| "object_field_loop lower now parent fs (d # defs) result =
     (case hm_get fs (fd_name d) of
        Some v \<Rightarrow>
          if fd_required d \<and> v = VNull
          then Inl (NestedError parent (TypeMismatch (fd_name d) (format_type (fd_type d)) ''Null''))
          else if v \<noteq> VNull then
            (case (v, fd_type d) of
               (VObject nested, TObject nested_defs nested_mode) \<Rightarrow>
                 and_then
                   (validate_and_default_object_fields lower now (fd_name d) nested nested_defs nested_mode)
                   (\<lambda>validated. object_field_loop lower now parent fs defs
                      (hm_insert (fd_name d) (VObject validated) result))
             | _ \<Rightarrow>
                 (case validate_field_type lower now (fd_name d) v (fd_type d) of
                    Inl e \<Rightarrow> Inl (NestedError parent e)
                  | Inr _ \<Rightarrow> object_field_loop lower now parent fs defs result))
          else object_field_loop lower now parent fs defs result
      | None \<Rightarrow>
          (case fd_default d of
             Some def \<Rightarrow>
               object_field_loop lower now parent fs defs (hm_insert (fd_name d) (default_to_value now def) result)
           | None \<Rightarrow>
               if fd_required d
               then Inl (NestedError parent (TypeMismatch (fd_name d) (format_type (fd_type d)) ''missing''))
               else object_field_loop lower now parent fs defs result))"
  by pat_completeness auto

termination
proof (relation "measure (\<lambda>x. case x of
      Inl (_, _, _, _, t) \<Rightarrow> 2 * size t
    | Inr (Inl (_, _, _, _, defs, _)) \<Rightarrow> 2 * size_list size defs + 1
    | Inr (Inr (_, _, _, _, defs, _)) \<Rightarrow> 2 * size_list size defs)", goal_cases)
  case 1 then show ?case by simp
qed (auto simp: size_fd_type_bound size_fd_object_bound size_union_bound)

declare validate_field_type.simps [simp del] validate_and_default_object_fields.simps [simp del]

fun document_field_loop ::
  "(string \<Rightarrow> string) \<Rightarrow> i64 \<Rightarrow> string \<Rightarrow> fields \<Rightarrow> FieldDef list \<Rightarrow> fields \<Rightarrow> BindError + fields" where
  "document_field_loop lower now coll fs [] result = Inr result"
| "document_field_loop lower now coll fs (d # defs) result =
     (case hm_get fs (fd_name d) of
        Some v \<Rightarrow>
          if fd_required d \<and> v = VNull then Inl (RequiredFieldNull coll (fd_name d))
          else if v \<noteq> VNull then
            (case (v, fd_type d) of
               (VObject obj, TObject nested_defs mode) \<Rightarrow>
                 and_then (validate_and_default_object_fields lower now (fd_name d) obj nested_defs mode)
                   (\<lambda>validated. document_field_loop lower now coll fs defs
                      (hm_insert (fd_name d) (VObject validated) result))
             | _ \<Rightarrow>
                 and_then (validate_field_type lower now (fd_name d) v (fd_type d))
                   (\<lambda>_. document_field_loop lower now coll fs defs result))
          else document_field_loop lower now coll fs defs result
      | None \<Rightarrow>
          if fd_required d then
            (case fd_default d of
               Some def \<Rightarrow>
                 document_field_loop lower now coll fs defs (hm_insert (fd_name d) (default_to_value now def) result)
             | None \<Rightarrow> Inl (RequiredFieldMissing coll (fd_name d)))
          else
            (case fd_default d of
               Some def \<Rightarrow>
                 document_field_loop lower now coll fs defs (hm_insert (fd_name d) (default_to_value now def) result)
             | None \<Rightarrow> document_field_loop lower now coll fs defs result))"

definition validate_document ::
  "(string \<Rightarrow> string) \<Rightarrow> i64 \<Rightarrow> CollectionSchema \<Rightarrow> fields \<Rightarrow> BindError + fields" where
  "validate_document lower now schema fs =
     and_then (document_field_loop lower now (schema_name schema) fs (schema_fields schema) fs) (\<lambda>result.
       case (if schema_mode schema = Strict
             then find (\<lambda>f. f \<noteq> ''id'' \<and> f \<notin> fd_name ` set (schema_fields schema)) (hm_keys fs)
             else None) of
         Some f \<Rightarrow> Inl (unknown_field lower (schema_name schema) (schema_fields schema) f)
       | None \<Rightarrow> Inr result)"

section \<open>Names and schemas\<close>

fun contains_str :: "string \<Rightarrow> string \<Rightarrow> bool" where
  "contains_str p [] = (p = [])"
| "contains_str p (c # s) = (starts_with (c # s) p \<or> contains_str p s)"

text \<open>\<open>char::is_control\<close>: the Unicode category Cc, on the bytes of a character.\<close>

definition is_control :: "bytes \<Rightarrow> bool" where
  "is_control c =
     (case c of
        [b] \<Rightarrow> b < 0x20 \<or> b = 0x7F
      | [b0, b1] \<Rightarrow> b0 = 0xC2 \<and> 0x80 \<le> b1 \<and> b1 \<le> 0x9F
      | _ \<Rightarrow> False)"

definition quoted :: "string \<Rightarrow> string" where
  "quoted s = [CHR 0x27] @ s @ [CHR 0x27]"

definition validate_name_length :: "string \<Rightarrow> string \<Rightarrow> BindError + unit" where
  "validate_name_length kind nm =
     (if MAX_NAME_LENGTH < length nm then Inl (NameTooLong kind nm MAX_NAME_LENGTH) else Inr ())"

definition validate_name :: "string \<Rightarrow> string \<Rightarrow> BindError + unit" where
  "validate_name kind nm =
     (if nm = [] then Inl (InvalidName kind ''name cannot be empty'')
      else if CHR ''/'' \<in> set nm \<or> CHR 0x5C \<in> set nm \<or> contains_str ''..'' nm
      then Inl (InvalidName kind (''name cannot contain path separators or '' @ quoted ''..''))
      else if nm = ''.'' then Inl (InvalidName kind (''name cannot be '' @ quoted ''.''))
      else if CHR 0x00 \<in> set nm then Inl (InvalidName kind ''name cannot contain null bytes'')
      else if \<exists>c\<in>set (utf8_chars (as_bytes nm)). is_control c
      then Inl (InvalidName kind ''name cannot contain control characters'')
      else validate_name_length kind nm)"

text \<open>The fields of an object, or of the objects of an array.\<close>

definition nested_fields :: "FieldType \<Rightarrow> FieldDef list" where
  "nested_fields t =
     (case t of
        TObject fs _ \<Rightarrow> fs
      | TArray inner \<Rightarrow> (case inner of TObject fs _ \<Rightarrow> fs | _ \<Rightarrow> [])
      | _ \<Rightarrow> [])"

lemma size_nested_fields: "size_list size (nested_fields (fd_type d)) < Suc (size d + n)"
  using size_fd_type [of d] by (auto simp: nested_fields_def split: FieldType.splits)

function validate_fields_no_duplicates :: "string \<Rightarrow> string set \<Rightarrow> FieldDef list \<Rightarrow> BindError + unit" where
  "validate_fields_no_duplicates coll seen [] = Inr ()"
| "validate_fields_no_duplicates coll seen (d # ds) =
     (if fd_name d \<in> seen then Inl (DuplicateFieldName coll (fd_name d))
      else and_then (validate_fields_no_duplicates coll {} (nested_fields (fd_type d)))
             (\<lambda>_. validate_fields_no_duplicates coll (insert (fd_name d) seen) ds))"
  by pat_completeness auto

termination validate_fields_no_duplicates
  by (relation "measure (\<lambda>(_, _, ds). size_list size ds)") (auto simp: size_nested_fields)

definition default_is_valid :: "FieldDef \<Rightarrow> DefaultValue \<Rightarrow> bool" where
  "default_is_valid d def =
     (case (fd_type d, def) of
        (TString, DString _) \<Rightarrow> True
      | (TInt, DInt _) \<Rightarrow> True
      | (TFloat, DFloat _) \<Rightarrow> True
      | (TFloat, DInt _) \<Rightarrow> True
      | (TDecimal, DFloat _) \<Rightarrow> True
      | (TDecimal, DInt _) \<Rightarrow> True
      | (TBool, DBool _) \<Rightarrow> True
      | (TDatetime, DNow) \<Rightarrow> True
      | (TDatetime, DInt _) \<Rightarrow> True
      | (TDatetime, DString _) \<Rightarrow> True
      | (TAny, _) \<Rightarrow> True
      | (_, DNull) \<Rightarrow> \<not> fd_required d
      | _ \<Rightarrow> False)"

function validate_default_types :: "string \<Rightarrow> FieldDef list \<Rightarrow> BindError + unit" where
  "validate_default_types coll [] = Inr ()"
| "validate_default_types coll (d # ds) =
     (case fd_default d of
        Some def \<Rightarrow>
          if default_is_valid d def
          then and_then (validate_default_types coll (nested_fields (fd_type d)))
                 (\<lambda>_. validate_default_types coll ds)
          else Inl (DefaultValueTypeMismatch coll (fd_name d) (format_type (fd_type d)) (format_default_type def))
      | None \<Rightarrow>
          and_then (validate_default_types coll (nested_fields (fd_type d)))
            (\<lambda>_. validate_default_types coll ds))"
  by pat_completeness auto

termination validate_default_types
  by (relation "measure (\<lambda>(_, ds). size_list size ds)") (auto simp: size_nested_fields)

definition validate_index_config :: "string \<Rightarrow> IndexDef \<Rightarrow> BindError + unit" where
  "validate_index_config coll idx =
     (if idx_type idx = Hnsw then
        (case idx_hnsw_params idx of
           None \<Rightarrow> Inl (InvalidIndexConfig coll (idx_name idx)
                     ''HNSW index requires hnsw_params with dimension > 0'')
         | Some params \<Rightarrow>
             if dimension params = 0
             then Inl (InvalidIndexConfig coll (idx_name idx) ''HNSW dimension must be greater than 0'')
             else Inr ())
      else Inr ())"

fun validate_index_loop :: "string \<Rightarrow> FieldDef list \<Rightarrow> string set \<Rightarrow> IndexDef list \<Rightarrow> BindError + unit" where
  "validate_index_loop coll defs seen [] = Inr ()"
| "validate_index_loop coll defs seen (idx # idxs) =
     and_then
       (if idx_name idx \<noteq> [] then
          if idx_name idx \<in> seen then Inl (DuplicateIndexName coll (idx_name idx))
          else validate_name ''index'' (idx_name idx)
        else Inr ()) (\<lambda>_.
     and_then
       (case (if defs \<noteq> []
              then find (\<lambda>f. first_segment (CHR ''.'') f \<notin> fd_name ` set defs) (idx_fields idx)
              else None) of
          Some f \<Rightarrow> Inl (IndexFieldNotFound coll (idx_name idx) f)
        | None \<Rightarrow> Inr ()) (\<lambda>_.
     and_then (validate_index_config coll idx) (\<lambda>_.
       validate_index_loop coll defs
         (if idx_name idx \<noteq> [] then insert (idx_name idx) seen else seen) idxs)))"

definition validate_indexes :: "CollectionSchema \<Rightarrow> BindError + unit" where
  "validate_indexes s =
     validate_index_loop (schema_name s) (schema_fields s) {} (schema_indexes s)"

definition validate_schema :: "CollectionSchema \<Rightarrow> BindError + unit" where
  "validate_schema s =
     and_then (validate_name ''collection'' (schema_name s)) (\<lambda>_.
     and_then (validate_fields_no_duplicates (schema_name s) {} (schema_fields s)) (\<lambda>_.
     and_then (validate_default_types (schema_name s) (schema_fields s)) (\<lambda>_.
       validate_indexes s)))"

section \<open>When validation succeeds\<close>

lemma is_ok_simps [simp]: "is_ok (Inr x)" "\<not> is_ok (Inl e)"
  by (simp_all add: is_ok_def)

lemma is_ok_and_then [simp]: "is_ok (and_then r (\<lambda>_. Inr ())) = is_ok r"
  by (cases r) simp_all

lemma is_ok_iff: "is_ok r \<longleftrightarrow> (\<exists>x. r = Inr x)"
  by (cases r) auto

text \<open>The condition on one field, the same at the top level and inside objects.\<close>

definition field_ok :: "(string \<Rightarrow> string) \<Rightarrow> i64 \<Rightarrow> fields \<Rightarrow> FieldDef \<Rightarrow> bool" where
  "field_ok lower now fs d =
     (case hm_get fs (fd_name d) of
        Some v \<Rightarrow> \<not> (fd_required d \<and> v = VNull) \<and> is_ok (validate_field_type lower now (fd_name d) v (fd_type d))
      | None \<Rightarrow> fd_default d \<noteq> None \<or> \<not> fd_required d)"

text \<open>The value that a field gets.\<close>

definition field_result :: "(string \<Rightarrow> string) \<Rightarrow> i64 \<Rightarrow> fields \<Rightarrow> FieldDef \<Rightarrow> Value option" where
  "field_result lower now fs d =
     (case hm_get fs (fd_name d) of
        Some v \<Rightarrow>
          (case (v, fd_type d) of
             (VObject obj, TObject defs mode) \<Rightarrow>
               (case validate_and_default_object_fields lower now (fd_name d) obj defs mode of
                  Inr validated \<Rightarrow> Some (VObject validated)
                | Inl _ \<Rightarrow> None)
           | _ \<Rightarrow> Some v)
      | None \<Rightarrow> map_option (default_to_value now) (fd_default d))"

lemma validate_null [simp]: "validate_field_type lower now nm VNull t = Inr ()"
  by (simp add: validate_field_type.simps)

lemma validate_object_type [simp]:
  "validate_field_type lower now nm (VObject obj) (TObject defs mode) =
     and_then (validate_and_default_object_fields lower now nm obj defs mode) (\<lambda>_. Inr ())"
  by (simp add: validate_field_type.simps)

text \<open>The test for an object value against an object type.\<close>

definition object_pair :: "Value \<Rightarrow> FieldType \<Rightarrow> (fields \<times> FieldDef list \<times> SchemaMode) option" where
  "object_pair v t =
     (case v of VObject obj \<Rightarrow> (case t of TObject defs mode \<Rightarrow> Some (obj, defs, mode) | _ \<Rightarrow> None) | _ \<Rightarrow> None)"

lemma object_pair_Some: "object_pair v t = Some (obj, defs, mode) \<longleftrightarrow> v = VObject obj \<and> t = TObject defs mode"
  by (auto simp: object_pair_def split: Value.splits FieldType.splits)

lemma case_object_pair:
  "(case (v, t) of (VObject obj, TObject defs mode) \<Rightarrow> f obj defs mode | _ \<Rightarrow> g) =
     (case object_pair v t of Some (obj, defs, mode) \<Rightarrow> f obj defs mode | None \<Rightarrow> g)"
  by (cases v; cases t; simp add: object_pair_def)

lemmas object_loop_unfold = object_field_loop.simps(2) [unfolded case_object_pair]
lemmas document_loop_unfold = document_field_loop.simps(2) [unfolded case_object_pair]
lemmas field_result_unfold = field_result_def [unfolded case_object_pair]

declare object_field_loop.simps(2) [simp del] document_field_loop.simps(2) [simp del]

lemma field_ok_object:
  assumes "hm_get fs (fd_name d) = Some v" "object_pair v (fd_type d) = Some (obj, defs, mode)"
  shows "field_ok lower now fs d = is_ok (validate_and_default_object_fields lower now (fd_name d) obj defs mode)"
  using assms by (simp add: field_ok_def object_pair_Some)

lemma object_loop_ok:
  "is_ok (object_field_loop lower now parent fs defs r) \<longleftrightarrow> (\<forall>d\<in>set defs. field_ok lower now fs d)"
proof (induction defs arbitrary: r)
  case (Cons d defs)
  consider (None) "hm_get fs (fd_name d) = None"
    | (Object) v obj nd nm where "hm_get fs (fd_name d) = Some v" "object_pair v (fd_type d) = Some (obj, nd, nm)"
    | (Scalar) v where "hm_get fs (fd_name d) = Some v" "object_pair v (fd_type d) = None"
    by (cases "hm_get fs (fd_name d)"; cases "object_pair (the (hm_get fs (fd_name d))) (fd_type d)") fastforce+
  then show ?case
  proof cases
    case None
    then show ?thesis using Cons.IH
      by (auto simp: object_loop_unfold field_ok_def split: option.splits)
  next
    case (Object v obj nd nm)
    moreover have "v \<noteq> VNull" using Object(2) by (auto simp: object_pair_Some)
    ultimately show ?thesis using Cons.IH
      by (cases "validate_and_default_object_fields lower now (fd_name d) obj nd nm")
        (simp_all add: object_loop_unfold field_ok_object [OF Object])
  next
    case (Scalar v)
    then show ?thesis using Cons.IH
      by (cases "validate_field_type lower now (fd_name d) v (fd_type d)"; cases "v = VNull")
        (simp_all add: object_loop_unfold field_ok_def [of _ _ _ d])
  qed
qed simp

lemma document_loop_ok:
  "is_ok (document_field_loop lower now coll fs defs r) \<longleftrightarrow> (\<forall>d\<in>set defs. field_ok lower now fs d)"
proof (induction defs arbitrary: r)
  case (Cons d defs)
  consider (None) "hm_get fs (fd_name d) = None"
    | (Object) v obj nd nm where "hm_get fs (fd_name d) = Some v" "object_pair v (fd_type d) = Some (obj, nd, nm)"
    | (Scalar) v where "hm_get fs (fd_name d) = Some v" "object_pair v (fd_type d) = None"
    by (cases "hm_get fs (fd_name d)"; cases "object_pair (the (hm_get fs (fd_name d))) (fd_type d)") fastforce+
  then show ?case
  proof cases
    case None
    then show ?thesis using Cons.IH
      by (auto simp: document_loop_unfold field_ok_def split: option.splits)
  next
    case (Object v obj nd nm)
    moreover have "v \<noteq> VNull" using Object(2) by (auto simp: object_pair_Some)
    ultimately show ?thesis using Cons.IH
      by (cases "validate_and_default_object_fields lower now (fd_name d) obj nd nm")
        (simp_all add: document_loop_unfold field_ok_object [OF Object])
  next
    case (Scalar v)
    then show ?thesis using Cons.IH
      by (cases "validate_field_type lower now (fd_name d) v (fd_type d)"; cases "v = VNull")
        (simp_all add: document_loop_unfold field_ok_def [of _ _ _ d])
  qed
qed simp


text \<open>With distinct names, every field of the result is determined by its definition.\<close>

definition loop_result ::
  "(string \<Rightarrow> string) \<Rightarrow> i64 \<Rightarrow> fields \<Rightarrow> FieldDef list \<Rightarrow> fields \<Rightarrow> string \<Rightarrow> Value option" where
  "loop_result lower now fs defs r k =
     (case find (\<lambda>d. fd_name d = k) defs of
        Some d \<Rightarrow> field_result lower now fs d
      | None \<Rightarrow> hm_get r k)"

lemma loop_result_step:
  assumes "d' = fd_name d" "d' \<notin> fd_name ` set defs" "hm_get r' d' = field_result lower now fs d"
    and "\<And>k. k \<noteq> d' \<Longrightarrow> hm_get r' k = hm_get r k"
  shows "loop_result lower now fs defs r' = loop_result lower now fs (d # defs) r"
proof
  fix k
  have "find (\<lambda>d. fd_name d = d') defs = None" using assms(2) by (auto simp: find_None_iff)
  then show "loop_result lower now fs defs r' k = loop_result lower now fs (d # defs) r k"
    using assms by (cases "k = d'") (auto simp: loop_result_def split: option.splits)
qed

lemma object_loop_result:
  assumes "object_field_loop lower now parent fs defs r = Inr r'" "distinct (map fd_name defs)"
    and "\<forall>d\<in>set defs. hm_get r (fd_name d) = hm_get fs (fd_name d)"
  shows "hm_get r' = loop_result lower now fs defs r"
  using assms
proof (induction defs arbitrary: r)
  case Nil
  then show ?case by (auto simp: loop_result_def)
next
  case (Cons d defs)
  have new: "fd_name d \<notin> fd_name ` set defs" "distinct (map fd_name defs)" using Cons.prems(2) by auto
  obtain r1 where loop: "object_field_loop lower now parent fs defs r1 = Inr r'"
    and r1: "hm_get r1 (fd_name d) = field_result lower now fs d" "\<And>k. k \<noteq> fd_name d \<Longrightarrow> hm_get r1 k = hm_get r k"
    using Cons.prems(1,3)
    by (fastforce simp: object_loop_unfold field_result_unfold and_then_Inr_iff object_pair_Some
        split: option.splits if_splits prod.splits sum.splits)
  have "\<forall>d'\<in>set defs. hm_get r1 (fd_name d') = hm_get fs (fd_name d')"
    using Cons.prems(3) r1(2) new(1) by (metis image_eqI list.set_intros(2))
  from Cons.IH [OF loop new(2) this] show ?case
    using loop_result_step [OF refl new(1) r1] by simp
qed

lemma document_loop_result:
  assumes "document_field_loop lower now coll fs defs r = Inr r'" "distinct (map fd_name defs)"
    and "\<forall>d\<in>set defs. hm_get r (fd_name d) = hm_get fs (fd_name d)"
  shows "hm_get r' = loop_result lower now fs defs r"
  using assms
proof (induction defs arbitrary: r)
  case Nil
  then show ?case by (auto simp: loop_result_def)
next
  case (Cons d defs)
  have new: "fd_name d \<notin> fd_name ` set defs" "distinct (map fd_name defs)" using Cons.prems(2) by auto
  obtain r1 where loop: "document_field_loop lower now coll fs defs r1 = Inr r'"
    and r1: "hm_get r1 (fd_name d) = field_result lower now fs d" "\<And>k. k \<noteq> fd_name d \<Longrightarrow> hm_get r1 k = hm_get r k"
    using Cons.prems(1,3)
    by (fastforce simp: document_loop_unfold field_result_unfold and_then_Inr_iff object_pair_Some
        split: option.splits if_splits prod.splits sum.splits)
  have "\<forall>d'\<in>set defs. hm_get r1 (fd_name d') = hm_get fs (fd_name d')"
    using Cons.prems(3) r1(2) new(1) by (metis image_eqI list.set_intros(2))
  from Cons.IH [OF loop new(2) this] show ?case
    using loop_result_step [OF refl new(1) r1] by simp
qed

section \<open>Accepted schemas\<close>

text \<open>What the checks of \<open>validate_schema\<close> give at every level of nesting, with one proviso that they
  do not give: no required field of type any has the default null.\<close>

function fields_ok :: "FieldDef list \<Rightarrow> bool" where
  "fields_ok [] = True"
| "fields_ok (d # ds) \<longleftrightarrow>
     fd_name d \<notin> fd_name ` set ds \<and>
     (\<forall>def. fd_default d = Some def \<longrightarrow> default_is_valid d def \<and> (fd_required d \<longrightarrow> def \<noteq> DNull)) \<and>
     fields_ok (nested_fields (fd_type d)) \<and> fields_ok ds"
  by pat_completeness auto

termination fields_ok
  by (relation "measure (size_list size)") (auto simp: size_nested_fields)

function no_null_required :: "FieldDef list \<Rightarrow> bool" where
  "no_null_required [] = True"
| "no_null_required (d # ds) \<longleftrightarrow>
     \<not> (fd_required d \<and> fd_default d = Some DNull) \<and>
     no_null_required (nested_fields (fd_type d)) \<and> no_null_required ds"
  by pat_completeness auto

termination no_null_required
  by (relation "measure (size_list size)") (auto simp: size_nested_fields)

lemma no_duplicates_distinct:
  "validate_fields_no_duplicates coll seen ds = Inr () \<Longrightarrow>
     distinct (map fd_name ds) \<and> fd_name ` set ds \<inter> seen = {}"
  by (induction ds arbitrary: seen) (auto simp: and_then_Inr_iff split: if_splits)

lemma validators_fields_ok:
  "validate_fields_no_duplicates coll seen ds = Inr () \<Longrightarrow> validate_default_types coll ds = Inr () \<Longrightarrow>
     no_null_required ds \<Longrightarrow> fields_ok ds"
proof (induction ds arbitrary: seen rule: fields_ok.induct)
  case (2 d ds)
  have dup: "validate_fields_no_duplicates coll {} (nested_fields (fd_type d)) = Inr ()"
      "validate_fields_no_duplicates coll (insert (fd_name d) seen) ds = Inr ()"
    using "2.prems"(1) by (auto simp: and_then_Inr_iff split: if_splits)
  have def: "validate_default_types coll (nested_fields (fd_type d)) = Inr ()"
      "validate_default_types coll ds = Inr ()" "\<And>def. fd_default d = Some def \<Longrightarrow> default_is_valid d def"
    using "2.prems"(2) by (auto simp: and_then_Inr_iff split: option.splits if_splits)
  have "fd_name d \<notin> fd_name ` set ds" using no_duplicates_distinct [OF dup(2)] by auto
  then show ?case
    using "2.IH"(1) [OF dup(1) def(1)] "2.IH"(2) [OF dup(2) def(2)] def(3) "2.prems"(3) by auto
qed simp

lemma fields_ok_distinct: "fields_ok ds \<Longrightarrow> distinct (map fd_name ds)"
  by (induction ds) auto

lemma fields_ok_elem:
  "fields_ok ds \<Longrightarrow> d \<in> set ds \<Longrightarrow>
     fields_ok (nested_fields (fd_type d)) \<and>
     (\<forall>def. fd_default d = Some def \<longrightarrow> default_is_valid d def \<and> (fd_required d \<longrightarrow> def \<noteq> DNull))"
  by (induction ds) auto

text \<open>A default that the schema check accepts is a value that the document check accepts.\<close>

lemma default_is_valid_ok:
  "default_is_valid d def \<Longrightarrow> is_ok (validate_field_type lower now nm (default_to_value now def) (fd_type d))"
  by (cases "fd_type d"; cases def; simp add: default_is_valid_def default_to_value_def validate_field_type.simps)

lemma default_to_value_null: "default_to_value now def = VNull \<longleftrightarrow> def = DNull"
  by (cases def) (simp_all add: default_to_value_def)

section \<open>A validated document is valid\<close>

lemma find_name:
  assumes "distinct (map fd_name ds)" "d \<in> set ds"
  shows "find (\<lambda>e. fd_name e = fd_name d) ds = Some d"
  using assms by (induction ds) (auto simp: image_iff)

lemma result_field_ok:
  assumes ok: "fields_ok defs" "d \<in> set defs" "field_ok lower now fs d"
    and r: "hm_get r (fd_name d) = field_result lower now fs d"
    and nested: "\<And>obj nd nm ob. fd_type d = TObject nd nm \<Longrightarrow>
      validate_and_default_object_fields lower now (fd_name d) obj nd nm = Inr ob \<Longrightarrow>
      is_ok (validate_and_default_object_fields lower now (fd_name d) ob nd nm)"
  shows "field_ok lower now r d"
proof (cases "hm_get fs (fd_name d)")
  case None
  show ?thesis
  proof (cases "fd_default d")
    case (Some def)
    then have "default_is_valid d def" "fd_required d \<longrightarrow> def \<noteq> DNull"
      using fields_ok_elem [OF ok(1,2)] by auto
    then show ?thesis
      using r None Some default_is_valid_ok
      by (auto simp: field_ok_def field_result_def default_to_value_null)
  qed (use r None ok(3) in \<open>auto simp: field_ok_def field_result_def\<close>)
next
  case (Some v)
  show ?thesis
  proof (cases "object_pair v (fd_type d)")
    case None
    then have "hm_get r (fd_name d) = Some v" using r Some by (simp add: field_result_unfold)
    then show ?thesis using ok(3) Some by (simp add: field_ok_def)
  next
    case (Some p)
    then obtain obj nd nm where p: "v = VObject obj" "fd_type d = TObject nd nm"
      by (cases p) (auto simp: object_pair_Some)
    then have "is_ok (validate_and_default_object_fields lower now (fd_name d) obj nd nm)"
      using ok(3) \<open>hm_get fs (fd_name d) = Some v\<close> by (simp add: field_ok_def)
    then obtain ob where ob: "validate_and_default_object_fields lower now (fd_name d) obj nd nm = Inr ob"
      by (auto simp: is_ok_iff)
    then have "hm_get r (fd_name d) = Some (VObject ob)"
      using r p \<open>hm_get fs (fd_name d) = Some v\<close> by (simp add: field_result_def)
    then show ?thesis using nested [OF p(2) ob] p by (simp add: field_ok_def)
  qed
qed

lemma in_hm_keys: "k \<in> set (hm_keys m) \<longleftrightarrow> hm_get m k \<noteq> None"
  using hm_get_None_iff [of m k] by (auto simp: hm_keys_def)

lemma loop_result_keys:
  assumes "hm_get r = loop_result lower now fs defs fs" "hm_get r k \<noteq> None"
  shows "k \<in> fd_name ` set defs \<or> hm_get fs k \<noteq> None"
  using assms by (auto simp: loop_result_def find_Some_iff split: option.splits)

lemma loop_result_field:
  assumes "hm_get r = loop_result lower now fs defs fs" "distinct (map fd_name defs)" "d \<in> set defs"
  shows "hm_get r (fd_name d) = field_result lower now fs d"
  using assms(1) find_name [OF assms(2,3)] by (simp add: loop_result_def)

lemma find_None_keys: "find P (hm_keys m) = None \<longleftrightarrow> (\<forall>k. hm_get m k \<noteq> None \<longrightarrow> \<not> P k)"
  unfolding find_None_iff in_hm_keys [symmetric] by blast

lemma validate_object_Inr:
  "validate_and_default_object_fields lower now parent fs defs mode = Inr r \<longleftrightarrow>
     object_field_loop lower now parent fs defs fs = Inr r \<and>
     (mode = Strict \<longrightarrow> (\<forall>k. hm_get fs k \<noteq> None \<longrightarrow> k \<in> fd_name ` set defs))"
proof -
  have "validate_and_default_object_fields lower now parent fs defs mode = Inr r \<longleftrightarrow>
      object_field_loop lower now parent fs defs fs = Inr r \<and>
      (mode = Strict \<longrightarrow> find (\<lambda>f. f \<notin> fd_name ` set defs) (hm_keys fs) = None)"
    by (auto simp: validate_and_default_object_fields.simps split: option.splits if_splits)
  then show ?thesis by (simp only: find_None_keys not_not)
qed

lemma validate_document_Inr:
  "validate_document lower now s fs = Inr r \<longleftrightarrow>
     document_field_loop lower now (schema_name s) fs (schema_fields s) fs = Inr r \<and>
     (schema_mode s = Strict \<longrightarrow>
       (\<forall>k. hm_get fs k \<noteq> None \<longrightarrow> k = ''id'' \<or> k \<in> fd_name ` set (schema_fields s)))"
proof -
  have "validate_document lower now s fs = Inr r \<longleftrightarrow>
      document_field_loop lower now (schema_name s) fs (schema_fields s) fs = Inr r \<and>
      (schema_mode s = Strict \<longrightarrow>
        find (\<lambda>f. f \<noteq> ''id'' \<and> f \<notin> fd_name ` set (schema_fields s)) (hm_keys fs) = None)"
    by (auto simp: validate_document_def and_then_Inr_iff split: option.splits if_splits)
  then show ?thesis by (simp only: find_None_keys not_not de_Morgan_conj)
qed

lemma validated_object_revalidates:
  assumes "fields_ok defs" "validate_and_default_object_fields lower now parent fs defs mode = Inr r"
  shows "is_ok (validate_and_default_object_fields lower now parent r defs mode)"
  using assms
proof (induction "size_list size defs" arbitrary: defs parent fs mode r rule: less_induct)
  case less
  have strict: "mode = Strict \<longrightarrow> (\<forall>k. hm_get fs k \<noteq> None \<longrightarrow> k \<in> fd_name ` set defs)"
    and loop: "object_field_loop lower now parent fs defs fs = Inr r"
    using less.prems(2) unfolding validate_object_Inr by blast+
  have dist: "distinct (map fd_name defs)" using fields_ok_distinct [OF less.prems(1)] .
  have r: "hm_get r = loop_result lower now fs defs fs"
    using object_loop_result [OF loop dist] by simp
  have "is_ok (object_field_loop lower now parent fs defs fs)" using loop by simp
  then have fs_ok: "field_ok lower now fs d" if "d \<in> set defs" for d
    using that object_loop_ok by blast
  have "field_ok lower now r d" if d: "d \<in> set defs" for d
  proof (rule result_field_ok [OF less.prems(1) d fs_ok [OF d] loop_result_field [OF r dist d]])
    fix obj nd nm ob
    assume t: "fd_type d = TObject nd nm"
      and v: "validate_and_default_object_fields lower now (fd_name d) obj nd nm = Inr ob"
    have "fields_ok nd" using fields_ok_elem [OF less.prems(1) d] t by (simp add: nested_fields_def)
    moreover have "size_list size nd < size_list size defs"
    proof -
      have "size_list size nd < size d" using size_fd_type [of d] t by simp
      also have "size d \<le> size_list size defs" using d by (induction defs) auto
      finally show ?thesis .
    qed
    ultimately show "is_ok (validate_and_default_object_fields lower now (fd_name d) ob nd nm)"
      using less.hyps v by blast
  qed
  then have "is_ok (object_field_loop lower now parent r defs r)" using object_loop_ok by blast
  moreover have "mode = Strict \<longrightarrow> (\<forall>k. hm_get r k \<noteq> None \<longrightarrow> k \<in> fd_name ` set defs)"
    using strict loop_result_keys [OF r] by blast
  ultimately show ?case
    unfolding is_ok_iff validate_object_Inr by blast
qed

lemma validated_document_ok:
  assumes ok: "fields_ok (schema_fields s)" and v: "validate_document lower now s fs = Inr r"
  shows "is_ok (validate_document lower now s r)"
    and "d \<in> set (schema_fields s) \<Longrightarrow> field_ok lower now r d"
    and "hm_get r = loop_result lower now fs (schema_fields s) fs"
proof -
  let ?defs = "schema_fields s"
  have strict: "schema_mode s = Strict \<longrightarrow> (\<forall>k. hm_get fs k \<noteq> None \<longrightarrow> k = ''id'' \<or> k \<in> fd_name ` set ?defs)"
    and loop: "document_field_loop lower now (schema_name s) fs ?defs fs = Inr r"
    using v unfolding validate_document_Inr by blast+
  have dist: "distinct (map fd_name ?defs)" using fields_ok_distinct [OF ok] .
  show r: "hm_get r = loop_result lower now fs ?defs fs"
    using document_loop_result [OF loop dist] by simp
  have "is_ok (document_field_loop lower now (schema_name s) fs ?defs fs)" using loop by simp
  then have fs_ok: "field_ok lower now fs d" if "d \<in> set ?defs" for d
    using that document_loop_ok by blast
  have f: "field_ok lower now r d" if d: "d \<in> set ?defs" for d
  proof (rule result_field_ok [OF ok d fs_ok [OF d] loop_result_field [OF r dist d]])
    fix obj nd nm ob
    assume t: "fd_type d = TObject nd nm"
      and v: "validate_and_default_object_fields lower now (fd_name d) obj nd nm = Inr ob"
    have "fields_ok nd" using fields_ok_elem [OF ok d] t by (simp add: nested_fields_def)
    then show "is_ok (validate_and_default_object_fields lower now (fd_name d) ob nd nm)"
      using v by (rule validated_object_revalidates)
  qed
  then show "d \<in> set ?defs \<Longrightarrow> field_ok lower now r d" .
  have "is_ok (document_field_loop lower now (schema_name s) r ?defs r)" using f document_loop_ok by blast
  moreover have "schema_mode s = Strict \<longrightarrow> (\<forall>k. hm_get r k \<noteq> None \<longrightarrow> k = ''id'' \<or> k \<in> fd_name ` set ?defs)"
    using strict loop_result_keys [OF r] by blast
  ultimately show "is_ok (validate_document lower now s r)"
    unfolding is_ok_iff validate_document_Inr by blast
qed

section \<open>Properties\<close>

text \<open>C7: Under a schema that \<open>validate_schema\<close> accepts, a validated document is valid: every field
  of the schema that is required is present and not null, every value (defaults and the defaults
  inside nested objects included) is accepted by its type, and validating the document again
  succeeds. The schema has no required field whose default is null.\<close>

theorem validated_document_is_valid:
  assumes "validate_schema s = Inr ()" "no_null_required (schema_fields s)"
    and "validate_document lower now s fs = Inr r"
  shows "is_ok (validate_document lower now s r) \<and>
    (\<forall>d\<in>set (schema_fields s).
       (fd_required d \<longrightarrow> hm_get r (fd_name d) \<notin> {None, Some VNull}) \<and>
       (\<forall>v. hm_get r (fd_name d) = Some v \<longrightarrow>
          is_ok (validate_field_type lower now (fd_name d) v (fd_type d))))"
proof -
  have ok: "fields_ok (schema_fields s)"
    using assms(1,2) by (auto simp: validate_schema_def and_then_Inr_iff intro: validators_fields_ok)
  have "(fd_required d \<longrightarrow> hm_get r (fd_name d) \<notin> {None, Some VNull}) \<and>
       (\<forall>v. hm_get r (fd_name d) = Some v \<longrightarrow>
          is_ok (validate_field_type lower now (fd_name d) v (fd_type d)))"
    if d: "d \<in> set (schema_fields s)" for d
  proof -
    have f: "field_ok lower now r d" using validated_document_ok(2) [OF ok assms(3) d] .
    have "hm_get r (fd_name d) \<noteq> None" if "fd_required d"
    proof -
      have res: "hm_get r (fd_name d) = field_result lower now fs d"
        using loop_result_field [OF validated_document_ok(3) [OF ok assms(3)] fields_ok_distinct [OF ok] d] .
      have "is_ok (document_field_loop lower now (schema_name s) fs (schema_fields s) fs)"
        using assms(3) by (simp add: validate_document_Inr)
      then have "field_ok lower now fs d" using d document_loop_ok by blast
      then show ?thesis
        using that unfolding res
        by (auto simp: field_ok_def field_result_unfold object_pair_Some is_ok_iff split: option.splits sum.splits)
    qed
    then show ?thesis using f by (auto simp: field_ok_def split: option.splits)
  qed
  then show ?thesis using validated_document_ok(1) [OF ok assms(3)] by blast
qed

definition sample_schema :: CollectionSchema where
  "sample_schema = \<lparr>schema_name = ''user'', schema_mode = Strict,
     schema_fields = [FieldDef ''name'' TString True None, FieldDef ''age'' TInt False (Some (DInt 7))],
     schema_indexes = []\<rparr>"

lemma sample_schema_ok: "validate_schema sample_schema = Inr ()"
  by (simp add: validate_schema_def sample_schema_def validate_name_def validate_name_length_def
      MAX_NAME_LENGTH_def starts_with_def utf8_next_def is_control_def nested_fields_def
      default_is_valid_def validate_indexes_def)

lemma sample_document:
  "validate_document lower now sample_schema [(''name'', VString ''Al'')] =
     Inr [(''age'', VInt 7), (''name'', VString ''Al'')]"
  by (simp add: validate_document_def sample_schema_def document_loop_unfold object_pair_def
      validate_field_type.simps default_to_value_def hm_keys_def)

theorem validated_document_is_valid_witness:
  "is_ok (validate_document (\<lambda>s. s) 0 sample_schema [(''age'', VInt 7), (''name'', VString ''Al'')])"
  using validated_document_is_valid [OF sample_schema_ok _ sample_document, of "\<lambda>s. s" 0]
  by (simp add: sample_schema_def nested_fields_def)



text \<open>An accepted name is one safe path component: it has no separator, is neither empty nor
  \<open>.\<close> nor \<open>..\<close>, holds no NUL byte and is at most 120 bytes long.\<close>

theorem accepted_name_is_path_component:
  assumes "validate_name kind nm = Inr ()"
  shows "split_str (CHR ''/'') nm = [nm] \<and> split_str (CHR 0x5C) nm = [nm] \<and>
    nm \<notin> {[], ''.'', ''..''} \<and> CHR 0x00 \<notin> set nm \<and> length nm \<le> 120"
proof -
  have one: "c \<notin> set s \<Longrightarrow> split_str c s = [s]" for c and s :: string
    by (induction s) auto
  have "\<not> contains_str ''..'' nm" using assms by (auto simp: validate_name_def split: if_splits)
  then have "nm \<noteq> ''..''" by (auto simp: starts_with_def)
  then show ?thesis
    using assms one
    by (auto simp: validate_name_def validate_name_length_def MAX_NAME_LENGTH_def split: if_splits)
qed

theorem accepted_name_is_path_component_witness:
  "split_str (CHR ''/'') ''user'' = [''user'']"
proof -
  have "validate_name ''collection'' ''user'' = Inr ()"
    by (simp add: validate_name_def validate_name_length_def MAX_NAME_LENGTH_def starts_with_def
        utf8_next_def is_control_def)
  then show ?thesis using accepted_name_is_path_component by blast
qed

end
