(* ===== verification/Eval.thy ===== *)
theory Eval
  imports Ast Keyspace Schema_Validate "HOL-Library.Signed_Division"
begin

text \<open>
  Evaluation of expressions: \<open>query/execute/eval\<close> (\<open>compare.rs\<close>, \<open>binary.rs\<close>, \<open>access.rs\<close>,
  \<open>mod.rs\<close>), the rows it reads (\<open>operators/operator.rs\<close>), the variables (\<open>var_scope.rs\<close>) and
  \<open>ExecuteError\<close> (\<open>query/error.rs\<close>).

  A result is a sum, the error on the left. A panic is the error \<open>EPanic\<close>, which no handler
  of the code catches. What evaluation calls outside these files is the record \<open>env\<close>: the
  decimal library, the function registry, Unicode case conversion, the formatting of
  timestamps and bytes, the iteration order of a hash map, the execution context
  (\<open>get_document\<close>, \<open>vars\<close>), and whether integer overflow is checked (it panics then, and wraps
  otherwise). The parent row of the code's signature is not used by evaluation and left out.
  Lengths of arrays are below \<open>2 ^ 63\<close>, as they are for any \<open>Vec\<close>, so the index arithmetic is
  done on \<open>int\<close>.
\<close>

section \<open>Errors\<close>

datatype ExecuteError =
    ENotFound string
  | EAlreadyExists string
  | EInvalidId string
  | EInvalidOperation string
  | EStorage StorageError
  | ETransactionNotSupported string
  | ECollectionNotEmpty string
  | ECollectionNotFound string
  | EDdlNotAllowedInTransaction
  | ESessionRequired
  | ESessionAccessDenied
  | ESessionDatabaseMismatch
  | ESessionExpired
  | ETransactionConflict
  | ESchemaValidation BindError
  | EIndexAlreadyExists string string
  | EIndexNotFound string string
  | EUniqueViolation string string
  | EQueryTimeout string
  | EServerDeadlineExceeded
  | ENotYetImplemented string
  | EInternal string
  | EOperatorNotInitialized string
  | EUndefinedVariable string
  | EOverflow string
  | EUnexpectedExpression string
  | EEdgeTypeUndefined string
  | EInvalidEncoding string
  | ETypeError string string string
  | EDivisionByZero
  | EArityMismatch string string nat
  | ESubqueryColumnCount nat nat
  | EInvalidGroupSelect string
  | EAnalyzerNotFound string
  | EParentDepthExceeded nat nat
  | EUnknownFunction string
  | EPanic string

type_synonym 'a eval_result = "ExecuteError + 'a"

section \<open>Variables\<close>

text \<open>The stack of frames; the top frame is the last of the vector.\<close>

type_synonym VarScope = "fields list"

definition scope_new :: VarScope where
  "scope_new = [[]]"

definition scope_push :: "VarScope \<Rightarrow> VarScope" where
  "scope_push sc = sc @ [[]]"

text \<open>\<open>None\<close> is a panic: a debug build refuses to pop the root frame, and \<open>set\<close> expects a
  frame.\<close>

definition scope_pop :: "bool \<Rightarrow> VarScope \<Rightarrow> VarScope option" where
  "scope_pop dbg sc = (if dbg \<and> length sc \<le> 1 then None else Some (butlast sc))"

definition scope_set :: "string \<Rightarrow> Value \<Rightarrow> VarScope \<Rightarrow> VarScope option" where
  "scope_set name v sc =
     (if sc = [] then None else Some (butlast sc @ [hm_insert name v (last sc)]))"

fun scope_get_loop :: "fields list \<Rightarrow> string \<Rightarrow> Value option" where
  "scope_get_loop [] name = None"
| "scope_get_loop (f # fs) name =
     (case hm_get f name of Some v \<Rightarrow> Some v | None \<Rightarrow> scope_get_loop fs name)"

definition scope_get :: "VarScope \<Rightarrow> string \<Rightarrow> Value option" where
  "scope_get sc name = scope_get_loop (rev sc) name"

definition scope_contains :: "VarScope \<Rightarrow> string \<Rightarrow> bool" where
  "scope_contains sc name = list_ex (\<lambda>f. hm_contains f name) (rev sc)"

section \<open>Rows\<close>

record Row =
  row_doc :: document
  scalar_value :: "Value option"
  scalar_alias :: "string option"

definition from_doc :: "document \<Rightarrow> Row" where
  "from_doc d = \<lparr>row_doc = d, scalar_value = None, scalar_alias = None\<rparr>"

definition row_scalar :: "Value \<Rightarrow> Row" where
  "row_scalar v = \<lparr>row_doc = \<lparr>doc_id = [], doc_fields = []\<rparr>, scalar_value = Some v, scalar_alias = None\<rparr>"

definition scalar_with_alias :: "Value \<Rightarrow> string \<Rightarrow> Row" where
  "scalar_with_alias v alias =
     \<lparr>row_doc = \<lparr>doc_id = [], doc_fields = []\<rparr>, scalar_value = Some v, scalar_alias = Some alias\<rparr>"

definition is_scalar :: "Row \<Rightarrow> bool" where
  "is_scalar row = (scalar_value row \<noteq> None)"

definition row_get_field :: "Row \<Rightarrow> string \<Rightarrow> Value option" where
  "row_get_field row name =
     (let rest = (if name = ''id'' then Some (VReference (doc_id (row_doc row)))
                  else hm_get (doc_fields (row_doc row)) name)
      in case scalar_value row of
           Some sc \<Rightarrow>
             if name = ''$value'' then Some sc
             else if scalar_alias row = Some name then Some sc
             else rest
         | None \<Rightarrow> rest)"

definition has_field :: "Row \<Rightarrow> string \<Rightarrow> bool" where
  "has_field row name =
     (if scalar_value row \<noteq> None \<and> (name = ''$value'' \<or> scalar_alias row = Some name) then True
      else if name = ''id'' then True
      else hm_contains (doc_fields (row_doc row)) name)"

definition row_get_value :: "Row \<Rightarrow> Value" where
  "row_get_value row =
     (case scalar_value row of
        Some sc \<Rightarrow> sc
      | None \<Rightarrow>
          (case hm_get (doc_fields (row_doc row)) ''$value'' of
             Some v \<Rightarrow> v
           | None \<Rightarrow> VObject (doc_fields (row_doc row))))"

section \<open>Environment\<close>

record 'd env =
  env_libs :: "'d libs"
  env_overflow_checks :: bool
  env_rfc3339 :: "i64 \<Rightarrow> string option"
  env_base64 :: "bytes \<Rightarrow> string"
  env_map_order :: "(string \<times> string) list \<Rightarrow> (string \<times> string) list"
  env_resolve_function :: "string \<Rightarrow> string \<Rightarrow> (Value list \<Rightarrow> Value eval_result) option"
  env_find_similar_functions :: "string \<Rightarrow> string \<Rightarrow> string list"
  env_resolve_constant :: "string \<Rightarrow> string \<Rightarrow> Value option"
  env_to_lowercase :: "string \<Rightarrow> string"
  env_to_uppercase :: "string \<Rightarrow> string"
  env_get_document :: "string \<Rightarrow> string \<Rightarrow> StorageError + document option"
  env_vars :: "VarScope option"

section \<open>Display\<close>

fun intersperse_str :: "string \<Rightarrow> string list \<Rightarrow> string" where
  "intersperse_str sep [] = []"
| "intersperse_str sep [s] = s"
| "intersperse_str sep (s # t # ss) = s @ sep @ intersperse_str sep (t # ss)"

definition display_duration :: "u64 \<Rightarrow> string" where
  "display_duration ns =
     (let nanos = unat ns
      in if nanos \<ge> 1000000000 * 60 * 60 then nat_to_string (nanos div (1000000000 * 60 * 60)) @ ''h''
         else if nanos \<ge> 1000000000 * 60 then nat_to_string (nanos div (1000000000 * 60)) @ ''m''
         else if nanos \<ge> 1000000000 then nat_to_string (nanos div 1000000000) @ ''s''
         else if nanos \<ge> 1000000 then nat_to_string (nanos div 1000000) @ ''ms''
         else if nanos \<ge> 1000 then nat_to_string (nanos div 1000) @ ''us''
         else nat_to_string nanos @ ''ns'')"

definition display_bool :: "bool \<Rightarrow> string" where
  "display_bool b = (if b then ''true'' else ''false'')"

fun display :: "'d env \<Rightarrow> Value \<Rightarrow> string" where
  "display E VNull = ''null''"
| "display E (VBool b) = display_bool b"
| "display E (VInt n) = int_to_string (sint n)"
| "display E (VFloat f) = f64_to_string f"
| "display E (VDecimal d) = dec_to_string (env_libs E) (dec_deserialize (env_libs E) d)"
| "display E (VString s) = s"
| "display E (VArray arr) = ''['' @ intersperse_str '', '' (map (display E) arr) @ '']''"
| "display E (VObject obj) =
     ''{'' @ intersperse_str '', ''
        (map (\<lambda>(k, s). k @ '': '' @ s) (env_map_order E (map (\<lambda>(k, v). (k, display E v)) obj))) @ ''}''"
| "display E (VReference r) = r"
| "display E (VDatetime ms) =
     (case env_rfc3339 E ms of
        Some s \<Rightarrow> ''d'' @ [CHR 0x22] @ s @ [CHR 0x22]
      | None \<Rightarrow> ''d'' @ [CHR 0x22] @ int_to_string (sint ms) @ [CHR 0x22])"
| "display E (VDuration ns) = display_duration ns"
| "display E (VBytes b) = ''b'' @ [CHR 0x22] @ env_base64 E b @ [CHR 0x22]"
| "display E (VRange a b) = display E a @ ''..'' @ display E b"

section \<open>Comparison (compare.rs)\<close>

definition f64_epsilon :: f64 where
  "f64_epsilon = 0x3CB0000000000000"

definition f64_close :: "f64 \<Rightarrow> f64 \<Rightarrow> bool" where
  "f64_close a b = f64_lt (f64_abs (f64_sub a b)) f64_epsilon"

definition values_equal_by_type :: "'d libs \<Rightarrow> Value \<Rightarrow> Value \<Rightarrow> bool" where
  "values_equal_by_type L v w =
     (case (v, w) of
        (VNull, VNull) \<Rightarrow> True
      | (VBool a, VBool b) \<Rightarrow> a = b
      | (VInt a, VInt b) \<Rightarrow> a = b
      | (VFloat a, VFloat b) \<Rightarrow> f64_close a b
      | (VInt a, VFloat b) \<Rightarrow> f64_close (f64_of_i64 a) b
      | (VFloat b, VInt a) \<Rightarrow> f64_close (f64_of_i64 a) b
      | (VDecimal a, VDecimal b) \<Rightarrow> dec_cmp L (dec_deserialize L a) (dec_deserialize L b) = Equal
      | (VString a, VString b) \<Rightarrow> a = b
      | (VReference a, VReference b) \<Rightarrow> a = b
      | (VReference a, VString b) \<Rightarrow> a = b
      | (VString b, VReference a) \<Rightarrow> a = b
      | _ \<Rightarrow> False)"

definition values_equal :: "'d libs \<Rightarrow> Value \<Rightarrow> Value \<Rightarrow> bool" where
  "values_equal L a b =
     (if is_numeric a \<and> is_numeric b
      then case (as_decimal L a, as_decimal L b) of
             (Some da, Some db) \<Rightarrow> dec_cmp L da db = Equal
           | _ \<Rightarrow> values_equal_by_type L a b
      else values_equal_by_type L a b)"

definition values_compare_by_type :: "'d libs \<Rightarrow> Value \<Rightarrow> Value \<Rightarrow> ordering option" where
  "values_compare_by_type L v w =
     (case (v, w) of
        (VInt a, VInt b) \<Rightarrow> Some (cmp (sint a) (sint b))
      | (VFloat a, VFloat b) \<Rightarrow> f64_partial_cmp a b
      | (VInt a, VFloat b) \<Rightarrow> f64_partial_cmp (f64_of_i64 a) b
      | (VFloat a, VInt b) \<Rightarrow> f64_partial_cmp a (f64_of_i64 b)
      | (VDecimal a, VDecimal b) \<Rightarrow> Some (dec_cmp L (dec_deserialize L a) (dec_deserialize L b))
      | (VString a, VString b) \<Rightarrow> Some (cmp a b)
      | (VBool a, VBool b) \<Rightarrow> Some (cmp a b)
      | (VReference a, VReference b) \<Rightarrow> Some (cmp a b)
      | _ \<Rightarrow> None)"

definition values_compare :: "'d libs \<Rightarrow> Value \<Rightarrow> Value \<Rightarrow> ordering option" where
  "values_compare L a b =
     (if is_numeric a \<and> is_numeric b
      then case (as_decimal L a, as_decimal L b) of
             (Some da, Some db) \<Rightarrow> Some (dec_cmp L da db)
           | _ \<Rightarrow> values_compare_by_type L a b
      else values_compare_by_type L a b)"

definition value_type_name :: "Value \<Rightarrow> string" where
  "value_type_name v =
     (case v of
        VNull \<Rightarrow> ''Null''
      | VBool _ \<Rightarrow> ''Bool''
      | VInt _ \<Rightarrow> ''Int''
      | VFloat _ \<Rightarrow> ''Float''
      | VString _ \<Rightarrow> ''String''
      | VArray _ \<Rightarrow> ''Array''
      | VObject _ \<Rightarrow> ''Object''
      | VReference _ \<Rightarrow> ''Reference''
      | VDecimal _ \<Rightarrow> ''Decimal''
      | VDatetime _ \<Rightarrow> ''Datetime''
      | VDuration _ \<Rightarrow> ''Duration''
      | VBytes _ \<Rightarrow> ''Bytes''
      | VRange _ _ \<Rightarrow> ''Range'')"

text \<open>\<open>&s[..n]\<close> of a \<open>str\<close>: a panic unless \<open>n\<close> is a character boundary.\<close>

definition str_prefix :: "nat \<Rightarrow> string \<Rightarrow> string eval_result" where
  "str_prefix n s =
     (if n \<le> length s \<and> (n = length s \<or> \<not> is_cont (as_bytes s ! n)) then Inr (take n s)
      else Inl (EPanic ''byte index is not a char boundary''))"

definition value_repr :: "'d env \<Rightarrow> Value \<Rightarrow> string eval_result" where
  "value_repr E v =
     (case v of
        VNull \<Rightarrow> Inr ''Null''
      | VBool b \<Rightarrow> Inr (''Bool ('' @ display_bool b @ '')'')
      | VInt i \<Rightarrow> Inr (''Int ('' @ int_to_string (sint i) @ '')'')
      | VFloat f \<Rightarrow> Inr (''Float ('' @ f64_to_string f @ '')'')
      | VString s \<Rightarrow>
          if length s \<le> 20 then Inr (''String ('' @ [CHR 0x22] @ s @ [CHR 0x22] @ '')'')
          else and_then (str_prefix 17 s)
                 (\<lambda>p. Inr (''String ('' @ [CHR 0x22] @ p @ ''...'' @ [CHR 0x22] @ '')''))
      | VArray arr \<Rightarrow> Inr (''Array ('' @ nat_to_string (length arr) @ '' elements)'')
      | VObject obj \<Rightarrow> Inr (''Object ('' @ nat_to_string (length obj) @ '' fields)'')
      | VReference r \<Rightarrow> Inr (''Reference ('' @ r @ '')'')
      | VDecimal d \<Rightarrow> Inr (''Decimal ('' @ display E v @ '')'')
      | VDatetime dt \<Rightarrow> Inr (''Datetime ('' @ int_to_string (sint dt) @ '')'')
      | VDuration d \<Rightarrow> Inr (''Duration ('' @ nat_to_string (unat d) @ '')'')
      | VBytes b \<Rightarrow> Inr (''Bytes ('' @ nat_to_string (length b) @ '' bytes)'')
      | VRange start end \<Rightarrow> Inr (''Range ('' @ display E start @ ''..'' @ display E end @ '')''))"

text \<open>\<open>Err(ExecuteError::TypeError { expected, got: value_repr(v), op })\<close>.\<close>

definition type_error :: "'d env \<Rightarrow> string \<Rightarrow> Value \<Rightarrow> string \<Rightarrow> 'a eval_result" where
  "type_error E expected v oper = and_then (value_repr E v) (\<lambda>got. Inl (ETypeError expected got oper))"

section \<open>Binary operators (binary.rs)\<close>

definition i64_checked :: "int \<Rightarrow> i64 option" where
  "i64_checked i = (if - (2 ^ 63) \<le> i \<and> i < 2 ^ 63 then Some (word_of_int i) else None)"

definition checked_add :: "i64 \<Rightarrow> i64 \<Rightarrow> i64 option" where
  "checked_add a b = i64_checked (sint a + sint b)"

definition checked_sub :: "i64 \<Rightarrow> i64 \<Rightarrow> i64 option" where
  "checked_sub a b = i64_checked (sint a - sint b)"

definition checked_mul :: "i64 \<Rightarrow> i64 \<Rightarrow> i64 option" where
  "checked_mul a b = i64_checked (sint a * sint b)"

definition i64_saturate :: "int \<Rightarrow> i64" where
  "i64_saturate i = word_of_int (max (- (2 ^ 63)) (min (2 ^ 63 - 1) i))"

definition u64_saturate :: "int \<Rightarrow> u64" where
  "u64_saturate i = word_of_int (max 0 (min (2 ^ 64 - 1) i))"

definition eval_and :: "'d env \<Rightarrow> Value \<Rightarrow> Value \<Rightarrow> Value eval_result" where
  "eval_and E l r =
     (case (l, r) of
        (VBool a, VBool b) \<Rightarrow> Inr (VBool (a \<and> b))
      | (VBool a, VNull) \<Rightarrow> if a then Inr VNull else Inr (VBool False)
      | (VNull, VBool a) \<Rightarrow> if a then Inr VNull else Inr (VBool False)
      | (VNull, VNull) \<Rightarrow> Inr VNull
      | _ \<Rightarrow> type_error E ''Bool''
              (case l of VBool _ \<Rightarrow> r | VNull \<Rightarrow> r | _ \<Rightarrow> l) ''AND'')"

definition eval_or :: "'d env \<Rightarrow> Value \<Rightarrow> Value \<Rightarrow> Value eval_result" where
  "eval_or E l r =
     (case (l, r) of
        (VBool a, VBool b) \<Rightarrow> Inr (VBool (a \<or> b))
      | (VBool a, VNull) \<Rightarrow> if a then Inr (VBool True) else Inr VNull
      | (VNull, VBool a) \<Rightarrow> if a then Inr (VBool True) else Inr VNull
      | (VNull, VNull) \<Rightarrow> Inr VNull
      | _ \<Rightarrow> type_error E ''Bool''
              (case l of VBool _ \<Rightarrow> r | VNull \<Rightarrow> r | _ \<Rightarrow> l) ''OR'')"

definition decimal_result :: "'d libs \<Rightarrow> ('d \<Rightarrow> 'd \<Rightarrow> 'd option) \<Rightarrow> 'd \<Rightarrow> 'd \<Rightarrow> string \<Rightarrow> Value eval_result" where
  "decimal_result L f a b oper =
     (case f a b of Some d \<Rightarrow> Inr (VDecimal (dec_serialize L d)) | None \<Rightarrow> Inl (EOverflow oper))"

definition f64_to_decimal :: "'d libs \<Rightarrow> f64 \<Rightarrow> string \<Rightarrow> 'd eval_result" where
  "f64_to_decimal L f oper = (case dec_of_f64 L f of Some d \<Rightarrow> Inr d | None \<Rightarrow> Inl (EOverflow oper))"

definition eval_arithmetic ::
  "'d env \<Rightarrow> Value \<Rightarrow> Value \<Rightarrow> (i64 \<Rightarrow> i64 \<Rightarrow> i64 option) \<Rightarrow> (f64 \<Rightarrow> f64 \<Rightarrow> f64) \<Rightarrow>
   ('d \<Rightarrow> 'd \<Rightarrow> 'd option) \<Rightarrow> string \<Rightarrow> Value eval_result" where
  "eval_arithmetic E l r int_op float_op decimal_op oper =
     (let L = env_libs E; dec = dec_deserialize L
      in case (l, r) of
           (VInt a, VInt b) \<Rightarrow>
             (case int_op a b of Some c \<Rightarrow> Inr (VInt c) | None \<Rightarrow> Inl (EOverflow oper))
         | (VFloat a, VFloat b) \<Rightarrow> Inr (VFloat (float_op a b))
         | (VInt a, VFloat b) \<Rightarrow> Inr (VFloat (float_op (f64_of_i64 a) b))
         | (VFloat a, VInt b) \<Rightarrow> Inr (VFloat (float_op a (f64_of_i64 b)))
         | (VDecimal a, VDecimal b) \<Rightarrow> decimal_result L decimal_op (dec a) (dec b) oper
         | (VDecimal a, VInt b) \<Rightarrow> decimal_result L decimal_op (dec a) (dec_of_i64 L b) oper
         | (VInt a, VDecimal b) \<Rightarrow> decimal_result L decimal_op (dec_of_i64 L a) (dec b) oper
         | (VDecimal a, VFloat b) \<Rightarrow>
             and_then (f64_to_decimal L b oper) (\<lambda>db. decimal_result L decimal_op (dec a) db oper)
         | (VFloat a, VDecimal b) \<Rightarrow>
             and_then (f64_to_decimal L a oper) (\<lambda>da. decimal_result L decimal_op da (dec b) oper)
         | _ \<Rightarrow> type_error E ''numeric (Int, Float, or Decimal)''
                 (if \<not> is_numeric l then l else r) oper)"

definition duration_ms :: "u64 \<Rightarrow> i64" where
  "duration_ms ns = ns div 1000000"

definition eval_add :: "'d env \<Rightarrow> Value \<Rightarrow> Value \<Rightarrow> Value eval_result" where
  "eval_add E l r =
     (case (l, r) of
        (VString a, VString b) \<Rightarrow> Inr (VString (a @ b))
      | (VArray a, VArray b) \<Rightarrow> Inr (VArray (a @ b))
      | (VDatetime ms, VDuration ns) \<Rightarrow>
          Inr (VDatetime (i64_saturate (sint ms + sint (duration_ms ns))))
      | (VDuration ns, VDatetime ms) \<Rightarrow>
          Inr (VDatetime (i64_saturate (sint ms + sint (duration_ms ns))))
      | (VDuration a, VDuration b) \<Rightarrow> Inr (VDuration (u64_saturate (uint a + uint b)))
      | _ \<Rightarrow> eval_arithmetic E l r checked_add f64_add (dec_checked_add (env_libs E)) ''addition'')"

definition eval_sub :: "'d env \<Rightarrow> Value \<Rightarrow> Value \<Rightarrow> Value eval_result" where
  "eval_sub E l r =
     (case (l, r) of
        (VDatetime ms, VDuration ns) \<Rightarrow>
          Inr (VDatetime (i64_saturate (sint ms - sint (duration_ms ns))))
      | (VDatetime a, VDatetime b) \<Rightarrow>
          (let diff_ms = i64_saturate (sint a - sint b)
           in Inr (VDuration (u64_saturate (\<bar>sint diff_ms\<bar> * 1000000))))
      | (VDuration a, VDuration b) \<Rightarrow> Inr (VDuration (u64_saturate (uint a - uint b)))
      | _ \<Rightarrow> eval_arithmetic E l r checked_sub f64_sub (dec_checked_sub (env_libs E)) ''subtraction'')"

text \<open>\<open>a / b\<close> on \<open>i64\<close> with \<open>b \<noteq> 0\<close> panics on \<open>i64::MIN / -1\<close> in every build.\<close>

definition i64_div :: "i64 \<Rightarrow> i64 \<Rightarrow> i64 eval_result" where
  "i64_div a b =
     (case i64_checked (sint a sdiv sint b) of
        Some q \<Rightarrow> Inr q
      | None \<Rightarrow> Inl (EPanic ''attempt to divide with overflow''))"

definition eval_div :: "'d env \<Rightarrow> Value \<Rightarrow> Value \<Rightarrow> Value eval_result" where
  "eval_div E l r =
     (let L = env_libs E; dec = dec_deserialize L;
          dec_div = (\<lambda>a b. if dec_cmp L b (dec_zero L) = Equal then Inl EDivisionByZero
                           else decimal_result L (dec_checked_div L) a b ''division'')
      in case (l, r) of
           (VInt a, VInt b) \<Rightarrow>
             if b = 0 then Inl EDivisionByZero else and_then (i64_div a b) (\<lambda>q. Inr (VInt q))
         | (VFloat a, VFloat b) \<Rightarrow>
             if f64_eq b 0 then Inl EDivisionByZero else Inr (VFloat (f64_div a b))
         | (VInt a, VFloat b) \<Rightarrow>
             if f64_eq b 0 then Inl EDivisionByZero else Inr (VFloat (f64_div (f64_of_i64 a) b))
         | (VFloat a, VInt b) \<Rightarrow>
             if b = 0 then Inl EDivisionByZero else Inr (VFloat (f64_div a (f64_of_i64 b)))
         | (VDecimal a, VDecimal b) \<Rightarrow> dec_div (dec a) (dec b)
         | (VDecimal a, VInt b) \<Rightarrow>
             if b = 0 then Inl EDivisionByZero
             else decimal_result L (dec_checked_div L) (dec a) (dec_of_i64 L b) ''division''
         | (VInt a, VDecimal b) \<Rightarrow> dec_div (dec_of_i64 L a) (dec b)
         | (VDecimal a, VFloat b) \<Rightarrow>
             and_then (f64_to_decimal L b ''division'') (\<lambda>db. dec_div (dec a) db)
         | (VFloat a, VDecimal b) \<Rightarrow>
             if dec_cmp L (dec b) (dec_zero L) = Equal then Inl EDivisionByZero
             else and_then (f64_to_decimal L a ''division'')
                    (\<lambda>da. decimal_result L (dec_checked_div L) da (dec b) ''division'')
         | _ \<Rightarrow> type_error E ''numeric (Int, Float, or Decimal)''
                 (if \<not> is_numeric l then l else r) ''division'')"

definition eval_binary :: "'d env \<Rightarrow> BinaryOp \<Rightarrow> Value \<Rightarrow> Value \<Rightarrow> Value eval_result" where
  "eval_binary E oper l r =
     (let L = env_libs E
      in case oper of
           And \<Rightarrow> eval_and E l r
         | Or \<Rightarrow> eval_or E l r
         | Coalesce \<Rightarrow> Inl (EPanic ''Coalesce handled in eval_expr'')
         | _ \<Rightarrow>
             if l = VNull \<or> r = VNull then Inr VNull
             else case oper of
                    Add \<Rightarrow> eval_add E l r
                  | Sub \<Rightarrow> eval_sub E l r
                  | Mul \<Rightarrow> eval_arithmetic E l r checked_mul f64_mul (dec_checked_mul L) ''multiplication''
                  | Div \<Rightarrow> eval_div E l r
                  | Eq \<Rightarrow> Inr (VBool (values_equal L l r))
                  | Ne \<Rightarrow> Inr (VBool (\<not> values_equal L l r))
                  | Gt \<Rightarrow> Inr (VBool (values_compare L l r = Some Greater))
                  | Gte \<Rightarrow> Inr (VBool (values_compare L l r \<in> {Some Equal, Some Greater}))
                  | Lt \<Rightarrow> Inr (VBool (values_compare L l r = Some Less))
                  | Lte \<Rightarrow> Inr (VBool (values_compare L l r \<in> {Some Less, Some Equal})))"

section \<open>Access (access.rs)\<close>

fun descend :: "Value \<Rightarrow> string list \<Rightarrow> Value option" where
  "descend current [] = Some current"
| "descend current (s # ss) =
     (case current of
        VObject obj \<Rightarrow> (case hm_get obj s of Some v \<Rightarrow> descend v ss | None \<Rightarrow> None)
      | _ \<Rightarrow> None)"

definition resolve_nested_field :: "fields \<Rightarrow> string \<Rightarrow> Value option" where
  "resolve_nested_field fs path =
     (case split_str (CHR ''.'') path of
        [] \<Rightarrow> None
      | root # segments \<Rightarrow>
          (case hm_get fs root of Some v \<Rightarrow> descend v segments | None \<Rightarrow> None))"

fun navigate_loop :: "Value \<Rightarrow> string list \<Rightarrow> Value" where
  "navigate_loop current [] = current"
| "navigate_loop current (s # ss) =
     (case current of
        VObject obj \<Rightarrow> navigate_loop (case hm_get obj s of Some v \<Rightarrow> v | None \<Rightarrow> VNull) ss
      | _ \<Rightarrow> VNull)"

definition navigate_value :: "Value \<Rightarrow> string \<Rightarrow> Value" where
  "navigate_value v path = navigate_loop v (split_str (CHR ''.'') path)"

definition index_error :: "Value \<Rightarrow> string \<Rightarrow> string \<Rightarrow> 'a eval_result" where
  "index_error v expected oper = Inl (ETypeError expected (value_type_name v) oper)"

definition eval_index :: "Value \<Rightarrow> Value \<Rightarrow> Value eval_result" where
  "eval_index base index =
     (let at = (\<lambda>arr idx.
            (let len = int (length arr); normalized = (if idx < 0 then len + idx else idx)
             in if normalized < 0 \<or> normalized \<ge> len then Inr VNull
                else Inr (arr ! nat normalized)))
      in case base of
           VNull \<Rightarrow> Inr VNull
         | VArray arr \<Rightarrow>
             (case index of
                VInt i \<Rightarrow> at arr (sint i)
              | VFloat f \<Rightarrow>
                  if f64_eq (f64_fract f) 0 then at arr (sint (f64_as_i64 f))
                  else index_error index ''Int'' ''array index''
              | VNull \<Rightarrow> Inr VNull
              | _ \<Rightarrow> index_error index ''Int'' ''array index'')
         | _ \<Rightarrow> index_error base ''Array'' ''indexing'')"

definition clamp :: "int \<Rightarrow> int \<Rightarrow> int \<Rightarrow> int" where
  "clamp lo hi x = (if x < lo then lo else if x > hi then hi else x)"

text \<open>A bound of a slice: \<open>Inr None\<close> when it is null.\<close>

definition slice_bound :: "Value option \<Rightarrow> int \<Rightarrow> string \<Rightarrow> int option eval_result" where
  "slice_bound b dflt oper =
     (case b of
        None \<Rightarrow> Inr (Some dflt)
      | Some (VInt i) \<Rightarrow> Inr (Some (sint i))
      | Some VNull \<Rightarrow> Inr None
      | Some v \<Rightarrow> index_error v ''Int'' oper)"

definition slice_array :: "Value list \<Rightarrow> int \<Rightarrow> int \<Rightarrow> Value list" where
  "slice_array arr start_idx end_idx =
     (let len = int (length arr);
          s = (if start_idx < 0 then len + start_idx else start_idx);
          e = (if end_idx < 0 then len + end_idx else end_idx);
          s = clamp 0 len s;
          e = clamp (- 1) (len - 1) e
      in if s > e \<or> len = 0 then [] else take (nat (e + 1 - s)) (drop (nat s) arr))"

definition eval_slice :: "Value \<Rightarrow> Value option \<Rightarrow> Value option \<Rightarrow> Value eval_result" where
  "eval_slice base start end =
     (case base of
        VNull \<Rightarrow> Inr VNull
      | VArray arr \<Rightarrow>
          and_then (slice_bound start 0 ''slice start'') (\<lambda>sb.
            case sb of
              None \<Rightarrow> Inr VNull
            | Some start_idx \<Rightarrow>
                and_then (slice_bound end (int (length arr) - 1) ''slice end'') (\<lambda>eb.
                  case eb of
                    None \<Rightarrow> Inr VNull
                  | Some end_idx \<Rightarrow> Inr (VArray (slice_array arr start_idx end_idx))))
      | _ \<Rightarrow> index_error base ''Array'' ''slicing'')"

definition eval_field_access :: "'d env \<Rightarrow> Value \<Rightarrow> string \<Rightarrow> Value eval_result" where
  "eval_field_access E base field =
     (let get = (\<lambda>fs. case hm_get fs field of Some v \<Rightarrow> v | None \<Rightarrow> VNull)
      in case base of
           VNull \<Rightarrow> Inr VNull
         | VObject obj \<Rightarrow> Inr (get obj)
         | VReference ref_id \<Rightarrow>
             (case split_once (CHR '':'') ref_id of
                Some (c, k) \<Rightarrow>
                  (case env_get_document E c k of
                     Inr (Some d) \<Rightarrow> Inr (get (doc_fields d))
                   | Inr None \<Rightarrow> Inr VNull
                   | Inl err \<Rightarrow> Inl (EStorage err))
              | None \<Rightarrow> Inr VNull)
         | VArray _ \<Rightarrow> Inl (ETypeError ''Object or Reference'' ''array'' ''field access'')
         | _ \<Rightarrow> index_error base ''Object or Reference'' ''field access'')"

text \<open>The map after the call, also when it fails.\<close>

fun set_nested_field :: "fields \<Rightarrow> string list \<Rightarrow> Value \<Rightarrow> fields \<times> unit eval_result" where
  "set_nested_field fs [] v = (fs, Inl (EUnexpectedExpression ''empty assignment path''))"
| "set_nested_field fs [field] v = (hm_insert field v fs, Inr ())"
| "set_nested_field fs (first # s # rest) v =
     (let nested = (case hm_get fs first of Some w \<Rightarrow> w | None \<Rightarrow> VObject []);
          fs' = hm_insert first nested fs
      in case nested of
           VObject obj \<Rightarrow>
             (let (obj', r) = set_nested_field obj (s # rest) v
              in (hm_insert first (VObject obj') fs', r))
         | _ \<Rightarrow> (fs', index_error nested ''Object'' ''nested field update''))"

section \<open>Expressions (mod.rs)\<close>

fun access_path :: "'d env \<Rightarrow> Value \<Rightarrow> string list \<Rightarrow> Value eval_result" where
  "access_path E current [] = Inr current"
| "access_path E current (s # ss) = and_then (eval_field_access E current s) (\<lambda>v. access_path E v ss)"

definition eval_field :: "'d env \<Rightarrow> Row \<Rightarrow> string \<Rightarrow> Value eval_result" where
  "eval_field E row name =
     (let get = (\<lambda>n. case row_get_field row n of Some v \<Rightarrow> v | None \<Rightarrow> VNull)
      in if CHR ''.'' \<in> set name
         then let segments = split_str (CHR ''.'') name
              in access_path E (get (hd segments)) (tl segments)
         else Inr (get name))"

definition eval_not :: "'d env \<Rightarrow> Value \<Rightarrow> Value eval_result" where
  "eval_not E v =
     (case v of
        VBool b \<Rightarrow> Inr (VBool (\<not> b))
      | VNull \<Rightarrow> Inr VNull
      | _ \<Rightarrow> type_error E ''Bool'' v ''NOT'')"

text \<open>\<open>-i\<close> on \<open>i64::MIN\<close> panics when overflow is checked and wraps otherwise.\<close>

definition i64_neg :: "bool \<Rightarrow> i64 \<Rightarrow> i64 eval_result" where
  "i64_neg checks i =
     (if checks \<and> sint i = - (2 ^ 63) then Inl (EPanic ''attempt to negate with overflow'')
      else Inr (- i))"

definition eval_neg :: "'d env \<Rightarrow> Value \<Rightarrow> Value eval_result" where
  "eval_neg E v =
     (let L = env_libs E
      in case v of
           VInt i \<Rightarrow> and_then (i64_neg (env_overflow_checks E) i) (\<lambda>n. Inr (VInt n))
         | VFloat f \<Rightarrow> Inr (VFloat (f64_neg f))
         | VDecimal d \<Rightarrow> Inr (VDecimal (dec_serialize L (dec_neg L (dec_deserialize L d))))
         | VNull \<Rightarrow> Inr VNull
         | _ \<Rightarrow> type_error E ''Int, Float, or Decimal'' v ''unary minus'')"

definition field_is_present :: "Row \<Rightarrow> string \<Rightarrow> bool" where
  "field_is_present row name =
     (if CHR ''.'' \<in> set name then resolve_nested_field (doc_fields (row_doc row)) name \<noteq> None
      else has_field row name)"

definition similar_message :: "string \<Rightarrow> string \<Rightarrow> string list \<Rightarrow> string" where
  "similar_message ns name similar =
     (if similar = [] then ns @ ''::'' @ name
      else ns @ ''::'' @ name @ ''. Did you mean: '' @
           intersperse_str '', '' (map (\<lambda>s. ns @ ''::'' @ s) similar) @ ''?'')"

definition score_field :: "Value list \<Rightarrow> string" where
  "score_field evaluated =
     (case evaluated of VString n # _ \<Rightarrow> ''$score_'' @ n | _ \<Rightarrow> ''$score'')"

definition eval_call ::
  "'d env \<Rightarrow> Row \<Rightarrow> string \<Rightarrow> string option \<Rightarrow> Value list \<Rightarrow> Value eval_result" where
  "eval_call E row name namespace evaluated =
     (let get = (\<lambda>n. case row_get_field row n of Some v \<Rightarrow> v | None \<Rightarrow> VNull)
      in case namespace of
           Some ns \<Rightarrow>
             if ns = ''fts'' \<and> name = ''score'' then Inr (get (score_field evaluated))
             else if ns = ''vector'' \<and> name = ''distance'' then Inr (get ''$distance'')
             else (case env_resolve_function E ns name of
                     Some f \<Rightarrow> f evaluated
                   | None \<Rightarrow>
                       Inl (EUnknownFunction (similar_message ns name (env_find_similar_functions E ns name))))
         | None \<Rightarrow>
             (let name_lower = env_to_lowercase E name; up = env_to_uppercase E name
              in if name_lower = ''count''
                 then Inl (EInvalidOperation (''COUNT with expression argument is not an aggregate. '' @
                        ''Use array::length(expr) to count array elements.''))
                 else if name_lower \<in> set [''sum'', ''avg'', ''min'', ''max'']
                 then Inl (EInvalidOperation (up @ '' with expression argument is not supported. '' @
                        ''Aggregates like '' @ up @ ''(field) only work on field references.''))
                 else Inl (EUnknownFunction (name @
                        ''. Use namespaced calls like string::upper(), math::abs(), etc.''))))"

text \<open>The loop of \<open>IN\<close>: whether the value was found, and whether a null was seen before.\<close>

fun in_loop :: "'d libs \<Rightarrow> Value \<Rightarrow> ('a \<Rightarrow> Value eval_result) \<Rightarrow> 'a list \<Rightarrow> bool \<Rightarrow> (bool \<times> bool) eval_result" where
  "in_loop L v g [] has_null = Inr (False, has_null)"
| "in_loop L v g (x # xs) has_null =
     and_then (g x) (\<lambda>item.
       if item = VNull then in_loop L v g xs True
       else if values_equal L v item then Inr (True, has_null)
       else in_loop L v g xs has_null)"

lemma in_loop_cong [fundef_cong]:
  assumes "L = L'" "v = v'" "xs = ys" "hn = hn'" "\<And>x. x \<in> set ys \<Longrightarrow> g x = h x"
  shows "in_loop L v g xs hn = in_loop L' v' h ys hn'"
  using assms(5) unfolding assms(1-4)
  by (induction ys arbitrary: hn') (auto simp: and_then_def split: sum.splits)

definition in_result :: "bool \<Rightarrow> bool \<times> bool \<Rightarrow> Value" where
  "in_result negated r =
     (case r of (found, has_null) \<Rightarrow>
        if found then VBool (\<not> negated)
        else if has_null then VNull
        else VBool negated)"

definition eval_variable :: "'d env \<Rightarrow> VarScope option \<Rightarrow> string \<Rightarrow> Value eval_result" where
  "eval_variable E vars name =
     (case (case vars of Some sc \<Rightarrow> Some sc | None \<Rightarrow> env_vars E) of
        Some sc \<Rightarrow>
          (case scope_get sc name of Some v \<Rightarrow> Inr v | None \<Rightarrow> Inl (EUndefinedVariable name))
      | None \<Rightarrow> Inl (EUndefinedVariable name))"

function eval_expr :: "'d env \<Rightarrow> 'q Expr \<Rightarrow> Row \<Rightarrow> VarScope option \<Rightarrow> Value eval_result" where
  "eval_expr E (Literal v) row vars = Inr v"
| "eval_expr E (Field name) row vars = eval_field E row name"
| "eval_expr E (EBinaryOp left oper right) row vars =
     (if oper = Coalesce
      then and_then (eval_expr E left row vars) (\<lambda>l.
             if is_truthy (env_libs E) l then Inr l else eval_expr E right row vars)
      else and_then (eval_expr E left row vars) (\<lambda>l.
             and_then (eval_expr E right row vars) (\<lambda>r. eval_binary E oper l r)))"
| "eval_expr E (EUnaryOp oper inner) row vars =
     (case oper of
        Not \<Rightarrow> and_then (eval_expr E inner row vars) (eval_not E)
      | Neg \<Rightarrow> and_then (eval_expr E inner row vars) (eval_neg E)
      | IsNull \<Rightarrow> and_then (eval_expr E inner row vars) (\<lambda>v. Inr (VBool (v = VNull)))
      | IsNotNull \<Rightarrow> and_then (eval_expr E inner row vars) (\<lambda>v. Inr (VBool (v \<noteq> VNull)))
      | IsNone \<Rightarrow>
          (case inner of
             Field name \<Rightarrow> Inr (VBool (\<not> field_is_present row name))
           | _ \<Rightarrow> Inr (VBool False))
      | IsNotNone \<Rightarrow>
          (case inner of
             Field name \<Rightarrow> Inr (VBool (field_is_present row name))
           | _ \<Rightarrow> Inr (VBool True)))"
| "eval_expr E (FunctionCall name namespace args) row vars =
     and_then (collect_results (\<lambda>a. eval_expr E a row vars) args) (eval_call E row name namespace)"
| "eval_expr E (Aggregate c) row vars = Inl (EUnexpectedExpression ''Aggregate'')"
| "eval_expr E (InList inner list negated) row vars =
     and_then (eval_expr E inner row vars) (\<lambda>v.
       if v = VNull then Inr VNull
       else and_then (in_loop (env_libs E) v (\<lambda>item. eval_expr E item row vars) list False)
              (\<lambda>r. Inr (in_result negated r)))"
| "eval_expr E (InSubquery e q negated) row vars = Inl (EUnexpectedExpression ''InSubquery'')"
| "eval_expr E (InExpr inner target negated) row vars =
     and_then (eval_expr E inner row vars) (\<lambda>v.
       if v = VNull then Inr VNull
       else and_then (eval_expr E target row vars) (\<lambda>target_val.
              case target_val of
                VArray list \<Rightarrow>
                  and_then (in_loop (env_libs E) v Inr list False) (\<lambda>r. Inr (in_result negated r))
              | VNull \<Rightarrow> Inr VNull
              | _ \<Rightarrow> type_error E ''Array'' target_val ''IN''))"
| "eval_expr E (Subquery q) row vars = Inl (EUnexpectedExpression ''Subquery'')"
| "eval_expr E (EParentRef p) row vars = Inl (EUnexpectedExpression ''ParentRef'')"
| "eval_expr E (ValueRef path) row vars =
     (case path of
        None \<Rightarrow> Inr (row_get_value row)
      | Some field_path \<Rightarrow> Inr (navigate_value (row_get_value row) field_path))"
| "eval_expr E (EArray items) row vars =
     and_then (collect_results (\<lambda>a. eval_expr E a row vars) items) (\<lambda>vs. Inr (VArray vs))"
| "eval_expr E (EObject pairs) row vars =
     and_then (collect_results (\<lambda>kv. and_then (eval_expr E (snd kv) row vars) (\<lambda>v. Inr (fst kv, v))) pairs)
       (\<lambda>kvs. Inr (VObject (hm_extend [] kvs)))"
| "eval_expr E (EIndex base index) row vars =
     and_then (eval_expr E base row vars) (\<lambda>b.
       and_then (eval_expr E index row vars) (\<lambda>i. eval_index b i))"
| "eval_expr E (ESlice base start end) row vars =
     and_then (eval_expr E base row vars) (\<lambda>b.
       and_then (case start of
                   None \<Rightarrow> Inr None
                 | Some e \<Rightarrow> and_then (eval_expr E e row vars) (\<lambda>v. Inr (Some v))) (\<lambda>sv.
         and_then (case end of
                     None \<Rightarrow> Inr None
                   | Some e \<Rightarrow> and_then (eval_expr E e row vars) (\<lambda>v. Inr (Some v))) (\<lambda>ev.
           eval_slice b sv ev)))"
| "eval_expr E (FieldAccess base field) row vars =
     and_then (eval_expr E base row vars) (\<lambda>b. eval_field_access E b field)"
| "eval_expr E (EConstant namespace name) row vars =
     (case env_resolve_constant E namespace name of
        Some v \<Rightarrow> Inr v
      | None \<Rightarrow> Inl (EInternal (''Unknown constant '' @ namespace @ ''::'' @ name)))"
| "eval_expr E (EVariable name) row vars = eval_variable E vars name"
| "eval_expr E (EFts t oper q) row vars = Inl (EUnexpectedExpression ''Fts'')"
| "eval_expr E (KnnSearch f v k eff) row vars = Inl (EUnexpectedExpression ''KnnSearch'')"
| "eval_expr E (Traversal ss t d) row vars = Inl (EUnexpectedExpression ''Traversal'')"
| "eval_expr E (EIf bs eb) row vars = Inl (EUnexpectedExpression ''If'')"
| "eval_expr E (EFor b it body) row vars = Inl (EUnexpectedExpression ''For'')"
| "eval_expr E EBreak row vars = Inl (EUnexpectedExpression ''Break'')"
| "eval_expr E EContinue row vars = Inl (EUnexpectedExpression ''Continue'')"
| "eval_expr E (ERange start end) row vars =
     and_then (eval_expr E start row vars) (\<lambda>s.
       and_then (eval_expr E end row vars) (\<lambda>e. Inr (VRange s e)))"
  by pat_completeness auto
termination
  by (relation "measure (\<lambda>(E, e, row, vars). size e)")
    (auto dest: size_elem intro: size_pairs rev_image_eqI)

definition eval_filter_with_vars :: "'d env \<Rightarrow> 'q Expr \<Rightarrow> Row \<Rightarrow> VarScope option \<Rightarrow> bool eval_result" where
  "eval_filter_with_vars E e row vars =
     and_then (eval_expr E e row vars) (\<lambda>v. Inr (is_truthy (env_libs E) v))"

definition eval_filter :: "'d env \<Rightarrow> 'q Expr \<Rightarrow> Row \<Rightarrow> bool eval_result" where
  "eval_filter E e row = eval_filter_with_vars E e row (env_vars E)"

section \<open>Constant expressions (ast/expr.rs)\<close>

text \<open>\<open>try_to_value\<close>: \<open>Inr None\<close> when the expression is not constant; negation of
  \<open>i64::MIN\<close> behaves as in \<open>eval_neg\<close>.\<close>

definition negate_constant :: "bool \<Rightarrow> Value option \<Rightarrow> Value option eval_result" where
  "negate_constant checks r =
     (case r of
        Some (VInt i) \<Rightarrow> and_then (i64_neg checks i) (\<lambda>n. Inr (Some (VInt n)))
      | Some (VFloat f) \<Rightarrow> Inr (Some (VFloat (f64_neg f)))
      | _ \<Rightarrow> Inr None)"

text \<open>A loop over parts that returns at the first one that is not constant.\<close>

fun collect_constants :: "('a \<Rightarrow> Value option eval_result) \<Rightarrow> 'a list \<Rightarrow> Value list option eval_result" where
  "collect_constants g [] = Inr (Some [])"
| "collect_constants g (x # xs) =
     and_then (g x) (\<lambda>r. case r of
       None \<Rightarrow> Inr None
     | Some v \<Rightarrow> and_then (collect_constants g xs) (\<lambda>rs. Inr (map_option (\<lambda>vs. v # vs) rs)))"

lemma collect_constants_cong [fundef_cong]:
  assumes "xs = ys" "\<And>x. x \<in> set ys \<Longrightarrow> g x = h x"
  shows "collect_constants g xs = collect_constants h ys"
  using assms(2) unfolding assms(1)
  by (induction ys) (auto simp: and_then_def split: sum.splits option.splits)

function try_to_value :: "bool \<Rightarrow> 'q Expr \<Rightarrow> Value option eval_result" where
  "try_to_value checks e =
     (case e of
        Literal v \<Rightarrow> Inr (Some v)
      | EObject pairs \<Rightarrow>
          and_then (collect_constants (try_to_value checks) (map snd pairs))
            (\<lambda>r. Inr (map_option (\<lambda>vs. VObject (hm_extend [] (zip (map fst pairs) vs))) r))
      | EArray items \<Rightarrow>
          and_then (collect_constants (try_to_value checks) items) (\<lambda>r. Inr (map_option VArray r))
      | EUnaryOp Neg inner \<Rightarrow> and_then (try_to_value checks inner) (negate_constant checks)
      | _ \<Rightarrow> Inr None)"
  by pat_completeness auto
termination
  by (relation "measure (size \<circ> snd)") (auto dest: size_elem intro: size_pairs rev_image_eqI)

declare try_to_value.simps [simp del]

section \<open>Three-valued logic\<close>

text \<open>Kleene's logic on \<open>bool option\<close>, \<open>None\<close> unknown.\<close>

definition and3 :: "bool option \<Rightarrow> bool option \<Rightarrow> bool option" where
  "and3 p q = (if p = Some False \<or> q = Some False then Some False
               else if p = Some True \<and> q = Some True then Some True else None)"

definition not3 :: "bool option \<Rightarrow> bool option" where
  "not3 p = map_option (\<lambda>b. \<not> b) p"

definition or3 :: "bool option \<Rightarrow> bool option \<Rightarrow> bool option" where
  "or3 p q = not3 (and3 (not3 p) (not3 q))"

definition of_truth :: "bool option \<Rightarrow> Value" where
  "of_truth p = (case p of Some b \<Rightarrow> VBool b | None \<Rightarrow> VNull)"

definition is_truth :: "Value \<Rightarrow> bool" where
  "is_truth v = (case v of VBool _ \<Rightarrow> True | VNull \<Rightarrow> True | _ \<Rightarrow> False)"

lemma of_truth_simps [simp]:
  "of_truth p = of_truth q \<longleftrightarrow> p = q"
  "is_truth (of_truth p)"
  "of_truth p = VNull \<longleftrightarrow> p = None"
  by (cases p; cases q; simp add: of_truth_def is_truth_def)
    (cases p; simp add: of_truth_def is_truth_def)+

lemma is_truthE:
  assumes "is_truth v"
  obtains p where "v = of_truth p"
proof (cases v)
  case VNull
  then show ?thesis using that [of None] by (simp add: of_truth_def)
next
  case (VBool b)
  then show ?thesis using that [of "Some b"] by (simp add: of_truth_def)
qed (use assms in \<open>simp_all add: is_truth_def\<close>)

lemma eval_and_truth [simp]: "eval_and E (of_truth p) (of_truth q) = Inr (of_truth (and3 p q))"
  by (cases p; cases q) (auto simp: eval_and_def of_truth_def and3_def)

lemma eval_or_truth [simp]: "eval_or E (of_truth p) (of_truth q) = Inr (of_truth (or3 p q))"
  by (cases p; cases q) (auto simp: eval_or_def of_truth_def and3_def or3_def not3_def)

lemma eval_not_truth [simp]: "eval_not E (of_truth p) = Inr (of_truth (not3 p))"
  by (cases p) (auto simp: eval_not_def of_truth_def not3_def)

lemma type_error_Inl [simp]: "type_error E x v oper \<noteq> Inr w"
  by (auto simp: type_error_def and_then_def split: sum.splits)

lemma eval_and_Inr: "eval_and E l r = Inr v \<Longrightarrow> is_truth l \<and> is_truth r"
  by (cases l; cases r; simp add: eval_and_def is_truth_def)

lemma eval_or_Inr: "eval_or E l r = Inr v \<Longrightarrow> is_truth l \<and> is_truth r"
  by (cases l; cases r; simp add: eval_or_def is_truth_def)

lemma eval_not_Inr: "eval_not E v = Inr w \<Longrightarrow> is_truth v"
  by (cases v; simp add: eval_not_def is_truth_def)

lemma eval_logic_iff:
  "eval_and E l r = Inr v \<longleftrightarrow> (\<exists>p q. l = of_truth p \<and> r = of_truth q \<and> v = of_truth (and3 p q))"
  "eval_or E l r = Inr v \<longleftrightarrow> (\<exists>p q. l = of_truth p \<and> r = of_truth q \<and> v = of_truth (or3 p q))"
  "eval_not E l = Inr v \<longleftrightarrow> (\<exists>p. l = of_truth p \<and> v = of_truth (not3 p))"
  by (metis eval_and_Inr eval_and_truth is_truthE sum.inject(2),
      metis eval_or_Inr eval_or_truth is_truthE sum.inject(2),
      metis eval_not_Inr eval_not_truth is_truthE sum.inject(2))

text \<open>C10: AND, OR and NOT implement Kleene's three-valued logic, null being unknown, and fail
  exactly on operands that are neither boolean nor null: evaluating \<open>a AND b\<close> yields \<open>v\<close> if and
  only if both operands evaluate to truth values \<open>p\<close>, \<open>q\<close> and \<open>v\<close> is their conjunction, and
  likewise for the others. In particular there is no short circuit: an error of the right
  operand is reported even when the left one decides.\<close>

theorem logic_is_kleene:
  "(eval_expr E (EBinaryOp a And b) row vars = Inr v \<longleftrightarrow>
      (\<exists>p q. eval_expr E a row vars = Inr (of_truth p) \<and> eval_expr E b row vars = Inr (of_truth q) \<and>
             v = of_truth (and3 p q))) \<and>
   (eval_expr E (EBinaryOp a Or b) row vars = Inr v \<longleftrightarrow>
      (\<exists>p q. eval_expr E a row vars = Inr (of_truth p) \<and> eval_expr E b row vars = Inr (of_truth q) \<and>
             v = of_truth (or3 p q))) \<and>
   (eval_expr E (EUnaryOp Not a) row vars = Inr v \<longleftrightarrow>
      (\<exists>p. eval_expr E a row vars = Inr (of_truth p) \<and> v = of_truth (not3 p)))"
  by (auto simp: eval_binary_def and_then_Inr_iff eval_logic_iff)

section \<open>IN\<close>

definition eq3 :: "'d libs \<Rightarrow> Value \<Rightarrow> Value \<Rightarrow> bool option" where
  "eq3 L v item = (if v = VNull \<or> item = VNull then None else Some (values_equal L v item))"

lemma eval_binary_Eq: "eval_binary E Eq v item = Inr (of_truth (eq3 (env_libs E) v item))"
  by (simp add: eval_binary_def eq3_def of_truth_def)

definition any3 :: "bool option list \<Rightarrow> bool option" where
  "any3 ps = foldr or3 ps (Some False)"

lemma any3_simps:
  "any3 [] = Some False"
  "any3 (p # ps) = or3 p (any3 ps)"
  by (simp_all add: any3_def)

lemma any3_eq:
  "any3 ps = (if Some True \<in> set ps then Some True else if None \<in> set ps then None else Some False)"
proof (induction ps)
  case (Cons p ps)
  then show ?case
    by (cases p) (auto simp: any3_simps or3_def and3_def not3_def)
qed (simp add: any3_simps)

lemma in_loop_eq:
  assumes "v \<noteq> VNull" "\<And>x. x \<in> set xs \<Longrightarrow> g x = Inr (h x)"
  shows "\<exists>hn'. in_loop L v g xs hn = Inr (Some True \<in> set (map (eq3 L v \<circ> h) xs), hn') \<and>
    (Some True \<notin> set (map (eq3 L v \<circ> h) xs) \<longrightarrow> hn' = (hn \<or> None \<in> set (map (eq3 L v \<circ> h) xs)))"
  using assms(2)
proof (induction xs arbitrary: hn)
  case (Cons x xs)
  show ?case
  proof (cases "h x = VNull")
    case True
    then show ?thesis using Cons.IH [of True] Cons.prems assms(1) by (auto simp: eq3_def)
  next
    case False
    then show ?thesis using Cons.IH [of hn] Cons.prems assms(1)
      by (cases "values_equal L v (h x)") (auto simp: eq3_def)
  qed
qed simp

lemma in_result_any3:
  assumes "v \<noteq> VNull" "\<And>x. x \<in> set xs \<Longrightarrow> g x = Inr (h x)"
  shows "and_then (in_loop L v g xs False) (\<lambda>r. Inr (in_result negated r)) =
    Inr (of_truth ((if negated then not3 else id) (any3 (map (eq3 L v \<circ> h) xs))))"
proof -
  obtain hn' where *: "in_loop L v g xs False = Inr (Some True \<in> set (map (eq3 L v \<circ> h) xs), hn')"
    "Some True \<notin> set (map (eq3 L v \<circ> h) xs) \<longrightarrow> hn' = (None \<in> set (map (eq3 L v \<circ> h) xs))"
    using in_loop_eq [where hn = False and L = L and xs = xs and g = g and h = h, OF assms] by (auto simp del: set_map)
  then show ?thesis
    by (simp add: any3_eq in_result_def of_truth_def not3_def del: set_map)
qed

text \<open>\<open>x IN [e1, ..., en]\<close> is the disjunction of the equalities \<open>x = ei\<close> in three-valued
  logic, and \<open>NOT IN\<close> its negation, whenever \<open>x\<close> and the items evaluate without error and the
  list is not empty or \<open>x\<close> is not null: a match decides, otherwise a null item makes the result
  null. \<open>x IN $list\<close> on an array of the same values gives the same result.\<close>

theorem in_is_disjunction_of_equalities:
  assumes "eval_expr E x row vars = Inr v"
    and "\<And>e. e \<in> set items \<Longrightarrow> eval_expr E e row vars = Inr (h e)"
    and "v \<noteq> VNull \<or> items \<noteq> []"
  shows "eval_expr E (InList x items negated) row vars =
           Inr (of_truth ((if negated then not3 else id) (any3 (map (eq3 (env_libs E) v \<circ> h) items)))) \<and>
         eval_expr E (InExpr x (EArray items) negated) row vars =
           eval_expr E (InList x items negated) row vars"
proof (cases "v = VNull")
  case True
  then have "Some True \<notin> set (map (eq3 (env_libs E) v \<circ> h) items) \<and> None \<in> set (map (eq3 (env_libs E) v \<circ> h) items)"
    using assms(3) by (cases items) (auto simp: eq3_def)
  then show ?thesis using assms(1) True by (simp add: any3_eq of_truth_def not3_def del: set_map)
next
  case False
  have c: "collect_results (\<lambda>e. eval_expr E e row vars) items = Inr (map h items)"
    using assms(2) by (rule collect_results_total)
  have list: "and_then (in_loop (env_libs E) v (\<lambda>e. eval_expr E e row vars) items False)
      (\<lambda>r. Inr (in_result negated r)) =
    Inr (of_truth ((if negated then not3 else id) (any3 (map (eq3 (env_libs E) v \<circ> h) items))))"
    by (rule in_result_any3 [OF False assms(2)])
  have "and_then (in_loop (env_libs E) v Inr (map h items) False) (\<lambda>r. Inr (in_result negated r)) =
    Inr (of_truth ((if negated then not3 else id) (any3 (map (eq3 (env_libs E) v) (map h items)))))"
    using in_result_any3 [OF False, of "map h items" Inr id "env_libs E" negated] by simp
  then show ?thesis
    unfolding eval_expr.simps assms(1) c and_then_simps list by (simp add: False)
qed

text \<open>An environment without functions and documents, on integral decimals.\<close>

definition int_env :: "int env" where
  "int_env = \<lparr>env_libs = int_libs, env_overflow_checks = True, env_rfc3339 = (\<lambda>_. None),
     env_base64 = (\<lambda>_. []), env_map_order = id, env_resolve_function = (\<lambda>_ _. None),
     env_find_similar_functions = (\<lambda>_ _. []), env_resolve_constant = (\<lambda>_ _. None),
     env_to_lowercase = id, env_to_uppercase = id, env_get_document = (\<lambda>_ _. Inr None),
     env_vars = None\<rparr>"

lemma int_env_libs [simp]: "env_libs int_env = int_libs" "env_overflow_checks int_env"
  by (simp_all add: int_env_def)

theorem in_is_disjunction_of_equalities_witness:
  "eval_expr int_env (InList (Literal (VInt 2)) [Literal VNull, Literal (VInt 3) :: unit Expr] True)
     (row_scalar VNull) None = Inr VNull"
proof -
  define h where "h = (\<lambda>e :: unit Expr. if e = Literal VNull then VNull else VInt 3)"
  have items: "eval_expr int_env e (row_scalar VNull) None = Inr (h e)"
    if "e \<in> set [Literal VNull, Literal (VInt 3)]" for e
    using that by (auto simp: h_def)
  have "eval_expr int_env (InList (Literal (VInt 2)) [Literal VNull, Literal (VInt 3) :: unit Expr] True)
     (row_scalar VNull) None =
       Inr (of_truth (not3 (any3 (map (eq3 int_libs (VInt 2) \<circ> h) [Literal VNull, Literal (VInt 3)]))))"
    using in_is_disjunction_of_equalities [of int_env "Literal (VInt 2) :: unit Expr"
        "row_scalar VNull" None "VInt 2" "[Literal VNull, Literal (VInt 3)]" h True, OF _ items] by simp
  then show ?thesis
    by (simp add: h_def eq3_def any3_eq of_truth_def not3_def values_equal_def is_numeric_def as_decimal_def)
qed

section \<open>Integer arithmetic\<close>

definition i64_range :: "int \<Rightarrow> bool" where
  "i64_range i \<longleftrightarrow> - (2 ^ 63) \<le> i \<and> i < 2 ^ 63"

lemma i64_range_sint: "i64_range (sint (a :: i64))"
  using sint_range_size [of a] by (simp add: i64_range_def word_size)

text \<open>The exact result of an operator on integers; division truncates towards zero.\<close>

definition exact :: "BinaryOp \<Rightarrow> int \<Rightarrow> int \<Rightarrow> int" where
  "exact oper a b = (case oper of Add \<Rightarrow> a + b | Sub \<Rightarrow> a - b | Mul \<Rightarrow> a * b | _ \<Rightarrow> a sdiv b)"

definition int_op_name :: "BinaryOp \<Rightarrow> string" where
  "int_op_name oper = (case oper of Add \<Rightarrow> ''addition'' | Sub \<Rightarrow> ''subtraction'' | _ \<Rightarrow> ''multiplication'')"

lemma sdiv_range:
  assumes "i64_range a" "i64_range b" "b \<noteq> 0"
  shows "i64_range (a sdiv b) \<longleftrightarrow> \<not> (a = - (2 ^ 63) \<and> b = - 1)"
proof -
  have q: "0 \<le> \<bar>a\<bar> div \<bar>b\<bar>" using assms(3) by (simp add: pos_imp_zdiv_nonneg_iff)
  have "a sdiv b = (sgn a * sgn b) * (\<bar>a\<bar> div \<bar>b\<bar>)"
    by (simp add: signed_divide_int_def)
  then have abs: "\<bar>a sdiv b\<bar> \<le> \<bar>a\<bar> div \<bar>b\<bar>"
    using q by (auto simp: sgn_if split: if_splits)
  show ?thesis
  proof (cases "b = - 1")
    case True
    then show ?thesis using assms by (auto simp: i64_range_def signed_divide_int_def sgn_if)
  next
    case False
    show ?thesis
    proof (cases "b = 1")
      case True
      then show ?thesis using assms by (auto simp: i64_range_def signed_divide_int_def sgn_if)
    next
      case b: False
      then have "2 \<le> \<bar>b\<bar>" using False assms(3) by linarith
      then have "\<bar>a\<bar> div \<bar>b\<bar> \<le> \<bar>a\<bar> div 2" by (intro zdiv_mono2) auto
      then have "\<bar>a sdiv b\<bar> \<le> \<bar>a\<bar> div 2" using abs by simp
      then show ?thesis using assms(1) False unfolding i64_range_def by (simp add: abs_le_iff) linarith
    qed
  qed
qed

text \<open>C11: Integer arithmetic is exact or fails. For \<open>+\<close>, \<open>-\<close>, \<open>*\<close> and \<open>/\<close> on two \<open>Int\<close> values the
  result is the integer whose signed value is the exact mathematical result, division
  truncating towards zero; when that result does not fit 64 bits, the first three fail with
  \<open>Overflow\<close>, and division by zero is \<open>DivisionByZero\<close>. The only other outcome is the panic of
  \<open>i64::MIN / -1\<close>, which \<open>eval_div\<close> does not guard.\<close>

theorem int_arithmetic_exact:
  assumes "oper \<in> {Add, Sub, Mul, Div}"
  shows "eval_binary E oper (VInt a) (VInt b) =
    (if oper = Div \<and> b = 0 then Inl EDivisionByZero
     else if i64_range (exact oper (sint a) (sint b))
          then Inr (VInt (word_of_int (exact oper (sint a) (sint b))))
     else if oper = Div then Inl (EPanic ''attempt to divide with overflow'')
     else Inl (EOverflow (int_op_name oper))) \<and>
    (oper = Div \<and> b \<noteq> 0 \<longrightarrow>
      i64_range (exact oper (sint a) (sint b)) = (\<not> (sint a = - (2 ^ 63) \<and> sint b = - 1)))"
proof
  show "eval_binary E oper (VInt a) (VInt b) =
    (if oper = Div \<and> b = 0 then Inl EDivisionByZero
     else if i64_range (exact oper (sint a) (sint b))
          then Inr (VInt (word_of_int (exact oper (sint a) (sint b))))
     else if oper = Div then Inl (EPanic ''attempt to divide with overflow'')
     else Inl (EOverflow (int_op_name oper)))"
    using assms
    by (auto simp: eval_binary_def eval_add_def eval_sub_def eval_div_def eval_arithmetic_def Let_def
        checked_add_def checked_sub_def checked_mul_def i64_div_def i64_checked_def exact_def
        i64_range_def int_op_name_def)
  show "oper = Div \<and> b \<noteq> 0 \<longrightarrow>
      i64_range (exact oper (sint a) (sint b)) = (\<not> (sint a = - (2 ^ 63) \<and> sint b = - 1))"
    using sdiv_range [OF i64_range_sint i64_range_sint, of b a] signed_word_eqI [of b 0] by (auto simp: exact_def)
qed

theorem int_arithmetic_exact_witness:
  "eval_binary int_env Div (VInt (word_of_int (- (2 ^ 63)))) (VInt (- 1)) =
     Inl (EPanic ''attempt to divide with overflow'') \<and>
   eval_binary int_env Add (VInt 2) (VInt 3) = Inr (VInt 5)"
  using int_arithmetic_exact [of Div int_env "word_of_int (- (2 ^ 63))" "- 1"]
    int_arithmetic_exact [of Add int_env 2 3]
  by (auto simp: i64_range_def exact_def)

section \<open>Comparisons\<close>

text \<open>Numbers that convert to a decimal; \<open>rust_decimal\<close> has none for infinities, NaN and floats
  beyond its range.\<close>

definition convertible :: "'d libs \<Rightarrow> Value \<Rightarrow> bool" where
  "convertible L v \<longleftrightarrow> (is_numeric v \<longrightarrow> as_decimal L v \<noteq> None)"

lemma as_decimal_numeric: "as_decimal L v = Some d \<Longrightarrow> is_numeric v"
  by (cases v) (auto simp: as_decimal_def is_numeric_def)

lemma values_compareE:
  assumes "values_compare L a b = Some c" "convertible L a" "convertible L b"
  obtains (num) x y where "as_decimal L a = Some x" "as_decimal L b = Some y" "dec_cmp L x y = c"
    | (str) s t where "a = VString s" "b = VString t" "cmp s t = c"
    | (bool) p q where "a = VBool p" "b = VBool q" "cmp p q = c"
    | (ref) s t where "a = VReference s" "b = VReference t" "cmp s t = c"
proof (cases "is_numeric a \<and> is_numeric b")
  case True
  then show ?thesis using assms num by (auto simp: values_compare_def convertible_def)
next
  case False
  then have "values_compare_by_type L a b = Some c" using assms(1) by (auto simp: values_compare_def)
  then show ?thesis using False str bool ref
    by (cases a; cases b; simp add: values_compare_by_type_def is_numeric_def)
qed

lemma values_compare_num:
  "as_decimal L a = Some x \<Longrightarrow> as_decimal L b = Some y \<Longrightarrow> values_compare L a b = Some (dec_cmp L x y)"
  by (auto simp: values_compare_def dest: as_decimal_numeric)

lemma values_equal_num:
  "as_decimal L a = Some x \<Longrightarrow> as_decimal L b = Some y \<Longrightarrow> values_equal L a b \<longleftrightarrow> dec_cmp L x y = Equal"
  by (auto simp: values_equal_def dest: as_decimal_numeric)

lemma values_compare_simps [simp]:
  "values_compare L (VString s) (VString t) = Some (cmp s t)"
  "values_compare L (VBool p) (VBool q) = Some (cmp p q)"
  "values_compare L (VReference s) (VReference t) = Some (cmp s t)"
  "values_equal L (VString s) (VString t) \<longleftrightarrow> s = t"
  "values_equal L (VBool p) (VBool q) \<longleftrightarrow> p = q"
  "values_equal L (VReference s) (VReference t) \<longleftrightarrow> s = t"
  by (auto simp: values_compare_def values_equal_def is_numeric_def values_compare_by_type_def
      values_equal_by_type_def)

lemma values_equal_iff_compare:
  assumes "values_compare L a b = Some c" "convertible L a" "convertible L b"
  shows "values_equal L a b \<longleftrightarrow> c = Equal"
  using assms by (cases rule: values_compareE) (auto simp: values_equal_num)

lemma values_compare_reverse:
  assumes "dec_order L" "values_compare L a b = Some c" "convertible L a" "convertible L b"
  shows "values_compare L b a = Some (reverse c)"
  using assms(2-4)
  by (cases rule: values_compareE)
    (auto simp: values_compare_num dec_cmp_reverse [OF assms(1), symmetric])

lemma values_compare_Less [simp]:
  "values_compare L (VString s) v = Some Less \<longleftrightarrow> (\<exists>t. v = VString t \<and> s < t)"
  "values_compare L (VBool p) v = Some Less \<longleftrightarrow> (\<exists>q. v = VBool q \<and> p < q)"
  "values_compare L (VReference s) v = Some Less \<longleftrightarrow> (\<exists>t. v = VReference t \<and> s < t)"
  by (cases v; simp add: values_compare_def is_numeric_def values_compare_by_type_def)+

lemma values_compare_trans:
  assumes "dec_order L" "values_compare L a b = Some Less" "values_compare L b c = Some Less"
    and "convertible L a" "convertible L b" "convertible L c"
  shows "values_compare L a c = Some Less"
  using assms(2,4,5)
proof (cases rule: values_compareE)
  case (num x y)
  from assms(3,5,6) obtain z where "as_decimal L c = Some z" "dec_cmp L y z = Less"
    by (cases rule: values_compareE) (use num in \<open>auto simp: as_decimal_def\<close>)
  then show ?thesis using num dec_cmp_trans [OF assms(1), of x y z] by (simp add: values_compare_num)
next
  case (str s t)
  then obtain u where "c = VString u" "t < u" using assms(3) by auto
  then show ?thesis using str by (metis values_compare_Less(1) cmp_simps(1) order.strict_trans)
next
  case (bool p q)
  then show ?thesis using assms(3) by simp
next
  case (ref s t)
  then obtain u where "c = VReference u" "t < u" using assms(3) by auto
  then show ?thesis using ref by (metis values_compare_Less(3) cmp_simps(1) order.strict_trans)
qed

lemma eval_compare [simp]:
  assumes "a \<noteq> VNull" "b \<noteq> VNull"
  shows "eval_binary E Lt a b = Inr (VBool (values_compare (env_libs E) a b = Some Less))"
    "eval_binary E Gt a b = Inr (VBool (values_compare (env_libs E) a b = Some Greater))"
    "eval_binary E Lte a b = Inr (VBool (values_compare (env_libs E) a b \<in> {Some Less, Some Equal}))"
    "eval_binary E Gte a b = Inr (VBool (values_compare (env_libs E) a b \<in> {Some Equal, Some Greater}))"
    "eval_binary E Eq a b = Inr (VBool (values_equal (env_libs E) a b))"
  using assms by (simp_all add: eval_binary_def Let_def)

definition holds :: "'d env \<Rightarrow> BinaryOp \<Rightarrow> Value \<Rightarrow> Value \<Rightarrow> bool" where
  "holds E oper a b \<longleftrightarrow> eval_binary E oper a b = Inr (VBool True)"

text \<open>On operands that are not null, and numbers that convert to a decimal, the comparison
  operators agree with each other: \<open>a > b\<close> is \<open>b < a\<close>, \<open>a >= b\<close> is \<open>b <= a\<close>, \<open>a <= b\<close> is \<open>a < b\<close> or
  else \<open>a = b\<close>, \<open><\<close> and \<open>=\<close> exclude each other, operands ordered at all are related in exactly one way, and
  \<open><\<close> is transitive across integers, floats and decimals, strings, booleans and references.
  \<open>rust_decimal\<close> is assumed to order decimals totally.\<close>

theorem comparisons_consistent:
  assumes L: "dec_order (env_libs E)"
    and n: "a \<noteq> VNull" "b \<noteq> VNull" "c \<noteq> VNull"
    and conv: "convertible (env_libs E) a" "convertible (env_libs E) b" "convertible (env_libs E) c"
  shows "(holds E Gt a b \<longleftrightarrow> holds E Lt b a) \<and> (holds E Gte a b \<longleftrightarrow> holds E Lte b a) \<and>
    (holds E Lte a b \<or> holds E Lte b a \<longrightarrow>
       (holds E Lte a b \<longleftrightarrow> holds E Lt a b \<or> holds E Eq a b) \<and>
       \<not> (holds E Lt a b \<and> holds E Eq a b) \<and> \<not> (holds E Lt a b \<and> holds E Lt b a) \<and>
       (holds E Lt a b \<or> holds E Eq a b \<or> holds E Lt b a)) \<and>
    (holds E Lt a b \<longrightarrow> holds E Lt b c \<longrightarrow> holds E Lt a c)"
proof -
  have rev: "values_compare (env_libs E) y x = map_option reverse (values_compare (env_libs E) x y)"
    if "convertible (env_libs E) x" "convertible (env_libs E) y" for x y
    using values_compare_reverse [OF L _ that] values_compare_reverse [OF L _ that(2,1)]
    by (cases "values_compare (env_libs E) x y"; cases "values_compare (env_libs E) y x") fastforce+
  have "holds E Lt a b \<longrightarrow> holds E Lt b c \<longrightarrow> holds E Lt a c"
    using values_compare_trans [OF L _ _ conv] n by (simp add: holds_def)
  moreover have "values_equal (env_libs E) a b \<longleftrightarrow> r = Equal" if "values_compare (env_libs E) a b = Some r" for r
    by (rule values_equal_iff_compare [OF that conv(1,2)])
  ultimately show ?thesis
    using n rev [OF conv(1,2)]
    by (cases "values_compare (env_libs E) a b"; cases "the (values_compare (env_libs E) a b)")
      (simp_all add: holds_def)
qed

theorem comparisons_consistent_witness:
  "holds int_env Gt (VInt 3) (VInt 2) \<longleftrightarrow> holds int_env Lt (VInt 2) (VInt 3)"
  using comparisons_consistent [of int_env "VInt 3" "VInt 2" "VInt 1"]
  by (simp add: int_libs_order convertible_def as_decimal_def)

section \<open>Indexing and slicing\<close>

text \<open>Where an index points: from the start, or from the end when negative.\<close>

definition norm_index :: "nat \<Rightarrow> int \<Rightarrow> int" where
  "norm_index n i = (if i < 0 then int n + i else i)"

lemma take_drop_nths: "take m (drop k xs) = nths xs {i. k \<le> i \<and> i < k + m}"
proof -
  have "take m (drop k xs) = nths (drop k xs) {..<m}" by simp
  also have "\<dots> = nths xs ((+) k ` {..<m})" by (rule nths_drop)
  also have "(+) k ` {..<m} = {i. k \<le> i \<and> i < k + m}"
  proof -
    have "i \<in> (+) k ` {..<m}" if "k \<le> i" "i < k + m" for i
      using that by (intro image_eqI [of _ _ "i - k"]) auto
    then show ?thesis by auto
  qed
  finally show ?thesis .
qed

lemma nths_cong: "(\<And>i. i < length xs \<Longrightarrow> i \<in> A \<longleftrightarrow> i \<in> B) \<Longrightarrow> nths xs A = nths xs B"
  unfolding nths_def by (rule arg_cong [where f = "map fst"], rule filter_cong) (auto simp: set_zip)

lemma slice_array_nths:
  "slice_array xs s e =
     nths xs {i. norm_index (length xs) s \<le> int i \<and> int i \<le> norm_index (length xs) e}"
proof -
  define n where "n = int (length xs)"
  define s' where "s' = clamp 0 n (norm_index (length xs) s)"
  define e' where "e' = clamp (- 1) (n - 1) (norm_index (length xs) e)"
  have sl: "slice_array xs s e = (if s' > e' \<or> n = 0 then [] else take (nat (e' + 1 - s')) (drop (nat s') xs))"
    by (simp add: slice_array_def s'_def e'_def n_def norm_index_def Let_def)
  have iff: "norm_index (length xs) s \<le> int i \<and> int i \<le> norm_index (length xs) e \<longleftrightarrow> s' \<le> int i \<and> int i \<le> e'"
    if "i < length xs" for i
    using that by (auto simp: s'_def e'_def n_def clamp_def)
  have bounds: "0 \<le> s'" by (auto simp: s'_def n_def clamp_def)
  have "slice_array xs s e = nths xs {i. s' \<le> int i \<and> int i \<le> e'}"
  proof (cases "s' > e' \<or> n = 0")
    case True
    then have "nths xs {i. s' \<le> int i \<and> int i \<le> e'} = nths xs {}"
      by (intro nths_cong) (auto simp: n_def)
    then show ?thesis using True sl by simp
  next
    case False
    then show ?thesis
      using sl bounds by (auto simp: take_drop_nths intro!: nths_cong)
  qed
  also have "\<dots> = nths xs {i. norm_index (length xs) s \<le> int i \<and> int i \<le> norm_index (length xs) e}"
    using iff by (intro nths_cong) auto
  finally show ?thesis .
qed

text \<open>Indexing and slicing an array never fail on integers and never read outside the
  array. \<open>a[i]\<close> is the element the index points at, counted from the end when it is negative, and
  null when there is none; \<open>a[s..e]\<close> is the array of the elements at the positions between the
  two bounds, both inclusive, in order, whatever the bounds are. A missing bound is the end of
  the array on that side, and a null bound or a null array gives null.\<close>

theorem index_and_slice_bounds:
  "eval_index (VArray xs) (VInt i) =
     (let n = norm_index (length xs) (sint i)
      in Inr (if 0 \<le> n \<and> n < int (length xs) then xs ! nat n else VNull)) \<and>
   eval_slice (VArray xs) (map_option VInt s) (map_option VInt e) =
     Inr (VArray (nths xs {k.
       (case s of None \<Rightarrow> True | Some i \<Rightarrow> norm_index (length xs) (sint i) \<le> int k) \<and>
       (case e of None \<Rightarrow> True | Some i \<Rightarrow> int k \<le> norm_index (length xs) (sint i))})) \<and>
   eval_slice (VArray xs) (Some VNull) b = Inr VNull \<and>
   eval_slice VNull a b = Inr VNull \<and> eval_index VNull v = Inr VNull"
proof (intro conjI)
  show "eval_slice (VArray xs) (map_option VInt s) (map_option VInt e) =
     Inr (VArray (nths xs {k.
       (case s of None \<Rightarrow> True | Some i \<Rightarrow> norm_index (length xs) (sint i) \<le> int k) \<and>
       (case e of None \<Rightarrow> True | Some i \<Rightarrow> int k \<le> norm_index (length xs) (sint i))}))"
    by (cases s; cases e; simp add: eval_slice_def slice_bound_def slice_array_nths;
        intro nths_cong; auto simp: norm_index_def)
qed (auto simp: eval_index_def eval_slice_def slice_bound_def norm_index_def Let_def)

section \<open>Nested fields\<close>

fun path_get :: "fields \<Rightarrow> string list \<Rightarrow> Value option" where
  "path_get fs [] = Some (VObject fs)"
| "path_get fs (s # ss) = (case hm_get fs s of Some v \<Rightarrow> descend v ss | None \<Rightarrow> None)"

lemma descend_VObject [simp]: "descend (VObject obj) ss = path_get obj ss"
  by (cases ss) auto

lemma set_nested_field_get:
  assumes "set_nested_field fs p v = (fs', Inr ())"
  shows "path_get fs' p = Some v"
  using assms
proof (induction fs p v arbitrary: fs' rule: set_nested_field.induct)
  case (3 fs first s rest v)
  then obtain obj obj' where "(case hm_get fs first of Some w \<Rightarrow> w | None \<Rightarrow> VObject []) = VObject obj"
    "set_nested_field obj (s # rest) v = (obj', Inr ())" "hm_get fs' first = Some (VObject obj')"
    by (auto simp: Let_def index_error_def split: Value.splits prod.splits if_splits)
  then show ?case using "3.IH" by simp
qed auto

text \<open>Two paths that differ at some segment.\<close>

fun diverge :: "string list \<Rightarrow> string list \<Rightarrow> bool" where
  "diverge (s # p) (t # q) \<longleftrightarrow> s \<noteq> t \<or> diverge p q"
| "diverge _ _ \<longleftrightarrow> False"

lemma path_get_Nil_diverge: "diverge p q \<Longrightarrow> path_get [] q = None"
  by (cases q; cases p) auto

lemma set_nested_field_frame:
  assumes "set_nested_field fs p v = (fs', Inr ())" "diverge p q"
  shows "path_get fs' q = path_get fs q"
  using assms
proof (induction fs p v arbitrary: fs' q rule: set_nested_field.induct)
  case (2 fs field v)
  then show ?case by (cases q) (auto split: if_splits)
next
  case (3 fs first s rest v)
  then obtain obj obj' where *: "(case hm_get fs first of Some w \<Rightarrow> w | None \<Rightarrow> VObject []) = VObject obj"
    "set_nested_field obj (s # rest) v = (obj', Inr ())"
    "fs' = hm_insert first (VObject obj') (hm_insert first (VObject obj) fs)"
    by (auto simp: Let_def index_error_def split: Value.splits prod.splits if_splits)
  obtain t q' where q: "q = t # q'" using "3.prems" by (cases q) auto
  show ?case
  proof (cases "t = first")
    case True
    then have d: "diverge (s # rest) q'" using "3.prems" q by auto
    have "path_get obj' q' = path_get obj q'"
      by (rule "3.IH" [OF refl refl *(1) *(2) d])
    then show ?thesis using True * q path_get_Nil_diverge [OF d] by (auto split: option.splits)
  next
    case False
    then show ?thesis using * q by auto
  qed
qed auto

lemma hm_insert_same: "hm_wf fs \<Longrightarrow> hm_get fs k = Some v \<Longrightarrow> hm_insert k v fs = fs"
proof (induction fs)
  case (Cons kv fs)
  then have "k = fst kv \<or> fst kv < k" using hm_get_in_set [of fs k v]
    by (cases kv) (fastforce simp: hm_wf_def split: if_splits)
  then show ?case using Cons by (cases kv) (auto simp: hm_wf_def)
qed simp

fun deep_wf :: "Value \<Rightarrow> bool" where
  "deep_wf (VObject obj) \<longleftrightarrow> hm_wf obj \<and> (\<forall>kv\<in>set obj. deep_wf (snd kv))"
| "deep_wf _ \<longleftrightarrow> True"

lemma set_nested_field_error:
  assumes "set_nested_field fs p v = (fs', Inl err)" "deep_wf (VObject fs)"
  shows "fs' = fs"
  using assms
proof (induction fs p v arbitrary: fs' rule: set_nested_field.induct)
  case (3 fs first s rest v)
  define nested where "nested = (case hm_get fs first of Some w \<Rightarrow> w | None \<Rightarrow> VObject [])"
  show ?case
  proof (cases "hm_get fs first")
    case None
    have "set_nested_field [] (s # rest) v \<noteq> (obj', Inl err)" for obj'
    proof (induction rest arbitrary: s obj')
      case (Cons t rest)
      then show ?case by (auto split: prod.splits)
    qed auto
    then show ?thesis using None "3.prems"(1) by (auto split: prod.splits)
  next
    case (Some w)
    have same: "hm_insert first w fs = fs" using "3.prems"(2) Some by (simp add: hm_insert_same)
    show ?thesis
    proof (cases w)
      case (VObject obj)
      obtain obj' r where o: "set_nested_field obj (s # rest) v = (obj', r)" by fastforce
      have wf: "deep_wf (VObject obj)"
        using "3.prems"(2) hm_get_in_set [OF Some] VObject by fastforce
      have "obj' = obj" using "3.IH" [OF refl refl _ _ wf, of obj'] Some VObject o "3.prems"(1) by auto
      then show ?thesis using "3.prems"(1) o Some VObject same by auto
    qed (use "3.prems"(1) Some same in \<open>auto simp: Let_def\<close>)
  qed
qed auto

lemma split_str_ne [simp]: "split_str c s \<noteq> []"
  by (cases s) (auto split: list.splits)

lemma resolve_nested_field_path:
  "resolve_nested_field fs path = path_get fs (split_str (CHR ''.'') path)"
  by (auto simp: resolve_nested_field_def split: list.splits option.splits)

lemma set_nested_field_error_kind:
  assumes "set_nested_field fs p v = (fs', Inl err)" "p \<noteq> []"
  shows "\<exists>t. err = ETypeError ''Object'' t ''nested field update''"
  using assms
proof (induction fs p v arbitrary: fs' rule: set_nested_field.induct)
  case (3 fs first s rest v)
  then show ?case
    by (auto simp: Let_def index_error_def split: Value.splits prod.splits)
qed auto

text \<open>Assignment to a dotted path: when \<open>set_nested_field\<close> succeeds, reading the path back
  with \<open>resolve_nested_field\<close> gives the assigned value, and every path that branches off from it
  reads as before, missing intermediate objects being created; when it fails it does so with a
  type error, because a part of the path is not an object, and the document is unchanged.\<close>

theorem assign_path_roundtrip:
  assumes "deep_wf (VObject fs)"
  shows "case set_nested_field fs (split_str (CHR ''.'') path) v of
      (fs', Inr _) \<Rightarrow> resolve_nested_field fs' path = Some v \<and>
        (\<forall>q. diverge (split_str (CHR ''.'') path) (split_str (CHR ''.'') q) \<longrightarrow>
             resolve_nested_field fs' q = resolve_nested_field fs q)
    | (fs', Inl err) \<Rightarrow> fs' = fs \<and> (\<exists>t. err = ETypeError ''Object'' t ''nested field update'')"
proof (cases "set_nested_field fs (split_str (CHR ''.'') path) v")
  case (Pair fs' r)
  show ?thesis
  proof (cases r)
    case (Inl err)
    then show ?thesis
      using Pair set_nested_field_error [OF _ assms] set_nested_field_error_kind by fastforce
  next
    case (Inr u)
    then show ?thesis using Pair set_nested_field_get set_nested_field_frame
      by (auto simp: resolve_nested_field_path)
  qed
qed

theorem assign_path_roundtrip_witness:
  "resolve_nested_field (fst (set_nested_field [(''a'', VObject [])] [''a'', ''b''] (VInt 1))) ''a.b'' = Some (VInt 1)"
  using assign_path_roundtrip [of "[(''a'', VObject [])]" "''a.b''" "VInt 1"]
  by (simp add: hm_wf_def)

section \<open>Variables\<close>

lemma scope_get_push: "scope_get (scope_push sc) x = scope_get sc x"
  by (simp add: scope_get_def scope_push_def)

lemma scope_get_append: "scope_get (sc @ [f]) x = (case hm_get f x of Some v \<Rightarrow> Some v | None \<Rightarrow> scope_get sc x)"
  by (simp add: scope_get_def split: option.splits)

text \<open>A block: assignments between a push and the matching pop.\<close>

fun scope_sets :: "(string \<times> Value) list \<Rightarrow> VarScope \<Rightarrow> VarScope option" where
  "scope_sets [] sc = Some sc"
| "scope_sets ((x, v) # xs) sc =
     (case scope_set x v sc of None \<Rightarrow> None | Some sc' \<Rightarrow> scope_sets xs sc')"

lemma scope_sets_frame:
  "\<exists>f'. scope_sets xs (sc @ [f]) = Some (sc @ [f']) \<and> hm_get f' = hm_get f ++ map_of (rev xs)"
proof (induction xs arbitrary: f)
  case (Cons p xs)
  obtain x v where p: "p = (x, v)" by fastforce
  obtain f' where "scope_sets xs (sc @ [hm_insert x v f]) = Some (sc @ [f'])"
    "hm_get f' = hm_get (hm_insert x v f) ++ map_of (rev xs)"
    using Cons.IH by blast
  moreover have "hm_get (hm_insert x v f) = (hm_get f)(x \<mapsto> v)" by (rule ext) auto
  ultimately show ?case
    by (auto simp: p scope_set_def map_add_def fun_eq_iff split: option.splits)
qed simp

text \<open>Variables are block structured: after \<open>push\<close> and any assignments, a variable reads as
  the last assignment to it in the block and otherwise as outside, and \<open>pop\<close> restores the scope
  exactly, in debug and release builds; none of the calls panics.\<close>

theorem scope_block_discipline:
  assumes "sc \<noteq> []"
  shows "\<exists>inner. scope_sets xs (scope_push sc) = Some inner \<and>
    (\<forall>x. scope_get inner x = (case map_of (rev xs) x of Some v \<Rightarrow> Some v | None \<Rightarrow> scope_get sc x)) \<and>
    (\<forall>x. scope_contains inner x = (scope_get inner x \<noteq> None)) \<and>
    scope_pop dbg inner = Some sc"
proof -
  obtain f' where f': "scope_sets xs (sc @ [[]]) = Some (sc @ [f'])" "hm_get f' = map_of (rev xs)"
    using scope_sets_frame [of xs sc "[]"] by (auto simp: hm_get_eq_map_of)
  have c: "scope_contains s x = (scope_get s x \<noteq> None)" for s x
  proof -
    have "list_ex (\<lambda>f. hm_contains f x) fs = (scope_get_loop fs x \<noteq> None)" for fs
      by (induction fs) (auto simp: hm_contains_def split: option.splits)
    then show ?thesis by (simp add: scope_contains_def scope_get_def)
  qed
  have "Suc 0 < length (sc @ [f'])" using assms by (cases sc) auto
  then show ?thesis
    using f' c by (intro exI [of _ "sc @ [f']"])
      (auto simp: scope_push_def scope_get_append scope_pop_def)
qed

theorem scope_block_discipline_witness:
  "\<exists>inner. scope_sets [(''x'', VInt 1)] (scope_push scope_new) = Some inner \<and> scope_get inner ''x'' = Some (VInt 1)"
  using scope_block_discipline [of scope_new "[(''x'', VInt 1)]" True] by (force simp: scope_new_def)

section \<open>Constant folding\<close>

lemma collect_constants_collect:
  assumes "collect_constants g xs = Inr (Some vs)"
    and "\<And>x v. x \<in> set xs \<Longrightarrow> g x = Inr (Some v) \<Longrightarrow> f x = Inr v"
  shows "collect_results f xs = Inr vs"
  using assms
proof (induction xs arbitrary: vs)
  case (Cons x xs)
  then obtain v ws where "g x = Inr (Some v)" "collect_constants g xs = Inr (Some ws)" "vs = v # ws"
    by (auto simp: and_then_Inr_iff split: option.splits)
  then show ?case using Cons by simp
qed simp

lemma collect_constants_panic:
  assumes "collect_constants g xs = Inl err"
    and "\<And>x v. x \<in> set xs \<Longrightarrow> g x = Inr (Some v) \<Longrightarrow> f x = Inr v"
    and "\<And>x. x \<in> set xs \<Longrightarrow> g x = Inl err \<Longrightarrow> f x = Inl err"
  shows "collect_results f xs = Inl err"
  using assms
proof (induction xs)
  case (Cons x xs)
  show ?case
  proof (cases "g x")
    case (Inl e)
    then show ?thesis using Cons.prems by simp
  next
    case (Inr r)
    then obtain v where "g x = Inr (Some v)" "collect_constants g xs = Inl err"
      using Cons.prems(1) by (cases r; cases "collect_constants g xs") auto
    then show ?thesis using Cons by simp
  qed
qed simp

lemma collect_results_pairs:
  "collect_results f (map snd ps) = Inr vs \<Longrightarrow>
   collect_results (\<lambda>kv. and_then (f (snd kv)) (\<lambda>v. Inr (fst kv, v))) ps = Inr (zip (map fst ps) vs)"
  by (induction ps arbitrary: vs) (auto simp: and_then_Inr_iff)

lemma collect_results_pairs_Inl:
  "collect_results f (map snd ps) = Inl err \<Longrightarrow>
   collect_results (\<lambda>kv. and_then (f (snd kv)) (\<lambda>v. Inr (fst kv, v))) ps = Inl err"
proof (induction ps)
  case (Cons p ps)
  then show ?case
    by (cases "f (snd p)"; cases "collect_results f (map snd ps)") auto
qed simp

definition agrees :: "Value option eval_result \<Rightarrow> Value eval_result \<Rightarrow> bool" where
  "agrees r s \<longleftrightarrow> (case r of Inr None \<Rightarrow> True | Inr (Some v) \<Rightarrow> s = Inr v | Inl err \<Rightarrow> s = Inl err)"

lemma agreesD:
  "agrees (Inr (Some v)) s \<Longrightarrow> s = Inr v"
  "agrees (Inl err) s \<Longrightarrow> s = Inl err"
  by (simp_all add: agrees_def)

lemma agrees_collect:
  assumes "\<And>x. x \<in> set xs \<Longrightarrow> agrees (g x) (f x)"
  shows "case collect_constants g xs of Inr None \<Rightarrow> True
    | Inr (Some vs) \<Rightarrow> collect_results f xs = Inr vs | Inl err \<Rightarrow> collect_results f xs = Inl err"
proof (cases "collect_constants g xs")
  case (Inl err)
  then show ?thesis using assms collect_constants_panic [OF Inl, of f] by (fastforce dest: agreesD)
next
  case (Inr r)
  show ?thesis
  proof (cases r)
    case (Some vs)
    then show ?thesis using Inr assms collect_constants_collect [of g xs vs f] by (fastforce dest: agreesD)
  qed (simp add: Inr)
qed

lemma try_to_value_agrees:
  "agrees (try_to_value (env_overflow_checks E) e) (eval_expr E e row vars)"
proof (induction "size e" arbitrary: e rule: less_induct)
  case less
  let ?g = "try_to_value (env_overflow_checks E)" and ?f = "\<lambda>e. eval_expr E e row vars"
  show ?case
  proof (cases e)
    case (EObject pairs)
    note pairs = collect_results_pairs [of ?f pairs] collect_results_pairs_Inl [of ?f pairs]
    have "\<And>x. x \<in> set (map snd pairs) \<Longrightarrow> agrees (?g x) (?f x)"
      using less size_pairs EObject by auto
    from agrees_collect [of "map snd pairs" ?g ?f, OF this]
    show ?thesis unfolding EObject
      by (subst try_to_value.simps; cases "collect_constants ?g (map snd pairs)")
        (auto simp: agrees_def pairs split: option.splits)
  next
    case (EArray items)
    have "\<And>x. x \<in> set items \<Longrightarrow> agrees (?g x) (?f x)"
      using less size_elem EArray by auto
    from agrees_collect [of items ?g ?f, OF this]
    show ?thesis unfolding EArray
      by (subst try_to_value.simps) (auto simp: agrees_def and_then_def split: sum.splits option.splits)
  next
    case (EUnaryOp oper inner)
    have "agrees (?g inner) (?f inner)" using less EUnaryOp by simp
    then show ?thesis unfolding EUnaryOp
      by (subst try_to_value.simps)
        (auto simp: agrees_def and_then_def negate_constant_def eval_neg_def i64_neg_def Let_def
          split: sum.splits option.splits Value.splits UnaryOp.splits)
  qed (simp_all add: try_to_value.simps agrees_def)
qed

text \<open>C12: Folding a constant expression at bind time gives what evaluating it would: whenever
  \<open>try_to_value\<close> turns an expression of literals, arrays, objects and negations into a value,
  \<open>eval_expr\<close> returns that value on every row and in every scope, and where it panics, on the
  negation of \<open>i64::MIN\<close>, so does evaluation.\<close>

theorem constant_folding_agrees:
  "case try_to_value (env_overflow_checks E) e of
     Inr (Some v) \<Rightarrow> eval_expr E e row vars = Inr v
   | Inr None \<Rightarrow> True
   | Inl err \<Rightarrow> eval_expr E e row vars = Inl err"
  using try_to_value_agrees [of E e row vars] by (auto simp: agrees_def split: sum.splits option.splits)

end
