(* ===== verification/Comparators.thy ===== *)
theory Comparators
  imports Stellar_Prelude "HOL-Library.Multiset"
begin

text \<open>
  Sorting with a comparison function, as \<open>slice::sort_by\<close> does it.

  \<open>sort_by\<close> is a stable sort; for a comparison that is a total preorder every stable sort returns
  the same list, and for others the standard library promises nothing. The locale
  \<open>comparator_on\<close> states what it means for a comparison to be a total preorder on a set of
  values, and proves sortedness and stability from it once; the locale \<open>lexicographic\<close> lifts a
  comparator to lists of keys with a direction each.
\<close>

fun insort_by :: "('a \<Rightarrow> 'a \<Rightarrow> ordering) \<Rightarrow> 'a \<Rightarrow> 'a list \<Rightarrow> 'a list" where
  "insort_by c x [] = [x]"
| "insort_by c x (y # ys) = (if c x y = Greater then y # insort_by c x ys else x # y # ys)"

definition sort_by :: "('a \<Rightarrow> 'a \<Rightarrow> ordering) \<Rightarrow> 'a list \<Rightarrow> 'a list" where
  "sort_by c xs = foldr (insort_by c) xs []"

lemma sort_by_simps [simp]:
  "sort_by c [] = []"
  "sort_by c (x # xs) = insort_by c x (sort_by c xs)"
  by (simp_all add: sort_by_def)

lemma mset_insort_by [simp]: "mset (insort_by c x xs) = add_mset x (mset xs)"
  by (induction xs) auto

lemma mset_sort_by [simp]: "mset (sort_by c xs) = mset xs"
  by (induction xs) auto

lemma set_insort_by [simp]: "set (insort_by c x xs) = insert x (set xs)"
  by (metis mset_insort_by set_mset_add_mset_insert set_mset_mset)

lemma set_sort_by [simp]: "set (sort_by c xs) = set xs"
  by (metis mset_sort_by set_mset_mset)

lemma length_sort_by [simp]: "length (sort_by c xs) = length xs"
  by (metis mset_sort_by size_mset)

lemma insort_by_map:
  "insort_by (\<lambda>a b. c (f a) (f b)) x xs = ys \<Longrightarrow> insort_by c (f x) (map f xs) = map f ys"
  by (induction xs arbitrary: ys) auto

locale comparator_on =
  fixes S :: "'a set" and c :: "'a \<Rightarrow> 'a \<Rightarrow> ordering"
  assumes rev: "a \<in> S \<Longrightarrow> b \<in> S \<Longrightarrow> c b a = reverse (c a b)"
    and trans: "a \<in> S \<Longrightarrow> b \<in> S \<Longrightarrow> x \<in> S \<Longrightarrow> c a b \<noteq> Greater \<Longrightarrow> c b x \<noteq> Greater \<Longrightarrow> c a x \<noteq> Greater"
begin

lemma self [simp]: "a \<in> S \<Longrightarrow> c a a = Equal"
  using rev [of a a] by (cases "c a a") auto

lemma flip:
  assumes "a \<in> S" "b \<in> S"
  shows "c a b = Greater \<longleftrightarrow> c b a = Less" "c a b = Less \<longleftrightarrow> c b a = Greater"
    "c a b = Equal \<longleftrightarrow> c b a = Equal"
  using rev [OF assms] by (cases "c a b"; simp)+

lemma total: "a \<in> S \<Longrightarrow> b \<in> S \<Longrightarrow> c a b \<noteq> Greater \<or> c b a \<noteq> Greater"
  using rev [of a b] by (cases "c a b") auto

lemma less_le_trans:
  assumes "a \<in> S" "b \<in> S" "x \<in> S" "c a b = Less" "c b x \<noteq> Greater"
  shows "c a x = Less"
proof (rule ccontr)
  assume "c a x \<noteq> Less"
  then have "c x a \<noteq> Greater" using flip [OF assms(1,3)] by auto
  then have "c b a \<noteq> Greater" using trans [OF assms(2,3,1) assms(5)] by blast
  then show False using flip [OF assms(1,2)] assms(4) by auto
qed

lemma equal_cong:
  assumes "a \<in> S" "b \<in> S" "x \<in> S" "c a b = Equal"
  shows "c a x = c b x"
proof (cases "c b x")
  case Less
  then have "c a x \<noteq> Greater" using trans [OF assms(1-3)] assms(4) by simp
  moreover have "c a x \<noteq> Equal"
  proof
    assume "c a x = Equal"
    then have "c x b \<noteq> Greater" using trans [OF assms(3,1,2)] assms flip [OF assms(1,3)] by auto
    then show False using Less flip [OF assms(2,3)] by auto
  qed
  ultimately show ?thesis using Less by (cases "c a x") auto
next
  case Equal
  then have "c a x \<noteq> Greater" using trans [OF assms(1-3)] assms(4) by simp
  moreover have "c x a \<noteq> Greater"
    using trans [OF assms(3,2,1)] Equal assms flip [OF assms(2,3)] flip [OF assms(1,2)] by auto
  ultimately show ?thesis using Equal flip [OF assms(1,3)] by (cases "c a x") auto
next
  case Greater
  then have "c x b = Less" using flip [OF assms(2,3)] by auto
  then have "c x a = Less"
    using less_le_trans [OF assms(3,2,1)] assms flip [OF assms(1,2)] by auto
  then show ?thesis using Greater flip [OF assms(1,3)] by auto
qed

definition ascending :: "'a list \<Rightarrow> bool" where
  "ascending = sorted_wrt (\<lambda>a b. c a b \<noteq> Greater)"

lemma insort_ascending:
  assumes "ascending xs" "set xs \<subseteq> S" "x \<in> S"
  shows "ascending (insort_by c x xs)"
  using assms
proof (induction xs)
  case (Cons y ys)
  show ?case
  proof (cases "c x y = Greater")
    case True
    then have "c y x \<noteq> Greater" using flip [of x y] Cons.prems by auto
    then show ?thesis using Cons True by (auto simp: ascending_def)
  next
    case False
    have "c x z \<noteq> Greater" if "z \<in> set ys" for z
      using trans [of x y z] False that Cons.prems by (auto simp: ascending_def)
    then show ?thesis using Cons.prems False by (auto simp: ascending_def)
  qed
qed (simp add: ascending_def)

lemma sort_ascending: "set xs \<subseteq> S \<Longrightarrow> ascending (sort_by c xs)"
  by (induction xs) (auto simp: insort_ascending, simp add: ascending_def)

lemma insort_stable:
  assumes "set xs \<subseteq> S" "x \<in> S" "k \<in> S" "ascending xs"
  shows "filter (\<lambda>y. c k y = Equal) (insort_by c x xs) = filter (\<lambda>y. c k y = Equal) (x # xs)"
  using assms
proof (induction xs)
  case (Cons y ys)
  show ?case
  proof (cases "c x y = Greater")
    case True
    have "\<not> (c k x = Equal \<and> c k y = Equal)"
      using True equal_cong [of k x y] Cons.prems by auto
    then show ?thesis using Cons True by (auto simp: ascending_def)
  qed simp
qed simp

lemma sort_stable:
  "set xs \<subseteq> S \<Longrightarrow> k \<in> S \<Longrightarrow>
   filter (\<lambda>y. c k y = Equal) (sort_by c xs) = filter (\<lambda>y. c k y = Equal) xs"
  by (induction xs) (simp_all add: insort_stable sort_ascending)

lemma not_beyond:
  assumes "a \<in> S" "b \<in> S" "x \<in> S" "w \<noteq> Equal" "c a b \<noteq> w" "c b x \<noteq> w"
  shows "c a x \<noteq> w"
proof (cases w)
  case Less
  then have "c b a \<noteq> Greater" "c x b \<noteq> Greater"
    using assms flip [OF assms(1,2)] flip [OF assms(2,3)] by auto
  then have "c x a \<noteq> Greater" using trans assms(1-3) by blast
  then show ?thesis using Less flip [OF assms(1,3)] by auto
next
  case Greater
  then show ?thesis using trans [OF assms(1-3)] assms by auto
qed (use assms in simp)

text \<open>A fold that keeps the first extremum: \<open>w\<close> is \<open>Less\<close> for a minimum and \<open>Greater\<close> for a
  maximum.\<close>

lemma running_extremum:
  assumes "set xs \<subseteq> S" "m \<in> S" "w \<noteq> Equal"
  defines "r \<equiv> foldl (\<lambda>m x. if c x m = w then x else m) m xs"
  shows "r \<in> insert m (set xs) \<and> (\<forall>x\<in>insert m (set xs). c x r \<noteq> w)"
  using assms(1,2) unfolding r_def
proof (induction xs arbitrary: m)
  case (Cons x xs)
  let ?m = "if c x m = w then x else m"
  let ?r = "foldl (\<lambda>m x. if c x m = w then x else m) ?m xs"
  have m: "?m \<in> S" "m \<in> S" "x \<in> S" using Cons.prems by auto
  have IH: "?r \<in> insert ?m (set xs)" "\<forall>y\<in>insert ?m (set xs). c y ?r \<noteq> w"
    using Cons.IH [OF _ m(1)] Cons.prems by auto
  have r: "?r \<in> S" using IH(1) m Cons.prems by auto
  have "c x ?m \<noteq> w" "c m ?m \<noteq> w"
    using flip [OF m(3,2)] assms(3) m by (cases w; auto)+
  then have "c x ?r \<noteq> w" "c m ?r \<noteq> w"
    using not_beyond [OF m(3,1) r assms(3)] not_beyond [OF m(2,1) r assms(3)] IH(2) by auto
  then show ?case using IH by auto
qed (use assms(3) in simp)

end

text \<open>Comparison of keys: the first key that differs decides, in its direction.\<close>

datatype OrderDirection = Asc | Desc

definition directed :: "OrderDirection \<Rightarrow> ordering \<Rightarrow> ordering" where
  "directed d r = (case d of Asc \<Rightarrow> r | Desc \<Rightarrow> reverse r)"

fun lex_keys :: "('a \<Rightarrow> 'a \<Rightarrow> ordering) \<Rightarrow> 'a list \<Rightarrow> 'a list \<Rightarrow> OrderDirection list \<Rightarrow> ordering" where
  "lex_keys c (a # as) (b # bs) (d # ds) =
     (let r = directed d (c a b) in if r \<noteq> Equal then r else lex_keys c as bs ds)"
| "lex_keys c _ _ _ = Equal"

lemma reverse_eq [simp]:
  "reverse r = Equal \<longleftrightarrow> r = Equal" "reverse r = Less \<longleftrightarrow> r = Greater" "reverse r = Greater \<longleftrightarrow> r = Less"
  "reverse (reverse r) = r"
  by (cases r; simp)+

lemma directed_eq [simp]:
  "directed d r = Equal \<longleftrightarrow> r = Equal" "directed d Equal = Equal"
  "directed d (reverse r) = reverse (directed d r)"
  by (cases d; simp add: directed_def)+

locale lexicographic = comparator_on S c for S :: "'a set" and c +
  fixes ds :: "OrderDirection list"
begin

definition keys_of_type :: "'a list set" where
  "keys_of_type = {ks. length ks = length ds \<and> set ks \<subseteq> S}"

lemma lex_reverse:
  "length as = length es \<Longrightarrow> length bs = length es \<Longrightarrow> set as \<subseteq> S \<Longrightarrow> set bs \<subseteq> S \<Longrightarrow>
   lex_keys c bs as es = reverse (lex_keys c as bs es)"
proof (induction es arbitrary: as bs)
  case (Cons d es)
  then obtain a as' b bs' where ab: "as = a # as'" "bs = b # bs'" by (metis length_Suc_conv)
  have "c b a = reverse (c a b)" using Cons.prems ab by (intro rev) auto
  then show ?case using Cons.IH [of as' bs'] Cons.prems ab by (simp add: Let_def)
qed simp

lemma directed_trans:
  assumes "a \<in> S" "b \<in> S" "x \<in> S" "directed d (c a b) \<noteq> Greater" "directed d (c b x) \<noteq> Greater"
  shows "directed d (c a x) \<noteq> Greater" "directed d (c a x) = Equal \<Longrightarrow> c a b = Equal \<and> c b x = Equal"
proof -
  have ax: "c a x = Equal \<Longrightarrow> c a b = Equal \<and> c b x = Equal"
  proof -
    assume "c a x = Equal"
    then have "c a b = c x b" using equal_cong assms(1-3) by blast
    then have "c b x = reverse (c a b)" using rev [OF assms(3,2)] by simp
    then show "c a b = Equal \<and> c b x = Equal"
      using assms(4,5) by (cases d; cases "c a b") (simp_all add: directed_def)
  qed
  then show "directed d (c a x) = Equal \<Longrightarrow> c a b = Equal \<and> c b x = Equal" by simp
  show "directed d (c a x) \<noteq> Greater"
  proof (cases d)
    case Asc
    then show ?thesis using assms trans [OF assms(1-3)] by (simp add: directed_def)
  next
    case Desc
    then have "c x a \<noteq> Greater"
      using assms trans [OF assms(3,2,1)] rev [OF assms(1,2)] rev [OF assms(2,3)] by (simp add: directed_def)
    then show ?thesis using Desc rev [OF assms(1,3)] by (simp add: directed_def)
  qed
qed

lemma lex_trans:
  "length as = length es \<Longrightarrow> length bs = length es \<Longrightarrow> length xs = length es \<Longrightarrow>
   set as \<subseteq> S \<Longrightarrow> set bs \<subseteq> S \<Longrightarrow> set xs \<subseteq> S \<Longrightarrow>
   lex_keys c as bs es \<noteq> Greater \<Longrightarrow> lex_keys c bs xs es \<noteq> Greater \<Longrightarrow> lex_keys c as xs es \<noteq> Greater"
proof (induction es arbitrary: as bs xs)
  case (Cons d es)
  then obtain a as' b bs' x xs' where abx: "as = a # as'" "bs = b # bs'" "xs = x # xs'"
    by (metis length_Suc_conv)
  have in_S: "a \<in> S" "b \<in> S" "x \<in> S" using Cons.prems abx by auto
  have le: "directed d (c a b) \<noteq> Greater" "directed d (c b x) \<noteq> Greater"
    using Cons.prems abx by (auto simp: Let_def split: if_splits)
  show ?case
  proof (cases "c a x = Equal")
    case True
    then have "c a b = Equal" "c b x = Equal" using directed_trans(2) [OF in_S le] by auto
    then show ?thesis using Cons.IH [of as' bs' xs'] Cons.prems True abx by (simp add: Let_def)
  next
    case False
    then show ?thesis using directed_trans(1) [OF in_S le] abx by (simp add: Let_def)
  qed
qed simp

end

sublocale lexicographic \<subseteq> keys: comparator_on keys_of_type "\<lambda>as bs. lex_keys c as bs ds"
  by unfold_locales (auto simp: keys_of_type_def intro: lex_reverse dest: lex_trans)

context lexicographic
begin

lemma keys_comparator: "comparator_on keys_of_type (\<lambda>as bs. lex_keys c as bs ds)"
  by (rule keys.comparator_on_axioms)

end

text \<open>Sorting records by a key.\<close>

locale keyed = comparator_on S c for S :: "'b set" and c +
  fixes f :: "'a \<Rightarrow> 'b"

sublocale keyed \<subseteq> by_key: comparator_on "f -` S" "\<lambda>a b. c (f a) (f b)"
  by unfold_locales (auto intro: rev dest: trans)

context keyed
begin

lemma by_key_comparator: "comparator_on (f -` S) (\<lambda>a b. c (f a) (f b))"
  by (rule by_key.comparator_on_axioms)

end

end
