(* ===== verification/Accumulator.thy ===== *)
theory Accumulator
  imports Eval Comparators
begin

text \<open>
  \<open>operators/accumulator.rs\<close>: the order of ORDER BY, MIN and MAX, the keys of DISTINCT and
  GROUP BY, and the accumulators of the aggregate functions.

  The derived \<open>Debug\<close> rendering of arrays and objects, which \<open>serialize_value\<close> uses, is the
  argument \<open>dbg\<close>. Addition and division of decimals panic on overflow, unlike their checked
  forms. A row count stays below \<open>2 ^ 63\<close>, so it is a natural number.
\<close>

section \<open>Order\<close>

definition type_priority :: "Value \<Rightarrow> nat" where
  "type_priority v =
     (case v of
        VNull \<Rightarrow> 0
      | VBool _ \<Rightarrow> 1
      | VInt _ \<Rightarrow> 2
      | VFloat _ \<Rightarrow> 2
      | VDecimal _ \<Rightarrow> 2
      | VString _ \<Rightarrow> 3
      | VArray _ \<Rightarrow> 4
      | VObject _ \<Rightarrow> 5
      | VReference _ \<Rightarrow> 6
      | VDatetime _ \<Rightarrow> 7
      | VDuration _ \<Rightarrow> 8
      | VBytes _ \<Rightarrow> 9
      | VRange _ _ \<Rightarrow> 10)"

definition compare_value_inner :: "'d libs \<Rightarrow> Value \<Rightarrow> Value \<Rightarrow> ordering" where
  "compare_value_inner L a b =
     (let type_ord = cmp (type_priority a) (type_priority b)
      in if type_ord \<noteq> Equal then type_ord
         else if is_numeric a \<and> is_numeric b
         then (case partial_cmp L a b of Some r \<Rightarrow> r | None \<Rightarrow> Equal)
         else case (a, b) of
                (VNull, VNull) \<Rightarrow> Equal
              | (VBool x, VBool y) \<Rightarrow> cmp x y
              | (VString x, VString y) \<Rightarrow> cmp x y
              | _ \<Rightarrow> Equal)"

definition compare_values :: "'d libs \<Rightarrow> Value option \<Rightarrow> Value option \<Rightarrow> ordering" where
  "compare_values L a b =
     (case (a, b) of
        (None, None) \<Rightarrow> Equal
      | (None, Some _) \<Rightarrow> Less
      | (Some _, None) \<Rightarrow> Greater
      | (Some a, Some b) \<Rightarrow> compare_value_inner L a b)"

section \<open>Keys\<close>

definition debug_bytes :: "bytes \<Rightarrow> string" where
  "debug_bytes bs = ''['' @ intersperse_str '', '' (map (\<lambda>b. nat_to_string (unat b)) bs) @ '']''"

definition serialize_value :: "'d env \<Rightarrow> (Value \<Rightarrow> string) \<Rightarrow> Value \<Rightarrow> string" where
  "serialize_value E dbg v =
     (case v of
        VNull \<Rightarrow> ''null''
      | VBool b \<Rightarrow> display_bool b
      | VInt i \<Rightarrow> int_to_string (sint i)
      | VFloat f \<Rightarrow> f64_to_string f
      | VDecimal d \<Rightarrow> display E v
      | VString s \<Rightarrow> [CHR 0x22] @ s @ [CHR 0x22]
      | VArray _ \<Rightarrow> dbg v
      | VObject _ \<Rightarrow> dbg v
      | VReference r \<Rightarrow> ''ref:'' @ r
      | VDatetime ms \<Rightarrow> ''datetime:'' @ int_to_string (sint ms)
      | VDuration ns \<Rightarrow> ''duration:'' @ nat_to_string (unat ns)
      | VBytes b \<Rightarrow> ''bytes:'' @ debug_bytes b
      | VRange start end \<Rightarrow> ''range:'' @ display E start @ ''..'' @ display E end)"

section \<open>Accumulators\<close>

datatype AggregateFunction = Count | Sum | Avg | Min | Max

definition from_name :: "'d env \<Rightarrow> string \<Rightarrow> AggregateFunction option" where
  "from_name E name =
     (let n = env_to_lowercase E name
      in if n = ''count'' then Some Count
         else if n = ''sum'' then Some Sum
         else if n = ''avg'' then Some Avg
         else if n = ''min'' then Some Min
         else if n = ''max'' then Some Max
         else None)"

datatype NumericMode = ModeNone | IntOnly | ModeDecimal | ModeFloat

record 'd accumulator =
  acc_function :: AggregateFunction
  acc_distinct :: bool
  distinct_values :: "string list"
  acc_count :: nat
  sum_float :: f64
  sum_decimal :: 'd
  numeric_mode :: NumericMode
  acc_min :: "Value option"
  acc_max :: "Value option"

definition accumulator_new :: "'d libs \<Rightarrow> AggregateFunction \<Rightarrow> bool \<Rightarrow> 'd accumulator" where
  "accumulator_new L f dist =
     \<lparr>acc_function = f, acc_distinct = dist, distinct_values = [], acc_count = 0,
      sum_float = 0, sum_decimal = dec_zero L, numeric_mode = ModeNone, acc_min = None, acc_max = None\<rparr>"

definition feed_wildcard :: "'d accumulator \<Rightarrow> 'd accumulator" where
  "feed_wildcard a = a\<lparr>acc_count := acc_count a + 1\<rparr>"

text \<open>\<open>f64::from_str\<close> on the decimals that \<open>rust_decimal\<close> prints: an optional sign, digits and an
  optional fraction. The nearest float.\<close>

definition digits_value :: "string \<Rightarrow> nat" where
  "digits_value s = foldl (\<lambda>n c. 10 * n + (of_char c - 48)) 0 s"

definition f64_from_str :: "string \<Rightarrow> f64 option" where
  "f64_from_str s =
     (let neg = (s \<noteq> [] \<and> hd s = CHR ''-''); body = (if neg then tl s else s);
          (whole, frac) = (case split_once (CHR ''.'') body of None \<Rightarrow> (body, []) | Some (a, b) \<Rightarrow> (a, b));
          ds = whole @ frac
      in if ds \<noteq> [] \<and> list_all (\<lambda>c. CHR ''0'' \<le> c \<and> c \<le> CHR ''9'') ds
         then Some (f64_round neg (digits_value ds * unit_den) (10 ^ length frac))
         else None)"

definition dec_as_f64 :: "'d libs \<Rightarrow> 'd \<Rightarrow> f64 option" where
  "dec_as_f64 L d = f64_from_str (dec_to_string L d)"

definition dec_add :: "'d libs \<Rightarrow> 'd \<Rightarrow> 'd \<Rightarrow> 'd eval_result" where
  "dec_add L a b = (case dec_checked_add L a b of Some c \<Rightarrow> Inr c | None \<Rightarrow> Inl (EPanic ''Addition overflowed''))"

definition feed_numeric :: "'d libs \<Rightarrow> Value \<Rightarrow> 'd accumulator \<Rightarrow> 'd accumulator eval_result" where
  "feed_numeric L v a =
     (case v of
        VInt i \<Rightarrow>
          and_then (dec_add L (sum_decimal a) (dec_of_i64 L i)) (\<lambda>s.
            let mode = (if numeric_mode a = ModeNone then IntOnly else numeric_mode a)
            in Inr (a\<lparr>sum_decimal := s, numeric_mode := mode,
                      sum_float := (if mode = ModeFloat then f64_add (sum_float a) (f64_of_i64 i)
                                    else sum_float a),
                      acc_count := acc_count a + 1\<rparr>))
      | VDecimal d \<Rightarrow>
          (let dd = dec_deserialize L d
           in and_then (dec_add L (sum_decimal a) dd) (\<lambda>s.
                let a' = a\<lparr>sum_decimal := s\<rparr>;
                    a'' = (case numeric_mode a of
                             ModeNone \<Rightarrow> a'\<lparr>numeric_mode := ModeDecimal\<rparr>
                           | IntOnly \<Rightarrow> a'\<lparr>numeric_mode := ModeDecimal\<rparr>
                           | ModeFloat \<Rightarrow>
                               (case dec_as_f64 L dd of
                                  Some f \<Rightarrow> a'\<lparr>sum_float := f64_add (sum_float a) f\<rparr>
                                | None \<Rightarrow> a')
                           | ModeDecimal \<Rightarrow> a')
                in Inr (a''\<lparr>acc_count := acc_count a + 1\<rparr>)))
      | VFloat f \<Rightarrow>
          (let a' = (if numeric_mode a \<noteq> ModeFloat
                     then a\<lparr>sum_float := (case dec_as_f64 L (sum_decimal a) of Some g \<Rightarrow> g | None \<Rightarrow> 0),
                            numeric_mode := ModeFloat\<rparr>
                     else a)
           in Inr (a'\<lparr>sum_float := f64_add (sum_float a') f, acc_count := acc_count a + 1\<rparr>))
      | _ \<Rightarrow> Inr a)"

definition feed_function :: "'d libs \<Rightarrow> Value option \<Rightarrow> 'd accumulator \<Rightarrow> 'd accumulator eval_result" where
  "feed_function L v a =
     (case acc_function a of
        Count \<Rightarrow> (case v of
                    None \<Rightarrow> Inr a
                  | Some VNull \<Rightarrow> Inr a
                  | Some _ \<Rightarrow> Inr (a\<lparr>acc_count := acc_count a + 1\<rparr>))
      | Sum \<Rightarrow> (case v of Some w \<Rightarrow> feed_numeric L w a | None \<Rightarrow> Inr a)
      | Avg \<Rightarrow> (case v of Some w \<Rightarrow> feed_numeric L w a | None \<Rightarrow> Inr a)
      | Min \<Rightarrow>
          (case v of
             Some w \<Rightarrow>
               if w = VNull then Inr a
               else (case acc_min a of
                       None \<Rightarrow> Inr (a\<lparr>acc_min := Some w\<rparr>)
                     | Some current \<Rightarrow>
                         if compare_value_inner L w current = Less then Inr (a\<lparr>acc_min := Some w\<rparr>) else Inr a)
           | None \<Rightarrow> Inr a)
      | Max \<Rightarrow>
          (case v of
             Some w \<Rightarrow>
               if w = VNull then Inr a
               else (case acc_max a of
                       None \<Rightarrow> Inr (a\<lparr>acc_max := Some w\<rparr>)
                     | Some current \<Rightarrow>
                         if compare_value_inner L w current = Greater then Inr (a\<lparr>acc_max := Some w\<rparr>) else Inr a)
           | None \<Rightarrow> Inr a))"

definition feed :: "'d env \<Rightarrow> (Value \<Rightarrow> string) \<Rightarrow> Value option \<Rightarrow> 'd accumulator \<Rightarrow> 'd accumulator eval_result" where
  "feed E dbg v a =
     (if acc_distinct a
      then (case v of
              None \<Rightarrow> Inr a
            | Some w \<Rightarrow>
                if w = VNull then Inr a
                else (let k = serialize_value E dbg w
                      in if k \<in> set (distinct_values a) then Inr a
                         else feed_function (env_libs E) v (a\<lparr>distinct_values := k # distinct_values a\<rparr>)))
      else feed_function (env_libs E) v a)"

definition acc_result :: "'d libs \<Rightarrow> 'd accumulator \<Rightarrow> Value eval_result" where
  "acc_result L a =
     (case acc_function a of
        Count \<Rightarrow>
          Inr (VInt (of_nat (if acc_distinct a then length (distinct_values a) else acc_count a)))
      | Sum \<Rightarrow>
          if acc_count a = 0 then Inr VNull
          else (case numeric_mode a of
                  ModeNone \<Rightarrow> Inr VNull
                | ModeFloat \<Rightarrow> Inr (VFloat (sum_float a))
                | _ \<Rightarrow> Inr (VDecimal (dec_serialize L (sum_decimal a))))
      | Avg \<Rightarrow>
          if acc_count a = 0 then Inr VNull
          else (case numeric_mode a of
                  ModeNone \<Rightarrow> Inr VNull
                | ModeFloat \<Rightarrow> Inr (VFloat (f64_div (sum_float a) (f64_of_i64 (of_nat (acc_count a)))))
                | _ \<Rightarrow>
                    (case dec_checked_div L (sum_decimal a) (dec_of_i64 L (of_nat (acc_count a))) of
                       Some avg \<Rightarrow> Inr (VDecimal (dec_serialize L avg))
                     | None \<Rightarrow> Inl (EPanic ''Division overflowed'')))
      | Min \<Rightarrow> Inr (case acc_min a of Some v \<Rightarrow> v | None \<Rightarrow> VNull)
      | Max \<Rightarrow> Inr (case acc_max a of Some v \<Rightarrow> v | None \<Rightarrow> VNull))"

section \<open>When the order is total\<close>

definition is_float :: "Value \<Rightarrow> bool" where
  "is_float v = (case v of VFloat _ \<Rightarrow> True | _ \<Rightarrow> False)"

lemma type_priority_iff:
  "type_priority v = Suc 0 \<longleftrightarrow> (\<exists>b. v = VBool b)"
  "type_priority v = 2 \<longleftrightarrow> is_numeric v"
  "type_priority v = 3 \<longleftrightarrow> (\<exists>s. v = VString s)"
  by (cases v; simp add: type_priority_def is_numeric_def)+

lemma compare_type_order:
  "type_priority a < type_priority b \<Longrightarrow> compare_value_inner L a b = Less"
  "type_priority b < type_priority a \<Longrightarrow> compare_value_inner L a b = Greater"
  by (simp_all add: compare_value_inner_def Let_def cmp_def)

lemma compare_bools [simp]: "compare_value_inner L (VBool x) (VBool y) = cmp x y"
  and compare_strings [simp]: "compare_value_inner L (VString s) (VString t) = cmp s t"
  by (simp_all add: compare_value_inner_def type_priority_def is_numeric_def Let_def)

lemma compare_numeric:
  "is_numeric a \<Longrightarrow> is_numeric b \<Longrightarrow>
   compare_value_inner L a b = (case partial_cmp L a b of Some r \<Rightarrow> r | None \<Rightarrow> Equal)"
  by (cases a; cases b; simp add: is_numeric_def compare_value_inner_def type_priority_def Let_def)

lemma compare_other:
  assumes "type_priority a = type_priority b" "type_priority a \<notin> {1, 2, 3}"
  shows "compare_value_inner L a b = Equal"
  using assms by (cases a; simp add: type_priority_def; cases b; simp add: compare_value_inner_def
      type_priority_def is_numeric_def)

text \<open>It is enough to look at numbers.\<close>

lemma compare_comparator:
  assumes rev: "\<And>a b. a \<in> S \<Longrightarrow> b \<in> S \<Longrightarrow> is_numeric a \<Longrightarrow> is_numeric b \<Longrightarrow>
      compare_value_inner L b a = reverse (compare_value_inner L a b)"
    and trans: "\<And>a b x. a \<in> S \<Longrightarrow> b \<in> S \<Longrightarrow> x \<in> S \<Longrightarrow> is_numeric a \<Longrightarrow> is_numeric b \<Longrightarrow> is_numeric x \<Longrightarrow>
      compare_value_inner L a b \<noteq> Greater \<Longrightarrow> compare_value_inner L b x \<noteq> Greater \<Longrightarrow>
      compare_value_inner L a x \<noteq> Greater"
  shows "comparator_on S (compare_value_inner L)"
proof
  fix a b assume ab: "a \<in> S" "b \<in> S"
  show "compare_value_inner L b a = reverse (compare_value_inner L a b)"
  proof (cases "type_priority a = type_priority b")
    case True
    consider (b) x y where "a = VBool x" "b = VBool y" | (n) "is_numeric a" "is_numeric b"
      | (s) x y where "a = VString x" "b = VString y" | (o) "type_priority a \<notin> {1, 2, 3}"
      using type_priority_iff [of a] type_priority_iff [of b] True by auto
    then show ?thesis
    proof cases
      case n
      then show ?thesis using rev [OF ab] by blast
    next
      case o
      then show ?thesis using compare_other [OF True, of L] compare_other [of b a L] True by simp
    qed auto
  next
    case False
    then show ?thesis using compare_type_order [of a b L] compare_type_order [of b a L]
      by (cases "type_priority a" "type_priority b" rule: linorder_cases) auto
  qed
next
  fix a b x
  assume S: "a \<in> S" "b \<in> S" "x \<in> S"
    and le: "compare_value_inner L a b \<noteq> Greater" "compare_value_inner L b x \<noteq> Greater"
  have p: "type_priority a \<le> type_priority b" "type_priority b \<le> type_priority x"
    using le compare_type_order(2) not_le_imp_less by blast+
  show "compare_value_inner L a x \<noteq> Greater"
  proof (cases "type_priority a = type_priority x")
    case True
    then have eq: "type_priority a = type_priority b" "type_priority b = type_priority x" using p by auto
    consider (b) u v w where "a = VBool u" "b = VBool v" "x = VBool w"
      | (n) "is_numeric a" "is_numeric b" "is_numeric x"
      | (s) u v w where "a = VString u" "b = VString v" "x = VString w"
      | (o) "type_priority a \<notin> {1, 2, 3}"
      using type_priority_iff [of a] type_priority_iff [of b] type_priority_iff [of x] eq by auto
    then show ?thesis
    proof cases
      case n
      then show ?thesis using trans [OF S n le] by blast
    next
      case o
      then show ?thesis using compare_other [OF True, of L] by simp
    next
      case s
      then show ?thesis using le by (auto simp: not_less)
    next
      case b
      then show ?thesis using le by auto
    qed
  next
    case False
    then show ?thesis using p compare_type_order(1) [of a x L] by simp
  qed
qed


text \<open>Without floats the order is total, if \<open>rust_decimal\<close> orders decimals totally.\<close>

locale decimals =
  fixes L :: "'d libs"
  assumes order: "dec_order L"
begin

lemma dec_le_trans: "dec_cmp L a b \<noteq> Greater \<Longrightarrow> dec_cmp L b x \<noteq> Greater \<Longrightarrow> dec_cmp L a x \<noteq> Greater"
proof -
  have cong: "dec_cmp L p q = Equal \<Longrightarrow> dec_cmp L p r = dec_cmp L q r" for p q r
    using order unfolding dec_order_def by blast
  assume *: "dec_cmp L a b \<noteq> Greater" "dec_cmp L b x \<noteq> Greater"
  show ?thesis
  proof (cases "dec_cmp L a b")
    case Less
    show ?thesis
    proof (cases "dec_cmp L b x")
      case Less
      then show ?thesis using \<open>dec_cmp L a b = Less\<close> dec_cmp_trans [OF order, of a b x] by simp
    next
      case Equal
      then have "dec_cmp L x b = Equal" using dec_cmp_reverse [OF order, of x b] by simp
      then have "dec_cmp L x a = dec_cmp L b a" by (rule cong)
      then show ?thesis
        using Less dec_cmp_reverse [OF order, of a x] dec_cmp_reverse [OF order, of b a] by simp
    qed (use * in simp)
  next
    case Equal
    then show ?thesis using cong [of a b x] * by simp
  qed (use * in simp)
qed

lemma compare_by_decimal:
  assumes "is_numeric a" "is_numeric b" "\<not> is_float a" "\<not> is_float b"
  shows "compare_value_inner L a b = dec_cmp L (the (as_decimal L a)) (the (as_decimal L b))"
  using assms
  by (cases a; cases b; simp add: compare_numeric is_numeric_def is_float_def partial_cmp_def
      partial_cmp_numeric_def as_decimal_def dec_cmp_of_i64 [OF order])

end

sublocale decimals \<subseteq> exact: comparator_on "{v. \<not> is_float v}" "compare_value_inner L"
proof (rule compare_comparator)
  show "compare_value_inner L b a = reverse (compare_value_inner L a b)"
    if "a \<in> {v. \<not> is_float v}" "b \<in> {v. \<not> is_float v}" "is_numeric a" "is_numeric b" for a b
    using that compare_by_decimal [of a b] compare_by_decimal [of b a]
      dec_cmp_reverse [OF order, of "the (as_decimal L b)" "the (as_decimal L a)"] by simp
  show "compare_value_inner L a x \<noteq> Greater"
    if "a \<in> {v. \<not> is_float v}" "b \<in> {v. \<not> is_float v}" "x \<in> {v. \<not> is_float v}"
      "is_numeric a" "is_numeric b" "is_numeric x"
      "compare_value_inner L a b \<noteq> Greater" "compare_value_inner L b x \<noteq> Greater" for a b x
    using that dec_le_trans by (simp add: compare_by_decimal)
qed

interpretation int_decimals: decimals int_libs
  by unfold_locales (rule int_libs_order)

text \<open>Floats that are not NaN are ordered among themselves, whatever the library does.\<close>

definition float_or_other :: "Value set" where
  "float_or_other = {v. case v of VInt _ \<Rightarrow> False | VDecimal _ \<Rightarrow> False | VFloat f \<Rightarrow> \<not> is_nan f | _ \<Rightarrow> True}"

lemma compare_floats:
  "\<not> is_nan f \<Longrightarrow> \<not> is_nan g \<Longrightarrow> compare_value_inner L (VFloat f) (VFloat g) = cmp (f64_key f) (f64_key g)"
  by (simp add: compare_numeric is_numeric_def partial_cmp_def f64_partial_cmp_def)

lemma numeric_float: "v \<in> float_or_other \<Longrightarrow> is_numeric v \<Longrightarrow> \<exists>f. v = VFloat f \<and> \<not> is_nan f"
  by (cases v) (auto simp: float_or_other_def is_numeric_def)

interpretation floats: comparator_on float_or_other "compare_value_inner L" for L
proof (rule compare_comparator)
  show "compare_value_inner L b a = reverse (compare_value_inner L a b)"
    if "a \<in> float_or_other" "b \<in> float_or_other" "is_numeric a" "is_numeric b" for a b
    using numeric_float [OF that(1,3)] numeric_float [OF that(2,4)] by (auto simp: compare_floats)
  show "compare_value_inner L a x \<noteq> Greater"
    if "a \<in> float_or_other" "b \<in> float_or_other" "x \<in> float_or_other"
      "is_numeric a" "is_numeric b" "is_numeric x"
      "compare_value_inner L a b \<noteq> Greater" "compare_value_inner L b x \<noteq> Greater" for a b x
    using numeric_float [OF that(1,4)] numeric_float [OF that(2,5)] numeric_float [OF that(3,6)] that
    by (auto simp: compare_floats)
qed

text \<open>With floats and integers in one column the order of ORDER BY, MIN and MAX is not
  transitive: a float that \<open>rust_decimal\<close> cannot hold compares equal to every integer, so an
  integer is equal to both infinities while these are ordered. \<open>slice::sort_by\<close> then promises no
  order and may panic.\<close>

theorem mixed_order_not_transitive:
  assumes "dec_of_f64 L f64_infinity = None" "dec_of_f64 L f64_neg_infinity = None"
  shows "compare_value_inner L (VFloat f64_infinity) (VInt i) = Equal \<and>
    compare_value_inner L (VInt i) (VFloat f64_neg_infinity) = Equal \<and>
    compare_value_inner L (VFloat f64_infinity) (VFloat f64_neg_infinity) = Greater \<and>
    \<not> comparator_on UNIV (compare_value_inner L)"
proof (intro conjI)
  show a: "compare_value_inner L (VFloat f64_infinity) (VInt i) = Equal"
    and b: "compare_value_inner L (VInt i) (VFloat f64_neg_infinity) = Equal"
    using assms by (simp_all add: compare_numeric is_numeric_def partial_cmp_def partial_cmp_numeric_def as_decimal_def)
  show c: "compare_value_inner L (VFloat f64_infinity) (VFloat f64_neg_infinity) = Greater"
    by (simp add: compare_floats f64_infinity_def f64_neg_infinity_def is_nan_def f64_mag_def f64_inf_mag_def
        f64_key_def f64_neg_bit_def)
  show "\<not> comparator_on UNIV (compare_value_inner L)"
    using a b c comparator_on.trans [of UNIV "compare_value_inner L" "VFloat f64_infinity" "VInt i" "VFloat f64_neg_infinity"]
    by auto
qed

theorem mixed_order_not_transitive_witness:
  "\<not> comparator_on UNIV (compare_value_inner int_libs)"
  using mixed_order_not_transitive [of int_libs 0]
  by (simp add: int_libs_def is_finite_def f64_infinity_def f64_neg_infinity_def f64_mag_def f64_inf_mag_def)

section \<open>Aggregates of a column\<close>

text \<open>What an accumulator of a field sees of the rows.\<close>

fun feed_all :: "'d env \<Rightarrow> (Value \<Rightarrow> string) \<Rightarrow> Value option list \<Rightarrow> 'd accumulator \<Rightarrow> 'd accumulator eval_result" where
  "feed_all E dbg [] a = Inr a"
| "feed_all E dbg (v # vs) a = and_then (feed E dbg v a) (feed_all E dbg vs)"

definition non_null :: "Value option list \<Rightarrow> Value list" where
  "non_null vs = filter (\<lambda>v. v \<noteq> VNull) (List.map_filter id vs)"

lemma non_null_simps [simp]:
  "non_null [] = []"
  "non_null (None # vs) = non_null vs"
  "non_null (Some v # vs) = (if v = VNull then non_null vs else v # non_null vs)"
  by (simp_all add: non_null_def List.map_filter_def)

definition column :: "'d env \<Rightarrow> (Value \<Rightarrow> string) \<Rightarrow> AggregateFunction \<Rightarrow> bool \<Rightarrow> Value option list \<Rightarrow> Value eval_result" where
  "column E dbg f dist vs =
     and_then (feed_all E dbg vs (accumulator_new (env_libs E) f dist)) (acc_result (env_libs E))"

lemma feed_all_count:
  "acc_function a = Count \<Longrightarrow> \<not> acc_distinct a \<Longrightarrow>
   feed_all E dbg vs a = Inr (a\<lparr>acc_count := acc_count a + length (non_null vs)\<rparr>)"
proof (induction vs arbitrary: a)
  case (Cons v vs)
  show ?case
  proof (cases v)
    case (Some w)
    have "feed E dbg v a = Inr (if w = VNull then a else a\<lparr>acc_count := acc_count a + 1\<rparr>)"
      using Cons.prems Some by (cases w) (auto simp: feed_def feed_function_def)
    then show ?thesis using Cons Some by simp
  qed (use Cons in \<open>simp add: feed_def feed_function_def\<close>)
qed simp

lemma feed_all_count_distinct:
  "acc_function a = Count \<Longrightarrow> acc_distinct a \<Longrightarrow> distinct (distinct_values a) \<Longrightarrow>
   \<exists>a'. feed_all E dbg vs a = Inr a' \<and> acc_function a' = Count \<and> acc_distinct a' \<and>
     distinct (distinct_values a') \<and>
     set (distinct_values a') = set (distinct_values a) \<union> serialize_value E dbg ` set (non_null vs)"
proof (induction vs arbitrary: a)
  case (Cons v vs)
  show ?case
  proof (cases v)
    case (Some w)
    let ?k = "serialize_value E dbg w"
    have "\<exists>a1. feed E dbg v a = Inr a1 \<and> acc_function a1 = Count \<and> acc_distinct a1 \<and>
        distinct (distinct_values a1) \<and>
        set (distinct_values a1) = set (distinct_values a) \<union> (if w = VNull then {} else {?k})"
      using Cons.prems Some by (cases w) (auto simp: feed_def feed_function_def Let_def)
    then obtain a1 where a1: "feed E dbg v a = Inr a1" "acc_function a1 = Count" "acc_distinct a1"
        "distinct (distinct_values a1)"
        "set (distinct_values a1) = set (distinct_values a) \<union> (if w = VNull then {} else {?k})" by blast
    from Cons.IH [OF a1(2-4)] show ?thesis using a1 Some by auto
  qed (use Cons in \<open>simp add: feed_def\<close>)
qed auto

text \<open>The fold of MIN and MAX.\<close>

definition extremum :: "'d libs \<Rightarrow> ordering \<Rightarrow> Value list \<Rightarrow> Value option" where
  "extremum L w vs = (case vs of [] \<Rightarrow> None
     | m # ws \<Rightarrow> Some (foldl (\<lambda>m x. if compare_value_inner L x m = w then x else m) m ws))"

lemma extremum_Cons:
  "extremum L w (case m of Some v \<Rightarrow> v # x # vs | None \<Rightarrow> x # vs) =
   extremum L w ((case m of Some v \<Rightarrow> if compare_value_inner L x v = w then x else v | None \<Rightarrow> x) # vs)"
  by (cases m) (simp_all add: extremum_def)

lemma feed_all_min:
  "acc_function a = Min \<Longrightarrow> \<not> acc_distinct a \<Longrightarrow>
   feed_all E dbg vs a =
     Inr (a\<lparr>acc_min := extremum (env_libs E) Less (opt_list (acc_min a) @ non_null vs)\<rparr>)"
proof (induction vs arbitrary: a)
  case Nil
  then show ?case by (cases "acc_min a") (simp_all add: extremum_def opt_list_def)
next
  case (Cons v vs)
  show ?case
  proof (cases v)
    case None
    then show ?thesis using Cons by (simp add: feed_def feed_function_def)
  next
    case (Some w)
    then show ?thesis using Cons
      by (cases "acc_min a") (simp_all add: feed_def feed_function_def opt_list_def extremum_def)
  qed
qed

lemma feed_all_max:
  "acc_function a = Max \<Longrightarrow> \<not> acc_distinct a \<Longrightarrow>
   feed_all E dbg vs a =
     Inr (a\<lparr>acc_max := extremum (env_libs E) Greater (opt_list (acc_max a) @ non_null vs)\<rparr>)"
proof (induction vs arbitrary: a)
  case Nil
  then show ?case by (cases "acc_max a") (simp_all add: extremum_def opt_list_def)
next
  case (Cons v vs)
  show ?case
  proof (cases v)
    case None
    then show ?thesis using Cons by (simp add: feed_def feed_function_def)
  next
    case (Some w)
    then show ?thesis using Cons
      by (cases "acc_max a") (simp_all add: feed_def feed_function_def opt_list_def extremum_def)
  qed
qed

text \<open>COUNT and COUNT(DISTINCT) of a column are the number of its values that are neither
  missing nor null, and the number of their distinct keys; MIN and MAX are null for a column
  without values and otherwise one of its values, such that no other is smaller, respectively
  greater, on any set of values on which the order is total.\<close>

theorem count_min_max_correct:
  assumes "comparator_on S (compare_value_inner (env_libs E))" "set (non_null vs) \<subseteq> S"
  shows "column E dbg Count False vs = Inr (VInt (of_nat (length (non_null vs)))) \<and>
    column E dbg Count True vs = Inr (VInt (of_nat (card (serialize_value E dbg ` set (non_null vs))))) \<and>
    (\<exists>m. column E dbg Min False vs = Inr m \<and>
      (if non_null vs = [] then m = VNull
       else m \<in> set (non_null vs) \<and> (\<forall>x\<in>set (non_null vs). compare_value_inner (env_libs E) x m \<noteq> Less))) \<and>
    (\<exists>m. column E dbg Max False vs = Inr m \<and>
      (if non_null vs = [] then m = VNull
       else m \<in> set (non_null vs) \<and> (\<forall>x\<in>set (non_null vs). compare_value_inner (env_libs E) x m \<noteq> Greater)))"
proof (intro conjI)
  have ext: "\<exists>m. extremum (env_libs E) w (non_null vs) = (if non_null vs = [] then None else Some m) \<and>
      (non_null vs \<noteq> [] \<longrightarrow> m \<in> set (non_null vs) \<and> (\<forall>x\<in>set (non_null vs). compare_value_inner (env_libs E) x m \<noteq> w))"
    if "w \<noteq> Equal" for w
  proof (cases "non_null vs")
    case (Cons m ws)
    then show ?thesis
      using comparator_on.running_extremum [OF assms(1), of ws m w] assms(2) that
      by (auto simp: extremum_def)
  qed (simp add: extremum_def)
  show "column E dbg Count False vs = Inr (VInt (of_nat (length (non_null vs))))"
    by (simp add: column_def feed_all_count accumulator_new_def acc_result_def)
  show "column E dbg Count True vs = Inr (VInt (of_nat (card (serialize_value E dbg ` set (non_null vs)))))"
    using feed_all_count_distinct [of "accumulator_new (env_libs E) Count True" E dbg vs]
    by (auto simp: column_def accumulator_new_def acc_result_def dest: distinct_card [symmetric])
  show "\<exists>m. column E dbg Min False vs = Inr m \<and> (if non_null vs = [] then m = VNull
       else m \<in> set (non_null vs) \<and> (\<forall>x\<in>set (non_null vs). compare_value_inner (env_libs E) x m \<noteq> Less))"
    using ext [of Less]
    by (auto simp: column_def accumulator_new_def acc_result_def feed_all_min opt_list_def)
  show "\<exists>m. column E dbg Max False vs = Inr m \<and> (if non_null vs = [] then m = VNull
       else m \<in> set (non_null vs) \<and> (\<forall>x\<in>set (non_null vs). compare_value_inner (env_libs E) x m \<noteq> Greater))"
    using ext [of Greater]
    by (auto simp: column_def accumulator_new_def acc_result_def feed_all_max opt_list_def)
qed

theorem count_min_max_correct_witness:
  "column int_env (\<lambda>_. []) Count False [Some (VInt 3), None, Some VNull, Some (VInt 1)] = Inr (VInt 2)"
  using count_min_max_correct [of "{v. \<not> is_float v}" int_env "[Some (VInt 3), None, Some VNull, Some (VInt 1)]" "\<lambda>_. []"]
    int_decimals.exact.comparator_on_axioms
  by (simp add: is_float_def)

section \<open>Sums\<close>

text \<open>The integers among the decimals, and that \<open>rust_decimal\<close> adds them exactly or overflows.\<close>

definition dec_integers :: "'d libs \<Rightarrow> ('d \<Rightarrow> int option) \<Rightarrow> bool" where
  "dec_integers L val \<longleftrightarrow>
     val (dec_zero L) = Some 0 \<and> (\<forall>i. val (dec_of_i64 L i) = Some (sint i)) \<and>
     (\<forall>a b m n c. val a = Some m \<longrightarrow> val b = Some n \<longrightarrow> dec_checked_add L a b = Some c \<longrightarrow> val c = Some (m + n))"

lemma feed_all_sum:
  assumes "dec_integers (env_libs E) val"
    and "acc_function a = Sum" "\<not> acc_distinct a" "numeric_mode a \<in> {ModeNone, IntOnly}"
    and "val (sum_decimal a) = Some s" "numeric_mode a = ModeNone \<longleftrightarrow> acc_count a = 0"
    and "feed_all E dbg (map (\<lambda>i. Some (VInt i)) is) a = Inr a'"
  shows "acc_function a' = Sum \<and> val (sum_decimal a') = Some (s + sum_list (map sint is)) \<and>
    acc_count a' = acc_count a + length is \<and>
    numeric_mode a' = (if acc_count a' = 0 then ModeNone else IntOnly)"
  using assms(2-)
proof (induction "is" arbitrary: a s)
  case (Cons i "is")
  define L where "L = env_libs E"
  from Cons.prems(6) obtain a1 where a1: "feed E dbg (Some (VInt i)) a = Inr a1"
    and rest: "feed_all E dbg (map (\<lambda>i. Some (VInt i)) is) a1 = Inr a'"
    by (auto simp: and_then_Inr_iff)
  from a1 Cons.prems(1-5) have f: "dec_checked_add L (sum_decimal a) (dec_of_i64 L i) = Some (sum_decimal a1)"
    "acc_function a1 = Sum" "\<not> acc_distinct a1" "numeric_mode a1 = IntOnly" "acc_count a1 = acc_count a + 1"
    by (auto simp: feed_def feed_function_def feed_numeric_def dec_add_def L_def Let_def
        split: option.splits if_splits)
  have "val (sum_decimal a1) = Some (s + sint i)"
    using assms(1) Cons.prems(4) f(1) unfolding dec_integers_def L_def by blast
  then show ?case using Cons.IH [OF _ _ _ _ _ rest, of "s + sint i"] f by (simp add: add.assoc)
qed auto

text \<open>SUM over a column of integers is exact: the result is null for no rows, and otherwise a
  decimal whose value is the sum of the integers, however large; the only other outcome is the
  panic of a decimal overflow. \<open>rust_decimal\<close> is assumed to add integers exactly or to report an
  overflow.\<close>

theorem sum_of_integers_exact:
  assumes "dec_integers (env_libs E) val"
    and "column E dbg Sum False (map (\<lambda>i. Some (VInt i)) is) = Inr v"
  shows "if is = [] then v = VNull
    else \<exists>d. v = VDecimal (dec_serialize (env_libs E) d) \<and> val d = Some (sum_list (map sint is))"
proof -
  obtain a' where a': "feed_all E dbg (map (\<lambda>i. Some (VInt i)) is) (accumulator_new (env_libs E) Sum False) = Inr a'"
    "acc_result (env_libs E) a' = Inr v"
    using assms(2) by (auto simp: column_def and_then_Inr_iff)
  have "val (sum_decimal (accumulator_new (env_libs E) Sum False)) = Some 0"
    using assms(1) by (simp add: accumulator_new_def dec_integers_def)
  from feed_all_sum [OF assms(1) _ _ _ this _ a'(1)] a'(2)
  show ?thesis by (auto simp: accumulator_new_def acc_result_def)
qed

theorem sum_of_integers_exact_witness:
  "\<exists>v. column int_env (\<lambda>_. []) Sum False (map (\<lambda>i. Some (VInt i)) [2, 3]) = Inr v \<and>
     (\<exists>d. v = VDecimal (dec_serialize int_libs d) \<and> d = 5)"
proof -
  have d: "dec_integers (env_libs int_env) Some"
    by (auto simp: dec_integers_def int_libs_def int_checked_def split: if_splits)
  obtain v where v: "column int_env (\<lambda>_. []) Sum False (map (\<lambda>i. Some (VInt i)) [2, 3]) = Inr v"
    by (simp add: column_def accumulator_new_def feed_def feed_function_def feed_numeric_def dec_add_def
        int_libs_def int_checked_def acc_result_def int_env_def)
  then show ?thesis using sum_of_integers_exact [OF d v] by simp
qed

end
