(* ===== verification/Operators.thy ===== *)
theory Operators
  imports Accumulator "HOL-Library.Monad_Syntax"
begin

text \<open>
  The pull-based operators of \<open>query/execute/operators\<close>: \<open>in_memory_scan.rs\<close>, \<open>filter.rs\<close>,
  \<open>limit.rs\<close>, \<open>offset.rs\<close>, \<open>distinct.rs\<close>, \<open>value.rs\<close>, \<open>union.rs\<close>, \<open>sort.rs\<close>, \<open>aggregate.rs\<close>,
  \<open>group_aggregate.rs\<close> and \<open>collect_all\<close> of \<open>operator.rs\<close>.

  The trait \<open>Operator\<close> is the record \<open>opr\<close> of three functions on a state. A call returns the new
  state and a result; a call of \<open>open\<close> or \<open>next\<close> that does not return is \<open>None\<close>, since an operator
  may pull from an input that never ends. An operator that wraps another takes the record of
  its input as an argument, so that the boxed operators of a plan are composed as the code
  composes them. The relation \<open>produces\<close> is what a consumer observes: the rows up to the end or
  to an error. The locale \<open>operator\<close> is the contract of an operator, and the locales that
  extend it carry it over each wrapper.
\<close>

section \<open>Operator (operator.rs)\<close>

type_synonym ('s, 'a) call = "('s \<times> 'a eval_result) option"

record 's opr =
  op_open :: "'s \<Rightarrow> ('s, unit) call"
  op_next :: "'s \<Rightarrow> ('s, Row option) call"
  op_close :: "'s \<Rightarrow> 's \<times> unit eval_result"

text \<open>The loop of \<open>collect_all\<close>.\<close>

partial_function (option) collect_loop :: "'s opr \<Rightarrow> Row list \<Rightarrow> 's \<Rightarrow> ('s, Row list) call" where
  "collect_loop opr results s =
     Option.bind (op_next opr s) (\<lambda>(s', r).
       case r of
         Inl e \<Rightarrow> Some (s', Inl e)
       | Inr None \<Rightarrow> Some (s', Inr results)
       | Inr (Some row) \<Rightarrow> collect_loop opr (results @ [row]) s')"

definition collect_all :: "'s opr \<Rightarrow> 's \<Rightarrow> ('s, Row list) call" where
  "collect_all opr s =
     Option.bind (op_open opr s) (\<lambda>(s1, r1).
       case r1 of
         Inl e \<Rightarrow> Some (s1, Inl e)
       | Inr _ \<Rightarrow>
           Option.bind (collect_loop opr [] s1) (\<lambda>(s2, r2).
             case r2 of
               Inl e \<Rightarrow> Some (s2, Inl e)
             | Inr results \<Rightarrow>
                 (case op_close opr s2 of
                    (s3, Inl e) \<Rightarrow> Some (s3, Inl e)
                  | (s3, Inr _) \<Rightarrow> Some (s3, Inr results))))"

section \<open>In-memory scan (in\_memory\_scan.rs)\<close>

record scan_state =
  scan_rows :: "Row list"
  scan_position :: nat

definition scan_new :: "Row list \<Rightarrow> scan_state" where
  "scan_new rows = \<lparr>scan_rows = rows, scan_position = 0\<rparr>"

definition scan_op :: "scan_state opr" where
  "scan_op =
     \<lparr>op_open = (\<lambda>s. Some (s\<lparr>scan_position := 0\<rparr>, Inr ())),
      op_next = (\<lambda>s. if scan_position s < length (scan_rows s)
                     then Some (s\<lparr>scan_position := scan_position s + 1\<rparr>,
                                Inr (Some (scan_rows s ! scan_position s)))
                     else Some (s, Inr None)),
      op_close = (\<lambda>s. (s, Inr ()))\<rparr>"

section \<open>Filter (filter.rs)\<close>

partial_function (option) filter_next :: "'d env \<Rightarrow> 'q Expr \<Rightarrow> 's opr \<Rightarrow> 's \<Rightarrow> ('s, Row option) call" where
  "filter_next E predicate input s =
     Option.bind (op_next input s) (\<lambda>(s', r).
       case r of
         Inl e \<Rightarrow> Some (s', Inl e)
       | Inr None \<Rightarrow> Some (s', Inr None)
       | Inr (Some row) \<Rightarrow>
           (case eval_filter E predicate row of
              Inl e \<Rightarrow> Some (s', Inl e)
            | Inr b \<Rightarrow> if b then Some (s', Inr (Some row)) else filter_next E predicate input s'))"

definition filter_op :: "'d env \<Rightarrow> 'q Expr \<Rightarrow> 's opr \<Rightarrow> 's opr" where
  "filter_op E predicate input =
     \<lparr>op_open = op_open input, op_next = filter_next E predicate input, op_close = op_close input\<rparr>"

section \<open>Limit (limit.rs)\<close>

record 's limit_state =
  limit_input :: 's
  limit_count :: nat

definition on_input :: "('s \<Rightarrow> 't) \<Rightarrow> 's \<times> 'a \<Rightarrow> 't \<times> 'a" where
  "on_input f r = (f (fst r), snd r)"

definition limit_op :: "nat \<Rightarrow> 's opr \<Rightarrow> 's limit_state opr" where
  "limit_op limit input =
     \<lparr>op_open = (\<lambda>s. let s = s\<lparr>limit_count := 0\<rparr>
                     in map_option (on_input (\<lambda>i. s\<lparr>limit_input := i\<rparr>)) (op_open input (limit_input s))),
      op_next = (\<lambda>s. if limit_count s \<ge> limit then Some (s, Inr None)
                     else Option.bind (op_next input (limit_input s)) (\<lambda>(i, r).
                       case r of
                         Inr (Some row) \<Rightarrow>
                           Some (s\<lparr>limit_input := i, limit_count := limit_count s + 1\<rparr>, Inr (Some row))
                       | _ \<Rightarrow> Some (s\<lparr>limit_input := i\<rparr>, r))),
      op_close = (\<lambda>s. on_input (\<lambda>i. s\<lparr>limit_input := i\<rparr>) (op_close input (limit_input s)))\<rparr>"

section \<open>Offset (offset.rs)\<close>

record 's offset_state =
  offset_input :: 's
  offset_skipped :: nat

text \<open>The skipping loop; it runs at most \<open>n\<close> more times. \<open>Inr False\<close>: the input ended.\<close>

fun offset_skip :: "'s opr \<Rightarrow> nat \<Rightarrow> 's offset_state \<Rightarrow> ('s offset_state, bool) call" where
  "offset_skip input 0 s = Some (s, Inr True)"
| "offset_skip input (Suc n) s =
     Option.bind (op_next input (offset_input s)) (\<lambda>(i, r).
       case r of
         Inl e \<Rightarrow> Some (s\<lparr>offset_input := i\<rparr>, Inl e)
       | Inr None \<Rightarrow> Some (s\<lparr>offset_input := i\<rparr>, Inr False)
       | Inr (Some _) \<Rightarrow>
           offset_skip input n (s\<lparr>offset_input := i, offset_skipped := offset_skipped s + 1\<rparr>))"

definition offset_op :: "nat \<Rightarrow> 's opr \<Rightarrow> 's offset_state opr" where
  "offset_op offset input =
     \<lparr>op_open = (\<lambda>s. let s = s\<lparr>offset_skipped := 0\<rparr>
                     in map_option (on_input (\<lambda>i. s\<lparr>offset_input := i\<rparr>)) (op_open input (offset_input s))),
      op_next = (\<lambda>s.
        Option.bind (offset_skip input (offset - offset_skipped s) s) (\<lambda>(s', r).
          case r of
            Inl e \<Rightarrow> Some (s', Inl e)
          | Inr False \<Rightarrow> Some (s', Inr None)
          | Inr True \<Rightarrow>
              map_option (on_input (\<lambda>i. s'\<lparr>offset_input := i\<rparr>)) (op_next input (offset_input s')))),
      op_close = (\<lambda>s. on_input (\<lambda>i. s\<lparr>offset_input := i\<rparr>) (op_close input (offset_input s)))\<rparr>"

section \<open>Distinct (distinct.rs) and value (value.rs)\<close>

record 's seen_state =
  seen_input :: 's
  seen :: "string set"
  seen_opened :: bool

definition row_key :: "'d env \<Rightarrow> (Value \<Rightarrow> string) \<Rightarrow> Row \<Rightarrow> string" where
  "row_key E dbg row =
     (case scalar_value row of
        Some sc \<Rightarrow> ''$scalar:'' @ serialize_value E dbg sc
      | None \<Rightarrow>
          intersperse_str ''|''
            (map (\<lambda>k. k @ '':'' @ serialize_value E dbg (the (hm_get (doc_fields (row_doc row)) k)))
               (sort (hm_keys (doc_fields (row_doc row))))))"

text \<open>Both operators pull until a row with a new key; \<open>f\<close> turns an input row into the key that
  must be new, if any, and the output row.\<close>

partial_function (option) seen_next ::
  "(Row \<Rightarrow> (string option \<times> Row) eval_result) \<Rightarrow> 's opr \<Rightarrow> 's seen_state \<Rightarrow> ('s seen_state, Row option) call" where
  "seen_next f input s =
     Option.bind (op_next input (seen_input s)) (\<lambda>(i, r).
       case r of
         Inl e \<Rightarrow> Some (s\<lparr>seen_input := i\<rparr>, Inl e)
       | Inr None \<Rightarrow> Some (s\<lparr>seen_input := i\<rparr>, Inr None)
       | Inr (Some row) \<Rightarrow>
           (case f row of
              Inl e \<Rightarrow> Some (s\<lparr>seen_input := i\<rparr>, Inl e)
            | Inr (None, out) \<Rightarrow> Some (s\<lparr>seen_input := i\<rparr>, Inr (Some out))
            | Inr (Some k, out) \<Rightarrow>
                if k \<in> seen s then seen_next f input (s\<lparr>seen_input := i\<rparr>)
                else Some (s\<lparr>seen_input := i, seen := insert k (seen s)\<rparr>, Inr (Some out))))"

definition seen_op :: "(Row \<Rightarrow> (string option \<times> Row) eval_result) \<Rightarrow> 's opr \<Rightarrow> 's seen_state opr" where
  "seen_op f input =
     \<lparr>op_open = (\<lambda>s. Option.bind (op_open input (seen_input s)) (\<lambda>(i, r).
        case r of
          Inl e \<Rightarrow> Some (s\<lparr>seen_input := i\<rparr>, Inl e)
        | Inr _ \<Rightarrow> Some (s\<lparr>seen_input := i, seen := {}, seen_opened := True\<rparr>, Inr ()))),
      op_next = seen_next f input,
      op_close = (\<lambda>s. on_input (\<lambda>i. s\<lparr>seen_input := i, seen := {}, seen_opened := False\<rparr>)
                        (op_close input (seen_input s)))\<rparr>"

definition distinct_op :: "'d env \<Rightarrow> (Value \<Rightarrow> string) \<Rightarrow> 's opr \<Rightarrow> 's seen_state opr" where
  "distinct_op E dbg = seen_op (\<lambda>row. Inr (Some (row_key E dbg row), row))"

definition value_op ::
  "'d env \<Rightarrow> (Value \<Rightarrow> string) \<Rightarrow> 'q Expr \<Rightarrow> bool \<Rightarrow> VarScope option \<Rightarrow> 's opr \<Rightarrow> 's seen_state opr" where
  "value_op E dbg e dist vars =
     seen_op (\<lambda>row. and_then (eval_expr E e row vars) (\<lambda>v.
       Inr (if dist then Some (serialize_value E dbg v) else None, row_scalar v)))"

section \<open>Union (union.rs)\<close>

text \<open>The inputs are boxed operators: states of one type with one table of functions.\<close>

record 's union_state =
  union_inputs :: "'s list"
  union_current :: nat
  union_seen_ids :: "string set option"

definition union_new :: "'s list \<Rightarrow> bool \<Rightarrow> 's union_state" where
  "union_new inputs needs_dedup =
     \<lparr>union_inputs = inputs, union_current = 0,
      union_seen_ids = (if needs_dedup then Some {} else None)\<rparr>"

text \<open>A loop of calls each followed by \<open>?\<close> over the inputs; those after an error are untouched.\<close>

fun try_each :: "('s \<Rightarrow> ('s, unit) call) \<Rightarrow> 's list \<Rightarrow> ('s list, unit) call" where
  "try_each f [] = Some ([], Inr ())"
| "try_each f (x # xs) =
     Option.bind (f x) (\<lambda>(x', r).
       case r of
         Inl e \<Rightarrow> Some (x' # xs, Inl e)
       | Inr _ \<Rightarrow> map_option (on_input (\<lambda>xs'. x' # xs')) (try_each f xs))"

partial_function (option) union_next :: "'s opr \<Rightarrow> 's union_state \<Rightarrow> ('s union_state, Row option) call" where
  "union_next input s =
     (if union_current s \<ge> length (union_inputs s) then Some (s, Inr None)
      else Option.bind (op_next input (union_inputs s ! union_current s)) (\<lambda>(i, r).
        let s = s\<lparr>union_inputs := (union_inputs s)[union_current s := i]\<rparr>
        in case r of
             Inl e \<Rightarrow> Some (s, Inl e)
           | Inr (Some row) \<Rightarrow>
               (case union_seen_ids s of
                  Some ids \<Rightarrow>
                    if doc_id (row_doc row) \<in> ids then union_next input s
                    else Some (s\<lparr>union_seen_ids := Some (insert (doc_id (row_doc row)) ids)\<rparr>, Inr (Some row))
                | None \<Rightarrow> Some (s, Inr (Some row)))
           | Inr None \<Rightarrow> union_next input (s\<lparr>union_current := union_current s + 1\<rparr>)))"

definition union_op :: "'s opr \<Rightarrow> 's union_state opr" where
  "union_op input =
     \<lparr>op_open = (\<lambda>s. Option.bind (try_each (op_open input) (union_inputs s)) (\<lambda>(is, r).
        case r of
          Inl e \<Rightarrow> Some (s\<lparr>union_inputs := is\<rparr>, Inl e)
        | Inr _ \<Rightarrow> Some (s\<lparr>union_inputs := is, union_current := 0\<rparr>, Inr ()))),
      op_next = union_next input,
      op_close = (\<lambda>s.
        case the (try_each (\<lambda>i. Some (op_close input i)) (union_inputs s)) of
          (is, Inl e) \<Rightarrow> (s\<lparr>union_inputs := is\<rparr>, Inl e)
        | (is, Inr _) \<Rightarrow> (s\<lparr>union_inputs := is, union_seen_ids := None\<rparr>, Inr ()))\<rparr>"

section \<open>Operators that buffer their input\<close>

text \<open>\<open>while let Some(row) = self.input.next()? { ... }\<close> with a body that updates a buffer.\<close>

partial_function (option) pull_all ::
  "(Row \<Rightarrow> 'b \<Rightarrow> 'b \<times> unit eval_result) \<Rightarrow> 's opr \<Rightarrow> 's \<Rightarrow> 'b \<Rightarrow> ('s \<times> 'b, unit) call" where
  "pull_all body input s b =
     Option.bind (op_next input s) (\<lambda>(s', r).
       case r of
         Inl e \<Rightarrow> Some ((s', b), Inl e)
       | Inr None \<Rightarrow> Some ((s', b), Inr ())
       | Inr (Some row) \<Rightarrow>
           (case body row b of
              (b', Inl e) \<Rightarrow> Some ((s', b'), Inl e)
            | (b', Inr _) \<Rightarrow> pull_all body input s' b'))"

text \<open>\<open>open\<close> of an operator that reads all of its input: open the input, run the loop on the buffer
  \<open>b\<close>, and finish. \<open>put\<close> stores the input's new state, \<open>keep\<close> also the buffer of a failed loop, and
  \<open>fill\<close> the finished result.\<close>

definition buffered_open ::
  "('t \<Rightarrow> 's) \<Rightarrow> ('t \<Rightarrow> 's \<Rightarrow> 't) \<Rightarrow> ('t \<Rightarrow> 's \<Rightarrow> 'b \<Rightarrow> 't) \<Rightarrow> ('t \<Rightarrow> 's \<Rightarrow> 'v \<Rightarrow> 't) \<Rightarrow>
   (Row \<Rightarrow> 'b \<Rightarrow> 'b \<times> unit eval_result) \<Rightarrow> ('b \<Rightarrow> 'v eval_result) \<Rightarrow> 's opr \<Rightarrow> 'b \<Rightarrow> 't \<Rightarrow> ('t, unit) call" where
  "buffered_open get put keep fill body finish input b s =
     Option.bind (op_open input (get s)) (\<lambda>(i, r).
       case r of
         Inl e \<Rightarrow> Some (put s i, Inl e)
       | Inr _ \<Rightarrow>
           Option.bind (pull_all body input i b) (\<lambda>((i', b'), r).
             case and_then r (\<lambda>_. finish b') of
               Inl e \<Rightarrow> Some (keep s i' b', Inl e)
             | Inr v \<Rightarrow> Some (fill s i' v, Inr ())))"

text \<open>Reading a buffer by position.\<close>

definition buffer_next :: "('t \<Rightarrow> Row list) \<Rightarrow> ('t \<Rightarrow> nat) \<Rightarrow> ('t \<Rightarrow> 't) \<Rightarrow> 't \<Rightarrow> ('t, Row option) call" where
  "buffer_next rows pos advance s =
     (if pos s < length (rows s) then Some (advance s, Inr (Some (rows s ! pos s))) else Some (s, Inr None))"

subsection \<open>Sort (sort.rs)\<close>

record 'q OrderItem =
  order_expr :: "'q Expr"
  order_direction :: OrderDirection

definition compare_keys :: "'d libs \<Rightarrow> Value list \<Rightarrow> Value list \<Rightarrow> OrderDirection list \<Rightarrow> ordering" where
  "compare_keys L a b directions = lex_keys (\<lambda>x y. compare_values L (Some x) (Some y)) a b directions"

record 's sort_state =
  sort_input :: 's
  sort_buffer :: "(Row \<times> Value list) list"
  sort_index :: nat
  sort_opened :: bool

definition sort_new :: "'s \<Rightarrow> 's sort_state" where
  "sort_new i = \<lparr>sort_input = i, sort_buffer = [], sort_index = 0, sort_opened = False\<rparr>"

definition sort_keys :: "'d env \<Rightarrow> 'q OrderItem list \<Rightarrow> VarScope option \<Rightarrow> Row \<Rightarrow> Value list eval_result" where
  "sort_keys E items vars row = collect_results (\<lambda>item. eval_expr E (order_expr item) row vars) items"

definition sort_push ::
  "'d env \<Rightarrow> 'q OrderItem list \<Rightarrow> VarScope option \<Rightarrow> Row \<Rightarrow> (Row \<times> Value list) list \<Rightarrow>
   (Row \<times> Value list) list \<times> unit eval_result" where
  "sort_push E items vars row buffer =
     (case sort_keys E items vars row of
        Inl e \<Rightarrow> (buffer, Inl e)
      | Inr keys \<Rightarrow> (buffer @ [(row, keys)], Inr ()))"

definition sort_op :: "'d env \<Rightarrow> 'q OrderItem list \<Rightarrow> VarScope option \<Rightarrow> 's opr \<Rightarrow> 's sort_state opr" where
  "sort_op E items vars input =
     \<lparr>op_open = (\<lambda>s. buffered_open sort_input (\<lambda>s i. s\<lparr>sort_input := i\<rparr>)
        (\<lambda>s i buffer. s\<lparr>sort_input := i, sort_buffer := buffer\<rparr>)
        (\<lambda>s i buffer. s\<lparr>sort_input := i, sort_buffer := buffer, sort_opened := True, sort_index := 0\<rparr>)
        (sort_push E items vars)
        (\<lambda>buffer. Inr (sort_by (\<lambda>a b. compare_keys (env_libs E) (snd a) (snd b)
                                (map order_direction items)) buffer))
        input (sort_buffer s) s),
      op_next = buffer_next (\<lambda>s. map fst (sort_buffer s)) sort_index (\<lambda>s. s\<lparr>sort_index := sort_index s + 1\<rparr>),
      op_close = (\<lambda>s. on_input (\<lambda>i. s\<lparr>sort_input := i, sort_buffer := [], sort_index := 0, sort_opened := False\<rparr>)
                        (op_close input (sort_input s)))\<rparr>"

subsection \<open>Aggregates (aggregate.rs)\<close>

record ResolvedAggregate =
  ra_function :: AggregateFunction
  ra_arg :: AggregateArg
  ra_alias :: string
  ra_distinct :: bool

definition feed_agg ::
  "'d env \<Rightarrow> (Value \<Rightarrow> string) \<Rightarrow> Row \<Rightarrow> ResolvedAggregate \<Rightarrow> 'd accumulator \<Rightarrow> 'd accumulator eval_result" where
  "feed_agg E dbg row agg acc =
     (case ra_arg agg of
        Wildcard \<Rightarrow> Inr (feed_wildcard acc)
      | AggField f \<Rightarrow> feed E dbg (row_get_field row f) acc)"

fun feed_accs ::
  "'d env \<Rightarrow> (Value \<Rightarrow> string) \<Rightarrow> Row \<Rightarrow> ResolvedAggregate list \<Rightarrow> 'd accumulator list \<Rightarrow>
   'd accumulator list eval_result" where
  "feed_accs E dbg row (agg # aggs) (acc # accs) =
     and_then (feed_agg E dbg row agg acc) (\<lambda>acc'.
       and_then (feed_accs E dbg row aggs accs) (\<lambda>accs'. Inr (acc' # accs')))"
| "feed_accs E dbg row _ accs = Inr accs"

definition new_accs :: "'d libs \<Rightarrow> ResolvedAggregate list \<Rightarrow> 'd accumulator list" where
  "new_accs L aggs = map (\<lambda>a. accumulator_new L (ra_function a) (ra_distinct a)) aggs"

fun insert_results ::
  "'d libs \<Rightarrow> ResolvedAggregate list \<Rightarrow> 'd accumulator list \<Rightarrow> fields \<Rightarrow> fields eval_result" where
  "insert_results L (agg # aggs) (acc # accs) fs =
     and_then (acc_result L acc) (\<lambda>v. insert_results L aggs accs (hm_insert (ra_alias agg) v fs))"
| "insert_results L _ _ fs = Inr fs"

record 's aggregate_state =
  aggregate_input :: 's
  aggregate_result :: "Row option"
  aggregate_returned :: bool

definition aggregate_new :: "'s \<Rightarrow> 's aggregate_state" where
  "aggregate_new i = \<lparr>aggregate_input = i, aggregate_result = None, aggregate_returned = False\<rparr>"

text \<open>A body that may fail and keeps the buffer when it does.\<close>

definition or_keep :: "('b \<Rightarrow> 'b eval_result) \<Rightarrow> 'b \<Rightarrow> 'b \<times> unit eval_result" where
  "or_keep f b = (case f b of Inl e \<Rightarrow> (b, Inl e) | Inr b' \<Rightarrow> (b', Inr ()))"

definition result_row :: "fields \<Rightarrow> Row" where
  "result_row fs = from_doc \<lparr>doc_id = [], doc_fields = fs\<rparr>"

definition aggregate_op ::
  "'d env \<Rightarrow> (Value \<Rightarrow> string) \<Rightarrow> ResolvedAggregate list \<Rightarrow> 's opr \<Rightarrow> 's aggregate_state opr" where
  "aggregate_op E dbg aggs input =
     \<lparr>op_open = buffered_open aggregate_input (\<lambda>s i. s\<lparr>aggregate_input := i\<rparr>)
        (\<lambda>s i accs. s\<lparr>aggregate_input := i\<rparr>)
        (\<lambda>s i fs. s\<lparr>aggregate_input := i, aggregate_result := Some (result_row fs), aggregate_returned := False\<rparr>)
        (\<lambda>row. or_keep (feed_accs E dbg row aggs))
        (\<lambda>accs. insert_results (env_libs E) aggs accs [])
        input (new_accs (env_libs E) aggs),
      op_next = (\<lambda>s. if aggregate_returned s then Some (s, Inr None)
                     else Some (s\<lparr>aggregate_returned := True, aggregate_result := None\<rparr>, Inr (aggregate_result s))),
      op_close = (\<lambda>s. on_input (\<lambda>i. s\<lparr>aggregate_input := i, aggregate_result := None, aggregate_returned := False\<rparr>)
                        (op_close input (aggregate_input s)))\<rparr>"

subsection \<open>Groups (group\_aggregate.rs)\<close>

definition group_key :: "'d env \<Rightarrow> (Value \<Rightarrow> string) \<Rightarrow> Value list \<Rightarrow> string" where
  "group_key E dbg values = intersperse_str ''|'' (map (serialize_value E dbg) values)"

type_synonym 'd groups = "(string, Value list \<times> 'd accumulator list) hashmap \<times> string list"

definition group_values :: "string list \<Rightarrow> Row \<Rightarrow> Value list" where
  "group_values group_fields row =
     map (\<lambda>f. case row_get_field row f of Some v \<Rightarrow> v | None \<Rightarrow> VNull) group_fields"

definition group_row ::
  "'d env \<Rightarrow> (Value \<Rightarrow> string) \<Rightarrow> string list \<Rightarrow> ResolvedAggregate list \<Rightarrow> Row \<Rightarrow> 'd groups \<Rightarrow> 'd groups eval_result" where
  "group_row E dbg group_fields aggs row gs =
     (case gs of (groups, order) \<Rightarrow>
        (let key_values = group_values group_fields row;
             key_str = group_key E dbg key_values;
             ((vals, accs), order') =
               (case hm_get groups key_str of
                  Some entry \<Rightarrow> (entry, order)
                | None \<Rightarrow> ((key_values, new_accs (env_libs E) aggs), order @ [key_str]))
         in and_then (feed_accs E dbg row aggs accs) (\<lambda>accs'.
              Inr (hm_insert key_str (vals, accs') groups, order'))))"

fun insert_all :: "(string \<times> Value) list \<Rightarrow> fields \<Rightarrow> fields" where
  "insert_all [] fs = fs"
| "insert_all ((k, v) # kvs) fs = insert_all kvs (hm_insert k v fs)"

fun emit_groups ::
  "'d libs \<Rightarrow> string list \<Rightarrow> ResolvedAggregate list \<Rightarrow> 'd groups \<Rightarrow> Row list eval_result" where
  "emit_groups L group_fields aggs (groups, []) = Inr []"
| "emit_groups L group_fields aggs (groups, key_str # order) =
     (case hm_get groups key_str of
        None \<Rightarrow> Inl (EPanic ''group key from order must exist in groups map'')
      | Some (key_values, accs) \<Rightarrow>
          and_then (insert_results L aggs accs (insert_all (zip group_fields key_values) [])) (\<lambda>fs.
            and_then (emit_groups L group_fields aggs (hm_remove key_str groups, order)) (\<lambda>rows.
              Inr (result_row fs # rows))))"

record 's group_state =
  group_input :: 's
  group_results :: "Row list"
  group_position :: nat

definition group_new :: "'s \<Rightarrow> 's group_state" where
  "group_new i = \<lparr>group_input = i, group_results = [], group_position = 0\<rparr>"

definition group_op ::
  "'d env \<Rightarrow> (Value \<Rightarrow> string) \<Rightarrow> string list \<Rightarrow> ResolvedAggregate list \<Rightarrow> 's opr \<Rightarrow> 's group_state opr" where
  "group_op E dbg group_fields aggs input =
     \<lparr>op_open = buffered_open group_input (\<lambda>s i. s\<lparr>group_input := i\<rparr>)
        (\<lambda>s i gs. s\<lparr>group_input := i\<rparr>)
        (\<lambda>s i rows. s\<lparr>group_input := i, group_results := rows, group_position := 0\<rparr>)
        (\<lambda>row. or_keep (group_row E dbg group_fields aggs row))
        (emit_groups (env_libs E) group_fields aggs)
        input ([], []),
      op_next = buffer_next group_results group_position (\<lambda>s. s\<lparr>group_position := group_position s + 1\<rparr>),
      op_close = (\<lambda>s. on_input (\<lambda>i. s\<lparr>group_input := i, group_results := [], group_position := 0\<rparr>)
                        (op_close input (group_input s)))\<rparr>"

section \<open>The contract of an operator\<close>

inductive produces :: "'s opr \<Rightarrow> 's \<Rightarrow> Row list \<Rightarrow> ExecuteError option \<Rightarrow> bool" for opr where
  at_end: "op_next opr s = Some (s', Inr None) \<Longrightarrow> produces opr s [] None"
| at_error: "op_next opr s = Some (s', Inl e) \<Longrightarrow> produces opr s [] (Some e)"
| at_row: "op_next opr s = Some (s', Inr (Some row)) \<Longrightarrow> produces opr s' rows fin \<Longrightarrow>
    produces opr s (row # rows) fin"

inductive_cases produces_NilE: "produces opr s [] fin"
inductive_cases produces_ConsE: "produces opr s (row # rows) fin"

lemma produces_skip:
  "produces opr s' rows fin \<Longrightarrow> op_next opr s = op_next opr s' \<Longrightarrow> produces opr s rows fin"
  by (cases rule: produces.cases) (auto intro: produces.intros)

text \<open>What \<open>collect_all\<close> makes of it; \<open>Inl\<close> is an error of \<open>open\<close>.\<close>

definition outcome :: "(Row list \<times> ExecuteError option) eval_result \<Rightarrow> Row list eval_result" where
  "outcome r = and_then r (\<lambda>(rows, fin). case fin of None \<Rightarrow> Inr rows | Some e \<Rightarrow> Inl e)"

lemma produces_collect_loop:
  "produces opr s rows fin \<Longrightarrow>
   \<exists>s'. collect_loop opr acc s = Some (s', outcome (Inr (acc @ rows, fin)))"
proof (induction arbitrary: acc rule: produces.induct)
  case (at_end s s')
  then show ?case by (subst collect_loop.simps) (simp add: outcome_def)
next
  case (at_error s s' e)
  then show ?case by (subst collect_loop.simps) (simp add: outcome_def)
next
  case (at_row s s' row rows fin)
  then show ?case by (subst collect_loop.simps) (simp add: at_row.IH [of "acc @ [row]", simplified])
qed

text \<open>What an operator promises: \<open>ready\<close> are the states it may be opened in, and \<open>out\<close> is the error
  that opening reports, or the rows that follow and the error they may end with.\<close>

locale operator =
  fixes opr :: "'s opr" and ready :: "'s \<Rightarrow> bool" and out :: "'s \<Rightarrow> (Row list \<times> ExecuteError option) eval_result"
  assumes fails: "ready s \<Longrightarrow> out s = Inl e \<Longrightarrow> \<exists>s'. op_open opr s = Some (s', Inl e)"
    and opens: "ready s \<Longrightarrow> out s = Inr (rows, fin) \<Longrightarrow>
      \<exists>s'. op_open opr s = Some (s', Inr ()) \<and> produces opr s' rows fin"
    and closes: "\<exists>s'. op_close opr s = (s', Inr ())"
begin

lemma collects: "ready s \<Longrightarrow> \<exists>s'. collect_all opr s = Some (s', outcome (out s))"
proof (cases "out s")
  case (Inl e)
  assume "ready s"
  then show ?thesis using fails [OF _ Inl] Inl by (auto simp: collect_all_def outcome_def)
next
  case (Inr r)
  obtain rows fin where r: "out s = Inr (rows, fin)" using Inr by (cases r) auto
  assume "ready s"
  then obtain s1 where s1: "op_open opr s = Some (s1, Inr ())" "produces opr s1 rows fin"
    using opens [OF _ r] by blast
  obtain s2 where "collect_loop opr [] s1 = Some (s2, outcome (out s))"
    using produces_collect_loop [OF s1(2), of "[]"] r by auto
  moreover obtain s3 where "op_close opr s2 = (s3, Inr ())" using closes by blast
  ultimately show ?thesis using s1 by (simp add: collect_all_def split: sum.splits)
qed

end

text \<open>A wrapper that changes the rows and not how its input opens.\<close>

definition on_rows :: "(Row list \<times> ExecuteError option \<Rightarrow> Row list \<times> ExecuteError option) \<Rightarrow>
  (Row list \<times> ExecuteError option) eval_result \<Rightarrow> (Row list \<times> ExecuteError option) eval_result" where
  "on_rows f r = and_then r (\<lambda>x. Inr (f x))"

lemma on_rows_eq:
  "on_rows f r = Inl e \<longleftrightarrow> r = Inl e"
  "on_rows f r = Inr (rows, fin) \<longleftrightarrow> (\<exists>rows' fin'. r = Inr (rows', fin') \<and> f (rows', fin') = (rows, fin))"
  by (cases r; auto simp: on_rows_def)+

subsection \<open>Scan\<close>

lemma scan_produces:
  "n = length (scan_rows s) - scan_position s \<Longrightarrow> produces scan_op s (drop (scan_position s) (scan_rows s)) None"
proof (induction n arbitrary: s)
  case 0
  then show ?case by (auto simp: scan_op_def intro!: at_end)
next
  case (Suc n)
  then have l: "scan_position s < length (scan_rows s)" by simp
  have "produces scan_op (s\<lparr>scan_position := scan_position s + 1\<rparr>) (drop (Suc (scan_position s)) (scan_rows s)) None"
    using Suc.IH [of "s\<lparr>scan_position := scan_position s + 1\<rparr>"] Suc.prems by simp
  then show ?case using l
    by (simp add: Cons_nth_drop_Suc [symmetric]) (auto simp: scan_op_def intro!: at_row)
qed

definition scan_out :: "scan_state \<Rightarrow> (Row list \<times> ExecuteError option) eval_result" where
  "scan_out s = Inr (scan_rows s, None)"

interpretation scan: operator scan_op "\<lambda>_. True" scan_out
proof
  fix s :: scan_state and rows fin
  assume "scan_out s = Inr (rows, fin)"
  then show "\<exists>s'. op_open scan_op s = Some (s', Inr ()) \<and> produces scan_op s' rows fin"
    using scan_produces [OF refl, of "s\<lparr>scan_position := 0\<rparr>"] by (auto simp: scan_op_def scan_out_def)
qed (simp_all add: scan_op_def scan_out_def)

subsection \<open>Filter\<close>

fun filter_out :: "'d env \<Rightarrow> 'q Expr \<Rightarrow> Row list \<times> ExecuteError option \<Rightarrow> Row list \<times> ExecuteError option" where
  "filter_out E p ([], fin) = ([], fin)"
| "filter_out E p (row # rows, fin) =
     (case eval_filter E p row of
        Inl e \<Rightarrow> ([], Some e)
      | Inr b \<Rightarrow> (case filter_out E p (rows, fin) of (rows', fin') \<Rightarrow> (if b then row # rows' else rows', fin')))"

lemma filter_op_simps [simp]:
  "op_open (filter_op E p i) = op_open i" "op_next (filter_op E p i) = filter_next E p i"
  "op_close (filter_op E p i) = op_close i"
  by (simp_all add: filter_op_def)

lemma filter_produces:
  "produces input s rows fin \<Longrightarrow>
   produces (filter_op E p input) s (fst (filter_out E p (rows, fin))) (snd (filter_out E p (rows, fin)))"
proof (induction rule: produces.induct)
  case (at_end s s')
  then show ?case by (auto simp: filter_next.simps [of E p input s] intro!: produces.at_end)
next
  case (at_error s s' e)
  then show ?case by (auto simp: filter_next.simps [of E p input s] intro!: produces.at_error)
next
  case (at_row s s' row rows fin)
  show ?case
  proof (cases "eval_filter E p row")
    case (Inl e)
    then show ?thesis using at_row
      by (auto simp: filter_next.simps [of E p input s] intro!: produces.at_error)
  next
    case (Inr b)
    show ?thesis
    proof (cases b)
      case True
      then show ?thesis using at_row Inr
        by (auto simp: filter_next.simps [of E p input s] split: prod.splits intro!: produces.at_row)
    next
      case False
      then have "op_next (filter_op E p input) s = op_next (filter_op E p input) s'"
        using at_row Inr by (simp add: filter_next.simps [of E p input s])
      from produces_skip [OF at_row.IH this] show ?thesis
        using Inr False by (simp split: prod.splits)
    qed
  qed
qed

locale filtered = operator opr ready out for opr :: "'s opr" and ready out +
  fixes E :: "'d env" and p :: "'q Expr"

sublocale filtered \<subseteq> filter: operator "filter_op E p opr" ready "\<lambda>s. on_rows (filter_out E p) (out s)"
proof
  fix s rows fin
  assume "ready s" "on_rows (filter_out E p) (out s) = Inr (rows, fin)"
  then obtain rows' fin' where *: "out s = Inr (rows', fin')" "filter_out E p (rows', fin') = (rows, fin)"
    by (auto simp: on_rows_eq)
  then obtain s' where "op_open opr s = Some (s', Inr ())" "produces opr s' rows' fin'"
    using opens [OF \<open>ready s\<close>] by blast
  then show "\<exists>s'. op_open (filter_op E p opr) s = Some (s', Inr ()) \<and> produces (filter_op E p opr) s' rows fin"
    using filter_produces [of opr s' rows' fin' E p] * by auto
qed (simp_all add: closes fails on_rows_eq)

subsection \<open>Limit\<close>

definition limit_out :: "nat \<Rightarrow> Row list \<times> ExecuteError option \<Rightarrow> Row list \<times> ExecuteError option" where
  "limit_out n r = (take n (fst r), if length (fst r) < n then snd r else None)"

lemma limit_produces:
  "produces input (limit_input s) rows fin \<Longrightarrow> limit_count s \<le> n \<Longrightarrow>
   produces (limit_op n input) s (fst (limit_out (n - limit_count s) (rows, fin)))
     (snd (limit_out (n - limit_count s) (rows, fin)))"
proof (induction "limit_input s" rows fin arbitrary: s rule: produces.induct)
  case (at_end s')
  then show ?case
    by (auto simp: limit_out_def limit_op_def intro!: produces.at_end)
next
  case (at_error s' e)
  show ?case
  proof (cases "limit_count s = n")
    case True
    then show ?thesis by (auto simp: limit_out_def limit_op_def intro!: produces.at_end)
  next
    case False
    then show ?thesis using at_error by (auto simp: limit_out_def limit_op_def intro!: produces.at_error)
  qed
next
  case (at_row s' row rows fin)
  show ?case
  proof (cases "limit_count s = n")
    case True
    then show ?thesis by (auto simp: limit_out_def limit_op_def intro!: produces.at_end)
  next
    case False
    define t where "t = s\<lparr>limit_input := s', limit_count := limit_count s + 1\<rparr>"
    have "produces (limit_op n input) t (fst (limit_out (n - limit_count t) (rows, fin)))
        (snd (limit_out (n - limit_count t) (rows, fin)))"
      using at_row(3) [of t] at_row.prems False by (simp add: t_def)
    moreover have "op_next (limit_op n input) s = Some (t, Inr (Some row))"
      using at_row False by (simp add: limit_op_def t_def)
    moreover obtain k where "n - limit_count s = Suc k" "n - limit_count t = k"
      using at_row.prems False by (cases "n - limit_count s") (auto simp: t_def)
    ultimately show ?thesis by (auto simp: limit_out_def intro!: produces.at_row)
  qed
qed

locale limited = operator opr ready out for opr :: "'s opr" and ready out +
  fixes n :: nat

sublocale limited \<subseteq> limit: operator "limit_op n opr" "\<lambda>s. ready (limit_input s)"
  "\<lambda>s. on_rows (limit_out n) (out (limit_input s))"
proof
  fix s :: "'s limit_state" and rows fin
  assume r: "ready (limit_input s)" and "on_rows (limit_out n) (out (limit_input s)) = Inr (rows, fin)"
  then obtain rows' fin' where *: "out (limit_input s) = Inr (rows', fin')" "limit_out n (rows', fin') = (rows, fin)"
    by (auto simp: on_rows_eq)
  then obtain i where "op_open opr (limit_input s) = Some (i, Inr ())" "produces opr i rows' fin'"
    using opens [OF r] by blast
  then show "\<exists>s'. op_open (limit_op n opr) s = Some (s', Inr ()) \<and> produces (limit_op n opr) s' rows fin"
    using limit_produces [of opr "s\<lparr>limit_count := 0, limit_input := i\<rparr>" rows' fin' n] *
    by (auto simp: limit_op_def on_input_def)
next
  fix s :: "'s limit_state" and e
  assume "ready (limit_input s)" "on_rows (limit_out n) (out (limit_input s)) = Inl e"
  then show "\<exists>s'. op_open (limit_op n opr) s = Some (s', Inl e)"
    using fails [of "limit_input s" e] by (auto simp: on_rows_eq limit_op_def on_input_def)
next
  fix s :: "'s limit_state"
  show "\<exists>s'. op_close (limit_op n opr) s = (s', Inr ())"
    using closes [of "limit_input s"] by (auto simp: limit_op_def on_input_def)
qed

subsection \<open>Offset\<close>

definition offset_out :: "nat \<Rightarrow> Row list \<times> ExecuteError option \<Rightarrow> Row list \<times> ExecuteError option" where
  "offset_out n r = (drop n (fst r), snd r)"

lemma offset_skipped_produces:
  "produces input i rows fin \<Longrightarrow> i = offset_input s \<Longrightarrow> n \<le> offset_skipped s \<Longrightarrow> produces (offset_op n input) s rows fin"
proof (induction arbitrary: s rule: produces.induct)
  case (at_row i i' row rows fin)
  have "produces (offset_op n input) (s\<lparr>offset_input := i'\<rparr>) rows fin"
    using at_row by simp
  then show ?case using at_row
    by (intro produces.at_row [of _ _ "s\<lparr>offset_input := i'\<rparr>"]) (auto simp: offset_op_def on_input_def)
qed (auto simp: offset_op_def on_input_def intro!: produces.at_end produces.at_error)

lemma offset_produces:
  "produces input i rows fin \<Longrightarrow> i = offset_input s \<Longrightarrow> n - offset_skipped s = m \<Longrightarrow>
   produces (offset_op n input) s (drop m rows) fin"
proof (induction arbitrary: s m rule: produces.induct)
  case (at_end i i')
  then show ?case by (cases m) (auto simp: offset_op_def on_input_def intro!: produces.at_end)
next
  case (at_error i i' e)
  then show ?case by (cases m) (auto simp: offset_op_def on_input_def intro!: produces.at_error)
next
  case (at_row i i' row rows fin)
  show ?case
  proof (cases m)
    case 0
    then show ?thesis
      using offset_skipped_produces [OF produces.at_row [OF at_row(1,2)], of s n] at_row.prems by simp
  next
    case (Suc k)
    define t where "t = s\<lparr>offset_input := i', offset_skipped := offset_skipped s + 1\<rparr>"
    have "produces (offset_op n input) t (drop k rows) fin"
      using at_row.IH [of t k] at_row.prems Suc by (simp add: t_def)
    moreover have "op_next (offset_op n input) s = op_next (offset_op n input) t"
    proof -
      have "n - offset_skipped s = Suc k" "n - offset_skipped t = k" using at_row.prems Suc by (auto simp: t_def)
      then show ?thesis using at_row by (simp add: offset_op_def t_def)
    qed
    ultimately show ?thesis using produces_skip Suc by fastforce
  qed
qed

locale skipped = operator opr ready out for opr :: "'s opr" and ready out +
  fixes n :: nat

sublocale skipped \<subseteq> offset: operator "offset_op n opr" "\<lambda>s. ready (offset_input s)"
  "\<lambda>s. on_rows (offset_out n) (out (offset_input s))"
proof
  fix s :: "'s offset_state" and rows fin
  assume r: "ready (offset_input s)" and "on_rows (offset_out n) (out (offset_input s)) = Inr (rows, fin)"
  then obtain rows' where *: "out (offset_input s) = Inr (rows', fin)" "rows = drop n rows'"
    by (auto simp: on_rows_eq offset_out_def)
  then obtain i where i: "op_open opr (offset_input s) = Some (i, Inr ())" "produces opr i rows' fin"
    using opens [OF r] by blast
  then show "\<exists>s'. op_open (offset_op n opr) s = Some (s', Inr ()) \<and> produces (offset_op n opr) s' rows fin"
    using offset_produces [OF i(2), of "s\<lparr>offset_skipped := 0, offset_input := i\<rparr>" n n] *
    by (auto simp: offset_op_def on_input_def)
next
  fix s :: "'s offset_state" and e
  assume "ready (offset_input s)" "on_rows (offset_out n) (out (offset_input s)) = Inl e"
  then show "\<exists>s'. op_open (offset_op n opr) s = Some (s', Inl e)"
    using fails [of "offset_input s" e] by (auto simp: on_rows_eq offset_op_def on_input_def)
next
  fix s :: "'s offset_state"
  show "\<exists>s'. op_close (offset_op n opr) s = (s', Inr ())"
    using closes [of "offset_input s"] by (auto simp: offset_op_def on_input_def)
qed

subsection \<open>Distinct and value\<close>

fun seen_out :: "(Row \<Rightarrow> (string option \<times> Row) eval_result) \<Rightarrow> string set \<Rightarrow>
  Row list \<times> ExecuteError option \<Rightarrow> Row list \<times> ExecuteError option" where
  "seen_out f K ([], fin) = ([], fin)"
| "seen_out f K (row # rows, fin) =
     (case f row of
        Inl e \<Rightarrow> ([], Some e)
      | Inr (None, r) \<Rightarrow> (case seen_out f K (rows, fin) of (rs, fin') \<Rightarrow> (r # rs, fin'))
      | Inr (Some k, r) \<Rightarrow>
          if k \<in> K then seen_out f K (rows, fin)
          else (case seen_out f (insert k K) (rows, fin) of (rs, fin') \<Rightarrow> (r # rs, fin')))"

lemma seen_op_next [simp]: "op_next (seen_op f i) = seen_next f i"
  by (simp add: seen_op_def)

lemma seen_produces:
  "produces input i rows fin \<Longrightarrow> i = seen_input s \<Longrightarrow>
   produces (seen_op f input) s (fst (seen_out f (seen s) (rows, fin))) (snd (seen_out f (seen s) (rows, fin)))"
proof (induction arbitrary: s rule: produces.induct)
  case (at_end i i')
  then show ?case by (auto simp: seen_next.simps [of f input s] intro!: produces.at_end)
next
  case (at_error i i' e)
  then show ?case by (auto simp: seen_next.simps [of f input s] intro!: produces.at_error)
next
  case (at_row i i' row rows fin)
  note step = seen_next.simps [of f input s]
  consider (err) e where "f row = Inl e" | (plain) r where "f row = Inr (None, r)"
    | (new) k r where "f row = Inr (Some k, r)" "k \<notin> seen s"
    | (old) k r where "f row = Inr (Some k, r)" "k \<in> seen s"
    by (cases "f row") (auto, metis option.exhaust)
  then show ?case
  proof cases
    case err
    then show ?thesis using at_row by (auto simp: step intro!: produces.at_error)
  next
    case plain
    then show ?thesis using at_row(1,4) at_row.IH [of "s\<lparr>seen_input := i'\<rparr>"]
      by (auto simp: step split: prod.splits intro!: produces.at_row)
  next
    case (new k r)
    then show ?thesis using at_row(1,4) at_row.IH [of "s\<lparr>seen_input := i', seen := insert k (seen s)\<rparr>"]
      by (auto simp: step split: prod.splits intro!: produces.at_row)
  next
    case old
    then have "op_next (seen_op f input) s = op_next (seen_op f input) (s\<lparr>seen_input := i'\<rparr>)"
      using at_row(1,4) by (simp add: step)
    then show ?thesis
      using produces_skip [OF at_row.IH [of "s\<lparr>seen_input := i'\<rparr>"]] old by simp
  qed
qed

locale deduplicated = operator opr ready out for opr :: "'s opr" and ready out +
  fixes f :: "Row \<Rightarrow> (string option \<times> Row) eval_result"

sublocale deduplicated \<subseteq> seen: operator "seen_op f opr" "\<lambda>s. ready (seen_input s)"
  "\<lambda>s. on_rows (seen_out f {}) (out (seen_input s))"
proof
  fix s :: "'s seen_state" and rows fin
  assume r: "ready (seen_input s)" and "on_rows (seen_out f {}) (out (seen_input s)) = Inr (rows, fin)"
  then obtain rows' fin' where *: "out (seen_input s) = Inr (rows', fin')" "seen_out f {} (rows', fin') = (rows, fin)"
    by (auto simp: on_rows_eq)
  then obtain i where i: "op_open opr (seen_input s) = Some (i, Inr ())" "produces opr i rows' fin'"
    using opens [OF r] by blast
  then show "\<exists>s'. op_open (seen_op f opr) s = Some (s', Inr ()) \<and> produces (seen_op f opr) s' rows fin"
    using seen_produces [OF i(2), of "s\<lparr>seen_input := i, seen := {}, seen_opened := True\<rparr>" f] *
    by (auto simp: seen_op_def)
next
  fix s :: "'s seen_state" and e
  assume "ready (seen_input s)" "on_rows (seen_out f {}) (out (seen_input s)) = Inl e"
  then show "\<exists>s'. op_open (seen_op f opr) s = Some (s', Inl e)"
    using fails [of "seen_input s" e] by (auto simp: on_rows_eq seen_op_def)
next
  fix s :: "'s seen_state"
  show "\<exists>s'. op_close (seen_op f opr) s = (s', Inr ())"
    using closes [of "seen_input s"] by (auto simp: seen_op_def on_input_def)
qed

subsection \<open>Buffers\<close>

fun drain :: "(Row \<Rightarrow> 'b \<Rightarrow> 'b \<times> unit eval_result) \<Rightarrow> Row list \<Rightarrow> ExecuteError option \<Rightarrow> 'b \<Rightarrow> 'b \<times> unit eval_result" where
  "drain body [] fin b = (b, case fin of None \<Rightarrow> Inr () | Some e \<Rightarrow> Inl e)"
| "drain body (row # rows) fin b =
     (case body row b of
        (b', Inl e) \<Rightarrow> (b', Inl e)
      | (b', Inr _) \<Rightarrow> drain body rows fin b')"

lemma pull_all_drain:
  "produces input i rows fin \<Longrightarrow> drain body rows fin b = (b', r) \<Longrightarrow>
   \<exists>i'. pull_all body input i b = Some ((i', b'), r)"
proof (induction arbitrary: b rule: produces.induct)
  case (at_row i i' row rows fin)
  then show ?case
    by (subst pull_all.simps) (auto split: prod.splits sum.splits)
qed (subst pull_all.simps, auto)+

lemma buffer_produces:
  assumes "op_next opr = buffer_next rows pos advance"
    and "\<And>s. rows (advance s) = rows s" "\<And>s. pos (advance s) = Suc (pos s)"
  shows "produces opr s (drop (pos s) (rows s)) None"
proof (induction "length (rows s) - pos s" arbitrary: s)
  case 0
  then show ?case using assms(1) by (auto simp: buffer_next_def intro!: produces.at_end)
next
  case (Suc n)
  then have "produces opr (advance s) (drop (Suc (pos s)) (rows s)) None"
    using Suc(1) [of "advance s"] assms(2,3) by simp
  moreover have "pos s < length (rows s)" using Suc(2) by simp
  ultimately show ?case
    by (auto simp: assms(1) buffer_next_def Cons_nth_drop_Suc [symmetric] intro!: produces.at_row)
qed

definition buffered_out ::
  "(Row \<Rightarrow> 'b \<Rightarrow> 'b \<times> unit eval_result) \<Rightarrow> ('b \<Rightarrow> 'v eval_result) \<Rightarrow> 'b \<Rightarrow>
   Row list \<times> ExecuteError option \<Rightarrow> 'v eval_result" where
  "buffered_out body finish b r =
     (case drain body (fst r) (snd r) b of (b', q) \<Rightarrow> and_then q (\<lambda>_. finish b'))"

context operator
begin

lemma buffered_opens:
  assumes "ready (get s)" "and_then (out (get s)) (buffered_out body finish b) = Inr v"
  shows "\<exists>i. buffered_open get put keep fill body finish opr b s = Some (fill s i v, Inr ())"
proof -
  obtain rows fin where o: "out (get s) = Inr (rows, fin)" "buffered_out body finish b (rows, fin) = Inr v"
    using assms(2) by (auto simp: and_then_Inr_iff)
  then obtain b' q where d: "drain body rows fin b = (b', q)" "and_then q (\<lambda>_. finish b') = Inr v"
    by (auto simp: buffered_out_def split: prod.splits)
  obtain i where i: "op_open opr (get s) = Some (i, Inr ())" "produces opr i rows fin"
    using opens [OF assms(1) o(1)] by blast
  obtain i' where "pull_all body opr i b = Some ((i', b'), q)" using pull_all_drain [OF i(2) d(1)] by blast
  then show ?thesis using i d by (auto simp: buffered_open_def)
qed

lemma buffered_fails:
  assumes "ready (get s)" "and_then (out (get s)) (buffered_out body finish b) = Inl e"
  shows "\<exists>s'. buffered_open get put keep fill body finish opr b s = Some (s', Inl e)"
proof (cases "out (get s)")
  case (Inl e')
  then show ?thesis using fails [OF assms(1) Inl] assms(2) by (auto simp: buffered_open_def)
next
  case (Inr r)
  obtain rows fin where o: "out (get s) = Inr (rows, fin)" using Inr by (cases r) auto
  obtain b' q where d: "drain body rows fin b = (b', q)" by fastforce
  then have q: "and_then q (\<lambda>_. finish b') = Inl e" using assms(2) o by (simp add: buffered_out_def)
  obtain i where i: "op_open opr (get s) = Some (i, Inr ())" "produces opr i rows fin"
    using opens [OF assms(1) o] by blast
  obtain i' where "pull_all body opr i b = Some ((i', b'), q)" using pull_all_drain [OF i(2) d] by blast
  then show ?thesis using i q by (auto simp: buffered_open_def)
qed

end

subsection \<open>Sort, aggregates, groups\<close>

definition sort_out ::
  "'d env \<Rightarrow> 'q OrderItem list \<Rightarrow> VarScope option \<Rightarrow> Row list \<times> ExecuteError option \<Rightarrow>
   (Row \<times> Value list) list eval_result" where
  "sort_out E items vars =
     buffered_out (sort_push E items vars)
       (\<lambda>buffer. Inr (sort_by (\<lambda>a b. compare_keys (env_libs E) (snd a) (snd b) (map order_direction items)) buffer)) []"

definition aggregate_out ::
  "'d env \<Rightarrow> (Value \<Rightarrow> string) \<Rightarrow> ResolvedAggregate list \<Rightarrow> Row list \<times> ExecuteError option \<Rightarrow> fields eval_result" where
  "aggregate_out E dbg aggs =
     buffered_out (\<lambda>row. or_keep (feed_accs E dbg row aggs)) (\<lambda>accs. insert_results (env_libs E) aggs accs [])
       (new_accs (env_libs E) aggs)"

definition group_out ::
  "'d env \<Rightarrow> (Value \<Rightarrow> string) \<Rightarrow> string list \<Rightarrow> ResolvedAggregate list \<Rightarrow> Row list \<times> ExecuteError option \<Rightarrow>
   Row list eval_result" where
  "group_out E dbg gfs aggs =
     buffered_out (\<lambda>row. or_keep (group_row E dbg gfs aggs row)) (emit_groups (env_libs E) gfs aggs) ([], [])"

text \<open>A buffering operator yields the rows of its buffer and no error.\<close>

definition finished :: "('v \<Rightarrow> Row list) \<Rightarrow> 'v eval_result \<Rightarrow> (Row list \<times> ExecuteError option) eval_result" where
  "finished f r = and_then r (\<lambda>v. Inr (f v, None))"

lemma finished_eq:
  "finished f r = Inl e \<longleftrightarrow> r = Inl e"
  "finished f r = Inr (rows, fin) \<longleftrightarrow> fin = None \<and> (\<exists>v. r = Inr v \<and> rows = f v)"
  by (cases r; auto simp: finished_def)+

locale sorted_op = operator opr ready out for opr :: "'s opr" and ready out +
  fixes E :: "'d env" and items :: "'q OrderItem list" and vars :: "VarScope option"

sublocale sorted_op \<subseteq> sort: operator "sort_op E items vars opr"
  "\<lambda>s. ready (sort_input s) \<and> sort_buffer s = []"
  "\<lambda>s. finished (map fst) (and_then (out (sort_input s)) (sort_out E items vars))"
proof
  fix s :: "'s sort_state" and rows fin
  assume "ready (sort_input s) \<and> sort_buffer s = []"
    and "finished (map fst) (and_then (out (sort_input s)) (sort_out E items vars)) = Inr (rows, fin)"
  then obtain i v where "op_open (sort_op E items vars opr) s =
      Some (s\<lparr>sort_input := i, sort_buffer := v, sort_opened := True, sort_index := 0\<rparr>, Inr ())"
    "rows = map fst v" "fin = None"
    using buffered_opens [of sort_input s] by (fastforce simp: sort_op_def finished_eq sort_out_def)
  moreover have "produces (sort_op E items vars opr) t (drop (sort_index t) (map fst (sort_buffer t))) None" for t
    by (rule buffer_produces [where advance = "\<lambda>s. s\<lparr>sort_index := sort_index s + 1\<rparr>"])
      (simp_all add: sort_op_def)
  from this [of "s\<lparr>sort_input := i, sort_buffer := v, sort_opened := True, sort_index := 0\<rparr>"]
  have "produces (sort_op E items vars opr)
      (s\<lparr>sort_input := i, sort_buffer := v, sort_opened := True, sort_index := 0\<rparr>) (map fst v) None" by simp
  ultimately show "\<exists>s'. op_open (sort_op E items vars opr) s = Some (s', Inr ()) \<and>
      produces (sort_op E items vars opr) s' rows fin" by blast
next
  fix s :: "'s sort_state" and e
  assume "ready (sort_input s) \<and> sort_buffer s = []"
    and "finished (map fst) (and_then (out (sort_input s)) (sort_out E items vars)) = Inl e"
  then show "\<exists>s'. op_open (sort_op E items vars opr) s = Some (s', Inl e)"
    using buffered_fails [of sort_input s] by (simp add: sort_op_def finished_eq sort_out_def)
next
  fix s :: "'s sort_state"
  show "\<exists>s'. op_close (sort_op E items vars opr) s = (s', Inr ())"
    using closes [of "sort_input s"] by (auto simp: sort_op_def on_input_def)
qed

locale aggregated = operator opr ready out for opr :: "'s opr" and ready out +
  fixes E :: "'d env" and dbg :: "Value \<Rightarrow> string" and aggs :: "ResolvedAggregate list"

lemma aggregate_produces:
  "\<not> aggregate_returned s \<Longrightarrow> aggregate_result s = Some row \<Longrightarrow> produces (aggregate_op E dbg aggs input) s [row] None"
  by (auto simp: aggregate_op_def intro!: produces.intros)

sublocale aggregated \<subseteq> aggregate: operator "aggregate_op E dbg aggs opr" "\<lambda>s. ready (aggregate_input s)"
  "\<lambda>s. finished (\<lambda>fs. [result_row fs]) (and_then (out (aggregate_input s)) (aggregate_out E dbg aggs))"
proof
  fix s :: "'s aggregate_state" and rows fin
  assume "ready (aggregate_input s)"
    and "finished (\<lambda>fs. [result_row fs]) (and_then (out (aggregate_input s)) (aggregate_out E dbg aggs)) = Inr (rows, fin)"
  then obtain i fs where "op_open (aggregate_op E dbg aggs opr) s =
      Some (s\<lparr>aggregate_input := i, aggregate_result := Some (result_row fs), aggregate_returned := False\<rparr>, Inr ())"
    "rows = [result_row fs]" "fin = None"
    using buffered_opens [of aggregate_input s] by (fastforce simp: aggregate_op_def finished_eq aggregate_out_def)
  then show "\<exists>s'. op_open (aggregate_op E dbg aggs opr) s = Some (s', Inr ()) \<and>
      produces (aggregate_op E dbg aggs opr) s' rows fin"
    by (auto intro!: aggregate_produces)
next
  fix s :: "'s aggregate_state" and e
  assume "ready (aggregate_input s)"
    and "finished (\<lambda>fs. [result_row fs]) (and_then (out (aggregate_input s)) (aggregate_out E dbg aggs)) = Inl e"
  then show "\<exists>s'. op_open (aggregate_op E dbg aggs opr) s = Some (s', Inl e)"
    using buffered_fails [of aggregate_input s] by (simp add: aggregate_op_def finished_eq aggregate_out_def)
next
  fix s :: "'s aggregate_state"
  show "\<exists>s'. op_close (aggregate_op E dbg aggs opr) s = (s', Inr ())"
    using closes [of "aggregate_input s"] by (auto simp: aggregate_op_def on_input_def)
qed

locale grouped = operator opr ready out for opr :: "'s opr" and ready out +
  fixes E :: "'d env" and dbg :: "Value \<Rightarrow> string" and gfs :: "string list" and aggs :: "ResolvedAggregate list"

sublocale grouped \<subseteq> group: operator "group_op E dbg gfs aggs opr" "\<lambda>s. ready (group_input s)"
  "\<lambda>s. finished id (and_then (out (group_input s)) (group_out E dbg gfs aggs))"
proof
  fix s :: "'s group_state" and rows fin
  assume "ready (group_input s)"
    and "finished id (and_then (out (group_input s)) (group_out E dbg gfs aggs)) = Inr (rows, fin)"
  then obtain i where "op_open (group_op E dbg gfs aggs opr) s =
      Some (s\<lparr>group_input := i, group_results := rows, group_position := 0\<rparr>, Inr ())" "fin = None"
    using buffered_opens [of group_input s] by (fastforce simp: group_op_def finished_eq group_out_def)
  moreover have "produces (group_op E dbg gfs aggs opr) t (drop (group_position t) (group_results t)) None" for t
    by (rule buffer_produces [where advance = "\<lambda>s. s\<lparr>group_position := group_position s + 1\<rparr>"])
      (simp_all add: group_op_def)
  from this [of "s\<lparr>group_input := i, group_results := rows, group_position := 0\<rparr>"]
  have "produces (group_op E dbg gfs aggs opr) (s\<lparr>group_input := i, group_results := rows, group_position := 0\<rparr>) rows None"
    by simp
  ultimately show "\<exists>s'. op_open (group_op E dbg gfs aggs opr) s = Some (s', Inr ()) \<and>
      produces (group_op E dbg gfs aggs opr) s' rows fin" by blast
next
  fix s :: "'s group_state" and e
  assume "ready (group_input s)"
    and "finished id (and_then (out (group_input s)) (group_out E dbg gfs aggs)) = Inl e"
  then show "\<exists>s'. op_open (group_op E dbg gfs aggs opr) s = Some (s', Inl e)"
    using buffered_fails [of group_input s] by (simp add: group_op_def finished_eq group_out_def)
next
  fix s :: "'s group_state"
  show "\<exists>s'. op_close (group_op E dbg gfs aggs opr) s = (s', Inr ())"
    using closes [of "group_input s"] by (auto simp: group_op_def on_input_def)
qed

subsection \<open>Union\<close>

text \<open>The rows of the inputs one after the other, up to the first error, less those whose
  document was seen before.\<close>

fun dedup_ids :: "string set option \<Rightarrow> Row list \<Rightarrow> Row list" where
  "dedup_ids ids [] = []"
| "dedup_ids ids (row # rows) =
     (case ids of
        None \<Rightarrow> row # dedup_ids None rows
      | Some K \<Rightarrow>
          if doc_id (row_doc row) \<in> K then dedup_ids ids rows
          else row # dedup_ids (Some (insert (doc_id (row_doc row)) K)) rows)"

fun chain :: "(Row list \<times> ExecuteError option) list \<Rightarrow> Row list \<times> ExecuteError option" where
  "chain [] = ([], None)"
| "chain ((rows, Some e) # rs) = (rows, Some e)"
| "chain ((rows, None) # rs) = (rows @ fst (chain rs), snd (chain rs))"

definition union_rows :: "string set option \<Rightarrow> Row list \<times> ExecuteError option \<Rightarrow> Row list \<times> ExecuteError option" where
  "union_rows ids r = (dedup_ids ids (fst r), snd r)"

lemma union_op_next [simp]: "op_next (union_op i) = union_next i"
  by (simp add: union_op_def)

lemma union_produces:
  assumes "list_all2 (\<lambda>i r. produces input i (fst r) (snd r)) (drop (union_current s) (union_inputs s)) rs"
    and "union_current s \<le> length (union_inputs s)"
  shows "produces (union_op input) s (fst (union_rows (union_seen_ids s) (chain rs)))
           (snd (union_rows (union_seen_ids s) (chain rs)))"
  using assms
proof (induction rs arbitrary: s rule: list.induct)
  case Nil
  then have "length (union_inputs s) \<le> union_current s" by simp
  then have "op_next (union_op input) s = Some (s, Inr None)" by (simp add: union_next.simps [of input s])
  then show ?case by (auto simp: union_rows_def intro: produces.at_end)
next
  case (Cons r rs)
  obtain i where i: "union_current s < length (union_inputs s)" "union_inputs s ! union_current s = i"
    "produces input i (fst r) (snd r)"
    "list_all2 (\<lambda>i r. produces input i (fst r) (snd r)) (drop (Suc (union_current s)) (union_inputs s)) rs"
    using Cons.prems by (cases "union_current s < length (union_inputs s)")
      (auto simp: Cons_nth_drop_Suc [symmetric])
  from i(3,1,2,4) show ?case
  proof (induction "fst r" "snd r" arbitrary: r s rule: produces.induct)
    case (at_end i i')
    define t where "t = s\<lparr>union_inputs := (union_inputs s)[union_current s := i'], union_current := union_current s + 1\<rparr>"
    have "produces (union_op input) t (fst (union_rows (union_seen_ids t) (chain rs))) (snd (union_rows (union_seen_ids t) (chain rs)))"
      using Cons.IH [of t] at_end by (auto simp: t_def)
    moreover have "op_next (union_op input) s = op_next (union_op input) t"
      using at_end by (simp add: union_next.simps [of input s] t_def)
    moreover have "r = ([], None)" using at_end(2,3) by (cases r) auto
    ultimately show ?case using produces_skip by (fastforce simp: t_def)
  next
    case (at_error i i' e)
    have r: "r = ([], Some e)" using at_error(2,3) by (cases r) auto
    show ?case unfolding r using at_error(1,4,5)
      by (auto simp: union_rows_def union_next.simps [of input s] Let_def intro!: produces.at_error)
  next
    case (at_row i i' row rows)
    define t where "t = s\<lparr>union_inputs := (union_inputs s)[union_current s := i']\<rparr>"
    have r: "r = (row # rows, snd r)" using at_row(4) by (cases r) auto
    have ch: "chain (r # rs) = (row # fst (chain ((rows, snd r) # rs)), snd (chain ((rows, snd r) # rs)))"
      by (subst r, cases "snd r") simp_all
    have IH: "produces (union_op input) u (fst (union_rows (union_seen_ids u) (chain ((rows, snd r) # rs))))
        (snd (union_rows (union_seen_ids u) (chain ((rows, snd r) # rs))))"
      if "u = t\<lparr>union_seen_ids := x\<rparr>" for u x
      using at_row(3) [of "(rows, snd r)" u] at_row(5-) that by (simp add: t_def)
    have step: "op_next (union_op input) s =
      (case union_seen_ids s of
         None \<Rightarrow> Some (t, Inr (Some row))
       | Some K \<Rightarrow> if doc_id (row_doc row) \<in> K then op_next (union_op input) t
                   else Some (t\<lparr>union_seen_ids := Some (insert (doc_id (row_doc row)) K)\<rparr>, Inr (Some row)))"
      using at_row by (simp add: union_next.simps [of input s] t_def split: option.splits)
    show ?case
    proof (cases "union_seen_ids s")
      case None
      then show ?thesis using IH [of t None] step
        by (auto simp: ch union_rows_def t_def intro: produces.at_row)
    next
      case (Some K)
      show ?thesis
      proof (cases "doc_id (row_doc row) \<in> K")
        case True
        then show ?thesis using produces_skip [OF IH [of t "Some K"]] step Some
          by (auto simp: ch union_rows_def t_def)
      next
        case False
        then show ?thesis using IH [of "t\<lparr>union_seen_ids := Some (insert (doc_id (row_doc row)) K)\<rparr>"] step Some
          by (auto simp: ch union_rows_def intro: produces.at_row)
      qed
    qed
  qed
qed

text \<open>The errors of \<open>open\<close>: the first input that fails to open fails the union.\<close>

fun all_opened :: "('a eval_result) list \<Rightarrow> 'a list eval_result" where
  "all_opened [] = Inr []"
| "all_opened (r # rs) = and_then r (\<lambda>x. and_then (all_opened rs) (\<lambda>xs. Inr (x # xs)))"

context operator
begin

lemma try_open_Inl:
  "\<forall>i\<in>set is. ready i \<Longrightarrow> all_opened (map out is) = Inl e \<Longrightarrow>
   \<exists>is'. try_each (op_open opr) is = Some (is', Inl e)"
proof (induction "is")
  case (Cons i "is")
  show ?case
  proof (cases "out i")
    case (Inl e')
    then show ?thesis using fails [of i e'] Cons.prems by auto
  next
    case (Inr r)
    then obtain i' where "op_open opr i = Some (i', Inr ())"
      using opens [of i "fst r" "snd r"] Cons.prems by auto
    moreover have "all_opened (map out is) = Inl e"
      using Cons.prems Inr by (cases "all_opened (map out is)") auto
    ultimately show ?thesis using Cons by (auto simp: on_input_def)
  qed
qed simp

lemma try_open_Inr:
  "\<forall>i\<in>set is. ready i \<Longrightarrow> all_opened (map out is) = Inr rs \<Longrightarrow>
   \<exists>is'. try_each (op_open opr) is = Some (is', Inr ()) \<and>
     list_all2 (\<lambda>i r. produces opr i (fst r) (snd r)) is' rs"
proof (induction "is" arbitrary: rs)
  case (Cons i "is")
  then obtain r rs' where r: "out i = Inr r" "all_opened (map out is) = Inr rs'" "rs = r # rs'"
    by (auto simp: and_then_Inr_iff)
  then obtain i' where "op_open opr i = Some (i', Inr ())" "produces opr i' (fst r) (snd r)"
    using opens [of i "fst r" "snd r"] Cons.prems by auto
  moreover obtain is' where "try_each (op_open opr) is = Some (is', Inr ())"
    "list_all2 (\<lambda>i r. produces opr i (fst r) (snd r)) is' rs'"
    using Cons r by auto
  ultimately show ?case using r by (auto simp: on_input_def)
qed simp

lemma try_close: "\<exists>is'. try_each (\<lambda>i. Some (op_close opr i)) is = Some (is', Inr ())"
proof (induction "is")
  case (Cons i "is")
  then show ?case using closes [of i] by (auto simp: on_input_def)
qed simp

end

definition union_out :: "bool \<Rightarrow> (Row list \<times> ExecuteError option) eval_result list \<Rightarrow>
  (Row list \<times> ExecuteError option) eval_result" where
  "union_out dedup rs = on_rows (union_rows (if dedup then Some {} else None)) (and_then (all_opened rs) (\<lambda>rs. Inr (chain rs)))"

locale united = operator opr ready out for opr :: "'s opr" and ready out +
  fixes dedup :: bool

sublocale united \<subseteq> union: operator "union_op opr"
  "\<lambda>s. (\<forall>i\<in>set (union_inputs s). ready i) \<and> union_seen_ids s = (if dedup then Some {} else None)"
  "\<lambda>s. union_out dedup (map out (union_inputs s))"
proof
  fix s :: "'s union_state" and rows fin
  assume r: "(\<forall>i\<in>set (union_inputs s). ready i) \<and> union_seen_ids s = (if dedup then Some {} else None)"
    and o: "union_out dedup (map out (union_inputs s)) = Inr (rows, fin)"
  then obtain rs where rs: "all_opened (map out (union_inputs s)) = Inr rs"
    "union_rows (if dedup then Some {} else None) (chain rs) = (rows, fin)"
    by (auto simp: union_out_def on_rows_eq and_then_Inr_iff)
  obtain is' where is': "try_each (op_open opr) (union_inputs s) = Some (is', Inr ())"
    "list_all2 (\<lambda>i r. produces opr i (fst r) (snd r)) is' rs"
    using try_open_Inr [OF _ rs(1)] r by blast
  define t where "t = s\<lparr>union_inputs := is', union_current := 0\<rparr>"
  have "op_open (union_op opr) s = Some (t, Inr ())" using is' by (simp add: union_op_def t_def)
  moreover have "produces (union_op opr) t rows fin"
    using union_produces [of opr t rs] is' rs r by (simp add: t_def)
  ultimately show "\<exists>s'. op_open (union_op opr) s = Some (s', Inr ()) \<and> produces (union_op opr) s' rows fin" by blast
next
  fix s :: "'s union_state" and e
  assume r: "(\<forall>i\<in>set (union_inputs s). ready i) \<and> union_seen_ids s = (if dedup then Some {} else None)"
    and o: "union_out dedup (map out (union_inputs s)) = Inl e"
  then have "all_opened (map out (union_inputs s)) = Inl e"
    by (cases "all_opened (map out (union_inputs s))") (auto simp: union_out_def on_rows_eq)
  then show "\<exists>s'. op_open (union_op opr) s = Some (s', Inl e)"
    using try_open_Inl [of "union_inputs s" e] r by (auto simp: union_op_def)
next
  fix s :: "'s union_state"
  show "\<exists>s'. op_close (union_op opr) s = (s', Inr ())"
    using try_close [of "union_inputs s"] by (auto simp: union_op_def)
qed

end
