(* ===== verification/Pipelines.thy ===== *)
theory Pipelines
  imports Operators "HOL-Library.Sublist"
begin

text \<open>
  Plans composed of the operators, and what they return. Each step of the composition is an
  interpretation of the operator's locale on the operator below it, with the in-memory scan at
  the bottom.
\<close>

section \<open>WHERE, ORDER BY, OFFSET, LIMIT\<close>

interpretation where_op: filtered scan_op "\<lambda>_. True" scan_out E p for E :: "'d env" and p :: "'q Expr"
  by (rule filtered.intro) (rule scan.operator_axioms)

interpretation order_op: sorted_op "filter_op E p scan_op" "\<lambda>_. True" "\<lambda>s. on_rows (filter_out E p) (scan_out s)" E items vars
  for E :: "'d env" and p :: "'q Expr" and items :: "'q OrderItem list" and vars
  by (rule sorted_op.intro) (rule where_op.filter.operator_axioms)

interpretation offset_op: skipped "sort_op E items vars (filter_op E p scan_op)" "\<lambda>s. True \<and> sort_buffer s = []"
  "\<lambda>s. finished (map fst) (and_then (on_rows (filter_out E p) (scan_out (sort_input s))) (sort_out E items vars))" n
  for E :: "'d env" and p :: "'q Expr" and items :: "'q OrderItem list" and vars n
  by (rule skipped.intro) (rule order_op.sort.operator_axioms)

interpretation limit_op: limited "offset_op n (sort_op E items vars (filter_op E p scan_op))"
  "\<lambda>s. True \<and> sort_buffer (offset_input s) = []"
  "\<lambda>s. on_rows (offset_out n) (finished (map fst) (and_then (on_rows (filter_out E p) (scan_out (sort_input (offset_input s)))) (sort_out E items vars)))" m
  for E :: "'d env" and p :: "'q Expr" and items :: "'q OrderItem list" and vars n m
  by (rule limited.intro) (rule offset_op.offset.operator_axioms)

definition select_op ::
  "'d env \<Rightarrow> 'q Expr \<Rightarrow> 'q OrderItem list \<Rightarrow> VarScope option \<Rightarrow> nat \<Rightarrow> nat \<Rightarrow>
   scan_state sort_state offset_state limit_state opr" where
  "select_op E p items vars off lim = limit_op lim (offset_op off (sort_op E items vars (filter_op E p scan_op)))"

definition select_state :: "Row list \<Rightarrow> scan_state sort_state offset_state limit_state" where
  "select_state rows =
     \<lparr>limit_input = \<lparr>offset_input = sort_new (scan_new rows), offset_skipped = 0\<rparr>, limit_count = 0\<rparr>"

lemma filter_out_total:
  "(\<And>row. row \<in> set rows \<Longrightarrow> eval_filter E p row = Inr (P row)) \<Longrightarrow> filter_out E p (rows, None) = (filter P rows, None)"
  by (induction rows) auto

lemma drain_sort_push:
  "(\<And>row. row \<in> set rows \<Longrightarrow> sort_keys E items vars row = Inr (K row)) \<Longrightarrow>
   drain (sort_push E items vars) rows None b = (b @ map (\<lambda>row. (row, K row)) rows, Inr ())"
  by (induction rows arbitrary: b) (auto simp: sort_push_def)

lemma insort_by_image: "insort_by c (g x) (map g xs) = map g (insort_by (\<lambda>a b. c (g a) (g b)) x xs)"
  by (induction xs) auto

lemma sort_by_image: "sort_by c (map g xs) = map g (sort_by (\<lambda>a b. c (g a) (g b)) xs)"
  by (induction xs) (auto simp: insort_by_image)

definition order_rows :: "'d env \<Rightarrow> 'q OrderItem list \<Rightarrow> (Row \<Rightarrow> Value list) \<Rightarrow> Row list \<Rightarrow> Row list" where
  "order_rows E items K = sort_by (\<lambda>a b. compare_keys (env_libs E) (K a) (K b) (map order_direction items))"

lemma sort_out_total:
  assumes "\<And>row. row \<in> set rows \<Longrightarrow> sort_keys E items vars row = Inr (K row)"
  shows "finished (map fst) (sort_out E items vars (rows, None)) = Inr (order_rows E items K rows, None)"
proof -
  have "sort_out E items vars (rows, None) =
      Inr (map (\<lambda>row. (row, K row)) (order_rows E items K rows))"
    using drain_sort_push [OF assms, of rows "[]"]
    by (simp add: sort_out_def buffered_out_def sort_by_image order_rows_def)
  then show ?thesis by (simp add: finished_def comp_def)
qed



text \<open>Sorting by keys without integers and decimals needs no assumption on \<open>rust_decimal\<close>.\<close>

interpretation float_keys: lexicographic float_or_other "compare_value_inner L" ds for L :: "'d libs" and ds
  by (rule lexicographic.intro) (rule floats.comparator_on_axioms)

interpretation float_rows: keyed "lexicographic.keys_of_type float_or_other ds"
  "\<lambda>as bs. lex_keys (compare_value_inner L) as bs ds" K for L :: "'d libs" and ds and K :: "Row \<Rightarrow> Value list"
  by (rule keyed.intro) (rule float_keys.keys_comparator)

lemma sort_keys_length: "sort_keys E items vars row = Inr ks \<Longrightarrow> length ks = length items"
  unfolding sort_keys_def by (induction items arbitrary: ks) (auto simp: and_then_Inr_iff)

interpretation order_scan: sorted_op scan_op "\<lambda>_. True" scan_out E items vars
  for E :: "'d env" and items :: "'q OrderItem list" and vars
  by (rule sorted_op.intro) (rule scan.operator_axioms)

text \<open>C14: ORDER BY sorts. It returns, and when the keys of the rows are comparable in a total order
  the rows returned are a permutation of the input, no row is greater than a later one in the order
  given by the keys and directions, and rows with equal keys keep their order.\<close>

theorem order_by_sorts:
  assumes c: "comparator_on S (compare_value_inner (env_libs E))"
    and K: "\<And>row. row \<in> set rows \<Longrightarrow> sort_keys E items vars row = Inr (K row) \<and> set (K row) \<subseteq> S"
  defines "cmp_rows \<equiv> (\<lambda>a b. compare_keys (env_libs E) (K a) (K b) (map order_direction items))"
  shows "\<exists>s' result. collect_all (sort_op E items vars scan_op) (sort_new (scan_new rows)) = Some (s', Inr result) \<and>
    mset result = mset rows \<and> sorted_wrt (\<lambda>a b. cmp_rows a b \<noteq> Greater) result \<and>
    (\<forall>row\<in>set rows. filter (\<lambda>r. cmp_rows row r = Equal) result = filter (\<lambda>r. cmp_rows row r = Equal) rows)"
proof -
  let ?c = "compare_value_inner (env_libs E)" and ?ds = "map order_direction items"
  have lex: "lexicographic S ?c" using c by (rule lexicographic.intro)
  note keys = lexicographic.keys_comparator [OF lex, of ?ds]
  have kd: "keyed (lexicographic.keys_of_type S ?ds) (\<lambda>as bs. lex_keys ?c as bs ?ds)"
    using keys by (rule keyed.intro)
  note rows = keyed.by_key_comparator [OF kd, of K]
  have cmp: "cmp_rows = (\<lambda>a b. lex_keys ?c (K a) (K b) ?ds)"
    by (simp add: cmp_rows_def compare_keys_def compare_values_def)
  have "set rows \<subseteq> K -` lexicographic.keys_of_type S ?ds"
    using K by (auto simp: lexicographic.keys_of_type_def [OF lex] dest: sort_keys_length)
  then have sorted: "mset (order_rows E items K rows) = mset rows \<and>
    sorted_wrt (\<lambda>a b. cmp_rows a b \<noteq> Greater) (order_rows E items K rows) \<and>
    (\<forall>row\<in>set rows. filter (\<lambda>r. cmp_rows row r = Equal) (order_rows E items K rows) =
                    filter (\<lambda>r. cmp_rows row r = Equal) rows)"
    using comparator_on.sort_ascending [OF rows] comparator_on.sort_stable [OF rows]
    by (auto simp: order_rows_def cmp_rows_def [symmetric] cmp comparator_on.ascending_def [OF rows])
  have "\<exists>s'. collect_all (sort_op E items vars scan_op) (sort_new (scan_new rows)) =
      Some (s', Inr (order_rows E items K rows))"
    using order_scan.sort.collects [of "sort_new (scan_new rows)" E items vars] sort_out_total [of rows E items vars K] K
    by (simp add: sort_new_def scan_out_def scan_new_def outcome_def)
  then show ?thesis using sorted by blast
qed

theorem order_by_sorts_witness:
  "\<exists>s' result. collect_all (sort_op int_env [\<lparr>order_expr = Field ''$value'' :: unit Expr, order_direction = Desc\<rparr>] None scan_op)
     (sort_new (scan_new [row_scalar (VInt 1), row_scalar (VInt 2)])) = Some (s', Inr result) \<and>
     mset result = mset [row_scalar (VInt 1), row_scalar (VInt 2)]"
proof -
  let ?rows = "[row_scalar (VInt 1), row_scalar (VInt 2)]"
  let ?items = "[\<lparr>order_expr = Field ''$value'' :: unit Expr, order_direction = Desc\<rparr>]"
  have c: "comparator_on {v. \<not> is_float v} (compare_value_inner (env_libs int_env))"
    using int_decimals.exact.comparator_on_axioms by simp
  have K: "sort_keys int_env ?items None row = Inr [row_get_value row] \<and> set [row_get_value row] \<subseteq> {v. \<not> is_float v}"
    if "row \<in> set ?rows" for row
    using that by (auto simp: sort_keys_def eval_field_def row_get_field_def row_get_value_def row_scalar_def is_float_def)
  show ?thesis using order_by_sorts [of _ _ ?rows ?items None "\<lambda>row. [row_get_value row]", OF c K] by blast
qed

interpretation distinct_scan: deduplicated scan_op "\<lambda>_. True" scan_out f
  for f :: "Row \<Rightarrow> (string option \<times> Row) eval_result"
  by (rule deduplicated.intro) (rule scan.operator_axioms)

text \<open>The first row of each key.\<close>

fun firsts :: "('a \<Rightarrow> 'k) \<Rightarrow> 'k set \<Rightarrow> 'a list \<Rightarrow> 'a list" where
  "firsts k K [] = []"
| "firsts k K (x # xs) = (if k x \<in> K then firsts k K xs else x # firsts k (insert (k x) K) xs)"

lemma firsts_props:
  "subseq (firsts k K xs) xs"
  "distinct (map k (firsts k K xs))"
  "k ` set (firsts k K xs) = k ` set xs - K"
proof (induction xs arbitrary: K)
  case (Cons x xs)
  {
    case 1
    then show ?case using Cons.IH(1) by (auto intro: subseq_Cons')
  next
    case 2
    have "k x \<notin> k ` set (firsts k (insert (k x) K) xs)" using Cons.IH(3) by blast
    then show ?case using Cons.IH(2) by auto
  next
    case 3
    then show ?case using Cons.IH(3) by (auto split: if_splits)
  }
qed auto

text \<open>A dropped row has the key of a row that was kept before it.\<close>

lemma firsts_dropped:
  "x \<in> set xs \<Longrightarrow> k x \<notin> K \<Longrightarrow> \<exists>y\<in>set (firsts k K xs). k y = k x"
  using firsts_props(3) [of k K xs] by (metis DiffI image_iff)

lemma seen_out_distinct:
  "seen_out (\<lambda>row. Inr (Some (row_key E dbg row), row)) K (rows, fin) = (firsts (row_key E dbg) K rows, fin)"
  by (induction rows arbitrary: K) auto

text \<open>SELECT DISTINCT returns, and its rows are a subsequence of the input with exactly one
  row for each key that occurs in it, the first.\<close>

theorem distinct_keeps_first_rows:
  "\<exists>s' result. collect_all (distinct_op E dbg scan_op)
      \<lparr>seen_input = scan_new rows, seen = {}, seen_opened = False\<rparr> = Some (s', Inr result) \<and>
    result = firsts (row_key E dbg) {} rows \<and>
    subseq result rows \<and> distinct (map (row_key E dbg) result) \<and>
    row_key E dbg ` set result = row_key E dbg ` set rows"
  using distinct_scan.seen.collects [of "\<lambda>row. Inr (Some (row_key E dbg row), row)"
      "\<lparr>seen_input = scan_new rows, seen = {}, seen_opened = False\<rparr>"]
    firsts_props [of "row_key E dbg" "{}" rows]
  by (auto simp: distinct_op_def scan_out_def scan_new_def on_rows_def outcome_def seen_out_distinct)

text \<open>The key of a row does not determine its fields: a string that contains the separators
  of \<open>row_key\<close> makes a row with one field look like a row with two, and DISTINCT drops the second
  although no field of the two rows is equal.\<close>

theorem distinct_drops_different_rows:
  fixes E :: "'d env"
  defines "r1 \<equiv> from_doc \<lparr>doc_id = ''t:1'', doc_fields =
      [(''a'', VString (''x'' @ [CHR 0x22] @ ''|b:'' @ [CHR 0x22] @ ''y''))]\<rparr>"
    and "r2 \<equiv> from_doc \<lparr>doc_id = ''t:2'', doc_fields = [(''a'', VString ''x''), (''b'', VString ''y'')]\<rparr>"
  shows "doc_fields (row_doc r1) \<noteq> doc_fields (row_doc r2) \<and>
    (\<exists>s'. collect_all (distinct_op E dbg scan_op)
      \<lparr>seen_input = scan_new [r1, r2], seen = {}, seen_opened = False\<rparr> = Some (s', Inr [r1]))"
proof -
  have "row_key E dbg r1 = row_key E dbg r2"
    by (simp add: r1_def r2_def row_key_def from_doc_def hm_keys_def serialize_value_def)
  then have "seen_out (\<lambda>row. Inr (Some (row_key E dbg row), row)) {} ([r1, r2], None) = ([r1], None)"
    by (simp add: seen_out_distinct)
  then show ?thesis
    using distinct_scan.seen.collects [of "\<lambda>row. Inr (Some (row_key E dbg row), row)"
      "\<lparr>seen_input = scan_new [r1, r2], seen = {}, seen_opened = False\<rparr>"]
    by (auto simp: distinct_op_def scan_out_def scan_new_def on_rows_def outcome_def r1_def r2_def from_doc_def)
qed

interpretation union_scan: united scan_op "\<lambda>_. True" scan_out dedup for dedup
  by (rule united.intro) (rule scan.operator_axioms)

lemma dedup_ids_firsts:
  "dedup_ids (Some K) rows = firsts (\<lambda>row. doc_id (row_doc row)) K rows"
  "dedup_ids None rows = rows"
  by (induction rows arbitrary: K) auto

lemma union_out_scans:
  "union_out dedup (map scan_out (map scan_new rss)) =
   Inr (dedup_ids (if dedup then Some {} else None) (List.concat rss), None)"
proof -
  have "all_opened (map scan_out (map scan_new rss)) = Inr (map (\<lambda>rs. (rs, None)) rss)"
    by (induction rss) (auto simp: scan_out_def scan_new_def)
  moreover have "chain (map (\<lambda>rs. (rs, None)) rss) = (List.concat rss, None)"
    by (induction rss) auto
  ultimately show ?thesis by (simp add: union_out_def on_rows_def union_rows_def)
qed

text \<open>The union of index scans returns the rows of its inputs in order; with deduplication
  it returns every document that some input returns exactly once, where it first occurs.\<close>

theorem union_dedups_by_document:
  "\<exists>s' result. collect_all (union_op scan_op) (union_new (map scan_new rss) dedup) = Some (s', Inr result) \<and>
    (if dedup
     then subseq result (List.concat rss) \<and> distinct (map (\<lambda>row. doc_id (row_doc row)) result) \<and>
          (\<lambda>row. doc_id (row_doc row)) ` set result = (\<lambda>row. doc_id (row_doc row)) ` set (List.concat rss)
     else result = List.concat rss)"
  using union_scan.union.collects [of "union_new (map scan_new rss) dedup" dedup]
    union_out_scans [of dedup rss] firsts_props [of "\<lambda>row. doc_id (row_doc row)" "{}" "List.concat rss"]
  by (auto simp: union_new_def outcome_def dedup_ids_firsts)

text \<open>A union that was closed does not deduplicate when it is opened again: \<open>close\<close> drops the set
  of ids, whose absence means that no deduplication was asked for.\<close>

theorem union_reopen_keeps_duplicates:
  "\<exists>s1 s2. collect_all (union_op scan_op) (union_new [scan_new [r], scan_new [r]] True) = Some (s1, Inr [r]) \<and>
    collect_all (union_op scan_op) s1 = Some (s2, Inr [r, r])"
proof -
  let ?s = "\<lparr>scan_rows = [r], scan_position = 0\<rparr>" and ?d = "\<lparr>scan_rows = [r], scan_position = Suc 0\<rparr>"
  let ?id = "doc_id (row_doc r)"
  let ?U = "\<lambda>is c ids. \<lparr>union_inputs = is, union_current = c, union_seen_ids = ids\<rparr>"
  have s: "op_next scan_op ?s = Some (?d, Inr (Some r))" "op_next scan_op ?d = Some (?d, Inr None)"
    by (simp_all add: scan_op_def)
  have end2: "union_next scan_op (?U [?d, ?d] (Suc (Suc 0)) ids) = Some (?U [?d, ?d] (Suc (Suc 0)) ids, Inr None)" for ids
    by (subst union_next.simps) simp
  have end1: "union_next scan_op (?U [?d, ?d] (Suc 0) ids) = Some (?U [?d, ?d] (Suc (Suc 0)) ids, Inr None)" for ids
    by (subst union_next.simps) (simp add: s end2)
  have skip1: "union_next scan_op (?U [?d, ?s] (Suc 0) (Some {?id})) = Some (?U [?d, ?d] (Suc (Suc 0)) (Some {?id}), Inr None)"
    by (subst union_next.simps) (simp add: s end1)
  have skip0: "union_next scan_op (?U [?d, ?s] 0 (Some {?id})) = Some (?U [?d, ?d] (Suc (Suc 0)) (Some {?id}), Inr None)"
    by (subst union_next.simps) (simp add: s skip1)
  have row1: "union_next scan_op (?U [?d, ?s] 0 None) = Some (?U [?d, ?d] (Suc 0) None, Inr (Some r))"
    by (subst union_next.simps, simp add: s, subst union_next.simps) (simp add: s)
  have row0: "union_next scan_op (?U [?s, ?s] 0 ids) =
      Some (?U [?d, ?s] 0 (map_option (insert ?id) ids), Inr (Some r))" if "ids \<in> {None, Some {}}" for ids
    using that by (subst union_next.simps) (auto simp: s)
  have loop1: "collect_loop (union_op scan_op) [] (?U [?s, ?s] 0 (Some {})) = Some (?U [?d, ?d] (Suc (Suc 0)) (Some {?id}), Inr [r])"
    by (subst collect_loop.simps, simp add: row0, subst collect_loop.simps) (simp add: skip0)
  have loop2: "collect_loop (union_op scan_op) [] (?U [?s, ?s] 0 None) = Some (?U [?d, ?d] (Suc (Suc 0)) None, Inr [r, r])"
    by (subst collect_loop.simps, simp add: row0, subst collect_loop.simps, simp add: row1, subst collect_loop.simps)
      (simp add: end1)
  have o: "op_open (union_op scan_op) (?U is c ids) = Some (?U (map (\<lambda>i. i\<lparr>scan_position := 0\<rparr>) is) 0 ids, Inr ())" for "is" c ids
  proof -
    have "try_each (op_open scan_op) is = Some (map (\<lambda>i. i\<lparr>scan_position := 0\<rparr>) is, Inr ())"
      by (induction "is") (auto simp: scan_op_def on_input_def)
    then show ?thesis by (simp add: union_op_def)
  qed
  have c: "op_close (union_op scan_op) (?U [?d, ?d] c ids) = (?U [?d, ?d] c None, Inr ())" for c ids
    by (simp add: union_op_def scan_op_def on_input_def)
  have "collect_all (union_op scan_op) (union_new [scan_new [r], scan_new [r]] True) =
      Some (?U [?d, ?d] (Suc (Suc 0)) None, Inr [r])"
    by (simp add: collect_all_def union_new_def scan_new_def o loop1 c)
  moreover have "collect_all (union_op scan_op) (?U [?d, ?d] (Suc (Suc 0)) None) =
      Some (?U [?d, ?d] (Suc (Suc 0)) None, Inr [r, r])"
    by (simp add: collect_all_def o loop2 c)
  ultimately show ?thesis by blast
qed

section \<open>Aggregates\<close>

interpretation aggregate_scan: aggregated scan_op "\<lambda>_. True" scan_out E dbg aggs
  for E :: "'d env" and dbg aggs
  by (rule aggregated.intro) (rule scan.operator_axioms)

fun fold_results :: "('a \<Rightarrow> 'b \<Rightarrow> 'b eval_result) \<Rightarrow> 'a list \<Rightarrow> 'b \<Rightarrow> 'b eval_result" where
  "fold_results f [] b = Inr b"
| "fold_results f (x # xs) b = and_then (f x b) (fold_results f xs)"

lemma fold_results_append:
  "fold_results f (xs @ ys) b = and_then (fold_results f xs b) (fold_results f ys)"
proof (induction xs arbitrary: b)
  case (Cons x xs)
  then show ?case by (cases "f x b") auto
qed simp

lemma buffered_out_fold:
  "buffered_out (\<lambda>row. or_keep (f row)) finish b (rows, None) = and_then (fold_results f rows b) finish"
proof (induction rows arbitrary: b)
  case (Cons row rows)
  then show ?case by (cases "f row b") (auto simp: buffered_out_def or_keep_def)
qed (simp add: buffered_out_def)

lemma feed_all_fold:
  "fold_results (\<lambda>row. feed E dbg (row_get_field row f)) rows acc = feed_all E dbg (map (\<lambda>row. row_get_field row f) rows) acc"
proof (induction rows arbitrary: acc)
  case (Cons row rows)
  then show ?case by (cases "feed E dbg (row_get_field row f) acc") auto
qed simp

text \<open>The loop over the accumulators of a row inside the loop over the rows is, for each
  accumulator, a loop over the rows.\<close>

lemma feed_accs_nth:
  "feed_accs E dbg row aggs accs = Inr accs' \<Longrightarrow> length accs = length aggs \<Longrightarrow>
   length accs' = length aggs \<and> (\<forall>j<length aggs. feed_agg E dbg row (aggs ! j) (accs ! j) = Inr (accs' ! j))"
proof (induction E dbg row aggs accs arbitrary: accs' rule: feed_accs.induct)
  case (1 E dbg row agg aggs acc accs)
  then obtain acc' rest where *: "feed_agg E dbg row agg acc = Inr acc'" "feed_accs E dbg row aggs accs = Inr rest"
    "accs' = acc' # rest" by (auto simp: and_then_Inr_iff)
  then have "length rest = length aggs \<and> (\<forall>j<length aggs. feed_agg E dbg row (aggs ! j) (accs ! j) = Inr (rest ! j))"
    using "1.IH" [OF *(2)] "1.prems" by simp
  then show ?case using * by (auto simp: less_Suc_eq_0_disj)
qed auto

lemma fold_accs_nth:
  "fold_results (\<lambda>row. feed_accs E dbg row aggs) rows accs = Inr accs' \<Longrightarrow> length accs = length aggs \<Longrightarrow>
   length accs' = length aggs \<and>
   (\<forall>j<length aggs. fold_results (\<lambda>row. feed_agg E dbg row (aggs ! j)) rows (accs ! j) = Inr (accs' ! j))"
proof (induction rows arbitrary: accs)
  case (Cons row rows)
  then obtain accs1 where "feed_accs E dbg row aggs accs = Inr accs1"
    "fold_results (\<lambda>row. feed_accs E dbg row aggs) rows accs1 = Inr accs'"
    by (auto simp: and_then_Inr_iff)
  then show ?case using Cons.IH [of accs1] feed_accs_nth [of E dbg row aggs accs accs1] Cons.prems by auto
qed simp

lemma insert_results_get:
  "insert_results L aggs accs fs = Inr fs' \<Longrightarrow> length accs = length aggs \<Longrightarrow> distinct (map ra_alias aggs) \<Longrightarrow>
   (\<forall>j<length aggs. \<exists>v. acc_result L (accs ! j) = Inr v \<and> hm_get fs' (ra_alias (aggs ! j)) = Some v) \<and>
   (\<forall>k. k \<notin> ra_alias ` set aggs \<longrightarrow> hm_get fs' k = hm_get fs k)"
proof (induction L aggs accs fs rule: insert_results.induct)
  case (1 L agg aggs acc accs fs)
  then obtain v where v: "acc_result L acc = Inr v"
    "insert_results L aggs accs (hm_insert (ra_alias agg) v fs) = Inr fs'"
    by (auto simp: and_then_Inr_iff)
  have IH: "(\<forall>j<length aggs. \<exists>v. acc_result L (accs ! j) = Inr v \<and> hm_get fs' (ra_alias (aggs ! j)) = Some v) \<and>
   (\<forall>k. k \<notin> ra_alias ` set aggs \<longrightarrow> hm_get fs' k = hm_get (hm_insert (ra_alias agg) v fs) k)"
    using "1.IH" [OF v(2)] "1.prems" by simp
  then have "hm_get fs' (ra_alias agg) = Some v" using "1.prems"(3) by auto
  then show ?case using v IH by (auto simp: less_Suc_eq_0_disj)
qed auto

definition agg_value :: "'d env \<Rightarrow> (Value \<Rightarrow> string) \<Rightarrow> Row list \<Rightarrow> ResolvedAggregate \<Rightarrow> Value eval_result" where
  "agg_value E dbg rows agg =
     and_then (fold_results (\<lambda>row. feed_agg E dbg row agg) rows
        (accumulator_new (env_libs E) (ra_function agg) (ra_distinct agg))) (acc_result (env_libs E))"

lemma feed_agg_field: "ra_arg agg = AggField f \<Longrightarrow> feed_agg E dbg row agg = feed E dbg (row_get_field row f)"
  by (rule ext) (simp add: feed_agg_def)

lemma agg_value_column:
  "ra_arg agg = AggField f \<Longrightarrow>
   agg_value E dbg rows agg = column E dbg (ra_function agg) (ra_distinct agg) (map (\<lambda>row. row_get_field row f) rows)"
  by (simp add: agg_value_def feed_agg_field column_def feed_all_fold)

lemma agg_value_count_star:
  assumes "ra_arg agg = Wildcard" "ra_function agg = Count" "\<not> ra_distinct agg"
  shows "agg_value E dbg rows agg = Inr (VInt (of_nat (length rows)))"
proof -
  have "fold_results (\<lambda>row. feed_agg E dbg row agg) rows a = Inr (a\<lparr>acc_count := acc_count a + length rows\<rparr>)" for a
    using assms(1) by (induction rows arbitrary: a) (auto simp: feed_agg_def feed_wildcard_def)
  then show ?thesis using assms by (simp add: agg_value_def accumulator_new_def acc_result_def)
qed

lemma aggregate_fields:
  assumes "and_then (fold_results (\<lambda>row. feed_accs E dbg row aggs) rows (new_accs (env_libs E) aggs))
      (\<lambda>accs. insert_results (env_libs E) aggs accs fs) = Inr fs'"
    and "distinct (map ra_alias aggs)"
  shows "(\<forall>agg\<in>set aggs. \<exists>v. agg_value E dbg rows agg = Inr v \<and> hm_get fs' (ra_alias agg) = Some v) \<and>
    (\<forall>k. k \<notin> ra_alias ` set aggs \<longrightarrow> hm_get fs' k = hm_get fs k)"
proof -
  obtain accs where accs: "fold_results (\<lambda>row. feed_accs E dbg row aggs) rows (new_accs (env_libs E) aggs) = Inr accs"
    "insert_results (env_libs E) aggs accs fs = Inr fs'"
    using assms(1) by (auto simp: and_then_Inr_iff)
  have len: "length (new_accs (env_libs E) aggs) = length aggs" by (simp add: new_accs_def)
  note nth = fold_accs_nth [OF accs(1) len]
  note ins = insert_results_get [OF accs(2) conjunct1 [OF nth] assms(2)]
  have "\<exists>v. agg_value E dbg rows agg = Inr v \<and> hm_get fs' (ra_alias agg) = Some v" if agg: "agg \<in> set aggs" for agg
  proof -
    obtain j where j: "j < length aggs" "aggs ! j = agg" using agg by (auto simp: in_set_conv_nth)
    have "fold_results (\<lambda>row. feed_agg E dbg row agg) rows
        (accumulator_new (env_libs E) (ra_function agg) (ra_distinct agg)) = Inr (accs ! j)"
      using nth j by (auto simp: new_accs_def)
    then show ?thesis using ins j by (auto simp: agg_value_def)
  qed
  then show ?thesis using ins by blast
qed

text \<open>A SELECT of aggregates returns; when it succeeds it yields exactly one row, in which the
  alias of each aggregate has the value of that aggregate over the rows alone: for a field, the
  aggregate of its column, and for \<open>COUNT(*)\<close> the number of rows.\<close>

theorem aggregate_row_correct:
  assumes "distinct (map ra_alias aggs)"
  shows "\<exists>s' r. collect_all (aggregate_op E dbg aggs scan_op) (aggregate_new (scan_new rows)) = Some (s', r) \<and>
    (case r of Inl _ \<Rightarrow> True
     | Inr result \<Rightarrow> \<exists>fs. result = [result_row fs] \<and>
         (\<forall>agg\<in>set aggs. \<exists>v. hm_get fs (ra_alias agg) = Some v \<and>
            (case ra_arg agg of
               AggField f \<Rightarrow> column E dbg (ra_function agg) (ra_distinct agg) (map (\<lambda>row. row_get_field row f) rows) = Inr v
             | Wildcard \<Rightarrow> (ra_function agg = Count \<and> \<not> ra_distinct agg \<longrightarrow> v = VInt (of_nat (length rows))))))"
proof -
  let ?r = "and_then (fold_results (\<lambda>row. feed_accs E dbg row aggs) rows (new_accs (env_libs E) aggs))
      (\<lambda>accs. insert_results (env_libs E) aggs accs [])"
  obtain s' where s': "collect_all (aggregate_op E dbg aggs scan_op) (aggregate_new (scan_new rows)) =
      Some (s', outcome (finished (\<lambda>fs. [result_row fs]) ?r))"
    using aggregate_scan.aggregate.collects [of E dbg aggs "aggregate_new (scan_new rows)"]
    by (auto simp: aggregate_new_def scan_new_def scan_out_def aggregate_out_def buffered_out_fold)
  show ?thesis
  proof (cases ?r)
    case (Inl e)
    then show ?thesis using s' by (auto simp: finished_def outcome_def)
  next
    case (Inr fs)
    have "\<exists>v. hm_get fs (ra_alias agg) = Some v \<and>
            (case ra_arg agg of
               AggField f \<Rightarrow> column E dbg (ra_function agg) (ra_distinct agg) (map (\<lambda>row. row_get_field row f) rows) = Inr v
             | Wildcard \<Rightarrow> (ra_function agg = Count \<and> \<not> ra_distinct agg \<longrightarrow> v = VInt (of_nat (length rows))))"
      if agg: "agg \<in> set aggs" for agg
    proof -
      obtain v where "agg_value E dbg rows agg = Inr v" "hm_get fs (ra_alias agg) = Some v"
        using aggregate_fields [OF Inr assms] agg by blast
      then show ?thesis
        using agg_value_column [of agg _ E dbg rows] agg_value_count_star [of agg E dbg rows]
        by (auto split: AggregateArg.splits)
    qed
    then show ?thesis using s' Inr by (auto simp: finished_def outcome_def)
  qed
qed

theorem aggregate_row_correct_witness:
  "distinct (map ra_alias [\<lparr>ra_function = Count, ra_arg = Wildcard, ra_alias = ''n'', ra_distinct = False\<rparr>]) \<and>
   (\<exists>s' r. collect_all (aggregate_op int_env (\<lambda>_. []) [\<lparr>ra_function = Count, ra_arg = Wildcard, ra_alias = ''n'', ra_distinct = False\<rparr>] scan_op)
     (aggregate_new (scan_new [row_scalar VNull])) = Some (s', r) \<and>
     (case r of Inl _ \<Rightarrow> True | Inr result \<Rightarrow> \<exists>fs. result = [result_row fs] \<and>
         (\<forall>agg\<in>set [\<lparr>ra_function = Count, ra_arg = Wildcard, ra_alias = ''n'', ra_distinct = False\<rparr>]. \<exists>v. hm_get fs (ra_alias agg) = Some v \<and>
            (case ra_arg agg of
               AggField f \<Rightarrow> column int_env (\<lambda>_. []) (ra_function agg) (ra_distinct agg) (map (\<lambda>row. row_get_field row f) [row_scalar VNull]) = Inr v
             | Wildcard \<Rightarrow> (ra_function agg = Count \<and> \<not> ra_distinct agg \<longrightarrow> v = VInt (of_nat (length [row_scalar VNull])))))))"
  by (intro conjI aggregate_row_correct) simp_all

section \<open>GROUP BY\<close>

interpretation group_scan: grouped scan_op "\<lambda>_. True" scan_out E dbg gfs aggs
  for E :: "'d env" and dbg gfs aggs
  by (rule grouped.intro) (rule scan.operator_axioms)

definition key_of :: "'d env \<Rightarrow> (Value \<Rightarrow> string) \<Rightarrow> string list \<Rightarrow> Row \<Rightarrow> string" where
  "key_of E dbg gfs row = group_key E dbg (group_values gfs row)"

lemma firsts_snoc:
  "firsts k K (xs @ [x]) = firsts k K xs @ (if k x \<in> K \<union> k ` set xs then [] else [x])"
  by (induction xs arbitrary: K) auto

text \<open>The state of the loop after the rows: one entry per key, with the values of the first row of
  its group and accumulators fed with the rows of the group.\<close>

definition group_entry ::
  "'d env \<Rightarrow> (Value \<Rightarrow> string) \<Rightarrow> string list \<Rightarrow> ResolvedAggregate list \<Rightarrow> Row list \<Rightarrow>
   (string \<times> Value list \<times> 'd accumulator list) list \<Rightarrow> string \<Rightarrow> bool" where
  "group_entry E dbg gfs aggs rows groups k \<longleftrightarrow>
     (if k \<in> key_of E dbg gfs ` set rows
      then \<exists>accs. hm_get groups k = Some (group_values gfs (hd (filter (\<lambda>r. key_of E dbg gfs r = k) rows)), accs) \<and>
         fold_results (\<lambda>row. feed_accs E dbg row aggs) (filter (\<lambda>r. key_of E dbg gfs r = k) rows)
           (new_accs (env_libs E) aggs) = Inr accs
      else hm_get groups k = None)"

definition groups_of ::
  "'d env \<Rightarrow> (Value \<Rightarrow> string) \<Rightarrow> string list \<Rightarrow> ResolvedAggregate list \<Rightarrow> Row list \<Rightarrow> 'd groups \<Rightarrow> bool" where
  "groups_of E dbg gfs aggs rows gs \<longleftrightarrow>
     hm_wf (fst gs) \<and> snd gs = map (key_of E dbg gfs) (firsts (key_of E dbg gfs) {} rows) \<and>
     (\<forall>k. group_entry E dbg gfs aggs rows (fst gs) k)"

lemma group_entry_other:
  "k \<noteq> key_of E dbg gfs row \<Longrightarrow> group_entry E dbg gfs aggs rows groups k \<Longrightarrow>
   group_entry E dbg gfs aggs (rows @ [row]) (hm_insert (key_of E dbg gfs row) entry groups) k"
  by (simp add: group_entry_def split: if_splits)

lemma group_rows_groups_of:
  "fold_results (group_row E dbg gfs aggs) rows ([], []) = Inr gs \<Longrightarrow> groups_of E dbg gfs aggs rows gs"
proof (induction rows arbitrary: gs rule: rev_induct)
  case Nil
  then show ?case by (auto simp: groups_of_def group_entry_def)
next
  case (snoc row rows)
  let ?k = "key_of E dbg gfs row" and ?F = "\<lambda>k. filter (\<lambda>r. key_of E dbg gfs r = k)"
  obtain groups order where g0: "fold_results (group_row E dbg gfs aggs) rows ([], []) = Inr (groups, order)"
    "group_row E dbg gfs aggs row (groups, order) = Inr gs"
    using snoc.prems by (auto simp: fold_results_append and_then_Inr_iff)
  note IH = snoc.IH [OF g0(1), unfolded groups_of_def fst_conv snd_conv]
  show ?case
  proof (cases "?k \<in> key_of E dbg gfs ` set rows")
    case True
    then obtain accs where accs: "hm_get groups ?k = Some (group_values gfs (hd (?F ?k rows)), accs)"
      "fold_results (\<lambda>row. feed_accs E dbg row aggs) (?F ?k rows) (new_accs (env_libs E) aggs) = Inr accs"
      using IH unfolding group_entry_def by metis
    obtain accs' where accs': "feed_accs E dbg row aggs accs = Inr accs'"
      "gs = (hm_insert ?k (group_values gfs (hd (?F ?k rows)), accs') groups, order)"
      using g0(2) accs(1) by (auto simp: group_row_def key_of_def Let_def and_then_Inr_iff)
    have "?F ?k rows \<noteq> []" using True by (auto simp: filter_empty_conv)
    then have hd: "hd (?F ?k rows @ [row]) = hd (?F ?k rows)" by simp
    have entry: "group_entry E dbg gfs aggs (rows @ [row]) (fst gs) k" for k
      using IH group_entry_other accs accs' hd
      by (cases "k = ?k") (simp add: group_entry_def fold_results_append, fastforce)
    then show ?thesis using IH True accs'(2) by (simp add: groups_of_def firsts_snoc)
  next
    case False
    then have none: "hm_get groups ?k = None" using IH unfolding group_entry_def by metis
    obtain accs' where accs': "feed_accs E dbg row aggs (new_accs (env_libs E) aggs) = Inr accs'"
      "gs = (hm_insert ?k (group_values gfs row, accs') groups, order @ [?k])"
      using g0(2) none by (auto simp: group_row_def key_of_def Let_def and_then_Inr_iff)
    have nil: "?F ?k rows = []" using False by (auto simp: filter_empty_conv intro: rev_image_eqI)
    have "group_entry E dbg gfs aggs (rows @ [row]) (fst gs) k" for k
      using IH group_entry_other nil accs'
      by (cases "k = ?k") (simp add: group_entry_def fold_results_append, fastforce)
    then show ?thesis using IH False accs'(2) by (simp add: groups_of_def firsts_snoc)
  qed
qed

lemma emit_groups_nth:
  "emit_groups L gfs aggs (groups, order) = Inr result \<Longrightarrow> distinct order \<Longrightarrow> hm_wf groups \<Longrightarrow>
   length result = length order \<and>
   (\<forall>j<length order. \<exists>vals accs fs. hm_get groups (order ! j) = Some (vals, accs) \<and>
      insert_results L aggs accs (insert_all (zip gfs vals) []) = Inr fs \<and> result ! j = result_row fs)"
proof (induction order arbitrary: groups result)
  case (Cons k order)
  then obtain vals accs fs rows where *: "hm_get groups k = Some (vals, accs)"
    "insert_results L aggs accs (insert_all (zip gfs vals) []) = Inr fs"
    "emit_groups L gfs aggs (hm_remove k groups, order) = Inr rows" "result = result_row fs # rows"
    by (auto simp: and_then_Inr_iff split: option.splits)
  note IH = Cons.IH [OF *(3)]
  have "hm_get (hm_remove k groups) (order ! j) = hm_get groups (order ! j)" if "j < length order" for j
    using Cons.prems that by (auto simp: in_set_conv_nth)
  then show ?case using IH * Cons.prems by (auto simp: less_Suc_eq_0_disj)
qed auto

lemma insert_all_get:
  "distinct (map fst kvs) \<Longrightarrow> hm_get (insert_all kvs fs) k =
     (case map_of kvs k of Some v \<Rightarrow> Some v | None \<Rightarrow> hm_get fs k)"
  by (induction kvs fs rule: insert_all.induct) (auto split: option.splits dest!: map_of_SomeD intro: rev_image_eqI)

lemma firsts_first:
  "x \<in> set (firsts k K xs) \<Longrightarrow> hd (filter (\<lambda>y. k y = k x) xs) = x"
proof (induction xs arbitrary: K)
  case (Cons y ys)
  have seen: "k z \<notin> L" if "z \<in> set (firsts k L ys)" for z L
    using that firsts_props(3) [of k L ys] by blast
  show ?case
  proof (cases "k y \<in> K")
    case True
    then have "x \<in> set (firsts k K ys)" using Cons.prems by simp
    moreover from this have "k y \<noteq> k x" using seen True by metis
    ultimately show ?thesis using Cons.IH by simp
  next
    case False
    then consider "x = y" | "x \<in> set (firsts k (insert (k y) K) ys)" using Cons.prems by auto
    then show ?thesis
    proof cases
      case 2
      moreover from this have "k y \<noteq> k x" using seen by (metis insertI1)
      ultimately show ?thesis using Cons.IH by simp
    qed simp
  qed
qed simp

lemma group_fields_of_first:
  "distinct gfs \<Longrightarrow> f \<in> set gfs \<Longrightarrow> hm_get (insert_all (zip gfs (group_values gfs row)) []) f =
     Some (case row_get_field row f of Some v \<Rightarrow> v | None \<Rightarrow> VNull)"
  by (simp add: insert_all_get group_values_def map_of_zip_map)

lemma group_result:
  assumes gs: "groups_of E dbg gfs aggs rows gs" and emit: "emit_groups (env_libs E) gfs aggs gs = Inr result"
    and dist: "distinct (map ra_alias aggs)" "distinct gfs" "set (map ra_alias aggs) \<inter> set gfs = {}"
  shows "list_all2 (\<lambda>first out. \<exists>fs. out = result_row fs \<and>
        (\<forall>f\<in>set gfs. hm_get fs f = Some (case row_get_field first f of Some v \<Rightarrow> v | None \<Rightarrow> VNull)) \<and>
        (\<forall>agg\<in>set aggs. \<exists>v. hm_get fs (ra_alias agg) = Some v \<and>
           agg_value E dbg (filter (\<lambda>r. key_of E dbg gfs r = key_of E dbg gfs first) rows) agg = Inr v))
      (firsts (key_of E dbg gfs) {} rows) result"
proof -
  let ?key = "key_of E dbg gfs" and ?F = "\<lambda>k. filter (\<lambda>r. key_of E dbg gfs r = k) rows"
  let ?firsts = "firsts ?key {} rows"
  obtain groups where groups: "gs = (groups, map ?key ?firsts)" "hm_wf groups"
    and entries: "\<And>k. group_entry E dbg gfs aggs rows groups k"
    using gs by (cases gs) (auto simp: groups_of_def)
  note nth = emit_groups_nth [OF emit [unfolded groups(1)] firsts_props(2) groups(2)]
  show ?thesis
  proof (rule list_all2_all_nthI)
    show "length ?firsts = length result" using nth by simp
    fix j assume j: "j < length ?firsts"
    let ?row = "?firsts ! j"
    obtain vals accs fs where fs: "hm_get groups (?key ?row) = Some (vals, accs)"
      "insert_results (env_libs E) aggs accs (insert_all (zip gfs vals) []) = Inr fs" "result ! j = result_row fs"
      using nth j by auto
    have "?key ?row \<in> ?key ` set rows" using j firsts_props(3) [of ?key "{}" rows] nth_mem [OF j] by blast
    then have accs: "vals = group_values gfs ?row"
      "fold_results (\<lambda>row. feed_accs E dbg row aggs) (?F (?key ?row)) (new_accs (env_libs E) aggs) = Inr accs"
      using entries [of "?key ?row"] fs(1) firsts_first [OF nth_mem [OF j]] by (auto simp: group_entry_def)
    note ag = aggregate_fields [of E dbg aggs "?F (?key ?row)" "insert_all (zip gfs vals) []" fs, OF _ dist(1)]
    have "and_then (fold_results (\<lambda>row. feed_accs E dbg row aggs) (?F (?key ?row)) (new_accs (env_libs E) aggs))
        (\<lambda>accs. insert_results (env_libs E) aggs accs (insert_all (zip gfs vals) [])) = Inr fs"
      using accs fs(2) by simp
    note ag = ag [OF this]
    have "hm_get fs f = Some (case row_get_field ?row f of Some v \<Rightarrow> v | None \<Rightarrow> VNull)" if "f \<in> set gfs" for f
    proof -
      have "f \<notin> ra_alias ` set aggs" using dist(3) that by auto
      then show ?thesis using ag group_fields_of_first [OF dist(2) that] accs(1) by simp
    qed
    moreover have "\<exists>v. hm_get fs (ra_alias agg) = Some v \<and> agg_value E dbg (?F (?key ?row)) agg = Inr v"
      if "agg \<in> set aggs" for agg
      using ag that by blast
    ultimately show "\<exists>fs. result ! j = result_row fs \<and>
        (\<forall>f\<in>set gfs. hm_get fs f = Some (case row_get_field ?row f of Some v \<Rightarrow> v | None \<Rightarrow> VNull)) \<and>
        (\<forall>agg\<in>set aggs. \<exists>v. hm_get fs (ra_alias agg) = Some v \<and> agg_value E dbg (?F (?key ?row)) agg = Inr v)"
      using fs(3) by blast
  qed
qed

text \<open>C15: GROUP BY returns; when it succeeds there is one row per group key, in the order in which
  the keys first occur. In the row of a group the grouping fields have the values of the first row
  of the group, and the alias of each aggregate has the value of that aggregate over exactly the
  input rows with the key of the group.\<close>

theorem group_by_correct:
  assumes "distinct (map ra_alias aggs)" "distinct gfs" "set (map ra_alias aggs) \<inter> set gfs = {}"
  shows "\<exists>s' r. collect_all (group_op E dbg gfs aggs scan_op) (group_new (scan_new rows)) = Some (s', r) \<and>
    (case r of Inl _ \<Rightarrow> True
     | Inr result \<Rightarrow> list_all2 (\<lambda>first out. \<exists>fs. out = result_row fs \<and>
        (\<forall>f\<in>set gfs. hm_get fs f = Some (case row_get_field first f of Some v \<Rightarrow> v | None \<Rightarrow> VNull)) \<and>
        (\<forall>agg\<in>set aggs. \<exists>v. hm_get fs (ra_alias agg) = Some v \<and>
           agg_value E dbg (filter (\<lambda>r. key_of E dbg gfs r = key_of E dbg gfs first) rows) agg = Inr v))
      (firsts (key_of E dbg gfs) {} rows) result)"
proof -
  let ?r = "and_then (fold_results (group_row E dbg gfs aggs) rows ([], [])) (emit_groups (env_libs E) gfs aggs)"
  obtain s' where s': "collect_all (group_op E dbg gfs aggs scan_op) (group_new (scan_new rows)) =
      Some (s', outcome (finished id ?r))"
    using group_scan.group.collects [of E dbg gfs aggs "group_new (scan_new rows)"]
    by (auto simp: group_new_def scan_new_def scan_out_def group_out_def buffered_out_fold)
  show ?thesis
  proof (cases ?r)
    case (Inl e)
    then show ?thesis using s' by (auto simp: finished_def outcome_def)
  next
    case (Inr result)
    then obtain gs where "fold_results (group_row E dbg gfs aggs) rows ([], []) = Inr gs"
      "emit_groups (env_libs E) gfs aggs gs = Inr result"
      by (auto simp: and_then_Inr_iff)
    from group_result [OF group_rows_groups_of [OF this(1)] this(2) assms]
    show ?thesis using s' Inr by (auto simp: finished_def outcome_def)
  qed
qed

theorem group_by_correct_witness:
  "distinct (map ra_alias [\<lparr>ra_function = Count, ra_arg = Wildcard, ra_alias = ''n'', ra_distinct = False\<rparr>]) \<and> distinct [''city''] \<and>
   (\<exists>s' r. collect_all (group_op int_env (\<lambda>_. []) [''city''] [\<lparr>ra_function = Count, ra_arg = Wildcard, ra_alias = ''n'', ra_distinct = False\<rparr>] scan_op)
     (group_new (scan_new [row_scalar VNull])) = Some (s', r) \<and>
    (case r of Inl _ \<Rightarrow> True
     | Inr result \<Rightarrow> list_all2 (\<lambda>first out. \<exists>fs. out = result_row fs \<and>
        (\<forall>f\<in>set [''city'']. hm_get fs f = Some (case row_get_field first f of Some v \<Rightarrow> v | None \<Rightarrow> VNull)) \<and>
        (\<forall>agg\<in>set [\<lparr>ra_function = Count, ra_arg = Wildcard, ra_alias = ''n'', ra_distinct = False\<rparr>]. \<exists>v. hm_get fs (ra_alias agg) = Some v \<and>
           agg_value int_env (\<lambda>_. []) (filter (\<lambda>r. key_of int_env (\<lambda>_. []) [''city''] r = key_of int_env (\<lambda>_. []) [''city''] first) [row_scalar VNull]) agg = Inr v))
      (firsts (key_of int_env (\<lambda>_. []) [''city'']) {} [row_scalar VNull]) result))"
  by (intro conjI group_by_correct) simp_all

end
