(* ===== verification/Lock_Stripes.thy ===== *)
theory Lock_Stripes
  imports Stellar_Prelude
begin

text \<open>
  \<open>storage/lock_stripes.rs\<close>: \<open>2^n\<close> mutexes, a key locks the one its hash selects. The hash
  (\<open>xxh3\<close>, a crate) is the parameter \<open>hash\<close>; \<open>usize\<close> has 64 bits.

  \<open>lock_multiple\<close> locks the stripes of several keys one after the other. The stripe_step relation
  \<open>stripe_step\<close> interleaves threads that each run one call and then drop the guards; a lock that another
  thread holds blocks. Any number of such threads run without deadlock and all of them finish.
\<close>

section \<open>Stripes\<close>

definition DEFAULT_STRIPE_COUNT :: nat where
  "DEFAULT_STRIPE_COUNT = 64"

record LockStripes =
  stripes :: nat
  stripe_mask :: u64

definition is_power_of_two :: "nat \<Rightarrow> bool" where
  "is_power_of_two n \<longleftrightarrow> n \<in> (\<lambda>k. 2 ^ k) ` {..<64}"

text \<open>The two assertions of \<open>with_count\<close>: it panics on other counts.\<close>

definition with_count :: "nat \<Rightarrow> LockStripes option" where
  "with_count count =
     (if \<not> 0 < count then None
      else if \<not> is_power_of_two count then None
      else Some \<lparr>stripes = count, stripe_mask = of_nat (count - 1)\<rparr>)"

definition lock_stripes_new :: "LockStripes option" where
  "lock_stripes_new = with_count DEFAULT_STRIPE_COUNT"

definition stripe_index :: "('k \<Rightarrow> u64) \<Rightarrow> LockStripes \<Rightarrow> 'k \<Rightarrow> nat" where
  "stripe_index hash ls k = unat (and (hash k) (stripe_mask ls))"

text \<open>The stripes that \<open>lock_multiple\<close> acquires, in its order: sorted, each once.\<close>

definition lock_order :: "('k \<Rightarrow> u64) \<Rightarrow> LockStripes \<Rightarrow> 'k list \<Rightarrow> nat list" where
  "lock_order hash ls ks = remdups_adj (sort (map (stripe_index hash ls) ks))"

section \<open>Threads\<close>

text \<open>A thread inside \<open>lock_multiple\<close> or after it: the stripes still to lock and the guards it
  holds. \<open>lock\<close> is the case of one key.\<close>

record thread =
  wanted :: "nat list"
  guards :: "nat list"

type_synonym threads = "thread list"

definition call_lock_multiple :: "('k \<Rightarrow> u64) \<Rightarrow> LockStripes \<Rightarrow> 'k list \<Rightarrow> thread" where
  "call_lock_multiple hash ls ks = \<lparr>wanted = lock_order hash ls ks, guards = []\<rparr>"

definition locked :: "threads \<Rightarrow> nat \<Rightarrow> bool" where
  "locked ts s \<longleftrightarrow> (\<exists>t\<in>set ts. s \<in> set (guards t))"

definition try_lock :: "('k \<Rightarrow> u64) \<Rightarrow> LockStripes \<Rightarrow> threads \<Rightarrow> 'k \<Rightarrow> nat option" where
  "try_lock hash ls ts k =
     (let stripe_idx = stripe_index hash ls k in if locked ts stripe_idx then None else Some stripe_idx)"

inductive stripe_step :: "threads \<Rightarrow> threads \<Rightarrow> bool" where
  acquire: "i < length ts \<Longrightarrow> wanted (ts ! i) = s # rest \<Longrightarrow> \<not> locked ts s \<Longrightarrow>
    stripe_step ts (ts[i := \<lparr>wanted = rest, guards = guards (ts ! i) @ [s]\<rparr>])"
| release: "i < length ts \<Longrightarrow> wanted (ts ! i) = [] \<Longrightarrow> guards (ts ! i) \<noteq> [] \<Longrightarrow>
    stripe_step ts (ts[i := \<lparr>wanted = [], guards = []\<rparr>])"

definition finished_threads :: "threads \<Rightarrow> bool" where
  "finished_threads ts \<longleftrightarrow> (\<forall>t\<in>set ts. wanted t = [] \<and> guards t = [])"

section \<open>Invariant\<close>

text \<open>Guards and wanted stripes of a thread ascend, and no stripe has two holders.\<close>

definition locks_ordered :: "threads \<Rightarrow> bool" where
  "locks_ordered ts \<longleftrightarrow> (\<forall>t\<in>set ts. sorted_wrt (<) (guards t @ wanted t))"

definition locks_exclusive :: "threads \<Rightarrow> bool" where
  "locks_exclusive ts \<longleftrightarrow> (\<forall>i<length ts. \<forall>j<length ts. i \<noteq> j \<longrightarrow> set (guards (ts ! i)) \<inter> set (guards (ts ! j)) = {})"

lemma locks_ordered_nth: "locks_ordered ts \<Longrightarrow> i < length ts \<Longrightarrow> sorted_wrt (<) (guards (ts ! i) @ wanted (ts ! i))"
  by (simp add: locks_ordered_def)

lemma strict_sorted_remdups_adj:
  fixes xs :: "nat list"
  shows "sorted xs \<Longrightarrow> sorted_wrt (<) (remdups_adj xs)"
  by (induction xs rule: remdups_adj.induct) (auto simp: less_le)

lemma lock_order_sorted: "sorted_wrt (<) (lock_order hash ls ks)"
  by (simp add: lock_order_def strict_sorted_remdups_adj)

lemma step_invariant:
  assumes "stripe_step ts ts'" "locks_ordered ts" "locks_exclusive ts"
  shows "locks_ordered ts' \<and> locks_exclusive ts'"
  using assms
proof (cases rule: stripe_step.cases)
  case (acquire i s rest)
  have "sorted_wrt (<) ((guards (ts ! i) @ [s]) @ rest)"
    using locks_ordered_nth [OF assms(2) acquire(2)] acquire(3) by simp
  moreover have "s \<notin> set (guards (ts ! j))" if "j < length ts" for j
    using acquire(4) that by (auto simp: locked_def)
  ultimately show ?thesis using acquire(1,2) assms(2,3)
    by (auto simp: locks_ordered_def locks_exclusive_def nth_list_update dest!: set_update_subset_insert [THEN subsetD])
next
  case (release i)
  then show ?thesis using assms(2,3)
    by (auto simp: locks_ordered_def locks_exclusive_def nth_list_update dest!: set_update_subset_insert [THEN subsetD])
qed

lemma steps_invariant:
  assumes "stripe_step\<^sup>*\<^sup>* ts ts'" "locks_ordered ts" "locks_exclusive ts"
  shows "locks_ordered ts' \<and> locks_exclusive ts'"
  using assms(1) by (induction rule: rtranclp_induct) (use assms(2,3) step_invariant in blast)+

section \<open>Progress\<close>

lemma blocked_waits_for_higher:
  assumes "locks_ordered ts" "\<forall>t\<in>set ts. wanted t = [] \<longrightarrow> guards t = []" "locked ts s"
  obtains t where "t \<in> set ts" "wanted t \<noteq> []" "s < hd (wanted t)"
proof -
  obtain t where t: "t \<in> set ts" "s \<in> set (guards t)" using assms(3) by (auto simp: locked_def)
  then have w: "wanted t \<noteq> []" using assms(2) by fastforce
  moreover have "s < hd (wanted t)"
    using assms(1) t w by (auto simp: locks_ordered_def sorted_wrt_append)
  ultimately show thesis using that t(1) by blast
qed

lemma stripe_progress:
  assumes "locks_ordered ts" "\<not> finished_threads ts"
  shows "\<exists>ts'. stripe_step ts ts'"
proof (cases "\<exists>t\<in>set ts. wanted t = [] \<and> guards t \<noteq> []")
  case True
  then show ?thesis using stripe_step.release by (metis in_set_conv_nth)
next
  case False
  then have idle: "\<forall>t\<in>set ts. wanted t = [] \<longrightarrow> guards t = []" by blast
  let ?W = "{t \<in> set ts. wanted t \<noteq> []}"
  have "?W \<noteq> {}" using assms(2) idle by (auto simp: finished_threads_def)
  then obtain t where t: "t \<in> ?W" "\<forall>u\<in>?W. hd (wanted u) \<le> hd (wanted t)"
    using Max_in [of "(\<lambda>t. hd (wanted t)) ` ?W"] Max_ge [of "(\<lambda>t. hd (wanted t)) ` ?W"] by fastforce
  have "\<not> locked ts (hd (wanted t))"
  proof
    assume "locked ts (hd (wanted t))"
    with assms(1) idle show False by (rule blocked_waits_for_higher) (use t(2) in fastforce)
  qed
  moreover obtain i where "i < length ts" "ts ! i = t" using t(1) by (auto simp: in_set_conv_nth)
  moreover have "wanted t = hd (wanted t) # tl (wanted t)" using t(1) by simp
  ultimately show ?thesis using stripe_step.acquire by metis
qed

definition lock_work :: "threads \<Rightarrow> nat" where
  "lock_work ts = sum_list (map (\<lambda>t. 2 * length (wanted t) + (if guards t = [] then 0 else 1)) ts)"

lemma sum_list_update_less:
  fixes f :: "'a \<Rightarrow> nat"
  shows "i < length xs \<Longrightarrow> f x < f (xs ! i) \<Longrightarrow> sum_list (map f (xs[i := x])) < sum_list (map f xs)"
  by (induction xs arbitrary: i) (auto split: nat.splits)

lemma step_work:
  assumes "stripe_step ts ts'"
  shows "lock_work ts' < lock_work ts"
  using assms unfolding lock_work_def
  by (cases rule: stripe_step.cases) (auto intro!: sum_list_update_less)

lemma reaches_finish:
  assumes "locks_ordered ts" "locks_exclusive ts"
  shows "\<exists>ts'. stripe_step\<^sup>*\<^sup>* ts ts' \<and> finished_threads ts'"
  using assms
proof (induction "lock_work ts" arbitrary: ts rule: less_induct)
  case less
  show ?case
  proof (cases "finished_threads ts")
    case False
    then obtain ts1 where ts1: "stripe_step ts ts1" using stripe_progress less.prems(1) by blast
    obtain ts' where "stripe_step\<^sup>*\<^sup>* ts1 ts'" "finished_threads ts'"
      using less.hyps [OF step_work [OF ts1]] step_invariant [OF ts1 less.prems] by blast
    then show ?thesis using ts1 by (meson converse_rtranclp_into_rtranclp)
  qed blast
qed

lemma no_infinite_run: "\<not> (\<forall>n. stripe_step (f n) (f (Suc n)))"
proof
  assume run: "\<forall>n. stripe_step (f n) (f (Suc n))"
  have "lock_work (f n) + n \<le> lock_work (f 0)" for n
  proof (induction n)
    case (Suc n)
    have "lock_work (f (Suc n)) < lock_work (f n)" using run step_work by blast
    then show ?case using Suc.IH by simp
  qed simp
  from this [of "Suc (lock_work (f 0))"] show False by simp
qed

lemma calls_start:
  "locks_ordered (map (call_lock_multiple hash ls) kss)" "locks_exclusive (map (call_lock_multiple hash ls) kss)"
  by (simp_all add: locks_ordered_def locks_exclusive_def call_lock_multiple_def lock_order_sorted)

section \<open>Properties\<close>

text \<open>Every key selects a stripe that exists, so that indexing the array of mutexes does not panic:
  for every count that \<open>with_count\<close> accepts, in particular the default.\<close>

theorem stripe_index_in_bounds:
  assumes "with_count count = Some ls"
  shows "stripes ls = count \<and> stripe_index hash ls k < count \<and>
    set (lock_order hash ls ks) = stripe_index hash ls ` set ks"
proof -
  obtain n where n: "count = 2 ^ n" "n < 64" "ls = \<lparr>stripes = count, stripe_mask = of_nat (count - 1)\<rparr>"
    using assms by (auto simp: with_count_def is_power_of_two_def split: if_splits)
  have "unat (of_nat (count - 1) :: u64) = count - 1"
  proof -
    have "count - 1 < 2 ^ 64" using n(2) power_strict_increasing [of n 64 "2 :: nat"] by (simp add: n(1))
    then show ?thesis by (simp add: unat_of_nat take_bit_nat_eq_self)
  qed
  then have "unat (and (hash k) (stripe_mask ls)) \<le> count - 1"
    using n(3) word_and_le1 [of "hash k" "stripe_mask ls"] by (simp add: word_le_nat_alt)
  moreover have "0 < count" by (simp add: n(1))
  ultimately have "stripe_index hash ls k < count" by (simp add: stripe_index_def)
  moreover have "stripes ls = count" by (simp add: n(3))
  ultimately show ?thesis by (simp add: lock_order_def)
qed

theorem stripe_index_in_bounds_witness:
  "\<exists>ls. with_count 64 = Some ls \<and> stripe_index (\<lambda>k :: u64. k) ls 255 < 64"
proof -
  obtain ls where ls: "with_count 64 = Some ls"
    using image_eqI [of "64 :: nat" "\<lambda>k. 2 ^ k" 6 "{..<64 :: nat}"] by (simp add: with_count_def is_power_of_two_def)
  then show ?thesis using stripe_index_in_bounds [OF ls, of "\<lambda>k. k" 255 "[]"] by (intro exI [of _ ls]) simp
qed

text \<open>C16: Threads that each call \<open>lock_multiple\<close> never deadlock, whatever their keys and however they are
  scheduled: in every state they reach, no stripe has two holders, and unless all threads have
  finished some thread can go on; no run is infinite, so all of them finish.\<close>

theorem lock_multiple_deadlock_free:
  assumes "stripe_step\<^sup>*\<^sup>* (map (call_lock_multiple hash ls) kss) ts"
  shows "locks_exclusive ts \<and> (finished_threads ts \<or> (\<exists>ts'. stripe_step ts ts')) \<and>
    (\<exists>ts'. stripe_step\<^sup>*\<^sup>* ts ts' \<and> finished_threads ts') \<and>
    (\<nexists>run. run 0 = ts \<and> (\<forall>n. stripe_step (run n) (run (Suc n))))"
  using steps_invariant [OF assms calls_start] stripe_progress reaches_finish no_infinite_run by blast

theorem lock_multiple_deadlock_free_witness:
  "\<exists>ts'. stripe_step\<^sup>*\<^sup>* (map (call_lock_multiple (\<lambda>k :: u64. k) \<lparr>stripes = 64, stripe_mask = 63\<rparr>) [[3, 1], [1, 3, 65]]) ts' \<and>
    finished_threads ts'"
  using lock_multiple_deadlock_free [OF rtranclp.rtrancl_refl] by blast

end
