(* ===== verification/Access_Paths.thy ===== *)
theory Access_Paths
  imports Operators
begin

text \<open>
  How the optimiser reads a predicate and chooses the access to a collection:
  \<open>query/optimize/predicate.rs\<close>, \<open>query/optimize/access_path.rs\<close> and the index references and
  lookups of \<open>query/plan/physical.rs\<close>.

  The context is the record \<open>planner\<close> of its two index lookups. A panic (\<open>unreachable!\<close>, \<open>expect\<close>)
  is \<open>None\<close>. Scores are \<open>u32\<close> and wrap, as in a release build. A lookup means the comparison its
  comment in \<open>physical.rs\<close> states (\<open>lookup_holds\<close>), evaluated as a filter evaluates it, and the
  theorems say that an access path with its remaining filter selects the rows of the predicate.
\<close>

section \<open>Index lookups (plan/physical.rs)\<close>

type_synonym u32 = "32 word"

record IndexRef =
  ref_collection :: string
  ref_fields :: "string list"

datatype PlanRangeOp = RGt | RGte | RLt | RLte

datatype IndexLookup =
    LEq string Value
  | LRange string PlanRangeOp Value
  | LRangeBetween string Value bool Value bool
  | LCompoundEq "(string \<times> Value) list"
  | LIn string "Value list"

definition plan_range_as_str :: "PlanRangeOp \<Rightarrow> string" where
  "plan_range_as_str rop = (case rop of RGt \<Rightarrow> ''gt'' | RGte \<Rightarrow> ''gte'' | RLt \<Rightarrow> ''lt'' | RLte \<Rightarrow> ''lte'')"

text \<open>What the optimiser asks of its context.\<close>

record planner =
  pl_find_index_for_field :: "string \<Rightarrow> string \<Rightarrow> string list option"
  pl_find_compound_index :: "string \<Rightarrow> string list \<Rightarrow> string list option"

section \<open>Predicates (optimize/predicate.rs)\<close>

datatype 'q Conjunct = Atom "'q Expr" | Disjunction "'q Conjunct list"

datatype IndexableOp = IEq | IGt | IGte | ILt | ILte | IIn

datatype IndexValue = ISingle Value | IList "Value list"

datatype 'q PredicatePart =
    Indexable string IndexableOp IndexValue "'q Expr"
  | DisjunctionGroup "'q PredicatePart list" "'q Expr"
  | FilterOnly "'q Expr"

fun extract_disjuncts :: "'q Expr \<Rightarrow> 'q Conjunct list" where
  "extract_disjuncts (EBinaryOp left Or right) = extract_disjuncts left @ extract_disjuncts right"
| "extract_disjuncts e = [Atom e]"

fun extract_conjuncts :: "'q Expr \<Rightarrow> 'q Conjunct list" where
  "extract_conjuncts (EBinaryOp left And right) = extract_conjuncts left @ extract_conjuncts right"
| "extract_conjuncts (EBinaryOp left Or right) = [Disjunction (extract_disjuncts (EBinaryOp left Or right))]"
| "extract_conjuncts e = [Atom e]"

fun original_expr :: "'q PredicatePart \<Rightarrow> 'q Expr" where
  "original_expr (Indexable _ _ _ e) = e"
| "original_expr (DisjunctionGroup _ e) = e"
| "original_expr (FilterOnly e) = e"

fun is_indexable :: "'q PredicatePart \<Rightarrow> bool" where
  "is_indexable (Indexable _ _ _ _) = True"
| "is_indexable _ = False"

text \<open>\<open>Iterator::reduce\<close>.\<close>

definition reduce :: "('a \<Rightarrow> 'a \<Rightarrow> 'a) \<Rightarrow> 'a list \<Rightarrow> 'a option" where
  "reduce f xs = (case xs of [] \<Rightarrow> None | x # ys \<Rightarrow> Some (foldl f x ys))"

fun reconstruct_or_one :: "'q Conjunct \<Rightarrow> 'q Expr" where
  "reconstruct_or_one (Atom e) = e"
| "reconstruct_or_one (Disjunction inner) =
     (case reduce (\<lambda>a b. EBinaryOp a Or b) (map reconstruct_or_one inner) of
        Some e \<Rightarrow> e | None \<Rightarrow> Literal (VBool False))"

definition reconstruct_or :: "'q Conjunct list \<Rightarrow> 'q Expr" where
  "reconstruct_or branches =
     (case reduce (\<lambda>a b. EBinaryOp a Or b) (map reconstruct_or_one branches) of
        Some e \<Rightarrow> e | None \<Rightarrow> Literal (VBool False))"

definition indexable_op :: "BinaryOp \<Rightarrow> IndexableOp option" where
  "indexable_op oper =
     (case oper of Eq \<Rightarrow> Some IEq | Gt \<Rightarrow> Some IGt | Gte \<Rightarrow> Some IGte | Lt \<Rightarrow> Some ILt | Lte \<Rightarrow> Some ILte
      | _ \<Rightarrow> None)"

text \<open>All items of a list are literals.\<close>

fun literal_values :: "'q Expr list \<Rightarrow> Value list option" where
  "literal_values [] = Some []"
| "literal_values (e # es) =
     (case e of Literal v \<Rightarrow> map_option (\<lambda>vs. v # vs) (literal_values es) | _ \<Rightarrow> None)"

definition classify_atom :: "planner \<Rightarrow> string \<Rightarrow> 'q Expr \<Rightarrow> 'q PredicatePart" where
  "classify_atom ctx coll expr =
     (case expr of
        EBinaryOp left oper right \<Rightarrow>
          (case (left, right) of
             (Field field, Literal v) \<Rightarrow>
               (case indexable_op oper of
                  Some iop \<Rightarrow>
                    if pl_find_index_for_field ctx coll field \<noteq> None then Indexable field iop (ISingle v) expr
                    else FilterOnly expr
                | None \<Rightarrow> FilterOnly expr)
           | _ \<Rightarrow> FilterOnly expr)
      | InList inner items negated \<Rightarrow>
          if negated then FilterOnly expr
          else (case inner of
                  Field field \<Rightarrow>
                    (case literal_values items of
                       Some vals \<Rightarrow>
                         if pl_find_index_for_field ctx coll field \<noteq> None then Indexable field IIn (IList vals) expr
                         else FilterOnly expr
                     | None \<Rightarrow> FilterOnly expr)
                | _ \<Rightarrow> FilterOnly expr)
      | _ \<Rightarrow> FilterOnly expr)"

fun classify_conjunct :: "planner \<Rightarrow> string \<Rightarrow> 'q Conjunct \<Rightarrow> 'q PredicatePart" where
  "classify_conjunct ctx coll (Atom expr) = classify_atom ctx coll expr"
| "classify_conjunct ctx coll (Disjunction branches) =
     DisjunctionGroup (map (classify_conjunct ctx coll) branches) (reconstruct_or branches)"

definition classify_all :: "planner \<Rightarrow> string \<Rightarrow> 'q Conjunct list \<Rightarrow> 'q PredicatePart list" where
  "classify_all ctx coll conjuncts = map (classify_conjunct ctx coll) conjuncts"

section \<open>Access paths (optimize/access_path.rs)\<close>

datatype AccessMethod =
    MTableScan
  | MIndexScan IndexRef IndexLookup
  | MUnion "(IndexRef \<times> IndexLookup) list" bool

record 'q AccessPath =
  ap_method :: AccessMethod
  ap_score :: u32
  ap_remaining_filter :: "'q Expr option"

abbreviation TABLE_SCAN :: u32 where "TABLE_SCAN \<equiv> 1000"
abbreviation INDEX_EQ :: u32 where "INDEX_EQ \<equiv> 1"
abbreviation INDEX_IN_BASE :: u32 where "INDEX_IN_BASE \<equiv> 5"
abbreviation INDEX_IN_PER_VALUE :: u32 where "INDEX_IN_PER_VALUE \<equiv> 2"
abbreviation INDEX_BETWEEN :: u32 where "INDEX_BETWEEN \<equiv> 15"
abbreviation INDEX_RANGE :: u32 where "INDEX_RANGE \<equiv> 20"
abbreviation UNION_PER_BRANCH :: u32 where "UNION_PER_BRANCH \<equiv> 10"
abbreviation FILTER_PENALTY :: u32 where "FILTER_PENALTY \<equiv> 2"

definition u32_saturating_sub :: "u32 \<Rightarrow> u32 \<Rightarrow> u32" where
  "u32_saturating_sub a b = (if b \<le> a then a - b else 0)"

fun count_predicates :: "'q Expr \<Rightarrow> u32" where
  "count_predicates (EBinaryOp left oper right) =
     (if oper = And \<or> oper = Or then count_predicates left + count_predicates right else 1)"
| "count_predicates _ = 1"

definition filter_penalty :: "'q Expr option \<Rightarrow> u32" where
  "filter_penalty remaining = (case remaining of Some e \<Rightarrow> count_predicates e * FILTER_PENALTY | None \<Rightarrow> 0)"

definition in_score :: "Value list \<Rightarrow> u32" where
  "in_score vals = INDEX_IN_BASE + word_of_nat (length vals - 1) * INDEX_IN_PER_VALUE"

definition compound_score :: "nat \<Rightarrow> u32" where
  "compound_score num_fields = u32_saturating_sub INDEX_EQ (word_of_nat num_fields div 2)"

definition score_lookup :: "IndexLookup \<Rightarrow> u32" where
  "score_lookup lookup =
     (case lookup of
        LEq _ _ \<Rightarrow> INDEX_EQ
      | LIn _ vals \<Rightarrow> in_score vals
      | LRangeBetween _ _ _ _ _ \<Rightarrow> INDEX_BETWEEN
      | LRange _ _ _ \<Rightarrow> INDEX_RANGE
      | LCompoundEq fvs \<Rightarrow> compound_score (length fvs))"

text \<open>The match on operation and value, shared by \<open>index_scan\<close> and \<open>try_build_union\<close>.\<close>

definition lookup_of :: "string \<Rightarrow> IndexableOp \<Rightarrow> IndexValue \<Rightarrow> IndexLookup option" where
  "lookup_of field iop ival =
     (case (iop, ival) of
        (IEq, ISingle v) \<Rightarrow> Some (LEq field v)
      | (IIn, IList vals) \<Rightarrow> Some (LIn field vals)
      | (IGt, ISingle v) \<Rightarrow> Some (LRange field RGt v)
      | (IGte, ISingle v) \<Rightarrow> Some (LRange field RGte v)
      | (ILt, ISingle v) \<Rightarrow> Some (LRange field RLt v)
      | (ILte, ISingle v) \<Rightarrow> Some (LRange field RLte v)
      | _ \<Rightarrow> None)"

definition table_scan :: "'q Expr option \<Rightarrow> 'q AccessPath" where
  "table_scan remaining =
     \<lparr>ap_method = MTableScan, ap_score = TABLE_SCAN + filter_penalty remaining, ap_remaining_filter = remaining\<rparr>"

definition index_scan :: "string \<Rightarrow> string \<Rightarrow> IndexableOp \<Rightarrow> IndexValue \<Rightarrow> 'q Expr option \<Rightarrow> 'q AccessPath option" where
  "index_scan coll field iop ival remaining =
     (case lookup_of field iop ival of
        None \<Rightarrow> None
      | Some lookup \<Rightarrow>
          Some \<lparr>ap_method = MIndexScan \<lparr>ref_collection = coll, ref_fields = [field]\<rparr> lookup,
                ap_score = score_lookup lookup + filter_penalty remaining, ap_remaining_filter = remaining\<rparr>)"

definition compound_index_scan ::
  "string \<Rightarrow> string list \<Rightarrow> (string \<times> Value) list \<Rightarrow> 'q Expr option \<Rightarrow> 'q AccessPath" where
  "compound_index_scan coll index_fields field_values remaining =
     \<lparr>ap_method = MIndexScan \<lparr>ref_collection = coll, ref_fields = index_fields\<rparr> (LCompoundEq field_values),
      ap_score = compound_score (length field_values) + filter_penalty remaining, ap_remaining_filter = remaining\<rparr>"

definition union_path :: "(IndexRef \<times> IndexLookup) list \<Rightarrow> bool \<Rightarrow> 'q Expr option \<Rightarrow> 'q AccessPath" where
  "union_path branches needs_dedup remaining =
     \<lparr>ap_method = MUnion branches needs_dedup,
      ap_score = sum_list (map (\<lambda>(_, lookup). score_lookup lookup) branches) +
        word_of_nat (length branches) * UNION_PER_BRANCH + filter_penalty remaining,
      ap_remaining_filter = remaining\<rparr>"

definition combine_exprs :: "'q Expr list \<Rightarrow> 'q Expr option" where
  "combine_exprs exprs = reduce (\<lambda>a b. EBinaryOp a And b) exprs"

text \<open>\<open>min_by_key\<close> keeps the first of several minima.\<close>

fun min_by_score :: "'q AccessPath \<Rightarrow> 'q AccessPath list \<Rightarrow> 'q AccessPath" where
  "min_by_score best [] = best"
| "min_by_score best (p # ps) = min_by_score (if ap_score p < ap_score best then p else best) ps"

definition select_best :: "'q AccessPath list \<Rightarrow> 'q AccessPath option" where
  "select_best paths = (case paths of [] \<Rightarrow> None | p # ps \<Rightarrow> Some (min_by_score p ps))"

definition combine_parts_to_filter :: "'q PredicatePart list \<Rightarrow> 'q Expr option" where
  "combine_parts_to_filter parts = combine_exprs (map original_expr parts)"

definition combine_parts_except_multiple :: "'q PredicatePart list \<Rightarrow> nat list \<Rightarrow> 'q Expr option" where
  "combine_parts_except_multiple parts except_indices =
     combine_exprs (map (\<lambda>(_, p). original_expr p)
       (filter (\<lambda>(i, _). i \<notin> set except_indices) (enumerate 0 parts)))"

definition combine_parts_except :: "'q PredicatePart list \<Rightarrow> nat \<Rightarrow> 'q Expr option" where
  "combine_parts_except parts except_index =
     combine_exprs (map (\<lambda>(_, p). original_expr p) (filter (\<lambda>(i, _). i \<noteq> except_index) (enumerate 0 parts)))"

definition extract_eq_condition :: "'q Expr \<Rightarrow> (string \<times> Value) option" where
  "extract_eq_condition expr =
     (case expr of EBinaryOp (Field field) Eq (Literal v) \<Rightarrow> Some (field, v) | _ \<Rightarrow> None)"

text \<open>\<open>combinations\<close>: the buffer is filled from left to right.\<close>

function generate :: "nat list \<Rightarrow> nat \<Rightarrow> nat \<Rightarrow> nat \<Rightarrow> nat \<Rightarrow> nat list list" where
  "generate combo start depth k n =
     (if k \<le> depth then [combo]
      else concat (map (\<lambda>i. generate (combo[depth := i]) (i + 1) (depth + 1) k n)
             [start..<n - (k - depth) + 1]))"
  by auto
termination by (relation "measure (\<lambda>(combo, start, depth, k, n). k - depth)") auto

declare generate.simps [simp del]

definition combinations :: "nat \<Rightarrow> nat \<Rightarrow> nat list list" where
  "combinations n k = generate (replicate k 0) 0 0 k n"

definition eq_condition :: "nat \<times> 'q PredicatePart \<Rightarrow> (string \<times> Value \<times> nat) option" where
  "eq_condition ip =
     (case ip of (i, part) \<Rightarrow>
        (case part of
           Indexable field IEq (ISingle v) _ \<Rightarrow> Some (field, v, i)
         | FilterOnly expr \<Rightarrow> map_option (\<lambda>(field, v). (field, v, i)) (extract_eq_condition expr)
         | _ \<Rightarrow> None))"

definition eq_conditions :: "'q PredicatePart list \<Rightarrow> (string \<times> Value \<times> nat) list" where
  "eq_conditions parts = List.map_filter eq_condition (enumerate 0 parts)"

text \<open>The conditions of a found index, in the order of its fields: the first one for each field.\<close>

definition index_conditions :: "(string \<times> Value \<times> nat) list \<Rightarrow> string list \<Rightarrow> (string \<times> Value \<times> nat) list" where
  "index_conditions conds index_fields =
     List.map_filter (\<lambda>idx_field. find (\<lambda>(field, _, _). field = idx_field) conds) index_fields"

fun find_map :: "('a \<Rightarrow> 'b option) \<Rightarrow> 'a list \<Rightarrow> 'b option" where
  "find_map f [] = None"
| "find_map f (x # xs) = (case f x of Some y \<Rightarrow> Some y | None \<Rightarrow> find_map f xs)"

definition try_build_compound_index :: "planner \<Rightarrow> string \<Rightarrow> 'q PredicatePart list \<Rightarrow> 'q AccessPath option" where
  "try_build_compound_index ctx coll parts =
     (let conds = eq_conditions parts
      in if length conds < 2 then None
         else find_map (\<lambda>size. find_map (\<lambda>indices.
                case pl_find_compound_index ctx coll (map (\<lambda>i. fst (conds ! i)) indices) of
                  None \<Rightarrow> None
                | Some index_fields \<Rightarrow>
                    let used = index_conditions conds index_fields
                    in Some (compound_index_scan coll index_fields (map (\<lambda>(field, v, _). (field, v)) used)
                         (combine_parts_except_multiple parts (map (\<lambda>(_, _, i). i) used))))
                (combinations (length conds) size)) (rev [2..<length conds + 1]))"

definition lookup_field :: "IndexLookup \<Rightarrow> string" where
  "lookup_field lookup =
     (case lookup of
        LEq field _ \<Rightarrow> field | LIn field _ \<Rightarrow> field | LRange field _ _ \<Rightarrow> field | LRangeBetween field _ _ _ _ \<Rightarrow> field
      | LCompoundEq fvs \<Rightarrow> (case fvs of [] \<Rightarrow> '''' | (field, _) # _ \<Rightarrow> field))"

fun eq_values_distinct :: "Value list \<Rightarrow> IndexLookup list \<Rightarrow> bool" where
  "eq_values_distinct vs [] = True"
| "eq_values_distinct vs (LEq _ v # ls) =
     (if list_ex (\<lambda>w. value_eq w v) vs then False else eq_values_distinct (vs @ [v]) ls)"
| "eq_values_distinct vs (_ # ls) = False"

definition compute_union_needs_dedup :: "(IndexRef \<times> IndexLookup) list \<Rightarrow> bool" where
  "compute_union_needs_dedup branches =
     (if length branches < 2 then False
      else let names = map (\<lambda>(_, lookup). lookup_field lookup) branches
           in if list_all (\<lambda>f. f = names ! 0) names then \<not> eq_values_distinct [] (map snd branches) else True)"

fun branch_lookups :: "string \<Rightarrow> 'q PredicatePart list \<Rightarrow> (IndexRef \<times> IndexLookup) list option" where
  "branch_lookups coll [] = Some []"
| "branch_lookups coll (Indexable field iop ival _ # bs) =
     (case lookup_of field iop ival of
        None \<Rightarrow> None
      | Some lookup \<Rightarrow>
          map_option (\<lambda>ls. (\<lparr>ref_collection = coll, ref_fields = [field]\<rparr>, lookup) # ls) (branch_lookups coll bs))"
| "branch_lookups coll (_ # bs) = None"

definition try_build_union ::
  "'q PredicatePart list \<Rightarrow> 'q PredicatePart list \<Rightarrow> nat \<Rightarrow> string \<Rightarrow> 'q AccessPath option" where
  "try_build_union branches all_parts disj_index coll =
     (case branch_lookups coll branches of
        None \<Rightarrow> None
      | Some lookups \<Rightarrow>
          Some (union_path lookups (compute_union_needs_dedup lookups) (combine_parts_except all_parts disj_index)))"

text \<open>The loop over the indexable parts: \<open>None\<close> is the panic of \<open>index_scan\<close>.\<close>

fun index_scan_paths :: "string \<Rightarrow> 'q PredicatePart list \<Rightarrow> (nat \<times> 'q PredicatePart) list \<Rightarrow> 'q AccessPath list option" where
  "index_scan_paths coll parts [] = Some []"
| "index_scan_paths coll parts ((i, Indexable field iop ival _) # ips) =
     Option.bind (index_scan coll field iop ival (combine_parts_except parts i)) (\<lambda>p.
       map_option (\<lambda>ps. p # ps) (index_scan_paths coll parts ips))"
| "index_scan_paths coll parts (_ # ips) = index_scan_paths coll parts ips"

definition union_paths :: "string \<Rightarrow> 'q PredicatePart list \<Rightarrow> 'q AccessPath list" where
  "union_paths coll parts =
     List.map_filter (\<lambda>(i, part).
       case part of DisjunctionGroup branches _ \<Rightarrow> try_build_union branches parts i coll | _ \<Rightarrow> None)
       (enumerate 0 parts)"

definition generate_access_paths :: "planner \<Rightarrow> string \<Rightarrow> 'q PredicatePart list \<Rightarrow> 'q AccessPath list option" where
  "generate_access_paths ctx coll parts =
     map_option (\<lambda>scans.
       table_scan (combine_parts_to_filter parts) # scans @
       (case try_build_compound_index ctx coll parts of Some p \<Rightarrow> [p] | None \<Rightarrow> []) @
       union_paths coll parts)
     (index_scan_paths coll parts (enumerate 0 parts))"

section \<open>What an access path selects\<close>

text \<open>A row passes a filter; a comparison of a field with a value holds on a row.\<close>

definition passes :: "'d env \<Rightarrow> Row \<Rightarrow> 'q Expr \<Rightarrow> bool" where
  "passes E row e = (eval_filter E e row = Inr True)"

definition field_holds :: "'d env \<Rightarrow> Row \<Rightarrow> string \<Rightarrow> BinaryOp \<Rightarrow> Value \<Rightarrow> bool" where
  "field_holds E row field oper v =
     (case and_then (eval_field E row field) (\<lambda>w. eval_binary E oper w v) of
        Inr t \<Rightarrow> is_truthy (env_libs E) t | Inl _ \<Rightarrow> False)"

definition range_binop :: "PlanRangeOp \<Rightarrow> BinaryOp" where
  "range_binop rop = (case rop of RGt \<Rightarrow> Gt | RGte \<Rightarrow> Gte | RLt \<Rightarrow> Lt | RLte \<Rightarrow> Lte)"

fun lookup_holds :: "'d env \<Rightarrow> Row \<Rightarrow> IndexLookup \<Rightarrow> bool" where
  "lookup_holds E row (LEq field v) = field_holds E row field Eq v"
| "lookup_holds E row (LRange field rop v) = field_holds E row field (range_binop rop) v"
| "lookup_holds E row (LRangeBetween field lower li upper ui) =
     (field_holds E row field (if li then Gte else Gt) lower \<and> field_holds E row field (if ui then Lte else Lt) upper)"
| "lookup_holds E row (LCompoundEq fvs) = list_all (\<lambda>(field, v). field_holds E row field Eq v) fvs"
| "lookup_holds E row (LIn field vals) = list_ex (field_holds E row field Eq) vals"

fun method_selects :: "'d env \<Rightarrow> Row \<Rightarrow> AccessMethod \<Rightarrow> bool" where
  "method_selects E row MTableScan = True"
| "method_selects E row (MIndexScan _ lookup) = lookup_holds E row lookup"
| "method_selects E row (MUnion branches _) = list_ex (\<lambda>(_, lookup). lookup_holds E row lookup) branches"

text \<open>The remaining filter, if any, is evaluated without error and the method and the filter
  together say \<open>b\<close>.\<close>

definition selects_as :: "'d env \<Rightarrow> Row \<Rightarrow> AccessMethod \<Rightarrow> 'q Expr option \<Rightarrow> bool \<Rightarrow> bool" where
  "selects_as E row meth remaining b =
     (case remaining of
        None \<Rightarrow> method_selects E row meth = b
      | Some e \<Rightarrow> (case eval_filter E e row of Inr r \<Rightarrow> (method_selects E row meth \<and> r) = b | Inl _ \<Rightarrow> False))"

subsection \<open>Truth of conjunctions and disjunctions\<close>

abbreviation evaluates :: "'d env \<Rightarrow> Row \<Rightarrow> 'q Expr \<Rightarrow> Value \<Rightarrow> bool" where
  "evaluates E row e v \<equiv> eval_expr E e row (env_vars E) = Inr v"

lemma passes_iff: "passes E row e \<longleftrightarrow> (\<exists>v. evaluates E row e v \<and> is_truthy (env_libs E) v)"
  by (auto simp: passes_def eval_filter_def eval_filter_with_vars_def and_then_Inr_iff)

lemma eval_filter_iff: "eval_filter E e row = Inr b \<longleftrightarrow> (\<exists>v. evaluates E row e v \<and> is_truthy (env_libs E) v = b)"
  by (auto simp: eval_filter_def eval_filter_with_vars_def and_then_Inr_iff)

lemma passes_value: "evaluates E row e v \<Longrightarrow> passes E row e \<longleftrightarrow> is_truthy (env_libs E) v"
  by (simp add: passes_iff)

lemma truthy_of_truth [simp]: "is_truthy L (of_truth p) \<longleftrightarrow> p = Some True"
  by (cases p) (auto simp: of_truth_def is_truthy_def)

lemma and_evaluates:
  "evaluates E row (EBinaryOp a And b) v \<longleftrightarrow>
     (\<exists>p q. evaluates E row a (of_truth p) \<and> evaluates E row b (of_truth q) \<and> v = of_truth (and3 p q))"
  by (auto simp: eval_binary_def and_then_Inr_iff eval_logic_iff)

lemma or_evaluates:
  "evaluates E row (EBinaryOp a Or b) v \<longleftrightarrow>
     (\<exists>p q. evaluates E row a (of_truth p) \<and> evaluates E row b (of_truth q) \<and> v = of_truth (or3 p q))"
  by (auto simp: eval_binary_def and_then_Inr_iff eval_logic_iff)

lemma and3_true [simp]: "and3 p q = Some True \<longleftrightarrow> p = Some True \<and> q = Some True"
  by (auto simp: and3_def)

lemma any3_append: "any3 (ps @ qs) = or3 (any3 ps) (any3 qs)"
  by (auto simp: any3_eq or3_def and3_def not3_def)

lemma any3_single [simp]: "any3 [p] = p"
  by (auto simp: any3_eq) (metis (full_types) option.exhaust)

text \<open>The expressions \<open>es\<close> evaluate, to truth values when there are several, and all of them pass
  exactly when \<open>b\<close>.\<close>

definition conj_denotes :: "'d env \<Rightarrow> Row \<Rightarrow> 'q Expr list \<Rightarrow> bool \<Rightarrow> bool" where
  "conj_denotes E row es b \<longleftrightarrow>
     (\<forall>e\<in>set es. \<exists>w. evaluates E row e w \<and> (2 \<le> length es \<longrightarrow> is_truth w)) \<and>
     (b \<longleftrightarrow> (\<forall>e\<in>set es. passes E row e))"

lemma combine_exprs_snoc:
  "es \<noteq> [] \<Longrightarrow> combine_exprs (es @ [e]) = Some (EBinaryOp (the (combine_exprs es)) And e)"
  by (cases es) (auto simp: combine_exprs_def reduce_def)

lemma combine_exprs_single [simp]: "combine_exprs [e] = Some e" "combine_exprs [] = None"
  by (simp_all add: combine_exprs_def reduce_def)

lemma combine_truths:
  assumes "es \<noteq> []" "\<And>e. e \<in> set es \<Longrightarrow> \<exists>p. evaluates E row e (of_truth p)"
  shows "\<exists>e p. combine_exprs es = Some e \<and> evaluates E row e (of_truth p) \<and>
    (p = Some True \<longleftrightarrow> (\<forall>e\<in>set es. passes E row e))"
  using assms
proof (induction es rule: rev_induct)
  case (snoc x es)
  obtain q where q: "evaluates E row x (of_truth q)" using snoc.prems(2) by auto
  show ?case
  proof (cases "es = []")
    case True
    then show ?thesis using q by (auto simp: passes_value)
  next
    case False
    then obtain e p where e: "combine_exprs es = Some e" "evaluates E row e (of_truth p)"
      "p = Some True \<longleftrightarrow> (\<forall>e\<in>set es. passes E row e)"
      using snoc.IH snoc.prems(2) by auto
    have "evaluates E row (EBinaryOp e And x) (of_truth (and3 p q))" using e(2) q by (simp add: eval_binary_def)
    moreover have "combine_exprs (es @ [x]) = Some (EBinaryOp e And x)" using combine_exprs_snoc [OF False] e(1) by simp
    ultimately show ?thesis using e(3) passes_value [OF q] by auto
  qed
qed simp

text \<open>The filter that is combined from some of the expressions.\<close>

lemma combine_part:
  assumes "conj_denotes E row es b" "set fs \<subseteq> set es" "length fs \<le> length es"
  shows "case combine_exprs fs of
      None \<Rightarrow> fs = []
    | Some e \<Rightarrow> eval_filter E e row = Inr (\<forall>e\<in>set fs. passes E row e)"
proof (cases "fs = [] \<or> length fs = 1")
  case True
  show ?thesis
  proof (cases "fs = []")
    case False
    then obtain e where e: "fs = [e]" using True by (metis One_nat_def length_0_conv length_Suc_conv)
    then obtain w where "evaluates E row e w" using assms(1,2) by (auto simp: conj_denotes_def)
    then show ?thesis using e by (auto simp: eval_filter_iff passes_value)
  qed simp
next
  case False
  then have "2 \<le> length fs" by (cases fs) (auto simp: Suc_le_eq)
  then have "\<exists>p. evaluates E row e (of_truth p)" if "e \<in> set fs" for e
    using that assms unfolding conj_denotes_def by (metis is_truthE le_trans subsetD)
  then obtain e p where "combine_exprs fs = Some e" "evaluates E row e (of_truth p)"
    "p = Some True \<longleftrightarrow> (\<forall>e\<in>set fs. passes E row e)"
    using combine_truths [of fs E row] False by auto
  then show ?thesis by (auto simp: eval_filter_iff)
qed


subsection \<open>The predicate is the conjunction of its parts\<close>

lemma conj_denotes_append:
  assumes "conj_denotes E row es (p = Some True)" "conj_denotes E row fs (q = Some True)"
    and "\<And>e. e \<in> set es \<union> set fs \<Longrightarrow> \<exists>w. evaluates E row e w \<and> is_truth w"
  shows "conj_denotes E row (es @ fs) (and3 p q = Some True)"
proof -
  have "\<forall>e\<in>set (es @ fs). \<exists>w. evaluates E row e w \<and> (2 \<le> length (es @ fs) \<longrightarrow> is_truth w)"
    using assms(3) by (metis Un_iff set_append)
  then show ?thesis using assms(1,2) unfolding conj_denotes_def by (simp add: ball_Un)
qed

lemma list_all2_split:
  "(\<exists>ps. list_all2 P (xs @ ys) ps \<and> Q ps) \<longleftrightarrow> (\<exists>us vs. list_all2 P xs us \<and> list_all2 P ys vs \<and> Q (us @ vs))"
proof
  assume "\<exists>us vs. list_all2 P xs us \<and> list_all2 P ys vs \<and> Q (us @ vs)"
  then show "\<exists>ps. list_all2 P (xs @ ys) ps \<and> Q ps" using list_all2_appendI by blast
qed (auto simp: list_all2_append1)

definition truths :: "'d env \<Rightarrow> Row \<Rightarrow> 'q Expr list \<Rightarrow> bool option list \<Rightarrow> bool" where
  "truths E row = list_all2 (\<lambda>e p. evaluates E row e (of_truth p))"

lemma truths_single: "(\<exists>ps. truths E row [e] ps \<and> p = any3 ps) \<longleftrightarrow> evaluates E row e (of_truth p)"
  by (auto simp: truths_def list_all2_Cons1 simp del: eval_expr.simps)

lemma truths_append:
  "(\<exists>ps. truths E row (xs @ ys) ps \<and> p = any3 ps) \<longleftrightarrow>
   (\<exists>q r. (\<exists>ps. truths E row xs ps \<and> q = any3 ps) \<and> (\<exists>ps. truths E row ys ps \<and> r = any3 ps) \<and> p = or3 q r)"
  unfolding truths_def list_all2_split any3_append by blast

lemma or_truth:
  "evaluates E row (EBinaryOp a Or b) (of_truth p) \<longleftrightarrow>
   (\<exists>q r. evaluates E row a (of_truth q) \<and> evaluates E row b (of_truth r) \<and> p = or3 q r)"
  unfolding or_evaluates by simp

declare eval_expr.simps(3) [simp del]

lemma disjuncts_truth:
  "(\<exists>ps. truths E row (map reconstruct_or_one (extract_disjuncts e)) ps \<and> p = any3 ps) \<longleftrightarrow> evaluates E row e (of_truth p)"
proof (induction e arbitrary: p rule: extract_disjuncts.induct)
  case (1 l r)
  then show ?case unfolding extract_disjuncts.simps map_append truths_append or_truth by (simp only:)
qed (simp_all only: extract_disjuncts.simps list.map reconstruct_or_one.simps truths_single)

lemma or_fold_truth:
  "(\<exists>ps. truths E row (e # es) ps \<and> p = any3 ps) \<longleftrightarrow> evaluates E row (foldl (\<lambda>a b. EBinaryOp a Or b) e es) (of_truth p)"
proof (induction es arbitrary: p rule: rev_induct)
  case (snoc x es)
  have "(\<exists>ps. truths E row ((e # es) @ [x]) ps \<and> p = any3 ps) \<longleftrightarrow>
    evaluates E row (foldl (\<lambda>a b. EBinaryOp a Or b) e (es @ [x])) (of_truth p)"
    unfolding truths_append snoc.IH truths_single by (simp add: or_truth)
  then show ?case by simp
qed (simp add: truths_single)

lemma extract_disjuncts_not_Nil [simp]: "extract_disjuncts e \<noteq> []"
  by (induction e rule: extract_disjuncts.induct) auto

lemma reconstruct_or_truth:
  "evaluates E row (reconstruct_or (extract_disjuncts e)) (of_truth p) \<longleftrightarrow> evaluates E row e (of_truth p)"
proof (cases "map reconstruct_or_one (extract_disjuncts e)")
  case (Cons x xs)
  then have "evaluates E row (reconstruct_or (extract_disjuncts e)) (of_truth p) \<longleftrightarrow>
    (\<exists>ps. truths E row (map reconstruct_or_one (extract_disjuncts e)) ps \<and> p = any3 ps)"
    unfolding reconstruct_or_def reduce_def by (simp add: or_fold_truth)
  then show ?thesis by (simp only: disjuncts_truth)
qed simp

text \<open>A disjunction passes when one of its branches does.\<close>

lemma disjuncts_pass:
  assumes "evaluates E row e (of_truth p)"
  shows "passes E row e \<longleftrightarrow> (\<exists>c\<in>set (extract_disjuncts e). passes E row (reconstruct_or_one c))"
proof -
  obtain ps where ps: "truths E row (map reconstruct_or_one (extract_disjuncts e)) ps" "p = any3 ps"
    using assms disjuncts_truth by blast
  have "Some True \<in> set ps \<longleftrightarrow> (\<exists>x\<in>set xs. passes E row x)" if "truths E row xs ps" for xs :: "'b Expr list"
    using that unfolding truths_def by (induction rule: list_all2_induct) (auto simp: passes_value)
  then show ?thesis using passes_value [OF assms] ps by (auto simp: any3_eq)
qed

lemma reconstruct_or_one_Disjunction: "reconstruct_or_one (Disjunction bs) = reconstruct_or bs"
  by (simp add: reconstruct_or_def)

declare reconstruct_or_one.simps(2) [simp del]

lemma conjuncts_denote:
  assumes "evaluates E row e v"
  shows "conj_denotes E row (map reconstruct_or_one (extract_conjuncts e)) (is_truthy (env_libs E) v) \<and>
    (is_truth v \<longrightarrow> (\<forall>c\<in>set (extract_conjuncts e). \<exists>w. evaluates E row (reconstruct_or_one c) w \<and> is_truth w))"
  using assms
proof (induction e arbitrary: v rule: extract_conjuncts.induct)
  case (1 l r)
  then obtain p q where pq: "evaluates E row l (of_truth p)" "evaluates E row r (of_truth q)" "v = of_truth (and3 p q)"
    using and_evaluates by blast
  have l: "conj_denotes E row (map reconstruct_or_one (extract_conjuncts l)) (p = Some True)"
    "\<forall>c\<in>set (extract_conjuncts l). \<exists>w. evaluates E row (reconstruct_or_one c) w \<and> is_truth w" using 1(1) [OF pq(1)] by auto
  have r: "conj_denotes E row (map reconstruct_or_one (extract_conjuncts r)) (q = Some True)"
    "\<forall>c\<in>set (extract_conjuncts r). \<exists>w. evaluates E row (reconstruct_or_one c) w \<and> is_truth w" using 1(2) [OF pq(2)] by auto
  have "conj_denotes E row (map reconstruct_or_one (extract_conjuncts l) @ map reconstruct_or_one (extract_conjuncts r)) (and3 p q = Some True)"
    by (rule conj_denotes_append [OF l(1) r(1)]) (use l(2) r(2) in auto)
  then show ?case using l(2) r(2) pq(3) by auto
next
  case (2 l r)
  then obtain p where p: "v = of_truth p" using or_evaluates by blast
  then have "evaluates E row (reconstruct_or (extract_disjuncts (EBinaryOp l Or r))) v"
    using 2 reconstruct_or_truth [of E "EBinaryOp l Or r" row p] by simp
  then show ?case using p by (auto simp: conj_denotes_def reconstruct_or_one_Disjunction passes_value)
qed (auto simp: conj_denotes_def passes_value)

subsection \<open>Lookups mean their comparison\<close>

lemma comparison_passes:
  assumes "oper \<noteq> Coalesce"
  shows "passes E row (EBinaryOp (Field field) oper (Literal v)) \<longleftrightarrow> field_holds E row field oper v"
proof -
  have "eval_expr E (EBinaryOp (Field field) oper (Literal v)) row (env_vars E) =
      and_then (eval_field E row field) (\<lambda>w. eval_binary E oper w v)"
    using assms by (simp add: eval_expr.simps(3))
  then show ?thesis by (auto simp: passes_iff field_holds_def split: sum.splits)
qed

lemma literal_values_Some: "literal_values es = Some vs \<Longrightarrow> es = map Literal vs"
  by (induction es arbitrary: vs) (auto split: Expr.splits)

lemma field_holds_Eq: "field_holds E row field Eq v \<longleftrightarrow> (\<exists>w. eval_field E row field = Inr w \<and> eq3 (env_libs E) w v = Some True)"
  by (auto simp: field_holds_def eval_binary_Eq and_then_Inr_iff split: sum.splits)

lemma in_list_passes:
  "passes E row (InList (Field field) (map Literal vs) False :: 'a Expr) \<longleftrightarrow> (\<exists>v\<in>set vs. field_holds E row field Eq v)"
proof (cases "eval_field E row field")
  case (Inl e)
  then show ?thesis by (simp add: passes_iff field_holds_def)
next
  case (Inr w)
  define h :: "'a Expr \<Rightarrow> Value" where "h = (\<lambda>e. case e of Literal v \<Rightarrow> v | _ \<Rightarrow> VNull)"
  have h: "evaluates E row e (h e)" if "e \<in> set (map Literal vs)" for e :: "'a Expr" using that by (auto simp: h_def)
  have *: "and_then (in_loop (env_libs E) w (\<lambda>e. eval_expr E e row (env_vars E)) (map Literal vs :: 'a Expr list) False) (\<lambda>r. Inr (in_result False r)) =
      Inr (of_truth (any3 (map (eq3 (env_libs E) w) vs)))" if "w \<noteq> VNull"
    using in_result_any3 [where L = "env_libs E" and negated = False and xs = "map Literal vs" and h = h, OF that h] by (simp add: comp_def h_def)
  show ?thesis
  proof (cases "w = VNull")
    case True
    then show ?thesis using Inr by (simp add: passes_iff field_holds_Eq eq3_def is_truthy_def)
  next
    case False
    then have "passes E row (InList (Field field) (map Literal vs) False :: 'a Expr) \<longleftrightarrow> any3 (map (eq3 (env_libs E) w) vs) = Some True"
      using Inr * by (simp add: passes_iff)
    also have "\<dots> \<longleftrightarrow> (\<exists>v\<in>set vs. eq3 (env_libs E) w v = Some True)"
      by (auto simp: any3_eq image_iff)
    finally show ?thesis using Inr by (simp add: field_holds_Eq)
  qed
qed

text \<open>A part means the expression it came from.\<close>

fun part_ok :: "'d env \<Rightarrow> Row \<Rightarrow> 'q PredicatePart \<Rightarrow> bool" where
  "part_ok E row (Indexable field iop ival e) \<longleftrightarrow>
     (\<exists>l. lookup_of field iop ival = Some l \<and> (lookup_holds E row l \<longleftrightarrow> passes E row e))"
| "part_ok E row (DisjunctionGroup bs e) \<longleftrightarrow>
     (\<forall>b\<in>set bs. part_ok E row b) \<and> (passes E row e \<longleftrightarrow> (\<exists>b\<in>set bs. passes E row (original_expr b)))"
| "part_ok E row (FilterOnly e) \<longleftrightarrow> True"

lemma original_classify_atom [simp]: "original_expr (classify_atom ctx coll e) = e"
  by (cases e) (auto simp: classify_atom_def split: Expr.splits option.splits)

lemma original_classify [simp]: "original_expr (classify_conjunct ctx coll c) = reconstruct_or_one c"
  by (cases c) (simp_all add: reconstruct_or_one_Disjunction)

lemma classify_atom_ok: "part_ok E row (classify_atom ctx coll e)"
proof (cases e)
  case (EBinaryOp l oper r)
  show ?thesis
  proof (cases "\<exists>field v. l = Field field \<and> r = Literal v \<and> indexable_op oper \<noteq> None")
    case True
    then obtain field v where "l = Field field" "r = Literal v" "indexable_op oper \<noteq> None" by blast
    then show ?thesis using EBinaryOp
      by (cases oper) (simp_all add: classify_atom_def indexable_op_def lookup_of_def comparison_passes range_binop_def)
  next
    case False
    then have "classify_atom ctx coll e = FilterOnly e"
      using EBinaryOp by (auto simp: classify_atom_def split: Expr.splits option.splits)
    then show ?thesis by simp
  qed
next
  case (InList inner items negated)
  show ?thesis
  proof (cases "\<exists>field vs. inner = Field field \<and> literal_values items = Some vs \<and> \<not> negated")
    case True
    then obtain field vs where "inner = Field field" "literal_values items = Some vs" "\<not> negated" by blast
    moreover from this have "items = map Literal vs" by (intro literal_values_Some)
    ultimately show ?thesis using InList
      by (simp add: classify_atom_def lookup_of_def in_list_passes list_ex_iff)
  next
    case False
    then have "classify_atom ctx coll e = FilterOnly e"
      using InList by (auto simp: classify_atom_def split: Expr.splits option.splits)
    then show ?thesis by simp
  qed
qed (simp_all add: classify_atom_def)

lemma disjuncts_are_atoms: "c \<in> set (extract_disjuncts e) \<Longrightarrow> \<exists>a. c = Atom a"
  by (induction e rule: extract_disjuncts.induct) auto

lemma conjuncts_ok:
  assumes "evaluates E row e v" "c \<in> set (extract_conjuncts e)"
  shows "part_ok E row (classify_conjunct ctx coll c)"
  using assms
proof (induction e arbitrary: v rule: extract_conjuncts.induct)
  case (1 l r)
  then obtain p q where "evaluates E row l (of_truth p)" "evaluates E row r (of_truth q)" using and_evaluates by blast
  then show ?case using 1 by auto
next
  case (2 l r)
  define e where "e = EBinaryOp l Or r"
  obtain p where p: "evaluates E row e (of_truth p)" using 2(1) or_evaluates unfolding e_def by blast
  have c: "c = Disjunction (extract_disjuncts e)" using 2(2) e_def by simp
  have "part_ok E row (classify_conjunct ctx coll d)" if "d \<in> set (extract_disjuncts e)" for d
    using disjuncts_are_atoms [OF that] by (auto intro: classify_atom_ok)
  moreover have "passes E row (reconstruct_or (extract_disjuncts e)) \<longleftrightarrow> passes E row e"
    using p reconstruct_or_truth [of E e row p] by (simp add: passes_value)
  ultimately show ?case unfolding c by (simp add: disjuncts_pass [OF p])
qed (simp_all add: classify_atom_ok)


subsection \<open>The remaining filter\<close>

text \<open>Parts that come from a predicate with the value \<open>b\<close> on a row.\<close>

definition parts_denote :: "'d env \<Rightarrow> Row \<Rightarrow> 'q PredicatePart list \<Rightarrow> bool \<Rightarrow> bool" where
  "parts_denote E row parts b \<longleftrightarrow> conj_denotes E row (map original_expr parts) b \<and> (\<forall>p\<in>set parts. part_ok E row p)"

lemma parts_denote_nth:
  assumes "parts_denote E row parts b"
  shows "b \<longleftrightarrow> (\<forall>i<length parts. passes E row (original_expr (parts ! i)))"
    "i < length parts \<Longrightarrow> part_ok E row (parts ! i)"
  using assms by (auto simp: parts_denote_def conj_denotes_def all_set_conv_all_nth)

lemma enumerate_mem: "(i, p) \<in> set (enumerate 0 parts) \<longleftrightarrow> i < length parts \<and> p = parts ! i"
  by (auto simp: in_set_enumerate_eq)

text \<open>A method that decides the parts that the remaining filter leaves out is right.\<close>

lemma selects_rest:
  assumes "parts_denote E row parts b"
    and "method_selects E row meth \<longleftrightarrow> (\<forall>i<length parts. \<not> keep i \<longrightarrow> passes E row (original_expr (parts ! i)))"
  shows "selects_as E row meth
    (combine_exprs (map (\<lambda>(_, p). original_expr p) (filter (\<lambda>(i, _). keep i) (enumerate 0 parts)))) b"
proof -
  define es where "es = map (\<lambda>(_, p). original_expr p) (filter (\<lambda>(i, _). keep i) (enumerate 0 parts))"
  have es: "set es = {original_expr (parts ! i) |i. i < length parts \<and> keep i}"
    by (auto simp: es_def enumerate_mem image_iff)
  then have "set es \<subseteq> set (map original_expr parts)" by auto
  moreover have "length es \<le> length (map original_expr parts)" by (simp add: es_def le_trans [OF length_filter_le])
  ultimately have c: "case combine_exprs es of None \<Rightarrow> es = []
      | Some e \<Rightarrow> eval_filter E e row = Inr (\<forall>e\<in>set es. passes E row e)"
    using assms(1) combine_part unfolding parts_denote_def by blast
  have all: "(\<forall>e\<in>set es. passes E row e) \<longleftrightarrow> (\<forall>i<length parts. keep i \<longrightarrow> passes E row (original_expr (parts ! i)))"
    unfolding es by blast
  then have b: "b \<longleftrightarrow> method_selects E row meth \<and> (\<forall>e\<in>set es. passes E row e)"
    unfolding assms(2) parts_denote_nth(1) [OF assms(1)] by blast
  then show ?thesis unfolding es_def [symmetric] selects_as_def
    using c by (auto split: option.splits)
qed

lemma table_scan_selects:
  assumes "parts_denote E row parts b"
  shows "selects_as E row MTableScan (combine_parts_to_filter parts) b"
proof -
  have "map (\<lambda>(_, p). original_expr p) (enumerate 0 parts) = map original_expr (map snd (enumerate 0 parts))"
    by (simp add: case_prod_beta' comp_def del: map_snd_enumerate)
  then show ?thesis
    using selects_rest [OF assms, of MTableScan "\<lambda>_. True"] by (simp add: combine_parts_to_filter_def)
qed

lemma one_part_selects:
  assumes "parts_denote E row parts b" "i < length parts"
    and "method_selects E row meth \<longleftrightarrow> passes E row (original_expr (parts ! i))"
  shows "selects_as E row meth (combine_parts_except parts i) b"
  unfolding combine_parts_except_def by (rule selects_rest [OF assms(1)]) (use assms(2,3) in auto)


subsection \<open>Every access path selects the rows of the predicate\<close>

lemma index_scan_paths_ok:
  assumes "parts_denote E row parts b" "set ips \<subseteq> set (enumerate 0 parts)"
  shows "\<exists>ps. index_scan_paths coll parts ips = Some ps \<and>
    (\<forall>p\<in>set ps. selects_as E row (ap_method p) (ap_remaining_filter p) b)"
  using assms(2)
proof (induction ips)
  case (Cons ip ips)
  obtain i part where ip: "ip = (i, part)" "i < length parts" "part = parts ! i"
    using Cons.prems by (cases ip) (auto simp: enumerate_mem)
  obtain ps where ps: "index_scan_paths coll parts ips = Some ps"
    "\<forall>p\<in>set ps. selects_as E row (ap_method p) (ap_remaining_filter p) b" using Cons by auto
  show ?case
  proof (cases part)
    case (Indexable field iop ival e)
    obtain l where l: "lookup_of field iop ival = Some l" "lookup_holds E row l \<longleftrightarrow> passes E row e"
      using parts_denote_nth(2) [OF assms(1) ip(2)] unfolding ip(3) [symmetric] Indexable by auto
    have "selects_as E row (MIndexScan r l) (combine_parts_except parts i) b" for r
      by (rule one_part_selects [OF assms(1) ip(2)]) (use l(2) ip(3) Indexable in \<open>simp flip: ip(3)\<close>)
    then show ?thesis using ps l(1) ip(1) Indexable by (simp add: index_scan_def)
  qed (use ps ip(1) in simp_all)
qed simp

lemma branch_lookups_ok:
  assumes "branch_lookups coll bs = Some ls" "\<forall>b\<in>set bs. part_ok E row b"
  shows "list_ex (\<lambda>(_, l). lookup_holds E row l) ls \<longleftrightarrow> (\<exists>b\<in>set bs. passes E row (original_expr b))"
  using assms by (induction coll bs arbitrary: ls rule: branch_lookups.induct) (auto split: option.splits)

lemma union_paths_ok:
  assumes "parts_denote E row parts b" "p \<in> set (union_paths coll parts)"
  shows "selects_as E row (ap_method p) (ap_remaining_filter p) b"
proof -
  obtain i bs e where i: "i < length parts" "parts ! i = DisjunctionGroup bs e" "try_build_union bs parts i coll = Some p"
    using assms(2) by (auto simp: union_paths_def List.map_filter_def enumerate_mem split: PredicatePart.splits)
  then obtain ls where ls: "branch_lookups coll bs = Some ls"
    "ap_method p = MUnion ls (compute_union_needs_dedup ls)" "ap_remaining_filter p = combine_parts_except parts i"
    by (auto simp: try_build_union_def union_path_def split: option.splits)
  have "part_ok E row (DisjunctionGroup bs e)" using parts_denote_nth(2) [OF assms(1) i(1)] i(2) by simp
  then show ?thesis unfolding ls(2,3)
    by (intro one_part_selects [OF assms(1) i(1)]) (simp add: i(2) branch_lookups_ok [OF ls(1)])
qed

lemma extract_eq_condition_Some:
  "extract_eq_condition e = Some (field, v) \<longleftrightarrow> e = EBinaryOp (Field field) Eq (Literal v)"
  by (auto simp: extract_eq_condition_def split: Expr.splits BinaryOp.splits)

lemma eq_condition_Some:
  assumes "eq_condition (i, part) = Some (field, v, j)"
  shows "j = i \<and> ((\<exists>e. part = Indexable field IEq (ISingle v) e) \<or> part = FilterOnly (EBinaryOp (Field field) Eq (Literal v)))"
proof (cases part)
  case (Indexable field' iop ival e)
  then show ?thesis using assms by (cases iop; cases ival) (simp_all add: eq_condition_def)
qed (use assms in \<open>auto simp: eq_condition_def extract_eq_condition_Some\<close>)

lemma set_map_filter: "y \<in> set (List.map_filter f xs) \<longleftrightarrow> (\<exists>x\<in>set xs. f x = Some y)"
  by (induction xs) (auto simp: List.map_filter_simps split: option.splits)

lemma eq_conditions_ok:
  assumes "parts_denote E row parts b" "(field, v, i) \<in> set (eq_conditions parts)"
  shows "i < length parts" "field_holds E row field Eq v \<longleftrightarrow> passes E row (original_expr (parts ! i))"
proof -
  obtain j part where j: "(j, part) \<in> set (enumerate 0 parts)" "eq_condition (j, part) = Some (field, v, i)"
    using assms(2) by (auto simp: eq_conditions_def set_map_filter)
  have i: "i = j" "(\<exists>e. part = Indexable field IEq (ISingle v) e) \<or> part = FilterOnly (EBinaryOp (Field field) Eq (Literal v))"
    using eq_condition_Some [OF j(2)] by simp_all
  then show len: "i < length parts" using j(1) by (simp add: enumerate_mem)
  have part: "part = parts ! i" using j(1) i(1) by (simp add: enumerate_mem)
  then have "part_ok E row part" using parts_denote_nth(2) [OF assms(1) len] by simp
  then show "field_holds E row field Eq v \<longleftrightarrow> passes E row (original_expr (parts ! i))"
    using i(2) unfolding part [symmetric] by (auto simp: lookup_of_def comparison_passes)
qed

lemma find_map_Some: "find_map f xs = Some y \<Longrightarrow> \<exists>x\<in>set xs. f x = Some y"
  by (induction xs) (auto split: option.splits)

lemma find_Some_mem: "find P xs = Some x \<Longrightarrow> x \<in> set xs \<and> P x"
  by (auto simp: find_Some_iff)

lemma compound_path_ok:
  assumes "parts_denote E row parts b" "try_build_compound_index ctx coll parts = Some p"
  shows "selects_as E row (ap_method p) (ap_remaining_filter p) b"
proof -
  obtain index_fields where p: "p = compound_index_scan coll index_fields
      (map (\<lambda>(field, v, _). (field, v)) (index_conditions (eq_conditions parts) index_fields))
      (combine_parts_except_multiple parts (map (\<lambda>(_, _, i). i) (index_conditions (eq_conditions parts) index_fields)))"
    using assms(2) by (auto simp: try_build_compound_index_def Let_def dest!: find_map_Some split: if_splits option.splits)
  define used where "used = index_conditions (eq_conditions parts) index_fields"
  have "set used \<subseteq> set (eq_conditions parts)"
    by (auto simp: used_def index_conditions_def set_map_filter dest: find_Some_mem)
  then have used: "i < length parts" "field_holds E row field Eq v \<longleftrightarrow> passes E row (original_expr (parts ! i))"
    if "(field, v, i) \<in> set used" for field v i using that eq_conditions_ok [OF assms(1)] by blast+
  have "list_all (\<lambda>(field, v). field_holds E row field Eq v) (map (\<lambda>(field, v, _). (field, v)) used) \<longleftrightarrow>
      (\<forall>(field, v, i)\<in>set used. field_holds E row field Eq v)"
    by (auto simp: list_all_iff)
  also have "\<dots> \<longleftrightarrow> (\<forall>i<length parts. \<not> i \<notin> set (map (\<lambda>(_, _, i). i) used) \<longrightarrow> passes E row (original_expr (parts ! i)))"
  proof (intro iffI allI impI ballI)
    fix i assume "\<forall>(field, v, i)\<in>set used. field_holds E row field Eq v" "\<not> i \<notin> set (map (\<lambda>(_, _, i). i) used)"
    then obtain field v where "(field, v, i) \<in> set used" "field_holds E row field Eq v" by auto
    then show "passes E row (original_expr (parts ! i))" using used(2) by simp
  next
    fix c assume *: "\<forall>i<length parts. \<not> i \<notin> set (map (\<lambda>(_, _, i). i) used) \<longrightarrow> passes E row (original_expr (parts ! i))" "c \<in> set used"
    obtain field v i where c: "c = (field, v, i)" by (cases c)
    then have "i \<in> set (map (\<lambda>(_, _, i). i) used)" using *(2) by force
    then show "case c of (field, v, i) \<Rightarrow> field_holds E row field Eq v" using *(1) used *(2) unfolding c by auto
  qed
  finally show ?thesis unfolding p used_def [symmetric]
    by (simp add: compound_index_scan_def combine_parts_except_multiple_def selects_rest [OF assms(1)] del: set_map)
qed

lemma predicate_parts:
  assumes "eval_filter E predicate row = Inr b"
  shows "parts_denote E row (classify_all ctx coll (extract_conjuncts predicate)) b"
proof -
  obtain v where v: "evaluates E row predicate v" "is_truthy (env_libs E) v = b" using assms eval_filter_iff by blast
  then show ?thesis using conjuncts_denote [OF v(1)] conjuncts_ok [OF v(1)]
    by (auto simp: parts_denote_def classify_all_def comp_def)
qed

lemma generated_paths_select:
  assumes "eval_filter E predicate row = Inr b"
  shows "\<exists>p ps. generate_access_paths ctx coll (classify_all ctx coll (extract_conjuncts predicate)) = Some (p # ps) \<and>
    (\<forall>q\<in>set (p # ps). selects_as E row (ap_method q) (ap_remaining_filter q) b)"
proof -
  define parts where "parts = classify_all ctx coll (extract_conjuncts predicate)"
  have ok: "parts_denote E row parts b" unfolding parts_def by (rule predicate_parts [OF assms])
  obtain scans where scans: "index_scan_paths coll parts (enumerate 0 parts) = Some scans"
    "\<forall>p\<in>set scans. selects_as E row (ap_method p) (ap_remaining_filter p) b"
    using index_scan_paths_ok [OF ok] by blast
  have "selects_as E row (ap_method q) (ap_remaining_filter q) b" if "q = table_scan (combine_parts_to_filter parts)" for q
    using that table_scan_selects [OF ok] by (simp add: table_scan_def)
  then show ?thesis unfolding parts_def [symmetric]
    using scans union_paths_ok [OF ok] compound_path_ok [OF ok]
    by (auto simp: generate_access_paths_def split: option.splits)
qed

section \<open>The search for a compound index\<close>

lemma increasing_bound: "sorted_wrt (<) ys \<Longrightarrow> \<forall>y\<in>set ys. y < n \<Longrightarrow> ys \<noteq> [] \<Longrightarrow> hd ys + length ys \<le> (n :: nat)"
proof (induction ys)
  case (Cons y ys)
  then show ?case by (cases ys) auto
qed simp

lemma generate_set:
  assumes "length combo = k" "depth \<le> k" "k \<le> n"
  shows "set (generate combo start depth k n) =
    {xs. length xs = k \<and> take depth xs = take depth combo \<and> sorted_wrt (<) (drop depth xs) \<and>
         (\<forall>x\<in>set (drop depth xs). start \<le> x \<and> x < n)}"
  using assms
proof (induction combo start depth k n rule: generate.induct)
  case (1 combo start depth k n)
  show ?case
  proof (cases "k = depth")
    case True
    then have "generate combo start depth k n = [combo]" by (subst generate.simps) simp
    then show ?thesis using 1(2) True by auto
  next
    case False
    then have d: "depth < k" using 1(3) by simp
    define S where "S i = {xs. length xs = k \<and> take (depth + 1) xs = take (depth + 1) (combo[depth := i]) \<and>
      sorted_wrt (<) (drop (depth + 1) xs) \<and> (\<forall>x\<in>set (drop (depth + 1) xs). i + 1 \<le> x \<and> x < n)}" for i
    have IH: "set (generate (combo[depth := i]) (i + 1) (depth + 1) k n) = S i" if "i \<in> set [start..<n - (k - depth) + 1]" for i
      unfolding S_def using d 1(2,4) by (intro 1(1) [OF _ that]) auto
    have "set (generate combo start depth k n) = (\<Union>i\<in>set [start..<n - (k - depth) + 1]. S i)"
      unfolding generate.simps [of combo start depth k n] using d IH by simp
    also have "\<dots> = {xs. length xs = k \<and> take depth xs = take depth combo \<and> sorted_wrt (<) (drop depth xs) \<and>
         (\<forall>x\<in>set (drop depth xs). start \<le> x \<and> x < n)}" (is "?A = ?B")
    proof (intro set_eqI iffI)
      fix xs assume "xs \<in> ?A"
      then obtain i where i: "start \<le> i" "i \<le> n - (k - depth)" "xs \<in> S i" by auto
      then have xs: "length xs = k" "take (Suc depth) xs = take depth combo @ [i]" using d 1(2)
        by (simp_all add: S_def take_Suc_conv_app_nth)
      then have "take depth xs = take depth combo" "xs ! depth = i" using d 1(2) by (simp_all add: take_Suc_conv_app_nth)
      moreover have "drop depth xs = xs ! depth # drop (depth + 1) xs" using xs(1) d by (simp add: Cons_nth_drop_Suc)
      ultimately show "xs \<in> ?B" using i d 1(4) by (auto simp: S_def)
    next
      fix xs assume xs: "xs \<in> ?B"
      then have dr: "drop depth xs = xs ! depth # drop (depth + 1) xs" using d by (simp add: Cons_nth_drop_Suc)
      then have "xs ! depth + (k - depth) \<le> n" using increasing_bound [of "drop depth xs" n] xs by simp
      moreover have "xs \<in> S (xs ! depth)" using xs dr d 1(2) by (auto simp: S_def take_Suc_conv_app_nth)
      moreover have "start \<le> xs ! depth" using xs dr by simp
      ultimately show "xs \<in> ?A" using d by (auto intro!: bexI [of _ "xs ! depth"])
    qed
    finally show ?thesis .
  qed
qed

lemma combinations_set:
  "k \<le> n \<Longrightarrow> set (combinations n k) = {xs. length xs = k \<and> sorted_wrt (<) xs \<and> (\<forall>x\<in>set xs. x < n)}"
  by (simp add: combinations_def generate_set)

lemma find_map_None: "find_map f xs = None \<longleftrightarrow> (\<forall>x\<in>set xs. f x = None)"
  by (induction xs) (auto split: option.splits)

lemma increasing_length: "sorted_wrt (<) xs \<Longrightarrow> \<forall>x\<in>set xs. x < (n :: nat) \<Longrightarrow> length xs \<le> n"
  using increasing_bound [of xs n] by (cases "xs = []") auto

text \<open>The search for a compound index is exhaustive: a compound path is found if and only if the
  context has a compound index for the fields of some choice of two or more equality conditions,
  taken in the order of the predicate.\<close>

theorem compound_search_complete:
  "try_build_compound_index ctx coll parts \<noteq> None \<longleftrightarrow>
   (\<exists>xs. 2 \<le> length xs \<and> sorted_wrt (<) xs \<and> (\<forall>x\<in>set xs. x < length (eq_conditions parts)) \<and>
         pl_find_compound_index ctx coll (map (\<lambda>i. fst (eq_conditions parts ! i)) xs) \<noteq> None)"
proof -
  define n where "n = length (eq_conditions parts)"
  define h where "h = (\<lambda>indices. case pl_find_compound_index ctx coll (map (\<lambda>i. fst (eq_conditions parts ! i)) indices) of
      None \<Rightarrow> None
    | Some index_fields \<Rightarrow>
        let used = index_conditions (eq_conditions parts) index_fields
        in Some (compound_index_scan coll index_fields (map (\<lambda>(field, v, _). (field, v)) used)
             (combine_parts_except_multiple parts (map (\<lambda>(_, _, i). i) used))))"
  define hit where "hit xs \<longleftrightarrow> pl_find_compound_index ctx coll (map (\<lambda>i. fst (eq_conditions parts ! i)) xs) \<noteq> None" for xs
  have h: "h xs = None \<longleftrightarrow> \<not> hit xs" for xs by (simp add: h_def hit_def Let_def split: option.splits)
  have "try_build_compound_index ctx coll parts =
      (if n < 2 then None else find_map (\<lambda>k. find_map h (combinations n k)) (rev [2..<n + 1]))"
    by (simp only: try_build_compound_index_def Let_def n_def h_def)
  then have "try_build_compound_index ctx coll parts = None \<longleftrightarrow>
      n < 2 \<or> (\<forall>k\<in>set [2..<n + 1]. \<forall>xs\<in>set (combinations n k). \<not> hit xs)"
    by (simp only: find_map_None h set_rev split: if_split) simp
  then have "try_build_compound_index ctx coll parts \<noteq> None \<longleftrightarrow> (\<exists>k. 2 \<le> k \<and> k \<le> n \<and> (\<exists>xs\<in>set (combinations n k). hit xs))"
    by auto
  also have "\<dots> \<longleftrightarrow> (\<exists>xs. 2 \<le> length xs \<and> sorted_wrt (<) xs \<and> (\<forall>x\<in>set xs. x < n) \<and> hit xs)"
  proof
    assume "\<exists>k. 2 \<le> k \<and> k \<le> n \<and> (\<exists>xs\<in>set (combinations n k). hit xs)"
    then obtain k xs where "2 \<le> k" "k \<le> n" "xs \<in> set (combinations n k)" "hit xs" by blast
    then show "\<exists>xs. 2 \<le> length xs \<and> sorted_wrt (<) xs \<and> (\<forall>x\<in>set xs. x < n) \<and> hit xs"
      by (intro exI [of _ xs]) (simp add: combinations_set)
  next
    assume "\<exists>xs. 2 \<le> length xs \<and> sorted_wrt (<) xs \<and> (\<forall>x\<in>set xs. x < n) \<and> hit xs"
    then obtain xs where xs: "2 \<le> length xs" "sorted_wrt (<) xs" "\<forall>x\<in>set xs. x < n" "hit xs" by blast
    then have "length xs \<le> n" by (intro increasing_length)
    then show "\<exists>k. 2 \<le> k \<and> k \<le> n \<and> (\<exists>xs\<in>set (combinations n k). hit xs)"
      using xs by (intro exI [of _ "length xs"]) (auto simp: combinations_set)
  qed
  finally show ?thesis by (simp add: n_def hit_def)
qed

theorem compound_search_complete_witness:
  "try_build_compound_index \<lparr>pl_find_index_for_field = (\<lambda>_ _. None), pl_find_compound_index = (\<lambda>_ fs. if fs = [''a'', ''c''] then Some fs else None)\<rparr>
     ''u'' [FilterOnly (EBinaryOp (Field ''a'') Eq (Literal VNull)), FilterOnly (EBinaryOp (Field ''b'') Eq (Literal VNull)),
            FilterOnly (EBinaryOp (Field ''c'') Eq (Literal VNull)) :: unit PredicatePart] \<noteq> None"
  by (subst compound_search_complete, rule exI [of _ "[0, 2]"])
    (simp add: eq_conditions_def eq_condition_def extract_eq_condition_def List.map_filter_simps)

end
