(* ===== verification/Plans.thy ===== *)
theory Plans
  imports Access_Paths
begin

text \<open>
  Logical and physical plans: \<open>query/plan/logical.rs\<close> and \<open>query/plan/physical.rs\<close>, with the parts
  of the syntax they hold (\<open>query/ast/types.rs\<close>, \<open>query/ast/stmt.rs\<close>) and \<open>expr_display_name\<close> of
  \<open>operators/project.rs\<close>.

  Of \<open>LogicalPlan::from_ast\<close> the planning of SELECT is here (\<open>select_plan\<close>), which extracts the
  aggregates of the projection; \<open>Statements\<close> has the other statements. \<open>dbg\<close> stands for the derived
  \<open>Debug\<close> of values.
\<close>

section \<open>Syntax the plans hold\<close>

record 'q ProjectionItem =
  pi_expr :: "'q Expr"
  pi_alias :: "string option"

datatype 'q Projection = ProjAll | ProjItems "'q ProjectionItem list"

record 'q Assignment =
  as_path :: "string list"
  as_expr :: "'q Expr"

record ObjectLiteral =
  ol_fields :: "(string \<times> Value) list"

record FetchItem =
  fi_path :: "string list"
  fi_alias :: "string option"

record Target =
  tg_collection :: string
  tg_key :: "string option"

datatype 'q PostfixOp = PFieldAccess string | PIndex "'q Expr" | PSlice "'q Expr option" "'q Expr option"

datatype 'q DataSource =
    DSNone
  | DSCollection Target
  | DSFieldPath Target "string list" "'q PostfixOp list"
  | DSExpr "'q Expr"

record 'q SelectAst =
  sa_projection :: "'q Projection"
  sa_distinct :: bool
  sa_value_mode :: bool
  sa_source :: "'q DataSource"
  sa_filter :: "'q Expr option"
  sa_group :: "string list option"
  sa_order :: "'q OrderItem list option"
  sa_limit :: "nat option"
  sa_offset :: "nat option"
  sa_fetch :: "FetchItem list option"

section \<open>Logical plans (logical.rs)\<close>

datatype 'q LogicalPlan =
    LScan string "string option" "'q Expr option" "'q Projection" "'q OrderItem list option" "nat option" "nat option"
      bool bool "'q Expr option" "FetchItem list option"
  | LAggregate string "'q Expr option" "ResolvedAggregate list" "'q Projection option"
  | LGroupAggregate string "'q Expr option" "string list" "ResolvedAggregate list" "'q Projection option"
      "'q OrderItem list option"
  | LInMemoryScan "Row list" "'q Expr option" "'q Projection" "'q OrderItem list option" "nat option" "nat option"
      bool bool bool "'q Expr option" "FetchItem list option"
  | LInsert string "ObjectLiteral list"
  | LCreate string "string option" "'q Assignment list"
  | LUpdate string "string option" "'q Expr option" "'q Assignment list"
  | LUpsert string string "'q Assignment list" bool
  | LDelete string "string option" "'q Expr option"
  | LDeleteEdge string string "string option"
  | LBegin | LCommit | LRollback
  | LDefineCollection string SchemaMode "FieldDef list" "IndexDef list"
  | LDropCollection string bool
  | LDescribeCollection string
  | LDescribeCollections
  | LCreateIndex string "string list" bool IndexType "HnswParams option" "string option"
  | LDropIndex string string
  | LReindex string string
  | LExplain bool "'q LogicalPlan" "u64 option"
  | LLet string "'q Expr"

definition agg_alias :: "'d env \<Rightarrow> AggregateCall \<Rightarrow> string" where
  "agg_alias E call =
     (case agg_arg call of
        Wildcard \<Rightarrow> env_to_lowercase E (agg_function call) @ ''(*)''
      | AggField f \<Rightarrow> env_to_lowercase E (agg_function call) @ ''('' @ f @ '')'')"

definition push_aggregate :: "'d env \<Rightarrow> AggregateCall \<Rightarrow> ResolvedAggregate list \<Rightarrow> ResolvedAggregate list" where
  "push_aggregate E call aggs =
     (if list_ex (\<lambda>a. ra_alias a = agg_alias E call) aggs then aggs
      else case from_name E (agg_function call) of
             Some func \<Rightarrow>
               aggs @ [\<lparr>ra_function = func, ra_arg = agg_arg call, ra_alias = agg_alias E call, ra_distinct = agg_distinct call\<rparr>]
           | None \<Rightarrow> aggs)"

text \<open>A map over a list that threads the collected aggregates.\<close>

fun thread_map :: "('a \<Rightarrow> 's \<Rightarrow> 's \<times> 'b) \<Rightarrow> 'a list \<Rightarrow> 's \<Rightarrow> 's \<times> 'b list" where
  "thread_map f [] s = (s, [])"
| "thread_map f (x # xs) s =
     (case f x s of (s1, y) \<Rightarrow> case thread_map f xs s1 of (s2, ys) \<Rightarrow> (s2, y # ys))"

lemma thread_map_cong [fundef_cong]:
  assumes "xs = ys" "s = t" "\<And>x u. x \<in> set ys \<Longrightarrow> f x u = g x u"
  shows "thread_map f xs s = thread_map g ys t"
  using assms(3) unfolding assms(1,2) by (induction ys arbitrary: t) (auto split: prod.splits)

function extract_aggregates :: "'d env \<Rightarrow> 'q Expr \<Rightarrow> ResolvedAggregate list \<Rightarrow> ResolvedAggregate list \<times> 'q Expr" where
  "extract_aggregates E expr aggs =
     (case expr of
        Aggregate call \<Rightarrow> (push_aggregate E call aggs, Field (agg_alias E call))
      | EBinaryOp left oper right \<Rightarrow>
          (case extract_aggregates E left aggs of (aggs1, l) \<Rightarrow>
           case extract_aggregates E right aggs1 of (aggs2, r) \<Rightarrow> (aggs2, EBinaryOp l oper r))
      | EUnaryOp oper inner \<Rightarrow>
          (case extract_aggregates E inner aggs of (aggs1, e) \<Rightarrow> (aggs1, EUnaryOp oper e))
      | FunctionCall name namespace args \<Rightarrow>
          (case thread_map (extract_aggregates E) args aggs of (aggs1, es) \<Rightarrow> (aggs1, FunctionCall name namespace es))
      | EArray items \<Rightarrow>
          (case thread_map (extract_aggregates E) items aggs of (aggs1, es) \<Rightarrow> (aggs1, EArray es))
      | EObject pairs \<Rightarrow>
          (case thread_map (\<lambda>kv s. case extract_aggregates E (snd kv) s of (s1, e) \<Rightarrow> (s1, (fst kv, e))) pairs aggs of
             (aggs1, kvs) \<Rightarrow> (aggs1, EObject kvs))
      | _ \<Rightarrow> (aggs, expr))"
  by auto
termination
  by (relation "measure (\<lambda>(E, e, aggs). size e)") (auto dest: size_elem intro: size_pairs rev_image_eqI)

declare extract_aggregates.simps [simp del]

definition extract_value_expr :: "'q Projection \<Rightarrow> 'q Expr option" where
  "extract_value_expr projection =
     (case projection of
        ProjItems items \<Rightarrow> if length items = 1 then Some (pi_expr (items ! 0)) else None
      | ProjAll \<Rightarrow> None)"

definition binary_symbol :: "BinaryOp \<Rightarrow> string" where
  "binary_symbol oper =
     (case oper of Add \<Rightarrow> ''+'' | Sub \<Rightarrow> ''-'' | Mul \<Rightarrow> ''*'' | Div \<Rightarrow> ''/'' | Eq \<Rightarrow> ''='' | Ne \<Rightarrow> ''!='' | Gt \<Rightarrow> ''>''
      | Gte \<Rightarrow> ''>='' | Lt \<Rightarrow> ''<'' | Lte \<Rightarrow> ''<='' | And \<Rightarrow> ''AND'' | Or \<Rightarrow> ''OR'' | Coalesce \<Rightarrow> ''??'')"

function expr_display_name :: "'d env \<Rightarrow> (Value \<Rightarrow> string) \<Rightarrow> 'q Expr \<Rightarrow> string" where
  "expr_display_name E dbg expr =
     (case expr of
        Field f \<Rightarrow> f
      | Literal v \<Rightarrow> dbg v
      | EBinaryOp left oper right \<Rightarrow>
          expr_display_name E dbg left @ '' '' @ binary_symbol oper @ '' '' @ expr_display_name E dbg right
      | EUnaryOp oper inner \<Rightarrow>
          (case oper of
             Neg \<Rightarrow> ''-'' @ expr_display_name E dbg inner
           | Not \<Rightarrow> ''NOT '' @ expr_display_name E dbg inner
           | IsNull \<Rightarrow> expr_display_name E dbg inner @ '' IS NULL''
           | IsNotNull \<Rightarrow> expr_display_name E dbg inner @ '' IS NOT NULL''
           | IsNone \<Rightarrow> expr_display_name E dbg inner @ '' IS NONE''
           | IsNotNone \<Rightarrow> expr_display_name E dbg inner @ '' IS NOT NONE'')
      | FunctionCall name _ args \<Rightarrow>
          env_to_lowercase E name @ ''('' @ intersperse_str '', '' (map (expr_display_name E dbg) args) @ '')''
      | Aggregate agg \<Rightarrow>
          env_to_lowercase E (agg_function agg) @ ''('' @ (case agg_arg agg of Wildcard \<Rightarrow> ''*'' | AggField f \<Rightarrow> f) @ '')''
      | EArray _ \<Rightarrow> ''[...]''
      | EObject _ \<Rightarrow> ''{...}''
      | InList _ _ _ \<Rightarrow> ''in_expr''
      | InSubquery _ _ _ \<Rightarrow> ''in_subquery''
      | InExpr _ _ _ \<Rightarrow> ''in_expr''
      | Subquery _ \<Rightarrow> ''(SELECT ...)''
      | EParentRef p \<Rightarrow> ''$parent.'' @ concat (replicate (pr_depth p) ''parent.'') @ pr_field p
      | ValueRef None \<Rightarrow> ''$value''
      | ValueRef (Some path) \<Rightarrow> ''$value.'' @ path
      | EIndex base index \<Rightarrow> expr_display_name E dbg base @ ''['' @ expr_display_name E dbg index @ '']''
      | ESlice base start end \<Rightarrow>
          expr_display_name E dbg base @ ''['' @
          (case start of Some e \<Rightarrow> expr_display_name E dbg e | None \<Rightarrow> '''') @ ''..'' @
          (case end of Some e \<Rightarrow> expr_display_name E dbg e | None \<Rightarrow> '''') @ '']''
      | FieldAccess base field \<Rightarrow> expr_display_name E dbg base @ ''.'' @ field
      | EConstant namespace name \<Rightarrow> namespace @ ''::'' @ name
      | EVariable name \<Rightarrow> ''$'' @ name
      | EFts target _ query \<Rightarrow>
          (case target of FtsField f \<Rightarrow> f | FtsMatch _ _ \<Rightarrow> ''MATCH(...)'') @ '' @@ '' @ [CHR 0x22] @ query @ [CHR 0x22]
      | KnnSearch field _ k _ \<Rightarrow> field @ '' <|'' @ nat_to_string k @ ''|> [...]''
      | Traversal _ _ _ \<Rightarrow> ''->...''
      | EIf _ _ \<Rightarrow> ''IF...END''
      | EFor binding _ _ \<Rightarrow> ''FOR $'' @ binding @ ''...END''
      | EBreak \<Rightarrow> ''BREAK''
      | EContinue \<Rightarrow> ''CONTINUE''
      | ERange start end \<Rightarrow> expr_display_name E dbg start @ ''..'' @ expr_display_name E dbg end)"
  by auto
termination
  by (relation "measure (\<lambda>(E, dbg, e). size e)") (auto dest: size_elem)

declare expr_display_name.simps [simp del]

text \<open>The projection that is evaluated on the results: every aggregate becomes a field.\<close>

definition post_item ::
  "'d env \<Rightarrow> (Value \<Rightarrow> string) \<Rightarrow> 'q ProjectionItem \<Rightarrow> ResolvedAggregate list \<Rightarrow> ResolvedAggregate list \<times> 'q ProjectionItem" where
  "post_item E dbg item aggs =
     (case extract_aggregates E (pi_expr item) aggs of
        (aggs1, rewritten) \<Rightarrow>
          (aggs1, \<lparr>pi_expr = rewritten,
                   pi_alias = Some (case pi_alias item of Some a \<Rightarrow> a | None \<Rightarrow> expr_display_name E dbg (pi_expr item))\<rparr>))"

definition bare_aggregate :: "'d env \<Rightarrow> 'q ProjectionItem \<Rightarrow> ResolvedAggregate option" where
  "bare_aggregate E item =
     (case pi_expr item of
        Aggregate call \<Rightarrow>
          map_option (\<lambda>func.
            \<lparr>ra_function = func, ra_arg = agg_arg call,
             ra_alias = (case pi_alias item of Some a \<Rightarrow> a | None \<Rightarrow> agg_alias E call), ra_distinct = agg_distinct call\<rparr>)
            (from_name E (agg_function call))
      | _ \<Rightarrow> None)"

definition is_aggregate :: "'q Expr \<Rightarrow> bool" where
  "is_aggregate e = (case e of Aggregate _ \<Rightarrow> True | _ \<Rightarrow> False)"

definition is_group_field :: "string list \<Rightarrow> 'q Expr \<Rightarrow> bool" where
  "is_group_field group_fields e = (case e of Field f \<Rightarrow> f \<in> set group_fields | _ \<Rightarrow> False)"

definition group_plan ::
  "'d env \<Rightarrow> (Value \<Rightarrow> string) \<Rightarrow> 'q SelectAst \<Rightarrow> string \<Rightarrow> string list \<Rightarrow> 'q LogicalPlan" where
  "group_plan E dbg s coll group_fields =
     (case sa_projection s of
        ProjAll \<Rightarrow> LGroupAggregate coll (sa_filter s) group_fields [] None (sa_order s)
      | ProjItems items \<Rightarrow>
          if list_ex (\<lambda>item. \<not> is_aggregate (pi_expr item) \<and> \<not> is_group_field group_fields (pi_expr item)) items
          then case thread_map (\<lambda>item aggs. if is_group_field group_fields (pi_expr item) then (aggs, item)
                                        else post_item E dbg item aggs) items [] of
                 (aggs, post_items) \<Rightarrow>
                   LGroupAggregate coll (sa_filter s) group_fields aggs (Some (ProjItems post_items)) (sa_order s)
          else LGroupAggregate coll (sa_filter s) group_fields (List.map_filter (bare_aggregate E) items) None (sa_order s))"

definition aggregate_plan ::
  "'d env \<Rightarrow> (Value \<Rightarrow> string) \<Rightarrow> 'q SelectAst \<Rightarrow> string \<Rightarrow> 'q ProjectionItem list \<Rightarrow> 'q LogicalPlan" where
  "aggregate_plan E dbg s coll items =
     (if list_ex (\<lambda>item. \<not> is_aggregate (pi_expr item)) items
      then case thread_map (post_item E dbg) items [] of
             (aggs, post_items) \<Rightarrow> LAggregate coll (sa_filter s) aggs (Some (ProjItems post_items))
      else LAggregate coll (sa_filter s) (List.map_filter (bare_aggregate E) items) None)"

definition scan_plan :: "'q SelectAst \<Rightarrow> string \<Rightarrow> string option \<Rightarrow> 'q LogicalPlan" where
  "scan_plan s coll k =
     LScan coll k (sa_filter s) (sa_projection s) (sa_order s) (sa_limit s) (sa_offset s) (sa_distinct s) (sa_value_mode s)
       (if sa_value_mode s then extract_value_expr (sa_projection s) else None) (sa_fetch s)"

text \<open>SELECT in \<open>from_ast\<close>; the other sources are materialised before and unreachable here.\<close>

definition select_plan :: "'d env \<Rightarrow> (Value \<Rightarrow> string) \<Rightarrow> 'q SelectAst \<Rightarrow> 'q LogicalPlan option" where
  "select_plan E dbg s =
     (case sa_source s of
        DSCollection t \<Rightarrow>
          Some (case sa_group s of
                  Some group_fields \<Rightarrow> group_plan E dbg s (tg_collection t) group_fields
                | None \<Rightarrow>
                    (case sa_projection s of
                       ProjItems items \<Rightarrow>
                         if list_ex (\<lambda>i. contains_aggregate (pi_expr i)) items
                         then aggregate_plan E dbg s (tg_collection t) items
                         else scan_plan s (tg_collection t) (tg_key t)
                     | ProjAll \<Rightarrow> scan_plan s (tg_collection t) (tg_key t)))
      | _ \<Rightarrow> None)"

section \<open>Physical plans (physical.rs)\<close>

datatype 'q PhysicalOp =
    PTableScan string "nat option"
  | PKeyLookup string string
  | PIndexScan string IndexRef IndexLookup
  | PInMemoryScan "Row list"
  | PFtsScan string FtsTarget FtsOperator string "nat option"
  | PKnnScan string string "'q Expr" nat "nat option"
  | PUnion "'q PhysicalOp list" bool
  | PFilter "'q Expr" "'q PhysicalOp"
  | PProject "'q Projection" "'q PhysicalOp"
  | PLimit nat "'q PhysicalOp"
  | POffset nat "'q PhysicalOp"
  | PSort "'q OrderItem list" "'q PhysicalOp"
  | PAggregate "ResolvedAggregate list" "'q PhysicalOp"
  | PGroupAggregate "string list" "ResolvedAggregate list" "'q PhysicalOp"
  | PDistinct "'q PhysicalOp"
  | PValue "'q Expr" bool "'q PhysicalOp"
  | PInsert string "ObjectLiteral list"
  | PCreate string "string option" "'q Assignment list"
  | PUpdate string "'q Assignment list" "'q PhysicalOp"
  | PUpsert string string "'q Assignment list" bool
  | PDelete string "'q PhysicalOp"
  | PDeleteEdge string string "string option"

section \<open>Extracting the aggregates of an expression\<close>

text \<open>The aggregates that \<open>extract_aggregates\<close> reaches, and what it makes of the expression when
  \<open>f\<close> replaces them.\<close>

function visited_aggregates :: "'q Expr \<Rightarrow> AggregateCall list" where
  "visited_aggregates expr =
     (case expr of
        Aggregate call \<Rightarrow> [call]
      | EBinaryOp left oper right \<Rightarrow> visited_aggregates left @ visited_aggregates right
      | EUnaryOp oper inner \<Rightarrow> visited_aggregates inner
      | FunctionCall name namespace args \<Rightarrow> concat (map visited_aggregates args)
      | EArray items \<Rightarrow> concat (map visited_aggregates items)
      | EObject pairs \<Rightarrow> concat (map (\<lambda>kv. visited_aggregates (snd kv)) pairs)
      | _ \<Rightarrow> [])"
  by auto
termination by (relation "measure size") (auto dest: size_elem intro: size_pairs rev_image_eqI)

function replace_aggregates :: "(AggregateCall \<Rightarrow> 'q Expr) \<Rightarrow> 'q Expr \<Rightarrow> 'q Expr" where
  "replace_aggregates f expr =
     (case expr of
        Aggregate call \<Rightarrow> f call
      | EBinaryOp left oper right \<Rightarrow> EBinaryOp (replace_aggregates f left) oper (replace_aggregates f right)
      | EUnaryOp oper inner \<Rightarrow> EUnaryOp oper (replace_aggregates f inner)
      | FunctionCall name namespace args \<Rightarrow> FunctionCall name namespace (map (replace_aggregates f) args)
      | EArray items \<Rightarrow> EArray (map (replace_aggregates f) items)
      | EObject pairs \<Rightarrow> EObject (map (\<lambda>kv. (fst kv, replace_aggregates f (snd kv))) pairs)
      | _ \<Rightarrow> expr)"
  by auto
termination by (relation "measure (size \<circ> snd)") (auto dest: size_elem intro: size_pairs rev_image_eqI)

declare visited_aggregates.simps [simp del] replace_aggregates.simps [simp del]

lemma visited_aggregates_simps [simp]:
  "visited_aggregates (Aggregate c) = [c]"
  "visited_aggregates (EBinaryOp l oper r) = visited_aggregates l @ visited_aggregates r"
  "visited_aggregates (EUnaryOp uop i) = visited_aggregates i"
  "visited_aggregates (FunctionCall name namespace args) = concat (map visited_aggregates args)"
  "visited_aggregates (EArray args) = concat (map visited_aggregates args)"
  "visited_aggregates (EObject pairs) = concat (map (\<lambda>kv. visited_aggregates (snd kv)) pairs)"
  "visited_aggregates (Literal v) = []"
  "visited_aggregates (Field f) = []"
  by (subst visited_aggregates.simps, simp)+

lemma replace_aggregates_simps [simp]:
  "replace_aggregates f (Aggregate c) = f c"
  "replace_aggregates f (EBinaryOp l oper r) = EBinaryOp (replace_aggregates f l) oper (replace_aggregates f r)"
  "replace_aggregates f (Literal v) = Literal v"
  "replace_aggregates f (Field name) = Field name"
  by (subst replace_aggregates.simps, simp)+

lemma thread_map_eq:
  assumes "\<And>x s. x \<in> set xs \<Longrightarrow> f x s = (fold p (v x) s, h x)"
  shows "thread_map f xs s = (fold p (concat (map v xs)) s, map h xs)"
  using assms by (induction xs arbitrary: s) simp_all

lemma size_less:
  "e \<in> set args \<Longrightarrow> size e < size (FunctionCall name namespace args)"
  "e \<in> set args \<Longrightarrow> size e < size (EArray args)"
  "kv \<in> set pairs \<Longrightarrow> size (snd kv) < size (EObject pairs)"
  using size_pairs [of "snd kv" pairs] by (auto dest: size_elem)

lemma extract_aggregates_eq:
  "extract_aggregates E e aggs =
     (fold (push_aggregate E) (visited_aggregates e) aggs, replace_aggregates (\<lambda>c. Field (agg_alias E c)) e)"
proof (induction e arbitrary: aggs rule: measure_induct_rule [of size])
  case (less e)
  note s = extract_aggregates.simps [of E e aggs] visited_aggregates.simps [of e]
    replace_aggregates.simps [of "\<lambda>c. Field (agg_alias E c)" e]
  show ?case
  proof (cases e)
    case (EBinaryOp l oper r)
    then show ?thesis unfolding s by (simp add: less)
  next
    case (EUnaryOp oper i)
    then show ?thesis unfolding s by (simp add: less)
  next
    case (FunctionCall name namespace args)
    have "thread_map (extract_aggregates E) args aggs =
        (fold (push_aggregate E) (concat (map visited_aggregates args)) aggs, map (replace_aggregates (\<lambda>c. Field (agg_alias E c))) args)"
      by (rule thread_map_eq) (use less FunctionCall size_less(1) in blast)
    then show ?thesis unfolding s using FunctionCall by simp
  next
    case (EArray items)
    have "thread_map (extract_aggregates E) items aggs =
        (fold (push_aggregate E) (concat (map visited_aggregates items)) aggs, map (replace_aggregates (\<lambda>c. Field (agg_alias E c))) items)"
      by (rule thread_map_eq) (use less EArray size_less(2) in blast)
    then show ?thesis unfolding s using EArray by simp
  next
    case (EObject pairs)
    have "thread_map (\<lambda>kv s. case extract_aggregates E (snd kv) s of (s1, e) \<Rightarrow> (s1, (fst kv, e))) pairs aggs =
        (fold (push_aggregate E) (concat (map (\<lambda>kv. visited_aggregates (snd kv)) pairs)) aggs,
         map (\<lambda>kv. (fst kv, replace_aggregates (\<lambda>c. Field (agg_alias E c)) (snd kv))) pairs)"
    proof (rule thread_map_eq)
      fix kv s assume "kv \<in> set pairs"
      then have "size (snd kv) < size e" unfolding EObject by (rule size_less(3))
      then show "(case extract_aggregates E (snd kv) s of (s1, e) \<Rightarrow> (s1, (fst kv, e))) =
          (fold (push_aggregate E) (visited_aggregates (snd kv)) s, (fst kv, replace_aggregates (\<lambda>c. Field (agg_alias E c)) (snd kv)))"
        by (simp add: less)
    qed
    then show ?thesis unfolding s using EObject by simp
  qed (unfold s, simp_all)
qed

text \<open>The collected list: one entry for each alias, an entry for each known aggregate.\<close>

lemma push_aggregate_props:
  "distinct (map ra_alias aggs) \<Longrightarrow> distinct (map ra_alias (push_aggregate E c aggs))"
  "set aggs \<subseteq> set (push_aggregate E c aggs)"
  "from_name E (agg_function c) \<noteq> None \<Longrightarrow> agg_alias E c \<in> ra_alias ` set (push_aggregate E c aggs)"
  by (auto simp: push_aggregate_def list_ex_iff image_iff split: option.splits) metis

lemma fold_push_props:
  "distinct (map ra_alias aggs) \<Longrightarrow> distinct (map ra_alias (fold (push_aggregate E) cs aggs))"
  "set aggs \<subseteq> set (fold (push_aggregate E) cs aggs)"
  "c \<in> set cs \<Longrightarrow> from_name E (agg_function c) \<noteq> None \<Longrightarrow> agg_alias E c \<in> ra_alias ` set (fold (push_aggregate E) cs aggs)"
proof (induction cs arbitrary: aggs)
  case (Cons d cs)
  { case 1 then show ?case using Cons(1) [OF push_aggregate_props(1)] by simp
  next case 2 then show ?case using Cons(2) push_aggregate_props(2) [of aggs E d] by fastforce
  next
    case 3
    then show ?case
    proof (cases "c = d")
      case True
      have "agg_alias E d \<in> ra_alias ` set (push_aggregate E d aggs)" using 3(2) True by (intro push_aggregate_props(3)) simp
      then show ?thesis using True Cons(2) [of "push_aggregate E d aggs"] by auto
    qed (use Cons(3) in simp) }
qed simp_all

lemma replaced_evaluates:
  assumes "\<And>c. c \<in> set (visited_aggregates e) \<Longrightarrow> eval_expr E (f c) row vars = eval_expr E (g c) row vars"
    and "\<And>c oper. c \<in> set (visited_aggregates e) \<Longrightarrow> eval_expr E (EUnaryOp oper (f c)) row vars = eval_expr E (EUnaryOp oper (g c)) row vars"
  shows "eval_expr E (replace_aggregates f e) row vars = eval_expr E (replace_aggregates g e) row vars \<and>
    (\<forall>oper. eval_expr E (EUnaryOp oper (replace_aggregates f e)) row vars = eval_expr E (EUnaryOp oper (replace_aggregates g e)) row vars)"
  using assms
proof (induction e rule: measure_induct_rule [of size])
  case (less e)
  have *: "eval_expr E (replace_aggregates f d) row vars = eval_expr E (replace_aggregates g d) row vars \<and>
      (\<forall>oper. eval_expr E (EUnaryOp oper (replace_aggregates f d)) row vars = eval_expr E (EUnaryOp oper (replace_aggregates g d)) row vars)"
    if "size d < size e" "set (visited_aggregates d) \<subseteq> set (visited_aggregates e)" for d
    using less.IH [OF that(1)] less.prems that(2) by blast
  have **: "eval_expr E (replace_aggregates f d) row vars = eval_expr E (replace_aggregates g d) row vars"
    if "size d < size e" "set (visited_aggregates d) \<subseteq> set (visited_aggregates e)" for d using * [OF that] by (rule conjunct1)
  note s = replace_aggregates.simps [of f e] replace_aggregates.simps [of g e]
  show ?case
  proof (cases e)
    case (Aggregate c)
    then have "c \<in> set (visited_aggregates e)" by simp
    then show ?thesis unfolding s using Aggregate less.prems by simp
  next
    case (EBinaryOp l oper r)
    have "eval_expr E (EBinaryOp (replace_aggregates f l) oper (replace_aggregates f r)) row vars =
        eval_expr E (EBinaryOp (replace_aggregates g l) oper (replace_aggregates g r)) row vars"
      using ** [of l] ** [of r] EBinaryOp by (simp add: eval_expr.simps(3) cong: if_cong)
    then show ?thesis unfolding s using EBinaryOp by (simp split: UnaryOp.splits)
  next
    case (EUnaryOp oper i)
    then show ?thesis unfolding s using * [of i] EUnaryOp by (simp split: UnaryOp.splits)
  next
    case (FunctionCall name namespace args)
    have "eval_expr E (replace_aggregates f a) row vars = eval_expr E (replace_aggregates g a) row vars" if "a \<in> set args" for a
      using ** [of a] size_less(1) [OF that, of name namespace] that FunctionCall by auto
    then have "collect_results (\<lambda>a. eval_expr E a row vars) (map (replace_aggregates f) args) =
        collect_results (\<lambda>a. eval_expr E a row vars) (map (replace_aggregates g) args)"
      by (induction args) auto
    then show ?thesis unfolding s using FunctionCall by (simp split: UnaryOp.splits)
  next
    case (EArray items)
    have "eval_expr E (replace_aggregates f a) row vars = eval_expr E (replace_aggregates g a) row vars" if "a \<in> set items" for a
      using ** [of a] size_less(2) [OF that] that EArray by auto
    then have "collect_results (\<lambda>a. eval_expr E a row vars) (map (replace_aggregates f) items) =
        collect_results (\<lambda>a. eval_expr E a row vars) (map (replace_aggregates g) items)"
      by (induction items) auto
    then show ?thesis unfolding s using EArray by (simp split: UnaryOp.splits)
  next
    case (EObject pairs)
    have "eval_expr E (replace_aggregates f (snd kv)) row vars = eval_expr E (replace_aggregates g (snd kv)) row vars" if "kv \<in> set pairs" for kv
      using ** [of "snd kv"] size_less(3) [OF that] that EObject by auto
    then have "collect_results (\<lambda>kv. and_then (eval_expr E (snd kv) row vars) (\<lambda>v. Inr (fst kv, v)))
          (map (\<lambda>kv. (fst kv, replace_aggregates f (snd kv))) pairs) =
        collect_results (\<lambda>kv. and_then (eval_expr E (snd kv) row vars) (\<lambda>v. Inr (fst kv, v)))
          (map (\<lambda>kv. (fst kv, replace_aggregates g (snd kv))) pairs)"
      by (induction pairs) auto
    then show ?thesis unfolding s using EObject by (simp split: UnaryOp.splits)
  qed (unfold s, simp_all)
qed

section \<open>Properties\<close>

lemma field_of_row:
  assumes "row_get_field row name = Some v" "CHR ''.'' \<notin> set name"
  shows "eval_expr E (Field name) row vars = Inr v" "field_is_present row name"
  using assms
  by (auto simp: eval_field_def field_is_present_def has_field_def row_get_field_def hm_contains_def Let_def
      split: option.splits if_splits)

lemma field_as_literal:
  assumes "row_get_field row name = Some v" "CHR ''.'' \<notin> set name"
  shows "eval_expr E (EUnaryOp oper (Field name)) row vars = eval_expr E (EUnaryOp oper (Literal v)) row vars"
  by (simp add: field_of_row [OF assms, simplified] split: UnaryOp.splits)


definition sum_x :: AggregateCall where
  "sum_x = \<lparr>agg_namespace = None, agg_function = ''sum'', agg_arg = AggField ''x'', agg_distinct = False\<rparr>"

lemma sum_x_alias [simp]: "agg_alias int_env sum_x = ''sum(x)''"
  by (simp add: agg_alias_def sum_x_def int_env_def)


text \<open>The aliases of an aggregate with and without DISTINCT are the same: only the first is computed,
  and the other reads its result.\<close>

lemma distinct_aggregate_lost:
  fixes c :: AggregateCall
  assumes "from_name E (agg_function c) \<noteq> None"
  shows "length (fst (extract_aggregates E
    (EBinaryOp (Aggregate (c\<lparr>agg_distinct := True\<rparr>)) Add (Aggregate (c\<lparr>agg_distinct := False\<rparr>)) :: unit Expr) [])) = 1"
  using assms by (auto simp: extract_aggregates_eq push_aggregate_def agg_alias_def split: AggregateArg.splits)

text \<open>The result of an aggregate of a nested field is not found under its alias: the evaluator takes
  the dot of the alias for a path.\<close>

lemma nested_aggregate_is_null:
  "eval_expr int_env (snd (extract_aggregates int_env (Aggregate (sum_x\<lparr>agg_arg := AggField ''a.b''\<rparr>) :: unit Expr) []))
     (result_row [(''sum(a.b)'', VInt 5)]) None = Inr VNull"
  by (simp add: extract_aggregates_eq agg_alias_def sum_x_def int_env_def eval_field_def
      row_get_field_def result_row_def from_doc_def eval_field_access_def)

text \<open>LIMIT, OFFSET and DISTINCT of a grouped query are not planned.\<close>

lemma group_ignores_limit:
  "sa_group s = Some gs \<Longrightarrow> select_plan E dbg (s\<lparr>sa_limit := l, sa_offset := m, sa_distinct := d\<rparr>) = select_plan E dbg s"
  by (simp add: select_plan_def group_plan_def split: DataSource.splits Projection.splits)

end
