(* ===== verification/Optimizer.thy ===== *)
theory Optimizer
  imports Plans
begin

text \<open>
  The optimiser: \<open>query/optimize/index.rs\<close> (the index analysis of aggregate queries, and the
  full-text and vector expressions of a predicate) and \<open>query/optimize/optimizer.rs\<close> (from logical
  to physical plans).

  The grouping of range bounds iterates over a \<open>HashMap\<close>; its order is the argument \<open>ord\<close>, which
  gets the fields in order of appearance. Plans that never reach the optimiser (\<open>unreachable!\<close>) give
  \<open>None\<close>, as do the panics of the access paths. \<open>admits\<close> is what a tree of scans, unions and filters
  lets through.
\<close>

section \<open>Index analysis (index.rs)\<close>

datatype SkipReason = NoIndex | OrCondition | NotSupported

datatype 'q IndexChoice = UseIndex IndexRef IndexLookup "'q Expr option" | SkipIndex SkipReason

definition as_simple_condition :: "'q Expr \<Rightarrow> (string \<times> BinaryOp \<times> Value) option" where
  "as_simple_condition expr =
     (case expr of EBinaryOp (Field f) oper (Literal v) \<Rightarrow> Some (f, oper, v) | _ \<Rightarrow> None)"

text \<open>A comparison of an indexed field: the lookup of its operator.\<close>

definition simple_lookup :: "string \<Rightarrow> BinaryOp \<Rightarrow> Value \<Rightarrow> IndexLookup option" where
  "simple_lookup field oper v =
     (case oper of
        Eq \<Rightarrow> Some (LEq field v)
      | Gt \<Rightarrow> Some (LRange field RGt v)
      | Gte \<Rightarrow> Some (LRange field RGte v)
      | Lt \<Rightarrow> Some (LRange field RLt v)
      | Lte \<Rightarrow> Some (LRange field RLte v)
      | _ \<Rightarrow> None)"

definition analyze_simple :: "planner \<Rightarrow> string \<Rightarrow> string \<Rightarrow> BinaryOp \<Rightarrow> Value \<Rightarrow> 'q IndexChoice" where
  "analyze_simple ctx coll field oper v =
     (case pl_find_index_for_field ctx coll field of
        Some index_fields \<Rightarrow>
          (case simple_lookup field oper v of
             Some lookup \<Rightarrow> UseIndex \<lparr>ref_collection = coll, ref_fields = index_fields\<rparr> lookup None
           | None \<Rightarrow> SkipIndex NotSupported)
      | None \<Rightarrow> SkipIndex NoIndex)"

fun analyze_single_field :: "planner \<Rightarrow> string \<Rightarrow> 'q Expr \<Rightarrow> 'q IndexChoice" where
  "analyze_single_field ctx coll (EBinaryOp left oper right) =
     (case as_simple_condition (EBinaryOp left oper right) of
        Some (field, oper', v) \<Rightarrow> analyze_simple ctx coll field oper' v
      | None \<Rightarrow>
          if oper = And
          then case analyze_single_field ctx coll left of
                 UseIndex index_ref lookup remaining \<Rightarrow>
                   UseIndex index_ref lookup
                     (case remaining of Some rem \<Rightarrow> Some (EBinaryOp rem And right) | None \<Rightarrow> Some right)
               | SkipIndex _ \<Rightarrow>
                   (case analyze_single_field ctx coll right of
                      UseIndex index_ref lookup remaining \<Rightarrow>
                        UseIndex index_ref lookup
                          (case remaining of Some rem \<Rightarrow> Some (EBinaryOp left And rem) | None \<Rightarrow> Some left)
                    | SkipIndex reason \<Rightarrow> SkipIndex reason)
          else if oper = Or then SkipIndex OrCondition
          else SkipIndex NotSupported)"
| "analyze_single_field ctx coll _ = SkipIndex NotSupported"

fun collect_equality_conditions :: "'q Expr \<Rightarrow> (string \<times> Value) list" where
  "collect_equality_conditions (EBinaryOp left oper right) =
     (case as_simple_condition (EBinaryOp left oper right) of
        Some (field, Eq, v) \<Rightarrow> [(field, v)]
      | _ \<Rightarrow> if oper = And then collect_equality_conditions left @ collect_equality_conditions right else [])"
| "collect_equality_conditions _ = []"

text \<open>What is left of a conjunction of which some parts were taken out.\<close>

definition and_remaining :: "'q Expr option \<Rightarrow> 'q Expr option \<Rightarrow> 'q Expr option" where
  "and_remaining l r =
     (case (l, r) of
        (None, None) \<Rightarrow> None
      | (Some l, None) \<Rightarrow> Some l
      | (None, Some r) \<Rightarrow> Some r
      | (Some l, Some r) \<Rightarrow> Some (EBinaryOp l And r))"

definition covered_by :: "string list \<Rightarrow> 'q Expr \<Rightarrow> bool" where
  "covered_by used_fields expr =
     (case as_simple_condition expr of Some (field, Eq, _) \<Rightarrow> field \<in> set used_fields | _ \<Rightarrow> False)"

fun compute_compound_remaining :: "string list \<Rightarrow> 'q Expr \<Rightarrow> 'q Expr option" where
  "compute_compound_remaining used_fields (EBinaryOp left oper right) =
     (if covered_by used_fields (EBinaryOp left oper right) then None
      else if oper = And
      then and_remaining (compute_compound_remaining used_fields left) (compute_compound_remaining used_fields right)
      else Some (EBinaryOp left oper right))"
| "compute_compound_remaining used_fields expr = Some expr"

record RangeBound =
  rb_field :: string
  rb_value :: Value
  rb_inclusive :: bool
  rb_is_lower :: bool

definition range_bound :: "string \<Rightarrow> BinaryOp \<Rightarrow> Value \<Rightarrow> RangeBound list" where
  "range_bound field oper v =
     (case oper of
        Gt \<Rightarrow> [\<lparr>rb_field = field, rb_value = v, rb_inclusive = False, rb_is_lower = True\<rparr>]
      | Gte \<Rightarrow> [\<lparr>rb_field = field, rb_value = v, rb_inclusive = True, rb_is_lower = True\<rparr>]
      | Lt \<Rightarrow> [\<lparr>rb_field = field, rb_value = v, rb_inclusive = False, rb_is_lower = False\<rparr>]
      | Lte \<Rightarrow> [\<lparr>rb_field = field, rb_value = v, rb_inclusive = True, rb_is_lower = False\<rparr>]
      | _ \<Rightarrow> [])"

fun collect_range_bounds :: "'q Expr \<Rightarrow> RangeBound list" where
  "collect_range_bounds (EBinaryOp left oper right) =
     (case as_simple_condition (EBinaryOp left oper right) of
        Some (field, oper', v) \<Rightarrow> range_bound field oper' v
      | None \<Rightarrow> if oper = And then collect_range_bounds left @ collect_range_bounds right else [])"
| "collect_range_bounds _ = []"

definition between_choice :: "planner \<Rightarrow> string \<Rightarrow> RangeBound list \<Rightarrow> string \<Rightarrow> 'q IndexChoice option" where
  "between_choice ctx coll bounds field =
     (let field_bounds = filter (\<lambda>b. rb_field b = field) bounds
      in case (find rb_is_lower field_bounds, find (\<lambda>b. \<not> rb_is_lower b) field_bounds) of
           (Some lower, Some upper) \<Rightarrow>
             (case pl_find_index_for_field ctx coll field of
                Some index_fields \<Rightarrow>
                  Some (UseIndex \<lparr>ref_collection = coll, ref_fields = index_fields\<rparr>
                    (LRangeBetween field (rb_value lower) (rb_inclusive lower) (rb_value upper) (rb_inclusive upper)) None)
              | None \<Rightarrow> None)
         | _ \<Rightarrow> None)"

definition try_range_between :: "planner \<Rightarrow> (string list \<Rightarrow> string list) \<Rightarrow> string \<Rightarrow> 'q Expr \<Rightarrow> 'q IndexChoice option" where
  "try_range_between ctx ord coll predicate =
     (let bounds = collect_range_bounds predicate
      in find_map (between_choice ctx coll bounds) (ord (remdups (map rb_field bounds))))"

definition compound_choice :: "planner \<Rightarrow> string \<Rightarrow> 'q Expr \<Rightarrow> (string \<times> Value) list \<Rightarrow> nat \<times> nat \<Rightarrow> 'q IndexChoice option" where
  "compound_choice ctx coll predicate conditions ij =
     (case ij of (i, j) \<Rightarrow>
        if i = j then None
        else case pl_find_compound_index ctx coll [fst (conditions ! i), fst (conditions ! j)] of
               None \<Rightarrow> None
             | Some index_fields \<Rightarrow>
                 Some (UseIndex \<lparr>ref_collection = coll, ref_fields = index_fields\<rparr>
                   (LCompoundEq (List.map_filter (\<lambda>idx_field. find (\<lambda>c. fst c = idx_field) conditions) index_fields))
                   (compute_compound_remaining index_fields predicate)))"

definition is_and :: "'q Expr \<Rightarrow> bool" where
  "is_and e = (case e of EBinaryOp _ And _ \<Rightarrow> True | _ \<Rightarrow> False)"

definition try_compound :: "planner \<Rightarrow> string \<Rightarrow> 'q Expr \<Rightarrow> 'q IndexChoice option" where
  "try_compound ctx coll predicate =
     (let conditions = collect_equality_conditions predicate; n = length conditions
      in if 2 \<le> n
         then find_map (compound_choice ctx coll predicate conditions) (List.product [0..<n] [0..<n])
         else None)"

definition analyze_for_index :: "planner \<Rightarrow> (string list \<Rightarrow> string list) \<Rightarrow> string \<Rightarrow> 'q Expr \<Rightarrow> 'q IndexChoice" where
  "analyze_for_index ctx ord coll predicate =
     (if is_and predicate
      then case try_range_between ctx ord coll predicate of
             Some choice \<Rightarrow> choice
           | None \<Rightarrow>
               (case try_compound ctx coll predicate of
                  Some choice \<Rightarrow> choice
                | None \<Rightarrow> analyze_single_field ctx coll predicate)
      else analyze_single_field ctx coll predicate)"

fun flatten_or :: "'q Expr \<Rightarrow> 'q Expr list" where
  "flatten_or (EBinaryOp left oper right) =
     (if oper = Or then flatten_or left @ flatten_or right else [EBinaryOp left oper right])"
| "flatten_or e = [e]"

definition is_or :: "'q Expr \<Rightarrow> bool" where
  "is_or e = (case e of EBinaryOp _ Or _ \<Rightarrow> True | _ \<Rightarrow> False)"

fun union_branches :: "planner \<Rightarrow> (string list \<Rightarrow> string list) \<Rightarrow> string \<Rightarrow> 'q Expr list \<Rightarrow> (IndexRef \<times> IndexLookup) list option" where
  "union_branches ctx ord coll [] = Some []"
| "union_branches ctx ord coll (branch # bs) =
     (case analyze_for_index ctx ord coll branch of
        UseIndex index_ref lookup _ \<Rightarrow> map_option (\<lambda>ls. (index_ref, lookup) # ls) (union_branches ctx ord coll bs)
      | SkipIndex _ \<Rightarrow> None)"

definition analyze_or_for_union ::
  "planner \<Rightarrow> (string list \<Rightarrow> string list) \<Rightarrow> string \<Rightarrow> 'q Expr \<Rightarrow> (IndexRef \<times> IndexLookup) list option" where
  "analyze_or_for_union ctx ord coll expr = (if is_or expr then union_branches ctx ord coll (flatten_or expr) else None)"

text \<open>Full-text and vector expressions of a conjunction, and what remains without them.\<close>

record FtsInfo =
  fts_target :: FtsTarget
  fts_operator :: FtsOperator
  fts_query :: string

record 'q KnnInfo =
  knn_field :: string
  knn_vector :: "'q Expr"
  knn_k :: nat
  knn_effort :: "nat option"

fun extract_fts_from_and :: "'q Expr \<Rightarrow> FtsInfo list \<times> 'q Expr option" where
  "extract_fts_from_and (EFts target oper query) =
     ([\<lparr>fts_target = target, fts_operator = oper, fts_query = query\<rparr>], None)"
| "extract_fts_from_and (EBinaryOp left oper right) =
     (if oper = And
      then case extract_fts_from_and left of (fl, l) \<Rightarrow>
           case extract_fts_from_and right of (fr, r) \<Rightarrow> (fl @ fr, and_remaining l r)
      else ([], Some (EBinaryOp left oper right)))"
| "extract_fts_from_and e = ([], Some e)"

fun extract_knn_from_and :: "'q Expr \<Rightarrow> 'q KnnInfo list \<times> 'q Expr option" where
  "extract_knn_from_and (KnnSearch field vector k effort) =
     ([\<lparr>knn_field = field, knn_vector = vector, knn_k = k, knn_effort = effort\<rparr>], None)"
| "extract_knn_from_and (EBinaryOp left oper right) =
     (if oper = And
      then case extract_knn_from_and left of (kl, l) \<Rightarrow>
           case extract_knn_from_and right of (kr, r) \<Rightarrow> (kl @ kr, and_remaining l r)
      else ([], Some (EBinaryOp left oper right)))"
| "extract_knn_from_and e = ([], Some e)"

definition analyze_for_fts :: "'q Expr \<Rightarrow> FtsInfo list \<times> 'q Expr option" where
  "analyze_for_fts predicate = extract_fts_from_and predicate"

definition analyze_for_knn :: "'q Expr \<Rightarrow> 'q KnnInfo list \<times> 'q Expr option" where
  "analyze_for_knn predicate = extract_knn_from_and predicate"

text \<open>\<open>compute_needs_dedup\<close> has the text of \<open>compute_union_needs_dedup\<close>.\<close>

definition compute_needs_dedup :: "(IndexRef \<times> IndexLookup) list \<Rightarrow> bool" where
  "compute_needs_dedup branches =
     (if length branches < 2 then False
      else let names = map (\<lambda>(_, lookup). lookup_field lookup) branches
           in if list_all (\<lambda>f. f = names ! 0) names then \<not> eq_values_distinct [] (map snd branches) else True)"

section \<open>Optimizer (optimizer.rs)\<close>

definition apply_distinct_value :: "'q PhysicalOp \<Rightarrow> bool \<Rightarrow> bool \<Rightarrow> 'q Expr option \<Rightarrow> 'q PhysicalOp" where
  "apply_distinct_value input dist value_mode value_expr =
     (if value_mode
      then case value_expr of
             Some expr \<Rightarrow> PValue expr dist input
           | None \<Rightarrow> if dist then PDistinct input else input
      else if dist then PDistinct input
      else input)"

definition sorted_input :: "'q PhysicalOp \<Rightarrow> 'q OrderItem list option \<Rightarrow> 'q PhysicalOp" where
  "sorted_input input order = (case order of Some items \<Rightarrow> PSort items input | None \<Rightarrow> input)"

definition apply_projection_and_order ::
  "'q PhysicalOp \<Rightarrow> 'q Projection \<Rightarrow> 'q OrderItem list option \<Rightarrow> bool \<Rightarrow> bool \<Rightarrow> 'q Expr option \<Rightarrow> 'q PhysicalOp" where
  "apply_projection_and_order input projection order dist value_mode value_expr =
     (if value_mode then apply_distinct_value (sorted_input input order) dist value_mode value_expr
      else apply_distinct_value (PProject projection (sorted_input input order)) dist False None)"

definition apply_offset_limit :: "'q PhysicalOp \<Rightarrow> nat option \<Rightarrow> nat option \<Rightarrow> 'q PhysicalOp" where
  "apply_offset_limit input offset limit =
     (let result = (case offset of Some off \<Rightarrow> POffset off input | None \<Rightarrow> input)
      in case limit of Some n \<Rightarrow> PLimit n result | None \<Rightarrow> result)"

definition with_filter :: "'q Expr option \<Rightarrow> 'q PhysicalOp \<Rightarrow> 'q PhysicalOp" where
  "with_filter filt input = (case filt of Some pred \<Rightarrow> PFilter pred input | None \<Rightarrow> input)"

definition method_op :: "string \<Rightarrow> AccessMethod \<Rightarrow> 'q PhysicalOp" where
  "method_op coll meth =
     (case meth of
        MTableScan \<Rightarrow> PTableScan coll None
      | MIndexScan index lookup \<Rightarrow> PIndexScan coll index lookup
      | MUnion branches needs_dedup \<Rightarrow> PUnion (map (\<lambda>(index, lookup). PIndexScan coll index lookup) branches) needs_dedup)"

definition optimize_predicate :: "planner \<Rightarrow> string \<Rightarrow> 'q Expr \<Rightarrow> ('q PhysicalOp \<times> 'q Expr option) option" where
  "optimize_predicate ctx coll predicate =
     Option.bind (generate_access_paths ctx coll (classify_all ctx coll (extract_conjuncts predicate))) (\<lambda>paths.
       map_option (\<lambda>best. (method_op coll (ap_method best), ap_remaining_filter best)) (select_best paths))"

text \<open>The access of a scan with a predicate.\<close>

definition filtered_access :: "planner \<Rightarrow> string \<Rightarrow> 'q Expr \<Rightarrow> nat option \<Rightarrow> 'q PhysicalOp option" where
  "filtered_access ctx coll predicate limit =
     (case analyze_for_knn predicate of (knn_exprs, knn_remaining) \<Rightarrow>
      case analyze_for_fts predicate of (fts_exprs, fts_remaining) \<Rightarrow>
        if knn_exprs \<noteq> []
        then let info = knn_exprs ! 0
             in Some (with_filter knn_remaining
                  (PKnnScan coll (knn_field info) (knn_vector info) (knn_k info) (knn_effort info)))
        else if fts_exprs \<noteq> []
        then let info = fts_exprs ! 0
             in Some (with_filter fts_remaining
                  (PFtsScan coll (fts_target info) (fts_operator info) (fts_query info) limit))
        else map_option (\<lambda>(base_op, remaining). with_filter remaining base_op) (optimize_predicate ctx coll predicate))"

text \<open>The input of an aggregate: this code occurs for both kinds of aggregates.\<close>

definition aggregate_input_plan :: "planner \<Rightarrow> (string list \<Rightarrow> string list) \<Rightarrow> string \<Rightarrow> 'q Expr option \<Rightarrow> 'q PhysicalOp" where
  "aggregate_input_plan ctx ord coll filt =
     (case filt of
        Some predicate \<Rightarrow>
          (case analyze_or_for_union ctx ord coll predicate of
             Some branches \<Rightarrow>
               PUnion (map (\<lambda>(index_ref, lookup). PIndexScan coll index_ref lookup) branches) (compute_needs_dedup branches)
           | None \<Rightarrow>
               (case analyze_for_index ctx ord coll predicate of
                  UseIndex index_ref lookup remaining \<Rightarrow> with_filter remaining (PIndexScan coll index_ref lookup)
                | SkipIndex _ \<Rightarrow> PFilter predicate (PTableScan coll None)))
      | None \<Rightarrow> PTableScan coll None)"

text \<open>The input of UPDATE and DELETE.\<close>

definition dml_input :: "string \<Rightarrow> string option \<Rightarrow> 'q Expr option \<Rightarrow> 'q PhysicalOp" where
  "dml_input coll k filt =
     (case k of Some k \<Rightarrow> PKeyLookup coll k | None \<Rightarrow> with_filter filt (PTableScan coll None))"

definition with_projection :: "'q Projection option \<Rightarrow> 'q PhysicalOp \<Rightarrow> 'q PhysicalOp" where
  "with_projection proj input = (case proj of Some p \<Rightarrow> PProject p input | None \<Rightarrow> input)"

definition optimize :: "planner \<Rightarrow> (string list \<Rightarrow> string list) \<Rightarrow> 'q LogicalPlan \<Rightarrow> 'q PhysicalOp option" where
  "optimize ctx ord plan =
     (case plan of
        LScan coll (Some k) filt projection order limit offset dist value_mode value_expr _ \<Rightarrow>
          Some (apply_offset_limit
            (apply_projection_and_order (with_filter filt (PKeyLookup coll k)) projection order dist value_mode value_expr)
            offset limit)
      | LScan coll None (Some predicate) projection order limit offset dist value_mode value_expr _ \<Rightarrow>
          map_option (\<lambda>access.
            apply_offset_limit (apply_projection_and_order access projection order dist value_mode value_expr) offset limit)
            (filtered_access ctx coll predicate limit)
      | LScan coll None None projection order limit offset dist value_mode value_expr _ \<Rightarrow>
          let can_push_limit = order = None \<and> \<not> dist \<and> \<not> value_mode \<and> offset = None
          in Some (apply_offset_limit
               (apply_projection_and_order (PTableScan coll (if can_push_limit then limit else None))
                  projection order dist value_mode value_expr) offset limit)
      | LAggregate coll filt aggregates post_projection \<Rightarrow>
          Some (with_projection post_projection (PAggregate aggregates (aggregate_input_plan ctx ord coll filt)))
      | LGroupAggregate coll filt group_fields aggregates post_projection order \<Rightarrow>
          Some (sorted_input (with_projection post_projection
            (PGroupAggregate group_fields aggregates (aggregate_input_plan ctx ord coll filt))) order)
      | LInMemoryScan rows filt projection order limit offset _ dist value_mode value_expr _ \<Rightarrow>
          let result = with_filter filt (PInMemoryScan rows);
              result = (if value_mode then apply_distinct_value result dist value_mode value_expr
                        else apply_distinct_value (PProject projection result) dist False None)
          in Some (apply_offset_limit (sorted_input result order) offset limit)
      | LInsert coll documents \<Rightarrow> Some (PInsert coll documents)
      | LCreate coll k assignments \<Rightarrow> Some (PCreate coll k assignments)
      | LUpdate coll k filt assignments \<Rightarrow> Some (PUpdate coll assignments (dml_input coll k filt))
      | LDelete coll k filt \<Rightarrow> Some (PDelete coll (dml_input coll k filt))
      | LUpsert coll k assignments repl \<Rightarrow> Some (PUpsert coll k assignments repl)
      | LDeleteEdge src label dst \<Rightarrow> Some (PDeleteEdge src label dst)
      | _ \<Rightarrow> None)"

section \<open>What a plan lets through\<close>

fun admits :: "'d env \<Rightarrow> Row \<Rightarrow> 'q PhysicalOp \<Rightarrow> bool eval_result" where
  "admits E row (PTableScan _ None) = Inr True"
| "admits E row (PIndexScan _ _ lookup) = Inr (lookup_holds E row lookup)"
| "admits E row (PUnion inputs _) = and_then (collect_results (admits E row) inputs) (\<lambda>bs. Inr (True \<in> set bs))"
| "admits E row (PFilter predicate input) =
     and_then (admits E row input) (\<lambda>b. if b then eval_filter E predicate row else Inr False)"
| "admits E row _ = Inl (EInternal ''not an access'')"

lemma admits_union:
  "admits E row (PUnion (map (\<lambda>(index, lookup). PIndexScan coll index lookup) branches) d :: 'q PhysicalOp) =
     Inr (list_ex (\<lambda>(_, lookup). lookup_holds E row lookup) branches)"
proof -
  have "collect_results (admits E row) (map (\<lambda>(index, lookup). PIndexScan coll index lookup) branches :: 'q PhysicalOp list) =
      Inr (map (\<lambda>(_, lookup). lookup_holds E row lookup) branches)"
    by (induction branches) auto
  then show ?thesis by (auto simp: list_ex_iff image_iff)
qed

text \<open>A method with its remaining filter as a plan.\<close>

lemma admits_selects:
  assumes "selects_as E row meth remaining b"
  shows "admits E row (with_filter remaining (method_op coll meth)) = Inr b"
proof -
  have "admits E row (method_op coll meth) = Inr (method_selects E row meth)"
    by (cases meth) (simp_all add: method_op_def admits_union del: admits.simps(3))
  then show ?thesis using assms
    by (cases "method_selects E row meth") (auto simp: selects_as_def with_filter_def split: option.splits sum.splits)
qed

lemma min_by_score_mem: "min_by_score p ps \<in> set (p # ps)"
  by (induction ps arbitrary: p) auto

lemma no_search_expressions:
  assumes "evaluates E row e v"
  shows "extract_knn_from_and e = ([], Some e)" "extract_fts_from_and e = ([], Some e)"
proof -
  have "extract_knn_from_and e = ([], Some e) \<and> extract_fts_from_and e = ([], Some e)"
    using assms
  proof (induction e arbitrary: v rule: extract_knn_from_and.induct)
    case (2 left oper right)
    show ?case
    proof (cases "oper = And")
      case True
      then obtain p q where "evaluates E row left (of_truth p)" "evaluates E row right (of_truth q)"
        using 2(3) and_evaluates by blast
      then show ?thesis using 2(1,2) True by (auto simp: and_remaining_def)
    qed simp
  qed simp_all
  then show "extract_knn_from_and e = ([], Some e)" "extract_fts_from_and e = ([], Some e)" by simp_all
qed

lemma filtered_access_exact:
  assumes "eval_filter E predicate row = Inr b"
  shows "\<exists>access. filtered_access ctx coll predicate limit = Some access \<and> admits E row access = Inr b"
proof -
  obtain v where v: "evaluates E row predicate v" using assms eval_filter_iff by blast
  obtain p ps where ps: "generate_access_paths ctx coll (classify_all ctx coll (extract_conjuncts predicate)) = Some (p # ps)"
    "\<forall>q\<in>set (p # ps). selects_as E row (ap_method q) (ap_remaining_filter q) b"
    using generated_paths_select [OF assms] by blast
  define best where "best = min_by_score p ps"
  have "selects_as E row (ap_method best) (ap_remaining_filter best) b"
    using ps(2) min_by_score_mem [of p ps] unfolding best_def by blast
  moreover have "filtered_access ctx coll predicate limit = Some (with_filter (ap_remaining_filter best) (method_op coll (ap_method best)))"
    by (simp add: filtered_access_def analyze_for_knn_def analyze_for_fts_def no_search_expressions [OF v]
        optimize_predicate_def ps(1) select_best_def best_def)
  ultimately show ?thesis using admits_selects by blast
qed


section \<open>The access of aggregate queries\<close>

definition rest_holds :: "'d env \<Rightarrow> Row \<Rightarrow> 'q Expr option \<Rightarrow> bool" where
  "rest_holds E row remaining = (case remaining of None \<Rightarrow> True | Some e \<Rightarrow> passes E row e)"

text \<open>A value of a predicate is decided by what was taken out, \<open>chosen\<close>, and what remains.\<close>

definition leaves :: "'d env \<Rightarrow> Row \<Rightarrow> Value \<Rightarrow> bool \<Rightarrow> 'q Expr option \<Rightarrow> bool" where
  "leaves E row v chosen remaining \<longleftrightarrow>
     (is_truthy (env_libs E) v \<longleftrightarrow> chosen \<and> rest_holds E row remaining) \<and>
     (\<forall>e. remaining = Some e \<longrightarrow> (\<exists>w. evaluates E row e w \<and> (is_truth v \<longrightarrow> is_truth w)))"

lemma leaves_whole: "evaluates E row e v \<Longrightarrow> leaves E row v True (Some e)"
  by (auto simp: leaves_def rest_holds_def passes_value)

lemma leaves_truth:
  assumes "leaves E row (of_truth p) chosen (Some e)"
  obtains q where "evaluates E row e (of_truth q)"
  using assms is_truthE unfolding leaves_def by (metis of_truth_simps(2))

lemma leaves_and:
  assumes "leaves E row (of_truth p) c1 rem1" "leaves E row (of_truth q) c2 rem2"
  shows "leaves E row (of_truth (and3 p q)) (c1 \<and> c2) (and_remaining rem1 rem2)"
proof (cases rem1)
  case None
  then show ?thesis using assms by (cases rem2) (auto simp: leaves_def and_remaining_def rest_holds_def)
next
  case (Some e1)
  obtain q1 where q1: "evaluates E row e1 (of_truth q1)" using leaves_truth assms(1) Some by blast
  show ?thesis
  proof (cases rem2)
    case None
    then show ?thesis using assms Some by (auto simp: leaves_def and_remaining_def rest_holds_def)
  next
    case (Some e2)
    obtain q2 where q2: "evaluates E row e2 (of_truth q2)" using leaves_truth assms(2) Some by blast
    have "evaluates E row (EBinaryOp e1 And e2) (of_truth (and3 q1 q2))" using q1 q2 by (simp add: eval_expr.simps(3) eval_binary_def)
    moreover have "and_remaining rem1 rem2 = Some (EBinaryOp e1 And e2)" using Some \<open>rem1 = Some e1\<close> by (simp add: and_remaining_def)
    moreover have "passes E row (EBinaryOp e1 And e2) \<longleftrightarrow> passes E row e1 \<and> passes E row e2"
      using passes_value [OF calculation(1)] passes_value [OF q1] passes_value [OF q2] by simp
    ultimately show ?thesis using assms Some \<open>rem1 = Some e1\<close> by (auto simp: leaves_def rest_holds_def)
  qed
qed

lemma admits_leaves:
  assumes "leaves E row v (lookup_holds E row l) remaining"
  shows "admits E row (with_filter remaining (PIndexScan coll r l)) = Inr (is_truthy (env_libs E) v)"
  using assms by (auto simp: leaves_def rest_holds_def with_filter_def passes_value eval_filter_iff split: option.splits)

lemma as_simple_condition_Some: "as_simple_condition e = Some (f, oper, v) \<longleftrightarrow> e = EBinaryOp (Field f) oper (Literal v)"
  by (auto simp: as_simple_condition_def split: Expr.splits)

lemma simple_lookup_holds:
  assumes "simple_lookup f oper v = Some l"
  shows "lookup_holds E row l \<longleftrightarrow> passes E row (EBinaryOp (Field f) oper (Literal v))"
  using assms by (cases oper) (auto simp: simple_lookup_def comparison_passes range_binop_def)

lemma analyze_single_field_leaves:
  assumes "evaluates E row e v" "analyze_single_field ctx coll e = UseIndex r l remaining"
  shows "leaves E row v (lookup_holds E row l) remaining"
  using assms
proof (induction e arbitrary: v r l remaining rule: analyze_single_field.induct)
  case (1 ctx coll left oper right)
  show ?case
  proof (cases "as_simple_condition (EBinaryOp left oper right)")
    case (Some c)
    then obtain f oper' w where c: "as_simple_condition (EBinaryOp left oper right) = Some (f, oper', w)" by (cases c) auto
    then have e: "EBinaryOp left oper right = EBinaryOp (Field f) oper' (Literal w)" by (simp only: as_simple_condition_Some)
    have "analyze_simple ctx coll f oper' w = UseIndex r l remaining" using 1(4) c by simp
    then have l: "simple_lookup f oper' w = Some l" "remaining = None" by (auto simp: analyze_simple_def split: option.splits)
    show ?thesis using simple_lookup_holds [OF l(1), of E row, where ?'b = 'b] passes_value [OF 1(3)] e l(2)
      by (simp add: leaves_def rest_holds_def)
  next
    case None
    then have oper: "oper = And" using 1(4) by (auto split: if_splits)
    obtain p q where pq: "evaluates E row left (of_truth p)" "evaluates E row right (of_truth q)" "v = of_truth (and3 p q)"
      using 1(3) oper and_evaluates by blast
    show ?thesis
    proof (cases "analyze_single_field ctx coll left")
      case (UseIndex r' l' rem')
      then have eq: "l' = l" "remaining = and_remaining rem' (Some right)"
        using 1(4) None oper by (auto simp: and_remaining_def split: option.splits)
      have "leaves E row (of_truth p) (lookup_holds E row l') rem'" by (rule 1(1) [OF None oper pq(1) UseIndex])
      then show ?thesis using leaves_and [OF _ leaves_whole [OF pq(2)]] unfolding pq(3) eq by fastforce
    next
      case (SkipIndex reason)
      then obtain r' rem' where right: "analyze_single_field ctx coll right = UseIndex r' l rem'" "remaining = and_remaining (Some left) rem'"
        using 1(4) None oper by (auto simp: and_remaining_def split: option.splits IndexChoice.splits)
      have "leaves E row (of_truth q) (lookup_holds E row l) rem'" by (rule 1(2) [OF None oper SkipIndex pq(2) right(1)])
      then show ?thesis using leaves_and [OF leaves_whole [OF pq(1)]] unfolding pq(3) right(2) by fastforce
    qed
  qed
qed simp_all

lemma compound_remaining_leaves:
  assumes "evaluates E row e v"
  shows "leaves E row v (\<forall>(f, w)\<in>set (collect_equality_conditions e). f \<in> set used \<longrightarrow> field_holds E row f Eq w)
    (compute_compound_remaining used e)"
  using assms
proof (induction used e arbitrary: v rule: compute_compound_remaining.induct)
  case (1 used left oper right)
  show ?case
  proof (cases "\<exists>f w. left = Field f \<and> oper = Eq \<and> right = Literal w")
    case True
    then obtain f w where e: "left = Field f" "oper = Eq" "right = Literal w" by blast
    then have "field_holds E row f Eq w \<longleftrightarrow> is_truthy (env_libs E) v"
      using comparison_passes [of Eq E row f w] passes_value [OF 1(3)] by auto
    then show ?thesis using e 1(3) leaves_whole [OF 1(3)]
      by (auto simp: as_simple_condition_def covered_by_def leaves_def rest_holds_def)
  next
    case False
    then have nc: "\<not> covered_by used (EBinaryOp left oper right)"
      by (auto simp: covered_by_def as_simple_condition_Some split: option.splits BinaryOp.splits)
    have ce: "collect_equality_conditions (EBinaryOp left oper right) =
        (if oper = And then collect_equality_conditions left @ collect_equality_conditions right else [])"
      using False by (auto simp: as_simple_condition_def split: Expr.splits BinaryOp.splits)
    show ?thesis
    proof (cases "oper = And")
      case True
      obtain p q where pq: "evaluates E row left (of_truth p)" "evaluates E row right (of_truth q)" "v = of_truth (and3 p q)"
        using 1(3) True and_evaluates by blast
      show ?thesis using leaves_and [OF 1(1) [OF nc True pq(1)] 1(2) [OF nc True pq(2)]] nc ce True pq(3) by (simp add: ball_Un)
    next
      case False
      then show ?thesis using leaves_whole [OF 1(3)] nc ce by simp
    qed
  qed
qed (simp_all add: leaves_whole)

lemma compound_values:
  assumes "distinct (map fst conds)"
  shows "set (List.map_filter (\<lambda>i. find (\<lambda>c. fst c = i) conds) used) = {c \<in> set conds. fst c \<in> set used}"
proof (intro set_eqI iffI)
  fix c assume "c \<in> set (List.map_filter (\<lambda>i. find (\<lambda>c. fst c = i) conds) used)"
  then obtain i where "i \<in> set used" "find (\<lambda>c. fst c = i) conds = Some c" by (auto simp: set_map_filter)
  then show "c \<in> {c \<in> set conds. fst c \<in> set used}" using find_Some_mem [of "\<lambda>c. fst c = i" conds c] by auto
next
  fix c assume c: "c \<in> {c \<in> set conds. fst c \<in> set used}"
  have "find (\<lambda>d. fst d = fst c) conds \<noteq> None" unfolding find_None_iff using c by blast
  then obtain d where d: "find (\<lambda>d. fst d = fst c) conds = Some d" by blast
  then have "d \<in> set conds" "fst d = fst c" using find_Some_mem [OF d] by auto
  then have "d = c" using assms c by (auto simp: distinct_map inj_on_def)
  then show "c \<in> set (List.map_filter (\<lambda>i. find (\<lambda>c. fst c = i) conds) used)" using c d by (auto simp: set_map_filter)
qed

lemma try_compound_leaves:
  assumes "evaluates E row e v" "try_compound ctx coll e = Some (UseIndex r l remaining)"
    and "distinct (map fst (collect_equality_conditions e))"
  shows "leaves E row v (lookup_holds E row l) remaining"
proof -
  define conds where "conds = collect_equality_conditions e"
  obtain ij where "compound_choice ctx coll e conds ij = Some (UseIndex r l remaining)"
    using assms(2) by (auto simp: try_compound_def Let_def conds_def dest!: find_map_Some split: if_splits)
  then obtain used where l: "l = LCompoundEq (List.map_filter (\<lambda>i. find (\<lambda>c. fst c = i) conds) used)"
    "remaining = compute_compound_remaining used e"
    by (auto simp: compound_choice_def split: prod.splits if_splits option.splits)
  have "lookup_holds E row l \<longleftrightarrow> (\<forall>(f, w)\<in>set conds. f \<in> set used \<longrightarrow> field_holds E row f Eq w)"
    unfolding l(1) lookup_holds.simps list_all_iff using compound_values [of conds used] assms(3) conds_def by auto
  then show ?thesis using compound_remaining_leaves [OF assms(1), of used] unfolding conds_def l(2) by simp
qed

lemma analyze_for_index_leaves:
  assumes "evaluates E row e v" "analyze_for_index ctx ord coll e = UseIndex r l remaining"
    and "try_range_between ctx ord coll e = (None :: 'q IndexChoice option)" "distinct (map fst (collect_equality_conditions e))"
  shows "leaves E row v (lookup_holds E row l) (remaining :: 'q Expr option)"
proof (cases "analyze_single_field ctx coll e = UseIndex r l remaining")
  case True
  then show ?thesis using analyze_single_field_leaves [OF assms(1)] by blast
next
  case False
  then have "try_compound ctx coll e = Some (UseIndex r l remaining)"
    using assms(2,3) by (auto simp: analyze_for_index_def split: if_splits option.splits)
  then show ?thesis using try_compound_leaves [OF assms(1) _ assms(4)] by blast
qed

lemma flatten_or_disjuncts: "map reconstruct_or_one (extract_disjuncts e) = flatten_or e"
  by (induction e rule: extract_disjuncts.induct) auto

lemma flatten_or_passes:
  assumes "evaluates E row e v" "is_or e"
  shows "passes E row e \<longleftrightarrow> (\<exists>d\<in>set (flatten_or e). passes E row d)"
proof -
  obtain l r where "e = EBinaryOp l Or r" using assms(2) by (auto simp: is_or_def split: Expr.splits BinaryOp.splits)
  then obtain p where "evaluates E row e (of_truth p)" using assms(1) or_evaluates by blast
  then show ?thesis by (simp add: disjuncts_pass flip: flatten_or_disjuncts)
qed

lemma no_bounds [simp]: "between_choice ctx coll [] field = None" "find_map (between_choice ctx coll []) xs = None"
proof -
  show *: "between_choice ctx coll [] field = None" for field by (simp add: between_choice_def)
  show "find_map (between_choice ctx coll []) xs = None" by (induction xs) (simp_all add: between_choice_def)
qed

lemma simple_branch:
  assumes "as_simple_condition e \<noteq> None" "analyze_for_index ctx ord coll e = UseIndex r l remaining"
  shows "lookup_holds E row l \<longleftrightarrow> passes E row e"
proof -
  obtain f oper v where e: "e = EBinaryOp (Field f) oper (Literal v)" using assms(1) as_simple_condition_Some by (metis not_None_eq prod_cases3)
  have ana: "analyze_single_field ctx coll e = analyze_simple ctx coll f oper v" by (simp add: e as_simple_condition_def)
  have "analyze_for_index ctx ord coll e = analyze_single_field ctx coll e"
    by (auto simp: analyze_for_index_def is_and_def e as_simple_condition_def try_range_between_def range_bound_def try_compound_def
        simp del: analyze_single_field.simps split: BinaryOp.splits)
  then have "simple_lookup f oper v = Some l" using assms(2) ana by (auto simp: analyze_simple_def split: option.splits)
  then show ?thesis using simple_lookup_holds e by blast
qed

lemma union_branches_simple:
  assumes "union_branches ctx ord coll es = Some branches" "\<forall>e\<in>set es. as_simple_condition e \<noteq> None"
  shows "list_ex (\<lambda>(_, l). lookup_holds E row l) branches \<longleftrightarrow> (\<exists>e\<in>set es. passes E row e)"
  using assms
proof (induction es arbitrary: branches)
  case (Cons e es)
  then obtain r l rem ls where "analyze_for_index ctx ord coll e = UseIndex r l rem" "union_branches ctx ord coll es = Some ls"
    "branches = (r, l) # ls" by (auto split: IndexChoice.splits)
  then show ?case using Cons simple_branch [of e ctx ord coll r l rem E row] by simp
qed simp

text \<open>The input of an aggregate reads exactly the rows of the predicate when the predicate is a
  disjunction of simple comparisons or no disjunction at all, no indexed field has both a lower and
  an upper bound in it, and no field is compared for equality twice.\<close>

theorem aggregate_access_exact:
  assumes "eval_filter E predicate row = Inr b"
    and "is_or predicate \<longrightarrow> (\<forall>e\<in>set (flatten_or predicate). as_simple_condition e \<noteq> None)"
    and "try_range_between ctx ord coll predicate = (None :: 'q IndexChoice option)"
    and "distinct (map fst (collect_equality_conditions predicate))"
  shows "admits E row (aggregate_input_plan ctx ord coll (Some predicate) :: 'q PhysicalOp) = Inr b"
proof -
  obtain v where v: "evaluates E row predicate v" "is_truthy (env_libs E) v = b" using assms(1) eval_filter_iff by blast
  show ?thesis
  proof (cases "analyze_or_for_union ctx ord coll predicate")
    case (Some branches)
    then have "is_or predicate" "union_branches ctx ord coll (flatten_or predicate) = Some branches"
      by (auto simp: analyze_or_for_union_def split: if_splits)
    then have "list_ex (\<lambda>(_, l). lookup_holds E row l) branches \<longleftrightarrow> b"
      using union_branches_simple assms(2) flatten_or_passes [OF v(1)] passes_value [OF v(1)] v(2) by blast
    then show ?thesis using Some by (simp add: aggregate_input_plan_def admits_union del: admits.simps(3))
  next
    case None
    show ?thesis
    proof (cases "analyze_for_index ctx ord coll predicate")
      case (UseIndex r l remaining)
      then show ?thesis using admits_leaves [OF analyze_for_index_leaves [OF v(1) _ assms(3,4)]] None v(2)
        by (simp add: aggregate_input_plan_def)
    next
      case (SkipIndex reason)
      then show ?thesis using None assms(1) by (simp add: aggregate_input_plan_def)
    qed
  qed
qed

section \<open>Witnesses, and predicates that are not kept\<close>

text \<open>A context with an index on each of the fields \<open>a\<close>, \<open>c\<close> and a compound index on \<open>a\<close>, \<open>b\<close>.\<close>

definition sample_planner :: planner where
  "sample_planner = \<lparr>pl_find_index_for_field = (\<lambda>_ f. if f \<in> {''a'', ''c''} then Some [f] else None),
     pl_find_compound_index = (\<lambda>_ fs. if fs = [''a'', ''b''] then Some [''a'', ''b''] else None)\<rparr>"

definition sample_row :: "int \<Rightarrow> int \<Rightarrow> Row" where
  "sample_row a b = from_doc \<lparr>doc_id = ''u:1'', doc_fields = [(''a'', VInt (word_of_int a)), (''b'', VInt (word_of_int b))]\<rparr>"

abbreviation sample_cmp :: "string \<Rightarrow> BinaryOp \<Rightarrow> i64 \<Rightarrow> unit Expr" where
  "sample_cmp f oper n \<equiv> EBinaryOp (Field f) oper (Literal (VInt n))"

lemma sample_row_fields [simp]:
  "eval_field int_env (sample_row a b) ''a'' = Inr (VInt (word_of_int a))"
  "eval_field int_env (sample_row a b) ''b'' = Inr (VInt (word_of_int b))"
  "eval_field int_env (sample_row a b) ''c'' = Inr VNull"
  by (simp_all add: eval_field_def sample_row_def from_doc_def row_get_field_def)

lemmas sample_eval = eval_filter_def eval_filter_with_vars_def eval_expr.simps(3) eval_binary_def eval_and_def eval_or_def
  values_equal_def values_compare_def is_numeric_def as_decimal_def is_truthy_def field_holds_def


lemmas sample_plan = aggregate_input_plan_def analyze_or_for_union_def analyze_for_index_def is_or_def is_and_def
  try_range_between_def between_choice_def as_simple_condition_def range_bound_def sample_planner_def with_filter_def
  try_compound_def compound_choice_def covered_by_def and_remaining_def analyze_simple_def simple_lookup_def range_binop_def
  List.map_filter_simps

theorem aggregate_access_exact_witness:
  "admits int_env (sample_row 1 2) (aggregate_input_plan sample_planner id ''u''
     (Some (EBinaryOp (sample_cmp ''a'' Eq 1) And (sample_cmp ''b'' Eq 2)))) = Inr True"
proof -
  have "eval_filter int_env (EBinaryOp (sample_cmp ''a'' Eq 1) And (sample_cmp ''b'' Eq 2)) (sample_row 1 2) = Inr True"
    by (simp add: sample_eval)
  then show ?thesis by (rule aggregate_access_exact) (simp_all add: sample_plan)
qed

text \<open>The other conditions of a conjunction with a range are dropped.\<close>

lemma between_drops_conditions:
  fixes predicate :: "unit Expr"
  defines "predicate \<equiv> EBinaryOp (EBinaryOp (sample_cmp ''a'' Gte 1) And (sample_cmp ''a'' Lte 5)) And (sample_cmp ''b'' Eq 2)"
  shows "eval_filter int_env predicate (sample_row 3 9) = Inr False \<and>
    admits int_env (sample_row 3 9) (aggregate_input_plan sample_planner id ''u'' (Some predicate)) = Inr True"
  by (simp add: predicate_def sample_eval sample_plan)

text \<open>What remains of a branch of a disjunction is dropped.\<close>

lemma union_drops_conditions:
  fixes predicate :: "unit Expr"
  defines "predicate \<equiv> EBinaryOp (EBinaryOp (sample_cmp ''a'' Eq 1) And (sample_cmp ''b'' Gt 2)) Or (sample_cmp ''c'' Eq 3)"
  shows "eval_filter int_env predicate (sample_row 1 2) = Inr False \<and>
    admits int_env (sample_row 1 2) (aggregate_input_plan sample_planner id ''u'' (Some predicate)) = Inr True"
  by (simp add: predicate_def sample_eval sample_plan)

text \<open>A second equality on a field of a compound index is dropped.\<close>

lemma compound_drops_equality:
  fixes predicate :: "unit Expr"
  defines "predicate \<equiv> EBinaryOp (EBinaryOp (sample_cmp ''a'' Eq 1) And (sample_cmp ''a'' Eq 2)) And (sample_cmp ''b'' Eq 3)"
  shows "eval_filter int_env predicate (sample_row 1 3) = Inr False \<and>
    admits int_env (sample_row 1 3) (aggregate_input_plan sample_planner id ''u'' (Some predicate)) = Inr True"
  by (simp add: predicate_def sample_eval sample_plan)

text \<open>Two equal numbers of different types are taken for distinct values: the union of the two scans
  has a document twice, and is not deduplicated.\<close>

lemma equal_values_not_deduplicated:
  "\<not> compute_union_needs_dedup [(r, LEq ''x'' (VInt 1)), (s, LEq ''x'' (VFloat f))]"
  by (simp add: compute_union_needs_dedup_def lookup_field_def)

text \<open>The limit of a full-text query is below its remaining filter.\<close>

lemma fts_limit_below_filter:
  assumes "extract_fts_from_and predicate = (info # infos, Some rem)" "extract_knn_from_and predicate = ([], k)"
  shows "filtered_access ctx coll predicate (Some n) =
    Some (PFilter rem (PFtsScan coll (fts_target info) (fts_operator info) (fts_query info) (Some n)))"
  using assms by (simp add: filtered_access_def analyze_for_fts_def analyze_for_knn_def with_filter_def)

text \<open>A query over rows in memory sorts after the projection, where the other fields are gone.\<close>

lemma in_memory_sorts_projected_rows:
  "optimize ctx ord (LInMemoryScan rows None projection (Some items) None None so False False None fetch) =
     Some (PSort items (PProject projection (PInMemoryScan rows)))"
  by (simp add: optimize_def with_filter_def apply_distinct_value_def sorted_input_def apply_offset_limit_def)

end
