(* ===== verification/Engine.thy ===== *)
theory Engine
  imports Keyspace
begin

text \<open>
  Storage operations with an effect: a disk of named keyspaces, failing operations as functions
  from a state to a state and a result, and write transactions.

  \<open>disk\<close> maps the name of a keyspace to its state; a handle is the name. \<open>'ks engine\<close> adds to the
  operations of a keyspace (theory \<open>Keyspace\<close>) the opening of a keyspace, which may fail, and the
  effect of a committed write. A write transaction is the list of its writes. Beginning and
  committing one is up to the engine: \<open>tx_env\<close> holds its answers for one call, and every theorem
  is about all of them. Serialisation (the crates \<open>rkyv\<close> and \<open>serde_json\<close>) is a \<open>codec\<close>.
  The locale \<open>engine\<close> states what the engine documents; the in-memory engine satisfies it.
\<close>

section \<open>Operations that may fail\<close>

type_synonym ('s, 'a) op = "'s \<Rightarrow> 's \<times> (StorageError + 'a)"

definition ok :: "'a \<Rightarrow> ('s, 'a) op" where
  "ok a s = (s, Inr a)"

definition fail :: "StorageError \<Rightarrow> ('s, 'a) op" where
  "fail e s = (s, Inl e)"

definition try_do :: "('s, 'a) op \<Rightarrow> ('a \<Rightarrow> ('s, 'b) op) \<Rightarrow> ('s, 'b) op" where
  "try_do m f s = (case m s of (s', Inl e) \<Rightarrow> (s', Inl e) | (s', Inr a) \<Rightarrow> f a s')"

definition lift_result :: "StorageError + 'a \<Rightarrow> ('s, 'a) op" where
  "lift_result r s = (s, r)"

definition with_state :: "('s \<Rightarrow> ('s, 'a) op) \<Rightarrow> ('s, 'a) op" where
  "with_state f s = f s s"

text \<open>A loop whose body may fail.\<close>

fun for_each :: "'a list \<Rightarrow> ('a \<Rightarrow> ('s, unit) op) \<Rightarrow> ('s, unit) op" where
  "for_each [] f = ok ()"
| "for_each (x # xs) f = try_do (f x) (\<lambda>_. for_each xs f)"

lemma op_simps [simp]:
  "ok a s = (s, Inr a)" "fail e s = (s, Inl e)" "lift_result r s = (s, r)" "with_state f s = f s s"
  by (simp_all add: ok_def fail_def lift_result_def with_state_def)

lemma try_do_Inr [simp]: "m s = (s', Inr a) \<Longrightarrow> try_do m f s = f a s'"
  by (simp add: try_do_def)

lemma try_do_Inl [simp]: "m s = (s', Inl e) \<Longrightarrow> try_do m f s = (s', Inl e)"
  by (simp add: try_do_def)

lemma try_do_Inr_iff:
  "try_do m f s = (s', Inr b) \<longleftrightarrow> (\<exists>s1 a. m s = (s1, Inr a) \<and> f a s1 = (s', Inr b))"
  by (auto simp: try_do_def split: prod.splits sum.splits)

lemma try_do_Inl_iff:
  "try_do m f s = (s', Inl e) \<longleftrightarrow> m s = (s', Inl e) \<or> (\<exists>s1 a. m s = (s1, Inr a) \<and> f a s1 = (s', Inl e))"
  by (auto simp: try_do_def split: prod.splits sum.splits)

section \<open>Serialisation\<close>

record 'a codec =
  enc :: "'a \<Rightarrow> StorageError + bytes"
  dec :: "bytes \<Rightarrow> StorageError + 'a"

definition codec_ok :: "'a codec \<Rightarrow> bool" where
  "codec_ok c \<longleftrightarrow> (\<forall>a b. enc c a = Inr b \<longrightarrow> dec c b = Inr a)"

section \<open>Disk\<close>

record 'ks engine =
  eng_ks :: "'ks fjall"
  eng_open :: "string \<Rightarrow> StorageError option"
  eng_write :: "bytes \<Rightarrow> bytes option \<Rightarrow> 'ks \<Rightarrow> 'ks"
  eng_clear :: "'ks \<Rightarrow> StorageError + 'ks"

record 'ks store =
  disk :: "string \<Rightarrow> 'ks"

definition open_keyspace :: "'ks engine \<Rightarrow> string \<Rightarrow> ('s, unit) op" where
  "open_keyspace E nm = (case eng_open E nm of Some e \<Rightarrow> fail e | None \<Rightarrow> ok ())"

definition read_key :: "'ks engine \<Rightarrow> string \<Rightarrow> bytes \<Rightarrow> (('ks, 'z) store_scheme, bytes option) op" where
  "read_key E nm k s = (s, ks_get (eng_ks E) (disk s nm) k)"

definition insert_key :: "'ks engine \<Rightarrow> string \<Rightarrow> bytes \<Rightarrow> bytes \<Rightarrow> (('ks, 'z) store_scheme, unit) op" where
  "insert_key E nm k v s =
     (case ks_insert (eng_ks E) k v (disk s nm) of
        Inl e \<Rightarrow> (s, Inl e)
      | Inr ks \<Rightarrow> (s\<lparr>disk := (disk s)(nm := ks)\<rparr>, Inr ()))"

definition remove_key :: "'ks engine \<Rightarrow> string \<Rightarrow> bytes \<Rightarrow> (('ks, 'z) store_scheme, unit) op" where
  "remove_key E nm k s =
     (case ks_remove (eng_ks E) k (disk s nm) of
        Inl e \<Rightarrow> (s, Inl e)
      | Inr ks \<Rightarrow> (s\<lparr>disk := (disk s)(nm := ks)\<rparr>, Inr ()))"

definition range_keys :: "'ks engine \<Rightarrow> string \<Rightarrow> bytes option \<Rightarrow> bytes option \<Rightarrow> ('ks, 'z) store_scheme \<Rightarrow> ks_item list" where
  "range_keys E nm lo hi s = ks_range (eng_ks E) lo hi (disk s nm)"

text \<open>Clearing a keyspace, and deleting it: opened again it is empty.\<close>

definition clear_keyspace :: "'ks engine \<Rightarrow> string \<Rightarrow> (('ks, 'z) store_scheme, unit) op" where
  "clear_keyspace E nm s =
     (case eng_clear E (disk s nm) of
        Inl e \<Rightarrow> (s, Inl e)
      | Inr ks \<Rightarrow> (s\<lparr>disk := (disk s)(nm := ks)\<rparr>, Inr ()))"

section \<open>Write transactions\<close>

datatype commit_outcome = Committed | CommitConflict | CommitError StorageError

record tx_env =
  tx_begin :: "StorageError option"
  tx_outcome :: commit_outcome

text \<open>A write: keyspace, key, and the new entry or none for a removal.\<close>

type_synonym tx = "(string \<times> bytes \<times> bytes option) list"

definition tx_get :: "'ks engine \<Rightarrow> tx \<Rightarrow> string \<Rightarrow> bytes \<Rightarrow> ('ks, 'z) store_scheme \<Rightarrow> StorageError + bytes option" where
  "tx_get E tx nm k s =
     (case List.find (\<lambda>w. fst w = nm \<and> fst (snd w) = k) (rev tx) of
        Some w \<Rightarrow> Inr (snd (snd w))
      | None \<Rightarrow> ks_get (eng_ks E) (disk s nm) k)"

fun tx_apply :: "'ks engine \<Rightarrow> tx \<Rightarrow> ('ks, 'z) store_scheme \<Rightarrow> ('ks, 'z) store_scheme" where
  "tx_apply E [] s = s"
| "tx_apply E ((nm, k, v) # tx) s =
     tx_apply E tx (s\<lparr>disk := (disk s)(nm := eng_write E k v (disk s nm))\<rparr>)"

definition tx_commit ::
  "'ks engine \<Rightarrow> commit_outcome \<Rightarrow> tx \<Rightarrow> ('ks, 'z) store_scheme \<Rightarrow> ('ks, 'z) store_scheme \<times> commit_outcome" where
  "tx_commit E oc tx s = (case oc of Committed \<Rightarrow> (tx_apply E tx s, oc) | _ \<Rightarrow> (s, oc))"

text \<open>The writes of a transaction to one keyspace, in order.\<close>

definition writes_to :: "string \<Rightarrow> tx \<Rightarrow> (bytes \<times> bytes option) list" where
  "writes_to nm tx = map snd (filter (\<lambda>w. fst w = nm) tx)"

definition write_all :: "(bytes \<times> bytes option) list \<Rightarrow> (bytes \<rightharpoonup> bytes) \<Rightarrow> (bytes \<rightharpoonup> bytes)" where
  "write_all ws m = fold (\<lambda>w m. m(fst w := snd w)) ws m"

lemma writes_to_simps [simp]:
  "writes_to nm [] = []"
  "writes_to nm ((n, w) # tx) = (if n = nm then w # writes_to nm tx else writes_to nm tx)"
  "writes_to nm (tx1 @ tx2) = writes_to nm tx1 @ writes_to nm tx2"
  by (simp_all add: writes_to_def)

lemma writes_to_other: "(\<And>w. w \<in> set tx \<Longrightarrow> fst w \<noteq> nm) \<Longrightarrow> writes_to nm tx = []"
  by (auto simp: writes_to_def filter_empty_conv)

lemma write_all_simps [simp]:
  "write_all [] m = m"
  "write_all ((k, v) # ws) m = write_all ws (m(k := v))"
  "write_all (ws1 @ ws2) m = write_all ws2 (write_all ws1 m)"
  by (simp_all add: write_all_def)

lemma tx_apply_append: "tx_apply E (tx1 @ tx2) s = tx_apply E tx2 (tx_apply E tx1 s)"
  by (induction tx1 arbitrary: s) auto

lemma tx_apply_more [simp]: "store.more (tx_apply E tx s) = store.more s"
  by (induction E tx s rule: tx_apply.induct) auto

locale engine = keyspace "eng_ks E" content for E :: "'ks engine" and content +
  assumes write_content: "content (eng_write E k v ks) = (content ks)(k := v)"
    and clear_content: "eng_clear E ks = Inr ks' \<Longrightarrow> content ks' = Map.empty"
begin

lemma content_tx_apply:
  "content (disk (tx_apply E tx s) nm) = write_all (writes_to nm tx) (content (disk s nm))"
  by (induction tx arbitrary: s) (auto simp: write_content)

lemma insert_key_ok:
  "insert_key E nm k v s = (s', Inr u) \<Longrightarrow>
     \<exists>ks. s' = s\<lparr>disk := (disk s)(nm := ks)\<rparr> \<and> content ks = (content (disk s nm))(k \<mapsto> v)"
  by (auto simp: insert_key_def insert_content split: sum.splits)

lemma remove_key_ok:
  "remove_key E nm k s = (s', Inr u) \<Longrightarrow>
     \<exists>ks. s' = s\<lparr>disk := (disk s)(nm := ks)\<rparr> \<and> content ks = (content (disk s nm))(k := None)"
  by (auto simp: remove_key_def remove_content split: sum.splits)

lemma read_key_ok: "read_key E nm k s = (s', Inr r) \<Longrightarrow> s' = s \<and> r = content (disk s nm) k"
  by (auto simp: read_key_def dest: get_content)

lemma tx_get_content:
  assumes "tx_get E tx nm k s = Inr r"
  shows "r = write_all (writes_to nm tx) (content (disk s nm)) k"
  using assms
proof (induction tx rule: rev_induct)
  case Nil
  then show ?case by (simp add: tx_get_def get_content)
next
  case (snoc w tx)
  then show ?case by (cases w) (auto simp: tx_get_def split: if_splits)
qed

end

lemma insert_key_Inl: "insert_key E nm k v s = (s', Inl e) \<Longrightarrow> s' = s"
  by (auto simp: insert_key_def split: sum.splits)

lemma remove_key_Inl: "remove_key E nm k s = (s', Inl e) \<Longrightarrow> s' = s"
  by (auto simp: remove_key_def split: sum.splits)

lemma read_key_state: "read_key E nm k s = (s', r) \<Longrightarrow> s' = s"
  by (auto simp: read_key_def)

section \<open>An in-memory engine\<close>

definition mem_engine :: "mem_ks engine" where
  "mem_engine = \<lparr>eng_ks = mem_fjall, eng_open = (\<lambda>_. None), eng_write = mem_update,
     eng_clear = (\<lambda>_. Inr [])\<rparr>"

lemma mem_engine_simps [simp]:
  "eng_ks mem_engine = mem_fjall" "eng_open mem_engine = (\<lambda>_. None)" "eng_write mem_engine = mem_update"
  "eng_clear mem_engine = (\<lambda>_. Inr [])"
  by (simp_all add: mem_engine_def)

interpretation mem_eng: engine mem_engine map_of
  by (rule engine.intro) (simp_all add: mem_keyspace engine_axioms_def map_of_mem_update)

lemma mem_engine_ok: "engine mem_engine map_of"
  by (rule mem_eng.engine_axioms)

end
