(* ===== verification/Edge_Store.thy ===== *)
theory Edge_Store
  imports Engine Schema_Validate
begin

text \<open>
  Graph edges: \<open>edge.rs\<close> and \<open>storage/edges/store.rs\<close>.

  Every edge type (label) has a keyspace with four kinds of entries: OUT entries with the data of
  an edge under its endpoints, IN entries for the reverse direction of directed edges (undirected
  ones get a second OUT entry), ID entries from the id of an edge to its endpoints, and entries of
  field indexes. The state holds the schemas and the labels whose keyspace is open; operations that
  only read are functions of the state. Serialisation and value encoding come from \<open>edge_env\<close>.
\<close>

section \<open>Edges (edge.rs)\<close>

record Edge =
  edge_id :: string
  edge_from :: string
  edge_to :: string
  edge_label :: string
  edge_created_at :: i64
  edge_updated_at :: "i64 option"
  edge_fields :: fields

definition edge_with_id :: "string \<Rightarrow> string \<Rightarrow> string \<Rightarrow> string \<Rightarrow> i64 \<Rightarrow> Edge" where
  "edge_with_id i from label to created_at =
     \<lparr>edge_id = i, edge_from = from, edge_to = to, edge_label = label, edge_created_at = created_at,
      edge_updated_at = None, edge_fields = []\<rparr>"

text \<open>A new edge gets an id from the generator \<open>nanoid\<close> and the clock.\<close>

definition edge_new :: "string \<Rightarrow> i64 \<Rightarrow> string \<Rightarrow> string \<Rightarrow> string \<Rightarrow> Edge" where
  "edge_new nano now from label to = edge_with_id (label @ '':'' @ nano) from label to now"

definition new_undirected :: "string \<Rightarrow> i64 \<Rightarrow> string \<Rightarrow> string \<Rightarrow> string \<Rightarrow> Edge" where
  "new_undirected nano now node_a label node_b =
     (let (from, to) = (if node_a \<le> node_b then (node_a, node_b) else (node_b, node_a))
      in edge_new nano now from label to)"

definition edge_with_field :: "string \<Rightarrow> Value \<Rightarrow> Edge \<Rightarrow> Edge" where
  "edge_with_field k v e = e\<lparr>edge_fields := hm_insert k v (edge_fields e)\<rparr>"

definition edge_touch :: "i64 \<Rightarrow> Edge \<Rightarrow> Edge" where
  "edge_touch now e = e\<lparr>edge_updated_at := Some now\<rparr>"

definition strip_prefix :: "string \<Rightarrow> string \<Rightarrow> string option" where
  "strip_prefix p s = (if take (length p) s = p then Some (drop (length p) s) else None)"

definition nanoid :: "Edge \<Rightarrow> string" where
  "nanoid e =
     (case Option.bind (strip_prefix (edge_label e) (edge_id e)) (strip_prefix '':'') of
        Some n \<Rightarrow> n
      | None \<Rightarrow> edge_id e)"

datatype OnDeletePolicy = Cascade | Restrict | NoAction

datatype EdgeDirection = Directed | Undirected

datatype EdgeCardinality = SingleEdge | MultipleEdges

datatype EdgeValueType = EString | EInt | EFloat | EBool | EDateTime | EAny

record EdgeFieldDef =
  ef_name :: string
  ef_type :: EdgeValueType
  ef_required :: bool
  ef_default :: "Value option"

record EdgeIndex =
  ei_name :: string
  ei_fields :: "string list"

record EdgeSchema =
  es_name :: string
  es_direction :: EdgeDirection
  es_cardinality :: EdgeCardinality
  es_on_delete :: OnDeletePolicy
  es_fields :: "EdgeFieldDef list"
  es_indexes :: "EdgeIndex list"

definition edge_schema_new :: "string \<Rightarrow> EdgeSchema" where
  "edge_schema_new n =
     \<lparr>es_name = n, es_direction = Directed, es_cardinality = SingleEdge, es_on_delete = Cascade,
      es_fields = [], es_indexes = []\<rparr>"

definition is_undirected :: "EdgeSchema \<Rightarrow> bool" where
  "is_undirected sch = (es_direction sch = Undirected)"

definition is_multiple :: "EdgeSchema \<Rightarrow> bool" where
  "is_multiple sch = (es_cardinality sch = MultipleEdges)"

record EdgeData =
  ed_id :: string
  ed_created_at :: i64
  ed_updated_at :: i64
  ed_fields :: fields

definition from_edge :: "Edge \<Rightarrow> EdgeData" where
  "from_edge e =
     \<lparr>ed_id = nanoid e, ed_created_at = edge_created_at e,
      ed_updated_at = (case edge_updated_at e of Some u \<Rightarrow> u | None \<Rightarrow> 0), ed_fields = edge_fields e\<rparr>"

definition to_edge :: "EdgeData \<Rightarrow> string \<Rightarrow> string \<Rightarrow> string \<Rightarrow> Edge" where
  "to_edge d label from to =
     \<lparr>edge_id = label @ '':'' @ ed_id d, edge_from = from, edge_to = to, edge_label = label,
      edge_created_at = ed_created_at d,
      edge_updated_at = (if ed_updated_at d = 0 then None else Some (ed_updated_at d)),
      edge_fields = ed_fields d\<rparr>"

definition is_compact :: "EdgeData \<Rightarrow> bool" where
  "is_compact d \<longleftrightarrow> ed_fields d = [] \<and> ed_updated_at d = 0"

definition EDGE_FORMAT_COMPACT :: u8 where "EDGE_FORMAT_COMPACT = 0x00"
definition EDGE_FORMAT_FULL :: u8 where "EDGE_FORMAT_FULL = 0x01"

section \<open>The store\<close>

definition EDGE_KEYSPACE_PREFIX :: string where "EDGE_KEYSPACE_PREFIX = ''_edge:''"
definition EDGE_META_KEYSPACE :: string where "EDGE_META_KEYSPACE = ''_edge_meta''"
definition META_LABELS_KEY :: bytes where "META_LABELS_KEY = as_bytes ''labels''"
definition META_SCHEMA_PREFIX :: string where "META_SCHEMA_PREFIX = ''schema:''"

record ('ks, 'd) edge_env =
  ee_engine :: "'ks engine"
  ee_libs :: "'d libs"
  ee_data :: "EdgeData codec"
  ee_schema :: "EdgeSchema codec"
  ee_labels :: "string list codec"

record 'ks edge_store = "'ks store" +
  edge_schemas :: "(string, EdgeSchema) hashmap"
  edge_keyspaces :: "string list"

type_synonym ('ks, 'z, 'a) edge_op = "(('ks, 'z) edge_store_scheme, 'a) op"

definition edge_ks :: "string \<Rightarrow> string" where
  "edge_ks label = EDGE_KEYSPACE_PREFIX @ label"

definition get_or_create_keyspace :: "('ks, 'd) edge_env \<Rightarrow> string \<Rightarrow> ('ks, 'z, unit) edge_op" where
  "get_or_create_keyspace X label = with_state (\<lambda>s.
     if label \<in> set (edge_keyspaces s) then ok ()
     else try_do (open_keyspace (ee_engine X) (edge_ks label)) (\<lambda>_ s.
       (s\<lparr>edge_keyspaces := label # edge_keyspaces s\<rparr>, Inr ())))"

definition no_edge_type :: "string \<Rightarrow> StorageError" where
  "no_edge_type label = NotFound (''Edge type '' @ quoted label @ '' not defined'')"

definition get_keyspace :: "string \<Rightarrow> ('ks, 'z) edge_store_scheme \<Rightarrow> StorageError + string" where
  "get_keyspace label s =
     (if label \<in> set (edge_keyspaces s) then Inr (edge_ks label) else Inl (no_edge_type label))"

definition get_schema :: "('ks, 'z) edge_store_scheme \<Rightarrow> string \<Rightarrow> EdgeSchema option" where
  "get_schema s label = hm_get (edge_schemas s) label"

definition list_edge_types :: "('ks, 'z) edge_store_scheme \<Rightarrow> string list" where
  "list_edge_types s = hm_keys (edge_schemas s)"

subsection \<open>Edge types\<close>

fun load_schema_items ::
  "('ks, 'd) edge_env \<Rightarrow> ks_item list \<Rightarrow> string list \<Rightarrow> ('ks, 'z, string list) edge_op" where
  "load_schema_items X [] labels = ok labels"
| "load_schema_items X (item # items) labels =
     try_do (lift_result item) (\<lambda>(k, v).
       case strip_prefix META_SCHEMA_PREFIX (of_bytes (from_utf8_lossy k)) of
         None \<Rightarrow> load_schema_items X items labels
       | Some label \<Rightarrow>
           try_do (lift_result (dec (ee_schema X) v)) (\<lambda>sch.
             try_do (\<lambda>s. (s\<lparr>edge_schemas := hm_insert label sch (edge_schemas s)\<rparr>, Inr ())) (\<lambda>_.
               load_schema_items X items (labels @ [label]))))"

definition load_schemas :: "('ks, 'd) edge_env \<Rightarrow> ('ks, 'z, unit) edge_op" where
  "load_schemas X = with_state (\<lambda>s.
     try_do (load_schema_items X
       (ks_prefix (eng_ks (ee_engine X)) (as_bytes META_SCHEMA_PREFIX) (disk s EDGE_META_KEYSPACE)) []) (\<lambda>labels.
         for_each labels (get_or_create_keyspace X)))"

definition get_labels_list :: "('ks, 'd) edge_env \<Rightarrow> ('ks, 'z, string list) edge_op" where
  "get_labels_list X =
     try_do (read_key (ee_engine X) EDGE_META_KEYSPACE META_LABELS_KEY) (\<lambda>r.
       case r of Some b \<Rightarrow> lift_result (dec (ee_labels X) b) | None \<Rightarrow> ok [])"

definition save_labels_list :: "('ks, 'd) edge_env \<Rightarrow> string list \<Rightarrow> ('ks, 'z, unit) edge_op" where
  "save_labels_list X labels =
     try_do (lift_result (enc (ee_labels X) labels)) (\<lambda>b.
       insert_key (ee_engine X) EDGE_META_KEYSPACE META_LABELS_KEY b)"

definition add_label_to_list :: "('ks, 'd) edge_env \<Rightarrow> string \<Rightarrow> ('ks, 'z, unit) edge_op" where
  "add_label_to_list X label =
     try_do (get_labels_list X) (\<lambda>labels.
       if label \<in> set labels then ok () else save_labels_list X (labels @ [label]))"

definition remove_label_from_list :: "('ks, 'd) edge_env \<Rightarrow> string \<Rightarrow> ('ks, 'z, unit) edge_op" where
  "remove_label_from_list X label =
     try_do (get_labels_list X) (\<lambda>labels. save_labels_list X (filter (\<lambda>l. l \<noteq> label) labels))"

text \<open>The text of the errors that \<open>validate_name\<close> returns.\<close>

definition name_error_text :: "BindError \<Rightarrow> string" where
  "name_error_text e =
     (case e of
        NameTooLong kind nm max_length \<Rightarrow>
          kind @ '' name '' @ quoted nm @ '' exceeds maximum length of '' @ nat_to_string max_length @ '' characters''
      | InvalidName kind reason \<Rightarrow> ''invalid '' @ kind @ '' name: '' @ reason
      | _ \<Rightarrow> [])"

definition check_name :: "string \<Rightarrow> string \<Rightarrow> StorageError + unit" where
  "check_name kind nm =
     (case validate_name kind nm of Inl e \<Rightarrow> Inl (InvalidOperation (name_error_text e)) | Inr _ \<Rightarrow> Inr ())"

definition define_edge_type :: "('ks, 'd) edge_env \<Rightarrow> EdgeSchema \<Rightarrow> ('ks, 'z, unit) edge_op" where
  "define_edge_type X sch = (let label = es_name sch in
     try_do (lift_result (check_name ''edge type'' label)) (\<lambda>_.
     with_state (\<lambda>s.
       if hm_contains (edge_schemas s) label
       then fail (AlreadyExists (''Edge type '' @ quoted label @ '' already exists''))
       else
         try_do (lift_result (enc (ee_schema X) sch)) (\<lambda>schema_bytes.
         try_do (insert_key (ee_engine X) EDGE_META_KEYSPACE (as_bytes (META_SCHEMA_PREFIX @ label)) schema_bytes) (\<lambda>_.
         try_do (add_label_to_list X label) (\<lambda>_.
         try_do (get_or_create_keyspace X label) (\<lambda>_ s.
           (s\<lparr>edge_schemas := hm_insert label sch (edge_schemas s)\<rparr>, Inr ()))))))))"

definition drop_edge_type :: "('ks, 'd) edge_env \<Rightarrow> string \<Rightarrow> ('ks, 'z, unit) edge_op" where
  "drop_edge_type X label =
     try_do (\<lambda>s. (s\<lparr>edge_schemas := hm_remove label (edge_schemas s),
                    edge_keyspaces := filter (\<lambda>l. l \<noteq> label) (edge_keyspaces s)\<rparr>, Inr ())) (\<lambda>_.
     try_do (remove_key (ee_engine X) EDGE_META_KEYSPACE (as_bytes (META_SCHEMA_PREFIX @ label))) (\<lambda>_.
       remove_label_from_list X label))"

subsection \<open>Data\<close>

definition serialize_edge_data :: "('ks, 'd) edge_env \<Rightarrow> EdgeData \<Rightarrow> StorageError + bytes" where
  "serialize_edge_data X d =
     (if is_compact d
      then Inr (EDGE_FORMAT_COMPACT # as_bytes (ed_id d) @ [0x00] @ to_le_bytes 8 (unat (ed_created_at d)))
      else and_then (enc (ee_data X) d) (\<lambda>b. Inr (EDGE_FORMAT_FULL # b)))"

definition from_le_bytes :: "bytes \<Rightarrow> nat" where
  "from_le_bytes bs = foldr (\<lambda>b n. unat b + 256 * n) bs 0"

definition deserialize_edge_data :: "('ks, 'd) edge_env \<Rightarrow> bytes \<Rightarrow> StorageError + EdgeData" where
  "deserialize_edge_data X bs =
     (case bs of
        [] \<Rightarrow> Inl (Serialization ''Empty edge data'')
      | b0 # rest \<Rightarrow>
          if b0 = EDGE_FORMAT_COMPACT then
            (case position (\<lambda>b. b = 0x00) rest of
               None \<Rightarrow> Inl (Serialization ''Invalid compact format'')
             | Some sep \<Rightarrow>
                 if length rest < sep + 9 then Inl (StoragePanic ''range end index out of range'')
                 else Inr \<lparr>ed_id = of_bytes (from_utf8_lossy (take sep rest)),
                           ed_created_at = of_nat (from_le_bytes (take 8 (drop (sep + 1) rest))),
                           ed_updated_at = 0, ed_fields = []\<rparr>)
          else if b0 = EDGE_FORMAT_FULL then dec (ee_data X) rest
          else Inl (Serialization (''Unknown edge format marker: '' @ nat_to_string (unat b0))))"

fun split_bytes :: "u8 \<Rightarrow> bytes \<Rightarrow> bytes list" where
  "split_bytes c [] = [[]]"
| "split_bytes c (x # xs) =
     (if x = c then [] # split_bytes c xs
      else case split_bytes c xs of [] \<Rightarrow> [[x]] | p # ps \<Rightarrow> (x # p) # ps)"

definition lossy :: "bytes \<Rightarrow> string" where
  "lossy bs = of_bytes (from_utf8_lossy bs)"

definition parse_out_key_target :: "bytes \<Rightarrow> StorageError + string" where
  "parse_out_key_target k =
     (let parts = split_bytes 0x00 k
      in if length parts < 2 then Inl (Serialization ''Invalid OUT key format'') else Inr (lossy (parts ! 1)))"

definition parse_in_key_and_value :: "bytes \<Rightarrow> bytes \<Rightarrow> EdgeSchema \<Rightarrow> StorageError + (string \<times> string)" where
  "parse_in_key_and_value k v sch =
     (let parts = split_bytes 0x00 k
      in if length parts < 2 then Inl (Serialization ''Invalid IN key format'')
         else case es_cardinality sch of
           SingleEdge \<Rightarrow> Inr (lossy (parts ! 1), lossy v)
         | MultipleEdges \<Rightarrow>
             if 3 \<le> length parts then Inr (lossy (parts ! 1), lossy (parts ! 2))
             else Inl (Serialization ''Missing edge_id in multi key''))"

definition extract_edge_id_from_index_key :: "bytes \<Rightarrow> string option" where
  "extract_edge_id_from_index_key k =
     (case split_bytes 0x00 k of [] \<Rightarrow> None | p # ps \<Rightarrow> Some (lossy (last (p # ps))))"

definition field_index_keys :: "'d libs \<Rightarrow> EdgeSchema \<Rightarrow> string \<Rightarrow> fields \<Rightarrow> bytes list" where
  "field_index_keys L sch i fs =
     List.concat (map (\<lambda>index. List.map_filter (\<lambda>f. map_option (\<lambda>v. encode_edge_field_index_key L f v i) (hm_get fs f))
       (ei_fields index)) (es_indexes sch))"

definition update_field_indexes ::
  "('ks, 'd) edge_env \<Rightarrow> string \<Rightarrow> EdgeSchema \<Rightarrow> string \<Rightarrow> fields \<Rightarrow> bool \<Rightarrow> ('ks, 'z, unit) edge_op" where
  "update_field_indexes X ks sch i fs ins =
     for_each (field_index_keys (ee_libs X) sch i fs) (\<lambda>k.
       if ins then insert_key (ee_engine X) ks k [] else remove_key (ee_engine X) ks k)"

subsection \<open>Create\<close>

text \<open>Undirected edges are stored with ordered endpoints.\<close>

definition edge_endpoints :: "EdgeSchema \<Rightarrow> string \<Rightarrow> string \<Rightarrow> string \<times> string" where
  "edge_endpoints sch from to =
     (if is_undirected sch then (if from \<le> to then (from, to) else (to, from)) else (from, to))"

definition out_key :: "EdgeSchema \<Rightarrow> string \<Rightarrow> string \<Rightarrow> string \<Rightarrow> bytes" where
  "out_key sch from to i =
     (case es_cardinality sch of
        SingleEdge \<Rightarrow> encode_edge_out_key_single from to
      | MultipleEdges \<Rightarrow> encode_edge_out_key_multi from to i)"

definition in_key :: "EdgeSchema \<Rightarrow> string \<Rightarrow> string \<Rightarrow> string \<Rightarrow> bytes" where
  "in_key sch to from i =
     (case es_cardinality sch of
        SingleEdge \<Rightarrow> encode_edge_in_key_single to from
      | MultipleEdges \<Rightarrow> encode_edge_in_key_multi to from i)"

text \<open>The entries that an edge has, in the order in which they are written: OUT, the reverse OUT or
  the IN entry, ID.\<close>

definition edge_entries :: "EdgeSchema \<Rightarrow> string \<Rightarrow> string \<Rightarrow> string \<Rightarrow> bytes \<Rightarrow> (bytes \<times> bytes) list" where
  "edge_entries sch from to i data_bytes =
     [(out_key sch from to i, data_bytes),
      (if is_undirected sch then (out_key sch to from i, data_bytes)
       else (in_key sch to from i, case es_cardinality sch of SingleEdge \<Rightarrow> as_bytes i | MultipleEdges \<Rightarrow> [])),
      (encode_edge_id_key i, encode_edge_id_value from to)]"

definition ensure_edge_type :: "('ks, 'd) edge_env \<Rightarrow> string \<Rightarrow> ('ks, 'z, EdgeSchema) edge_op" where
  "ensure_edge_type X label = with_state (\<lambda>s.
     case get_schema s label of
       Some sch \<Rightarrow> ok sch
     | None \<Rightarrow> try_do (define_edge_type X (edge_schema_new label)) (\<lambda>_. ok (edge_schema_new label)))"

definition edge_create :: "('ks, 'd) edge_env \<Rightarrow> Edge \<Rightarrow> ('ks, 'z, unit) edge_op" where
  "edge_create X e =
     try_do (ensure_edge_type X (edge_label e)) (\<lambda>sch.
     with_state (\<lambda>s. try_do (lift_result (get_keyspace (edge_label e) s)) (\<lambda>ks.
     try_do (lift_result (serialize_edge_data X (from_edge e))) (\<lambda>data_bytes.
     let (from, to) = edge_endpoints sch (edge_from e) (edge_to e) in
     try_do (for_each (edge_entries sch from to (nanoid e) data_bytes)
       (\<lambda>(k, v). insert_key (ee_engine X) ks k v)) (\<lambda>_.
       update_field_indexes X ks sch (nanoid e) (edge_fields e) True)))))"

text \<open>Within a transaction; field indexes are not updated.\<close>

definition edge_create_in_tx :: "('ks, 'd) edge_env \<Rightarrow> tx \<Rightarrow> Edge \<Rightarrow> ('ks, 'z, tx) edge_op" where
  "edge_create_in_tx X tx e =
     try_do (ensure_edge_type X (edge_label e)) (\<lambda>sch.
     with_state (\<lambda>s. try_do (lift_result (get_keyspace (edge_label e) s)) (\<lambda>ks.
     try_do (lift_result (serialize_edge_data X (from_edge e))) (\<lambda>data_bytes.
     let (from, to) = edge_endpoints sch (edge_from e) (edge_to e) in
       ok (tx @ map (\<lambda>(k, v). (ks, k, Some v)) (edge_entries sch from to (nanoid e) data_bytes))))))"

subsection \<open>Read\<close>

definition disk_get ::
  "('ks, 'd) edge_env \<Rightarrow> string \<Rightarrow> bytes \<Rightarrow> ('ks, 'z) edge_store_scheme \<Rightarrow> StorageError + bytes option" where
  "disk_get X ks k s = ks_get (eng_ks (ee_engine X)) (disk s ks) k"

definition decode_opt_edge ::
  "('ks, 'd) edge_env \<Rightarrow> string \<Rightarrow> string \<Rightarrow> string \<Rightarrow> bytes option \<Rightarrow> StorageError + Edge option" where
  "decode_opt_edge X label from to r =
     (case r of
        None \<Rightarrow> Inr None
      | Some b \<Rightarrow> and_then (deserialize_edge_data X b) (\<lambda>d. Inr (Some (to_edge d label from to))))"

definition edge_get_by_id ::
  "('ks, 'd) edge_env \<Rightarrow> string \<Rightarrow> string \<Rightarrow> ('ks, 'z) edge_store_scheme \<Rightarrow> StorageError + Edge option" where
  "edge_get_by_id X label i s =
     (case get_schema s label of
        None \<Rightarrow> Inl (no_edge_type label)
      | Some sch \<Rightarrow>
          and_then (get_keyspace label s) (\<lambda>ks.
          and_then (disk_get X ks (encode_edge_id_key i) s) (\<lambda>r.
          case r of
            None \<Rightarrow> Inr None
          | Some id_value \<Rightarrow>
              (case decode_edge_id_value id_value of
                 None \<Rightarrow> Inl (Serialization ''Invalid ID value format'')
               | Some (from, to) \<Rightarrow>
                   and_then (disk_get X ks (out_key sch from to i) s) (decode_opt_edge X label from to)))))"

definition edge_get ::
  "('ks, 'd) edge_env \<Rightarrow> string \<Rightarrow> string \<Rightarrow> string \<Rightarrow> ('ks, 'z) edge_store_scheme \<Rightarrow> StorageError + Edge option" where
  "edge_get X from label to s =
     (case get_schema s label of
        None \<Rightarrow> Inr None
      | Some sch \<Rightarrow>
          if is_multiple sch
          then Inl (InvalidOperation ''Use get_by_id or list_out for Multiple cardinality edges'')
          else
            and_then (get_keyspace label s) (\<lambda>ks.
              let (from, to) = (if is_undirected sch \<and> from > to then (to, from) else (from, to)) in
              and_then (disk_get X ks (encode_edge_out_key_single from to) s) (decode_opt_edge X label from to)))"

definition clamp_limit :: "nat \<Rightarrow> nat" where
  "clamp_limit limit = max 1 (min limit 1000)"

fun list_out_loop ::
  "('ks, 'd) edge_env \<Rightarrow> string \<Rightarrow> string \<Rightarrow> nat \<Rightarrow> ks_item list \<Rightarrow> string option \<Rightarrow> Edge list \<Rightarrow> StorageError + Edge list" where
  "list_out_loop X label from limit [] skip_until edges = Inr edges"
| "list_out_loop X label from limit (item # items) skip_until edges =
     and_then item (\<lambda>(k, v).
     and_then (parse_out_key_target (drop 1 k)) (\<lambda>to.
     and_then (deserialize_edge_data X v) (\<lambda>d.
       case skip_until of
         Some cursor \<Rightarrow>
           list_out_loop X label from limit items (if ed_id d = cursor then None else Some cursor) edges
       | None \<Rightarrow>
           if limit < length edges then Inr edges
           else list_out_loop X label from limit items None (edges @ [to_edge d label from to]))))"

text \<open>One edge more than asked for tells that there is another page.\<close>

definition page :: "nat \<Rightarrow> Edge list \<Rightarrow> Edge list \<times> string option" where
  "page limit edges =
     (let has_more = limit < length edges;
          edges = (if has_more then butlast edges else edges);
          next_cursor = (if has_more \<and> edges \<noteq> [] then Some (nanoid (last edges)) else None)
      in (edges, next_cursor))"

definition list_out ::
  "('ks, 'd) edge_env \<Rightarrow> string \<Rightarrow> string \<Rightarrow> string option \<Rightarrow> nat \<Rightarrow> ('ks, 'z) edge_store_scheme
     \<Rightarrow> StorageError + Edge list \<times> string option" where
  "list_out X from label after limit s =
     (if get_schema s label = None then Inr ([], None)
      else
        and_then (get_keyspace label s) (\<lambda>ks.
          let limit = clamp_limit limit in
          and_then (list_out_loop X label from limit
            (range_keys (ee_engine X) ks (Some (encode_edge_out_prefix_v2 from)) (Some (encode_edge_out_prefix_end_v2 from)) s)
            after []) (\<lambda>edges. Inr (page limit edges))))"

fun list_in_loop ::
  "('ks, 'd) edge_env \<Rightarrow> string \<Rightarrow> EdgeSchema \<Rightarrow> string \<Rightarrow> string \<Rightarrow> nat \<Rightarrow> ('ks, 'z) edge_store_scheme \<Rightarrow>
     ks_item list \<Rightarrow> string option \<Rightarrow> Edge list \<Rightarrow> StorageError + Edge list" where
  "list_in_loop X ks sch label to limit s [] skip_until edges = Inr edges"
| "list_in_loop X ks sch label to limit s (item # items) skip_until edges =
     and_then item (\<lambda>(k, v).
     and_then (parse_in_key_and_value (drop 1 k) v sch) (\<lambda>(from, i).
       case skip_until of
         Some cursor \<Rightarrow>
           list_in_loop X ks sch label to limit s items (if i = cursor then None else Some cursor) edges
       | None \<Rightarrow>
           if limit < length edges then Inr edges
           else
             and_then (disk_get X ks (out_key sch from to i) s) (\<lambda>r.
             and_then (decode_opt_edge X label from to r) (\<lambda>e.
               list_in_loop X ks sch label to limit s items None
                 (edges @ (case e of Some e \<Rightarrow> [e] | None \<Rightarrow> []))))))"

definition list_in ::
  "('ks, 'd) edge_env \<Rightarrow> string \<Rightarrow> string \<Rightarrow> string option \<Rightarrow> nat \<Rightarrow> ('ks, 'z) edge_store_scheme
     \<Rightarrow> StorageError + Edge list \<times> string option" where
  "list_in X to label after limit s =
     (case get_schema s label of
        None \<Rightarrow> Inr ([], None)
      | Some sch \<Rightarrow>
          if is_undirected sch then list_out X to label after limit s
          else
            and_then (get_keyspace label s) (\<lambda>ks.
              let limit = clamp_limit limit in
              and_then (list_in_loop X ks sch label to limit s
                (range_keys (ee_engine X) ks (Some (encode_edge_in_prefix_v2 to)) (Some (encode_edge_in_prefix_end_v2 to)) s)
                after []) (\<lambda>edges. Inr (page limit edges))))"

text \<open>All labels, up to a limit in total.\<close>

fun list_all_loop :: "(string \<Rightarrow> StorageError + Edge list \<times> string option) \<Rightarrow> nat \<Rightarrow> string list \<Rightarrow> Edge list \<Rightarrow> StorageError + Edge list" where
  "list_all_loop list_label limit [] acc = Inr acc"
| "list_all_loop list_label limit (label # labels) acc =
     and_then (list_label label) (\<lambda>(edges, _).
       let acc = acc @ edges in
       if limit \<le> length acc then Inr (take limit acc) else list_all_loop list_label limit labels acc)"

definition list_all_out :: "('ks, 'd) edge_env \<Rightarrow> string \<Rightarrow> nat \<Rightarrow> ('ks, 'z) edge_store_scheme \<Rightarrow> StorageError + Edge list" where
  "list_all_out X from limit s =
     list_all_loop (\<lambda>label. list_out X from label None limit s) limit (list_edge_types s) []"

definition list_all_in :: "('ks, 'd) edge_env \<Rightarrow> string \<Rightarrow> nat \<Rightarrow> ('ks, 'z) edge_store_scheme \<Rightarrow> StorageError + Edge list" where
  "list_all_in X to limit s =
     list_all_loop (\<lambda>label. list_in X to label None limit s) limit (list_edge_types s) []"

fun list_batch_loop :: "(string \<Rightarrow> StorageError + Edge list \<times> string option) \<Rightarrow> string list \<Rightarrow> (string, Edge list) hashmap
  \<Rightarrow> StorageError + (string, Edge list) hashmap" where
  "list_batch_loop list_node [] acc = Inr acc"
| "list_batch_loop list_node (n # ns) acc =
     and_then (list_node n) (\<lambda>(edges, _). list_batch_loop list_node ns (hm_insert n edges acc))"

definition list_out_batch where
  "list_out_batch X from_nodes label limit_per_node s =
     list_batch_loop (\<lambda>n. list_out X n label None limit_per_node s) from_nodes []"

definition list_in_batch where
  "list_in_batch X to_nodes label limit_per_node s =
     list_batch_loop (\<lambda>n. list_in X n label None limit_per_node s) to_nodes []"

fun query_field_loop ::
  "('ks, 'd) edge_env \<Rightarrow> string \<Rightarrow> ('ks, 'z) edge_store_scheme \<Rightarrow> ks_item list \<Rightarrow> Edge list \<Rightarrow> StorageError + Edge list" where
  "query_field_loop X label s [] edges = Inr edges"
| "query_field_loop X label s (item # items) edges =
     and_then item (\<lambda>(k, _).
       case extract_edge_id_from_index_key (drop 1 k) of
         None \<Rightarrow> query_field_loop X label s items edges
       | Some i \<Rightarrow>
           and_then (edge_get_by_id X label i s) (\<lambda>e.
             query_field_loop X label s items (edges @ (case e of Some e \<Rightarrow> [e] | None \<Rightarrow> []))))"

definition query_by_field ::
  "('ks, 'd) edge_env \<Rightarrow> string \<Rightarrow> string \<Rightarrow> Value \<Rightarrow> ('ks, 'z) edge_store_scheme \<Rightarrow> StorageError + Edge list" where
  "query_by_field X label field v s =
     (case get_schema s label of
        None \<Rightarrow> Inl (no_edge_type label)
      | Some sch \<Rightarrow>
          if \<not> list_ex (\<lambda>index. field \<in> set (ei_fields index)) (es_indexes sch)
          then Inl (InvalidOperation (''Field '' @ quoted field @ '' is not indexed on edge type '' @ quoted label))
          else
            and_then (get_keyspace label s) (\<lambda>ks.
              let pre = encode_edge_field_index_value_prefix (ee_libs X) field v;
                  prefix_end = butlast pre @ [0x01]
              in query_field_loop X label s (range_keys (ee_engine X) ks (Some pre) (Some prefix_end) s) []))"

subsection \<open>Delete\<close>

text \<open>The keys of an edge, in the order of \<open>edge_entries\<close>.\<close>

definition edge_keys :: "EdgeSchema \<Rightarrow> string \<Rightarrow> string \<Rightarrow> string \<Rightarrow> bytes list" where
  "edge_keys sch from to i =
     [out_key sch from to i,
      if is_undirected sch then out_key sch to from i else in_key sch to from i,
      encode_edge_id_key i]"

definition edge_delete_by_id :: "('ks, 'd) edge_env \<Rightarrow> string \<Rightarrow> string \<Rightarrow> ('ks, 'z, bool) edge_op" where
  "edge_delete_by_id X label i = with_state (\<lambda>s.
     case get_schema s label of
       None \<Rightarrow> ok False
     | Some sch \<Rightarrow>
         try_do (lift_result (get_keyspace label s)) (\<lambda>ks.
         try_do (lift_result (disk_get X ks (encode_edge_id_key i) s)) (\<lambda>r.
         case r of
           None \<Rightarrow> ok False
         | Some id_value \<Rightarrow>
             (case decode_edge_id_value id_value of
                None \<Rightarrow> fail (Serialization ''Invalid ID value format'')
              | Some (from, to) \<Rightarrow>
                  try_do (lift_result (disk_get X ks (out_key sch from to i) s)) (\<lambda>r.
                  try_do (lift_result (case r of
                      None \<Rightarrow> Inr None | Some b \<Rightarrow> and_then (deserialize_edge_data X b) (\<lambda>d. Inr (Some d)))) (\<lambda>edge_data.
                  try_do (for_each (edge_keys sch from to i) (remove_key (ee_engine X) ks)) (\<lambda>_.
                  try_do (case edge_data of
                      None \<Rightarrow> ok ()
                    | Some d \<Rightarrow> update_field_indexes X ks sch i (ed_fields d) False) (\<lambda>_. ok True))))))))"

fun collect_edge_data :: "('ks, 'd) edge_env \<Rightarrow> ks_item list \<Rightarrow> StorageError + EdgeData list" where
  "collect_edge_data X [] = Inr []"
| "collect_edge_data X (item # items) =
     and_then item (\<lambda>(_, v).
     and_then (deserialize_edge_data X v) (\<lambda>d.
     and_then (collect_edge_data X items) (\<lambda>ds. Inr (d # ds))))"

definition target_items ::
  "('ks, 'd) edge_env \<Rightarrow> string \<Rightarrow> string \<Rightarrow> string \<Rightarrow> ('ks, 'z) edge_store_scheme \<Rightarrow> ks_item list" where
  "target_items X ks from to s =
     range_keys (ee_engine X) ks (Some (encode_edge_out_target_prefix from to))
       (Some (encode_edge_out_target_prefix_end from to)) s"

definition edge_delete :: "('ks, 'd) edge_env \<Rightarrow> string \<Rightarrow> string \<Rightarrow> string \<Rightarrow> ('ks, 'z, nat) edge_op" where
  "edge_delete X from label to = with_state (\<lambda>s.
     case get_schema s label of
       None \<Rightarrow> ok 0
     | Some sch \<Rightarrow>
         try_do (lift_result (get_keyspace label s)) (\<lambda>ks.
         let (from, to) = (if is_undirected sch \<and> from > to then (to, from) else (from, to)) in
         case es_cardinality sch of
           SingleEdge \<Rightarrow>
             (let okey = encode_edge_out_key_single from to in
              try_do (lift_result (disk_get X ks okey s)) (\<lambda>r.
              case r of
                None \<Rightarrow> ok 0
              | Some b \<Rightarrow>
                  try_do (lift_result (deserialize_edge_data X b)) (\<lambda>d.
                  try_do (update_field_indexes X ks sch (ed_id d) (ed_fields d) False) (\<lambda>_.
                  try_do (remove_key (ee_engine X) ks (encode_edge_id_key (ed_id d))) (\<lambda>_.
                  try_do (remove_key (ee_engine X) ks okey) (\<lambda>_.
                  try_do (remove_key (ee_engine X) ks
                    (if is_undirected sch then encode_edge_out_key_single to from
                     else encode_edge_in_key_single to from)) (\<lambda>_. ok 1)))))))
         | MultipleEdges \<Rightarrow>
             try_do (lift_result (collect_edge_data X (target_items X ks from to s))) (\<lambda>to_delete.
             try_do (for_each to_delete (\<lambda>d.
               try_do (for_each (edge_keys sch from to (ed_id d)) (remove_key (ee_engine X) ks)) (\<lambda>_.
                 update_field_indexes X ks sch (ed_id d) (ed_fields d) False))) (\<lambda>_.
               ok (length to_delete)))))"

definition delete_edge_keys_in_tx :: "tx \<Rightarrow> string \<Rightarrow> EdgeSchema \<Rightarrow> string \<Rightarrow> string \<Rightarrow> string \<Rightarrow> tx" where
  "delete_edge_keys_in_tx tx ks sch from to i = tx @ map (\<lambda>k. (ks, k, None)) (edge_keys sch from to i)"

definition edge_delete_in_tx ::
  "('ks, 'd) edge_env \<Rightarrow> tx \<Rightarrow> string \<Rightarrow> string \<Rightarrow> string \<Rightarrow> ('ks, 'z) edge_store_scheme \<Rightarrow> StorageError + tx \<times> nat" where
  "edge_delete_in_tx X tx from label to s =
     (case get_schema s label of
        None \<Rightarrow> Inr (tx, 0)
      | Some sch \<Rightarrow>
          and_then (get_keyspace label s) (\<lambda>ks.
          let (from, to) = (if is_undirected sch \<and> from > to then (to, from) else (from, to)) in
          case es_cardinality sch of
            SingleEdge \<Rightarrow>
              and_then (tx_get (ee_engine X) tx ks (encode_edge_out_key_single from to) s) (\<lambda>r.
              case r of
                None \<Rightarrow> Inr (tx, 0)
              | Some b \<Rightarrow>
                  and_then (deserialize_edge_data X b) (\<lambda>d.
                    Inr (delete_edge_keys_in_tx tx ks sch from to (ed_id d), 1)))
          | MultipleEdges \<Rightarrow>
              and_then (collect_edge_data X (target_items X ks from to s)) (\<lambda>to_delete.
                Inr (fold (\<lambda>d tx. delete_edge_keys_in_tx tx ks sch from to (ed_id d)) to_delete tx,
                     length to_delete))))"

definition edge_create_batch :: "('ks, 'd) edge_env \<Rightarrow> Edge list \<Rightarrow> ('ks, 'z, unit) edge_op" where
  "edge_create_batch X edges =
     (let by_label = fold (\<lambda>e m. hm_insert (edge_label e)
            ((case hm_get m (edge_label e) of Some es \<Rightarrow> es | None \<Rightarrow> []) @ [e]) m) edges []
      in for_each by_label (\<lambda>(_, label_edges). for_each label_edges (edge_create X)))"

fun edge_delete_batch :: "('ks, 'd) edge_env \<Rightarrow> (string \<times> string) list \<Rightarrow> nat \<Rightarrow> ('ks, 'z, nat) edge_op" where
  "edge_delete_batch X [] count = ok count"
| "edge_delete_batch X ((label, i) # ids) count =
     try_do (edge_delete_by_id X label i) (\<lambda>existed. edge_delete_batch X ids (if existed then count + 1 else count))"

subsection \<open>Deleting a node\<close>

definition usize_max :: nat where "usize_max = 2 ^ 64 - 1"

definition restrict_error :: "string \<Rightarrow> string \<Rightarrow> string \<Rightarrow> StorageError" where
  "restrict_error node_id dir label =
     Conflict (''Cannot delete '' @ quoted node_id @ '': has '' @ dir @ '' '' @ quoted label @ '' edges (RESTRICT policy)'')"

definition check_restrict ::
  "('ks, 'd) edge_env \<Rightarrow> string \<Rightarrow> string \<Rightarrow> ('ks, 'z) edge_store_scheme \<Rightarrow> StorageError + unit" where
  "check_restrict X node_id label s =
     and_then (list_out X node_id label None 1 s) (\<lambda>(out_edges, _).
     if out_edges \<noteq> [] then Inl (restrict_error node_id ''outgoing'' label)
     else
       and_then (list_in X node_id label None 1 s) (\<lambda>(in_edges, _).
       if in_edges \<noteq> [] then Inl (restrict_error node_id ''incoming'' label) else Inr ()))"

fun check_labels ::
  "('ks, 'd) edge_env \<Rightarrow> string \<Rightarrow> string list \<Rightarrow> ('ks, 'z) edge_store_scheme \<Rightarrow> StorageError + unit" where
  "check_labels X node_id [] s = Inr ()"
| "check_labels X node_id (label # labels) s =
     (case get_schema s label of
        None \<Rightarrow> check_labels X node_id labels s
      | Some sch \<Rightarrow>
          if es_on_delete sch = Restrict
          then and_then (check_restrict X node_id label s) (\<lambda>_. check_labels X node_id labels s)
          else check_labels X node_id labels s)"

definition check_delete_allowed ::
  "('ks, 'd) edge_env \<Rightarrow> string \<Rightarrow> ('ks, 'z) edge_store_scheme \<Rightarrow> StorageError + unit" where
  "check_delete_allowed X node_id s = check_labels X node_id (list_edge_types s) s"

fun delete_edges_loop :: "('ks, 'd) edge_env \<Rightarrow> Edge list \<Rightarrow> nat \<Rightarrow> ('ks, 'z, nat) edge_op" where
  "delete_edges_loop X [] count = ok count"
| "delete_edges_loop X (e # es) count =
     try_do (edge_delete X (edge_from e) (edge_label e) (edge_to e)) (\<lambda>_. delete_edges_loop X es (count + 1))"

fun delete_node_labels :: "('ks, 'd) edge_env \<Rightarrow> string \<Rightarrow> string list \<Rightarrow> nat \<Rightarrow> ('ks, 'z, nat) edge_op" where
  "delete_node_labels X node_id [] count = ok count"
| "delete_node_labels X node_id (label # labels) count = with_state (\<lambda>s.
     case get_schema s label of
       None \<Rightarrow> delete_node_labels X node_id labels count
     | Some sch \<Rightarrow>
         (case es_on_delete sch of
            Cascade \<Rightarrow>
              try_do (lift_result (list_out X node_id label None usize_max s)) (\<lambda>(out_edges, _).
              try_do (delete_edges_loop X out_edges count) (\<lambda>count.
              with_state (\<lambda>s. try_do (lift_result (list_in X node_id label None usize_max s)) (\<lambda>(in_edges, _).
              try_do (delete_edges_loop X in_edges count) (\<lambda>count.
                delete_node_labels X node_id labels count)))))
          | Restrict \<Rightarrow>
              try_do (lift_result (check_restrict X node_id label s)) (\<lambda>_.
                delete_node_labels X node_id labels count)
          | NoAction \<Rightarrow> delete_node_labels X node_id labels count))"

definition delete_edges_for_node :: "('ks, 'd) edge_env \<Rightarrow> string \<Rightarrow> ('ks, 'z, nat) edge_op" where
  "delete_edges_for_node X node_id =
     with_state (\<lambda>s. delete_node_labels X node_id (list_edge_types s) 0)"

definition queue_deletes :: "string \<Rightarrow> EdgeSchema \<Rightarrow> Edge list \<Rightarrow> tx \<Rightarrow> tx" where
  "queue_deletes ks sch edges tx =
     fold (\<lambda>e tx. delete_edge_keys_in_tx tx ks sch (edge_from e) (edge_to e) (nanoid e)) edges tx"

fun delete_node_labels_in_tx ::
  "('ks, 'd) edge_env \<Rightarrow> string \<Rightarrow> string list \<Rightarrow> ('ks, 'z) edge_store_scheme \<Rightarrow> tx \<times> nat \<Rightarrow> StorageError + tx \<times> nat" where
  "delete_node_labels_in_tx X node_id [] s acc = Inr acc"
| "delete_node_labels_in_tx X node_id (label # labels) s (tx, count) =
     (case get_schema s label of
        None \<Rightarrow> delete_node_labels_in_tx X node_id labels s (tx, count)
      | Some sch \<Rightarrow>
          if es_on_delete sch \<noteq> Cascade then delete_node_labels_in_tx X node_id labels s (tx, count)
          else
            and_then (get_keyspace label s) (\<lambda>ks.
            and_then (list_out X node_id label None usize_max s) (\<lambda>(out_edges, _).
            and_then (list_in X node_id label None usize_max s) (\<lambda>(in_edges, _).
              delete_node_labels_in_tx X node_id labels s
                (queue_deletes ks sch in_edges (queue_deletes ks sch out_edges tx),
                 count + length out_edges + length in_edges)))))"

definition delete_edges_for_node_in_tx ::
  "('ks, 'd) edge_env \<Rightarrow> tx \<Rightarrow> string \<Rightarrow> ('ks, 'z) edge_store_scheme \<Rightarrow> StorageError + tx \<times> nat" where
  "delete_edges_for_node_in_tx X tx node_id s =
     delete_node_labels_in_tx X node_id (list_edge_types s) s (tx, 0)"

end
