(* ===== verification/Btree_Index.thy ===== *)
theory Btree_Index
  imports Keyspace
begin

text \<open>
  \<open>storage/indexes/btree.rs\<close> and the types of \<open>storage/indexes/traits.rs\<close>: the B-tree index
  over a keyspace of the engine. Every definition takes the crates (\<open>L\<close>) and the engine (\<open>F\<close>);
  the lemmas about them are proved from the laws of the engine, in the locale \<open>keyspace\<close>.
\<close>

section \<open>Types\<close>

record ScanResult =
  doc_ids :: "string list"
  exceeded_limit :: bool

definition scan_result_empty :: ScanResult where
  "scan_result_empty = \<lparr>doc_ids = [], exceeded_limit = False\<rparr>"

datatype RangeOp =
    Gt | Gte | Lt | Lte
  | Between (between_lower: Value) (between_upper: Value)
      (lower_inclusive: bool) (upper_inclusive: bool)

definition range_op_from_str :: "string \<Rightarrow> RangeOp option" where
  "range_op_from_str op =
     (if op = ''gt'' then Some Gt
      else if op = ''gte'' then Some Gte
      else if op = ''lt'' then Some Lt
      else if op = ''lte'' then Some Lte
      else None)"

definition range_op_as_str :: "RangeOp \<Rightarrow> string" where
  "range_op_as_str op =
     (case op of Gt \<Rightarrow> ''gt'' | Gte \<Rightarrow> ''gte'' | Lt \<Rightarrow> ''lt'' | Lte \<Rightarrow> ''lte''
      | Between _ _ _ _ \<Rightarrow> ''between'')"

section \<open>Index entries\<close>

text \<open>Descend through objects along the segments of a path.\<close>

fun walk_path :: "Value \<Rightarrow> string list \<Rightarrow> Value option" where
  "walk_path v [] = Some v"
| "walk_path v (s # ss) =
     (case v of
        VObject m \<Rightarrow> (case hm_get m s of None \<Rightarrow> None | Some w \<Rightarrow> walk_path w ss)
      | _ \<Rightarrow> None)"

definition resolve_field_value :: "fields \<Rightarrow> string \<Rightarrow> Value option" where
  "resolve_field_value fs path =
     (case split_once (CHR ''.'') path of
        None \<Rightarrow> hm_get fs path
      | Some (root, rest) \<Rightarrow>
          (case hm_get fs root of
             None \<Rightarrow> None
           | Some v \<Rightarrow> walk_path v (split_str (CHR ''.'') rest)))"

definition index_field_value :: "document \<Rightarrow> string \<Rightarrow> Value option" where
  "index_field_value doc field =
     (if field = ''id'' then Some (VString (doc_id doc))
      else if CHR ''.'' \<in> set field then resolve_field_value (doc_fields doc) field
      else hm_get (doc_fields doc) field)"

text \<open>All fields, or nothing when one is missing.\<close>

fun index_field_values :: "document \<Rightarrow> string list \<Rightarrow> Value list option" where
  "index_field_values doc [] = Some []"
| "index_field_values doc (f # fs) =
     (case index_field_value doc f of
        None \<Rightarrow> None
      | Some v \<Rightarrow> map_option (\<lambda>vs. v # vs) (index_field_values doc fs))"

definition build_index_key :: "'d libs \<Rightarrow> document \<Rightarrow> string list \<Rightarrow> bytes option" where
  "build_index_key L doc fs =
     (case index_field_values doc fs of
        None \<Rightarrow> None
      | Some vs \<Rightarrow> Some (encode_index_key L vs (key doc)))"

definition index_document ::
  "'d libs \<Rightarrow> 'ks fjall \<Rightarrow> string list \<Rightarrow> document \<Rightarrow> 'ks \<Rightarrow> StorageError + 'ks" where
  "index_document L F fs doc ks =
     (case build_index_key L doc fs of
        Some index_key \<Rightarrow> ks_insert F index_key [] ks
      | None \<Rightarrow> Inr ks)"

definition update_document ::
  "'d libs \<Rightarrow> 'ks fjall \<Rightarrow> string list \<Rightarrow> document option \<Rightarrow> document option \<Rightarrow> 'ks \<Rightarrow> StorageError + 'ks"
where
  "update_document L F fs old_doc new_doc ks =
     and_then
       (case Option.bind old_doc (\<lambda>d. build_index_key L d fs) of
          Some old_key \<Rightarrow> ks_remove F old_key ks
        | None \<Rightarrow> Inr ks)
       (\<lambda>ks'. case Option.bind new_doc (\<lambda>d. build_index_key L d fs) of
          Some new_key \<Rightarrow> ks_insert F new_key [] ks'
        | None \<Rightarrow> Inr ks')"

text \<open>\<open>update_in_tx\<close> queues the same two writes in a transaction; a write is a key and the
  value it gets, none for a removal.\<close>

definition update_in_tx ::
  "'d libs \<Rightarrow> string list \<Rightarrow> document option \<Rightarrow> document option \<Rightarrow> (bytes \<times> bytes option) list" where
  "update_in_tx L fs old_doc new_doc =
     (case Option.bind old_doc (\<lambda>d. build_index_key L d fs) of
        Some old_key \<Rightarrow> [(old_key, None)]
      | None \<Rightarrow> []) @
     (case Option.bind new_doc (\<lambda>d. build_index_key L d fs) of
        Some new_key \<Rightarrow> [(new_key, Some [])]
      | None \<Rightarrow> [])"

section \<open>Scans\<close>

text \<open>The loop of the scans: the keys that pass the boundary check and hold a document key are
  collected until there are more than \<open>limit\<close>.\<close>

fun scan_loop ::
  "nat \<Rightarrow> (bytes \<Rightarrow> bool) \<Rightarrow> ks_item list \<Rightarrow> string list \<Rightarrow> StorageError + ScanResult" where
  "scan_loop limit check [] ids = Inr \<lparr>doc_ids = ids, exceeded_limit = False\<rparr>"
| "scan_loop limit check (item # items) ids =
     and_then item (\<lambda>(k, _).
       if check k then
         (case extract_doc_key k of
            None \<Rightarrow> scan_loop limit check items ids
          | Some i \<Rightarrow>
              if limit < length (ids @ [i])
              then Inr \<lparr>doc_ids = ids @ [i], exceeded_limit = True\<rparr>
              else scan_loop limit check items (ids @ [i]))
       else scan_loop limit check items ids)"

text \<open>The comparison of the part of a key before its last 0xFF; a key without one is skipped.\<close>

definition key_value_check :: "(bytes \<Rightarrow> bool) \<Rightarrow> bytes \<Rightarrow> bool" where
  "key_value_check p k =
     (case rposition (\<lambda>b. b = 0xFF) k of
        None \<Rightarrow> False
      | Some separator_pos \<Rightarrow> p (take separator_pos k))"

definition scan_eq ::
  "'d libs \<Rightarrow> 'ks fjall \<Rightarrow> 'ks \<Rightarrow> Value \<Rightarrow> nat \<Rightarrow> StorageError + ScanResult" where
  "scan_eq L F ks v limit =
     scan_loop limit (\<lambda>_. True) (ks_prefix F (encode_index_prefix L [v]) ks) []"

definition scan_range_between ::
  "'d libs \<Rightarrow> 'ks fjall \<Rightarrow> 'ks \<Rightarrow> Value \<Rightarrow> bool \<Rightarrow> Value \<Rightarrow> bool \<Rightarrow> nat \<Rightarrow> StorageError + ScanResult"
where
  "scan_range_between L F ks lower lower_incl upper upper_incl limit =
     (let lower_encoded = encode_value_with_delimiter L lower;
          upper_encoded = encode_value_with_delimiter L upper;
          range_end = (if upper_incl then byte_successor upper_encoded else upper_encoded)
      in scan_loop limit
           (key_value_check (\<lambda>kv. if lower_incl then True else lower_encoded < kv))
           (ks_range F (Some lower_encoded) (Some range_end) ks) [])"

definition scan_range ::
  "'d libs \<Rightarrow> 'ks fjall \<Rightarrow> 'ks \<Rightarrow> RangeOp \<Rightarrow> Value \<Rightarrow> nat \<Rightarrow> StorageError + ScanResult" where
  "scan_range L F ks op v limit =
     (let query_encoded = encode_value_with_delimiter L v in
      case op of
        Between lower upper li ui \<Rightarrow> scan_range_between L F ks lower li upper ui limit
      | Gt \<Rightarrow> scan_loop limit (key_value_check (\<lambda>kv. query_encoded < kv))
               (ks_range F (Some query_encoded) None ks) []
      | Gte \<Rightarrow> scan_loop limit (key_value_check (\<lambda>_. True))
               (ks_range F (Some query_encoded) None ks) []
      | Lt \<Rightarrow> scan_loop limit (key_value_check (\<lambda>_. True))
               (ks_range F None (Some query_encoded) ks) []
      | Lte \<Rightarrow> scan_loop limit (key_value_check (\<lambda>_. True))
               (ks_range F None (Some (byte_successor query_encoded)) ks) [])"

definition scan_compound_eq ::
  "'d libs \<Rightarrow> 'ks fjall \<Rightarrow> 'ks \<Rightarrow> (string \<times> Value) list \<Rightarrow> nat \<Rightarrow> StorageError + ScanResult" where
  "scan_compound_eq L F ks field_values limit =
     scan_loop limit (\<lambda>_. True) (ks_prefix F (encode_index_prefix L (map snd field_values)) ks) []"

section \<open>The scan loop\<close>

definition scan_ids :: "(bytes \<Rightarrow> bool) \<Rightarrow> bytes list \<Rightarrow> string list" where
  "scan_ids check ks =
     concat (map (\<lambda>k. if check k then (case extract_doc_key k of None \<Rightarrow> [] | Some i \<Rightarrow> [i]) else []) ks)"

lemma scan_loop_spec:
  assumes "yields items kvs" "length ids \<le> limit" "scan_loop limit check items ids = Inr r"
  shows "doc_ids r = take (Suc limit) (ids @ scan_ids check (map fst kvs)) \<and>
    exceeded_limit r = (limit < length (ids @ scan_ids check (map fst kvs)))"
  using assms
proof (induction items arbitrary: ids kvs)
  case Nil
  then show ?case by (auto simp: yields_simps scan_ids_def)
next
  case (Cons item items)
  then obtain k v where item: "item = Inr (k, v)" by (cases item) auto
  then obtain kvs' where kvs: "kvs = (k, v) # kvs'" and y: "yields items kvs'"
    using Cons.prems(1) by (auto simp: yields_simps)
  show ?case
  proof (cases "check k \<and> extract_doc_key k \<noteq> None")
    case False
    then have "scan_loop limit check items ids = Inr r"
      using Cons.prems(3) item by (auto split: option.splits)
    from Cons.IH [OF y Cons.prems(2) this] show ?thesis
      using False by (auto simp: kvs scan_ids_def)
  next
    case True
    then obtain i where i: "extract_doc_key k = Some i" "check k" by auto
    have all: "ids @ scan_ids check (map fst kvs) = (ids @ [i]) @ scan_ids check (map fst kvs')"
      using i by (simp add: kvs scan_ids_def)
    show ?thesis
    proof (cases "limit < length (ids @ [i])")
      case True
      then have "limit = length ids" using Cons.prems(2) by simp
      then show ?thesis using Cons.prems(3) i item unfolding all by auto
    next
      case False
      then have "scan_loop limit check items (ids @ [i]) = Inr r"
        using Cons.prems(3) i item by simp
      from Cons.IH [OF y _ this] False show ?thesis unfolding all by simp
    qed
  qed
qed

section \<open>Single-field indexes\<close>

text \<open>A keyspace that indexes a set of pairs of a value and a document key.\<close>

definition index_of :: "'d libs \<Rightarrow> (Value \<times> string) set \<Rightarrow> (bytes \<rightharpoonup> bytes) \<Rightarrow> bool" where
  "index_of L E m \<longleftrightarrow>
     dom m = (\<lambda>(w, k). encode_index_key L [w] k) ` E \<and>
     (\<forall>(w, k)\<in>E. encodable L w \<and> utf8_valid (as_bytes k))"

lemma encode_index_key_single: "encode_index_key L [w] k = encode_value_ordered L w @ 0xFF # as_bytes k"
  by (simp add: encode_index_key_def encode_value_with_delimiter_def)

lemma key_value_check_encoded:
  assumes "utf8_valid (as_bytes k)"
  shows "key_value_check p (encode_index_key L [w] k) = p (encode_value_ordered L w)"
proof -
  have "rposition (\<lambda>b. b = 0xFF) (encode_value_ordered L w @ 0xFF # as_bytes k)
      = Some (length (encode_value_ordered L w))"
    using utf8_valid_no_FF [OF assms] by (intro rposition_append_last) auto
  then show ?thesis by (simp add: key_value_check_def encode_index_key_single)
qed

lemma encoded_key_inj:
  assumes "encodable L w" "encodable L w'" "encode_index_key L [w] k = encode_index_key L [w'] k'"
  shows "encode_value_ordered L w = encode_value_ordered L w' \<and> k = k'"
  using encode_value_prefix_free [OF assms(1,2), of "0xFF # as_bytes k" "0xFF # as_bytes k'"] assms(3)
  by (simp add: encode_index_key_single)

lemma scan_ids_index:
  assumes idx: "index_of L E m" and fin: "finite (dom m)"
    and check: "\<And>w k. (w, k) \<in> E \<Longrightarrow> check (encode_index_key L [w] k) = q (encode_value_ordered L w)"
  shows "set (scan_ids check (map fst (entries m P))) =
      {k. \<exists>w. (w, k) \<in> E \<and> P (encode_index_key L [w] k) \<and> q (encode_value_ordered L w)}"
proof -
  have "set (map fst (entries m P)) = {b \<in> dom m. P b}"
    using fin by (simp add: map_fst_entries)
  also have "\<dots> = {encode_index_key L [w] k | w k. (w, k) \<in> E \<and> P (encode_index_key L [w] k)}"
    using idx by (auto simp: index_of_def)
  finally have keys: "set (map fst (entries m P)) =
      {encode_index_key L [w] k | w k. (w, k) \<in> E \<and> P (encode_index_key L [w] k)}" .
  have ex: "extract_doc_key (encode_index_key L [w] k) = Some k" if "(w, k) \<in> E" for w k
    using idx that by (auto simp: index_of_def intro: extract_encoded_doc_key)
  define f where "f b = (if check b then (case extract_doc_key b of None \<Rightarrow> [] | Some i \<Rightarrow> [i]) else [])" for b
  have f: "f (encode_index_key L [w] k) = (if q (encode_value_ordered L w) then [k] else [])"
    if "(w, k) \<in> E" for w k
    by (simp add: f_def ex [OF that] check [OF that])
  have "scan_ids check bs = concat (map f bs)" for bs
    unfolding scan_ids_def f_def ..
  then have "set (scan_ids check (map fst (entries m P))) = (\<Union>b\<in>set (map fst (entries m P)). set (f b))"
    by simp
  also have "\<dots> = (\<Union>(w, k)\<in>{(w, k) \<in> E. P (encode_index_key L [w] k)}. set (f (encode_index_key L [w] k)))"
    unfolding keys by blast
  also have "\<dots> = {k. \<exists>w. (w, k) \<in> E \<and> P (encode_index_key L [w] k) \<and> q (encode_value_ordered L w)}"
    using f by fastforce
  finally show ?thesis .
qed

section \<open>Exactness of the scans\<close>

lemma encode_nonempty: "encode_value_ordered L v \<noteq> []"
  by (cases v) simp_all

lemma key_less_encoded:
  assumes "encodable L w" "encodable L v"
  shows "encode_index_key L [w] k < encode_value_ordered L v \<longleftrightarrow>
    encode_value_ordered L w < encode_value_ordered L v"
proof
  assume lt: "encode_index_key L [w] k < encode_value_ordered L v"
  show "encode_value_ordered L w < encode_value_ordered L v"
  proof (rule ccontr)
    assume "\<not> ?thesis"
    then consider "encode_value_ordered L v < encode_value_ordered L w"
      | "encode_value_ordered L v = encode_value_ordered L w" by fastforce
    then have "encode_value_ordered L v \<le> encode_index_key L [w] k"
    proof cases
      case 1
      then show ?thesis
        using encode_prefix_free_less [OF assms(2,1), of "[]" "0xFF # as_bytes k"]
        by (simp add: encode_index_key_single less_imp_le)
    qed (simp add: encode_index_key_single)
    with lt show False by simp
  qed
next
  assume "encode_value_ordered L w < encode_value_ordered L v"
  then show "encode_index_key L [w] k < encode_value_ordered L v"
    using encode_prefix_free_less [OF assms, of "0xFF # as_bytes k" "[]"]
    by (simp add: encode_index_key_single)
qed

lemma key_has_prefix:
  assumes "encodable L w" "encodable L v"
  shows "has_prefix (encode_value_ordered L v) (encode_index_key L [w] k) \<longleftrightarrow>
    encode_value_ordered L w = encode_value_ordered L v"
proof
  assume "has_prefix (encode_value_ordered L v) (encode_index_key L [w] k)"
  then obtain r where "encode_value_ordered L w @ 0xFF # as_bytes k = encode_value_ordered L v @ r"
    by (auto simp: has_prefix_iff encode_index_key_single)
  then show "encode_value_ordered L w = encode_value_ordered L v"
    using encode_value_prefix_free [OF assms] by blast
qed (auto simp: has_prefix_iff encode_index_key_single)

lemma key_less_successor:
  assumes "encodable L w" "encodable L v" "\<exists>x\<in>set (encode_value_ordered L v). x \<noteq> 0xFF"
  shows "encode_index_key L [w] k < byte_successor (encode_value_ordered L v) \<longleftrightarrow>
    encode_value_ordered L w \<le> encode_value_ordered L v"
proof -
  let ?k = "encode_index_key L [w] k"
  let ?v = "encode_value_ordered L v"
  have "?v < byte_successor ?v"
    using byte_successor_range [OF assms(3), of ?v] by auto
  then have "?k < byte_successor ?v \<longleftrightarrow> ?k < ?v \<or> (?v \<le> ?k \<and> ?k < byte_successor ?v)"
    by (metis less_trans not_le)
  also have "\<dots> \<longleftrightarrow> encode_value_ordered L w < ?v \<or> encode_value_ordered L w = ?v"
    using key_less_encoded [OF assms(1,2)] byte_successor_range [OF assms(3), of ?k]
      key_has_prefix [OF assms(1,2)] by (simp add: has_prefix_iff)
  finally show ?thesis by (simp add: le_less)
qed

text \<open>What a range operator selects, on encodings.\<close>

definition op_selects :: "'d libs \<Rightarrow> RangeOp \<Rightarrow> Value \<Rightarrow> Value \<Rightarrow> bool" where
  "op_selects L op v w =
     (let e = encode_value_ordered L in
      case op of
        Gt \<Rightarrow> e v < e w
      | Gte \<Rightarrow> e v \<le> e w
      | Lt \<Rightarrow> e w < e v
      | Lte \<Rightarrow> e w \<le> e v
      | Between l u li ui \<Rightarrow>
          (if li then e l \<le> e w else e l < e w) \<and> (if ui then e w \<le> e u else e w < e u))"

text \<open>The bound that \<open>byte_successor\<close> closes is not a string of 0xFF bytes.\<close>

definition closable :: "'d libs \<Rightarrow> Value \<Rightarrow> bool" where
  "closable L v = (encodable L v \<and> (\<exists>x\<in>set (encode_value_ordered L v). x \<noteq> 0xFF))"

definition scannable :: "'d libs \<Rightarrow> RangeOp \<Rightarrow> Value \<Rightarrow> bool" where
  "scannable L op v =
     (case op of
        Lte \<Rightarrow> closable L v
      | Between l u _ ui \<Rightarrow> encodable L l \<and> encodable L u \<and> (ui \<longrightarrow> closable L u)
      | _ \<Rightarrow> encodable L v)"

lemma closable_scalar: "type_name v \<noteq> ''array'' \<Longrightarrow> type_name v \<noteq> ''object'' \<Longrightarrow> encodable L v \<Longrightarrow> closable L v"
  by (cases v) (auto simp: closable_def type_name_def tag_defs)

text \<open>A scan that reports no overflow returns exactly the selected documents; one that does
  returns \<open>limit + 1\<close> of them.\<close>

definition scan_exact :: "ScanResult \<Rightarrow> nat \<Rightarrow> string set \<Rightarrow> bool" where
  "scan_exact r limit S \<longleftrightarrow>
     set (doc_ids r) \<subseteq> S \<and>
     (if exceeded_limit r then length (doc_ids r) = limit + 1 else set (doc_ids r) = S)"

lemma scan_loop_exact:
  assumes "index_of L E m" "finite (dom m)" "yields items (entries m P)"
    and "\<And>w k. (w, k) \<in> E \<Longrightarrow> check (encode_index_key L [w] k) = q (encode_value_ordered L w)"
    and "scan_loop limit check items [] = Inr r"
    and "\<And>w k. (w, k) \<in> E \<Longrightarrow> P (encode_index_key L [w] k) \<and> q (encode_value_ordered L w) \<longleftrightarrow> sel w"
  shows "scan_exact r limit {k. \<exists>w. (w, k) \<in> E \<and> sel w}"
proof -
  let ?all = "scan_ids check (map fst (entries m P))"
  have "set ?all = {k. \<exists>w. (w, k) \<in> E \<and> P (encode_index_key L [w] k) \<and> q (encode_value_ordered L w)}"
    by (rule scan_ids_index [OF assms(1,2)]) (rule assms(4))
  also have "\<dots> = {k. \<exists>w. (w, k) \<in> E \<and> sel w}" using assms(6) by blast
  finally have set: "set ?all = {k. \<exists>w. (w, k) \<in> E \<and> sel w}" .
  have "doc_ids r = take (Suc limit) ?all" "exceeded_limit r = (limit < length ?all)"
    using scan_loop_spec [OF assms(3) _ assms(5)] by auto
  then show ?thesis
    using set set_take_subset [of "Suc limit" ?all] by (auto simp: scan_exact_def)
qed

context keyspace
begin

lemma scan_eq_exact:
  assumes "index_of L E (content ks)" "encodable L v" "scan_eq L F ks v limit = Inr r"
  shows "scan_exact r limit {k. \<exists>w. (w, k) \<in> E \<and> encode_value_ordered L w = encode_value_ordered L v}"
proof (rule scan_loop_exact [OF assms(1) content_finite prefix_yields])
  show "scan_loop limit (\<lambda>_. True) (ks_prefix F (encode_index_prefix L [v]) ks) [] = Inr r"
    using assms(3) by (simp add: scan_eq_def)
  show "True = True" for w and k :: string by simp
  show "has_prefix (encode_index_prefix L [v]) (encode_index_key L [w] k) \<and> True \<longleftrightarrow>
      encode_value_ordered L w = encode_value_ordered L v" if "(w, k) \<in> E" for w k
    using assms(1,2) that
    by (auto simp: index_of_def encode_index_prefix_Cons key_has_prefix) (auto simp: encode_index_prefix_def key_has_prefix)
qed

lemma scan_between_exact:
  assumes "index_of L E (content ks)" "scannable L (Between l u li ui) v"
    and "scan_range_between L F ks l li u ui limit = Inr r"
  shows "scan_exact r limit {k. \<exists>w. (w, k) \<in> E \<and> op_selects L (Between l u li ui) v w}"
  using assms(3) unfolding scan_range_between_def Let_def encode_value_with_delimiter_def
proof (rule scan_loop_exact [OF assms(1) content_finite range_yields, rotated])
  fix w k
  assume E: "(w, k) \<in> E"
  then have w: "encodable L w" "utf8_valid (as_bytes k)" using assms(1) by (auto simp: index_of_def)
  show "key_value_check (\<lambda>kv. if li then True else encode_value_ordered L l < kv) (encode_index_key L [w] k) =
      (if li then True else encode_value_ordered L l < encode_value_ordered L w)"
    by (subst key_value_check_encoded [OF w(2)]) (rule refl)
  show "in_range (Some (encode_value_ordered L l))
          (Some (if ui then byte_successor (encode_value_ordered L u) else encode_value_ordered L u))
          (encode_index_key L [w] k) \<and> (if li then True else encode_value_ordered L l < encode_value_ordered L w)
      \<longleftrightarrow> op_selects L (Between l u li ui) v w"
    using assms(2) key_less_encoded [OF w(1), of l k] key_less_encoded [OF w(1), of u k]
      key_less_successor [OF w(1), of u k]
    by (auto simp: in_range_def op_selects_def scannable_def closable_def not_less [symmetric] Let_def)
qed

lemma scan_range_exact:
  assumes idx: "index_of L E (content ks)" and op: "scannable L op v"
    and scan: "scan_range L F ks op v limit = Inr r"
  shows "scan_exact r limit {k. \<exists>w. (w, k) \<in> E \<and> op_selects L op v w}"
proof (cases "\<exists>l u li ui. op = Between l u li ui")
  case True
  then show ?thesis using scan_between_exact [OF idx] op scan by (auto simp: scan_range_def Let_def)
next
  case False
  have w: "encodable L w" "utf8_valid (as_bytes k)" if "(w, k) \<in> E" for w k
    using idx that by (auto simp: index_of_def)
  have loop: "scan_exact r limit {k. \<exists>w. (w, k) \<in> E \<and> op_selects L op v w}"
    if "scan_loop limit (key_value_check q) (ks_range F lo hi ks) [] = Inr r"
      and "\<And>w k. (w, k) \<in> E \<Longrightarrow>
        in_range lo hi (encode_index_key L [w] k) \<and> q (encode_value_ordered L w) \<longleftrightarrow> op_selects L op v w"
    for q lo hi
    by (rule scan_loop_exact [OF idx content_finite range_yields _ that(1), where q = q])
      (use that(2) w in \<open>auto simp: key_value_check_encoded\<close>)
  note defs = scan_range_def Let_def encode_value_with_delimiter_def
  note sel = in_range_def op_selects_def not_less [symmetric]
  show ?thesis
  proof (cases op)
    case Gt
    show ?thesis
      by (rule loop [of "\<lambda>kv. encode_value_ordered L v < kv" "Some (encode_value_ordered L v)" None])
        (use Gt scan op w in \<open>auto simp: defs sel scannable_def key_less_encoded\<close>)
  next
    case Gte
    show ?thesis
      by (rule loop [of "\<lambda>_. True" "Some (encode_value_ordered L v)" None])
        (use Gte scan op w in \<open>auto simp: defs sel scannable_def key_less_encoded\<close>)
  next
    case Lt
    show ?thesis
      by (rule loop [of "\<lambda>_. True" None "Some (encode_value_ordered L v)"])
        (use Lt scan op w in \<open>auto simp: defs sel scannable_def key_less_encoded\<close>)
  next
    case Lte
    show ?thesis
      by (rule loop [of "\<lambda>_. True" None "Some (byte_successor (encode_value_ordered L v))"])
        (use Lte scan op w in \<open>auto simp: defs in_range_def op_selects_def scannable_def closable_def
          key_less_successor\<close>)
  qed (use False in blast)
qed

end

section \<open>Index maintenance\<close>

definition apply_write :: "bytes \<times> bytes option \<Rightarrow> (bytes \<rightharpoonup> bytes) \<Rightarrow> (bytes \<rightharpoonup> bytes)" where
  "apply_write w m = m(fst w := snd w)"

text \<open>The index holds one entry per document that has all the indexed fields.\<close>

definition reflects :: "'d libs \<Rightarrow> string list \<Rightarrow> document set \<Rightarrow> (bytes \<rightharpoonup> bytes) \<Rightarrow> bool" where
  "reflects L fs docs m \<longleftrightarrow> dom m = {b. \<exists>d\<in>docs. build_index_key L d fs = Some b}"

text \<open>Documents of a collection: well-formed keys, each used once.\<close>

definition keyed :: "document set \<Rightarrow> bool" where
  "keyed docs \<longleftrightarrow> inj_on key docs \<and> (\<forall>d\<in>docs. utf8_valid (as_bytes (key d)))"

lemma build_index_key_doc_key:
  assumes "build_index_key L d fs = Some b" "utf8_valid (as_bytes (key d))"
  shows "extract_doc_key b = Some (key d)"
  using assms by (auto simp: build_index_key_def split: option.splits intro: extract_encoded_doc_key)

lemma reflects_update:
  assumes "reflects L fs docs m" "keyed docs"
    and "\<And>d. old = Some d \<Longrightarrow> d \<in> docs"
  shows "reflects L fs (docs - set_option old \<union> set_option new)
    (fold apply_write (update_in_tx L fs old new) m)"
proof -
  let ?o = "Option.bind old (\<lambda>d. build_index_key L d fs)"
  let ?n = "Option.bind new (\<lambda>d. build_index_key L d fs)"
  have dom: "dom (fold apply_write (update_in_tx L fs old new) m) = dom m - set_option ?o \<union> set_option ?n"
    by (cases "?o"; cases "?n"; simp add: update_in_tx_def apply_write_def)
  have "dom m - set_option ?o = {b. \<exists>d\<in>docs - set_option old. build_index_key L d fs = Some b}"
  proof (intro set_eqI iffI)
    fix b assume b: "b \<in> dom m - set_option ?o"
    then obtain d where "d \<in> docs" "build_index_key L d fs = Some b"
      using assms(1) by (auto simp: reflects_def)
    with b show "b \<in> {b. \<exists>d\<in>docs - set_option old. build_index_key L d fs = Some b}"
      by (cases old) auto
  next
    fix b assume "b \<in> {b. \<exists>d\<in>docs - set_option old. build_index_key L d fs = Some b}"
    then obtain d where d: "d \<in> docs" "d \<notin> set_option old" "build_index_key L d fs = Some b" by auto
    have "b \<notin> set_option ?o"
    proof
      assume "b \<in> set_option ?o"
      then obtain d' where d': "old = Some d'" "build_index_key L d' fs = Some b" by (cases old) auto
      then have "key d = key d'"
        using build_index_key_doc_key [OF d(3)] build_index_key_doc_key [OF d'(2)] d(1) assms(2,3)
        by (auto simp: keyed_def)
      then show False using d d'(1) assms(2,3) by (auto simp: keyed_def inj_on_def)
    qed
    with d assms(1) show "b \<in> dom m - set_option ?o" by (auto simp: reflects_def)
  qed
  moreover have "set_option ?n = {b. \<exists>d\<in>set_option new. build_index_key L d fs = Some b}"
    by (cases new) auto
  ultimately show ?thesis unfolding reflects_def dom by blast
qed

context keyspace
begin

lemma update_document_writes:
  assumes "update_document L F fs old new ks = Inr ks'"
  shows "content ks' = fold apply_write (update_in_tx L fs old new) (content ks)"
proof -
  let ?o = "Option.bind old (\<lambda>d. build_index_key L d fs)"
  let ?n = "Option.bind new (\<lambda>d. build_index_key L d fs)"
  obtain ks1 where 1: "(case ?o of Some k \<Rightarrow> ks_remove F k ks | None \<Rightarrow> Inr ks) = Inr ks1"
    and 2: "(case ?n of Some k \<Rightarrow> ks_insert F k [] ks1 | None \<Rightarrow> Inr ks1) = Inr ks'"
    using assms by (auto simp: update_document_def and_then_Inr_iff)
  from 1 have "content ks1 = (case ?o of Some k \<Rightarrow> (content ks)(k := None) | None \<Rightarrow> content ks)"
    by (auto simp: remove_content split: option.splits)
  moreover from 2 have "content ks' = (case ?n of Some k \<Rightarrow> (content ks1)(k \<mapsto> []) | None \<Rightarrow> content ks1)"
    by (auto simp: insert_content split: option.splits)
  ultimately show ?thesis
    by (auto simp: update_in_tx_def apply_write_def split: option.splits)
qed

lemma update_document_reflects:
  assumes "update_document L F fs old new ks = Inr ks'" "reflects L fs docs (content ks)"
    and "keyed docs" "\<And>d. old = Some d \<Longrightarrow> d \<in> docs"
  shows "reflects L fs (docs - set_option old \<union> set_option new) (content ks')"
  unfolding update_document_writes [OF assms(1)] using assms(2-4) by (intro reflects_update)

end

section \<open>Properties\<close>

text \<open>An equality scan of a single-field index that does not overflow its limit returns
  exactly the documents whose value has the key of the searched one, whatever the engine, as long
  as it keeps its contract.\<close>

theorem btree_scan_eq_exact:
  assumes "keyspace F content" "index_of L E (content ks)" "encodable L v"
    and "scan_eq L F ks v limit = Inr r"
  shows "scan_exact r limit {k. \<exists>w. (w, k) \<in> E \<and> encode_value_ordered L w = encode_value_ordered L v}"
  using assms by (rule keyspace.scan_eq_exact)

text \<open>A range scan (\<open>>\<close>, \<open>>=\<close>, \<open><\<close>, \<open><=\<close>, between) that does not overflow its limit returns
  exactly the documents whose key lies in the range.\<close>

theorem btree_scan_range_exact:
  assumes "keyspace F content" "index_of L E (content ks)" "scannable L op v"
    and "scan_range L F ks op v limit = Inr r"
  shows "scan_exact r limit {k. \<exists>w. (w, k) \<in> E \<and> op_selects L op v w}"
  using assms by (rule keyspace.scan_range_exact)

text \<open>C5: Updating a document keeps the index in step with the collection: afterwards it holds
  exactly one entry for every document that has the indexed fields.\<close>

theorem btree_update_keeps_index:
  assumes "keyspace F content" "update_document L F fs old new ks = Inr ks'"
    and "reflects L fs docs (content ks)" "keyed docs"
    and "set_option old \<subseteq> docs"
  shows "reflects L fs (docs - set_option old \<union> set_option new) (content ks')"
  using assms by (intro keyspace.update_document_reflects) auto

text \<open>A lower bound selects across types: every string lies above every integer, so an index
  scan for \<open>>= n\<close> also returns the documents whose field is a string.\<close>

theorem btree_gte_returns_strings:
  assumes "keyspace F content" "index_of L E (content ks)" "(VString s, k) \<in> E"
    and "scan_range L F ks Gte (VInt n) limit = Inr r" "\<not> exceeded_limit r"
  shows "k \<in> set (doc_ids r)"
proof -
  have "op_selects L Gte (VInt n) (VString s)"
    by (simp add: op_selects_def tag_defs less_imp_le)
  moreover have "scannable L Gte (VInt n)" by (simp add: scannable_def)
  ultimately show ?thesis
    using keyspace.scan_range_exact [OF assms(1,2) _ assms(4)] assms(3,5)
    by (auto simp: scan_exact_def)
qed

text \<open>Witnesses: a collection of two documents in the in-memory engine.\<close>

definition sample_index :: mem_ks where
  "sample_index = map (\<lambda>(w, k). (encode_index_key int_libs [w] k, []))
     [(VInt 20, ''a''), (VString ''x'', ''b''), (VInt 17, ''c'')]"

lemma sample_index_of:
  "index_of int_libs {(VInt 20, ''a''), (VString ''x'', ''b''), (VInt 17, ''c'')} (map_of sample_index)"
  by (auto simp: index_of_def sample_index_def dom_map_of_conv_image_fst utf8_next_def)

lemma mem_scan_loop_total: "\<exists>r. scan_loop n c (map Inr kvs) ids = Inr r"
  by (induction kvs arbitrary: ids) (auto split: option.splits)

lemma mem_scans_total:
  "\<exists>r. scan_eq L mem_fjall ks v n = Inr r"
  "\<exists>r. scan_range L mem_fjall ks op v n = Inr r"
  using mem_scan_loop_total
  by (simp add: scan_eq_def, cases op) (simp_all add: scan_range_def scan_range_between_def Let_def)

theorem btree_scan_eq_exact_witness:
  "\<exists>r. scan_eq int_libs mem_fjall sample_index (VInt 20) 10 = Inr r \<and>
     scan_exact r 10 {k. \<exists>w. (w, k) \<in> {(VInt 20, ''a''), (VString ''x'', ''b''), (VInt 17, ''c'')} \<and>
       encode_value_ordered int_libs w = encode_value_ordered int_libs (VInt 20)}"
proof -
  have "encodable int_libs (VInt 20)" by simp
  then show ?thesis
    using mem_scans_total(1) btree_scan_eq_exact [OF mem_keyspace sample_index_of] by blast
qed

theorem btree_scan_range_exact_witness:
  "\<exists>r. scan_range int_libs mem_fjall sample_index Lte (VInt 18) 10 = Inr r \<and>
     scan_exact r 10 {k. \<exists>w. (w, k) \<in> {(VInt 20, ''a''), (VString ''x'', ''b''), (VInt 17, ''c'')} \<and>
       op_selects int_libs Lte (VInt 18) w}"
proof -
  have "scannable int_libs Lte (VInt 18)" by (simp add: scannable_def closable_scalar type_name_def)
  then show ?thesis
    using mem_scans_total(2) btree_scan_range_exact [OF mem_keyspace sample_index_of] by blast
qed

lemma sample_gte: "scan_range int_libs mem_fjall sample_index Gte (VInt 18) 10 = Inr r \<Longrightarrow> \<not> exceeded_limit r"
proof -
  assume r: "scan_range int_libs mem_fjall sample_index Gte (VInt 18) 10 = Inr r"
  have len: "length (mem_filter P sample_index) \<le> 3" for P
  proof -
    have "length (remdups (filter P (map fst sample_index))) \<le> length (map fst sample_index)"
      by (meson length_filter_le length_remdups_leq order_trans)
    then show ?thesis by (simp add: mem_filter_def sample_index_def)
  qed
  have "length (scan_ids c ks) \<le> length ks" for c ks
  proof (induction ks)
    case (Cons k ks)
    then show ?case by (cases "extract_doc_key k") (auto simp: scan_ids_def)
  qed (simp add: scan_ids_def)
  from this [of "key_value_check (\<lambda>_. True)" "map fst (mem_filter (in_range (Some (encode_value_ordered int_libs (VInt 18))) None) sample_index)"]
    len [of "in_range (Some (encode_value_ordered int_libs (VInt 18))) None"]
  show ?thesis
    using scan_loop_spec [OF mem.range_yields, of "[]" 10 _ "Some (encode_value_ordered int_libs (VInt 18))" None sample_index] r
    by (auto simp: scan_range_def Let_def encode_value_with_delimiter_def mem_filter_entries)
qed

theorem btree_gte_returns_strings_witness:
  "\<exists>r. scan_range int_libs mem_fjall sample_index Gte (VInt 18) 10 = Inr r \<and> ''b'' \<in> set (doc_ids r)"
proof -
  obtain r where r: "scan_range int_libs mem_fjall sample_index Gte (VInt 18) 10 = Inr r"
    using mem_scans_total(2) by blast
  then show ?thesis
    using btree_gte_returns_strings [OF mem_keyspace sample_index_of, of "''x''" "''b''"] sample_gte by blast
qed

theorem btree_update_keeps_index_witness:
  "\<exists>ks'. update_document int_libs mem_fjall [''age''] (Some \<lparr>doc_id = ''u:a'', doc_fields = [(''age'', VInt 3)]\<rparr>)
      (Some \<lparr>doc_id = ''u:a'', doc_fields = [(''age'', VInt 4)]\<rparr>)
      [(the (build_index_key int_libs \<lparr>doc_id = ''u:a'', doc_fields = [(''age'', VInt 3)]\<rparr> [''age'']), [])] = Inr ks' \<and>
     reflects int_libs [''age''] {\<lparr>doc_id = ''u:a'', doc_fields = [(''age'', VInt 4)]\<rparr>} (map_of ks')"
proof -
  let ?d = "\<lparr>doc_id = ''u:a'', doc_fields = [(''age'', VInt 3)]\<rparr>" and ?e = "\<lparr>doc_id = ''u:a'', doc_fields = [(''age'', VInt 4)]\<rparr>"
  let ?ks = "[(the (build_index_key int_libs ?d [''age'']), [])]"
  obtain b c where b: "build_index_key int_libs ?d [''age''] = Some b" "build_index_key int_libs ?e [''age''] = Some c"
    by (simp add: build_index_key_def index_field_value_def)
  then obtain ks' where u: "update_document int_libs mem_fjall [''age''] (Some ?d) (Some ?e) ?ks = Inr ks'"
    by (simp add: update_document_def)
  have "reflects int_libs [''age''] ({?d} - set_option (Some ?d) \<union> set_option (Some ?e)) (map_of ks')"
    by (rule btree_update_keeps_index [OF mem_keyspace u])
      (use b(1) in \<open>auto simp: reflects_def keyed_def key_def utf8_next_def\<close>)
  with u show ?thesis by auto
qed

end
