(* ===== verification/Unique_Constraints.thy ===== *)
theory Unique_Constraints
  imports Btree_Index Schema_Types
begin

text \<open>
  \<open>storage/constraints/unique.rs\<close>: unique constraints as lock entries, one per unique index and
  value, owned by a document. The hash \<open>xxh3_128\<close> is the parameter \<open>hash\<close>.

  A failing call may already have changed the lock keyspace, so the operations return the
  keyspace together with the result.
\<close>

section \<open>Operations\<close>

fun join :: "string \<Rightarrow> string list \<Rightarrow> string" where
  "join sep [] = []"
| "join sep [s] = s"
| "join sep (s # ss) = s @ sep @ join sep ss"

text \<open>\<open>{:?}\<close> of a list of field names, which hold no character that it escapes.\<close>

definition debug_strings :: "string list \<Rightarrow> string" where
  "debug_strings fs =
     ''['' @ join '', '' (map (\<lambda>s. [CHR 0x22] @ s @ [CHR 0x22]) fs) @ '']''"

definition compute_unique_lock_key :: "'d libs \<Rightarrow> (bytes \<Rightarrow> bytes) \<Rightarrow> string \<Rightarrow> Value \<Rightarrow> bytes" where
  "compute_unique_lock_key L hash fs v = hash (as_bytes fs @ [0x00] @ encode_value_for_hash L v)"

definition unique_resolve_field_value :: "fields \<Rightarrow> string \<Rightarrow> Value option" where
  "unique_resolve_field_value fs path =
     (if path = ''id'' then None
      else case split_once (CHR ''.'') path of
        None \<Rightarrow> hm_get fs path
      | Some (root, rest) \<Rightarrow>
          (case hm_get fs root of
             None \<Rightarrow> None
           | Some v \<Rightarrow> walk_path v (split_str (CHR ''.'') rest)))"

definition get_field_value_for_index :: "document \<Rightarrow> string list \<Rightarrow> Value option" where
  "get_field_value_for_index doc fs =
     (if length fs = 1 then unique_resolve_field_value (doc_fields doc) (fs ! 0)
      else
        let vs = List.map_filter (unique_resolve_field_value (doc_fields doc)) fs
        in if length vs = length fs then Some (VArray vs) else None)"

definition claim_closure :: "bytes \<Rightarrow> bytes option \<Rightarrow> bytes option" where
  "claim_closure doc_key existing =
     (case existing of
        None \<Rightarrow> Some doc_key
      | Some v \<Rightarrow> if v = doc_key then Some doc_key else Some v)"

definition claim_lock_key ::
  "'d libs \<Rightarrow> (bytes \<Rightarrow> bytes) \<Rightarrow> 'ks fjall \<Rightarrow> string list \<Rightarrow> Value \<Rightarrow> string \<Rightarrow> 'ks \<Rightarrow> 'ks \<times> (StorageError + unit)"
where
  "claim_lock_key L hash F fs v doc_key ks =
     (let lock_key = compute_unique_lock_key L hash (join '','' fs) v;
          doc_key_bytes = as_bytes doc_key
      in case ks_fetch_update F lock_key (claim_closure doc_key_bytes) ks of
           Inl e \<Rightarrow> (ks, Inl e)
         | Inr (existing, ks') \<Rightarrow>
             let claimed = (case existing of None \<Rightarrow> True | Some w \<Rightarrow> w = doc_key_bytes)
             in if claimed then (ks', Inr ())
                else (ks', Inl (Conflict (''Unique constraint violation on '' @ debug_strings fs))))"

definition release_closure :: "bytes \<Rightarrow> bytes option \<Rightarrow> bytes option" where
  "release_closure doc_key existing =
     (case existing of
        None \<Rightarrow> None
      | Some v \<Rightarrow> if v = doc_key then None else Some v)"

definition release_lock_key ::
  "'d libs \<Rightarrow> (bytes \<Rightarrow> bytes) \<Rightarrow> 'ks fjall \<Rightarrow> string list \<Rightarrow> Value \<Rightarrow> string \<Rightarrow> 'ks \<Rightarrow> 'ks \<times> (StorageError + unit)"
where
  "release_lock_key L hash F fs v doc_key ks =
     (let lock_key = compute_unique_lock_key L hash (join '','' fs) v
      in case ks_fetch_update F lock_key (release_closure (as_bytes doc_key)) ks of
           Inl e \<Rightarrow> (ks, Inl e)
         | Inr (_, ks') \<Rightarrow> (ks', Inr ()))"

text \<open>Equality of optional values, as \<open>Option<Value>: PartialEq\<close>.\<close>

definition option_value_eq :: "Value option \<Rightarrow> Value option \<Rightarrow> bool" where
  "option_value_eq a b =
     (case (a, b) of (None, None) \<Rightarrow> True | (Some x, Some y) \<Rightarrow> value_eq x y | _ \<Rightarrow> False)"

text \<open>One iteration of the loop: claim the new key, then release the old one.\<close>

definition update_one_index ::
  "'d libs \<Rightarrow> (bytes \<Rightarrow> bytes) \<Rightarrow> 'ks fjall \<Rightarrow> IndexDef \<Rightarrow> document option \<Rightarrow> document option \<Rightarrow> 'ks
     \<Rightarrow> 'ks \<times> (StorageError + unit)"
where
  "update_one_index L hash F idx old_doc new_doc ks =
     (let new_value = Option.bind new_doc (\<lambda>d. get_field_value_for_index d (idx_fields idx));
          old_value = Option.bind old_doc (\<lambda>d. get_field_value_for_index d (idx_fields idx))
      in if option_value_eq new_value old_value then (ks, Inr ())
         else
           case (case new_value of
                   Some v \<Rightarrow> claim_lock_key L hash F (idx_fields idx) v (key (the new_doc)) ks
                 | None \<Rightarrow> (ks, Inr ())) of
             (ks1, Inl e) \<Rightarrow> (ks1, Inl e)
           | (ks1, Inr _) \<Rightarrow>
               (case old_value of
                  Some v \<Rightarrow> release_lock_key L hash F (idx_fields idx) v (key (the old_doc)) ks1
                | None \<Rightarrow> (ks1, Inr ())))"

fun update_indexes ::
  "'d libs \<Rightarrow> (bytes \<Rightarrow> bytes) \<Rightarrow> 'ks fjall \<Rightarrow> IndexDef list \<Rightarrow> document option \<Rightarrow> document option \<Rightarrow> 'ks
     \<Rightarrow> 'ks \<times> (StorageError + unit)"
where
  "update_indexes L hash F [] old_doc new_doc ks = (ks, Inr ())"
| "update_indexes L hash F (idx # idxs) old_doc new_doc ks =
     (case update_one_index L hash F idx old_doc new_doc ks of
        (ks', Inl e) \<Rightarrow> (ks', Inl e)
      | (ks', Inr _) \<Rightarrow> update_indexes L hash F idxs old_doc new_doc ks')"

definition validate_and_update ::
  "'d libs \<Rightarrow> (bytes \<Rightarrow> bytes) \<Rightarrow> 'ks fjall \<Rightarrow> IndexDef list \<Rightarrow> document option \<Rightarrow> document option \<Rightarrow> 'ks
     \<Rightarrow> 'ks \<times> (StorageError + unit)"
where
  "validate_and_update L hash F indexes old_doc new_doc ks =
     (let unique_indexes = filter idx_unique indexes
      in if unique_indexes = [] then (ks, Inr ())
         else update_indexes L hash F unique_indexes old_doc new_doc ks)"

definition rollback_validate_and_update ::
  "'d libs \<Rightarrow> (bytes \<Rightarrow> bytes) \<Rightarrow> 'ks fjall \<Rightarrow> IndexDef list \<Rightarrow> document option \<Rightarrow> document option \<Rightarrow> 'ks \<Rightarrow> 'ks"
where
  "rollback_validate_and_update L hash F indexes old_doc new_doc ks =
     fst (validate_and_update L hash F indexes new_doc old_doc ks)"

fun release_indexes ::
  "'d libs \<Rightarrow> (bytes \<Rightarrow> bytes) \<Rightarrow> 'ks fjall \<Rightarrow> IndexDef list \<Rightarrow> document \<Rightarrow> 'ks \<Rightarrow> 'ks \<times> (StorageError + unit)"
where
  "release_indexes L hash F [] doc ks = (ks, Inr ())"
| "release_indexes L hash F (idx # idxs) doc ks =
     (case get_field_value_for_index doc (idx_fields idx) of
        None \<Rightarrow> release_indexes L hash F idxs doc ks
      | Some v \<Rightarrow>
          (case release_lock_key L hash F (idx_fields idx) v (key doc) ks of
             (ks', Inl e) \<Rightarrow> (ks', Inl e)
           | (ks', Inr _) \<Rightarrow> release_indexes L hash F idxs doc ks'))"

definition remove_for_document ::
  "'d libs \<Rightarrow> (bytes \<Rightarrow> bytes) \<Rightarrow> 'ks fjall \<Rightarrow> IndexDef list \<Rightarrow> document \<Rightarrow> 'ks \<Rightarrow> 'ks \<times> (StorageError + unit)"
where
  "remove_for_document L hash F indexes doc ks =
     release_indexes L hash F (filter idx_unique indexes) doc ks"

fun drop_loop ::
  "'d libs \<Rightarrow> (bytes \<Rightarrow> bytes) \<Rightarrow> 'ks fjall \<Rightarrow> IndexDef \<Rightarrow> (StorageError + document) list \<Rightarrow> 'ks
     \<Rightarrow> 'ks \<times> (StorageError + unit)"
where
  "drop_loop L hash F idx [] ks = (ks, Inr ())"
| "drop_loop L hash F idx (doc_result # docs) ks =
     (case doc_result of
        Inl e \<Rightarrow> (ks, Inl e)
      | Inr doc \<Rightarrow>
          (case get_field_value_for_index doc (idx_fields idx) of
             None \<Rightarrow> drop_loop L hash F idx docs ks
           | Some v \<Rightarrow>
               (case release_lock_key L hash F (idx_fields idx) v (key doc) ks of
                  (ks', Inl e) \<Rightarrow> (ks', Inl e)
                | (ks', Inr _) \<Rightarrow> drop_loop L hash F idx docs ks')))"

definition drop_for_index ::
  "'d libs \<Rightarrow> (bytes \<Rightarrow> bytes) \<Rightarrow> 'ks fjall \<Rightarrow> IndexDef \<Rightarrow> (StorageError + document) list \<Rightarrow> 'ks
     \<Rightarrow> 'ks \<times> (StorageError + unit)"
where
  "drop_for_index L hash F idx docs ks =
     (if \<not> idx_unique idx then (ks, Inr ()) else drop_loop L hash F idx docs ks)"

section \<open>Effect on the lock table\<close>

abbreviation lock_of :: "'d libs \<Rightarrow> (bytes \<Rightarrow> bytes) \<Rightarrow> IndexDef \<Rightarrow> Value \<Rightarrow> bytes" where
  "lock_of L hash idx v \<equiv> compute_unique_lock_key L hash (join '','' (idx_fields idx)) v"

abbreviation idx_value :: "IndexDef \<Rightarrow> document \<Rightarrow> Value option" where
  "idx_value idx d \<equiv> get_field_value_for_index d (idx_fields idx)"

context keyspace
begin

lemma claim_ok:
  assumes "claim_lock_key L hash F fs v k ks = (ks', Inr u)"
  shows "content ks' = (content ks)(compute_unique_lock_key L hash (join '','' fs) v \<mapsto> as_bytes k)"
    and "content ks (compute_unique_lock_key L hash (join '','' fs) v) \<in> {None, Some (as_bytes k)}"
  using assms fetch_update_content
  by (fastforce simp: claim_lock_key_def Let_def claim_closure_def split: sum.splits option.splits if_splits)+

lemma claim_err:
  assumes "claim_lock_key L hash F fs v k ks = (ks', Inl e)"
  shows "content ks' = content ks"
proof -
  have "content ks' = content ks"
    if "ks_fetch_update F lk (claim_closure (as_bytes k)) ks = Inr (existing, ks')"
      "existing \<noteq> None" "existing \<noteq> Some (as_bytes k)" for lk existing
    using fetch_update_content [OF that(1)] that(2,3)
    by (auto simp: claim_closure_def fun_upd_idem_iff)
  then show ?thesis
    using assms by (auto simp: claim_lock_key_def Let_def split: sum.splits option.splits if_splits)
qed

lemma release_ok:
  assumes "release_lock_key L hash F fs v k ks = (ks', Inr u)"
  shows "content ks' lk =
    (if lk = compute_unique_lock_key L hash (join '','' fs) v \<and> content ks lk = Some (as_bytes k)
     then None else content ks lk)"
  using assms fetch_update_content
  by (fastforce simp: release_lock_key_def Let_def release_closure_def split: sum.splits option.splits)

lemma release_err: "release_lock_key L hash F fs v k ks = (ks', Inl e) \<Longrightarrow> ks' = ks"
  by (auto simp: release_lock_key_def Let_def split: sum.splits)

end

section \<open>The lock invariant\<close>

text \<open>Every document owns the lock of each of its unique values.\<close>

definition locks_held ::
  "'d libs \<Rightarrow> (bytes \<Rightarrow> bytes) \<Rightarrow> IndexDef list \<Rightarrow> document set \<Rightarrow> (bytes \<rightharpoonup> bytes) \<Rightarrow> bool" where
  "locks_held L hash idxs docs m \<longleftrightarrow>
     (\<forall>idx\<in>set idxs. idx_unique idx \<longrightarrow> (\<forall>d\<in>docs. \<forall>v.
        idx_value idx d = Some v \<longrightarrow> m (lock_of L hash idx v) = Some (as_bytes (key d))))"

text \<open>No two documents with different keys have the same unique value.\<close>

definition unique_values :: "'d libs \<Rightarrow> IndexDef list \<Rightarrow> document set \<Rightarrow> bool" where
  "unique_values L idxs docs \<longleftrightarrow>
     (\<forall>idx\<in>set idxs. idx_unique idx \<longrightarrow> (\<forall>d\<in>docs. \<forall>d'\<in>docs. \<forall>v w.
        idx_value idx d = Some v \<longrightarrow> idx_value idx d' = Some w \<longrightarrow>
        encode_value_for_hash L v = encode_value_for_hash L w \<longrightarrow> key d = key d'))"

lemma locks_held_unique: "locks_held L hash idxs docs m \<Longrightarrow> unique_values L idxs docs"
  unfolding locks_held_def unique_values_def compute_unique_lock_key_def
  by (metis as_bytes_eq_iff option.inject)

text \<open>No lock that the update gives up is one that the new document needs: hashes of different
  fields or values differ, and values that \<open>PartialEq\<close> distinguishes hash differently.\<close>

abbreviation opt_value :: "IndexDef \<Rightarrow> document option \<Rightarrow> Value option" where
  "opt_value idx doc \<equiv> Option.bind doc (idx_value idx)"

definition index_changed :: "document option \<Rightarrow> document option \<Rightarrow> IndexDef \<Rightarrow> bool" where
  "index_changed old new idx \<longleftrightarrow> \<not> option_value_eq (opt_value idx new) (opt_value idx old)"

definition locks_separate ::
  "'d libs \<Rightarrow> (bytes \<Rightarrow> bytes) \<Rightarrow> IndexDef list \<Rightarrow> document option \<Rightarrow> document option \<Rightarrow> bool" where
  "locks_separate L hash idxs old new \<longleftrightarrow>
     (\<forall>i\<in>set (filter idx_unique idxs). \<forall>j\<in>set (filter idx_unique idxs). \<forall>v w.
        opt_value i new = Some v \<longrightarrow> opt_value j old = Some w \<longrightarrow> index_changed old new j \<longrightarrow>
        lock_of L hash i v \<noteq> lock_of L hash j w)"

section \<open>Equal values share their lock\<close>

lemma f64_eq_cases: "f64_eq f g \<Longrightarrow> f = g \<or> f64_mag f = 0 \<and> f64_mag g = 0"
proof -
  assume "f64_eq f g"
  then have "f64_key f = f64_key g" by (auto simp: f64_eq_def f64_partial_cmp_def split: if_splits)
  then have "f64_mag f = 0 \<and> f64_mag g = 0 \<or> f64_neg_bit f = f64_neg_bit g \<and> f64_mag f = f64_mag g"
    by (auto simp: f64_key_def split: if_splits)
  moreover have "f64_neg_bit f = f64_neg_bit g \<Longrightarrow> f64_mag f = f64_mag g \<Longrightarrow> f = g"
    by (subst f64_of_mag_id [of f, symmetric], subst f64_of_mag_id [of g, symmetric]) simp
  ultimately show ?thesis by blast
qed

lemma encode_f64_zero: "f64_mag f = 0 \<Longrightarrow> encode_f64_fixed_width f = encode_zero"
proof -
  assume m: "f64_mag f = 0"
  then have "\<not> is_nan f" by (simp add: is_nan_def)
  moreover have "f64_eq f 0" "\<not> f64_eq f f64_infinity" "\<not> f64_eq f f64_neg_infinity"
    using m by (auto simp: f64_eq_def f64_partial_cmp_def f64_key_def is_nan_def f64_inf_mag_def)
  ultimately show ?thesis by (simp add: encode_f64_fixed_width_def)
qed

lemma encode_f64_cong: "f64_eq f g \<Longrightarrow> encode_f64_fixed_width f = encode_f64_fixed_width g"
  using f64_eq_cases [of f g] encode_f64_zero [of f] encode_f64_zero [of g] by auto

lemma map_zip_cong:
  assumes "length xs = length ys" "\<And>x y. (x, y) \<in> set (zip xs ys) \<Longrightarrow> f x = f y"
  shows "map f xs = map f ys"
  using assms by (induction xs ys rule: list_induct2) auto

lemma value_eq_encode: "value_eq v w \<Longrightarrow> encode_value_for_hash L v = encode_value_for_hash L w"
proof (induction v w rule: value_eq.induct)
  case (1 v w)
  show ?case
  proof (cases v)
    case (VFloat f)
    then show ?thesis using "1.prems" by (subst (asm) value_eq.simps) (auto simp: encode_f64_cong split: Value.splits)
  next
    case (VArray xs)
    with "1.prems" obtain ys where w: "w = VArray ys" and e: "length xs = length ys"
      "\<forall>(x, y)\<in>set (zip xs ys). value_eq x y"
      by (subst (asm) value_eq.simps) (auto simp: list_all_iff split: Value.splits)
    have "map (encode_value_for_hash L) xs = map (encode_value_for_hash L) ys"
      using e "1.IH"(1) [OF VArray w] by (intro map_zip_cong) auto
    from arg_cong [OF this, of "map len_prefixed"]
    have "map (\<lambda>e. len_prefixed (encode_value_for_hash L e)) xs
        = map (\<lambda>e. len_prefixed (encode_value_for_hash L e)) ys" by (simp add: o_def)
    then show ?thesis using e(1) by (simp add: VArray w)
  next
    case (VObject xs)
    with "1.prems" obtain ys where w: "w = VObject ys" and e: "map fst xs = map fst ys"
      "\<forall>(x, y)\<in>set (zip (map snd xs) (map snd ys)). value_eq x y"
      by (subst (asm) value_eq.simps) (auto simp: list_all_iff split: Value.splits)
    have len: "length xs = length ys" using e(1) map_eq_imp_length_eq by blast
    have "map (encode_value_for_hash L) (map snd xs) = map (encode_value_for_hash L) (map snd ys)"
      using e len "1.IH"(2) [OF VObject w] by (intro map_zip_cong) auto
    then have "map (\<lambda>(k, v). (k, encode_value_for_hash L v)) xs = map (\<lambda>(k, v). (k, encode_value_for_hash L v)) ys"
      using e(1) len by (auto simp: list_eq_iff_nth_eq case_prod_beta)
    then show ?thesis by (simp add: VObject w)
  next
    case (VRange a b)
    with "1.prems" obtain c d where w: "w = VRange c d" and e: "value_eq a c" "value_eq b d"
      by (subst (asm) value_eq.simps) (auto split: Value.splits)
    then show ?thesis using "1.IH"(3) [OF VRange w] "1.IH"(4) [OF VRange w] VRange by simp
  qed (use "1.prems" in \<open>subst (asm) value_eq.simps, auto split: Value.splits\<close>)+
qed

section \<open>The update keeps the invariant\<close>

text \<open>The effect of one successful iteration on the lock table, for a document key \<open>K\<close>.\<close>

definition claim_map :: "bytes option \<Rightarrow> bytes \<Rightarrow> (bytes \<rightharpoonup> bytes) \<Rightarrow> (bytes \<rightharpoonup> bytes)" where
  "claim_map lk K m = (case lk of None \<Rightarrow> m | Some l \<Rightarrow> m(l \<mapsto> K))"

definition release_map :: "bytes option \<Rightarrow> bytes \<Rightarrow> (bytes \<rightharpoonup> bytes) \<Rightarrow> (bytes \<rightharpoonup> bytes)" where
  "release_map lk K m = (case lk of None \<Rightarrow> m | Some l \<Rightarrow> if m l = Some K then m(l := None) else m)"

lemma claim_map_apply: "claim_map lk K m l = (if lk = Some l then Some K else m l)"
  by (auto simp: claim_map_def split: option.splits)

lemma release_map_apply: "release_map lk K m l = (if lk = Some l \<and> m l = Some K then None else m l)"
  by (auto simp: release_map_def split: option.splits)

abbreviation opt_lock :: "'d libs \<Rightarrow> (bytes \<Rightarrow> bytes) \<Rightarrow> IndexDef \<Rightarrow> document option \<Rightarrow> bytes option" where
  "opt_lock L hash idx doc \<equiv> map_option (lock_of L hash idx) (opt_value idx doc)"

definition lock_step ::
  "'d libs \<Rightarrow> (bytes \<Rightarrow> bytes) \<Rightarrow> bytes \<Rightarrow> document option \<Rightarrow> document option \<Rightarrow> IndexDef
     \<Rightarrow> (bytes \<rightharpoonup> bytes) \<Rightarrow> (bytes \<rightharpoonup> bytes)" where
  "lock_step L hash K old new idx m =
     (if index_changed old new idx
      then release_map (opt_lock L hash idx old) K (claim_map (opt_lock L hash idx new) K m)
      else m)"

definition step_allowed ::
  "'d libs \<Rightarrow> (bytes \<Rightarrow> bytes) \<Rightarrow> bytes \<Rightarrow> document option \<Rightarrow> document option \<Rightarrow> IndexDef
     \<Rightarrow> (bytes \<rightharpoonup> bytes) \<Rightarrow> bool" where
  "step_allowed L hash K old new idx m \<longleftrightarrow>
     (index_changed old new idx \<longrightarrow>
       (\<forall>l. opt_lock L hash idx new = Some l \<longrightarrow> m l \<in> {None, Some K}))"

context keyspace
begin

lemma update_one_index_ok:
  assumes upd: "update_one_index L hash F i old new ks = (ks', Inr u)"
    and K: "\<And>d. new = Some d \<Longrightarrow> key d = K" "\<And>d. old = Some d \<Longrightarrow> key d = K"
  shows "content ks' = lock_step L hash (as_bytes K) old new i (content ks) \<and>
    step_allowed L hash (as_bytes K) old new i (content ks)"
proof (cases "index_changed old new i")
  case False
  then show ?thesis
    using upd by (auto simp: update_one_index_def index_changed_def Let_def lock_step_def step_allowed_def)
next
  case True
  have Kn: "key (the new) = K" if "opt_value i new = Some v" for v using that K(1) by (cases new) auto
  have Ko: "key (the old) = K" if "opt_value i old = Some v" for v using that K(2) by (cases old) auto
  obtain ks1 where claim: "(case opt_value i new of
        Some v \<Rightarrow> claim_lock_key L hash F (idx_fields i) v (key (the new)) ks | None \<Rightarrow> (ks, Inr ())) = (ks1, Inr ())"
    and release: "(case opt_value i old of
        Some v \<Rightarrow> release_lock_key L hash F (idx_fields i) v (key (the old)) ks1 | None \<Rightarrow> (ks1, Inr ())) = (ks', Inr ())"
    using upd True
    by (auto simp: update_one_index_def index_changed_def Let_def split: prod.splits sum.splits if_splits)
  have 1: "content ks1 = claim_map (opt_lock L hash i new) (as_bytes K) (content ks)"
    and 2: "\<forall>l. opt_lock L hash i new = Some l \<longrightarrow> content ks l \<in> {None, Some (as_bytes K)}"
    subgoal
    proof (cases "opt_value i new")
      case (Some v)
      then have "claim_lock_key L hash F (idx_fields i) v K ks = (ks1, Inr ())" using claim Kn by simp
      from claim_ok(1) [OF this] show ?thesis by (simp add: Some claim_map_def)
    qed (use claim in \<open>simp add: claim_map_def\<close>)
    subgoal
    proof (cases "opt_value i new")
      case (Some v)
      then have "claim_lock_key L hash F (idx_fields i) v K ks = (ks1, Inr ())" using claim Kn by simp
      from claim_ok(2) [OF this] show ?thesis by (simp add: Some)
    qed simp
    done
  have 3: "content ks' = release_map (opt_lock L hash i old) (as_bytes K) (content ks1)"
  proof (cases "opt_value i old")
    case (Some w)
    then have "release_lock_key L hash F (idx_fields i) w K ks1 = (ks', Inr ())" using release Ko by simp
    from release_ok [OF this] show ?thesis by (auto simp: Some release_map_def)
  qed (use release in \<open>simp add: release_map_def\<close>)
  show ?thesis using True 1 2 3 by (simp add: lock_step_def step_allowed_def)
qed

end

text \<open>What the iterations still to come rely on: the other documents keep their locks, and the
  new one has those of the indexes done and of the indexes whose value stays.\<close>

definition loop_inv ::
  "'d libs \<Rightarrow> (bytes \<Rightarrow> bytes) \<Rightarrow> IndexDef list \<Rightarrow> IndexDef list \<Rightarrow> document set \<Rightarrow> document option
     \<Rightarrow> document option \<Rightarrow> string \<Rightarrow> (bytes \<rightharpoonup> bytes) \<Rightarrow> bool" where
  "loop_inv L hash idxs todo others old new K m \<longleftrightarrow>
     locks_held L hash idxs others m \<and>
     (\<forall>j\<in>set idxs. idx_unique j \<longrightarrow> index_changed old new j \<and> j \<in> set todo \<or>
        (\<forall>l. opt_lock L hash j new = Some l \<longrightarrow> m l = Some (as_bytes K)))"

lemma lock_step_inv:
  assumes inv: "loop_inv L hash idxs (i # todo) others old new K m"
    and i: "i \<in> set idxs" "idx_unique i"
    and K: "\<forall>d\<in>others. key d \<noteq> K"
    and sep: "locks_separate L hash idxs old new"
    and ok: "step_allowed L hash (as_bytes K) old new i m"
  shows "loop_inv L hash idxs todo others old new K (lock_step L hash (as_bytes K) old new i m)"
proof (cases "index_changed old new i")
  case False
  then show ?thesis using inv by (auto simp: loop_inv_def lock_step_def)
next
  case True
  let ?n = "opt_lock L hash i new" and ?o = "opt_lock L hash i old"
  let ?m = "lock_step L hash (as_bytes K) old new i m"
  have m: "?m = release_map ?o (as_bytes K) (claim_map ?n (as_bytes K) m)"
    using True by (simp add: lock_step_def)
  have other: "?m l = Some k" if "m l = Some k" "k \<noteq> as_bytes K" for l k
    using that ok True unfolding m release_map_apply claim_map_apply by (auto simp: step_allowed_def)
  have own: "?m l = Some (as_bytes K)" if "m l = Some (as_bytes K) \<or> ?n = Some l" "?o \<noteq> Some l" for l
    using that unfolding m release_map_apply claim_map_apply by auto
  have gone: "?o \<noteq> Some l" if jl: "j \<in> set idxs" "idx_unique j" "opt_lock L hash j new = Some l" for j l
  proof
    assume o: "?o = Some l"
    obtain v w where "opt_value j new = Some v" "l = lock_of L hash j v"
        "opt_value i old = Some w" "l = lock_of L hash i w"
      using jl(3) o by (auto simp: map_option_eq_Some)
    moreover have "i \<in> set (filter idx_unique idxs)" "j \<in> set (filter idx_unique idxs)"
      using i jl(1,2) by simp_all
    ultimately show False using sep True unfolding locks_separate_def by metis
  qed
  have "locks_held L hash idxs others ?m"
    using inv K other by (auto simp: loop_inv_def locks_held_def)
  moreover have "index_changed old new j \<and> j \<in> set todo \<or>
      (\<forall>l. opt_lock L hash j new = Some l \<longrightarrow> ?m l = Some (as_bytes K))"
    if j: "j \<in> set idxs" "idx_unique j" for j
  proof (cases "index_changed old new j \<and> j \<in> set todo")
    case False
    have "?m l = Some (as_bytes K)" if "opt_lock L hash j new = Some l" for l
    proof (rule own)
      show "?o \<noteq> Some l" using gone [OF j that] .
      show "m l = Some (as_bytes K) \<or> ?n = Some l"
        using inv False j that by (cases "j = i") (auto simp: loop_inv_def)
    qed
    then show ?thesis by blast
  qed blast
  ultimately show ?thesis by (simp add: loop_inv_def)
qed

context keyspace
begin

lemma update_indexes_inv:
  assumes "update_indexes L hash F todo old new ks = (ks', Inr u)"
    and "loop_inv L hash idxs todo others old new K (content ks)"
    and "set todo \<subseteq> {i \<in> set idxs. idx_unique i}" "\<forall>d\<in>others. key d \<noteq> K"
    and "locks_separate L hash idxs old new"
    and "\<And>d. new = Some d \<Longrightarrow> key d = K" "\<And>d. old = Some d \<Longrightarrow> key d = K"
  shows "loop_inv L hash idxs [] others old new K (content ks')"
  using assms
proof (induction todo arbitrary: ks)
  case (Cons i todo)
  obtain ks1 where 1: "update_one_index L hash F i old new ks = (ks1, Inr ())"
    and 2: "update_indexes L hash F todo old new ks1 = (ks', Inr u)"
    using Cons.prems(1) by (auto split: prod.splits sum.splits)
  have s: "content ks1 = lock_step L hash (as_bytes K) old new i (content ks)"
    "step_allowed L hash (as_bytes K) old new i (content ks)"
    using update_one_index_ok [OF 1] Cons.prems(6,7) by auto
  have "loop_inv L hash idxs todo others old new K (content ks1)"
    unfolding s(1) using Cons.prems s(2) by (intro lock_step_inv) auto
  with Cons.IH [OF 2] Cons.prems show ?case by auto
qed auto

lemma validate_and_update_keeps_locks:
  assumes upd: "validate_and_update L hash F idxs old new ks = (ks', Inr u)"
    and held: "locks_held L hash idxs docs (content ks)" and old: "set_option old \<subseteq> docs"
    and K: "\<forall>d\<in>set_option old \<union> set_option new. key d = K" "\<forall>d\<in>docs - set_option old. key d \<noteq> K"
    and sep: "locks_separate L hash idxs old new"
  shows "locks_held L hash idxs (docs - set_option old \<union> set_option new) (content ks')"
proof -
  let ?others = "docs - set_option old"
  have unchanged: "m l = Some (as_bytes K)"
    if jl: "m = content ks" "j \<in> set idxs" "idx_unique j" "\<not> index_changed old new j"
      "opt_lock L hash j new = Some l" for j l m
  proof -
    obtain v where v: "opt_value j new = Some v" "l = lock_of L hash j v" using jl(5) by auto
    then obtain w d where w: "old = Some d" "idx_value j d = Some w" "value_eq v w"
      using jl(4) by (cases old) (auto simp: index_changed_def option_value_eq_def split: option.splits)
    then have "l = lock_of L hash j w"
      using v(2) value_eq_encode [OF w(3), of L] by (simp add: compute_unique_lock_key_def)
    then show ?thesis
      using held w old K(1) jl(1-3) by (auto simp: locks_held_def)
  qed
  have inv: "loop_inv L hash idxs (filter idx_unique idxs) ?others old new K (content ks)"
    using held unchanged by (auto simp: loop_inv_def locks_held_def)
  have "loop_inv L hash idxs [] ?others old new K (content ks')"
  proof (cases "filter idx_unique idxs = []")
    case True
    then have "ks' = ks" using upd by (simp add: validate_and_update_def)
    then show ?thesis using inv True by simp
  next
    case False
    then have "update_indexes L hash F (filter idx_unique idxs) old new ks = (ks', Inr u)"
      using upd by (simp add: validate_and_update_def)
    then show ?thesis using inv K sep by (intro update_indexes_inv) auto
  qed
  then show ?thesis
    using K(1) by (auto simp: loop_inv_def locks_held_def)
qed

end

section \<open>Properties\<close>


definition email_index :: IndexDef where
  "email_index = \<lparr>idx_name = ''email'', idx_fields = [''email''], idx_unique = True, idx_type = BTree,
     idx_hnsw_params = None, idx_analyzer = None\<rparr>"

definition email_doc :: "string \<Rightarrow> Value \<Rightarrow> document" where
  "email_doc k v = \<lparr>doc_id = ''user:'' @ k, doc_fields = [(''email'', v)]\<rparr>"

lemma email_doc_simps [simp]:
  "key (email_doc k v) = k"
  "get_field_value_for_index (email_doc k v) [''email''] = Some v"
  "idx_fields email_index = [''email'']" "idx_unique email_index"
  by (simp_all add: email_doc_def key_def get_field_value_for_index_def unique_resolve_field_value_def
      email_index_def)


text \<open>A lock held by another document is never taken over: the claim fails with a conflict (or
  an engine error) and leaves the lock table as it was.\<close>

theorem claim_respects_owner:
  assumes "keyspace F content"
    and "content ks (compute_unique_lock_key L hash (join '','' fs) v) = Some owner" "owner \<noteq> as_bytes k"
  shows "\<exists>ks' e. claim_lock_key L hash F fs v k ks = (ks', Inl e) \<and> content ks' = content ks"
proof -
  obtain ks' r where c: "claim_lock_key L hash F fs v k ks = (ks', r)" by fastforce
  show ?thesis
  proof (cases r)
    case (Inl e)
    then show ?thesis using c keyspace.claim_err [OF assms(1)] by blast
  next
    case (Inr u)
    then show ?thesis using keyspace.claim_ok(2) [OF assms(1), of L hash fs v k ks ks' u] c assms(2,3) by auto
  qed
qed

theorem claim_respects_owner_witness:
  "\<exists>ks' e. claim_lock_key int_libs (\<lambda>b. b) mem_fjall [''email''] (VString ''x'') ''b''
      [(compute_unique_lock_key int_libs (\<lambda>b. b) ''email'' (VString ''x''), as_bytes ''a'')] = (ks', Inl e) \<and>
    map_of ks' = map_of [(compute_unique_lock_key int_libs (\<lambda>b. b) ''email'' (VString ''x''), as_bytes ''a'')]"
  using claim_respects_owner [OF mem_keyspace,
      of "[(compute_unique_lock_key int_libs (\<lambda>b. b) ''email'' (VString ''x''), as_bytes ''a'')]"
        int_libs "\<lambda>b. b" "[''email'']" "VString ''x''" "as_bytes ''a''" "''b''"] by simp

text \<open>The condition on separate locks is needed: an accepted update between values that
  \<open>PartialEq\<close> distinguishes but that encode alike (a string and a reference with the same text, an
  integer and the equal float, a NaN and itself) releases the lock that it just claimed.\<close>

theorem unique_lock_lost:
  assumes "keyspace F content" "key old = K" "key new = K"
    and "idx_value idx old = Some v" "idx_value idx new = Some w"
    and "\<not> value_eq w v" "encode_value_for_hash L w = encode_value_for_hash L v"
    and "update_one_index L hash F idx (Some old) (Some new) ks = (ks', Inr ())"
  shows "content ks' (lock_of L hash idx w) = None"
proof -
  have "index_changed (Some old) (Some new) idx"
    using assms(4-6) by (simp add: index_changed_def option_value_eq_def)
  moreover have "content ks' = lock_step L hash (as_bytes K) (Some old) (Some new) idx (content ks)"
    using keyspace.update_one_index_ok [OF assms(1,8), of K] assms(2,3) by simp
  moreover have "lock_of L hash idx v = lock_of L hash idx w"
    using assms(7) by (simp add: compute_unique_lock_key_def)
  ultimately show ?thesis
    using assms(4,5) by (simp add: lock_step_def release_map_apply claim_map_apply)
qed

theorem unique_lock_lost_witness:
  "\<exists>ks'. update_one_index int_libs (\<lambda>b. b) mem_fjall email_index (Some (email_doc ''a'' (VString ''x'')))
      (Some (email_doc ''a'' (VReference ''x'')))
      [(lock_of int_libs (\<lambda>b. b) email_index (VString ''x''), as_bytes ''a'')] = (ks', Inr ()) \<and>
    map_of ks' (lock_of int_libs (\<lambda>b. b) email_index (VReference ''x'')) = None"
proof -
  let ?ks = "[(lock_of int_libs (\<lambda>b. b) email_index (VString ''x''), as_bytes ''a'')]"
  obtain ks' where u: "update_one_index int_libs (\<lambda>b. b) mem_fjall email_index (Some (email_doc ''a'' (VString ''x'')))
      (Some (email_doc ''a'' (VReference ''x''))) ?ks = (ks', Inr ())"
    by (simp add: update_one_index_def option_value_eq_def claim_lock_key_def release_lock_key_def Let_def
        compute_unique_lock_key_def)
  then show ?thesis
    using unique_lock_lost [OF mem_keyspace _ _ _ _ _ _ u, of "''a''" "VString ''x''" "VReference ''x''"] by simp
qed

end
