(* ===== verification/Catalog.thy ===== *)
theory Catalog
  imports Edge_Store Unique_Constraints
begin

text \<open>
  The catalogue of a database: index names (\<open>schema/types.rs\<close>), the registries of schemas and
  indexes (\<open>schema/registry.rs\<close>, \<open>storage/indexes/registry.rs\<close>), schema persistence
  (\<open>schema/storage.rs\<close>, \<open>storage/schema/manager.rs\<close>) and the keyspaces of collections and indexes
  (\<open>storage/keyspaces.rs\<close>).

  The state extends that of the edge store, since both live in one database. A keyspace handle is
  the name of its keyspace on disk; the maps from collections and indexes to handles become the sets
  of names that are open. \<open>external\<close> is the state of the full-text and vector backends.
\<close>

section \<open>State\<close>

record ('ks, 'x) database = "'ks edge_store" +
  collections :: "string list"
  index_keyspaces :: "(string \<times> string) list"
  index_registry :: "(string, IndexDef list) hashmap"
  schemas :: "(string, CollectionSchema) hashmap"
  known_collections :: "string list"
  external :: 'x

type_synonym ('ks, 'x, 'z, 'a) db_op = "(('ks, 'x, 'z) database_scheme, 'a) op"

text \<open>One step of a backend for full-text or vector indexes.\<close>

type_synonym 'x ext_op = "'x \<Rightarrow> 'x \<times> (StorageError + unit)"

record ExternalIndexJob =
  job_collection :: string
  job_key :: string
  job_old_doc :: "document option"
  job_new_doc :: "document option"

text \<open>
  Code outside the repository, and the two external backends: \<open>db_ext_update\<close> is their
  \<open>update_document\<close>, \<open>db_ext_commit\<close> the commit of both, \<open>db_validate_vector\<close> the check of the
  dimension of a vector.
\<close>

record ('ks, 'd, 'x) db_env = "('ks, 'd) edge_env" +
  db_hash :: "bytes \<Rightarrow> bytes"
  db_docs :: "document codec"
  db_jobs :: "ExternalIndexJob codec"
  db_schemas :: "CollectionSchema codec"
  db_ext_update :: "IndexType \<Rightarrow> string \<Rightarrow> string list \<Rightarrow> document option \<Rightarrow> document option \<Rightarrow> 'x ext_op"
  db_ext_commit :: "'x ext_op"
  db_validate_vector :: "string \<Rightarrow> string \<Rightarrow> Value list \<Rightarrow> 'x \<Rightarrow> StorageError + unit"

section \<open>Index names (schema/types.rs)\<close>

definition replace_char :: "char \<Rightarrow> char \<Rightarrow> string \<Rightarrow> string" where
  "replace_char a b s = map (\<lambda>c. if c = a then b else c) s"

definition generate_index_name :: "string \<Rightarrow> IndexType \<Rightarrow> string list \<Rightarrow> string" where
  "generate_index_name coll ty fs =
     (case ty of
        FullText \<Rightarrow> join ''_'' (sort (map (replace_char (CHR ''.'') (CHR ''_'')) fs)) @ ''_fts''
      | _ \<Rightarrow>
          ''idx_'' @ coll @ ''_'' @ (if ty = BTree then ''btree'' else ''hnsw'') @ ''_'' @
          join ''_'' (map (replace_char (CHR ''.'') (CHR ''_'')) fs))"

definition index_new_named :: "string \<Rightarrow> string list \<Rightarrow> IndexDef" where
  "index_new_named n fs =
     \<lparr>idx_name = n, idx_fields = fs, idx_unique = False, idx_type = BTree, idx_hnsw_params = None, idx_analyzer = None\<rparr>"

definition index_new :: "string \<Rightarrow> string list \<Rightarrow> IndexDef" where
  "index_new coll fs =
     \<lparr>idx_name = generate_index_name coll BTree fs, idx_fields = fs, idx_unique = False, idx_type = BTree,
      idx_hnsw_params = None, idx_analyzer = None\<rparr>"

definition index_unique :: "string \<Rightarrow> string list \<Rightarrow> IndexDef" where
  "index_unique coll fs =
     \<lparr>idx_name = generate_index_name coll BTree fs, idx_fields = fs, idx_unique = True, idx_type = BTree,
      idx_hnsw_params = None, idx_analyzer = None\<rparr>"

definition index_fulltext :: "string \<Rightarrow> string list \<Rightarrow> IndexDef" where
  "index_fulltext coll fs =
     \<lparr>idx_name = generate_index_name coll FullText fs, idx_fields = fs, idx_unique = False, idx_type = FullText,
      idx_hnsw_params = None, idx_analyzer = None\<rparr>"

definition index_hnsw :: "string \<Rightarrow> string list \<Rightarrow> HnswParams \<Rightarrow> IndexDef" where
  "index_hnsw coll fs params =
     \<lparr>idx_name = generate_index_name coll Hnsw fs, idx_fields = fs, idx_unique = False, idx_type = Hnsw,
      idx_hnsw_params = Some params, idx_analyzer = None\<rparr>"

section \<open>Registry of indexes\<close>

definition get_indexes :: "('ks, 'x, 'z) database_scheme \<Rightarrow> string \<Rightarrow> IndexDef list" where
  "get_indexes s coll = (case hm_get (index_registry s) coll of None \<Rightarrow> [] | Some idxs \<Rightarrow> idxs)"

definition register_index :: "string \<Rightarrow> IndexDef \<Rightarrow> ('ks, 'x, 'z) database_scheme \<Rightarrow> ('ks, 'x, 'z) database_scheme" where
  "register_index coll idx s =
     s\<lparr>index_registry := hm_insert coll (get_indexes s coll @ [idx]) (index_registry s)\<rparr>"

definition get_unique_indexes :: "('ks, 'x, 'z) database_scheme \<Rightarrow> string \<Rightarrow> IndexDef list" where
  "get_unique_indexes s coll = filter idx_unique (get_indexes s coll)"

definition has_index :: "('ks, 'x, 'z) database_scheme \<Rightarrow> string \<Rightarrow> string list \<Rightarrow> bool" where
  "has_index s coll fs = (\<exists>i\<in>set (get_indexes s coll). idx_fields i = fs)"

definition find_index_for_field :: "('ks, 'x, 'z) database_scheme \<Rightarrow> string \<Rightarrow> string \<Rightarrow> IndexDef option" where
  "find_index_for_field s coll field =
     find (\<lambda>i. idx_fields i \<noteq> [] \<and> idx_fields i ! 0 = field) (get_indexes s coll)"

definition find_compound_index :: "('ks, 'x, 'z) database_scheme \<Rightarrow> string \<Rightarrow> string list \<Rightarrow> IndexDef option" where
  "find_compound_index s coll fs =
     (if fs = [] then None
      else find (\<lambda>i. length fs \<le> length (idx_fields i) \<and> list_all (\<lambda>(a, b). a = b) (zip fs (idx_fields i)))
        (get_indexes s coll))"

definition remove_index :: "string \<Rightarrow> string list \<Rightarrow> ('ks, 'x, 'z) database_scheme \<Rightarrow> ('ks, 'x, 'z) database_scheme \<times> bool" where
  "remove_index coll fs s =
     (case hm_get (index_registry s) coll of
        None \<Rightarrow> (s, False)
      | Some idxs \<Rightarrow>
          let kept = filter (\<lambda>i. idx_fields i \<noteq> fs) idxs
          in (s\<lparr>index_registry := hm_insert coll kept (index_registry s)\<rparr>, length kept < length idxs))"

definition registry_remove_collection :: "string \<Rightarrow> ('ks, 'x, 'z) database_scheme \<Rightarrow> ('ks, 'x, 'z) database_scheme" where
  "registry_remove_collection coll s = s\<lparr>index_registry := hm_remove coll (index_registry s)\<rparr>"

definition registry_load :: "string \<Rightarrow> IndexDef list \<Rightarrow> ('ks, 'x, 'z) database_scheme \<Rightarrow> ('ks, 'x, 'z) database_scheme" where
  "registry_load coll idxs s = s\<lparr>index_registry := hm_insert coll idxs (index_registry s)\<rparr>"

definition find_fts_index_for_field :: "('ks, 'x, 'z) database_scheme \<Rightarrow> string \<Rightarrow> string \<Rightarrow> IndexDef option" where
  "find_fts_index_for_field s coll field =
     find (\<lambda>i. idx_type i = FullText \<and> field \<in> set (idx_fields i)) (get_indexes s coll)"

definition find_fts_index :: "('ks, 'x, 'z) database_scheme \<Rightarrow> string \<Rightarrow> IndexDef option" where
  "find_fts_index s coll = find (\<lambda>i. idx_type i = FullText) (get_indexes s coll)"

definition find_hnsw_index_for_field :: "('ks, 'x, 'z) database_scheme \<Rightarrow> string \<Rightarrow> string \<Rightarrow> IndexDef option" where
  "find_hnsw_index_for_field s coll field =
     find (\<lambda>i. idx_type i = Hnsw \<and> field \<in> set (idx_fields i)) (get_indexes s coll)"

definition count_by_type :: "('ks, 'x, 'z) database_scheme \<Rightarrow> nat \<times> nat \<times> nat" where
  "count_by_type s =
     (let idxs = concat (map snd (index_registry s)); count = (\<lambda>ty. length (filter (\<lambda>i. idx_type i = ty) idxs))
      in (count BTree, count Hnsw, count FullText))"

section \<open>Registry of schemas\<close>

definition schema_get :: "('ks, 'x, 'z) database_scheme \<Rightarrow> string \<Rightarrow> CollectionSchema option" where
  "schema_get s coll = hm_get (schemas s) coll"

definition set_insert :: "'a \<Rightarrow> 'a list \<Rightarrow> 'a list" where
  "set_insert x xs = (if x \<in> set xs then xs else xs @ [x])"

lemma set_set_insert [simp]: "set (set_insert x xs) = insert x (set xs)"
  by (auto simp: set_insert_def)

definition schema_register :: "CollectionSchema \<Rightarrow> ('ks, 'x, 'z) database_scheme \<Rightarrow> ('ks, 'x, 'z) database_scheme" where
  "schema_register sch s =
     s\<lparr>schemas := hm_insert (schema_name sch) sch (schemas s),
       known_collections := set_insert (schema_name sch) (known_collections s)\<rparr>"

definition register_schemaless :: "string \<Rightarrow> ('ks, 'x, 'z) database_scheme \<Rightarrow> ('ks, 'x, 'z) database_scheme" where
  "register_schemaless coll s = s\<lparr>known_collections := set_insert coll (known_collections s)\<rparr>"

definition schema_remove :: "string \<Rightarrow> ('ks, 'x, 'z) database_scheme \<Rightarrow> ('ks, 'x, 'z) database_scheme" where
  "schema_remove coll s = s\<lparr>schemas := hm_remove coll (schemas s)\<rparr>"

definition schema_remove_collection :: "string \<Rightarrow> ('ks, 'x, 'z) database_scheme \<Rightarrow> ('ks, 'x, 'z) database_scheme" where
  "schema_remove_collection coll s =
     s\<lparr>schemas := hm_remove coll (schemas s), known_collections := removeAll coll (known_collections s)\<rparr>"

definition schema_contains :: "('ks, 'x, 'z) database_scheme \<Rightarrow> string \<Rightarrow> bool" where
  "schema_contains s coll = hm_contains (schemas s) coll"

definition known_collection :: "('ks, 'x, 'z) database_scheme \<Rightarrow> string \<Rightarrow> bool" where
  "known_collection s coll \<longleftrightarrow> coll \<in> set (known_collections s)"

text \<open>Adding and removing an index return the changed schema, or none when nothing changes.\<close>

definition schema_add_index ::
  "string \<Rightarrow> IndexDef \<Rightarrow> ('ks, 'x, 'z) database_scheme \<Rightarrow> ('ks, 'x, 'z) database_scheme \<times> CollectionSchema option" where
  "schema_add_index coll idx s =
     (case hm_get (schemas s) coll of
        None \<Rightarrow> (s, None)
      | Some sch \<Rightarrow>
          if \<exists>i\<in>set (schema_indexes sch). idx_fields i = idx_fields idx then (s, None)
          else let sch' = sch\<lparr>schema_indexes := schema_indexes sch @ [idx]\<rparr>
               in (s\<lparr>schemas := hm_insert coll sch' (schemas s)\<rparr>, Some sch'))"

definition schema_remove_index ::
  "string \<Rightarrow> string list \<Rightarrow> ('ks, 'x, 'z) database_scheme \<Rightarrow> ('ks, 'x, 'z) database_scheme \<times> CollectionSchema option" where
  "schema_remove_index coll fs s =
     (case hm_get (schemas s) coll of
        None \<Rightarrow> (s, None)
      | Some sch \<Rightarrow>
          let kept = filter (\<lambda>i. idx_fields i \<noteq> fs) (schema_indexes sch); sch' = sch\<lparr>schema_indexes := kept\<rparr>;
              s' = s\<lparr>schemas := hm_insert coll sch' (schemas s)\<rparr>
          in if length kept < length (schema_indexes sch) then (s', Some sch') else (s', None))"

section \<open>Schema persistence\<close>

definition META_KEYSPACE :: string where "META_KEYSPACE = ''_meta''"
definition COLLECTION_PREFIX :: bytes where "COLLECTION_PREFIX = as_bytes ''coll'' @ [0x00]"

definition serialize_schema :: "('ks, 'd, 'x) db_env \<Rightarrow> CollectionSchema \<Rightarrow> StorageError + bytes" where
  "serialize_schema X sch = enc (db_schemas X) sch"

definition deserialize_schema :: "('ks, 'd, 'x) db_env \<Rightarrow> bytes \<Rightarrow> StorageError + CollectionSchema" where
  "deserialize_schema X b = dec (db_schemas X) b"

definition collection_key :: "string \<Rightarrow> bytes" where
  "collection_key n = COLLECTION_PREFIX @ as_bytes n"

definition collection_name_from_key :: "bytes \<Rightarrow> string option" where
  "collection_name_from_key k =
     (if has_prefix COLLECTION_PREFIX k
      then let name_bytes = drop (length COLLECTION_PREFIX) k
           in if utf8_valid name_bytes then Some (of_bytes name_bytes) else None
      else None)"

fun load_all_loop ::
  "('ks, 'd, 'x) db_env \<Rightarrow> ks_item list \<Rightarrow> (string \<times> CollectionSchema option) list
     \<Rightarrow> ('ks, 'x, 'z, (string \<times> CollectionSchema option) list) db_op" where
  "load_all_loop X [] results = ok results"
| "load_all_loop X (item # items) results =
     try_do (lift_result item) (\<lambda>(k, v).
       case collection_name_from_key k of
         None \<Rightarrow> load_all_loop X items results
       | Some n \<Rightarrow>
           (case (if v \<noteq> [] then deserialize_schema X v else Inl (Serialization [])) of
              Inr sch \<Rightarrow> (\<lambda>s. load_all_loop X items (results @ [(n, Some sch)]) (schema_register sch s))
            | Inl _ \<Rightarrow> (\<lambda>s. load_all_loop X items (results @ [(n, None)]) (register_schemaless n s))))"

definition schema_load_all :: "('ks, 'd, 'x) db_env \<Rightarrow> ('ks, 'x, 'z, (string \<times> CollectionSchema option) list) db_op" where
  "schema_load_all X = with_state (\<lambda>s.
     load_all_loop X (ks_prefix (eng_ks (ee_engine X)) COLLECTION_PREFIX (disk s META_KEYSPACE)) [])"

definition schema_save :: "('ks, 'd, 'x) db_env \<Rightarrow> CollectionSchema \<Rightarrow> ('ks, 'x, 'z, unit) db_op" where
  "schema_save X sch =
     try_do (lift_result (serialize_schema X sch)) (\<lambda>v.
     try_do (insert_key (ee_engine X) META_KEYSPACE (collection_key (schema_name sch)) v) (\<lambda>_ s.
       (schema_register sch s, Inr ())))"

definition save_collection_meta :: "('ks, 'd, 'x) db_env \<Rightarrow> string \<Rightarrow> ('ks, 'x, 'z, unit) db_op" where
  "save_collection_meta X coll =
     try_do (insert_key (ee_engine X) META_KEYSPACE (as_bytes ''coll'' @ [0x00] @ as_bytes coll) []) (\<lambda>_ s.
       (if schema_contains s coll then s else register_schemaless coll s, Inr ()))"

definition schema_delete :: "('ks, 'd, 'x) db_env \<Rightarrow> string \<Rightarrow> ('ks, 'x, 'z, bool) db_op" where
  "schema_delete X coll = with_state (\<lambda>s.
     if \<not> schema_contains s coll then ok False
     else
       try_do (remove_key (ee_engine X) META_KEYSPACE (collection_key coll)) (\<lambda>_.
       try_do (remove_key (ee_engine X) META_KEYSPACE (as_bytes ''coll'' @ [0x00] @ as_bytes coll)) (\<lambda>_ s.
         (schema_remove coll s, Inr True))))"

definition ensure_schema :: "('ks, 'd, 'x) db_env \<Rightarrow> string \<Rightarrow> ('ks, 'x, 'z, CollectionSchema) db_op" where
  "ensure_schema X coll = with_state (\<lambda>s.
     case schema_get s coll of
       Some sch \<Rightarrow> ok sch
     | None \<Rightarrow> let sch = schema_flexible coll in try_do (schema_save X sch) (\<lambda>_. ok sch))"

definition save_changed_schema :: "('ks, 'd, 'x) db_env \<Rightarrow> CollectionSchema option \<Rightarrow> ('ks, 'x, 'z, bool) db_op" where
  "save_changed_schema X r =
     (case r of
        None \<Rightarrow> ok False
      | Some sch \<Rightarrow>
          try_do (lift_result (serialize_schema X sch)) (\<lambda>v.
          try_do (insert_key (ee_engine X) META_KEYSPACE (collection_key (schema_name sch)) v) (\<lambda>_. ok True)))"

definition manager_add_index :: "('ks, 'd, 'x) db_env \<Rightarrow> string \<Rightarrow> IndexDef \<Rightarrow> ('ks, 'x, 'z, bool) db_op" where
  "manager_add_index X coll idx =
     try_do (ensure_schema X coll) (\<lambda>_ s. case schema_add_index coll idx s of (s', r) \<Rightarrow> save_changed_schema X r s')"

definition manager_remove_index :: "('ks, 'd, 'x) db_env \<Rightarrow> string \<Rightarrow> string list \<Rightarrow> ('ks, 'x, 'z, bool) db_op" where
  "manager_remove_index X coll fs s = (case schema_remove_index coll fs s of (s', r) \<Rightarrow> save_changed_schema X r s')"

section \<open>Keyspaces of collections and indexes\<close>

definition docs_ks :: "string \<Rightarrow> string" where "docs_ks coll = ''docs_'' @ coll"
definition ulock_ks :: "string \<Rightarrow> string" where "ulock_ks coll = ''ulock_'' @ coll"
definition exists_ks :: "string \<Rightarrow> string" where "exists_ks coll = ''exists_'' @ coll"
definition idx_ks :: "string \<Rightarrow> string \<Rightarrow> string" where "idx_ks coll n = ''idx_'' @ coll @ ''_'' @ n"

definition create_keyspaces :: "('ks, 'd, 'x) db_env \<Rightarrow> string \<Rightarrow> ('ks, 'x, 'z, unit) db_op" where
  "create_keyspaces X n =
     try_do (open_keyspace (ee_engine X) (docs_ks n)) (\<lambda>_.
     try_do (open_keyspace (ee_engine X) (ulock_ks n)) (\<lambda>_.
       open_keyspace (ee_engine X) (exists_ks n)))"

definition open_existing :: "('ks, 'd, 'x) db_env \<Rightarrow> string \<Rightarrow> ('ks, 'x, 'z, unit) db_op" where
  "open_existing X n =
     try_do (create_keyspaces X n) (\<lambda>_ s. (s\<lparr>collections := set_insert n (collections s)\<rparr>, Inr ()))"

definition ensure_exists :: "('ks, 'd, 'x) db_env \<Rightarrow> string \<Rightarrow> ('ks, 'x, 'z, unit) db_op" where
  "ensure_exists X n = with_state (\<lambda>s. if n \<in> set (collections s) then ok () else open_existing X n)"

definition get_or_create_index_keyspace :: "('ks, 'd, 'x) db_env \<Rightarrow> string \<Rightarrow> string \<Rightarrow> ('ks, 'x, 'z, string) db_op" where
  "get_or_create_index_keyspace X coll n = with_state (\<lambda>s.
     if (coll, n) \<in> set (index_keyspaces s) then ok (idx_ks coll n)
     else
       try_do (open_keyspace (ee_engine X) (idx_ks coll n)) (\<lambda>_ s.
         (s\<lparr>index_keyspaces := set_insert (coll, n) (index_keyspaces s)\<rparr>, Inr (idx_ks coll n))))"

definition get_index_keyspace :: "('ks, 'x, 'z) database_scheme \<Rightarrow> string \<Rightarrow> string \<Rightarrow> string option" where
  "get_index_keyspace s coll n = (if (coll, n) \<in> set (index_keyspaces s) then Some (idx_ks coll n) else None)"

definition drop_index_keyspace :: "('ks, 'd, 'x) db_env \<Rightarrow> string \<Rightarrow> string \<Rightarrow> ('ks, 'x, 'z, unit) db_op" where
  "drop_index_keyspace X coll n s =
     (if (coll, n) \<in> set (index_keyspaces s)
      then clear_keyspace (ee_engine X) (idx_ks coll n)
             (s\<lparr>index_keyspaces := removeAll (coll, n) (index_keyspaces s)\<rparr>)
      else (s, Inr ()))"

definition list_index_keyspaces :: "('ks, 'x, 'z) database_scheme \<Rightarrow> string \<Rightarrow> string list" where
  "list_index_keyspaces s coll = map snd (filter (\<lambda>(c, _). c = coll) (index_keyspaces s))"

definition clear_index_keyspaces :: "('ks, 'd, 'x) db_env \<Rightarrow> string \<Rightarrow> ('ks, 'x, 'z, unit) db_op" where
  "clear_index_keyspaces X coll = with_state (\<lambda>s. for_each (list_index_keyspaces s coll) (drop_index_keyspace X coll))"

definition clear_collection :: "('ks, 'd, 'x) db_env \<Rightarrow> string \<Rightarrow> ('ks, 'x, 'z, bool) db_op" where
  "clear_collection X coll = with_state (\<lambda>s.
     if coll \<in> set (collections s)
     then
       let s1 = fst (clear_keyspace (ee_engine X) (docs_ks coll) s);
           s2 = fst (clear_keyspace (ee_engine X) (ulock_ks coll) s1);
           s3 = fst (clear_keyspace (ee_engine X) (exists_ks coll) s2)
       in (\<lambda>_. try_do (clear_index_keyspaces X coll) (\<lambda>_. ok True) s3)
     else ok False)"

definition remove_collection :: "string \<Rightarrow> ('ks, 'x, 'z) database_scheme \<Rightarrow> ('ks, 'x, 'z) database_scheme" where
  "remove_collection coll s = s\<lparr>collections := removeAll coll (collections s)\<rparr>"

text \<open>The names of the keyspaces of a database do not clash, as far as their prefixes tell.\<close>

lemma keyspace_names_distinct [simp]:
  "docs_ks a \<noteq> ulock_ks b" "docs_ks a \<noteq> exists_ks b" "docs_ks a \<noteq> idx_ks b n" "ulock_ks a \<noteq> exists_ks b"
  "ulock_ks a \<noteq> idx_ks b n" "exists_ks a \<noteq> idx_ks b n"
  "docs_ks a \<noteq> META_KEYSPACE" "ulock_ks a \<noteq> META_KEYSPACE" "exists_ks a \<noteq> META_KEYSPACE" "idx_ks a n \<noteq> META_KEYSPACE"
  "docs_ks a \<noteq> edge_ks l" "ulock_ks a \<noteq> edge_ks l" "exists_ks a \<noteq> edge_ks l" "idx_ks a n \<noteq> edge_ks l"
  "docs_ks a = docs_ks b \<longleftrightarrow> a = b" "ulock_ks a = ulock_ks b \<longleftrightarrow> a = b" "exists_ks a = exists_ks b \<longleftrightarrow> a = b"
  by (simp_all add: docs_ks_def ulock_ks_def exists_ks_def idx_ks_def META_KEYSPACE_def edge_ks_def EDGE_KEYSPACE_PREFIX_def)

lemmas keyspace_names_distinct' [simp] = keyspace_names_distinct(1-14) [symmetric]

end
