(* ===== verification/Documents.thy ===== *)
theory Documents
  imports Catalog
begin

text \<open>
  Reading and changing documents: \<open>storage/documents/store.rs\<close>, the maintenance of the indexes of a
  collection (\<open>storage/indexes/manager.rs\<close>), and the document operations of \<open>storage/database.rs\<close>
  with their unique constraints, transactions and jobs for the external indexes.

  An operation runs alone: what a transaction meets at its commit is the \<open>tx_outcome\<close> it is given.
  Test hooks and injected faults are left out.
\<close>

section \<open>Document store\<close>

definition docs_keyspace :: "('ks, 'x, 'z) database_scheme \<Rightarrow> string \<Rightarrow> string option" where
  "docs_keyspace s coll = (if coll \<in> set (collections s) then Some (docs_ks coll) else None)"

definition documents_get ::
  "('ks, 'd, 'x) db_env \<Rightarrow> string \<Rightarrow> string \<Rightarrow> ('ks, 'x, 'z) database_scheme \<Rightarrow> StorageError + document option" where
  "documents_get X coll k s =
     (case docs_keyspace s coll of
        None \<Rightarrow> Inr None
      | Some ks \<Rightarrow>
          and_then (ks_get (eng_ks (ee_engine X)) (disk s ks) (as_bytes k)) (\<lambda>r.
            case r of None \<Rightarrow> Inr None | Some b \<Rightarrow> and_then (dec (db_docs X) b) (\<lambda>d. Inr (Some d))))"

definition set_raw :: "('ks, 'd, 'x) db_env \<Rightarrow> string \<Rightarrow> document \<Rightarrow> ('ks, 'x, 'z, unit) db_op" where
  "set_raw X ks doc =
     try_do (lift_result (enc (db_docs X) doc)) (\<lambda>b. insert_key (ee_engine X) ks (as_bytes (key doc)) b)"

definition delete_raw :: "('ks, 'd, 'x) db_env \<Rightarrow> string \<Rightarrow> string \<Rightarrow> ('ks, 'x, 'z, bool) db_op" where
  "delete_raw X ks k =
     try_do (read_key (ee_engine X) ks (as_bytes k)) (\<lambda>r.
       if r \<noteq> None then try_do (remove_key (ee_engine X) ks (as_bytes k)) (\<lambda>_. ok True) else ok False)"

fun decode_docs :: "('ks, 'd, 'x) db_env \<Rightarrow> ks_item list \<Rightarrow> StorageError + document list" where
  "decode_docs X [] = Inr []"
| "decode_docs X (item # items) =
     and_then item (\<lambda>(_, b).
     and_then (dec (db_docs X) b) (\<lambda>d.
     and_then (decode_docs X items) (\<lambda>ds. Inr (d # ds))))"

definition documents_list ::
  "('ks, 'd, 'x) db_env \<Rightarrow> string \<Rightarrow> string option \<Rightarrow> nat \<Rightarrow> ('ks, 'x, 'z) database_scheme
     \<Rightarrow> StorageError + document list \<times> string option" where
  "documents_list X coll after limit s =
     (case docs_keyspace s coll of
        None \<Rightarrow> Inr ([], None)
      | Some ks \<Rightarrow>
          let items = range_keys (ee_engine X) ks (map_option as_bytes after) None s;
              skip_count = (if after \<noteq> None then 1 else 0)
          in and_then (decode_docs X (take (min usize_max (limit + 1)) (drop skip_count items))) (\<lambda>docs.
               let has_more = limit < length docs; docs = (if has_more then butlast docs else docs)
               in Inr (docs, if has_more \<and> docs \<noteq> [] then Some (key (last docs)) else None)))"

definition documents_count ::
  "('ks, 'd, 'x) db_env \<Rightarrow> string \<Rightarrow> ('ks, 'x, 'z) database_scheme \<Rightarrow> StorageError + nat" where
  "documents_count X coll s =
     (case docs_keyspace s coll of
        None \<Rightarrow> Inr 0
      | Some ks \<Rightarrow> Inr (length (range_keys (ee_engine X) ks None None s)))"

fun get_by_ids ::
  "('ks, 'd, 'x) db_env \<Rightarrow> string \<Rightarrow> string list \<Rightarrow> ('ks, 'x, 'z) database_scheme \<Rightarrow> StorageError + document list" where
  "get_by_ids X coll [] s = Inr []"
| "get_by_ids X coll (i # ids) s =
     and_then (documents_get X coll i s) (\<lambda>r.
     and_then (get_by_ids X coll ids s) (\<lambda>docs. Inr (case r of Some d \<Rightarrow> d # docs | None \<Rightarrow> docs)))"

definition documents_iter ::
  "('ks, 'd, 'x) db_env \<Rightarrow> string \<Rightarrow> ('ks, 'x, 'z) database_scheme \<Rightarrow> StorageError + (StorageError + document) list" where
  "documents_iter X coll s =
     (case docs_keyspace s coll of
        None \<Rightarrow> Inl (CollectionNotLoaded ''collection not found'')
      | Some ks \<Rightarrow> Inr (map (\<lambda>item. and_then item (\<lambda>(_, b). dec (db_docs X) b)) (range_keys (ee_engine X) ks None None s)))"

section \<open>Index maintenance\<close>

fun btree_writes ::
  "('ks, 'd, 'x) db_env \<Rightarrow> string \<Rightarrow> IndexDef list \<Rightarrow> document option \<Rightarrow> document option \<Rightarrow> tx \<Rightarrow> ('ks, 'x, 'z, tx) db_op" where
  "btree_writes X coll [] old_doc new_doc tx = ok tx"
| "btree_writes X coll (i # idxs) old_doc new_doc tx =
     (if idx_type i = BTree
      then
        try_do (get_or_create_index_keyspace X coll (idx_name i)) (\<lambda>ks.
          btree_writes X coll idxs old_doc new_doc
            (tx @ map (Pair ks) (update_in_tx (ee_libs X) (idx_fields i) old_doc new_doc)))
      else btree_writes X coll idxs old_doc new_doc tx)"

definition update_btree_in_tx ::
  "('ks, 'd, 'x) db_env \<Rightarrow> tx \<Rightarrow> string \<Rightarrow> document option \<Rightarrow> document option \<Rightarrow> ('ks, 'x, 'z, tx) db_op" where
  "update_btree_in_tx X tx coll old_doc new_doc =
     with_state (\<lambda>s. btree_writes X coll (get_indexes s coll) old_doc new_doc tx)"

text \<open>The components of a vector, before they are rounded to single precision.\<close>

definition extract_vector :: "document \<Rightarrow> string \<Rightarrow> Value list option" where
  "extract_vector doc field =
     (case hm_get (doc_fields doc) field of
        Some (VArray arr) \<Rightarrow> Some (filter (\<lambda>v. case v of VFloat _ \<Rightarrow> True | VInt _ \<Rightarrow> True | _ \<Rightarrow> False) arr)
      | _ \<Rightarrow> None)"

fun validate_vectors ::
  "('ks, 'd, 'x) db_env \<Rightarrow> string \<Rightarrow> IndexDef list \<Rightarrow> document \<Rightarrow> 'x \<Rightarrow> StorageError + unit" where
  "validate_vectors X coll [] doc ext = Inr ()"
| "validate_vectors X coll (i # idxs) doc ext =
     (if idx_type i \<noteq> Hnsw \<or> idx_fields i = [] then validate_vectors X coll idxs doc ext
      else
        case extract_vector doc (hd (idx_fields i)) of
          Some (v # vs) \<Rightarrow>
            and_then (db_validate_vector X coll (hd (idx_fields i)) (v # vs) ext) (\<lambda>_. validate_vectors X coll idxs doc ext)
        | _ \<Rightarrow> validate_vectors X coll idxs doc ext)"

definition validate_hnsw_vectors ::
  "('ks, 'd, 'x) db_env \<Rightarrow> string \<Rightarrow> document \<Rightarrow> ('ks, 'x, 'z) database_scheme \<Rightarrow> StorageError + unit" where
  "validate_hnsw_vectors X coll doc s = validate_vectors X coll (get_indexes s coll) doc (external s)"

definition on_external :: "'x ext_op \<Rightarrow> ('ks, 'x, 'z, unit) db_op" where
  "on_external f s = (case f (external s) of (ext, r) \<Rightarrow> (s\<lparr>external := ext\<rparr>, r))"

definition update_fts_hnsw ::
  "('ks, 'd, 'x) db_env \<Rightarrow> string \<Rightarrow> document option \<Rightarrow> document option \<Rightarrow> ('ks, 'x, 'z, unit) db_op" where
  "update_fts_hnsw X coll old_doc new_doc = with_state (\<lambda>s.
     for_each (get_indexes s coll) (\<lambda>i.
       if idx_type i = BTree then ok ()
       else
         try_do (get_or_create_index_keyspace X coll (idx_name i)) (\<lambda>ks.
           on_external (db_ext_update X (idx_type i) ks (idx_fields i) old_doc new_doc))))"

section \<open>Jobs of the external indexes\<close>

definition INDEX_JOBS_KEYSPACE :: string where "INDEX_JOBS_KEYSPACE = ''_index_jobs''"

definition has_external_indexes :: "('ks, 'x, 'z) database_scheme \<Rightarrow> string \<Rightarrow> bool" where
  "has_external_indexes s coll = (\<exists>i\<in>set (get_indexes s coll). idx_type i = FullText \<or> idx_type i = Hnsw)"

definition external_index_job_key :: "string \<Rightarrow> string \<Rightarrow> string" where
  "external_index_job_key coll k = coll @ '':'' @ k"

definition write_external_index_job ::
  "('ks, 'd, 'x) db_env \<Rightarrow> tx \<Rightarrow> string \<Rightarrow> string \<Rightarrow> document option \<Rightarrow> document option
     \<Rightarrow> ('ks, 'x, 'z) database_scheme \<Rightarrow> StorageError + tx" where
  "write_external_index_job X tx coll k old_doc new_doc s =
     (if \<not> has_external_indexes s coll then Inr tx
      else
        and_then (enc (db_jobs X) \<lparr>job_collection = coll, job_key = k, job_old_doc = old_doc, job_new_doc = new_doc\<rparr>) (\<lambda>b.
          Inr (tx @ [(INDEX_JOBS_KEYSPACE, as_bytes (external_index_job_key coll k), Some b)])))"

definition begin_tx :: "tx_env \<Rightarrow> ('s, unit) op" where
  "begin_tx T = (case tx_begin T of Some e \<Rightarrow> fail e | None \<Rightarrow> ok ())"

text \<open>The commit of a transaction: true when it is committed, false on a conflict.\<close>

definition commit :: "('ks, 'd, 'x) db_env \<Rightarrow> tx_env \<Rightarrow> tx \<Rightarrow> ('ks, 'x, 'z, bool) db_op" where
  "commit X T tx s =
     (case tx_commit (ee_engine X) (tx_outcome T) tx s of
        (s', Committed) \<Rightarrow> (s', Inr True)
      | (s', CommitConflict) \<Rightarrow> (s', Inr False)
      | (s', CommitError e) \<Rightarrow> (s', Inl e))"

definition complete_external_index_job_keys :: "('ks, 'd, 'x) db_env \<Rightarrow> tx_env \<Rightarrow> bytes list \<Rightarrow> ('ks, 'x, 'z, unit) db_op" where
  "complete_external_index_job_keys X T ks =
     (if ks = [] then ok ()
      else
        try_do (begin_tx T) (\<lambda>_.
        try_do (commit X T (map (\<lambda>k. (INDEX_JOBS_KEYSPACE, k, None)) ks)) (\<lambda>committed.
          if committed then ok () else fail (Conflict ''external index job cleanup conflict''))))"

definition complete_external_index_jobs :: "('ks, 'd, 'x) db_env \<Rightarrow> tx_env \<Rightarrow> ExternalIndexJob list \<Rightarrow> ('ks, 'x, 'z, unit) db_op" where
  "complete_external_index_jobs X T jobs =
     complete_external_index_job_keys X T (map (\<lambda>j. as_bytes (external_index_job_key (job_collection j) (job_key j))) jobs)"

definition apply_external_index_job :: "('ks, 'd, 'x) db_env \<Rightarrow> ExternalIndexJob \<Rightarrow> ('ks, 'x, 'z, unit) db_op" where
  "apply_external_index_job X j = update_fts_hnsw X (job_collection j) (job_old_doc j) (job_new_doc j)"

definition apply_and_complete_external_index_jobs ::
  "('ks, 'd, 'x) db_env \<Rightarrow> tx_env \<Rightarrow> ExternalIndexJob list \<Rightarrow> ('ks, 'x, 'z, unit) db_op" where
  "apply_and_complete_external_index_jobs X T jobs =
     (if jobs = [] then ok ()
      else
        try_do (for_each jobs (apply_external_index_job X)) (\<lambda>_.
        try_do (on_external (db_ext_commit X)) (\<lambda>_.
          complete_external_index_jobs X T jobs)))"

definition apply_and_complete_external_index_job ::
  "('ks, 'd, 'x) db_env \<Rightarrow> tx_env \<Rightarrow> string \<Rightarrow> string \<Rightarrow> document option \<Rightarrow> document option \<Rightarrow> ('ks, 'x, 'z, unit) db_op" where
  "apply_and_complete_external_index_job X T coll k old_doc new_doc = with_state (\<lambda>s.
     if \<not> has_external_indexes s coll then ok ()
     else apply_and_complete_external_index_jobs X T
       [\<lparr>job_collection = coll, job_key = k, job_old_doc = old_doc, job_new_doc = new_doc\<rparr>])"

text \<open>A failure after the commit is logged only.\<close>

definition log_failure :: "('s, unit) op \<Rightarrow> ('s, unit) op" where
  "log_failure m s = (fst (m s), Inr ())"

definition try_apply_and_complete_external_index_job ::
  "('ks, 'd, 'x) db_env \<Rightarrow> tx_env \<Rightarrow> string \<Rightarrow> string \<Rightarrow> document option \<Rightarrow> document option \<Rightarrow> ('ks, 'x, 'z, unit) db_op" where
  "try_apply_and_complete_external_index_job X T coll k old_doc new_doc =
     log_failure (apply_and_complete_external_index_job X T coll k old_doc new_doc)"

definition try_apply_and_complete_external_index_jobs ::
  "('ks, 'd, 'x) db_env \<Rightarrow> tx_env \<Rightarrow> ExternalIndexJob list \<Rightarrow> ('ks, 'x, 'z, unit) db_op" where
  "try_apply_and_complete_external_index_jobs X T jobs = log_failure (apply_and_complete_external_index_jobs X T jobs)"

fun replay_loop :: "('ks, 'd, 'x) db_env \<Rightarrow> ks_item list \<Rightarrow> bytes list \<Rightarrow> ('ks, 'x, 'z, bytes list) db_op" where
  "replay_loop X [] completed = ok completed"
| "replay_loop X (item # items) completed =
     try_do (lift_result item) (\<lambda>(k, v).
     try_do (lift_result (dec (db_jobs X) v)) (\<lambda>job.
     try_do (apply_external_index_job X job) (\<lambda>_.
       replay_loop X items (completed @ [k]))))"

definition replay_external_index_jobs :: "('ks, 'd, 'x) db_env \<Rightarrow> tx_env \<Rightarrow> ('ks, 'x, 'z, unit) db_op" where
  "replay_external_index_jobs X T = with_state (\<lambda>s.
     try_do (replay_loop X (range_keys (ee_engine X) INDEX_JOBS_KEYSPACE None None s) []) (\<lambda>completed.
     try_do (if completed \<noteq> [] then on_external (db_ext_commit X) else ok ()) (\<lambda>_.
       complete_external_index_job_keys X T completed)))"

section \<open>Documents with their constraints and indexes\<close>

definition get_or_create_collection :: "('ks, 'd, 'x) db_env \<Rightarrow> string \<Rightarrow> ('ks, 'x, 'z, unit) db_op" where
  "get_or_create_collection X n = with_state (\<lambda>s.
     if n \<in> set (collections s) then ok ()
     else
       try_do (lift_result (check_name ''collection'' n)) (\<lambda>_.
       try_do (ensure_exists X n) (\<lambda>_.
         save_collection_meta X n)))"

text \<open>An operation of the unique constraints on the lock keyspace of a collection.\<close>

definition on_locks :: "string \<Rightarrow> ('ks \<Rightarrow> 'ks \<times> (StorageError + 'a)) \<Rightarrow> ('ks, 'x, 'z, 'a) db_op" where
  "on_locks coll f s = (case f (disk s (ulock_ks coll)) of (ks, r) \<Rightarrow> (s\<lparr>disk := (disk s)(ulock_ks coll := ks)\<rparr>, r))"

definition claim_constraints ::
  "('ks, 'd, 'x) db_env \<Rightarrow> string \<Rightarrow> IndexDef list \<Rightarrow> document option \<Rightarrow> document option \<Rightarrow> ('ks, 'x, 'z, unit) db_op" where
  "claim_constraints X coll indexes old_doc new_doc =
     on_locks coll (validate_and_update (ee_libs X) (db_hash X) (eng_ks (ee_engine X)) indexes old_doc new_doc)"

definition rollback_constraints ::
  "('ks, 'd, 'x) db_env \<Rightarrow> string \<Rightarrow> IndexDef list \<Rightarrow> document option \<Rightarrow> document option \<Rightarrow> ('ks, 'x, 'z, unit) db_op" where
  "rollback_constraints X coll indexes old_doc new_doc =
     on_locks coll (\<lambda>ks. (rollback_validate_and_update (ee_libs X) (db_hash X) (eng_ks (ee_engine X)) indexes old_doc new_doc ks, Inr ()))"

text \<open>The early returns: undo the change of the locks, then return the error.\<close>

definition or_undo :: "('s, unit) op \<Rightarrow> ('s, 'a) op \<Rightarrow> ('s, 'a) op" where
  "or_undo undo m s = (case m s of (s', Inl e) \<Rightarrow> (fst (undo s'), Inl e) | (s', Inr a) \<Rightarrow> (s', Inr a))"

text \<open>
  The part that creation, replacement and update share: the writes \<open>tx\<close> of the document, those of
  its B-tree indexes, the check of its vectors, and the job of the external indexes.
\<close>

definition index_writes ::
  "('ks, 'd, 'x) db_env \<Rightarrow> document \<Rightarrow> document option \<Rightarrow> tx \<Rightarrow> ('ks, 'x, 'z, tx) db_op" where
  "index_writes X doc old_doc tx =
     try_do (update_btree_in_tx X tx (collection doc) old_doc (Some doc)) (\<lambda>tx.
     with_state (\<lambda>s. try_do (lift_result (validate_hnsw_vectors X (collection doc) doc s)) (\<lambda>_.
       lift_result (write_external_index_job X tx (collection doc) (key doc) old_doc (Some doc) s))))"

text \<open>Only a new document gets an existence marker.\<close>

definition exists_marker :: "string \<Rightarrow> string \<Rightarrow> bool \<Rightarrow> tx" where
  "exists_marker coll k is_new = (if is_new then [(exists_ks coll, as_bytes k, Some [])] else [])"

definition missing_collection :: StorageError where
  "missing_collection = CollectionNotLoaded ''collection missing after creation''"

definition set_document :: "('ks, 'd, 'x) db_env \<Rightarrow> tx_env \<Rightarrow> tx_env \<Rightarrow> document \<Rightarrow> ('ks, 'x, 'z, unit) db_op" where
  "set_document X T T' doc = (let coll = collection doc; k = key doc in
     try_do (get_or_create_collection X coll) (\<lambda>_. with_state (\<lambda>s.
     if coll \<notin> set (collections s) then fail missing_collection
     else
       try_do (lift_result (documents_get X coll k s)) (\<lambda>old_doc.
       let indexes = get_indexes s coll; undo = rollback_constraints X coll indexes old_doc (Some doc) in
       try_do (claim_constraints X coll indexes old_doc (Some doc)) (\<lambda>_.
       or_undo undo (
         try_do (begin_tx T) (\<lambda>_.
         try_do (lift_result (enc (db_docs X) doc)) (\<lambda>bytes.
         try_do (index_writes X doc old_doc
           ([(docs_ks coll, as_bytes k, Some bytes)] @ exists_marker coll k (old_doc = None))) (\<lambda>tx.
         try_do (commit X T tx) (\<lambda>committed.
           if committed then try_apply_and_complete_external_index_job X T' coll k old_doc (Some doc)
           else fail (Conflict ''set_document write conflict'')))))))))))"

definition create_document :: "('ks, 'd, 'x) db_env \<Rightarrow> tx_env \<Rightarrow> tx_env \<Rightarrow> document \<Rightarrow> ('ks, 'x, 'z, bool) db_op" where
  "create_document X T T' doc = (let coll = collection doc; k = key doc in
     try_do (get_or_create_collection X coll) (\<lambda>_. with_state (\<lambda>s.
     if coll \<notin> set (collections s) then fail missing_collection
     else
       let indexes = get_indexes s coll; undo = rollback_constraints X coll indexes None (Some doc) in
       try_do (claim_constraints X coll indexes None (Some doc)) (\<lambda>_.
       or_undo undo (
         try_do (begin_tx T) (\<lambda>_. with_state (\<lambda>s.
         try_do (lift_result (tx_get (ee_engine X) [] (docs_ks coll) (as_bytes k) s)) (\<lambda>found.
         if found \<noteq> None then try_do undo (\<lambda>_. ok False)
         else
           try_do (lift_result (enc (db_docs X) doc)) (\<lambda>bytes.
           try_do (index_writes X doc None
             [(docs_ks coll, as_bytes k, Some bytes), (exists_ks coll, as_bytes k, Some [])]) (\<lambda>tx.
           try_do (commit X T tx) (\<lambda>committed.
             if committed
             then try_do (try_apply_and_complete_external_index_job X T' coll k None (Some doc)) (\<lambda>_. ok True)
             else try_do undo (\<lambda>_. ok False))))))))))))"

definition db_update_document :: "('ks, 'd, 'x) db_env \<Rightarrow> tx_env \<Rightarrow> tx_env \<Rightarrow> document \<Rightarrow> ('ks, 'x, 'z, bool) db_op" where
  "db_update_document X T T' doc = (let coll = collection doc; k = key doc in with_state (\<lambda>s.
     if coll \<notin> set (collections s) then ok False
     else
       try_do (lift_result (documents_get X coll k s)) (\<lambda>found.
       case found of
         None \<Rightarrow> ok False
       | Some old_doc \<Rightarrow>
           let indexes = get_indexes s coll; undo = rollback_constraints X coll indexes (Some old_doc) (Some doc) in
           try_do (claim_constraints X coll indexes (Some old_doc) (Some doc)) (\<lambda>_.
           or_undo undo (
             try_do (begin_tx T) (\<lambda>_. with_state (\<lambda>s.
             try_do (lift_result (tx_get (ee_engine X) [] (docs_ks coll) (as_bytes k) s)) (\<lambda>still.
             if still = None then try_do undo (\<lambda>_. ok False)
             else
               try_do (lift_result (enc (db_docs X) doc)) (\<lambda>bytes.
               try_do (index_writes X doc (Some old_doc) [(docs_ks coll, as_bytes k, Some bytes)]) (\<lambda>tx.
               try_do (commit X T tx) (\<lambda>committed.
                 if committed
                 then try_do (try_apply_and_complete_external_index_job X T' coll k (Some old_doc) (Some doc)) (\<lambda>_. ok True)
                 else try_do undo (\<lambda>_. ok False))))))))))))"

definition delete_document :: "('ks, 'd, 'x) db_env \<Rightarrow> tx_env \<Rightarrow> tx_env \<Rightarrow> string \<Rightarrow> string \<Rightarrow> ('ks, 'x, 'z, bool) db_op" where
  "delete_document X T T' coll k = with_state (\<lambda>s.
     if coll \<notin> set (collections s) then ok False
     else
       try_do (lift_result (documents_get X coll k s)) (\<lambda>found.
       case found of
         None \<Rightarrow> ok False
       | Some old_doc \<Rightarrow>
           let doc_id = coll @ '':'' @ k; indexes = get_indexes s coll;
               undo = rollback_constraints X coll indexes (Some old_doc) None in
           try_do (lift_result (check_delete_allowed (edge_env.truncate X) doc_id s)) (\<lambda>_.
           try_do (on_locks coll (remove_for_document (ee_libs X) (db_hash X) (eng_ks (ee_engine X)) indexes old_doc)) (\<lambda>_.
           or_undo undo (
             try_do (begin_tx T) (\<lambda>_. with_state (\<lambda>s.
             try_do (lift_result (delete_edges_for_node_in_tx (edge_env.truncate X) [] doc_id s)) (\<lambda>(tx, _).
             try_do (update_btree_in_tx X
               (tx @ [(docs_ks coll, as_bytes k, None), (exists_ks coll, as_bytes k, None)]) coll (Some old_doc) None) (\<lambda>tx.
             with_state (\<lambda>s.
             try_do (lift_result (write_external_index_job X tx coll k (Some old_doc) None s)) (\<lambda>tx.
             try_do (commit X T tx) (\<lambda>committed.
               if committed
               then try_do (try_apply_and_complete_external_index_job X T' coll k (Some old_doc) None) (\<lambda>_. ok True)
               else try_do undo (\<lambda>_. ok False)))))))))))))"

end
