(* ===== verification/Edge_Graph.thy ===== *)
theory Edge_Graph
  imports Edge_Store
begin

text \<open>
  What the edge store keeps: the keyspace of a label represents a finite graph, a set of triples of
  two endpoints and the data of an edge. Creating and deleting edges act on the graph, and the
  listings return its edges. The locale \<open>edge_engine\<close> is the engine with a serialisation that
  round-trips.
\<close>

section \<open>Data\<close>

definition nul_free :: "string \<Rightarrow> bool" where
  "nul_free s \<longleftrightarrow> CHR 0x00 \<notin> set s \<and> utf8_valid (as_bytes s)"

lemma nul_freeD [simp]: "nul_free s \<Longrightarrow> 0 \<notin> set (as_bytes s)" "nul_free s \<Longrightarrow> utf8_valid (as_bytes s)"
  by (simp_all add: nul_free_def nul_in_as_bytes)

lemma lossy_as_bytes [simp]: "nul_free s \<Longrightarrow> lossy (as_bytes s) = s"
  by (simp add: lossy_def)

lemma from_to_le_bytes: "n < 256 ^ k \<Longrightarrow> from_le_bytes (to_le_bytes k n) = n"
proof (induction k arbitrary: n)
  case (Suc k)
  have "n div 256 < 256 ^ k" using Suc.prems by (simp add: div_less_iff_less_mult mult.commute)
  then have "from_le_bytes (to_le_bytes k (n div 256)) = n div 256" by (rule Suc.IH)
  then show ?case by (simp add: from_le_bytes_def unat_of_nat)
qed (simp add: from_le_bytes_def)

lemma edge_data_roundtrip:
  assumes "codec_ok (ee_data X)" "nul_free (ed_id d)" "serialize_edge_data X d = Inr b"
  shows "deserialize_edge_data X b = Inr d"
proof (cases "is_compact d")
  case True
  let ?t = "to_le_bytes 8 (unat (ed_created_at d))"
  have b: "b = EDGE_FORMAT_COMPACT # as_bytes (ed_id d) @ 0x00 # ?t"
    using assms(3) True by (simp add: serialize_edge_data_def)
  have "position (\<lambda>b. b = 0x00) (as_bytes (ed_id d) @ 0x00 # ?t) = Some (length (ed_id d))"
    using position_append_first [of "as_bytes (ed_id d)" "\<lambda>b. b = 0x00" "0x00" ?t] nul_freeD(1) [OF assms(2)]
    by force
  moreover have "from_le_bytes ?t = unat (ed_created_at d)"
    using from_to_le_bytes [of "unat (ed_created_at d)" 8] unsigned_less [of "ed_created_at d", where 'a = nat] by simp
  moreover have "d = \<lparr>ed_id = ed_id d, ed_created_at = ed_created_at d, ed_updated_at = 0, ed_fields = []\<rparr>"
    using True by (cases d) (simp add: is_compact_def)
  ultimately show ?thesis using assms(2) by (simp add: deserialize_edge_data_def b)
next
  case False
  then obtain c where "enc (ee_data X) d = Inr c" "b = EDGE_FORMAT_FULL # c"
    using assms(3) by (auto simp: serialize_edge_data_def and_then_Inr_iff)
  then show ?thesis using assms(1)
    by (simp add: deserialize_edge_data_def codec_ok_def EDGE_FORMAT_FULL_def EDGE_FORMAT_COMPACT_def)
qed

lemma nanoid_to_edge [simp]: "nanoid (to_edge d label f t) = ed_id d"
  by (simp add: nanoid_def to_edge_def strip_prefix_def)

lemma to_edge_simps [simp]:
  "edge_from (to_edge d label f t) = f" "edge_to (to_edge d label f t) = t" "edge_label (to_edge d label f t) = label"
  by (simp_all add: to_edge_def)

section \<open>Keys\<close>

lemmas edge_prefix_defs = EDGE_PREFIX_OUT_def EDGE_PREFIX_IN_def EDGE_PREFIX_ID_def EDGE_PREFIX_IDX_def

lemmas edge_key_defs = out_key_def in_key_def encode_edge_out_key_single_def encode_edge_out_key_multi_def
  encode_edge_in_key_single_def encode_edge_in_key_multi_def encode_edge_id_key_def

lemma append_nul_eq_iff:
  "0 \<notin> set (a :: bytes) \<Longrightarrow> 0 \<notin> set b \<Longrightarrow> a @ 0 # x = b @ 0 # y \<longleftrightarrow> a = b \<and> x = y"
  using append_nul_inj by blast

lemma out_key_eq_iff:
  assumes "nul_free f" "nul_free t" "nul_free f'" "nul_free t'"
  shows "out_key sch f t i = out_key sch f' t' i' \<longleftrightarrow>
    f = f' \<and> t = t' \<and> (es_cardinality sch = MultipleEdges \<longrightarrow> i = i')"
  using assms by (cases "es_cardinality sch") (auto simp: edge_key_defs append_nul_eq_iff)

lemma in_key_eq_iff:
  assumes "nul_free f" "nul_free t" "nul_free f'" "nul_free t'"
  shows "in_key sch t f i = in_key sch t' f' i' \<longleftrightarrow>
    f = f' \<and> t = t' \<and> (es_cardinality sch = MultipleEdges \<longrightarrow> i = i')"
  using assms by (cases "es_cardinality sch") (auto simp: edge_key_defs append_nul_eq_iff)

lemma hd_edge_keys [simp]:
  "hd (out_key sch f t i) = EDGE_PREFIX_OUT" "hd (in_key sch t f i) = EDGE_PREFIX_IN"
  "hd (encode_edge_id_key i) = EDGE_PREFIX_ID" "hd (encode_edge_field_index_key L fl v i) = EDGE_PREFIX_IDX"
  by (simp_all add: edge_key_defs encode_edge_field_index_key_def split: EdgeCardinality.splits)

lemma edge_prefixes_distinct [simp]:
  "EDGE_PREFIX_OUT \<noteq> EDGE_PREFIX_IN" "EDGE_PREFIX_OUT \<noteq> EDGE_PREFIX_ID" "EDGE_PREFIX_OUT \<noteq> EDGE_PREFIX_IDX"
  "EDGE_PREFIX_IN \<noteq> EDGE_PREFIX_ID" "EDGE_PREFIX_IN \<noteq> EDGE_PREFIX_IDX" "EDGE_PREFIX_ID \<noteq> EDGE_PREFIX_IDX"
  by (simp_all add: edge_prefix_defs)

lemmas edge_prefixes_distinct' [simp] = edge_prefixes_distinct [symmetric]

lemma keys_of_kinds_differ [simp]:
  "out_key sch f t i \<noteq> in_key sch t' f' i'" "in_key sch t f i \<noteq> out_key sch f' t' i'"
  "out_key sch f t i \<noteq> encode_edge_id_key i'" "encode_edge_id_key i \<noteq> out_key sch f' t' i'"
  "in_key sch t f i \<noteq> encode_edge_id_key i'" "encode_edge_id_key i \<noteq> in_key sch t' f' i'"
  by (metis hd_edge_keys edge_prefixes_distinct)+

lemma id_key_eq_iff [simp]: "encode_edge_id_key i = encode_edge_id_key j \<longleftrightarrow> i = j"
  by (simp add: encode_edge_id_key_def)

lemma split_bytes_append: "c \<notin> set a \<Longrightarrow> split_bytes c (a @ c # b) = a # split_bytes c b"
  by (induction a) auto

lemma split_bytes_none: "c \<notin> set a \<Longrightarrow> split_bytes c a = [a]"
  by (induction a) auto

lemma parse_out_key [simp]:
  "nul_free f \<Longrightarrow> nul_free t \<Longrightarrow> nul_free i \<Longrightarrow> parse_out_key_target (drop (Suc 0) (out_key sch f t i)) = Inr t"
  by (cases "es_cardinality sch")
    (simp_all add: parse_out_key_target_def edge_key_defs split_bytes_append split_bytes_none Let_def)

section \<open>The graph of a label\<close>

type_synonym graph = "(string \<times> string \<times> EdgeData) set"

definition edge_wf :: "('ks, 'd) edge_env \<Rightarrow> EdgeSchema \<Rightarrow> string \<times> string \<times> EdgeData \<Rightarrow> bool" where
  "edge_wf X sch x \<longleftrightarrow>
     (case x of (f, t, d) \<Rightarrow> nul_free f \<and> nul_free t \<and> nul_free (ed_id d) \<and>
        (\<exists>b. serialize_edge_data X d = Inr b) \<and> (is_undirected sch \<longrightarrow> f \<le> t))"

text \<open>Two edges that are stored under the same OUT key.\<close>

definition same_slot :: "EdgeSchema \<Rightarrow> string \<times> string \<times> EdgeData \<Rightarrow> string \<times> string \<times> EdgeData \<Rightarrow> bool" where
  "same_slot sch x y \<longleftrightarrow>
     fst x = fst y \<and> fst (snd x) = fst (snd y) \<and>
     (es_cardinality sch = MultipleEdges \<longrightarrow> ed_id (snd (snd x)) = ed_id (snd (snd y)))"

definition graph_wf :: "('ks, 'd) edge_env \<Rightarrow> EdgeSchema \<Rightarrow> graph \<Rightarrow> bool" where
  "graph_wf X sch G \<longleftrightarrow> (\<forall>x\<in>G. edge_wf X sch x) \<and> (\<forall>x\<in>G. \<forall>y\<in>G. same_slot sch x y \<longrightarrow> x = y) \<and>
     inj_on (\<lambda>x. ed_id (snd (snd x))) G"

text \<open>The OUT key of an edge seen from one of its endpoints.\<close>

definition seen_from :: "EdgeSchema \<Rightarrow> string \<Rightarrow> string \<Rightarrow> EdgeData \<Rightarrow> graph \<Rightarrow> bool" where
  "seen_from sch f t d G \<longleftrightarrow> (f, t, d) \<in> G \<or> is_undirected sch \<and> (t, f, d) \<in> G"

definition represents :: "('ks, 'd) edge_env \<Rightarrow> EdgeSchema \<Rightarrow> graph \<Rightarrow> (bytes \<rightharpoonup> bytes) \<Rightarrow> bool" where
  "represents X sch G m \<longleftrightarrow> graph_wf X sch G \<and>
     (\<forall>k b. hd k = EDGE_PREFIX_OUT \<and> k \<noteq> [] \<longrightarrow>
        (m k = Some b \<longleftrightarrow> (\<exists>f t d. seen_from sch f t d G \<and> k = out_key sch f t (ed_id d) \<and> serialize_edge_data X d = Inr b))) \<and>
     (\<not> is_undirected sch \<longrightarrow> (\<forall>k b. hd k = EDGE_PREFIX_IN \<and> k \<noteq> [] \<longrightarrow>
        (m k = Some b \<longleftrightarrow> (\<exists>f t d. (f, t, d) \<in> G \<and> k = in_key sch t f (ed_id d) \<and>
           b = (case es_cardinality sch of SingleEdge \<Rightarrow> as_bytes (ed_id d) | MultipleEdges \<Rightarrow> []))))) \<and>
     (\<forall>(f, t, d)\<in>G. m (encode_edge_id_key (ed_id d)) = Some (encode_edge_id_value f t))"

lemma seen_from_wf:
  assumes "graph_wf X sch G" "seen_from sch f t d G"
  shows "nul_free f" "nul_free t" "nul_free (ed_id d)"
  using assms by (auto simp: seen_from_def graph_wf_def edge_wf_def split: prod.splits)

section \<open>Deleting an edge\<close>

definition del_edge :: "EdgeSchema \<Rightarrow> string \<times> string \<times> EdgeData \<Rightarrow> graph \<Rightarrow> graph" where
  "del_edge sch x G = {y \<in> G. \<not> same_slot sch y x}"

lemma graph_wf_subset: "graph_wf X sch G \<Longrightarrow> H \<subseteq> G \<Longrightarrow> graph_wf X sch H"
  unfolding graph_wf_def by (meson inj_on_subset subsetD)

definition fresh_id :: "EdgeSchema \<Rightarrow> string \<times> string \<times> EdgeData \<Rightarrow> graph \<Rightarrow> bool" where
  "fresh_id sch x G \<longleftrightarrow> (\<forall>y\<in>G. ed_id (snd (snd y)) = ed_id (snd (snd x)) \<longrightarrow> same_slot sch y x)"

lemma same_slot_sym: "same_slot sch x y \<longleftrightarrow> same_slot sch y x"
  by (auto simp: same_slot_def)

lemma same_slot_out_key:
  assumes "edge_wf X sch (f, t, d)" "edge_wf X sch (f', t', d')"
  shows "same_slot sch (f', t', d') (f, t, d) \<longleftrightarrow> out_key sch f' t' (ed_id d') = out_key sch f t (ed_id d)"
    and "is_undirected sch \<Longrightarrow>
      out_key sch t' f' (ed_id d') = out_key sch f t (ed_id d) \<Longrightarrow> same_slot sch (f', t', d') (f, t, d)"
    and "is_undirected sch \<Longrightarrow>
      out_key sch f' t' (ed_id d') = out_key sch t f (ed_id d) \<Longrightarrow> same_slot sch (f', t', d') (f, t, d)"
    and "is_undirected sch \<Longrightarrow>
      out_key sch t' f' (ed_id d') = out_key sch t f (ed_id d) \<longleftrightarrow> same_slot sch (f', t', d') (f, t, d)"
  using assms by (auto simp: edge_wf_def same_slot_def out_key_eq_iff)

lemma seen_del:
  assumes "graph_wf X sch G" "edge_wf X sch (f, t, d)"
  shows "seen_from sch f' t' d' (del_edge sch (f, t, d) G) \<longleftrightarrow>
    seen_from sch f' t' d' G \<and> out_key sch f' t' (ed_id d') \<noteq> out_key sch f t (ed_id d) \<and>
      (is_undirected sch \<longrightarrow> out_key sch f' t' (ed_id d') \<noteq> out_key sch t f (ed_id d))"
proof -
  have wf: "edge_wf X sch y" if "y \<in> G" for y using assms(1) that by (simp add: graph_wf_def)
  have "\<not> same_slot sch (f', t', d') (f, t, d) \<longleftrightarrow>
      out_key sch f' t' (ed_id d') \<noteq> out_key sch f t (ed_id d) \<and>
      (is_undirected sch \<longrightarrow> out_key sch f' t' (ed_id d') \<noteq> out_key sch t f (ed_id d))" if "(f', t', d') \<in> G"
    using same_slot_out_key [OF assms(2) wf [OF that]] by blast
  moreover have "\<not> same_slot sch (t', f', d') (f, t, d) \<longleftrightarrow>
      out_key sch f' t' (ed_id d') \<noteq> out_key sch f t (ed_id d) \<and>
      out_key sch f' t' (ed_id d') \<noteq> out_key sch t f (ed_id d)" if "(t', f', d') \<in> G" "is_undirected sch"
    using same_slot_out_key [OF assms(2) wf [OF that(1)]] that(2) by blast
  ultimately show ?thesis unfolding seen_from_def del_edge_def by blast
qed

lemma remove_keys:
  "write_all (map (\<lambda>k. (k, None)) (edge_keys sch f t i)) m =
   m(out_key sch f t i := None,
     (if is_undirected sch then out_key sch t f i else in_key sch t f i) := None,
     encode_edge_id_key i := None)"
  by (simp add: edge_keys_def)

lemma remove_keys_swap:
  "is_undirected sch \<Longrightarrow> write_all (map (\<lambda>k. (k, None)) (edge_keys sch f t i)) m =
     write_all (map (\<lambda>k. (k, None)) (edge_keys sch t f i)) m"
  unfolding remove_keys by (simp add: fun_upd_twist fun_eq_iff)

lemma represents_del:
  assumes rep: "represents X sch G m" and wf: "edge_wf X sch (f, t, d)" and fresh: "fresh_id sch (f, t, d) G"
  shows "represents X sch (del_edge sch (f, t, d) G)
    (write_all (map (\<lambda>k. (k, None)) (edge_keys sch f t (ed_id d))) m)" (is "represents X sch ?G ?m")
proof -
  have gwf: "graph_wf X sch G" using rep by (simp add: represents_def)
  have gwf': "graph_wf X sch ?G" using graph_wf_subset [OF gwf] by (simp add: del_edge_def)
  note seen = seen_del [OF gwf wf]
  have out: "?m k = Some c \<longleftrightarrow> (\<exists>f' t' d'. seen_from sch f' t' d' ?G \<and> k = out_key sch f' t' (ed_id d') \<and>
      serialize_edge_data X d' = Inr c)" if k: "hd k = EDGE_PREFIX_OUT" "k \<noteq> []" for k c
  proof (cases "k = out_key sch f t (ed_id d) \<or> is_undirected sch \<and> k = out_key sch t f (ed_id d)")
    case True
    then show ?thesis unfolding remove_keys seen by auto
  next
    case False
    then have "?m k = m k" using k unfolding remove_keys by auto
    moreover have "m k = Some c \<longleftrightarrow> (\<exists>f' t' d'. seen_from sch f' t' d' G \<and> k = out_key sch f' t' (ed_id d') \<and>
      serialize_edge_data X d' = Inr c)" using rep k unfolding represents_def by blast
    ultimately show ?thesis using False unfolding seen by auto
  qed
  have in_wf: "nul_free f' \<and> nul_free t' \<and> nul_free f \<and> nul_free t" if "(f', t', d') \<in> G" for f' t' d'
    using gwf wf that by (fastforce simp: graph_wf_def edge_wf_def)
  have inn: "?m k = Some c \<longleftrightarrow> (\<exists>f' t' d'. (f', t', d') \<in> ?G \<and> k = in_key sch t' f' (ed_id d') \<and>
      c = (case es_cardinality sch of SingleEdge \<Rightarrow> as_bytes (ed_id d') | MultipleEdges \<Rightarrow> []))"
    if k: "hd k = EDGE_PREFIX_IN" "k \<noteq> []" and dir: "\<not> is_undirected sch" for k c
  proof (cases "k = in_key sch t f (ed_id d)")
    case True
    then show ?thesis using dir in_wf unfolding remove_keys
      by (auto simp: del_edge_def same_slot_def in_key_eq_iff)
  next
    case False
    then have "?m k = m k" using k dir unfolding remove_keys by auto
    moreover have "m k = Some c \<longleftrightarrow> (\<exists>f' t' d'. (f', t', d') \<in> G \<and> k = in_key sch t' f' (ed_id d') \<and>
      c = (case es_cardinality sch of SingleEdge \<Rightarrow> as_bytes (ed_id d') | MultipleEdges \<Rightarrow> []))"
      using rep k dir unfolding represents_def by blast
    moreover have "(f', t', d') \<in> ?G \<and> k = in_key sch t' f' (ed_id d') \<longleftrightarrow>
        (f', t', d') \<in> G \<and> k = in_key sch t' f' (ed_id d')" for f' t' d'
      using False in_wf [of f' t' d'] by (auto simp: del_edge_def same_slot_def in_key_eq_iff)
    ultimately show ?thesis by metis
  qed
  have ids: "?m (encode_edge_id_key (ed_id d')) = Some (encode_edge_id_value f' t')" if y: "(f', t', d') \<in> ?G" for f' t' d'
  proof -
    have "ed_id d' \<noteq> ed_id d" using y fresh by (auto simp: del_edge_def fresh_id_def)
    then show ?thesis using rep y unfolding remove_keys represents_def del_edge_def by auto
  qed
  show ?thesis unfolding represents_def using gwf' out inn ids by blast
qed

section \<open>Creating an edge\<close>

definition add_edge :: "EdgeSchema \<Rightarrow> string \<times> string \<times> EdgeData \<Rightarrow> graph \<Rightarrow> graph" where
  "add_edge sch x G = insert x (del_edge sch x G)"

lemma graph_wf_add:
  assumes "graph_wf X sch G" "edge_wf X sch x" "fresh_id sch x G"
  shows "graph_wf X sch (add_edge sch x G)"
proof -
  let ?G = "add_edge sch x G"
  have wf: "\<forall>y\<in>?G. edge_wf X sch y" using assms(1,2) by (auto simp: graph_wf_def add_edge_def del_edge_def)
  have slots: "y = z" if "y \<in> ?G" "z \<in> ?G" "same_slot sch y z" for y z
  proof -
    have "y = x \<and> z = x \<or> y \<in> G \<and> z \<in> G" using that same_slot_sym [of sch y z] unfolding add_edge_def del_edge_def
      by (metis (no_types, lifting) insertE mem_Collect_eq)
    then show ?thesis using assms(1) that(3) by (auto simp: graph_wf_def)
  qed
  have ids: "inj_on (\<lambda>x. ed_id (snd (snd x))) ?G"
  proof (rule inj_onI)
    fix y z assume yz: "y \<in> ?G" "z \<in> ?G" "ed_id (snd (snd y)) = ed_id (snd (snd z))"
    then have "y = x \<and> z = x \<or> y \<in> G \<and> z \<in> G"
      using assms(3) unfolding add_edge_def del_edge_def fresh_id_def by (metis (no_types, lifting) insertE mem_Collect_eq)
    then show "y = z" using assms(1) yz(3) by (auto simp: graph_wf_def inj_on_def)
  qed
  show ?thesis using wf slots ids unfolding graph_wf_def by blast
qed

lemma seen_add:
  assumes "graph_wf X sch G" "edge_wf X sch (f, t, d)"
  shows "seen_from sch f' t' d' (add_edge sch (f, t, d) G) \<longleftrightarrow>
    d' = d \<and> (f' = f \<and> t' = t \<or> is_undirected sch \<and> f' = t \<and> t' = f) \<or>
    seen_from sch f' t' d' G \<and> out_key sch f' t' (ed_id d') \<noteq> out_key sch f t (ed_id d) \<and>
      (is_undirected sch \<longrightarrow> out_key sch f' t' (ed_id d') \<noteq> out_key sch t f (ed_id d))"
  using seen_del [OF assms] unfolding seen_from_def add_edge_def by blast

lemma write_entries:
  "write_all (map (\<lambda>(k, v). (k, Some v)) (edge_entries sch f t i b)) m =
   m(out_key sch f t i \<mapsto> b,
     (if is_undirected sch then out_key sch t f i else in_key sch t f i) \<mapsto>
       (if is_undirected sch then b else case es_cardinality sch of SingleEdge \<Rightarrow> as_bytes i | MultipleEdges \<Rightarrow> []),
     encode_edge_id_key i \<mapsto> encode_edge_id_value f t)"
  by (simp add: edge_entries_def)

lemma represents_add:
  assumes rep: "represents X sch G m" and wf: "edge_wf X sch (f, t, d)" and fresh: "fresh_id sch (f, t, d) G"
    and b: "serialize_edge_data X d = Inr b"
  shows "represents X sch (add_edge sch (f, t, d) G)
    (write_all (map (\<lambda>(k, v). (k, Some v)) (edge_entries sch f t (ed_id d) b)) m)" (is "represents X sch ?G ?m")
proof -
  have gwf: "graph_wf X sch G" and gwf': "graph_wf X sch ?G"
    using rep wf fresh by (auto simp: represents_def graph_wf_add)
  note seen = seen_add [OF gwf wf]
  have out: "?m k = Some c \<longleftrightarrow> (\<exists>f' t' d'. seen_from sch f' t' d' ?G \<and> k = out_key sch f' t' (ed_id d') \<and>
      serialize_edge_data X d' = Inr c)" if k: "hd k = EDGE_PREFIX_OUT" "k \<noteq> []" for k c
  proof (cases "k = out_key sch f t (ed_id d) \<or> is_undirected sch \<and> k = out_key sch t f (ed_id d)")
    case True
    then have "?m k = Some b" unfolding write_entries by auto
    moreover have "seen_from sch f' t' d' ?G \<and> k = out_key sch f' t' (ed_id d') \<Longrightarrow> d' = d" for f' t' d'
      using True unfolding seen by auto
    moreover have "\<exists>f' t'. seen_from sch f' t' d ?G \<and> k = out_key sch f' t' (ed_id d)"
      using True unfolding seen by auto
    ultimately show ?thesis using b by (metis option.inject sum.inject(2))
  next
    case False
    then have "?m k = m k" using k unfolding write_entries by auto
    moreover have "m k = Some c \<longleftrightarrow> (\<exists>f' t' d'. seen_from sch f' t' d' G \<and> k = out_key sch f' t' (ed_id d') \<and>
      serialize_edge_data X d' = Inr c)" using rep k unfolding represents_def by blast
    ultimately show ?thesis using False unfolding seen by auto
  qed
  have in_wf: "nul_free f' \<and> nul_free t' \<and> nul_free f \<and> nul_free t" if "(f', t', d') \<in> G" for f' t' d'
    using gwf wf that by (fastforce simp: graph_wf_def edge_wf_def)
  have inn: "?m k = Some c \<longleftrightarrow> (\<exists>f' t' d'. (f', t', d') \<in> ?G \<and> k = in_key sch t' f' (ed_id d') \<and>
      c = (case es_cardinality sch of SingleEdge \<Rightarrow> as_bytes (ed_id d') | MultipleEdges \<Rightarrow> []))"
    if k: "hd k = EDGE_PREFIX_IN" "k \<noteq> []" and dir: "\<not> is_undirected sch" for k c
  proof (cases "k = in_key sch t f (ed_id d)")
    case True
    then have "?m k = Some (case es_cardinality sch of SingleEdge \<Rightarrow> as_bytes (ed_id d) | MultipleEdges \<Rightarrow> [])"
      using dir unfolding write_entries by simp
    moreover have "d' = d" if "(f', t', d') \<in> ?G" "k = in_key sch t' f' (ed_id d')" for f' t' d'
      using that True in_wf [of f' t' d'] by (auto simp: add_edge_def del_edge_def same_slot_def in_key_eq_iff)
    moreover have "(f, t, d) \<in> ?G" by (simp add: add_edge_def del_edge_def)
    ultimately show ?thesis using True by auto
  next
    case False
    then have "?m k = m k" using k dir unfolding write_entries by auto
    moreover have "m k = Some c \<longleftrightarrow> (\<exists>f' t' d'. (f', t', d') \<in> G \<and> k = in_key sch t' f' (ed_id d') \<and>
      c = (case es_cardinality sch of SingleEdge \<Rightarrow> as_bytes (ed_id d') | MultipleEdges \<Rightarrow> []))"
      using rep k dir unfolding represents_def by blast
    moreover have "(f', t', d') \<in> ?G \<and> k = in_key sch t' f' (ed_id d') \<longleftrightarrow>
        (f', t', d') \<in> G \<and> k = in_key sch t' f' (ed_id d')" for f' t' d'
      using False in_wf [of f' t' d'] by (auto simp: add_edge_def del_edge_def same_slot_def in_key_eq_iff)
    ultimately show ?thesis by metis
  qed
  have ids: "?m (encode_edge_id_key (ed_id d')) = Some (encode_edge_id_value f' t')" if "(f', t', d') \<in> ?G" for f' t' d'
  proof (cases "ed_id d' = ed_id d")
    case True
    then have "(f', t', d') = (f, t, d)" using that fresh by (auto simp: add_edge_def del_edge_def fresh_id_def)
    then show ?thesis unfolding write_entries by simp
  next
    case False
    then have "(f', t', d') \<in> G" using that by (auto simp: add_edge_def del_edge_def)
    then show ?thesis using rep False unfolding write_entries represents_def by auto
  qed
  show ?thesis unfolding represents_def using gwf' out inn ids by blast
qed

section \<open>Listing the edges of a node\<close>

lemma list_out_loop_spec:
  assumes "yields items kvs" "list_out_loop X label from limit items None es0 = Inr es" "length es0 \<le> Suc limit"
    and "\<And>k v. (k, v) \<in> set kvs \<Longrightarrow> parse_out_key_target (drop 1 k) = Inr (tgt (k, v)) \<and> deserialize_edge_data X v = Inr (dat (k, v))"
  shows "es = take (Suc limit) (es0 @ map (\<lambda>kv. to_edge (dat kv) label from (tgt kv)) kvs)"
  using assms
proof (induction items arbitrary: kvs es0)
  case Nil
  then show ?case by (simp add: yields_simps)
next
  case (Cons item items)
  then obtain k v where item: "item = Inr (k, v)" by (cases item) auto
  then obtain kvs' where kvs: "kvs = (k, v) # kvs'" and y: "yields items kvs'"
    using Cons.prems(1) by (auto simp: yields_simps)
  have kv: "parse_out_key_target (drop 1 k) = Inr (tgt (k, v))" "deserialize_edge_data X v = Inr (dat (k, v))"
    using Cons.prems(4) kvs by auto
  show ?case
  proof (cases "limit < length es0")
    case True
    then show ?thesis using Cons.prems(2,3) kv item by simp
  next
    case False
    then have "list_out_loop X label from limit items None (es0 @ [to_edge (dat (k, v)) label from (tgt (k, v))]) = Inr es"
      using Cons.prems(2) kv item by simp
    from Cons.IH [OF y this] False Cons.prems(4) show ?thesis by (simp add: kvs)
  qed
qed

lemma list_in_loop_spec:
  assumes "yields items kvs" "list_in_loop X ks sch label to limit s items None es0 = Inr es" "length es0 \<le> Suc limit"
    and "\<And>k v. (k, v) \<in> set kvs \<Longrightarrow> parse_in_key_and_value (drop 1 k) v sch = Inr (src (k, v), ed_id (dat (k, v))) \<and>
      (\<forall>r. disk_get X ks (out_key sch (src (k, v)) to (ed_id (dat (k, v)))) s = Inr r \<longrightarrow>
         decode_opt_edge X label (src (k, v)) to r = Inr (Some (to_edge (dat (k, v)) label (src (k, v)) to)))"
  shows "es = take (Suc limit) (es0 @ map (\<lambda>kv. to_edge (dat kv) label (src kv) to) kvs)"
  using assms
proof (induction items arbitrary: kvs es0)
  case Nil
  then show ?case by (simp add: yields_simps)
next
  case (Cons item items)
  then obtain k v where item: "item = Inr (k, v)" by (cases item) auto
  then obtain kvs' where kvs: "kvs = (k, v) # kvs'" and y: "yields items kvs'"
    using Cons.prems(1) by (auto simp: yields_simps)
  note kv = Cons.prems(4) [of k v]
  show ?case
  proof (cases "limit < length es0")
    case True
    then show ?thesis using Cons.prems(2,3) kv item kvs by simp
  next
    case False
    then have "list_in_loop X ks sch label to limit s items None (es0 @ [to_edge (dat (k, v)) label (src (k, v)) to]) = Inr es"
      using Cons.prems(2) kv item kvs by (auto simp: and_then_Inr_iff)
    from Cons.IH [OF y this] False Cons.prems(4) show ?thesis by (simp add: kvs)
  qed
qed

text \<open>The listing of a node: all its edges, or the first page of them and a cursor.\<close>

definition listing :: "Edge set \<Rightarrow> nat \<Rightarrow> Edge list \<times> string option \<Rightarrow> bool" where
  "listing A limit r \<longleftrightarrow> (case r of (es, cursor) \<Rightarrow> distinct es \<and> set es \<subseteq> A \<and>
     (if card A \<le> limit then set es = A \<and> cursor = None
      else length es = limit \<and> es \<noteq> [] \<and> cursor = Some (nanoid (last es))))"

lemma listing_page:
  assumes "distinct es" "set es = A" "0 < limit"
  shows "listing A limit (page limit (take (Suc limit) es))"
proof -
  have card: "card A = length es" using assms by (metis distinct_card)
  show ?thesis
  proof (cases "length es \<le> limit")
    case True
    then show ?thesis using assms card by (simp add: listing_def page_def)
  next
    case False
    then have "take (Suc limit) es \<noteq> []" "butlast (take (Suc limit) es) = take limit es"
      using assms(3) by (auto simp: butlast_take)
    then show ?thesis using False assms card
      by (auto simp: listing_def page_def Let_def dest: in_set_takeD)
  qed
qed

definition out_edges :: "EdgeSchema \<Rightarrow> string \<Rightarrow> string \<Rightarrow> graph \<Rightarrow> Edge set" where
  "out_edges sch label f G = {to_edge d label f t | t d. seen_from sch f t d G}"

definition in_edges :: "string \<Rightarrow> string \<Rightarrow> graph \<Rightarrow> Edge set" where
  "in_edges label t G = {to_edge d label f t | f d. (f, t, d) \<in> G}"

lemma entries_key_eq:
  "a \<in> set (entries m P) \<Longrightarrow> b \<in> set (entries m P) \<Longrightarrow> fst a = fst b \<Longrightarrow> a = b"
  by (auto simp: entries_def)

lemma listing_of_entries:
  assumes "es = take (Suc limit) (map g (entries m P))" "g ` set (entries m P) = A" "0 < limit"
    and "\<And>a b. a \<in> set (entries m P) \<Longrightarrow> b \<in> set (entries m P) \<Longrightarrow> g a = g b \<Longrightarrow> fst a = fst b"
  shows "listing A limit (page limit es)"
proof -
  have "inj_on g (set (entries m P))" 
    by (intro inj_onI entries_key_eq assms(4))
  then have "distinct (map g (entries m P))" using distinct_entries [of m P] by (simp add: distinct_map)
  then show ?thesis unfolding assms(1) using assms(2,3) by (intro listing_page) simp_all
qed

locale edge_engine = engine "ee_engine X" content for X :: "('ks, 'd) edge_env" and content +
  assumes data_codec: "codec_ok (ee_data X)"
begin

lemma seen_from_serialized:
  assumes "graph_wf X sch G" "seen_from sch f t d G"
  obtains b where "serialize_edge_data X d = Inr b" "deserialize_edge_data X b = Inr d"
proof -
  have "edge_wf X sch (f, t, d) \<or> edge_wf X sch (t, f, d)"
    using assms unfolding seen_from_def graph_wf_def by blast
  then obtain b where b: "serialize_edge_data X d = Inr b" by (auto simp: edge_wf_def)
  then show thesis using that edge_data_roundtrip [OF data_codec seen_from_wf(3) [OF assms] b] by blast
qed

lemma out_range_entries:
  assumes "represents X sch G m" "finite (dom m)" "nul_free f"
  shows "set (entries m (in_range (Some (encode_edge_out_prefix_v2 f)) (Some (encode_edge_out_prefix_end_v2 f)))) =
    {(k, b). \<exists>t d. seen_from sch f t d G \<and> k = out_key sch f t (ed_id d) \<and> serialize_edge_data X d = Inr b}"
    (is "?L = ?R")
proof -
  have gwf: "graph_wf X sch G" using assms(1) by (simp add: represents_def)
  have range: "in_range (Some (encode_edge_out_prefix_v2 f)) (Some (encode_edge_out_prefix_end_v2 f)) k \<longleftrightarrow>
      (\<exists>r. k = (EDGE_PREFIX_OUT # as_bytes f) @ 0x00 # r)" for k
    using between_nul [of "EDGE_PREFIX_OUT # as_bytes f" k]
    by (simp add: in_range_def encode_edge_out_prefix_v2_def encode_edge_out_prefix_end_v2_def)
  have "m k = Some b \<longleftrightarrow> (\<exists>t d. seen_from sch f t d G \<and> k = out_key sch f t (ed_id d) \<and> serialize_edge_data X d = Inr b)"
    if k: "k = (EDGE_PREFIX_OUT # as_bytes f) @ 0x00 # r" for k b r
  proof -
    have "hd k = EDGE_PREFIX_OUT" "k \<noteq> []" using k by simp_all
    then have "m k = Some b \<longleftrightarrow> (\<exists>f' t d. seen_from sch f' t d G \<and> k = out_key sch f' t (ed_id d) \<and> serialize_edge_data X d = Inr b)"
      using assms(1) unfolding represents_def by blast
    moreover have "f' = f" if "k = out_key sch f' t i" "seen_from sch f' t d G" for f' t i d
      using that(1) k seen_from_wf(1) [OF gwf that(2)] assms(3)
      by (cases "es_cardinality sch") (auto simp: edge_key_defs append_nul_eq_iff)
    ultimately show ?thesis by metis
  qed
  moreover have "\<exists>r. out_key sch f t i = (EDGE_PREFIX_OUT # as_bytes f) @ 0x00 # r" for t i
    by (cases "es_cardinality sch") (simp_all add: edge_key_defs)
  ultimately have "m k = Some b \<and> (\<exists>r. k = (EDGE_PREFIX_OUT # as_bytes f) @ 0x00 # r) \<longleftrightarrow>
      (\<exists>t d. seen_from sch f t d G \<and> k = out_key sch f t (ed_id d) \<and> serialize_edge_data X d = Inr b)" for k b
    by metis
  then show ?thesis unfolding set_entries [OF assms(2)] range by simp
qed

lemma same_id_same_edge:
  assumes "graph_wf X sch G" "seen_from sch f t d G" "seen_from sch f' t' d' G" "ed_id d = ed_id d'"
  shows "d = d'"
proof -
  obtain x y where "x \<in> G" "y \<in> G" "snd (snd x) = d" "snd (snd y) = d'"
    using assms(2,3) unfolding seen_from_def by (metis snd_conv)
  then show ?thesis using assms(1,4) unfolding graph_wf_def inj_on_def by metis
qed

lemma list_out_exact:
  assumes sch: "get_schema s label = Some sch" and rep: "represents X sch G (content (disk s (edge_ks label)))" and f: "nul_free f"
    and res: "list_out X f label None limit s = Inr r"
  shows "listing (out_edges sch label f G) (clamp_limit limit) r"
proof -
  let ?lim = "clamp_limit limit" and ?m = "content (disk s (edge_ks label))"
  let ?kvs = "entries ?m (in_range (Some (encode_edge_out_prefix_v2 f)) (Some (encode_edge_out_prefix_end_v2 f)))"
  define tgt where "tgt kv = (case parse_out_key_target (drop 1 (fst kv)) of Inr t \<Rightarrow> t | Inl _ \<Rightarrow> [])" for kv :: "bytes \<times> bytes"
  define dat where "dat kv = (case deserialize_edge_data X (snd kv) of Inr d \<Rightarrow> d | Inl _ \<Rightarrow> undefined)" for kv :: "bytes \<times> bytes"
  have gwf: "graph_wf X sch G" using rep by (simp add: represents_def)
  have fin: "finite (dom ?m)" by (simp add: content_finite)
  note kvs = out_range_entries [OF rep fin f]
  have kv: "\<exists>t d. seen_from sch f t d G \<and> fst kv = out_key sch f t (ed_id d) \<and> tgt kv = t \<and> dat kv = d \<and>
      parse_out_key_target (drop 1 (fst kv)) = Inr t \<and> deserialize_edge_data X (snd kv) = Inr d" if "kv \<in> set ?kvs" for kv
  proof -
    have "kv \<in> {(k, b). \<exists>t d. seen_from sch f t d G \<and> k = out_key sch f t (ed_id d) \<and> serialize_edge_data X d = Inr b}"
      using that by (simp only: kvs)
    then obtain t d b where td: "seen_from sch f t d G" "kv = (out_key sch f t (ed_id d), b)" "serialize_edge_data X d = Inr b"
      by auto
    have "deserialize_edge_data X b = Inr d" using seen_from_serialized [OF gwf td(1)] td(3) by auto
    then show ?thesis using td seen_from_wf [OF gwf td(1)] by (auto simp: tgt_def dat_def)
  qed
  obtain es where es: "list_out_loop X label f ?lim
      (range_keys (ee_engine X) (edge_ks label) (Some (encode_edge_out_prefix_v2 f)) (Some (encode_edge_out_prefix_end_v2 f)) s) None [] = Inr es"
    "r = page ?lim es"
    using res sch by (auto simp: list_out_def get_keyspace_def and_then_Inr_iff Let_def split: if_splits)
  have take: "es = take (Suc ?lim) ([] @ map (\<lambda>kv. to_edge (dat kv) label f (tgt kv)) ?kvs)"
  proof (rule list_out_loop_spec [OF _ es(1)])
    show "yields (range_keys (ee_engine X) (edge_ks label) (Some (encode_edge_out_prefix_v2 f)) (Some (encode_edge_out_prefix_end_v2 f)) s) ?kvs"
      using range_yields by (simp add: range_keys_def)
  qed (use kv in force)+
  have inj: "fst a = fst b" if ab: "a \<in> set ?kvs" "b \<in> set ?kvs"
    "to_edge (dat a) label f (tgt a) = to_edge (dat b) label f (tgt b)" for a b
  proof -
    have "tgt a = tgt b" "ed_id (dat a) = ed_id (dat b)"
      using ab(3) by (metis to_edge_simps(2)) (metis nanoid_to_edge ab(3))
    then show ?thesis using kv [OF ab(1)] kv [OF ab(2)] by auto
  qed
  have "(\<lambda>kv. to_edge (dat kv) label f (tgt kv)) ` set ?kvs = out_edges sch label f G"
  proof (intro set_eqI iffI)
    fix e assume "e \<in> (\<lambda>kv. to_edge (dat kv) label f (tgt kv)) ` set ?kvs"
    then show "e \<in> out_edges sch label f G" using kv by (fastforce simp: out_edges_def)
  next
    fix e assume "e \<in> out_edges sch label f G"
    then obtain t d where td: "e = to_edge d label f t" "seen_from sch f t d G" by (auto simp: out_edges_def)
    obtain b where b: "serialize_edge_data X d = Inr b" "deserialize_edge_data X b = Inr d"
      using seen_from_serialized [OF gwf td(2)] by blast
    then have kvin: "(out_key sch f t (ed_id d), b) \<in> set ?kvs" using td(2) unfolding kvs by auto
    have "tgt (out_key sch f t (ed_id d), b) = t" "dat (out_key sch f t (ed_id d), b) = d"
      using b(2) seen_from_wf [OF gwf td(2)] f by (simp_all add: tgt_def dat_def)
    then show "e \<in> (\<lambda>kv. to_edge (dat kv) label f (tgt kv)) ` set ?kvs" using td(1) by (intro rev_image_eqI [OF kvin]) simp
  qed
  moreover have "0 < ?lim" by (simp add: clamp_limit_def)
  ultimately show ?thesis unfolding es(2) by (rule listing_of_entries [OF take [unfolded append_Nil] _ _ inj])
qed

lemma in_range_entries:
  assumes "represents X sch G m" "finite (dom m)" "nul_free t" "\<not> is_undirected sch"
  shows "set (entries m (in_range (Some (encode_edge_in_prefix_v2 t)) (Some (encode_edge_in_prefix_end_v2 t)))) =
    {(k, b). \<exists>f d. (f, t, d) \<in> G \<and> k = in_key sch t f (ed_id d) \<and>
       b = (case es_cardinality sch of SingleEdge \<Rightarrow> as_bytes (ed_id d) | MultipleEdges \<Rightarrow> [])}"
proof -
  have gwf: "graph_wf X sch G" using assms(1) by (simp add: represents_def)
  have range: "in_range (Some (encode_edge_in_prefix_v2 t)) (Some (encode_edge_in_prefix_end_v2 t)) k \<longleftrightarrow>
      (\<exists>r. k = (EDGE_PREFIX_IN # as_bytes t) @ 0x00 # r)" for k
    using between_nul [of "EDGE_PREFIX_IN # as_bytes t" k]
    by (simp add: in_range_def encode_edge_in_prefix_v2_def encode_edge_in_prefix_end_v2_def)
  let ?v = "\<lambda>d. case es_cardinality sch of SingleEdge \<Rightarrow> as_bytes (ed_id d) | MultipleEdges \<Rightarrow> []"
  have "m k = Some b \<longleftrightarrow> (\<exists>f d. (f, t, d) \<in> G \<and> k = in_key sch t f (ed_id d) \<and> b = ?v d)"
    if k: "k = (EDGE_PREFIX_IN # as_bytes t) @ 0x00 # r" for k b r
  proof -
    have "hd k = EDGE_PREFIX_IN" "k \<noteq> []" using k by simp_all
    then have "m k = Some b \<longleftrightarrow> (\<exists>f t' d. (f, t', d) \<in> G \<and> k = in_key sch t' f (ed_id d) \<and> b = ?v d)"
      using assms(1,4) unfolding represents_def by blast
    moreover have "t' = t" if "k = in_key sch t' f i" "(f, t', d) \<in> G" for f t' i d
    proof -
      have "nul_free t'" using gwf that(2) by (auto simp: graph_wf_def edge_wf_def)
      then show ?thesis using that(1) k assms(3)
        by (cases "es_cardinality sch") (auto simp: edge_key_defs append_nul_eq_iff)
    qed
    ultimately show ?thesis by metis
  qed
  moreover have "\<exists>r. in_key sch t f i = (EDGE_PREFIX_IN # as_bytes t) @ 0x00 # r" for f i
    by (cases "es_cardinality sch") (simp_all add: edge_key_defs)
  ultimately have "m k = Some b \<and> (\<exists>r. k = (EDGE_PREFIX_IN # as_bytes t) @ 0x00 # r) \<longleftrightarrow>
      (\<exists>f d. (f, t, d) \<in> G \<and> k = in_key sch t f (ed_id d) \<and> b = ?v d)" for k b
    by metis
  then show ?thesis unfolding set_entries [OF assms(2)] range by simp
qed

lemma parse_in_key:
  "nul_free f \<Longrightarrow> nul_free t \<Longrightarrow> nul_free i \<Longrightarrow>
   parse_in_key_and_value (drop (Suc 0) (in_key sch t f i))
     (case es_cardinality sch of SingleEdge \<Rightarrow> as_bytes i | MultipleEdges \<Rightarrow> []) sch = Inr (f, i)"
  by (cases "es_cardinality sch")
    (simp_all add: parse_in_key_and_value_def edge_key_defs split_bytes_append split_bytes_none Let_def)

lemma list_in_exact:
  assumes sch: "get_schema s label = Some sch" and rep: "represents X sch G (content (disk s (edge_ks label)))"
    and t: "nul_free t" and dir: "\<not> is_undirected sch" and res: "list_in X t label None limit s = Inr r"
  shows "listing (in_edges label t G) (clamp_limit limit) r"
proof -
  let ?lim = "clamp_limit limit" and ?m = "content (disk s (edge_ks label))"
  let ?kvs = "entries ?m (in_range (Some (encode_edge_in_prefix_v2 t)) (Some (encode_edge_in_prefix_end_v2 t)))"
  let ?v = "\<lambda>d. case es_cardinality sch of SingleEdge \<Rightarrow> as_bytes (ed_id d) | MultipleEdges \<Rightarrow> []"
  have gwf: "graph_wf X sch G" using rep by (simp add: represents_def)
  have nul: "nul_free f \<and> nul_free (ed_id d)" if "(f, t, d) \<in> G" for f d
    using gwf that by (auto simp: graph_wf_def edge_wf_def)
  have kvs: "set ?kvs = {(k, b). \<exists>f d. (f, t, d) \<in> G \<and> k = in_key sch t f (ed_id d) \<and> b = ?v d}"
    by (rule in_range_entries [OF rep content_finite t dir])
  have uniq: "f = f' \<and> d = d'" if "(f, t, d) \<in> G" "(f', t, d') \<in> G" "in_key sch t f (ed_id d) = in_key sch t f' (ed_id d')" for f d f' d'
  proof -
    have "same_slot sch (f, t, d) (f', t, d')"
      using that(3) nul [OF that(1)] nul [OF that(2)] t by (auto simp: in_key_eq_iff same_slot_def)
    then show ?thesis using gwf that(1,2) unfolding graph_wf_def by blast
  qed
  define fd where "fd kv = (SOME fd. (fst fd, t, snd fd) \<in> G \<and> fst kv = in_key sch t (fst fd) (ed_id (snd fd)))" for kv :: "bytes \<times> bytes"
  have fd: "(fst (fd kv), t, snd (fd kv)) \<in> G \<and> kv = (in_key sch t (fst (fd kv)) (ed_id (snd (fd kv))), ?v (snd (fd kv)))"
    if "kv \<in> set ?kvs" for kv
  proof -
    have "kv \<in> {(k, b). \<exists>f d. (f, t, d) \<in> G \<and> k = in_key sch t f (ed_id d) \<and> b = ?v d}"
      using that by (simp only: kvs)
    then obtain f d where f: "(f, t, d) \<in> G" "kv = (in_key sch t f (ed_id d), ?v d)" by auto
    have "fd kv = (f, d)" unfolding fd_def
      by (rule some_equality) (use f uniq in \<open>auto intro: prod_eqI\<close>)
    from f show ?thesis unfolding \<open>fd kv = (f, d)\<close> fst_conv snd_conv by simp
  qed
  obtain es where es: "list_in_loop X (edge_ks label) sch label t ?lim s
      (range_keys (ee_engine X) (edge_ks label) (Some (encode_edge_in_prefix_v2 t)) (Some (encode_edge_in_prefix_end_v2 t)) s) None [] = Inr es"
    "r = page ?lim es"
    using res sch dir by (auto simp: list_in_def get_keyspace_def and_then_Inr_iff Let_def split: if_splits)
  have take: "es = take (Suc ?lim) ([] @ map (\<lambda>kv. to_edge (snd (fd kv)) label (fst (fd kv)) t) ?kvs)"
  proof (rule list_in_loop_spec [OF _ es(1)])
    show "yields (range_keys (ee_engine X) (edge_ks label) (Some (encode_edge_in_prefix_v2 t)) (Some (encode_edge_in_prefix_end_v2 t)) s) ?kvs"
      using range_yields by (simp add: range_keys_def)
    fix k v assume kv: "(k, v) \<in> set ?kvs"
    obtain f d where fd': "fd (k, v) = (f, d)" by fastforce
    then have f: "(f, t, d) \<in> G" "k = in_key sch t f (ed_id d)" "v = ?v d" using fd [OF kv, unfolded fd' fst_conv snd_conv] by simp_all
    obtain b where b: "serialize_edge_data X d = Inr b" "deserialize_edge_data X b = Inr d"
      using seen_from_serialized [OF gwf, of f t d] f(1) by (auto simp: seen_from_def)
    have "hd (out_key sch f t (ed_id d)) = EDGE_PREFIX_OUT \<and> out_key sch f t (ed_id d) \<noteq> []"
      by (cases "es_cardinality sch") (simp_all add: edge_key_defs)
    then have "?m (out_key sch f t (ed_id d)) = Some b"
      using rep f(1) b(1) unfolding represents_def seen_from_def by blast
    then have "decode_opt_edge X label f t r = Inr (Some (to_edge d label f t))"
      if "disk_get X (edge_ks label) (out_key sch f t (ed_id d)) s = Inr r" for r
      using get_content that b(2) by (fastforce simp: disk_get_def decode_opt_edge_def)
    then show "parse_in_key_and_value (drop 1 k) v sch = Inr (fst (fd (k, v)), ed_id (snd (fd (k, v)))) \<and>
      (\<forall>r. disk_get X (edge_ks label) (out_key sch (fst (fd (k, v))) t (ed_id (snd (fd (k, v))))) s = Inr r \<longrightarrow>
         decode_opt_edge X label (fst (fd (k, v))) t r = Inr (Some (to_edge (snd (fd (k, v))) label (fst (fd (k, v))) t)))"
      using fd' f(2,3) parse_in_key nul [OF f(1)] t by simp
  qed simp
  have inj: "fst a = fst b" if ab: "a \<in> set ?kvs" "b \<in> set ?kvs"
    "to_edge (snd (fd a)) label (fst (fd a)) t = to_edge (snd (fd b)) label (fst (fd b)) t" for a b
  proof -
    have "fst (fd a) = fst (fd b)" "ed_id (snd (fd a)) = ed_id (snd (fd b))"
      using ab(3) by (metis to_edge_simps(1)) (metis nanoid_to_edge ab(3))
    then show ?thesis using fd [OF ab(1)] fd [OF ab(2)] by (metis fst_conv)
  qed
  have "(\<lambda>kv. to_edge (snd (fd kv)) label (fst (fd kv)) t) ` set ?kvs = in_edges label t G"
  proof (intro set_eqI iffI)
    fix e assume "e \<in> (\<lambda>kv. to_edge (snd (fd kv)) label (fst (fd kv)) t) ` set ?kvs"
    then show "e \<in> in_edges label t G" using fd by (fastforce simp: in_edges_def)
  next
    fix e assume "e \<in> in_edges label t G"
    then obtain f d where f: "e = to_edge d label f t" "(f, t, d) \<in> G" by (auto simp: in_edges_def)
    then have kvin: "(in_key sch t f (ed_id d), ?v d) \<in> set ?kvs" unfolding kvs by blast
    then have "fd (in_key sch t f (ed_id d), ?v d) = (f, d)" using fd [OF kvin] uniq [OF f(2)] by (metis fst_conv prod.collapse)
    then show "e \<in> (\<lambda>kv. to_edge (snd (fd kv)) label (fst (fd kv)) t) ` set ?kvs"
      using f(1) by (intro rev_image_eqI [OF kvin]) simp
  qed
  moreover have "0 < ?lim" by (simp add: clamp_limit_def)
  ultimately show ?thesis unfolding es(2) by (rule listing_of_entries [OF take [unfolded append_Nil] _ _ inj])
qed

end

end
