(* ===== verification/Edge_Operations.thy ===== *)
theory Edge_Operations
  imports Edge_Graph
begin

text \<open>
  What the operations of \<open>storage/edges/store.rs\<close> do to the graph of a label: creating an edge adds
  it, reading and listing return exactly what the graph holds, and deleting a node deletes its edges
  as long as a listing can hold them.
\<close>

section \<open>Creating and reading\<close>

lemma represents_cong:
  assumes "represents X sch G m" "\<And>k. hd k \<noteq> EDGE_PREFIX_IDX \<Longrightarrow> k \<noteq> [] \<Longrightarrow> m' k = m k"
  shows "represents X sch G m'"
proof -
  have "encode_edge_id_key i \<noteq> []" for i by (simp add: encode_edge_id_key_def)
  then show ?thesis using assms unfolding represents_def by auto
qed

context engine
begin

lemma for_each_insert:
  "for_each kvs (\<lambda>(k, v). insert_key E nm k v) s = (s', Inr u) \<Longrightarrow>
   \<exists>ks. s' = s\<lparr>disk := (disk s)(nm := ks)\<rparr> \<and>
     content ks = write_all (map (\<lambda>(k, v). (k, Some v)) kvs) (content (disk s nm))"
proof (induction kvs arbitrary: s)
  case (Cons kv kvs)
  obtain k v where kv: "kv = (k, v)" by fastforce
  from Cons.prems obtain s1 where "insert_key E nm k v s = (s1, Inr ())"
    "for_each kvs (\<lambda>(k, v). insert_key E nm k v) s1 = (s', Inr u)"
    by (auto simp: kv try_do_Inr_iff)
  then obtain k1 k2 where "s1 = s\<lparr>disk := (disk s)(nm := k1)\<rparr>" "content k1 = (content (disk s nm))(k \<mapsto> v)"
    "s' = s1\<lparr>disk := (disk s1)(nm := k2)\<rparr>"
    "content k2 = write_all (map (\<lambda>(k, v). (k, Some v)) kvs) (content (disk s1 nm))"
    using insert_key_ok [of nm k v s s1] Cons.IH [of s1] by blast
  then have "s' = s\<lparr>disk := (disk s)(nm := k2)\<rparr>"
    "content k2 = write_all (map (\<lambda>(k, v). (k, Some v)) (kv # kvs)) (content (disk s nm))" by (simp_all add: kv)
  then show ?case by blast
next
  case Nil
  then have "s' = s\<lparr>disk := (disk s)(nm := disk s nm)\<rparr>" by simp
  then show ?case by (metis list.simps(8) write_all_simps(1))
qed

lemma for_each_remove:
  "for_each ks (remove_key E nm) s = (s', Inr u) \<Longrightarrow>
   \<exists>ks'. s' = s\<lparr>disk := (disk s)(nm := ks')\<rparr> \<and>
     content ks' = write_all (map (\<lambda>k. (k, None)) ks) (content (disk s nm))"
proof (induction ks arbitrary: s)
  case (Cons k ks)
  from Cons.prems obtain s1 where "remove_key E nm k s = (s1, Inr ())" "for_each ks (remove_key E nm) s1 = (s', Inr u)"
    by (auto simp: try_do_Inr_iff)
  then obtain k1 k2 where "s1 = s\<lparr>disk := (disk s)(nm := k1)\<rparr>" "content k1 = (content (disk s nm))(k := None)"
    "s' = s1\<lparr>disk := (disk s1)(nm := k2)\<rparr>"
    "content k2 = write_all (map (\<lambda>k. (k, None)) ks) (content (disk s1 nm))"
    using remove_key_ok [of nm k s s1] Cons.IH [of s1] by blast
  then have "s' = s\<lparr>disk := (disk s)(nm := k2)\<rparr>"
    "content k2 = write_all (map (\<lambda>k. (k, None)) (k # ks)) (content (disk s nm))" by simp_all
  then show ?case by blast
next
  case Nil
  then have "s' = s\<lparr>disk := (disk s)(nm := disk s nm)\<rparr>" by simp
  then show ?case by (metis list.simps(8) write_all_simps(1))
qed

end

lemma write_all_other: "(\<And>w. w \<in> set ws \<Longrightarrow> fst w \<noteq> k) \<Longrightarrow> write_all ws m k = m k"
  by (induction ws arbitrary: m) (auto simp: write_all_def)

lemma field_index_keys_hd: "k \<in> set (field_index_keys L sch i fs) \<Longrightarrow> hd k = EDGE_PREFIX_IDX"
  by (auto simp: field_index_keys_def List.map_filter_def split: option.splits)

context edge_engine
begin

lemma update_field_indexes_ok:
  assumes "update_field_indexes X ks sch i fs ins s = (s', Inr u)"
  shows "\<exists>k'. s' = s\<lparr>disk := (disk s)(ks := k')\<rparr> \<and>
    (\<forall>k. hd k \<noteq> EDGE_PREFIX_IDX \<longrightarrow> content k' k = content (disk s ks) k)"
proof -
  let ?keys = "field_index_keys (ee_libs X) sch i fs"
  have other: "write_all (map (\<lambda>k. (k, r)) ?keys) m k = m k" if "hd k \<noteq> EDGE_PREFIX_IDX" for r m k
    using that by (intro write_all_other) (auto dest: field_index_keys_hd)
  show ?thesis
  proof (cases ins)
    case True
    have conv: "for_each ks' (\<lambda>k. insert_key (ee_engine X) ks k []) =
        for_each (map (\<lambda>k. (k, [])) ks') (\<lambda>(k, v). insert_key (ee_engine X) ks k v)" for ks'
      by (induction ks') auto
    show ?thesis
      using assms True other [of _ "Some []"] for_each_insert [of "map (\<lambda>k. (k, [])) ?keys" ks s s' u]
      by (auto simp: update_field_indexes_def conv comp_def)
  next
    case False
    then show ?thesis
      using assms other [of _ None] for_each_remove [of ?keys ks s s' u] by (auto simp: update_field_indexes_def)
  qed
qed

lemma edge_create_ok:
  assumes sch: "get_schema s (edge_label e) = Some sch" and rep: "represents X sch G (content (disk s (edge_ks (edge_label e))))"
    and ep: "edge_endpoints sch (edge_from e) (edge_to e) = (f, t)"
    and wf: "edge_wf X sch (f, t, from_edge e)" "fresh_id sch (f, t, from_edge e) G"
    and res: "edge_create X e s = (s', Inr u)"
  shows "represents X sch (add_edge sch (f, t, from_edge e) G) (content (disk s' (edge_ks (edge_label e)))) \<and>
    (\<exists>ks. s' = s\<lparr>disk := (disk s)(edge_ks (edge_label e) := ks)\<rparr>)"
proof -
  let ?ks = "edge_ks (edge_label e)"
  obtain b s1 where b: "serialize_edge_data X (from_edge e) = Inr b"
    and s1: "for_each (edge_entries sch f t (nanoid e) b) (\<lambda>(k, v). insert_key (ee_engine X) ?ks k v) s = (s1, Inr ())"
    and s': "update_field_indexes X ?ks sch (nanoid e) (edge_fields e) True s1 = (s', Inr u)"
    using res sch ep
    by (auto simp: edge_create_def ensure_edge_type_def try_do_Inr_iff get_keyspace_def split: if_splits)
  obtain k1 where k1: "s1 = s\<lparr>disk := (disk s)(?ks := k1)\<rparr>"
    "content k1 = write_all (map (\<lambda>(k, v). (k, Some v)) (edge_entries sch f t (nanoid e) b)) (content (disk s ?ks))"
    using for_each_insert [OF s1] by blast
  obtain k2 where k2: "s' = s1\<lparr>disk := (disk s1)(?ks := k2)\<rparr>" "\<forall>k. hd k \<noteq> EDGE_PREFIX_IDX \<longrightarrow> content k2 k = content k1 k"
    using update_field_indexes_ok [OF s'] k1(1) by auto
  have "nanoid e = ed_id (from_edge e)" by (simp add: from_edge_def)
  then have "represents X sch (add_edge sch (f, t, from_edge e) G) (content k1)"
    using represents_add [OF rep wf b] k1(2) by simp
  then have "represents X sch (add_edge sch (f, t, from_edge e) G) (content k2)"
    using represents_cong k2(2) by blast
  then show ?thesis using k1(1) k2(1) by auto
qed

lemma edge_get_exact:
  assumes sch: "get_schema s label = Some sch" and rep: "represents X sch G (content (disk s (edge_ks label)))"
    and ep: "edge_endpoints sch from to = (f, t)" and nul: "nul_free from" "nul_free to"
    and res: "edge_get X from label to s = Inr r"
  shows "(\<forall>d. (f, t, d) \<in> G \<longrightarrow> r = Some (to_edge d label f t)) \<and> ((\<nexists>d. (f, t, d) \<in> G) \<longrightarrow> r = None)"
proof -
  let ?m = "content (disk s (edge_ks label))"
  have gwf: "graph_wf X sch G" using rep by (simp add: represents_def)
  have single: "es_cardinality sch = SingleEdge"
    using res sch by (cases "es_cardinality sch") (auto simp: edge_get_def is_multiple_def)
  have ft: "(if is_undirected sch \<and> from > to then (to, from) else (from, to)) = (f, t)"
    using ep by (auto simp: edge_endpoints_def split: if_splits)
  have fnul: "nul_free f" "nul_free t" using ep nul by (auto simp: edge_endpoints_def split: if_splits)
  obtain r0 where r0: "disk_get X (edge_ks label) (encode_edge_out_key_single f t) s = Inr r0"
    "decode_opt_edge X label f t r0 = Inr r"
    using res sch ft single
    by (auto simp: edge_get_def is_multiple_def get_keyspace_def and_then_Inr_iff split: if_splits)
  have r0m: "r0 = ?m (out_key sch f t i)" for i
    using r0(1) get_content single by (fastforce simp: disk_get_def out_key_def)
  have out: "?m (out_key sch f t i) = Some b \<longleftrightarrow> (\<exists>f' t' d. seen_from sch f' t' d G \<and>
      out_key sch f t i = out_key sch f' t' (ed_id d) \<and> serialize_edge_data X d = Inr b)" for i b
    using rep single unfolding represents_def by (auto simp: edge_key_defs)
  have seen: "(f, t, d) \<in> G" if "seen_from sch f t d G" for d
  proof -
    have "f \<le> t" if "is_undirected sch" using ep that by (auto simp: edge_endpoints_def split: if_splits)
    then show ?thesis using that gwf unfolding seen_from_def graph_wf_def edge_wf_def by fastforce
  qed
  show ?thesis
  proof (intro conjI allI impI)
    fix d assume d: "(f, t, d) \<in> G"
    then have sf: "seen_from sch f t d G" by (simp add: seen_from_def)
    obtain b where b: "serialize_edge_data X d = Inr b" "deserialize_edge_data X b = Inr d"
      using seen_from_serialized [OF gwf sf] by blast
    then have "?m (out_key sch f t (ed_id d)) = Some b" using out [THEN iffD2] sf by blast
    then have "r0 = Some b" using r0m [of "ed_id d"] by simp
    then show "r = Some (to_edge d label f t)" using r0(2) b(2) by (simp add: decode_opt_edge_def)
  next
    assume none: "\<nexists>d. (f, t, d) \<in> G"
    have "r0 \<noteq> Some b" for b
    proof
      assume "r0 = Some b"
      then have "?m (out_key sch f t []) = Some b" using r0m [of "[]"] by simp
      then obtain f' t' d where hit: "seen_from sch f' t' d G" "out_key sch f t [] = out_key sch f' t' (ed_id d)"
        using out [THEN iffD1] by blast
      then have "f' = f" "t' = t" using out_key_eq_iff [of f t f' t'] seen_from_wf [OF gwf hit(1)] fnul by auto
      then show False using none seen hit(1) by blast
    qed
    then have "r0 = None" by (cases r0) auto
    then show "r = None" using r0(2) by (simp add: decode_opt_edge_def)
  qed
qed

end

section \<open>Deleting the edges of a node\<close>

definition removals :: "EdgeSchema \<Rightarrow> Edge list \<Rightarrow> (bytes \<times> bytes option) list" where
  "removals sch es = concat (map (\<lambda>e. map (\<lambda>k. (k, None)) (edge_keys sch (edge_from e) (edge_to e) (nanoid e))) es)"

lemma removals_simps [simp]:
  "removals sch [] = []"
  "removals sch (e # es) = map (\<lambda>k. (k, None)) (edge_keys sch (edge_from e) (edge_to e) (nanoid e)) @ removals sch es"
  "removals sch (es1 @ es2) = removals sch es1 @ removals sch es2"
  by (simp_all add: removals_def)

lemma writes_to_delete_edge_keys:
  "writes_to nm (delete_edge_keys_in_tx tx ks sch f t i) =
     writes_to nm tx @ (if ks = nm then map (\<lambda>k. (k, None)) (edge_keys sch f t i) else [])"
  by (simp add: delete_edge_keys_in_tx_def writes_to_def comp_def filter_map)

lemma writes_to_queue_deletes:
  "writes_to nm (queue_deletes ks sch es tx) = writes_to nm tx @ (if ks = nm then removals sch es else [])"
  by (induction es arbitrary: tx) (simp_all add: queue_deletes_def writes_to_delete_edge_keys)

lemma edge_ks_inj [simp]: "edge_ks a = edge_ks b \<longleftrightarrow> a = b"
  by (simp add: edge_ks_def)

lemma represents_removals:
  assumes "graph_wf X sch G0" "represents X sch G m" "G \<subseteq> G0"
    and "\<And>e. e \<in> set es \<Longrightarrow> \<exists>f t d. e = to_edge d label f t \<and> seen_from sch f t d G0"
  shows "represents X sch {x \<in> G. ed_id (snd (snd x)) \<notin> nanoid ` set es} (write_all (removals sch es) m)"
  using assms(2-)
proof (induction es arbitrary: G m)
  case (Cons e es)
  obtain f t d where e: "e = to_edge d label f t" "seen_from sch f t d G0" using Cons.prems(3) [of e] by auto
  then obtain f' t' where x: "(f', t', d) \<in> G0" "f' = f \<and> t' = t \<or> is_undirected sch \<and> f' = t \<and> t' = f"
    by (auto simp: seen_from_def)
  have wf: "edge_wf X sch (f', t', d)" using assms(1) x(1) by (simp add: graph_wf_def)
  have same: "y = (f', t', d)" if "y \<in> G" "ed_id (snd (snd y)) = ed_id d" for y
    using assms(1) that x(1) Cons.prems(2) unfolding graph_wf_def inj_on_def by (metis snd_conv subsetD)
  then have fresh: "fresh_id sch (f', t', d) G" by (auto simp: fresh_id_def same_slot_def)
  have slot: "same_slot sch y (f', t', d) \<longleftrightarrow> ed_id (snd (snd y)) = ed_id d" if "y \<in> G" for y
  proof
    assume "same_slot sch y (f', t', d)"
    then have "y = (f', t', d)" using assms(1) that x(1) Cons.prems(2) unfolding graph_wf_def by blast
    then show "ed_id (snd (snd y)) = ed_id d" by simp
  next
    assume "ed_id (snd (snd y)) = ed_id d"
    then show "same_slot sch y (f', t', d)" using same [OF that] by (simp add: same_slot_def)
  qed
  have keys: "write_all (map (\<lambda>k. (k, None)) (edge_keys sch f t (ed_id d))) m =
      write_all (map (\<lambda>k. (k, None)) (edge_keys sch f' t' (ed_id d))) m"
    using x(2) remove_keys_swap by metis
  let ?G = "del_edge sch (f', t', d) G"
  have "represents X sch ?G (write_all (map (\<lambda>k. (k, None)) (edge_keys sch f t (ed_id d))) m)"
    unfolding keys by (rule represents_del [OF Cons.prems(1) wf fresh])
  then have "represents X sch {x \<in> ?G. ed_id (snd (snd x)) \<notin> nanoid ` set es}
      (write_all (removals sch es) (write_all (map (\<lambda>k. (k, None)) (edge_keys sch f t (ed_id d))) m))"
    by (rule Cons.IH) (use Cons.prems(2,3) in \<open>auto simp: del_edge_def\<close>)
  moreover have "{x \<in> ?G. ed_id (snd (snd x)) \<notin> nanoid ` set es} = {x \<in> G. ed_id (snd (snd x)) \<notin> nanoid ` set (e # es)}"
    using slot by (auto simp: del_edge_def e(1))
  ultimately show ?case by (simp add: e(1))
qed simp

lemma delete_node_labels_writes:
  assumes "delete_node_labels_in_tx X v labels s (tx, n) = Inr (tx', n')" "distinct labels" "get_schema s label = Some sch"
  shows "if label \<in> set labels \<and> es_on_delete sch = Cascade
    then \<exists>outs c1 ins c2. list_out X v label None usize_max s = Inr (outs, c1) \<and>
      list_in X v label None usize_max s = Inr (ins, c2) \<and>
      writes_to (edge_ks label) tx' = writes_to (edge_ks label) tx @ removals sch (outs @ ins)
    else writes_to (edge_ks label) tx' = writes_to (edge_ks label) tx"
  using assms(1,2)
proof (induction labels arbitrary: tx n)
  case (Cons l labels)
  show ?case
  proof (cases "\<exists>schl. get_schema s l = Some schl \<and> es_on_delete schl = Cascade")
    case False
    then have "delete_node_labels_in_tx X v labels s (tx, n) = Inr (tx', n')"
      using Cons.prems(1) by (auto split: option.splits if_splits)
    from Cons.IH [OF this] show ?thesis using Cons.prems(2) False assms(3) by auto
  next
    case True
    then obtain schl outs c1 ins c2 where l: "get_schema s l = Some schl" "es_on_delete schl = Cascade"
      "list_out X v l None usize_max s = Inr (outs, c1)" "list_in X v l None usize_max s = Inr (ins, c2)"
      "delete_node_labels_in_tx X v labels s
         (queue_deletes (edge_ks l) schl ins (queue_deletes (edge_ks l) schl outs tx), n + length outs + length ins) = Inr (tx', n')"
      using Cons.prems(1) by (auto simp: and_then_Inr_iff get_keyspace_def split: if_splits)
    note rest = Cons.IH [OF l(5)]
    show ?thesis
    proof (cases "l = label")
      case True
      then show ?thesis using rest l Cons.prems(2) assms(3) by (auto simp: writes_to_queue_deletes)
    next
      case False
      then show ?thesis using rest l Cons.prems(2) by (auto simp: writes_to_queue_deletes)
    qed
  qed
qed simp

context edge_engine
begin

lemma listing_all: "listing A limit (es, c) \<Longrightarrow> card A \<le> limit \<Longrightarrow> set es = A"
  by (simp add: listing_def)

lemma delete_node_cascades:
  assumes sch: "get_schema s label = Some sch" "es_on_delete sch = Cascade" "label \<in> set (list_edge_types s)"
      "distinct (list_edge_types s)"
    and rep: "represents X sch G (content (disk s (edge_ks label)))" and v: "nul_free v"
    and few: "card (out_edges sch label v G) \<le> 1000" "card (in_edges label v G) \<le> 1000"
    and res: "delete_edges_for_node_in_tx X [] v s = Inr (tx, n)"
  shows "represents X sch {(f, t, d) \<in> G. f \<noteq> v \<and> t \<noteq> v}
    (content (disk (tx_apply (ee_engine X) tx s) (edge_ks label)))"
proof -
  have gwf: "graph_wf X sch G" using rep by (simp add: represents_def)
  obtain outs c1 ins c2 where l: "list_out X v label None usize_max s = Inr (outs, c1)"
    "list_in X v label None usize_max s = Inr (ins, c2)" "writes_to (edge_ks label) tx = removals sch (outs @ ins)"
    using delete_node_labels_writes [OF res [unfolded delete_edges_for_node_in_tx_def] sch(4,1)] sch(2,3) by auto
  have lim: "clamp_limit usize_max = 1000" by (simp add: clamp_limit_def usize_max_def)
  have outs: "set outs = out_edges sch label v G"
    using list_out_exact [OF sch(1) rep v l(1)] few(1) listing_all unfolding lim by blast
  have ins: "set ins = (if is_undirected sch then out_edges sch label v G else in_edges label v G)"
  proof (cases "is_undirected sch")
    case True
    then have "ins = outs" using l sch(1) by (simp add: list_in_def)
    then show ?thesis using True outs by simp
  next
    case False
    then show ?thesis using list_in_exact [OF sch(1) rep v False l(2)] few(2) listing_all unfolding lim by auto
  qed
  have seen: "\<exists>f t d. e = to_edge d label f t \<and> seen_from sch f t d G" if "e \<in> set (outs @ ins)" for e
    using that outs ins by (auto simp: out_edges_def in_edges_def seen_from_def split: if_splits)
  have "ed_id d \<in> nanoid ` set (outs @ ins) \<longleftrightarrow> f = v \<or> t = v" if x: "(f, t, d) \<in> G" for f t d
  proof
    assume "ed_id d \<in> nanoid ` set (outs @ ins)"
    then obtain e where e: "e \<in> set (outs @ ins)" "ed_id d = nanoid e" by blast
    then obtain f' t' d' where e': "e = to_edge d' label f' t'" "(f', t', d') \<in> G \<or> is_undirected sch \<and> (t', f', d') \<in> G" "f' = v \<or> t' = v"
      using outs ins by (auto simp: out_edges_def in_edges_def seen_from_def split: if_splits)
    then show "f = v \<or> t = v" using x gwf e(2) unfolding graph_wf_def inj_on_def by fastforce
  next
    assume "f = v \<or> t = v"
    then have "to_edge d label f t \<in> set (outs @ ins) \<or> to_edge d label t f \<in> set (outs @ ins)"
      using x outs ins by (auto simp: out_edges_def in_edges_def seen_from_def)
    then show "ed_id d \<in> nanoid ` set (outs @ ins)" by (metis imageI nanoid_to_edge)
  qed
  note iff = this
  have eq: "{x \<in> G. ed_id (snd (snd x)) \<notin> nanoid ` set (outs @ ins)} = {(f, t, d) \<in> G. f \<noteq> v \<and> t \<noteq> v}"
  proof (rule set_eqI)
    fix x
    show "x \<in> {x \<in> G. ed_id (snd (snd x)) \<notin> nanoid ` set (outs @ ins)} \<longleftrightarrow> x \<in> {(f, t, d) \<in> G. f \<noteq> v \<and> t \<noteq> v}"
      by (cases x) (simp del: set_append, use iff in blast)
  qed
  show ?thesis
    using represents_removals [OF gwf rep subset_refl seen, of "outs @ ins"] unfolding eq content_tx_apply l(3) .
qed

end

context edge_engine
begin

lemma cascade_leaves_edges:
  assumes sch: "get_schema s label = Some sch" "es_on_delete sch = Cascade" "label \<in> set (list_edge_types s)"
      "distinct (list_edge_types s)" "\<not> is_undirected sch"
    and rep: "represents X sch G (content (disk s (edge_ks label)))" and v: "nul_free v"
    and many: "1000 < card (out_edges sch label v G)" and loop: "\<And>d. (v, v, d) \<notin> G"
    and res: "delete_edges_for_node_in_tx X [] v s = Inr (tx, n)"
  shows "\<exists>t d b. (v, t, d) \<in> G \<and>
    content (disk (tx_apply (ee_engine X) tx s) (edge_ks label)) (out_key sch v t (ed_id d)) = Some b"
proof -
  have gwf: "graph_wf X sch G" using rep by (simp add: represents_def)
  obtain outs c1 ins c2 where l: "list_out X v label None usize_max s = Inr (outs, c1)"
    "list_in X v label None usize_max s = Inr (ins, c2)" "writes_to (edge_ks label) tx = removals sch (outs @ ins)"
    using delete_node_labels_writes [OF res [unfolded delete_edges_for_node_in_tx_def] sch(4,1)] sch(2,3) by auto
  have lim: "clamp_limit usize_max = 1000" by (simp add: clamp_limit_def usize_max_def)
  have outs: "set outs \<subseteq> out_edges sch label v G" "length outs = 1000"
    using list_out_exact [OF sch(1) rep v l(1)] many by (simp_all add: lim listing_def)
  have ins: "set ins \<subseteq> in_edges label v G"
    using list_in_exact [OF sch(1) rep v sch(5) l(2)] by (simp add: lim listing_def)
  have "card (set outs) < card (out_edges sch label v G)" using outs(2) many card_length [of outs] by linarith
  then obtain e where e: "e \<in> out_edges sch label v G" "e \<notin> set outs" using outs(1) by (metis less_irrefl subset_antisym subsetI)
  then obtain t d where td: "e = to_edge d label v t" "(v, t, d) \<in> G" using sch(5) by (auto simp: out_edges_def seen_from_def)
  have keep: "ed_id d \<noteq> nanoid e'" if e': "e' \<in> set (outs @ ins)" for e'
  proof
    assume eq: "ed_id d = nanoid e'"
    obtain f' t' d' where x: "e' = to_edge d' label f' t'" "(f', t', d') \<in> G"
      using e' outs(1) ins sch(5) by (auto simp: out_edges_def in_edges_def seen_from_def)
    then have same: "(f', t', d') = (v, t, d)" using gwf td(2) eq unfolding graph_wf_def inj_on_def by fastforce
    then have "e' \<in> set ins" using e' e(2) td(1) x(1) by auto
    then show False using ins x(1) same loop td(2) by (auto simp: in_edges_def to_edge_def)
  qed
  have seen: "\<exists>f t d. e = to_edge d label f t \<and> seen_from sch f t d G" if "e \<in> set (outs @ ins)" for e
    using that outs(1) ins unfolding out_edges_def in_edges_def seen_from_def set_append Un_iff by blast
  have rep': "represents X sch {x \<in> G. ed_id (snd (snd x)) \<notin> nanoid ` set (outs @ ins)}
      (content (disk (tx_apply (ee_engine X) tx s) (edge_ks label)))" (is "represents X sch ?G ?m")
    using represents_removals [OF gwf rep subset_refl seen, of "outs @ ins"] unfolding content_tx_apply l(3) .
  have "seen_from sch v t d ?G" using td(2) keep by (auto simp: seen_from_def)
  moreover obtain b where "serialize_edge_data X d = Inr b" using gwf td(2) by (auto simp: graph_wf_def edge_wf_def)
  moreover have "hd (out_key sch v t (ed_id d)) = EDGE_PREFIX_OUT" "out_key sch v t (ed_id d) \<noteq> []"
    by (cases "es_cardinality sch"; simp add: edge_key_defs)+
  ultimately have "?m (out_key sch v t (ed_id d)) = Some b" using rep' unfolding represents_def by blast
  then show ?thesis using td(2) by blast
qed

end

section \<open>The store over the in-memory engine\<close>

text \<open>Data without fields, in a fixed layout.\<close>

definition mem_edge_env :: "(mem_ks, int) edge_env" where
  "mem_edge_env = \<lparr>ee_engine = mem_engine, ee_libs = int_libs,
     ee_data = \<lparr>
       enc = (\<lambda>d. if ed_fields d = [] then
                Inr (to_le_bytes 8 (unat (ed_created_at d)) @ to_le_bytes 8 (unat (ed_updated_at d)) @ as_bytes (ed_id d))
              else Inl (Serialization ''fields'')),
       dec = (\<lambda>bs. Inr \<lparr>ed_id = of_bytes (drop 16 bs), ed_created_at = of_nat (from_le_bytes (take 8 bs)),
                ed_updated_at = of_nat (from_le_bytes (take 8 (drop 8 bs))), ed_fields = []\<rparr>)\<rparr>,
     ee_schema = \<lparr>enc = (\<lambda>_. Inl (Serialization ''schema'')), dec = (\<lambda>_. Inl (Serialization ''schema''))\<rparr>,
     ee_labels = \<lparr>enc = (\<lambda>_. Inl (Serialization ''labels'')), dec = (\<lambda>_. Inl (Serialization ''labels''))\<rparr>\<rparr>"

lemma mem_edge_env_simps [simp]: "ee_engine mem_edge_env = mem_engine" "ee_libs mem_edge_env = int_libs"
  by (simp_all add: mem_edge_env_def)

lemma mem_data_codec: "codec_ok (ee_data mem_edge_env)"
proof -
  have "of_nat (from_le_bytes (to_le_bytes 8 (unat w))) = w" for w :: "64 word"
    using unsigned_less [where 'a = nat, of w] by (simp add: from_to_le_bytes)
  then show ?thesis by (auto simp: codec_ok_def mem_edge_env_def comp_def)
qed

interpretation mem_edges: edge_engine mem_edge_env map_of
  by (intro edge_engine.intro edge_engine_axioms.intro) (simp_all add: mem_engine_ok mem_data_codec)

lemma mem_edge_engine: "edge_engine mem_edge_env map_of"
  by (rule mem_edges.edge_engine_axioms)

definition sample_store :: "mem_ks edge_store" where
  "sample_store = \<lparr>disk = (\<lambda>_. []), edge_schemas = [(''knows'', edge_schema_new ''knows'')], edge_keyspaces = [''knows'']\<rparr>"

definition sample_edge :: Edge where
  "sample_edge = edge_new ''n1'' 7 ''u:a'' ''knows'' ''u:b''"

lemma sample_names [simp]: "nul_free ''u:a''" "nul_free ''u:b''" "nul_free ''n1''"
  by (simp_all add: nul_free_def, code_simp+)

definition sample_data :: bytes where
  "sample_data = EDGE_FORMAT_COMPACT # as_bytes ''n1'' @ [0x00] @ to_le_bytes 8 7"

definition sample_created :: "mem_ks edge_store" where
  "sample_created = sample_store\<lparr>disk := (disk sample_store)(edge_ks ''knows'' :=
     [([3, 110, 49], [117, 58, 97, 0, 117, 58, 98]),
      ([2, 117, 58, 98, 0, 117, 58, 97], [110, 49]),
      ([1, 117, 58, 97, 0, 117, 58, 98], sample_data)])\<rparr>"

lemma sample_edge_parts [simp]:
  "edge_label sample_edge = ''knows''" "edge_from sample_edge = ''u:a''" "edge_to sample_edge = ''u:b''"
  "edge_fields sample_edge = []" "nanoid sample_edge = ''n1''"
  "from_edge sample_edge = \<lparr>ed_id = ''n1'', ed_created_at = 7, ed_updated_at = 0, ed_fields = []\<rparr>"
  "serialize_edge_data X \<lparr>ed_id = ''n1'', ed_created_at = 7, ed_updated_at = 0, ed_fields = []\<rparr> = Inr sample_data"
  "edge_endpoints (edge_schema_new ''knows'') ''u:a'' ''u:b'' = (''u:a'', ''u:b'')"
  by (simp_all add: sample_edge_def edge_new_def edge_with_id_def from_edge_def nanoid_def strip_prefix_def
      serialize_edge_data_def is_compact_def sample_data_def edge_endpoints_def is_undirected_def edge_schema_new_def)

lemma sample_entries:
  "edge_entries (edge_schema_new ''knows'') ''u:a'' ''u:b'' ''n1'' b =
     [([1, 117, 58, 97, 0, 117, 58, 98], b), ([2, 117, 58, 98, 0, 117, 58, 97], [110, 49]),
      ([3, 110, 49], [117, 58, 97, 0, 117, 58, 98])]"
  by (simp add: edge_entries_def edge_schema_new_def is_undirected_def edge_key_defs encode_edge_id_key_def
      encode_edge_id_value_def edge_prefix_defs as_bytes_def)

lemma sample_schema [simp]:
  "get_schema sample_store ''knows'' = Some (edge_schema_new ''knows'')"
  "get_schema sample_created ''knows'' = Some (edge_schema_new ''knows'')"
  "get_keyspace ''knows'' sample_store = Inr (edge_ks ''knows'')"
  "get_keyspace ''knows'' sample_created = Inr (edge_ks ''knows'')"
  "list_edge_types sample_created = [''knows'']"
  "is_undirected (edge_schema_new ''knows'') = False" "es_on_delete (edge_schema_new ''knows'') = Cascade"
  "es_cardinality (edge_schema_new ''knows'') = SingleEdge"
  by (simp_all add: sample_store_def sample_created_def get_schema_def get_keyspace_def list_edge_types_def
      edge_schema_new_def is_undirected_def hm_keys_def)

lemma sample_created: "edge_create mem_edge_env sample_edge sample_store = (sample_created, Inr ())"
proof -
  have idx: "field_index_keys L (edge_schema_new ''knows'') i fs = []" for L i fs
    by (simp add: field_index_keys_def edge_schema_new_def)
  have ins: "for_each (edge_entries (edge_schema_new ''knows'') ''u:a'' ''u:b'' ''n1'' sample_data)
      (\<lambda>(k, v). insert_key mem_engine (edge_ks ''knows'') k v) sample_store = (sample_created, Inr ())"
    by (simp add: sample_entries insert_key_def sample_created_def sample_store_def mem_update_def)
  show ?thesis by (simp add: edge_create_def ensure_edge_type_def idx update_field_indexes_def ins)
qed

text \<open>C17: Creating an edge succeeds only by adding it to the graph of its label: the keyspace that
  represented the graph \<open>G\<close> represents \<open>G\<close> with the edge added (in place of the edge between the
  same endpoints, when the label has cardinality one), and no other keyspace changes.
\<close>

theorem edge_create_adds_to_graph:
  assumes "edge_engine X content" "get_schema s (edge_label e) = Some sch"
    and "represents X sch G (content (disk s (edge_ks (edge_label e))))"
    and "edge_endpoints sch (edge_from e) (edge_to e) = (f, t)" "edge_wf X sch (f, t, from_edge e)"
    and "fresh_id sch (f, t, from_edge e) G" "edge_create X e s = (s', Inr u)"
  shows "represents X sch (add_edge sch (f, t, from_edge e) G) (content (disk s' (edge_ks (edge_label e)))) \<and>
    (\<exists>ks. s' = s\<lparr>disk := (disk s)(edge_ks (edge_label e) := ks)\<rparr>)"
  using assms by (rule edge_engine.edge_create_ok)


text \<open>Deleting a node cascades: for a label with the cascade policy and at most 1000 edges in each
  direction, committing the queued transaction leaves exactly the edges that do not touch the node.
\<close>

theorem delete_node_removes_its_edges:
  assumes "edge_engine X content" "get_schema s label = Some sch" "es_on_delete sch = Cascade"
    and "label \<in> set (list_edge_types s)" "distinct (list_edge_types s)"
    and "represents X sch G (content (disk s (edge_ks label)))" "nul_free v"
    and "card (out_edges sch label v G) \<le> 1000" "card (in_edges label v G) \<le> 1000"
    and "delete_edges_for_node_in_tx X [] v s = Inr (tx, n)"
  shows "represents X sch {(f, t, d) \<in> G. f \<noteq> v \<and> t \<noteq> v} (content (disk (tx_apply (ee_engine X) tx s) (edge_ks label)))"
  using assms by (rule edge_engine.delete_node_cascades)

lemma sample_represents:
  "represents mem_edge_env (edge_schema_new ''knows'') {} (map_of (disk sample_store (edge_ks ''knows'')))"
  "represents mem_edge_env (edge_schema_new ''knows'') {(''u:a'', ''u:b'', from_edge sample_edge)}
     (map_of (disk sample_created (edge_ks ''knows'')))"
proof -
  show empty: "represents mem_edge_env (edge_schema_new ''knows'') {} (map_of (disk sample_store (edge_ks ''knows'')))"
    by (simp add: represents_def graph_wf_def seen_from_def sample_store_def)
  show "represents mem_edge_env (edge_schema_new ''knows'') {(''u:a'', ''u:b'', from_edge sample_edge)}
     (map_of (disk sample_created (edge_ks ''knows'')))"
    using mem_edges.edge_create_ok [OF _ _ _ _ _ sample_created, of "edge_schema_new ''knows''" "{}" "''u:a''" "''u:b''"] empty
    by (simp add: edge_wf_def fresh_id_def add_edge_def del_edge_def)
qed

lemma sample_deserialize: "deserialize_edge_data mem_edge_env sample_data = Inr (from_edge sample_edge)"
  by (rule edge_data_roundtrip [OF mem_data_codec]) simp_all

lemma sample_target: "parse_out_key_target [117, 58, 97, 0, 117, 58, 98] = Inr ''u:b''"
  using parse_out_key [of "''u:a''" "''u:b''" "''n1''" "edge_schema_new ''knows''"]
  by (simp add: edge_key_defs edge_prefix_defs as_bytes_def)

lemma sample_ranges:
  "range_keys mem_engine (edge_ks ''knows'') (Some (encode_edge_out_prefix_v2 ''u:a''))
     (Some (encode_edge_out_prefix_end_v2 ''u:a'')) sample_created = [Inr ([1, 117, 58, 97, 0, 117, 58, 98], sample_data)]"
  "range_keys mem_engine (edge_ks ''knows'') (Some (encode_edge_in_prefix_v2 ''u:a''))
     (Some (encode_edge_in_prefix_end_v2 ''u:a'')) sample_created = []"
  by (simp_all add: range_keys_def mem_filter_def sample_created_def in_range_def encode_edge_out_prefix_v2_def
      encode_edge_out_prefix_end_v2_def encode_edge_in_prefix_v2_def encode_edge_in_prefix_end_v2_def
      edge_prefix_defs as_bytes_def)

lemma sample_lists:
  "list_out mem_edge_env ''u:a'' ''knows'' None n sample_created = Inr ([sample_edge], None)"
  "list_in mem_edge_env ''u:a'' ''knows'' None n sample_created = Inr ([], None)"
  by (simp_all add: list_out_def list_in_def sample_ranges sample_deserialize sample_target page_def clamp_limit_def)
    (simp add: to_edge_def sample_edge_def edge_new_def edge_with_id_def)

lemma sample_sets:
  "out_edges (edge_schema_new ''knows'') ''knows'' ''u:a'' {(''u:a'', ''u:b'', from_edge sample_edge)} =
     {to_edge (from_edge sample_edge) ''knows'' ''u:a'' ''u:b''}"
  "in_edges ''knows'' ''u:a'' {(''u:a'', ''u:b'', from_edge sample_edge)} = {}"
  by (auto simp: out_edges_def in_edges_def seen_from_def)

theorem edge_create_adds_to_graph_witness:
  "represents mem_edge_env (edge_schema_new ''knows'') {(''u:a'', ''u:b'', from_edge sample_edge)}
     (map_of (disk sample_created (edge_ks ''knows'')))"
  using edge_create_adds_to_graph [OF mem_edge_engine _ _ _ _ _ sample_created,
      of "edge_schema_new ''knows''" "{}" "''u:a''" "''u:b''"] sample_represents(1)
  by (simp add: edge_wf_def fresh_id_def add_edge_def del_edge_def)


theorem delete_node_removes_its_edges_witness:
  "\<exists>tx n. delete_edges_for_node_in_tx mem_edge_env [] ''u:a'' sample_created = Inr (tx, n) \<and>
     represents mem_edge_env (edge_schema_new ''knows'') {} (map_of (disk (tx_apply mem_engine tx sample_created) (edge_ks ''knows'')))"
proof -
  obtain tx n where tx: "delete_edges_for_node_in_tx mem_edge_env [] ''u:a'' sample_created = Inr (tx, n)"
    by (simp add: delete_edges_for_node_in_tx_def sample_lists)
  then have "represents mem_edge_env (edge_schema_new ''knows'')
      {(f, t, d) \<in> {(''u:a'', ''u:b'', from_edge sample_edge)}. f \<noteq> ''u:a'' \<and> t \<noteq> ''u:a''}
      (map_of (disk (tx_apply (ee_engine mem_edge_env) tx sample_created) (edge_ks ''knows'')))"
    by (intro delete_node_removes_its_edges [OF mem_edge_engine _ _ _ _ sample_represents(2)])
      (simp_all only: sample_sets, simp_all)
  moreover have "{(f, t, d) \<in> {(''u:a'', ''u:b'', from_edge sample_edge)}. f \<noteq> ''u:a'' \<and> t \<noteq> ''u:a''} = {}" by blast
  ultimately show ?thesis using tx by (simp only: mem_edge_env_simps) blast
qed

end
