(* ===== verification/Document_Invariant.thy ===== *)
theory Document_Invariant
  imports Documents Edge_Operations
begin

text \<open>
  The invariant of a collection and what the document operations do to it. \<open>consistent\<close> relates the
  keyspaces of a collection to an abstract map from keys to documents: the document keyspace holds
  the serialised documents, the existence keyspace their keys, every B-tree index one entry per
  document that has its fields, and the lock keyspace the unique values.
\<close>

section \<open>The invariant\<close>

type_synonym documents = "string \<rightharpoonup> document"

definition docs_map :: "('ks, 'd, 'x) db_env \<Rightarrow> documents \<Rightarrow> (bytes \<rightharpoonup> bytes)" where
  "docs_map X D = (\<lambda>k. case D (of_bytes k) of
     None \<Rightarrow> None
   | Some d \<Rightarrow> (case enc (db_docs X) d of Inr b \<Rightarrow> Some b | Inl _ \<Rightarrow> None))"

definition docs_wf :: "('ks, 'd, 'x) db_env \<Rightarrow> string \<Rightarrow> documents \<Rightarrow> bool" where
  "docs_wf X coll D \<longleftrightarrow> (\<forall>k d. D k = Some d \<longrightarrow>
     key d = k \<and> utf8_valid (as_bytes k) \<and> (\<exists>b. enc (db_docs X) d = Inr b))"

text \<open>The documents, their markers and the indexes, over the contents of the keyspaces.\<close>

definition data_ok ::
  "('ks, 'd, 'x) db_env \<Rightarrow> string \<Rightarrow> IndexDef list \<Rightarrow> documents \<Rightarrow> (string \<Rightarrow> bytes \<rightharpoonup> bytes) \<Rightarrow> bool" where
  "data_ok X coll idxs D M \<longleftrightarrow>
     docs_wf X coll D \<and> M (docs_ks coll) = docs_map X D \<and> dom (M (exists_ks coll)) = as_bytes ` dom D \<and>
     (\<forall>i\<in>set idxs. idx_type i = BTree \<longrightarrow> reflects (ee_libs X) (idx_fields i) (ran D) (M (idx_ks coll (idx_name i))))"

definition consistent ::
  "('ks, 'd, 'x) db_env \<Rightarrow> ('ks \<Rightarrow> bytes \<rightharpoonup> bytes) \<Rightarrow> string \<Rightarrow> documents \<Rightarrow> ('ks, 'x, 'z) database_scheme \<Rightarrow> bool" where
  "consistent X content coll D s \<longleftrightarrow>
     coll \<in> set (collections s) \<and> docs_wf X coll D \<and>
     content (disk s (docs_ks coll)) = docs_map X D \<and>
     dom (content (disk s (exists_ks coll))) = as_bytes ` dom D \<and>
     (\<forall>i\<in>set (get_indexes s coll). idx_type i = BTree \<longrightarrow>
        reflects (ee_libs X) (idx_fields i) (ran D) (content (disk s (idx_ks coll (idx_name i))))) \<and>
     locks_held (ee_libs X) (db_hash X) (get_indexes s coll) (ran D) (content (disk s (ulock_ks coll)))"

lemma consistent_iff:
  "consistent X content coll D s \<longleftrightarrow>
     coll \<in> set (collections s) \<and> data_ok X coll (get_indexes s coll) D (\<lambda>nm. content (disk s nm)) \<and>
     locks_held (ee_libs X) (db_hash X) (get_indexes s coll) (ran D) (content (disk s (ulock_ks coll)))"
  by (auto simp: consistent_def data_ok_def)

lemma consistentD:
  assumes "consistent X content coll D s"
  shows "docs_wf X coll D" "locks_held (ee_libs X) (db_hash X) (get_indexes s coll) (ran D) (content (disk s (ulock_ks coll)))"
  using assms by (simp_all add: consistent_def)

definition index_names_distinct :: "('ks, 'x, 'z) database_scheme \<Rightarrow> string \<Rightarrow> bool" where
  "index_names_distinct s coll \<longleftrightarrow> distinct (map idx_name (filter (\<lambda>i. idx_type i = BTree) (get_indexes s coll)))"

lemma ran_upd:
  assumes "docs_wf X coll D" "\<And>d. new = Some d \<Longrightarrow> key d = k"
  shows "ran (D(k := new)) = ran D - set_option (D k) \<union> set_option new"
proof -
  have inj: "a = k" if "D a = Some x" "D k = Some x" for a x using assms(1) that by (auto simp: docs_wf_def)
  show ?thesis
  proof (intro set_eqI iffI)
    fix x assume "x \<in> ran (D(k := new))"
    then obtain a where a: "(D(k := new)) a = Some x" by (auto simp: ran_def)
    show "x \<in> ran D - set_option (D k) \<union> set_option new"
    proof (cases "a = k")
      case False
      then have "D k \<noteq> Some x" using a inj [of a x] by auto
      then show ?thesis using a False by (auto simp: ran_def)
    qed (use a in simp)
  next
    fix x assume x: "x \<in> ran D - set_option (D k) \<union> set_option new"
    show "x \<in> ran (D(k := new))"
    proof (cases "x \<in> set_option new")
      case True
      then show ?thesis by (auto simp: ran_def)
    next
      case False
      then obtain a where "D a = Some x" "a \<noteq> k" using x by (auto simp: ran_def)
      then show ?thesis by (auto simp: ran_def)
    qed
  qed
qed

lemma docs_wf_upd:
  assumes "docs_wf X coll D" "\<And>d. new = Some d \<Longrightarrow> key d = k \<and> utf8_valid (as_bytes k) \<and> (\<exists>b. enc (db_docs X) d = Inr b)"
  shows "docs_wf X coll (D(k := new))"
  using assms by (auto simp: docs_wf_def)

lemma docs_map_upd:
  "docs_map X (D(k := new)) =
     (docs_map X D)(as_bytes k := (case new of None \<Rightarrow> None | Some d \<Rightarrow> (case enc (db_docs X) d of Inr b \<Rightarrow> Some b | Inl _ \<Rightarrow> None)))"
  by (rule ext) (auto simp: docs_map_def split: option.splits)

lemma docs_wf_keyed: "docs_wf X coll D \<Longrightarrow> keyed (ran D)"
  by (force simp: docs_wf_def keyed_def ran_def inj_on_def)

lemma write_all_apply_write: "write_all ws m = fold apply_write ws m"
  by (simp add: write_all_def apply_write_def [abs_def])

text \<open>A change of one document, as it shows in the keyspaces of the collection.\<close>

definition doc_entry :: "('ks, 'd, 'x) db_env \<Rightarrow> document option \<Rightarrow> bytes option" where
  "doc_entry X new = (case new of None \<Rightarrow> None | Some d \<Rightarrow> (case enc (db_docs X) d of Inr b \<Rightarrow> Some b | Inl _ \<Rightarrow> None))"

lemma data_step:
  assumes dat: "data_ok X coll idxs D M" and new: "\<And>d. new = Some d \<Longrightarrow> key d = k \<and> utf8_valid (as_bytes k) \<and> (\<exists>b. enc (db_docs X) d = Inr b)"
    and docs: "M' (docs_ks coll) = (M (docs_ks coll))(as_bytes k := doc_entry X new)"
    and ex: "dom (M' (exists_ks coll)) =
      (if new = None then dom (M (exists_ks coll)) - {as_bytes k} else insert (as_bytes k) (dom (M (exists_ks coll))))"
    and idx: "\<And>i. i \<in> set idxs \<Longrightarrow> idx_type i = BTree \<Longrightarrow> M' (idx_ks coll (idx_name i)) =
      write_all (update_in_tx (ee_libs X) (idx_fields i) (D k) new) (M (idx_ks coll (idx_name i)))"
  shows "data_ok X coll idxs (D(k := new)) M'"
proof -
  have wf: "docs_wf X coll D" using dat by (simp add: data_ok_def)
  have ran: "ran (D(k := new)) = ran D - set_option (D k) \<union> set_option new" by (rule ran_upd [OF wf]) (use new in blast)
  have "reflects (ee_libs X) (idx_fields i) (ran (D(k := new))) (M' (idx_ks coll (idx_name i)))"
    if i: "i \<in> set idxs" "idx_type i = BTree" for i
  proof -
    have "reflects (ee_libs X) (idx_fields i) (ran D) (M (idx_ks coll (idx_name i)))" using dat i by (simp add: data_ok_def)
    then show ?thesis unfolding idx [OF i] ran write_all_apply_write
      by (rule reflects_update [OF _ docs_wf_keyed [OF wf]]) (rule ranI)
  qed
  moreover have "dom (M' (exists_ks coll)) = as_bytes ` dom (D(k := new))"
    using dat unfolding ex data_ok_def by (cases new) (auto simp: inj_image_mem_iff)
  moreover have "M' (docs_ks coll) = docs_map X (D(k := new))"
    using dat unfolding docs data_ok_def docs_map_upd doc_entry_def by simp
  ultimately show ?thesis using docs_wf_upd [OF wf new] unfolding data_ok_def by blast
qed

lemma consistent_step:
  assumes con: "consistent X content coll D s" and new: "\<And>d. new = Some d \<Longrightarrow> key d = k \<and> utf8_valid (as_bytes k) \<and> (\<exists>b. enc (db_docs X) d = Inr b)"
    and coll: "collections s' = collections s" and reg: "index_registry s' = index_registry s"
    and docs: "content (disk s' (docs_ks coll)) = (content (disk s (docs_ks coll)))(as_bytes k := doc_entry X new)"
    and ex: "dom (content (disk s' (exists_ks coll))) =
      (if new = None then dom (content (disk s (exists_ks coll))) - {as_bytes k} else insert (as_bytes k) (dom (content (disk s (exists_ks coll)))))"
    and idx: "\<And>i. i \<in> set (get_indexes s coll) \<Longrightarrow> idx_type i = BTree \<Longrightarrow> content (disk s' (idx_ks coll (idx_name i))) =
      write_all (update_in_tx (ee_libs X) (idx_fields i) (D k) new) (content (disk s (idx_ks coll (idx_name i))))"
    and locks: "locks_held (ee_libs X) (db_hash X) (get_indexes s coll) (ran D - set_option (D k) \<union> set_option new) (content (disk s' (ulock_ks coll)))"
  shows "consistent X content coll (D(k := new)) s'"
proof -
  have get: "get_indexes s' coll = get_indexes s coll" by (simp add: get_indexes_def reg)
  have "ran (D(k := new)) = ran D - set_option (D k) \<union> set_option new"
    by (rule ran_upd) (use con new in \<open>auto simp: consistent_def\<close>)
  moreover have "data_ok X coll (get_indexes s coll) (D(k := new)) (\<lambda>nm. content (disk s' nm))"
    using con docs ex idx new by (intro data_step [where M = "\<lambda>nm. content (disk s nm)"]) (simp_all add: consistent_iff)
  ultimately show ?thesis using con locks unfolding consistent_iff get coll by simp
qed

section \<open>Steps that keep the keyspaces\<close>

text \<open>Two states that agree on everything but the keyspaces \<open>N\<close>, the handles of indexes and the
  external indexes.\<close>

definition same_except :: "string set \<Rightarrow> ('ks, 'x, 'z) database_scheme \<Rightarrow> ('ks, 'x, 'z) database_scheme \<Rightarrow> bool" where
  "same_except N s s' \<longleftrightarrow>
     (\<forall>nm. nm \<notin> N \<longrightarrow> disk s' nm = disk s nm) \<and> collections s' = collections s \<and>
     index_registry s' = index_registry s \<and> edge_schemas s' = edge_schemas s \<and> edge_keyspaces s' = edge_keyspaces s"

definition keeps_except :: "string set \<Rightarrow> ('ks, 'x, 'z, 'a) db_op \<Rightarrow> bool" where
  "keeps_except N m \<longleftrightarrow> (\<forall>s. same_except N s (fst (m s)))"

text \<open>An operation that keeps the keyspaces unless its result is one of \<open>G\<close>.\<close>

definition atomic_unless :: "'a set \<Rightarrow> string set \<Rightarrow> ('ks, 'x, 'z, 'a) db_op \<Rightarrow> bool" where
  "atomic_unless G N m \<longleftrightarrow> (\<forall>s s' r. m s = (s', r) \<longrightarrow> r \<notin> Inr ` G \<longrightarrow> same_except N s s')"

named_theorems keeps \<open>operations that keep the keyspaces\<close>

lemma same_except_refl [simp]: "same_except N s s"
  by (simp add: same_except_def)

lemma same_except_trans: "same_except N s s1 \<Longrightarrow> same_except N s1 s2 \<Longrightarrow> same_except N s s2"
  by (simp add: same_except_def)

lemma keeps_exceptD: "keeps_except N m \<Longrightarrow> m s = (s', r) \<Longrightarrow> same_except N s s'"
  by (metis keeps_except_def fst_conv)

lemma keeps_try_do [keeps]: "keeps_except N m \<Longrightarrow> (\<And>a. keeps_except N (f a)) \<Longrightarrow> keeps_except N (try_do m f)"
proof -
  assume m: "keeps_except N m" and f: "\<And>a. keeps_except N (f a)"
  have "same_except N s (fst (try_do m f s))" for s
  proof -
    obtain s1 r where s1: "m s = (s1, r)" by fastforce
    then have "same_except N s s1" by (rule keeps_exceptD [OF m])
    then show ?thesis using s1 f unfolding keeps_except_def by (cases r) (auto intro: same_except_trans)
  qed
  then show ?thesis by (simp add: keeps_except_def)
qed

lemma keeps_basic [keeps]:
  "keeps_except N (ok a)" "keeps_except N (fail e)" "keeps_except N (lift_result r)"
  by (simp_all add: keeps_except_def)

lemma keeps_with_state [keeps]: "(\<And>s. keeps_except N (f s)) \<Longrightarrow> keeps_except N (with_state f)"
  by (simp add: keeps_except_def)

lemma keeps_if [keeps]: "keeps_except N m \<Longrightarrow> keeps_except N m' \<Longrightarrow> keeps_except N (if b then m else m')"
  by simp

lemma keeps_for_each [keeps]: "(\<And>x. keeps_except N (f x)) \<Longrightarrow> keeps_except N (for_each xs f)"
  by (induction xs) (auto intro: keeps)

lemma keeps_on_external [keeps]: "keeps_except N (on_external f)"
  by (auto simp: keeps_except_def on_external_def same_except_def split: prod.splits)

lemma keeps_index_keyspace [keeps]: "keeps_except N (get_or_create_index_keyspace X coll n)"
  by (auto simp: keeps_except_def get_or_create_index_keyspace_def try_do_def open_keyspace_def same_except_def
      split: prod.splits sum.splits option.splits)

lemma keeps_log_failure [keeps]: "keeps_except N m \<Longrightarrow> keeps_except N (log_failure m)"
  by (simp add: keeps_except_def log_failure_def)

lemma keeps_begin_tx [keeps]: "keeps_except N (begin_tx T)"
  by (auto simp: begin_tx_def intro: keeps split: option.split)

lemma keeps_on_locks [keeps]: "keeps_except {ulock_ks coll} (on_locks coll f)"
  by (auto simp: keeps_except_def on_locks_def same_except_def split: prod.splits)

lemma keeps_constraints [keeps]:
  "keeps_except {ulock_ks coll} (claim_constraints X coll idxs old new)"
  "keeps_except {ulock_ks coll} (rollback_constraints X coll idxs old new)"
  by (simp_all add: claim_constraints_def rollback_constraints_def keeps)

lemma keeps_btree_writes [keeps]: "keeps_except N (btree_writes X coll idxs old new tx)"
  by (induction idxs arbitrary: tx) (auto intro!: keeps)

lemma keeps_index_writes [keeps]: "keeps_except N (update_btree_in_tx X tx coll old new)" "keeps_except N (index_writes X doc old tx)"
  by (auto simp: update_btree_in_tx_def index_writes_def intro!: keeps)

lemma tx_apply_fields [simp]:
  "collections (tx_apply E tx s) = collections s" "index_registry (tx_apply E tx s) = index_registry s"
  "edge_schemas (tx_apply E tx s) = edge_schemas s" "edge_keyspaces (tx_apply E tx s) = edge_keyspaces s"
  "index_keyspaces (tx_apply E tx s) = index_keyspaces s" "external (tx_apply E tx s) = external s"
  by (induction E tx s rule: tx_apply.induct) auto

lemma tx_apply_other: "nm \<notin> fst ` set tx \<Longrightarrow> disk (tx_apply E tx s) nm = disk s nm"
  by (induction E tx s rule: tx_apply.induct) auto

lemma keeps_complete [keeps]: "keeps_except {INDEX_JOBS_KEYSPACE} (complete_external_index_job_keys X T ks)"
proof -
  have "keeps_except {INDEX_JOBS_KEYSPACE} (commit X T (map (\<lambda>k. (INDEX_JOBS_KEYSPACE, k, None)) ks))"
    by (auto simp: keeps_except_def commit_def tx_commit_def same_except_def
        image_image intro!: tx_apply_other split: prod.splits commit_outcome.splits)
  then show ?thesis unfolding complete_external_index_job_keys_def by (intro keeps)
qed

lemma keeps_apply_job [keeps]: "keeps_except N (update_fts_hnsw X coll old new)" "keeps_except N (apply_external_index_job X j)"
  unfolding apply_external_index_job_def update_fts_hnsw_def by (intro keeps)+

lemma keeps_apply_jobs [keeps]: "keeps_except {INDEX_JOBS_KEYSPACE} (apply_and_complete_external_index_jobs X T jobs)"
  unfolding apply_and_complete_external_index_jobs_def complete_external_index_jobs_def by (intro keeps)

lemma keeps_try_apply [keeps]:
  "keeps_except {INDEX_JOBS_KEYSPACE} (try_apply_and_complete_external_index_job X T coll k old new)"
  "keeps_except {INDEX_JOBS_KEYSPACE} (try_apply_and_complete_external_index_jobs X T jobs)"
  unfolding try_apply_and_complete_external_index_job_def apply_and_complete_external_index_job_def
    try_apply_and_complete_external_index_jobs_def by (intro keeps)+

named_theorems atomic \<open>operations that change nothing when they fail\<close>

lemma atomic_keeps: "keeps_except N m \<Longrightarrow> atomic_unless G N m"
  unfolding atomic_unless_def by (blast dest: keeps_exceptD)

lemma atomic_at: "atomic_unless G N m \<Longrightarrow> m s = (s', r) \<Longrightarrow> r \<notin> Inr ` G \<Longrightarrow> same_except N s s'"
  by (simp add: atomic_unless_def)

lemma atomic_try_do [atomic]: "keeps_except N m \<Longrightarrow> (\<And>a. atomic_unless G N (f a)) \<Longrightarrow> atomic_unless G N (try_do m f)"
proof -
  assume m: "keeps_except N m" and f: "\<And>a. atomic_unless G N (f a)"
  have "same_except N s s'" if res: "try_do m f s = (s', r)" "r \<notin> Inr ` G" for s s' r
  proof -
    obtain s1 r1 where s1: "m s = (s1, r1)" by fastforce
    then have same: "same_except N s s1" by (rule keeps_exceptD [OF m])
    show ?thesis
    proof (cases r1)
      case (Inr a)
      then have "f a s1 = (s', r)" using res(1) s1 by simp
      then have "same_except N s1 s'" using f res(2) unfolding atomic_unless_def by blast
      then show ?thesis by (rule same_except_trans [OF same])
    qed (use res s1 same in simp)
  qed
  then show ?thesis by (simp add: atomic_unless_def)
qed

lemma atomic_with_state [atomic]: "(\<And>s. atomic_unless G N (f s)) \<Longrightarrow> atomic_unless G N (with_state f)"
  by (simp add: atomic_unless_def)

lemma atomic_if [atomic]: "atomic_unless G N m \<Longrightarrow> atomic_unless G N m' \<Longrightarrow> atomic_unless G N (if b then m else m')"
  by simp

lemma atomic_option [atomic]:
  "atomic_unless G N m \<Longrightarrow> (\<And>x. atomic_unless G N (f x)) \<Longrightarrow> atomic_unless G N (case r of None \<Rightarrow> m | Some x \<Rightarrow> f x)"
  by (cases r) simp_all

lemma atomic_pair [atomic]: "(\<And>x y. atomic_unless G N (f x y)) \<Longrightarrow> atomic_unless G N (case p of (x, y) \<Rightarrow> f x y)"
  by (cases p) simp

lemma atomic_or_undo [atomic]: "keeps_except N undo \<Longrightarrow> atomic_unless G N m \<Longrightarrow> atomic_unless G N (or_undo undo m)"
proof -
  assume undo: "keeps_except N undo" and m: "atomic_unless G N m"
  have "same_except N s s'" if res: "or_undo undo m s = (s', r)" "r \<notin> Inr ` G" for s s' r
  proof -
    obtain s1 r1 where s1: "m s = (s1, r1)" by fastforce
    show ?thesis
    proof (cases r1)
      case (Inl e)
      then have "same_except N s s1" using m s1 unfolding atomic_unless_def by blast
      moreover have "same_except N s1 s'" using undo res(1) s1 Inl by (auto simp: or_undo_def keeps_except_def)
      ultimately show ?thesis by (rule same_except_trans)
    next
      case (Inr a)
      then show ?thesis using m s1 res unfolding atomic_unless_def or_undo_def by auto
    qed
  qed
  then show ?thesis by (simp add: atomic_unless_def)
qed

lemma atomic_commit:
  assumes "\<And>s. \<exists>s'. \<exists>a\<in>G. post s = (s', Inr a)" "atomic_unless G N other"
  shows "atomic_unless G N (try_do (commit X T tx) (\<lambda>committed. if committed then post else other))"
  using assms unfolding atomic_unless_def try_do_def commit_def tx_commit_def
  by (auto split: prod.splits sum.splits commit_outcome.splits) (metis image_eqI prod.inject)

section \<open>The writes of a document change\<close>

lemma same_but_index_keyspaces [simp]: "\<exists>K. s = s\<lparr>index_keyspaces := K\<rparr>"
  by (rule exI [of _ "index_keyspaces s"]) simp

lemma get_or_create_index_keyspace_ok:
  "get_or_create_index_keyspace X coll n s = (s', Inr ks) \<Longrightarrow> ks = idx_ks coll n \<and> (\<exists>K. s' = s\<lparr>index_keyspaces := K\<rparr>)"
  by (auto simp: get_or_create_index_keyspace_def open_keyspace_def try_do_Inr_iff split: if_splits option.splits)

lemma writes_to_Pair: "writes_to nm (map (Pair ks) ws) = (if ks = nm then ws else [])"
  by (induction ws) (auto simp: writes_to_def)

lemma btree_writes_ok:
  assumes "btree_writes X coll idxs old new tx s = (s', Inr tx')"
  shows "(\<exists>K. s' = s\<lparr>index_keyspaces := K\<rparr>) \<and>
    writes_to nm tx' = writes_to nm tx @ concat (map (\<lambda>i. update_in_tx (ee_libs X) (idx_fields i) old new)
      (filter (\<lambda>i. idx_type i = BTree \<and> idx_ks coll (idx_name i) = nm) idxs))"
  using assms
proof (induction idxs arbitrary: s tx)
  case Nil
  then show ?case by auto
next
  case (Cons i idxs)
  show ?case
  proof (cases "idx_type i = BTree")
    case True
    then obtain s1 ks where ks: "get_or_create_index_keyspace X coll (idx_name i) s = (s1, Inr ks)"
      and rest: "btree_writes X coll idxs old new
        (tx @ map (Pair ks) (update_in_tx (ee_libs X) (idx_fields i) old new)) s1 = (s', Inr tx')"
      using Cons.prems by (auto simp: try_do_Inr_iff)
    obtain K where "ks = idx_ks coll (idx_name i)" "s1 = s\<lparr>index_keyspaces := K\<rparr>"
      using get_or_create_index_keyspace_ok [OF ks] by blast
    then show ?thesis using Cons.IH [OF rest] True by (auto simp: writes_to_Pair)
  next
    case False
    then show ?thesis using Cons.IH [of tx s] Cons.prems by simp
  qed
qed

lemma distinct_filter_single:
  "distinct (map f (filter P xs)) \<Longrightarrow> i \<in> set xs \<Longrightarrow> P i \<Longrightarrow> filter (\<lambda>j. P j \<and> f j = f i) xs = [i]"
proof (induction xs)
  case (Cons x xs)
  show ?case
  proof (cases "x = i")
    case True
    then have "f i \<notin> f ` {x \<in> set xs. P x}" using Cons.prems by simp
    then have "f j \<noteq> f i" if "j \<in> set xs" "P j" for j
      using that by (metis (mono_tags, lifting) image_eqI mem_Collect_eq)
    then show ?thesis using True Cons.prems(3) by (auto simp: filter_empty_conv)
  next
    case False
    then have "\<not> (P x \<and> f x = f i)" using Cons.prems by auto
    moreover have "distinct (map f (filter P xs))" using Cons.prems(1) by (cases "P x") simp_all
    ultimately show ?thesis using False Cons by auto
  qed
qed simp

text \<open>The writes that the indexes of a collection add to a transaction.\<close>

definition adds_index_writes ::
  "('ks, 'd, 'x) db_env \<Rightarrow> string \<Rightarrow> IndexDef list \<Rightarrow> document option \<Rightarrow> document option \<Rightarrow> tx \<Rightarrow> tx \<Rightarrow> bool" where
  "adds_index_writes X coll idxs old new tx tx' \<longleftrightarrow>
     (\<forall>i\<in>set idxs. idx_type i = BTree \<longrightarrow> writes_to (idx_ks coll (idx_name i)) tx' =
        writes_to (idx_ks coll (idx_name i)) tx @ update_in_tx (ee_libs X) (idx_fields i) old new) \<and>
     (\<forall>nm. (\<forall>i\<in>set idxs. idx_type i = BTree \<longrightarrow> nm \<noteq> idx_ks coll (idx_name i)) \<longrightarrow> nm \<noteq> INDEX_JOBS_KEYSPACE \<longrightarrow>
        writes_to nm tx' = writes_to nm tx)"

lemma jobs_keyspace_distinct [simp]:
  "docs_ks a \<noteq> INDEX_JOBS_KEYSPACE" "ulock_ks a \<noteq> INDEX_JOBS_KEYSPACE" "exists_ks a \<noteq> INDEX_JOBS_KEYSPACE"
  "idx_ks a n \<noteq> INDEX_JOBS_KEYSPACE" "edge_ks l \<noteq> INDEX_JOBS_KEYSPACE" "META_KEYSPACE \<noteq> INDEX_JOBS_KEYSPACE"
  by (simp_all add: docs_ks_def ulock_ks_def exists_ks_def idx_ks_def edge_ks_def EDGE_KEYSPACE_PREFIX_def
      INDEX_JOBS_KEYSPACE_def META_KEYSPACE_def)

lemma idx_ks_eq_iff [simp]: "idx_ks coll a = idx_ks coll b \<longleftrightarrow> a = b"
  by (simp add: idx_ks_def)

lemma update_btree_ok:
  assumes "update_btree_in_tx X tx coll old new s = (s', Inr tx')" "index_names_distinct s coll"
  shows "adds_index_writes X coll (get_indexes s coll) old new tx tx' \<and> (\<exists>K. s' = s\<lparr>index_keyspaces := K\<rparr>)"
proof -
  have w: "btree_writes X coll (get_indexes s coll) old new tx s = (s', Inr tx')"
    using assms(1) by (simp add: update_btree_in_tx_def)
  have "filter (\<lambda>j. idx_type j = BTree \<and> idx_ks coll (idx_name j) = idx_ks coll (idx_name i)) (get_indexes s coll) = [i]"
    if "i \<in> set (get_indexes s coll)" "idx_type i = BTree" for i
    using distinct_filter_single [of idx_name "\<lambda>i. idx_type i = BTree"] assms(2) that by (simp add: index_names_distinct_def)
  then have "\<forall>i\<in>set (get_indexes s coll). idx_type i = BTree \<longrightarrow> writes_to (idx_ks coll (idx_name i)) tx' =
        writes_to (idx_ks coll (idx_name i)) tx @ update_in_tx (ee_libs X) (idx_fields i) old new"
    using btree_writes_ok [OF w] by simp
  moreover have "writes_to nm tx' = writes_to nm tx"
    if "\<forall>i\<in>set (get_indexes s coll). idx_type i = BTree \<longrightarrow> nm \<noteq> idx_ks coll (idx_name i)" for nm
  proof -
    have "filter (\<lambda>i. idx_type i = BTree \<and> idx_ks coll (idx_name i) = nm) (get_indexes s coll) = []"
      using that by (auto simp: filter_empty_conv)
    then show ?thesis using btree_writes_ok [OF w, of nm] by simp
  qed
  ultimately show ?thesis using btree_writes_ok [OF w] by (simp add: adds_index_writes_def)
qed

lemma write_job_ok:
  assumes "write_external_index_job X tx coll k old new s = Inr tx'" "nm \<noteq> INDEX_JOBS_KEYSPACE"
  shows "writes_to nm tx' = writes_to nm tx"
  using assms by (auto simp: write_external_index_job_def and_then_Inr_iff split: if_splits)

lemma index_writes_ok:
  assumes "index_writes X doc old tx s = (s', Inr tx')" "index_names_distinct s (collection doc)"
  shows "adds_index_writes X (collection doc) (get_indexes s (collection doc)) old (Some doc) tx tx' \<and> (\<exists>K. s' = s\<lparr>index_keyspaces := K\<rparr>)"
proof -
  obtain tx1 where b: "update_btree_in_tx X tx (collection doc) old (Some doc) s = (s', Inr tx1)"
    and j: "write_external_index_job X tx1 (collection doc) (key doc) old (Some doc) s' = Inr tx'"
    using assms(1) by (auto simp: index_writes_def try_do_Inr_iff)
  show ?thesis using update_btree_ok [OF b assms(2)] write_job_ok [OF j] by (auto simp: adds_index_writes_def)
qed


section \<open>Successful operations\<close>

lemma get_or_create_existing: "coll \<in> set (collections s) \<Longrightarrow> get_or_create_collection X coll s = (s, Inr ())"
  by (simp add: get_or_create_collection_def)

lemma atomic_existing:
  "atomic_unless G N (f ()) \<Longrightarrow> coll \<in> set (collections s) \<Longrightarrow> try_do (get_or_create_collection X coll) f s = (s', r) \<Longrightarrow>
   r \<notin> Inr ` G \<Longrightarrow> same_except N s s'"
  by (simp add: get_or_create_existing atomic_unless_def)

locale db_engine = engine "ee_engine X" content for X :: "('ks, 'd, 'x) db_env" and content +
  assumes docs_codec: "codec_ok (db_docs X)"
begin

lemma documents_get_ok:
  assumes "consistent X content coll D s" "documents_get X coll k s = Inr r"
  shows "r = D k"
proof -
  obtain r0 where r0: "ks_get (eng_ks (ee_engine X)) (disk s (docs_ks coll)) (as_bytes k) = Inr r0"
    "(case r0 of None \<Rightarrow> Inr None | Some b \<Rightarrow> and_then (dec (db_docs X) b) (\<lambda>d. Inr (Some d))) = Inr r"
    using assms by (auto simp: documents_get_def docs_keyspace_def consistent_def and_then_Inr_iff)
  have "r0 = docs_map X D (as_bytes k)" using get_content [OF r0(1)] assms(1) by (simp add: consistent_def)
  then show ?thesis
  proof (cases "D k")
    case (Some d)
    then obtain b where b: "enc (db_docs X) d = Inr b" using assms(1) unfolding consistent_def docs_wf_def by blast
    then have "dec (db_docs X) b = Inr d" using docs_codec by (simp add: codec_ok_def)
    then show ?thesis using r0(2) \<open>r0 = docs_map X D (as_bytes k)\<close> Some b by (simp add: docs_map_def)
  qed (use r0(2) in \<open>simp add: docs_map_def\<close>)
qed

lemma document_written:
  assumes con: "consistent X content coll D s"
    and new: "\<And>d. new = Some d \<Longrightarrow> key d = k \<and> utf8_valid (as_bytes k) \<and> (\<exists>b. enc (db_docs X) d = Inr b)"
    and locks: "locks_held (ee_libs X) (db_hash X) (get_indexes s coll) (ran D - set_option (D k) \<union> set_option new) (content ks1)"
    and tx: "adds_index_writes X coll (get_indexes s coll) (D k) new tx0 tx"
    and docs: "writes_to (docs_ks coll) tx0 = [(as_bytes k, doc_entry X new)]"
    and ex: "writes_to (exists_ks coll) tx0 =
      (if new = None then [(as_bytes k, None)] else if D k = None then [(as_bytes k, Some [])] else [])"
    and others: "writes_to (ulock_ks coll) tx0 = []" "\<And>n. writes_to (idx_ks coll n) tx0 = []"
    and s': "same_except {INDEX_JOBS_KEYSPACE} (tx_apply (ee_engine X) tx (s\<lparr>disk := (disk s)(ulock_ks coll := ks1), index_keyspaces := K\<rparr>)) s'"
  shows "consistent X content coll (D(k := new)) s'"
proof (rule consistent_step [OF con new])
  let ?s = "s\<lparr>disk := (disk s)(ulock_ks coll := ks1), index_keyspaces := K\<rparr>"
  have disk: "content (disk s' nm) = write_all (writes_to nm tx) (content (disk ?s nm))" if "nm \<noteq> INDEX_JOBS_KEYSPACE" for nm
    using s' that content_tx_apply [of tx ?s nm] by (simp add: same_except_def)
  have same: "writes_to nm tx = writes_to nm tx0" if "\<forall>n. nm \<noteq> idx_ks coll n" "nm \<noteq> INDEX_JOBS_KEYSPACE" for nm
    using tx that by (simp add: adds_index_writes_def)
  show "collections s' = collections s" "index_registry s' = index_registry s" using s' by (simp_all add: same_except_def)
  show "content (disk s' (docs_ks coll)) = (content (disk s (docs_ks coll)))(as_bytes k := doc_entry X new)"
    by (simp add: disk same docs)
  have "as_bytes k \<in> dom (content (disk s (exists_ks coll)))" if "D k \<noteq> None"
    using con that by (auto simp: consistent_def)
  then show "dom (content (disk s' (exists_ks coll))) =
      (if new = None then dom (content (disk s (exists_ks coll))) - {as_bytes k} else insert (as_bytes k) (dom (content (disk s (exists_ks coll)))))"
    by (auto simp: disk same ex)
  show "content (disk s' (idx_ks coll (idx_name i))) =
      write_all (update_in_tx (ee_libs X) (idx_fields i) (D k) new) (content (disk s (idx_ks coll (idx_name i))))"
    if "i \<in> set (get_indexes s coll)" "idx_type i = BTree" for i
    using tx that others(2) by (simp add: disk adds_index_writes_def)
  show "locks_held (ee_libs X) (db_hash X) (get_indexes s coll) (ran D - set_option (D k) \<union> set_option new) (content (disk s' (ulock_ks coll)))"
    using locks by (simp add: disk same others(1))
qed

lemma claim_constraints_ok:
  assumes "claim_constraints X coll idxs old new s = (s', Inr u)"
  shows "\<exists>ks. validate_and_update (ee_libs X) (db_hash X) (eng_ks (ee_engine X)) idxs old new (disk s (ulock_ks coll)) = (ks, Inr ()) \<and>
    s' = s\<lparr>disk := (disk s)(ulock_ks coll := ks)\<rparr>"
  using assms by (auto simp: claim_constraints_def on_locks_def split: prod.splits)

lemma claimed_locks:
  assumes wf: "docs_wf X coll D" and held: "locks_held (ee_libs X) (db_hash X) idxs (ran D) (content ks0)"
    and v: "validate_and_update (ee_libs X) (db_hash X) (eng_ks (ee_engine X)) idxs (D k) new ks0 = (ks, Inr u)"
    and new: "\<And>d. new = Some d \<Longrightarrow> key d = k" and sep: "locks_separate (ee_libs X) (db_hash X) idxs (D k) new"
  shows "locks_held (ee_libs X) (db_hash X) idxs (ran D - set_option (D k) \<union> set_option new) (content ks)"
proof (rule validate_and_update_keeps_locks [OF v held])
  show "set_option (D k) \<subseteq> ran D" by (auto simp: ran_def)
  show "\<forall>d\<in>set_option (D k) \<union> set_option new. key d = k" using wf new by (auto simp: docs_wf_def)
  show "\<forall>d\<in>ran D - set_option (D k). key d \<noteq> k" using wf by (auto simp: docs_wf_def ran_def)
qed (rule sep)

lemma commit_True: "commit X T tx s = (s', Inr True) \<Longrightarrow> s' = tx_apply (ee_engine X) tx s"
  by (auto simp: commit_def tx_commit_def split: commit_outcome.splits)

lemma post_commit: "try_apply_and_complete_external_index_job X T coll k old new s = (s', r) \<Longrightarrow> same_except {INDEX_JOBS_KEYSPACE} s s'"
  by (rule keeps_exceptD [OF keeps_try_apply(1)])

lemma or_undo_Inr: "or_undo undo m s = (s', Inr a) \<longleftrightarrow> m s = (s', Inr a)"
  by (auto simp: or_undo_def split: prod.splits sum.splits)

lemma set_document_ok:
  assumes con: "consistent X content coll D s" and doc: "collection doc = coll" "key doc = k" "utf8_valid (as_bytes k)"
    and idx: "index_names_distinct s coll" and sep: "locks_separate (ee_libs X) (db_hash X) (get_indexes s coll) (D k) (Some doc)"
    and res: "set_document X T T' doc s = (s', Inr u)"
  shows "consistent X content coll (D(k \<mapsto> doc)) s'"
proof -
  have coll: "coll \<in> set (collections s)" using con by (simp add: consistent_def)
  obtain old s1 s2 s3 b tx where old: "documents_get X coll k s = Inr old"
    and s1: "claim_constraints X coll (get_indexes s coll) old (Some doc) s = (s1, Inr ())"
    and b: "enc (db_docs X) doc = Inr b"
    and tx: "index_writes X doc old ([(docs_ks coll, as_bytes k, Some b)] @ exists_marker coll k (old = None)) s1 = (s2, Inr tx)"
    and s3: "commit X T tx s2 = (s3, Inr True)"
    and post: "try_apply_and_complete_external_index_job X T' coll k old (Some doc) s3 = (s', Inr u)"
    using res coll doc
    by (auto simp: set_document_def get_or_create_existing try_do_Inr_iff or_undo_Inr begin_tx_def Let_def
        split: if_splits option.splits)
  have old': "old = D k" by (rule documents_get_ok [OF con old])
  obtain ks1 where ks1: "validate_and_update (ee_libs X) (db_hash X) (eng_ks (ee_engine X)) (get_indexes s coll) (D k) (Some doc)
      (disk s (ulock_ks coll)) = (ks1, Inr ())" "s1 = s\<lparr>disk := (disk s)(ulock_ks coll := ks1)\<rparr>"
    using claim_constraints_ok [OF s1] old' by auto
  obtain K where K: "s2 = s1\<lparr>index_keyspaces := K\<rparr>" and w: "adds_index_writes X coll (get_indexes s coll) (D k) (Some doc)
      ([(docs_ks coll, as_bytes k, Some b)] @ exists_marker coll k (D k = None)) tx"
    using index_writes_ok [OF tx] idx doc(1) old' ks1(2) by (auto simp: index_names_distinct_def get_indexes_def)
  show ?thesis
  proof (rule document_written [OF con _ claimed_locks [OF consistentD [OF con] ks1(1)] w])
    show "same_except {INDEX_JOBS_KEYSPACE} (tx_apply (ee_engine X) tx (s\<lparr>disk := (disk s)(ulock_ks coll := ks1), index_keyspaces := K\<rparr>)) s'"
      using post_commit [OF post] commit_True [OF s3] K ks1(2) by simp
  qed (use doc b sep in \<open>simp_all add: exists_marker_def doc_entry_def\<close>)
qed

lemma create_document_ok:
  assumes con: "consistent X content coll D s" and doc: "collection doc = coll" "key doc = k" "utf8_valid (as_bytes k)"
    and idx: "index_names_distinct s coll" and sep: "locks_separate (ee_libs X) (db_hash X) (get_indexes s coll) None (Some doc)"
    and res: "create_document X T T' doc s = (s', Inr True)"
  shows "D k = None \<and> consistent X content coll (D(k \<mapsto> doc)) s'"
proof -
  have coll: "coll \<in> set (collections s)" using con by (simp add: consistent_def)
  obtain s1 s2 s3 b tx where s1: "claim_constraints X coll (get_indexes s coll) None (Some doc) s = (s1, Inr ())"
    and none: "tx_get (ee_engine X) [] (docs_ks coll) (as_bytes k) s1 = Inr None"
    and b: "enc (db_docs X) doc = Inr b"
    and tx: "index_writes X doc None [(docs_ks coll, as_bytes k, Some b), (exists_ks coll, as_bytes k, Some [])] s1 = (s2, Inr tx)"
    and s3: "commit X T tx s2 = (s3, Inr True)"
    and post: "try_apply_and_complete_external_index_job X T' coll k None (Some doc) s3 = (s', Inr ())"
    using res coll doc
    by (auto simp: create_document_def get_or_create_existing try_do_Inr_iff or_undo_Inr begin_tx_def Let_def
        split: if_splits option.splits)
  obtain ks1 where ks1: "validate_and_update (ee_libs X) (db_hash X) (eng_ks (ee_engine X)) (get_indexes s coll) None (Some doc)
      (disk s (ulock_ks coll)) = (ks1, Inr ())" "s1 = s\<lparr>disk := (disk s)(ulock_ks coll := ks1)\<rparr>"
    using claim_constraints_ok [OF s1] by auto
  have "docs_map X D (as_bytes k) = None"
    using tx_get_content [OF none] con ks1(2) by (simp add: consistent_def)
  then have Dk: "D k = None"
    using con unfolding consistent_def docs_wf_def by (fastforce simp: docs_map_def split: option.splits sum.splits)
  obtain K where K: "s2 = s1\<lparr>index_keyspaces := K\<rparr>" and w: "adds_index_writes X coll (get_indexes s coll) (D k) (Some doc)
      [(docs_ks coll, as_bytes k, Some b), (exists_ks coll, as_bytes k, Some [])] tx"
    using index_writes_ok [OF tx] idx doc(1) Dk ks1(2) by (auto simp: index_names_distinct_def get_indexes_def)
  have "consistent X content coll (D(k \<mapsto> doc)) s'"
  proof (rule document_written [OF con _ claimed_locks [OF consistentD [OF con] ks1(1) [folded Dk]] w])
    show "same_except {INDEX_JOBS_KEYSPACE} (tx_apply (ee_engine X) tx (s\<lparr>disk := (disk s)(ulock_ks coll := ks1), index_keyspaces := K\<rparr>)) s'"
      using post_commit [OF post] commit_True [OF s3] K ks1(2) by simp
  qed (use doc b sep Dk in \<open>simp_all add: doc_entry_def\<close>)
  then show ?thesis using Dk by simp
qed

lemma update_document_ok:
  assumes con: "consistent X content coll D s" and doc: "collection doc = coll" "key doc = k" "utf8_valid (as_bytes k)"
    and idx: "index_names_distinct s coll" and sep: "locks_separate (ee_libs X) (db_hash X) (get_indexes s coll) (D k) (Some doc)"
    and res: "db_update_document X T T' doc s = (s', Inr True)"
  shows "D k \<noteq> None \<and> consistent X content coll (D(k \<mapsto> doc)) s'"
proof -
  have coll: "coll \<in> set (collections s)" using con by (simp add: consistent_def)
  obtain old s1 s2 s3 b tx where old: "documents_get X coll k s = Inr (Some old)"
    and s1: "claim_constraints X coll (get_indexes s coll) (Some old) (Some doc) s = (s1, Inr ())"
    and b: "enc (db_docs X) doc = Inr b"
    and tx: "index_writes X doc (Some old) [(docs_ks coll, as_bytes k, Some b)] s1 = (s2, Inr tx)"
    and s3: "commit X T tx s2 = (s3, Inr True)"
    and post: "try_apply_and_complete_external_index_job X T' coll k (Some old) (Some doc) s3 = (s', Inr ())"
    using res coll doc
    by (auto simp: db_update_document_def try_do_Inr_iff or_undo_Inr begin_tx_def Let_def split: if_splits option.splits)
  have Dk: "D k = Some old" using documents_get_ok [OF con old] by simp
  obtain ks1 where ks1: "validate_and_update (ee_libs X) (db_hash X) (eng_ks (ee_engine X)) (get_indexes s coll) (D k) (Some doc)
      (disk s (ulock_ks coll)) = (ks1, Inr ())" "s1 = s\<lparr>disk := (disk s)(ulock_ks coll := ks1)\<rparr>"
    using claim_constraints_ok [OF s1] Dk by auto
  obtain K where K: "s2 = s1\<lparr>index_keyspaces := K\<rparr>" and w: "adds_index_writes X coll (get_indexes s coll) (D k) (Some doc)
      [(docs_ks coll, as_bytes k, Some b)] tx"
    using index_writes_ok [OF tx] idx doc(1) Dk ks1(2) by (auto simp: index_names_distinct_def get_indexes_def)
  have "consistent X content coll (D(k \<mapsto> doc)) s'"
  proof (rule document_written [OF con _ claimed_locks [OF consistentD [OF con] ks1(1)] w])
    show "same_except {INDEX_JOBS_KEYSPACE} (tx_apply (ee_engine X) tx (s\<lparr>disk := (disk s)(ulock_ks coll := ks1), index_keyspaces := K\<rparr>)) s'"
      using post_commit [OF post] commit_True [OF s3] K ks1(2) by simp
  qed (use doc b sep Dk in \<open>simp_all add: doc_entry_def\<close>)
  then show ?thesis using Dk by simp
qed

end

section \<open>Deletion\<close>

lemma truncate_env [simp]:
  "ee_engine (edge_env.truncate X) = ee_engine X" "ee_data (edge_env.truncate X) = ee_data X"
  by (simp_all add: edge_env.truncate_def)

context keyspace
begin

lemma release_indexes_ok:
  "release_indexes L hash F idxs doc ks = (ks', Inr u) \<Longrightarrow> content ks l \<noteq> Some (as_bytes (key doc)) \<Longrightarrow> content ks' l = content ks l"
proof (induction idxs arbitrary: ks)
  case (Cons i idxs)
  show ?case
  proof (cases "get_field_value_for_index doc (idx_fields i)")
    case (Some v)
    then obtain ks1 where r: "release_lock_key L hash F (idx_fields i) v (key doc) ks = (ks1, Inr ())"
      "release_indexes L hash F idxs doc ks1 = (ks', Inr u)"
      using Cons.prems(1) by (auto split: prod.splits sum.splits)
    then have "content ks1 l = content ks l" using release_ok [OF r(1), of l] Cons.prems(2) by simp
    then show ?thesis using Cons.IH [OF r(2)] Cons.prems(2) by simp
  qed (use Cons in simp)
qed simp

end

lemma edge_tx_writes_edges:
  assumes "delete_node_labels_in_tx Y v labels s (tx, n) = Inr (tx', n')" "\<forall>l. nm \<noteq> edge_ks l"
  shows "writes_to nm tx' = writes_to nm tx"
  using assms(1)
proof (induction labels arbitrary: tx n)
  case (Cons l labels)
  then show ?case using assms(2)
    by (auto simp: and_then_Inr_iff get_keyspace_def writes_to_queue_deletes split: option.splits if_splits)
qed simp

context db_engine
begin

lemma remove_constraints_ok:
  assumes wf: "docs_wf X coll D"
    and held: "locks_held (ee_libs X) (db_hash X) (get_indexes s coll) (ran D) (content (disk s (ulock_ks coll)))" and old: "D k = Some old"
    and res: "on_locks coll (remove_for_document (ee_libs X) (db_hash X) (eng_ks (ee_engine X)) (get_indexes s coll) old) s = (s', Inr u)"
  shows "\<exists>ks. s' = s\<lparr>disk := (disk s)(ulock_ks coll := ks)\<rparr> \<and>
    locks_held (ee_libs X) (db_hash X) (get_indexes s coll) (ran D - set_option (D k) \<union> set_option None) (content ks)"
proof -
  obtain ks where ks: "release_indexes (ee_libs X) (db_hash X) (eng_ks (ee_engine X)) (filter idx_unique (get_indexes s coll)) old
      (disk s (ulock_ks coll)) = (ks, Inr u)" "s' = s\<lparr>disk := (disk s)(ulock_ks coll := ks)\<rparr>"
    using res by (auto simp: on_locks_def remove_for_document_def split: prod.splits)
  have "key d \<noteq> key old" if "d \<in> ran D - set_option (D k)" for d
    using wf that old unfolding docs_wf_def ran_def by auto
  then have "content ks l = Some (as_bytes (key d))"
    if "d \<in> ran D - set_option (D k)" "content (disk s (ulock_ks coll)) l = Some (as_bytes (key d))" for d l
    using release_indexes_ok [OF ks(1), of l] that by simp
  then show ?thesis using held ks(2) unfolding locks_held_def by (intro exI [of _ ks]) auto
qed

lemma delete_document_steps:
  assumes con: "consistent X content coll D s" and idx: "index_names_distinct s coll"
    and res: "delete_document X T T' coll k s = (s', Inr True)"
  obtains old ks1 K etx n tx where "D k = Some old"
    and "locks_held (ee_libs X) (db_hash X) (get_indexes s coll) (ran D - set_option (D k) \<union> set_option None) (content ks1)"
    and "delete_edges_for_node_in_tx (edge_env.truncate X) [] (coll @ '':'' @ k) (s\<lparr>disk := (disk s)(ulock_ks coll := ks1)\<rparr>) = Inr (etx, n)"
    and "adds_index_writes X coll (get_indexes s coll) (D k) None
      (etx @ [(docs_ks coll, as_bytes k, None), (exists_ks coll, as_bytes k, None)]) tx"
    and "same_except {INDEX_JOBS_KEYSPACE} (tx_apply (ee_engine X) tx (s\<lparr>disk := (disk s)(ulock_ks coll := ks1), index_keyspaces := K\<rparr>)) s'"
proof -
  have coll: "coll \<in> set (collections s)" using con by (simp add: consistent_def)
  obtain old s1 etx n s2 tx1 tx s3 where old: "documents_get X coll k s = Inr (Some old)"
    and s1: "on_locks coll (remove_for_document (ee_libs X) (db_hash X) (eng_ks (ee_engine X)) (get_indexes s coll) old) s = (s1, Inr ())"
    and etx: "delete_edges_for_node_in_tx (edge_env.truncate X) [] (coll @ '':'' @ k) s1 = Inr (etx, n)"
    and b: "update_btree_in_tx X (etx @ [(docs_ks coll, as_bytes k, None), (exists_ks coll, as_bytes k, None)]) coll (Some old) None s1 = (s2, Inr tx1)"
    and j: "write_external_index_job X tx1 coll k (Some old) None s2 = Inr tx"
    and s3: "commit X T tx s2 = (s3, Inr True)"
    and post: "try_apply_and_complete_external_index_job X T' coll k (Some old) None s3 = (s', Inr ())"
    using res coll
    by (auto simp: delete_document_def try_do_Inr_iff or_undo_Inr begin_tx_def Let_def split: if_splits option.splits prod.splits)
  have Dk: "D k = Some old" using documents_get_ok [OF con old] by simp
  obtain ks1 where ks1: "s1 = s\<lparr>disk := (disk s)(ulock_ks coll := ks1)\<rparr>"
    "locks_held (ee_libs X) (db_hash X) (get_indexes s coll) (ran D - set_option (D k) \<union> set_option None) (content ks1)"
    using remove_constraints_ok [OF consistentD [OF con] Dk s1] by blast
  have get: "get_indexes s1 coll = get_indexes s coll" "index_names_distinct s1 coll"
    using idx by (simp_all add: ks1(1) get_indexes_def index_names_distinct_def)
  obtain K where K: "s2 = s1\<lparr>index_keyspaces := K\<rparr>" and w: "adds_index_writes X coll (get_indexes s coll) (D k) None
      (etx @ [(docs_ks coll, as_bytes k, None), (exists_ks coll, as_bytes k, None)]) tx"
    using update_btree_ok [OF b get(2)] write_job_ok [OF j] Dk get(1) by (auto simp: adds_index_writes_def)
  show thesis
    by (rule that [OF Dk ks1(2) etx [unfolded ks1(1)] w, of K])
      (use post_commit [OF post] commit_True [OF s3] K ks1(1) in simp)
qed

lemma delete_document_ok:
  assumes con: "consistent X content coll D s" and idx: "index_names_distinct s coll"
    and res: "delete_document X T T' coll k s = (s', Inr True)"
  shows "D k \<noteq> None \<and> consistent X content coll (D(k := None)) s'"
proof -
  obtain old ks1 K etx n tx where st: "D k = Some old"
    "locks_held (ee_libs X) (db_hash X) (get_indexes s coll) (ran D - set_option (D k) \<union> set_option None) (content ks1)"
    "delete_edges_for_node_in_tx (edge_env.truncate X) [] (coll @ '':'' @ k) (s\<lparr>disk := (disk s)(ulock_ks coll := ks1)\<rparr>) = Inr (etx, n)"
    "adds_index_writes X coll (get_indexes s coll) (D k) None
      (etx @ [(docs_ks coll, as_bytes k, None), (exists_ks coll, as_bytes k, None)]) tx"
    "same_except {INDEX_JOBS_KEYSPACE} (tx_apply (ee_engine X) tx (s\<lparr>disk := (disk s)(ulock_ks coll := ks1), index_keyspaces := K\<rparr>)) s'"
    by (rule delete_document_steps [OF con idx res])
  have e: "writes_to nm etx = []" if "\<forall>l. nm \<noteq> edge_ks l" for nm
    using edge_tx_writes_edges [OF st(3) [unfolded delete_edges_for_node_in_tx_def] that] by simp
  have "consistent X content coll (D(k := None)) s'"
    by (rule document_written [OF con _ st(2,4) _ _ _ _ st(5)]) (simp_all add: e doc_entry_def)
  then show ?thesis using st(1) by simp
qed

lemma delete_document_edges:
  assumes con: "consistent X content coll D s" and idx: "index_names_distinct s coll"
    and data: "codec_ok (ee_data X)" and label: "get_schema s label = Some sch" "es_on_delete sch = Cascade"
      "label \<in> set (list_edge_types s)" "distinct (list_edge_types s)"
    and rep: "represents (edge_env.truncate X) sch G (content (disk s (edge_ks label)))" "nul_free (coll @ '':'' @ k)"
    and few: "card (out_edges sch label (coll @ '':'' @ k) G) \<le> 1000" "card (in_edges label (coll @ '':'' @ k) G) \<le> 1000"
    and res: "delete_document X T T' coll k s = (s', Inr True)"
  shows "represents (edge_env.truncate X) sch {(f, t, d) \<in> G. f \<noteq> coll @ '':'' @ k \<and> t \<noteq> coll @ '':'' @ k}
    (content (disk s' (edge_ks label)))"
proof -
  obtain old ks1 K etx n tx where "D k = Some old"
    "locks_held (ee_libs X) (db_hash X) (get_indexes s coll) (ran D - set_option (D k) \<union> set_option None) (content ks1)"
    and st: "delete_edges_for_node_in_tx (edge_env.truncate X) [] (coll @ '':'' @ k) (s\<lparr>disk := (disk s)(ulock_ks coll := ks1)\<rparr>) = Inr (etx, n)"
    "adds_index_writes X coll (get_indexes s coll) (D k) None
      (etx @ [(docs_ks coll, as_bytes k, None), (exists_ks coll, as_bytes k, None)]) tx"
    "same_except {INDEX_JOBS_KEYSPACE} (tx_apply (ee_engine X) tx (s\<lparr>disk := (disk s)(ulock_ks coll := ks1), index_keyspaces := K\<rparr>)) s'"
    by (rule delete_document_steps [OF con idx res])
  let ?s1 = "s\<lparr>disk := (disk s)(ulock_ks coll := ks1)\<rparr>"
  have eng: "edge_engine (edge_env.truncate X) content"
    by (intro edge_engine.intro edge_engine_axioms.intro) (simp_all add: engine_axioms data)
  have "represents (edge_env.truncate X) sch {(f, t, d) \<in> G. f \<noteq> coll @ '':'' @ k \<and> t \<noteq> coll @ '':'' @ k}
      (content (disk (tx_apply (ee_engine (edge_env.truncate X)) etx ?s1) (edge_ks label)))"
    by (rule edge_engine.delete_node_cascades [OF eng _ label(2) _ _ _ rep(2) few st(1)])
      (use label rep(1) in \<open>simp_all add: get_schema_def list_edge_types_def\<close>)
  moreover have "content (disk s' (edge_ks label)) = content (disk (tx_apply (ee_engine X) etx ?s1) (edge_ks label))"
  proof -
    have "writes_to (edge_ks label) tx = writes_to (edge_ks label) etx" using st(2) by (simp add: adds_index_writes_def)
    then show ?thesis using st(3) by (simp add: same_except_def content_tx_apply)
  qed
  ultimately show ?thesis by simp
qed

end

section \<open>Failed operations\<close>

lemma try_apply_succeeds: "\<exists>s'. \<exists>u\<in>{()}. try_apply_and_complete_external_index_job X T coll k old new s = (s', Inr u)"
  by (simp add: try_apply_and_complete_external_index_job_def log_failure_def)

lemma try_apply_then_ok:
  "\<exists>s'. \<exists>b\<in>{a}. try_do (try_apply_and_complete_external_index_job X T coll k old new) (\<lambda>_. ok a) s = (s', Inr b)"
  using try_apply_succeeds [of X T coll k old new s] by auto

lemma set_document_atomic:
  assumes coll: "collection doc \<in> set (collections s)" and res: "set_document X T T' doc s = (s', Inl e)"
  shows "same_except {ulock_ks (collection doc)} s s'"
  by (rule atomic_existing [OF _ coll res [unfolded set_document_def Let_def], of "{()}"])
    ((rule atomic_commit | rule try_apply_succeeds | rule atomic | rule keeps | rule atomic_keeps)+, auto)

lemma create_document_atomic:
  assumes coll: "collection doc \<in> set (collections s)" and res: "create_document X T T' doc s = (s', r)" "r \<noteq> Inr True"
  shows "same_except {ulock_ks (collection doc)} s s'"
  by (rule atomic_existing [OF _ coll res(1) [unfolded create_document_def Let_def], of "{True}"])
    ((rule atomic_commit | rule try_apply_then_ok | rule atomic | rule keeps | rule atomic_keeps)+, use res(2) in auto)

lemma update_document_atomic:
  assumes "db_update_document X T T' doc s = (s', r)" "r \<noteq> Inr True"
  shows "same_except {ulock_ks (collection doc)} s s'"
proof -
  have "atomic_unless {True} {ulock_ks (collection doc)} (db_update_document X T T' doc)"
    unfolding db_update_document_def Let_def
    by ((rule atomic_commit | rule try_apply_then_ok | rule atomic | rule keeps | rule atomic_keeps)+)
  then show ?thesis using assms unfolding atomic_unless_def by auto
qed

lemma delete_document_atomic:
  assumes "delete_document X T T' coll k s = (s', r)" "r \<noteq> Inr True"
  shows "same_except {ulock_ks coll} s s'"
proof -
  have "atomic_unless {True} {ulock_ks coll} (delete_document X T T' coll k)"
    unfolding delete_document_def Let_def
    by ((rule atomic_commit | rule try_apply_then_ok | rule atomic | rule keeps | rule atomic_keeps)+)
  then show ?thesis using assms unfolding atomic_unless_def by auto
qed

section \<open>Locks after a rejected change\<close>

text \<open>The engine answers every conditional update.\<close>

definition fetch_update_total :: "'ks fjall \<Rightarrow> bool" where
  "fetch_update_total F \<longleftrightarrow> (\<forall>k f ks. \<exists>r. ks_fetch_update F k f ks = Inr r)"

context keyspace
begin

lemma release_total: "fetch_update_total F \<Longrightarrow> \<exists>ks'. release_lock_key L hash F fs v k ks = (ks', Inr ())"
  by (auto simp: fetch_update_total_def release_lock_key_def Let_def split: sum.splits prod.splits) (metis Inl_Inr_False)

lemma update_one_index_release:
  assumes "fetch_update_total F"
  shows "\<exists>ks'. update_one_index L hash F i (Some doc) None ks = (ks', Inr ()) \<and>
    content ks' = lock_step L hash (as_bytes (key doc)) (Some doc) None i (content ks)"
proof -
  obtain ks' where "update_one_index L hash F i (Some doc) None ks = (ks', Inr ())"
  proof (cases "idx_value i doc")
    case None
    then have "update_one_index L hash F i (Some doc) None ks = (ks, Inr ())"
      by (simp add: update_one_index_def option_value_eq_def)
    then show thesis by (rule that)
  next
    case (Some v)
    obtain ks' where "release_lock_key L hash F (idx_fields i) v (key doc) ks = (ks', Inr ())"
      using release_total [OF assms, of L hash "idx_fields i" v "key doc" ks] by (elim exE)
    then have "update_one_index L hash F i (Some doc) None ks = (ks', Inr ())"
      using Some by (simp add: update_one_index_def option_value_eq_def)
    then show thesis by (rule that)
  qed
  moreover from this have "content ks' = lock_step L hash (as_bytes (key doc)) (Some doc) None i (content ks)"
    by (rule conjunct1 [OF update_one_index_ok]) simp_all
  ultimately show ?thesis by blast
qed

lemma lock_step_release:
  "lock_step L hash K (Some doc) None i m l = (if idx_value i doc \<noteq> None \<and> opt_lock L hash i (Some doc) = Some l \<and> m l = Some K then None else m l)"
  by (auto simp: lock_step_def index_changed_def option_value_eq_def release_map_apply claim_map_apply)

lemma update_indexes_release:
  assumes "fetch_update_total F"
  shows "content (fst (update_indexes L hash F idxs (Some doc) None ks)) l =
    (if (\<exists>i\<in>set idxs. \<exists>v. idx_value i doc = Some v \<and> lock_of L hash i v = l) \<and> content ks l = Some (as_bytes (key doc))
     then None else content ks l)"
proof (induction idxs arbitrary: ks)
  case (Cons i idxs)
  obtain ks1 where "update_one_index L hash F i (Some doc) None ks = (ks1, Inr ())"
    "content ks1 = lock_step L hash (as_bytes (key doc)) (Some doc) None i (content ks)"
    using update_one_index_release [OF assms] by blast
  then show ?case using Cons.IH [of ks1] by (auto simp: lock_step_release)
qed simp

lemma rollback_releases:
  assumes "fetch_update_total F" "i \<in> set idxs" "idx_unique i" "idx_value i doc = Some v"
  shows "content (rollback_validate_and_update L hash F idxs None (Some doc) ks) (lock_of L hash i v) \<noteq> Some (as_bytes (key doc))"
proof -
  have "i \<in> set (filter idx_unique idxs)" using assms(2,3) by simp
  then have "content (fst (update_indexes L hash F (filter idx_unique idxs) (Some doc) None ks)) (lock_of L hash i v) \<noteq> Some (as_bytes (key doc))"
    unfolding update_indexes_release [OF assms(1)] using assms(4) by auto
  moreover have "filter idx_unique idxs \<noteq> []" using \<open>i \<in> set (filter idx_unique idxs)\<close> by (metis empty_iff list.set(1))
  ultimately show ?thesis by (simp add: rollback_validate_and_update_def validate_and_update_def)
qed

end

text \<open>
  Creating a document under a key that exists is rejected, and the rollback then releases the unique
  values of the rejected document, also those that the existing document holds.
\<close>

context db_engine
begin

lemma create_existing_releases_locks:
  assumes con: "consistent X content coll D s" and doc: "collection doc = coll" "D (key doc) = Some d"
    and total: "fetch_update_total (eng_ks (ee_engine X))"
    and i: "i \<in> set (get_indexes s coll)" "idx_unique i" "idx_value i doc = Some v" "idx_value i d = Some v"
    and res: "create_document X T T' doc s = (s', Inr False)"
  shows "\<not> consistent X content coll D s'"
proof
  assume con': "consistent X content coll D s'"
  have coll: "coll \<in> set (collections s)" using con by (simp add: consistent_def)
  obtain s1 where "rollback_constraints X coll (get_indexes s coll) None (Some doc) s1 = (s', Inr ())"
    using res coll doc(1)
    by (auto simp: create_document_def get_or_create_existing try_do_Inr_iff or_undo_Inr begin_tx_def Let_def
        split: if_splits option.splits)
  then have "disk s' (ulock_ks coll) =
      rollback_validate_and_update (ee_libs X) (db_hash X) (eng_ks (ee_engine X)) (get_indexes s coll) None (Some doc) (disk s1 (ulock_ks coll))"
    by (auto simp: rollback_constraints_def on_locks_def)
  then have free: "content (disk s' (ulock_ks coll)) (lock_of (ee_libs X) (db_hash X) i v) \<noteq> Some (as_bytes (key doc))"
    using rollback_releases [OF total i(1-3)] by simp
  have "get_indexes s' coll = get_indexes s coll"
    using create_document_atomic [OF _ res] coll doc(1) by (simp add: same_except_def get_indexes_def)
  moreover have "d \<in> ran D" "key d = key doc" using con doc(2) by (auto simp: ran_def consistent_def docs_wf_def)
  ultimately have "content (disk s' (ulock_ks coll)) (lock_of (ee_libs X) (db_hash X) i v) = Some (as_bytes (key doc))"
    using con' i unfolding consistent_def locks_held_def by auto
  then show False using free by contradiction
qed

end

text \<open>
  A change that a second unique index rejects has already given up the value of the first one, and
  the operation returns the error without a rollback.
\<close>

context db_engine
begin

lemma rejected_update_loses_lock:
  assumes con: "consistent X content coll D s" and doc: "collection doc = coll" "key doc = k" "D k = Some old"
    and idxs: "get_indexes s coll = [i, j]" "idx_unique i" "idx_unique j"
    and val: "idx_value i old = Some v" "idx_value i doc = Some w" "\<not> value_eq w v"
      "lock_of (ee_libs X) (db_hash X) i w \<noteq> lock_of (ee_libs X) (db_hash X) i v"
    and first: "update_one_index (ee_libs X) (db_hash X) (eng_ks (ee_engine X)) i (Some old) (Some doc) (disk s (ulock_ks coll)) = (ks1, Inr ())"
    and second: "update_one_index (ee_libs X) (db_hash X) (eng_ks (ee_engine X)) j (Some old) (Some doc) ks1 = (ks2, Inl (Conflict msg))"
      "content ks2 = content ks1"
    and res: "db_update_document X T T' doc s = (s', r)" and get: "documents_get X coll k s = Inr (Some old)"
  shows "r = Inl (Conflict msg) \<and> documents_get X coll k s' = Inr (Some old) \<and>
    content (disk s' (ulock_ks coll)) (lock_of (ee_libs X) (db_hash X) i v) = None"
proof -
  have coll: "coll \<in> set (collections s)" using con by (simp add: consistent_def)
  have "claim_constraints X coll [i, j] (Some old) (Some doc) s = (s\<lparr>disk := (disk s)(ulock_ks coll := ks2)\<rparr>, Inl (Conflict msg))"
    using first second idxs(2,3) by (simp add: claim_constraints_def on_locks_def validate_and_update_def)
  then have s': "s' = s\<lparr>disk := (disk s)(ulock_ks coll := ks2)\<rparr>" "r = Inl (Conflict msg)"
    using res coll doc(1,2) get idxs(1) by (simp_all add: db_update_document_def Let_def)
  have "key old = k" using con doc(3) by (simp add: consistent_def docs_wf_def)
  then have "content ks1 = lock_step (ee_libs X) (db_hash X) (as_bytes k) (Some old) (Some doc) i (content (disk s (ulock_ks coll)))"
    using update_one_index_ok [OF first, of k] doc(2) by simp
  moreover have "content (disk s (ulock_ks coll)) (lock_of (ee_libs X) (db_hash X) i v) = Some (as_bytes k)"
    using con doc(3) idxs(1,2) val(1) \<open>key old = k\<close> unfolding consistent_def locks_held_def by (auto simp: ran_def)
  ultimately have "content ks1 (lock_of (ee_libs X) (db_hash X) i v) = None"
    using val by (simp add: lock_step_def index_changed_def option_value_eq_def release_map_apply claim_map_apply)
  moreover have "documents_get X coll k s' = Inr (Some old)"
    using get coll by (simp add: s'(1) documents_get_def docs_keyspace_def)
  ultimately show ?thesis using s' second(2) by simp
qed

end

end
