(* ===== verification/Document_Properties.thy ===== *)
theory Document_Properties
  imports Document_Invariant
begin

text \<open>
  The properties of the document operations: listing, the invariant of a collection, failed
  operations, deletion together with edges; and the storage layer over the in-memory engine, on which
  they are applied.
\<close>

section \<open>Listing a collection\<close>

text \<open>The documents after a cursor, in the order of the bytes of their keys.\<close>

definition docs_after :: "documents \<Rightarrow> string option \<Rightarrow> document list" where
  "docs_after D after =
     map (\<lambda>k. the (D (of_bytes k)))
       (sorted_list_of_set {k \<in> as_bytes ` dom D. case after of None \<Rightarrow> True | Some c \<Rightarrow> as_bytes c < k})"

lemma decode_docs_ok:
  "decode_docs X (map Inr kvs) = Inr docs \<Longrightarrow> (\<And>k b. (k, b) \<in> set kvs \<Longrightarrow> dec (db_docs X) b = Inr (f k)) \<Longrightarrow>
   docs = map (\<lambda>kv. f (fst kv)) kvs"
proof (induction kvs arbitrary: docs)
  case (Cons kv kvs)
  obtain k b where kv: "kv = (k, b)" by fastforce
  have "dec (db_docs X) b = Inr (f k)" using Cons.prems(2) by (simp add: kv)
  then obtain ds where ds: "decode_docs X (map Inr kvs) = Inr ds" "docs = f k # ds"
    using Cons.prems(1) by (auto simp: kv and_then_Inr_iff)
  then show ?case using Cons.IH [OF ds(1)] Cons.prems(2) by (simp add: kv)
qed simp

lemma sorted_list_of_set_insert_less:
  "finite A \<Longrightarrow> (\<And>x. x \<in> A \<Longrightarrow> a < x) \<Longrightarrow> sorted_list_of_set (insert a A) = a # sorted_list_of_set A"
proof -
  assume A: "finite A" "\<And>x. x \<in> A \<Longrightarrow> a < x"
  have "Min (insert a A) = a" using A by (intro Min_eqI) (auto simp: less_imp_le)
  moreover have "insert a A - {a} = A" using A(2) by auto
  ultimately show ?thesis using sorted_list_of_set_nonempty [of "insert a A"] A(1) by simp
qed

lemma drop_cursor:
  assumes "finite (dom m)" "\<And>c. after = Some c \<Longrightarrow> as_bytes c \<in> dom m"
  shows "drop (if after \<noteq> None then 1 else 0) (entries m (in_range (map_option as_bytes after) None)) =
    map (\<lambda>k. (k, the (m k))) (sorted_list_of_set {k \<in> dom m. case after of None \<Rightarrow> True | Some c \<Rightarrow> as_bytes c < k})"
proof (cases after)
  case (Some c)
  let ?A = "{k \<in> dom m. as_bytes c < k}"
  have "{k \<in> dom m. as_bytes c \<le> k} = insert (as_bytes c) ?A" using assms(2) [OF Some] by (auto simp: less_le)
  moreover have "sorted_list_of_set (insert (as_bytes c) ?A) = as_bytes c # sorted_list_of_set ?A"
    using assms(1) by (intro sorted_list_of_set_insert_less) auto
  ultimately show ?thesis by (simp add: Some entries_def in_range_def)
qed (simp add: entries_def in_range_def)

context db_engine
begin

lemma list_documents_exact:
  assumes con: "consistent X content coll D s" and scan: "\<forall>item\<in>set (range_keys (ee_engine X) (docs_ks coll) (map_option as_bytes after) None s). \<not> isl item"
    and cursor: "\<And>c. after = Some c \<Longrightarrow> c \<in> dom D" and limit: "limit < usize_max"
    and res: "documents_list X coll after limit s = Inr (docs, next_cursor)"
  shows "docs = take limit (docs_after D after) \<and>
    next_cursor = (if limit < length (docs_after D after) \<and> 0 < limit then Some (key (last docs)) else None)"
proof -
  let ?m = "content (disk s (docs_ks coll))"
  let ?items = "range_keys (ee_engine X) (docs_ks coll) (map_option as_bytes after) None s"
  let ?ks = "sorted_list_of_set {k \<in> dom ?m. case after of None \<Rightarrow> True | Some c \<Rightarrow> as_bytes c < k}"
  have coll: "coll \<in> set (collections s)" and m: "?m = docs_map X D" and wf: "docs_wf X coll D"
    using con by (simp_all add: consistent_def)
  have doc: "\<exists>d b. D (of_bytes k) = Some d \<and> enc (db_docs X) d = Inr b \<and> ?m k = Some b" if "k \<in> dom ?m" for k
    using that wf unfolding m docs_map_def docs_wf_def by (auto split: option.splits sum.splits)
  have dom: "dom ?m = as_bytes ` dom D"
  proof (intro set_eqI iffI)
    fix k assume "k \<in> dom ?m"
    then show "k \<in> as_bytes ` dom D" using doc [of k] by (force intro!: image_eqI [of _ _ "of_bytes k"])
  next
    fix k assume "k \<in> as_bytes ` dom D"
    then obtain a d where a: "k = as_bytes a" "D a = Some d" by auto
    then obtain b where "enc (db_docs X) d = Inr b" using wf unfolding docs_wf_def by blast
    then show "k \<in> dom ?m" using a unfolding m docs_map_def by auto
  qed
  have "yields ?items (entries ?m (in_range (map_option as_bytes after) None))"
    using range_yields by (simp add: range_keys_def)
  moreover have "\<nexists>n e rest. ?items = map Inr (take n kvs) @ Inl e # rest" for kvs :: "(bytes \<times> bytes) list"
  proof (rule notI, elim exE)
    fix n e rest assume "?items = map Inr (take n kvs) @ Inl e # rest"
    then have "Inl e \<in> set ?items" by simp
    then show False using scan by fastforce
  qed
  ultimately have items: "?items = map Inr (entries ?m (in_range (map_option as_bytes after) None))" by (auto simp: yields_def)
  have skip: "drop (if after \<noteq> None then 1 else 0) ?items = map Inr (map (\<lambda>k. (k, the (?m k))) ?ks)"
    unfolding items drop_map by (subst drop_cursor [OF content_finite]) (use cursor dom in auto)
  have lim: "min usize_max (limit + 1) = Suc limit" using limit by simp
  obtain ds where ds0: "decode_docs X (take (min usize_max (limit + 1)) (drop (if after \<noteq> None then 1 else 0) ?items)) = Inr ds"
    and ds2: "(docs, next_cursor) = (let has_more = limit < length ds; docs = (if has_more then butlast ds else ds)
       in (docs, if has_more \<and> docs \<noteq> [] then Some (key (last docs)) else None))"
    using res coll by (auto simp: documents_list_def docs_keyspace_def and_then_Inr_iff Let_def)
  have ds1: "decode_docs X (map Inr (map (\<lambda>k. (k, the (?m k))) (take (Suc limit) ?ks))) = Inr ds"
    using ds0 unfolding lim skip by (simp add: take_map)
  have "ds = map (\<lambda>kv. the (D (of_bytes (fst kv)))) (map (\<lambda>k. (k, the (?m k))) (take (Suc limit) ?ks))"
  proof (rule decode_docs_ok [OF ds1])
    fix k b assume "(k, b) \<in> set (map (\<lambda>k. (k, the (?m k))) (take (Suc limit) ?ks))"
    then have "k \<in> dom ?m" "b = the (?m k)" using content_finite by (auto dest!: in_set_takeD)
    then show "dec (db_docs X) b = Inr (the (D (of_bytes k)))" using doc [of k] docs_codec by (auto simp: codec_ok_def)
  qed
  then have ds': "ds = take (Suc limit) (docs_after D after)" by (simp add: docs_after_def dom take_map comp_def)
  show ?thesis
  proof (cases "limit < length (docs_after D after)")
    case True
    then have "length ds = Suc limit" "butlast ds = take limit (docs_after D after)" by (simp_all add: ds' butlast_take)
    moreover have "take limit (docs_after D after) = [] \<longleftrightarrow> limit = 0" using True by auto
    ultimately show ?thesis using ds2 True by (simp add: Let_def)
  next
    case False
    then show ?thesis using ds2 by (simp add: ds')
  qed
qed

end

section \<open>The storage layer over the in-memory engine\<close>

text \<open>Documents with one string field, as three strings separated by zero bytes.\<close>

definition mem_docs :: "document codec" where
  "mem_docs = \<lparr>
     enc = (\<lambda>d. case doc_fields d of
        [(k, VString v)] \<Rightarrow>
          if 0 \<in> set (as_bytes (doc_id d)) \<or> 0 \<in> set (as_bytes k) then Inl (Serialization ''zero byte'')
          else Inr (as_bytes (doc_id d) @ 0 # as_bytes k @ 0 # as_bytes v)
      | _ \<Rightarrow> Inl (Serialization ''fields'')),
     dec = (\<lambda>b. let r = tl (dropWhile (\<lambda>x. x \<noteq> 0) b) in
        Inr \<lparr>doc_id = of_bytes (takeWhile (\<lambda>x. x \<noteq> 0) b),
             doc_fields = [(of_bytes (takeWhile (\<lambda>x. x \<noteq> 0) r), VString (of_bytes (tl (dropWhile (\<lambda>x. x \<noteq> 0) r))))]\<rparr>)\<rparr>"

definition mem_db_env :: "(mem_ks, int, unit) db_env" where
  "mem_db_env = edge_env.extend mem_edge_env (db_env.fields (\<lambda>b. b) mem_docs
     \<lparr>enc = (\<lambda>_. Inl (Serialization ''job'')), dec = (\<lambda>_. Inl (Serialization ''job''))\<rparr>
     \<lparr>enc = (\<lambda>_. Inl (Serialization ''schema'')), dec = (\<lambda>_. Inl (Serialization ''schema''))\<rparr>
     (\<lambda>_ _ _ _ _ x. (x, Inr ())) (\<lambda>x. (x, Inr ())) (\<lambda>_ _ _ _. Inr ()))"

lemma mem_db_env_simps [simp]:
  "ee_engine mem_db_env = mem_engine" "ee_libs mem_db_env = int_libs" "ee_data mem_db_env = ee_data mem_edge_env"
  "db_hash mem_db_env = (\<lambda>b. b)" "db_docs mem_db_env = mem_docs" "edge_env.truncate mem_db_env = mem_edge_env"
  by (simp_all add: mem_db_env_def edge_env.defs db_env.defs)

lemma takeWhile_nul: "0 \<notin> set a \<Longrightarrow> takeWhile (\<lambda>x. x \<noteq> 0) (a @ 0 # r) = (a :: bytes)" "0 \<notin> set a \<Longrightarrow> dropWhile (\<lambda>x. x \<noteq> 0) (a @ 0 # r) = 0 # r"
  by (auto simp: takeWhile_append dropWhile_append)

lemma mem_docs_codec: "codec_ok mem_docs"
proof -
  have "dec mem_docs b = Inr d" if "enc mem_docs d = Inr b" for d b
    using that by (cases d) (auto simp: mem_docs_def takeWhile_nul Let_def split: list.splits prod.splits Value.splits if_splits)
  then show ?thesis by (simp add: codec_ok_def)
qed

interpretation mem_db: db_engine mem_db_env map_of
  by (intro db_engine.intro db_engine_axioms.intro) (simp_all add: mem_engine_ok mem_docs_codec)

lemma mem_db_engine: "db_engine mem_db_env map_of"
  by (rule mem_db.db_engine_axioms)

definition sample_db :: "(mem_ks, unit) database" where
  "sample_db = \<lparr>disk = (\<lambda>_. []), edge_schemas = [], edge_keyspaces = [], collections = [''user''], index_keyspaces = [],
     index_registry = [(''user'', [email_index])], schemas = [], known_collections = [''user''], external = ()\<rparr>"

definition commits :: tx_env where
  "commits = \<lparr>tx_begin = None, tx_outcome = Committed\<rparr>"

definition sample_doc :: document where
  "sample_doc = email_doc ''a'' (VString ''x'')"

lemma sample_db_parts [simp]:
  "collections sample_db = [''user'']" "index_registry sample_db = [(''user'', [email_index])]" "get_indexes sample_db ''user'' = [email_index]" "disk sample_db nm = []"
  "index_names_distinct sample_db ''user''" "tx_begin commits = None" "tx_outcome commits = Committed"
  by (simp_all add: sample_db_def get_indexes_def index_names_distinct_def commits_def)

lemma sample_doc_parts [simp]:
  "collection sample_doc = ''user''" "key sample_doc = ''a''" "utf8_valid (as_bytes ''a'')"
  "\<exists>b. enc mem_docs sample_doc = Inr b"
  by (simp_all add: sample_doc_def) (simp_all add: email_doc_def collection_def mem_docs_def as_bytes_def utf8_next_def first_segment_def)

lemma sample_consistent: "consistent mem_db_env map_of ''user'' Map.empty sample_db"
  by (simp add: consistent_def docs_wf_def docs_map_def fun_eq_iff reflects_def locks_held_def)

lemma mem_btree_writes: "\<exists>s' tx'. btree_writes mem_db_env coll idxs old new tx s = (s', Inr tx')"
proof (induction idxs arbitrary: tx s)
  case (Cons i idxs)
  obtain s1 ks where "get_or_create_index_keyspace mem_db_env coll (idx_name i) s = (s1, Inr ks)"
    by (cases "(coll, idx_name i) \<in> set (index_keyspaces s)")
      (simp_all add: get_or_create_index_keyspace_def try_do_def open_keyspace_def)
  then show ?case using Cons.IH by simp
qed simp

lemma mem_index_writes:
  assumes "\<forall>i\<in>set (get_indexes s (collection doc)). idx_type i = BTree"
  shows "\<exists>s' tx'. index_writes mem_db_env doc old tx s = (s', Inr tx')"
proof -
  obtain s1 tx1 where b: "update_btree_in_tx mem_db_env tx (collection doc) old (Some doc) s = (s1, Inr tx1)"
    using mem_btree_writes unfolding update_btree_in_tx_def op_simps by metis
  have get: "get_indexes s1 (collection doc) = get_indexes s (collection doc)"
    using keeps_exceptD [OF keeps_index_writes(1) b] by (simp add: same_except_def get_indexes_def)
  have "validate_vectors mem_db_env coll idxs doc x = Inr ()" if "\<forall>i\<in>set idxs. idx_type i = BTree" for coll idxs x
    using that by (induction idxs) auto
  then have "validate_hnsw_vectors mem_db_env (collection doc) doc s1 = Inr ()"
    using assms get by (simp add: validate_hnsw_vectors_def)
  moreover have "write_external_index_job mem_db_env tx1 (collection doc) (key doc) old (Some doc) s1 = Inr tx1"
    using assms get by (auto simp: write_external_index_job_def has_external_indexes_def)
  ultimately show ?thesis by (simp add: index_writes_def b)
qed

lemma sample_set_succeeds: "\<exists>s'. set_document mem_db_env commits commits sample_doc sample_db = (s', Inr ())"
proof -
  obtain b where b: "enc mem_docs sample_doc = Inr b" using sample_doc_parts(4) by blast
  have get: "documents_get mem_db_env ''user'' ''a'' sample_db = Inr None"
    by (simp add: documents_get_def docs_keyspace_def)
  obtain s1 where s1: "claim_constraints mem_db_env ''user'' [email_index] None (Some sample_doc) sample_db = (s1, Inr ())"
    by (simp add: claim_constraints_def on_locks_def validate_and_update_def update_one_index_def sample_doc_def
        option_value_eq_def claim_lock_key_def Let_def)
  have "get_indexes s1 ''user'' = [email_index]"
    using keeps_exceptD [OF keeps_constraints(1) s1] by (simp add: same_except_def get_indexes_def)
  then obtain s2 tx where tx: "index_writes mem_db_env sample_doc None
      ([(docs_ks ''user'', as_bytes ''a'', Some b)] @ exists_marker ''user'' ''a'' True) s1 = (s2, Inr tx)"
    using mem_index_writes [of s1 sample_doc] unfolding sample_doc_parts(1)
    by (metis (no_types, lifting) IndexDef.select_convs(4) email_index_def empty_iff list.set(1) list.set(2) insert_iff)
  obtain s' where "try_apply_and_complete_external_index_job mem_db_env commits ''user'' ''a'' None (Some sample_doc)
      (tx_apply mem_engine tx s2) = (s', Inr ())"
    using try_apply_succeeds [of mem_db_env commits "''user''" "''a''" None "Some sample_doc" "tx_apply mem_engine tx s2"] by auto
  moreover have "commit mem_db_env commits tx s2 = (tx_apply mem_engine tx s2, Inr True)"
    by (simp add: commit_def tx_commit_def)
  ultimately show ?thesis
    by (simp add: set_document_def get_or_create_existing get s1 or_undo_def begin_tx_def b tx [simplified] Let_def)
qed

section \<open>Properties\<close>

lemma locks_separate_None [simp]: "locks_separate L hash idxs None new"
  by (simp add: locks_separate_def)



text \<open>C21: Deleting a document also deletes its edges: for a label with the cascade policy and at most
  1000 edges in each direction, exactly the edges that do not touch the document remain.\<close>

theorem delete_document_with_edges:
  assumes "db_engine X content" "codec_ok (ee_data X)" "consistent X content coll D s" "index_names_distinct s coll"
    and "get_schema s label = Some sch" "es_on_delete sch = Cascade" "label \<in> set (list_edge_types s)" "distinct (list_edge_types s)"
    and "represents (edge_env.truncate X) sch G (content (disk s (edge_ks label)))" "nul_free (coll @ '':'' @ k)"
    and "card (out_edges sch label (coll @ '':'' @ k) G) \<le> 1000" "card (in_edges label (coll @ '':'' @ k) G) \<le> 1000"
    and "delete_document X T T' coll k s = (s', Inr True)"
  shows "consistent X content coll (D(k := None)) s' \<and>
    represents (edge_env.truncate X) sch {(f, t, d) \<in> G. f \<noteq> coll @ '':'' @ k \<and> t \<noteq> coll @ '':'' @ k}
      (content (disk s' (edge_ks label)))"
  using db_engine.delete_document_edges [OF assms(1,3,4,2,5-13)] db_engine.delete_document_ok [OF assms(1,3,4,13)] by blast

text \<open>A page of a collection holds the documents after the cursor in the order of their keys, up to
  the limit, and the next cursor is the key of its last document exactly when more documents follow,
  as long as the document of the cursor still exists.\<close>

theorem list_documents_pages:
  assumes "db_engine X content" "consistent X content coll D s" "limit < usize_max"
    and "\<forall>item\<in>set (range_keys (ee_engine X) (docs_ks coll) (map_option as_bytes after) None s). \<not> isl item"
    and "set_option after \<subseteq> dom D" "documents_list X coll after limit s = Inr (docs, next_cursor)"
  shows "docs = take limit (docs_after D after) \<and>
    next_cursor = (if limit < length (docs_after D after) \<and> 0 < limit then Some (key (last docs)) else None)"
  by (rule db_engine.list_documents_exact [OF assms(1,2,4) _ assms(3,6)]) (use assms(5) in auto)


definition cannot_begin :: tx_env where
  "cannot_begin = \<lparr>tx_begin = Some (Fjall ''closed''), tx_outcome = CommitConflict\<rparr>"

lemma sample_set_fails: "\<exists>s' e. set_document mem_db_env cannot_begin commits sample_doc sample_db = (s', Inl e)"
proof -
  have get: "documents_get mem_db_env ''user'' ''a'' sample_db = Inr None"
    by (simp add: documents_get_def docs_keyspace_def)
  obtain s1 where s1: "claim_constraints mem_db_env ''user'' [email_index] None (Some sample_doc) sample_db = (s1, Inr ())"
    by (simp add: claim_constraints_def on_locks_def validate_and_update_def update_one_index_def sample_doc_def
        option_value_eq_def claim_lock_key_def Let_def)
  show ?thesis
    by (simp add: set_document_def get_or_create_existing get s1 or_undo_def begin_tx_def cannot_begin_def Let_def)
qed


definition linked_doc :: document where
  "linked_doc = \<lparr>doc_id = ''u:a'', doc_fields = [(''email'', VString ''x'')]\<rparr>"

definition linked_db :: "(mem_ks, unit) database" where
  "linked_db = \<lparr>disk = (disk sample_created)(
       docs_ks ''u'' := [(as_bytes ''a'', as_bytes ''u:a'' @ 0 # as_bytes ''email'' @ 0 # as_bytes ''x'')],
       exists_ks ''u'' := [(as_bytes ''a'', [])]),
     edge_schemas = edge_schemas sample_created, edge_keyspaces = edge_keyspaces sample_created,
     collections = [''u''], index_keyspaces = [], index_registry = [], schemas = [], known_collections = [''u''], external = ()\<rparr>"

lemma linked_bytes:
  "enc mem_docs linked_doc = Inr (as_bytes ''u:a'' @ 0 # as_bytes ''email'' @ 0 # as_bytes ''x'')" "key linked_doc = ''a''"
  by (simp_all add: linked_doc_def mem_docs_def key_def as_bytes_def)

lemma linked_consistent: "consistent mem_db_env map_of ''u'' [''a'' \<mapsto> linked_doc] linked_db"
proof -
  let ?D = "[''a'' \<mapsto> linked_doc]"
  have "docs_wf mem_db_env ''u'' ?D" using linked_bytes by (simp add: docs_wf_def del: as_bytes_Cons)
  moreover have "map_of (disk linked_db (docs_ks ''u'')) = docs_map mem_db_env ?D"
  proof (rule ext)
    fix k
    have "k = as_bytes ''a'' \<longleftrightarrow> of_bytes k = ''a''" by (metis as_bytes_of_bytes of_bytes_as_bytes)
    then show "map_of (disk linked_db (docs_ks ''u'')) k = docs_map mem_db_env ?D k"
      unfolding docs_map_def linked_db_def using linked_bytes(1) by simp
  qed
  moreover have "dom (map_of (disk linked_db (exists_ks ''u''))) = as_bytes ` dom ?D" by (simp add: linked_db_def)
  ultimately show ?thesis by (simp add: consistent_def get_indexes_def locks_held_def linked_db_def)
qed

theorem list_documents_pages_witness:
  "documents_list mem_db_env ''u'' None 10 linked_db = Inr ([linked_doc], None) \<and>
   [linked_doc] = take 10 (docs_after [''a'' \<mapsto> linked_doc] None)"
proof -
  have res: "documents_list mem_db_env ''u'' None 10 linked_db = Inr ([linked_doc], None)"
    using mem_docs_codec linked_bytes(1)
    by (simp add: codec_ok_def documents_list_def docs_keyspace_def linked_db_def range_keys_def mem_filter_def in_range_def
        usize_max_def)
  then show ?thesis
    using list_documents_pages [OF mem_db_engine linked_consistent _ _ _ res] by (simp add: usize_max_def range_keys_def)
qed

text \<open>Listings read the keyspace and the schema of their label only.\<close>

lemma list_out_cong:
  assumes "disk s (edge_ks label) = disk t (edge_ks label)" "edge_schemas s = edge_schemas t" "edge_keyspaces s = edge_keyspaces t"
  shows "list_out X v label after n s = list_out X v label after n t"
proof -
  have "get_keyspace label s = get_keyspace label t" "get_schema s label = get_schema t label"
    "range_keys E (edge_ks label) lo hi s = range_keys E (edge_ks label) lo hi t" for E lo hi
    using assms by (simp_all add: get_keyspace_def get_schema_def range_keys_def)
  then show ?thesis by (auto simp: list_out_def get_keyspace_def split: option.split)
qed

lemma list_in_loop_cong:
  "disk s ks = disk t ks \<Longrightarrow> list_in_loop X ks sch label v n s items after acc = list_in_loop X ks sch label v n t items after acc"
proof (induction items arbitrary: after acc)
  case (Cons item items)
  have "disk_get X ks k s = disk_get X ks k t" for k using Cons.prems by (simp add: disk_get_def)
  then show ?case using Cons by (cases item) (auto cong: prod.case_cong option.case_cong if_cong)
qed simp

lemma list_in_cong:
  assumes "disk s (edge_ks label) = disk t (edge_ks label)" "edge_schemas s = edge_schemas t" "edge_keyspaces s = edge_keyspaces t"
  shows "list_in X v label after n s = list_in X v label after n t"
proof -
  have "get_schema s label = get_schema t label"
    "range_keys E (edge_ks label) lo hi s = range_keys E (edge_ks label) lo hi t" for E lo hi
    using assms by (simp_all add: get_schema_def range_keys_def)
  then show ?thesis using list_in_loop_cong [OF assms(1), of X] list_out_cong [OF assms, of X] assms(3)
    by (auto simp: list_in_def get_keyspace_def Let_def split: option.split)
qed

lemma linked_deleted: "\<exists>s'. delete_document mem_db_env commits commits ''u'' ''a'' linked_db = (s', Inr True)"
proof -
  have parts: "edge_schemas linked_db = edge_schemas sample_created" "edge_keyspaces linked_db = edge_keyspaces sample_created"
    "disk linked_db (edge_ks ''knows'') = disk sample_created (edge_ks ''knows'')" "collections linked_db = [''u'']" "index_registry linked_db = []"
    by (simp_all add: linked_db_def)
  have get: "documents_get mem_db_env ''u'' ''a'' linked_db = Inr (Some linked_doc)"
    using mem_docs_codec linked_bytes(1) by (simp add: documents_get_def docs_keyspace_def linked_db_def codec_ok_def)
  have types: "list_edge_types linked_db = [''knows'']" and sch: "get_schema linked_db ''knows'' = Some (edge_schema_new ''knows'')"
    and ks: "get_keyspace ''knows'' linked_db = Inr (edge_ks ''knows'')"
    by (simp_all add: linked_db_def list_edge_types_def get_schema_def get_keyspace_def sample_created_def sample_store_def hm_keys_def)
  have check: "check_delete_allowed mem_edge_env ''u:a'' linked_db = Inr ()"
    by (simp add: check_delete_allowed_def types sch edge_schema_new_def)
  have idx: "get_indexes linked_db ''u'' = []" by (simp add: get_indexes_def parts)
  have locks: "on_locks ''u'' (remove_for_document int_libs (\<lambda>b. b) mem_fjall [] linked_doc) linked_db = (linked_db, Inr ())"
    by (simp add: on_locks_def remove_for_document_def)
  obtain etx n where etx: "delete_edges_for_node_in_tx mem_edge_env [] ''u:a'' linked_db = Inr (etx, n)"
    by (simp add: delete_edges_for_node_in_tx_def types sch ks list_out_cong [OF parts(3,1,2)] list_in_cong [OF parts(3,1,2)] sample_lists)
  have job: "write_external_index_job mem_db_env tx ''u'' ''a'' old new linked_db = Inr tx" for tx old new
    by (simp add: write_external_index_job_def has_external_indexes_def idx)
  have btree: "update_btree_in_tx mem_db_env tx ''u'' old new linked_db = (linked_db, Inr tx)" for tx old new
    by (simp add: update_btree_in_tx_def idx)
  let ?tx = "etx @ [(docs_ks ''u'', as_bytes ''a'', None), (exists_ks ''u'', as_bytes ''a'', None)]"
  obtain s' where "try_apply_and_complete_external_index_job mem_db_env commits ''u'' ''a'' (Some linked_doc) None
      (tx_apply mem_engine ?tx linked_db) = (s', Inr ())"
    using try_apply_succeeds [of mem_db_env commits "''u''" "''a''" "Some linked_doc" None "tx_apply mem_engine ?tx linked_db"] by auto
  moreover have "commit mem_db_env commits ?tx linked_db = (tx_apply mem_engine ?tx linked_db, Inr True)"
    by (simp add: commit_def tx_commit_def)
  ultimately show ?thesis
    by (simp add: delete_document_def parts(4) get idx check locks or_undo_def begin_tx_def etx btree [simplified] job [simplified] Let_def del: as_bytes_Cons)
qed

theorem delete_document_with_edges_witness:
  "\<exists>s'. delete_document mem_db_env commits commits ''u'' ''a'' linked_db = (s', Inr True) \<and>
     consistent mem_db_env map_of ''u'' Map.empty s' \<and>
     represents mem_edge_env (edge_schema_new ''knows'') {} (map_of (disk s' (edge_ks ''knows'')))"
proof -
  obtain s' where s': "delete_document mem_db_env commits commits ''u'' ''a'' linked_db = (s', Inr True)" using linked_deleted by blast
  let ?G = "{(''u:a'', ''u:b'', from_edge sample_edge)}"
  have G: "represents (edge_env.truncate mem_db_env) (edge_schema_new ''knows'') ?G (map_of (disk linked_db (edge_ks ''knows'')))"
    using sample_represents(2) by (simp add: linked_db_def)
  have "consistent mem_db_env map_of ''u'' ([''a'' \<mapsto> linked_doc](''a'' := None)) s' \<and>
    represents (edge_env.truncate mem_db_env) (edge_schema_new ''knows'') {(f, t, d) \<in> ?G. f \<noteq> ''u'' @ '':'' @ ''a'' \<and> t \<noteq> ''u'' @ '':'' @ ''a''}
      (map_of (disk s' (edge_ks ''knows'')))" (is "_ \<and> represents _ _ ?R _")
    by (rule delete_document_with_edges [OF mem_db_engine _ linked_consistent _ _ _ _ _ G _ _ _ s'])
      (simp_all only: append.simps sample_sets, simp_all add: mem_data_codec index_names_distinct_def get_indexes_def list_edge_types_def get_schema_def linked_db_def
        sample_created_def sample_store_def hm_keys_def edge_schema_new_def)
  moreover have "?R = {}" by auto
  ultimately show ?thesis using s' by (intro exI [of _ s'] conjI) (simp_all only: mem_db_env_simps fun_upd_upd, simp)
qed

end
