(* ===== verification/Index_Scans.thy ===== *)
theory Index_Scans
  imports Document_Properties
begin

text \<open>
  Lookup of documents through the indexes of a collection: the forwarding of scans in
  \<open>storage/indexes/manager.rs\<close> and the choice of the index in \<open>storage/database.rs\<close>. A scan returns
  document keys and whether the limit was exceeded.
\<close>

section \<open>Index manager\<close>

definition index_lookup_keyspace :: "('ks, 'x, 'z) database_scheme \<Rightarrow> string \<Rightarrow> string \<Rightarrow> StorageError + string" where
  "index_lookup_keyspace s coll n =
     (case get_index_keyspace s coll n of
        None \<Rightarrow> Inl (IndexLookupFailed (''index '' @ quoted n))
      | Some ks \<Rightarrow> Inr ks)"

definition manager_scan_eq ::
  "('ks, 'd, 'x) db_env \<Rightarrow> string \<Rightarrow> string \<Rightarrow> string \<Rightarrow> Value \<Rightarrow> nat \<Rightarrow> ('ks, 'x, 'z) database_scheme \<Rightarrow> StorageError + ScanResult" where
  "manager_scan_eq X coll n field v limit s =
     and_then (index_lookup_keyspace s coll n) (\<lambda>ks.
       scan_eq (ee_libs X) (eng_ks (ee_engine X)) (disk s ks) v limit)"

definition manager_scan_range ::
  "('ks, 'd, 'x) db_env \<Rightarrow> string \<Rightarrow> string \<Rightarrow> string \<Rightarrow> string \<Rightarrow> Value \<Rightarrow> nat \<Rightarrow> ('ks, 'x, 'z) database_scheme
     \<Rightarrow> StorageError + ScanResult" where
  "manager_scan_range X coll n field rop v limit s =
     and_then (index_lookup_keyspace s coll n) (\<lambda>ks.
       case range_op_from_str rop of
         None \<Rightarrow> Inl (IndexLookupFailed (''unknown range operator: '' @ rop))
       | Some range_op \<Rightarrow> scan_range (ee_libs X) (eng_ks (ee_engine X)) (disk s ks) range_op v limit)"

definition manager_scan_range_between ::
  "('ks, 'd, 'x) db_env \<Rightarrow> string \<Rightarrow> string \<Rightarrow> string \<Rightarrow> Value \<Rightarrow> bool \<Rightarrow> Value \<Rightarrow> bool \<Rightarrow> nat \<Rightarrow> ('ks, 'x, 'z) database_scheme
     \<Rightarrow> StorageError + ScanResult" where
  "manager_scan_range_between X coll n field lower lower_incl upper upper_incl limit s =
     and_then (index_lookup_keyspace s coll n) (\<lambda>ks.
       scan_range_between (ee_libs X) (eng_ks (ee_engine X)) (disk s ks) lower lower_incl upper upper_incl limit)"

definition manager_scan_compound_eq ::
  "('ks, 'd, 'x) db_env \<Rightarrow> string \<Rightarrow> string \<Rightarrow> (string \<times> Value) list \<Rightarrow> nat \<Rightarrow> ('ks, 'x, 'z) database_scheme
     \<Rightarrow> StorageError + ScanResult" where
  "manager_scan_compound_eq X coll n field_values limit s =
     and_then (index_lookup_keyspace s coll n) (\<lambda>ks.
       scan_compound_eq (ee_libs X) (eng_ks (ee_engine X)) (disk s ks) field_values limit)"

section \<open>Database\<close>

definition field_index :: "('ks, 'x, 'z) database_scheme \<Rightarrow> string \<Rightarrow> string \<Rightarrow> StorageError + IndexDef" where
  "field_index s coll field =
     (case find (\<lambda>i. idx_type i = BTree \<and> idx_fields i \<noteq> [] \<and> hd (idx_fields i) = field) (get_indexes s coll) of
        None \<Rightarrow> Inl (IndexLookupFailed (''field '' @ quoted field))
      | Some i \<Rightarrow> Inr i)"

definition scan_pair :: "ScanResult \<Rightarrow> string list \<times> bool" where
  "scan_pair r = (doc_ids r, exceeded_limit r)"

definition scan_index_eq ::
  "('ks, 'd, 'x) db_env \<Rightarrow> string \<Rightarrow> string \<Rightarrow> Value \<Rightarrow> nat \<Rightarrow> ('ks, 'x, 'z) database_scheme \<Rightarrow> StorageError + string list \<times> bool" where
  "scan_index_eq X coll field v limit s =
     and_then (field_index s coll field) (\<lambda>i.
     and_then (manager_scan_eq X coll (idx_name i) field v limit s) (\<lambda>r. Inr (scan_pair r)))"

definition scan_index_range ::
  "('ks, 'd, 'x) db_env \<Rightarrow> string \<Rightarrow> string \<Rightarrow> Value \<Rightarrow> string \<Rightarrow> nat \<Rightarrow> ('ks, 'x, 'z) database_scheme
     \<Rightarrow> StorageError + string list \<times> bool" where
  "scan_index_range X coll field v rop limit s =
     and_then (field_index s coll field) (\<lambda>i.
     and_then (manager_scan_range X coll (idx_name i) field rop v limit s) (\<lambda>r. Inr (scan_pair r)))"

definition scan_index_range_between ::
  "('ks, 'd, 'x) db_env \<Rightarrow> string \<Rightarrow> string \<Rightarrow> Value \<Rightarrow> bool \<Rightarrow> Value \<Rightarrow> bool \<Rightarrow> nat \<Rightarrow> ('ks, 'x, 'z) database_scheme
     \<Rightarrow> StorageError + string list \<times> bool" where
  "scan_index_range_between X coll field lower lower_incl upper upper_incl limit s =
     and_then (field_index s coll field) (\<lambda>i.
     and_then (manager_scan_range_between X coll (idx_name i) field lower lower_incl upper upper_incl limit s)
       (\<lambda>r. Inr (scan_pair r)))"

definition compound_index :: "('ks, 'x, 'z) database_scheme \<Rightarrow> string \<Rightarrow> string list \<Rightarrow> StorageError + IndexDef" where
  "compound_index s coll fs =
     (case find (\<lambda>i. idx_type i = BTree \<and> length fs \<le> length (idx_fields i) \<and> take (length fs) (idx_fields i) = fs) (get_indexes s coll) of
        None \<Rightarrow> Inl (IndexLookupFailed (''compound fields '' @ debug_strings fs))
      | Some i \<Rightarrow> Inr i)"

definition scan_compound_index_eq ::
  "('ks, 'd, 'x) db_env \<Rightarrow> string \<Rightarrow> (string \<times> Value) list \<Rightarrow> nat \<Rightarrow> ('ks, 'x, 'z) database_scheme
     \<Rightarrow> StorageError + string list \<times> bool" where
  "scan_compound_index_eq X coll field_values limit s =
     and_then (compound_index s coll (map fst field_values)) (\<lambda>i.
     and_then (manager_scan_compound_eq X coll (idx_name i) field_values limit s) (\<lambda>r. Inr (scan_pair r)))"

definition scan_compound_index_eq_docs ::
  "('ks, 'd, 'x) db_env \<Rightarrow> string \<Rightarrow> (string \<times> Value) list \<Rightarrow> nat \<Rightarrow> ('ks, 'x, 'z) database_scheme
     \<Rightarrow> StorageError + document list \<times> bool" where
  "scan_compound_index_eq_docs X coll field_values limit s =
     and_then (compound_index s coll (map fst field_values)) (\<lambda>i.
     and_then (manager_scan_compound_eq X coll (idx_name i) field_values limit s) (\<lambda>r.
     and_then (get_by_ids X coll (doc_ids r) s) (\<lambda>docs. Inr (docs, exceeded_limit r))))"

section \<open>Lookups find the documents of the collection\<close>

text \<open>The values of a field that occur in a collection, with the keys of their documents.\<close>

definition field_entries :: "documents \<Rightarrow> string \<Rightarrow> (Value \<times> string) set" where
  "field_entries D field = {(w, k). \<exists>d. D k = Some d \<and> index_field_value d field = Some w}"

lemma reflects_index_of:
  assumes "reflects L [field] (ran D) m" "docs_wf X coll D" "\<forall>(w, k)\<in>field_entries D field. encodable L w"
  shows "index_of L (field_entries D field) m"
proof -
  have "dom m = {b. \<exists>d\<in>ran D. build_index_key L d [field] = Some b}" using assms(1) by (simp add: reflects_def)
  also have "\<dots> = (\<lambda>(w, k). encode_index_key L [w] k) ` field_entries D field"
  proof (intro set_eqI iffI)
    fix b assume "b \<in> {b. \<exists>d\<in>ran D. build_index_key L d [field] = Some b}"
    then obtain k d where kd: "D k = Some d" "build_index_key L d [field] = Some b" by (auto simp: ran_def)
    then obtain w where w: "index_field_value d field = Some w" "b = encode_index_key L [w] (key d)"
      by (auto simp: build_index_key_def split: option.splits)
    moreover have "key d = k" using assms(2) kd(1) by (simp add: docs_wf_def)
    ultimately show "b \<in> (\<lambda>(w, k). encode_index_key L [w] k) ` field_entries D field"
      using kd(1) by (intro image_eqI [of _ _ "(w, k)"]) (auto simp: field_entries_def)
  next
    fix b assume "b \<in> (\<lambda>(w, k). encode_index_key L [w] k) ` field_entries D field"
    then obtain w k d where w: "b = encode_index_key L [w] k" "D k = Some d" "index_field_value d field = Some w"
      by (auto simp: field_entries_def)
    moreover have "key d = k" using assms(2) w(2) by (simp add: docs_wf_def)
    ultimately have "build_index_key L d [field] = Some b" by (simp add: build_index_key_def)
    then show "b \<in> {b. \<exists>d\<in>ran D. build_index_key L d [field] = Some b}" using w(2) by (auto simp: ran_def)
  qed
  finally have "dom m = (\<lambda>(w, k). encode_index_key L [w] k) ` field_entries D field" .
  moreover have "utf8_valid (as_bytes k)" if "(w, k) \<in> field_entries D field" for w k
    using assms(2) that by (auto simp: field_entries_def docs_wf_def)
  ultimately show ?thesis using assms(3) unfolding index_of_def by fast
qed

lemma field_index_single:
  assumes "field_index s coll field = Inr i"
  shows "i \<in> set (get_indexes s coll)" "idx_type i = BTree" "hd (idx_fields i) = field"
  using assms by (auto simp: field_index_def find_Some_iff split: option.splits)

lemma index_lookup_keyspace_ok: "index_lookup_keyspace s coll n = Inr ks \<Longrightarrow> ks = idx_ks coll n"
  by (auto simp: index_lookup_keyspace_def get_index_keyspace_def split: if_splits)

context db_engine
begin

lemma single_index_of:
  assumes con: "consistent X content coll D s" and i: "field_index s coll field = Inr i" "length (idx_fields i) = 1"
    and enc: "\<forall>(w, k)\<in>field_entries D field. encodable (ee_libs X) w"
  shows "index_of (ee_libs X) (field_entries D field) (content (disk s (idx_ks coll (idx_name i))))"
proof -
  have "idx_fields i = [field]" using i(2) field_index_single(3) [OF i(1)] by (cases "idx_fields i") auto
  then have "reflects (ee_libs X) [field] (ran D) (content (disk s (idx_ks coll (idx_name i))))"
    using con field_index_single(1,2) [OF i(1)] unfolding consistent_def by (metis (no_types, lifting))
  then show ?thesis by (rule reflects_index_of [OF _ consistentD(1) [OF con] enc])
qed

lemma scan_index_eq_ok:
  assumes con: "consistent X content coll D s" and i: "field_index s coll field = Inr i" "length (idx_fields i) = 1"
    and enc: "\<forall>(w, k)\<in>field_entries D field. encodable (ee_libs X) w" "encodable (ee_libs X) v"
    and res: "scan_index_eq X coll field v limit s = Inr (ids, ex)"
  shows "scan_exact \<lparr>doc_ids = ids, exceeded_limit = ex\<rparr> limit
    {k. \<exists>w. (w, k) \<in> field_entries D field \<and> encode_value_ordered (ee_libs X) w = encode_value_ordered (ee_libs X) v}"
proof -
  obtain r where r: "scan_eq (ee_libs X) (eng_ks (ee_engine X)) (disk s (idx_ks coll (idx_name i))) v limit = Inr r" "scan_pair r = (ids, ex)"
    using res i(1) by (auto simp: scan_index_eq_def manager_scan_eq_def and_then_Inr_iff dest: index_lookup_keyspace_ok)
  have "scan_exact r limit {k. \<exists>w. (w, k) \<in> field_entries D field \<and> encode_value_ordered (ee_libs X) w = encode_value_ordered (ee_libs X) v}"
    by (rule scan_eq_exact [OF single_index_of [OF con i enc(1)] enc(2) r(1)])
  then show ?thesis using r(2) by (auto simp: scan_pair_def scan_exact_def split: if_splits)
qed

lemma scan_index_range_ok:
  assumes con: "consistent X content coll D s" and i: "field_index s coll field = Inr i" "length (idx_fields i) = 1"
    and enc: "\<forall>(w, k)\<in>field_entries D field. encodable (ee_libs X) w" and rop: "range_op_from_str rop = Some range_op" "scannable (ee_libs X) range_op v"
    and res: "scan_index_range X coll field v rop limit s = Inr (ids, ex)"
  shows "scan_exact \<lparr>doc_ids = ids, exceeded_limit = ex\<rparr> limit {k. \<exists>w. (w, k) \<in> field_entries D field \<and> op_selects (ee_libs X) range_op v w}"
proof -
  obtain r where r: "scan_range (ee_libs X) (eng_ks (ee_engine X)) (disk s (idx_ks coll (idx_name i))) range_op v limit = Inr r" "scan_pair r = (ids, ex)"
    using res i(1) rop(1) by (auto simp: scan_index_range_def manager_scan_range_def and_then_Inr_iff dest: index_lookup_keyspace_ok)
  have "scan_exact r limit {k. \<exists>w. (w, k) \<in> field_entries D field \<and> op_selects (ee_libs X) range_op v w}"
    by (rule scan_range_exact [OF single_index_of [OF con i enc] rop(2) r(1)])
  then show ?thesis using r(2) by (auto simp: scan_pair_def scan_exact_def split: if_splits)
qed

lemma get_by_ids_ok:
  assumes "consistent X content coll D s" "get_by_ids X coll ids s = Inr docs"
  shows "docs = List.map_filter D ids"
  using assms(2)
proof (induction ids arbitrary: docs)
  case (Cons i ids)
  obtain r ds where r: "documents_get X coll i s = Inr r" "get_by_ids X coll ids s = Inr ds"
    "docs = (case r of Some d \<Rightarrow> d # ds | None \<Rightarrow> ds)"
    using Cons.prems by (auto simp: and_then_Inr_iff)
  then show ?case using Cons.IH [OF r(2)] documents_get_ok [OF assms(1) r(1)]
    by (auto simp: List.map_filter_simps split: option.splits)
qed (simp add: List.map_filter_simps)

end

section \<open>Properties\<close>

text \<open>An equality lookup through the index of a field finds exactly the documents of the
  collection whose value has the key of the one searched for (only \<open>limit + 1\<close> of them when it
  reports that the limit was exceeded), and fetching the keys it returns gives these documents.\<close>

theorem indexed_lookup_exact:
  assumes "db_engine X content" "consistent X content coll D s" "field_index s coll field = Inr i" "length (idx_fields i) = 1"
    and "\<forall>(w, k)\<in>field_entries D field. encodable (ee_libs X) w" "encodable (ee_libs X) v"
    and "scan_index_eq X coll field v limit s = Inr (ids, ex)" "get_by_ids X coll ids s = Inr docs"
  shows "scan_exact \<lparr>doc_ids = ids, exceeded_limit = ex\<rparr> limit
      {k. \<exists>w. (w, k) \<in> field_entries D field \<and> encode_value_ordered (ee_libs X) w = encode_value_ordered (ee_libs X) v} \<and>
    docs = map (\<lambda>k. the (D k)) ids"
proof -
  have ex: "scan_exact \<lparr>doc_ids = ids, exceeded_limit = ex\<rparr> limit
      {k. \<exists>w. (w, k) \<in> field_entries D field \<and> encode_value_ordered (ee_libs X) w = encode_value_ordered (ee_libs X) v}"
    by (rule db_engine.scan_index_eq_ok [OF assms(1-7)])
  then have "set ids \<subseteq> dom D" by (auto simp: scan_exact_def field_entries_def)
  moreover have "docs = List.map_filter D ids" by (rule db_engine.get_by_ids_ok [OF assms(1,2,8)])
  moreover have "set ks \<subseteq> dom D \<Longrightarrow> List.map_filter D ks = map (\<lambda>k. the (D k)) ks" for ks
    by (induction ks) (auto simp: List.map_filter_simps)
  ultimately show ?thesis using ex by blast
qed


text \<open>Witnesses: a collection with one document and an index on its email.\<close>

definition indexed_db :: "(mem_ks, unit) database" where
  "indexed_db = linked_db\<lparr>index_registry := [(''u'', [email_index])], index_keyspaces := [(''u'', ''email'')],
     disk := (disk linked_db)(idx_ks ''u'' ''email'' := [(encode_index_key int_libs [VString ''x''] ''a'', [])],
       ulock_ks ''u'' := [(lock_of int_libs (\<lambda>b. b) email_index (VString ''x''), as_bytes ''a'')])\<rparr>"

lemma indexed_parts [simp]:
  "get_indexes indexed_db ''u'' = [email_index]" "collections indexed_db = [''u'']" "idx_type email_index = BTree" "idx_name email_index = ''email''"
  "field_index indexed_db ''u'' ''email'' = Inr email_index" "index_lookup_keyspace indexed_db ''u'' ''email'' = Inr (idx_ks ''u'' ''email'')"
  by (simp_all add: indexed_db_def linked_db_def get_indexes_def email_index_def field_index_def index_lookup_keyspace_def get_index_keyspace_def)

lemma linked_field: "index_field_value linked_doc ''email'' = Some (VString ''x'')"
  by (simp add: index_field_value_def linked_doc_def)

lemma indexed_consistent: "consistent mem_db_env map_of ''u'' [''a'' \<mapsto> linked_doc] indexed_db"
proof -
  have "reflects int_libs [''email''] {linked_doc} (map_of [(encode_index_key int_libs [VString ''x''] ''a'', [])])"
    using linked_field linked_bytes(2) by (auto simp: reflects_def build_index_key_def split: if_splits)
  moreover have "disk indexed_db (idx_ks ''u'' ''email'') = [(encode_index_key int_libs [VString ''x''] ''a'', [])]"
    "disk indexed_db (docs_ks ''u'') = disk linked_db (docs_ks ''u'')" "disk indexed_db (exists_ks ''u'') = disk linked_db (exists_ks ''u'')"
    "disk indexed_db (ulock_ks ''u'') = [(lock_of int_libs (\<lambda>b. b) email_index (VString ''x''), as_bytes ''a'')]"
    by (simp_all add: indexed_db_def)
  moreover have "idx_value email_index linked_doc = Some (VString ''x'')"
    by (simp add: linked_doc_def get_field_value_for_index_def unique_resolve_field_value_def)
  ultimately show ?thesis
    using linked_consistent linked_bytes(2) unfolding consistent_def by (simp add: locks_held_def del: as_bytes_Cons)
qed

lemma indexed_entries: "field_entries [''a'' \<mapsto> linked_doc] ''email'' = {(VString ''x'', ''a'')}"
  using linked_field by (auto simp: field_entries_def split: if_splits)

theorem indexed_lookup_exact_witness:
  "\<exists>ids ex docs. scan_index_eq mem_db_env ''u'' ''email'' (VString ''x'') 10 indexed_db = Inr (ids, ex) \<and>
     get_by_ids mem_db_env ''u'' ids indexed_db = Inr docs \<and> docs = map (\<lambda>k. the ([''a'' \<mapsto> linked_doc] k)) ids"
proof -
  obtain r where "scan_eq int_libs mem_fjall (disk indexed_db (idx_ks ''u'' ''email'')) (VString ''x'') 10 = Inr r"
    using mem_scans_total(1) by blast
  then have scan: "scan_index_eq mem_db_env ''u'' ''email'' (VString ''x'') 10 indexed_db = Inr (doc_ids r, exceeded_limit r)"
    by (simp add: scan_index_eq_def manager_scan_eq_def scan_pair_def)
  have get: "\<exists>r. documents_get mem_db_env ''u'' k indexed_db = Inr r" for k
    by (simp add: documents_get_def docs_keyspace_def mem_docs_def Let_def split: option.split)
  have "\<exists>docs. get_by_ids mem_db_env ''u'' ids indexed_db = Inr docs" for ids
  proof (induction ids)
    case (Cons k ids)
    then show ?case using get [of k] by (auto simp: and_then_Inr_iff)
  qed simp
  then obtain docs where docs: "get_by_ids mem_db_env ''u'' (doc_ids r) indexed_db = Inr docs" by blast
  show ?thesis
    using indexed_lookup_exact [OF mem_db_engine indexed_consistent _ _ _ _ scan docs, of email_index] scan docs
    by (auto simp: indexed_entries)
qed


end
