(* ===== verification/Scan_Operators.thy ===== *)
theory Scan_Operators
  imports Access_Paths Index_Scans
begin

text \<open>
  The operators that read from storage, \<open>query/execute/operators/scan.rs\<close>: the paged table scan, the
  key lookup and the index scan, and the context they read from as \<open>storage/context_impl.rs\<close>
  implements it for a database.

  The trait \<open>ExecutionContext\<close> is the record \<open>source\<close> of the functions the operators call;
  \<open>database_source\<close> fills it for the storage layer in a given state. A table scan over a database
  returns the documents of the collection (its pages are the pages of the document store), and an
  index scan the documents its index finds.
\<close>

section \<open>Sources (context.rs, context\_impl.rs)\<close>

record source =
  src_get_document :: "string \<Rightarrow> string \<Rightarrow> StorageError + document option"
  src_list_documents_paged :: "string \<Rightarrow> string option \<Rightarrow> nat \<Rightarrow> StorageError + document list \<times> string option"
  src_get_documents_by_ids :: "string \<Rightarrow> string list \<Rightarrow> StorageError + document list"
  src_scan_index_eq :: "string \<Rightarrow> string \<Rightarrow> Value \<Rightarrow> nat \<Rightarrow> StorageError + string list \<times> bool"
  src_scan_index_in :: "string \<Rightarrow> string \<Rightarrow> Value list \<Rightarrow> nat \<Rightarrow> StorageError + string list \<times> bool"
  src_scan_index_range :: "string \<Rightarrow> string \<Rightarrow> Value \<Rightarrow> string \<Rightarrow> nat \<Rightarrow> StorageError + string list \<times> bool"
  src_scan_index_range_between ::
    "string \<Rightarrow> string \<Rightarrow> Value \<Rightarrow> bool \<Rightarrow> Value \<Rightarrow> bool \<Rightarrow> nat \<Rightarrow> StorageError + string list \<times> bool"
  src_scan_compound_index_eq_docs :: "string \<Rightarrow> (string \<times> Value) list \<Rightarrow> nat \<Rightarrow> StorageError + document list \<times> bool"

text \<open>The loop of \<open>scan_index_in\<close> over the values.\<close>

fun in_ids_loop ::
  "(Value \<Rightarrow> StorageError + string list \<times> bool) \<Rightarrow> nat \<Rightarrow> Value list \<Rightarrow> string list \<Rightarrow> bool \<Rightarrow> StorageError + string list \<times> bool" where
  "in_ids_loop scan limit [] ids ex = Inr (ids, ex)"
| "in_ids_loop scan limit (v # vs) ids ex =
     and_then (scan v) (\<lambda>(new_ids, exc).
       let ids = ids @ new_ids; ex = (ex \<or> exc)
       in if limit \<le> length ids then Inr (ids, True) else in_ids_loop scan limit vs ids ex)"

definition db_scan_index_in ::
  "('ks, 'd, 'x) db_env \<Rightarrow> string \<Rightarrow> string \<Rightarrow> Value list \<Rightarrow> nat \<Rightarrow> ('ks, 'x, 'z) database_scheme \<Rightarrow> StorageError + string list \<times> bool" where
  "db_scan_index_in X coll field vals limit s =
     and_then (in_ids_loop (\<lambda>v. scan_index_eq X coll field v limit s) limit vals [] False)
       (\<lambda>(ids, ex). Inr (remdups_adj (sort ids), ex))"

definition database_source :: "('ks, 'd, 'x) db_env \<Rightarrow> ('ks, 'x, 'z) database_scheme \<Rightarrow> source" where
  "database_source X s =
     \<lparr>src_get_document = (\<lambda>coll k. documents_get X coll k s),
      src_list_documents_paged = (\<lambda>coll after limit. documents_list X coll after limit s),
      src_get_documents_by_ids = (\<lambda>coll ids. get_by_ids X coll ids s),
      src_scan_index_eq = (\<lambda>coll field v limit. scan_index_eq X coll field v limit s),
      src_scan_index_in = (\<lambda>coll field vals limit. db_scan_index_in X coll field vals limit s),
      src_scan_index_range = (\<lambda>coll field v rop limit. scan_index_range X coll field v rop limit s),
      src_scan_index_range_between = (\<lambda>coll field lower li upper ui limit.
        scan_index_range_between X coll field lower li upper ui limit s),
      src_scan_compound_index_eq_docs = (\<lambda>coll fvs limit. scan_compound_index_eq_docs X coll fvs limit s)\<rparr>"

section \<open>Table scan\<close>

definition SCAN_CHUNK_SIZE :: nat where
  "SCAN_CHUNK_SIZE = 1000"

record table_state =
  ts_chunk :: "document list"
  ts_chunk_pos :: nat
  ts_cursor :: "string option"
  ts_exhausted :: bool
  ts_total_yielded :: nat
  ts_opened :: bool

definition table_scan_new :: table_state where
  "table_scan_new = \<lparr>ts_chunk = [], ts_chunk_pos = 0, ts_cursor = None, ts_exhausted = False,
     ts_total_yielded = 0, ts_opened = False\<rparr>"

definition fetch_chunk :: "source \<Rightarrow> string \<Rightarrow> nat option \<Rightarrow> table_state \<Rightarrow> table_state \<times> unit eval_result" where
  "fetch_chunk src coll limit st =
     (let remaining = (case limit of Some l \<Rightarrow> l - ts_total_yielded st | None \<Rightarrow> SCAN_CHUNK_SIZE);
          fetch_size = min remaining SCAN_CHUNK_SIZE
      in if fetch_size = 0 then (st\<lparr>ts_exhausted := True\<rparr>, Inr ())
         else case src_list_documents_paged src coll (ts_cursor st) fetch_size of
                Inl e \<Rightarrow> (st, Inl (EStorage e))
              | Inr (docs, next_cursor) \<Rightarrow>
                  (st\<lparr>ts_exhausted := (next_cursor = None), ts_cursor := next_cursor, ts_chunk := docs, ts_chunk_pos := 0\<rparr>, Inr ()))"

definition emit_doc :: "table_state \<Rightarrow> (table_state, Row option) call" where
  "emit_doc st =
     Some (st\<lparr>ts_chunk_pos := ts_chunk_pos st + 1, ts_total_yielded := ts_total_yielded st + 1\<rparr>,
           Inr (Some (from_doc (ts_chunk st ! ts_chunk_pos st))))"

definition table_scan_op :: "source \<Rightarrow> string \<Rightarrow> nat option \<Rightarrow> table_state opr" where
  "table_scan_op src coll limit =
     \<lparr>op_open = (\<lambda>st.
        Some (fetch_chunk src coll limit
          (st\<lparr>ts_chunk := [], ts_chunk_pos := 0, ts_cursor := None, ts_exhausted := False, ts_total_yielded := 0, ts_opened := True\<rparr>))),
      op_next = (\<lambda>st.
        if \<not> ts_opened st then Some (st, Inl (EOperatorNotInitialized ''TableScanOp''))
        else if (case limit of Some l \<Rightarrow> l \<le> ts_total_yielded st | None \<Rightarrow> False) then Some (st, Inr None)
        else if length (ts_chunk st) \<le> ts_chunk_pos st
        then if ts_exhausted st then Some (st, Inr None)
             else case fetch_chunk src coll limit st of
                    (st', Inl e) \<Rightarrow> Some (st', Inl e)
                  | (st', Inr _) \<Rightarrow> if ts_chunk st' = [] then Some (st', Inr None) else emit_doc st'
        else emit_doc st),
      op_close = (\<lambda>st.
        (st\<lparr>ts_chunk := [], ts_chunk_pos := 0, ts_cursor := None, ts_exhausted := False, ts_total_yielded := 0, ts_opened := False\<rparr>,
         Inr ()))\<rparr>"

section \<open>Key lookup\<close>

record lookup_state =
  kl_doc :: "document option option"
  kl_returned :: bool

definition key_lookup_new :: lookup_state where
  "key_lookup_new = \<lparr>kl_doc = None, kl_returned = False\<rparr>"

definition key_lookup_op :: "source \<Rightarrow> string \<Rightarrow> string \<Rightarrow> lookup_state opr" where
  "key_lookup_op src coll k =
     \<lparr>op_open = (\<lambda>st.
        case src_get_document src coll k of
          Inl e \<Rightarrow> Some (st, Inl (EStorage e))
        | Inr doc \<Rightarrow> Some (st\<lparr>kl_doc := Some doc, kl_returned := False\<rparr>, Inr ())),
      op_next = (\<lambda>st.
        if kl_returned st then Some (st, Inr None)
        else let st' = st\<lparr>kl_returned := True\<rparr>
             in case kl_doc st' of
                  None \<Rightarrow> Some (st', Inl (EOperatorNotInitialized ''KeyLookupOp''))
                | Some doc \<Rightarrow> Some (st', Inr (map_option from_doc doc))),
      op_close = (\<lambda>st. (st\<lparr>kl_doc := None\<rparr>, Inr ()))\<rparr>"

section \<open>Index scan\<close>

definition INDEX_RESULT_THRESHOLD :: nat where
  "INDEX_RESULT_THRESHOLD = 1000"

record index_state =
  is_docs :: "document list"
  is_position :: nat
  is_exceeded_threshold :: bool

definition index_scan_new :: index_state where
  "index_scan_new = \<lparr>is_docs = [], is_position = 0, is_exceeded_threshold = False\<rparr>"

text \<open>The documents of a lookup, and whether the threshold was exceeded.\<close>

definition storage_result :: "StorageError + 'a \<Rightarrow> 'a eval_result" where
  "storage_result r = (case r of Inl e \<Rightarrow> Inl (EStorage e) | Inr x \<Rightarrow> Inr x)"

definition lookup_ids :: "source \<Rightarrow> string \<Rightarrow> nat \<Rightarrow> IndexLookup \<Rightarrow> (string list \<times> bool) eval_result" where
  "lookup_ids src coll threshold lookup =
     (case lookup of
        LEq field v \<Rightarrow> storage_result (src_scan_index_eq src coll field v threshold)
      | LRange field rop v \<Rightarrow> storage_result (src_scan_index_range src coll field v (plan_range_as_str rop) threshold)
      | LRangeBetween field lower li upper ui \<Rightarrow>
          storage_result (src_scan_index_range_between src coll field lower li upper ui threshold)
      | LIn field vals \<Rightarrow> storage_result (src_scan_index_in src coll field vals threshold)
      | LCompoundEq _ \<Rightarrow> Inl (EPanic ''unreachable''))"

definition lookup_docs :: "source \<Rightarrow> string \<Rightarrow> nat \<Rightarrow> IndexLookup \<Rightarrow> (document list \<times> bool) eval_result" where
  "lookup_docs src coll threshold lookup =
     (case lookup of
        LCompoundEq fvs \<Rightarrow> storage_result (src_scan_compound_index_eq_docs src coll fvs threshold)
      | _ \<Rightarrow>
          and_then (lookup_ids src coll threshold lookup) (\<lambda>(ids, ex).
          and_then (storage_result (src_get_documents_by_ids src coll ids)) (\<lambda>docs. Inr (docs, ex))))"

definition index_scan_op :: "source \<Rightarrow> string \<Rightarrow> nat \<Rightarrow> IndexLookup \<Rightarrow> index_state opr" where
  "index_scan_op src coll threshold lookup =
     \<lparr>op_open = (\<lambda>st.
        case lookup_docs src coll threshold lookup of
          Inl e \<Rightarrow> Some (st, Inl e)
        | Inr (docs, ex) \<Rightarrow> Some (st\<lparr>is_docs := docs, is_exceeded_threshold := ex, is_position := 0\<rparr>, Inr ())),
      op_next = (\<lambda>st.
        if length (is_docs st) \<le> is_position st then Some (st, Inr None)
        else Some (st\<lparr>is_position := is_position st + 1\<rparr>, Inr (Some (from_doc (is_docs st ! is_position st))))),
      op_close = (\<lambda>st. (st\<lparr>is_docs := [], is_position := 0\<rparr>, Inr ()))\<rparr>"

section \<open>What the operators return\<close>

subsection \<open>Index scan and key lookup\<close>

lemma index_scan_produces:
  "n = length (is_docs st) - is_position st \<Longrightarrow>
   produces (index_scan_op src coll threshold lookup) st (map from_doc (drop (is_position st) (is_docs st))) None"
proof (induction n arbitrary: st)
  case 0
  then show ?case by (auto simp: index_scan_op_def intro!: at_end)
next
  case (Suc n)
  then have l: "is_position st < length (is_docs st)" by simp
  have "produces (index_scan_op src coll threshold lookup) (st\<lparr>is_position := is_position st + 1\<rparr>)
      (map from_doc (drop (Suc (is_position st)) (is_docs st))) None"
    using Suc.IH [of "st\<lparr>is_position := is_position st + 1\<rparr>"] Suc.prems by simp
  then show ?case using l
    by (simp add: Cons_nth_drop_Suc [symmetric]) (auto simp: index_scan_op_def intro!: at_row)
qed

definition index_scan_out :: "source \<Rightarrow> string \<Rightarrow> nat \<Rightarrow> IndexLookup \<Rightarrow> (Row list \<times> ExecuteError option) eval_result" where
  "index_scan_out src coll threshold lookup =
     and_then (lookup_docs src coll threshold lookup) (\<lambda>(docs, _). Inr (map from_doc docs, None))"

interpretation index_scan: operator "index_scan_op src coll threshold lookup" "\<lambda>_. True"
  "\<lambda>_. index_scan_out src coll threshold lookup" for src coll threshold lookup
proof
  fix s :: index_state and e assume "index_scan_out src coll threshold lookup = Inl e"
  then show "\<exists>s'. op_open (index_scan_op src coll threshold lookup) s = Some (s', Inl e)"
    by (auto simp: index_scan_op_def index_scan_out_def split: sum.splits prod.splits)
next
  fix s :: index_state and rows fin assume "index_scan_out src coll threshold lookup = Inr (rows, fin)"
  then obtain docs ex where d: "lookup_docs src coll threshold lookup = Inr (docs, ex)" "rows = map from_doc docs" "fin = None"
    by (auto simp: index_scan_out_def and_then_Inr_iff)
  let ?s = "s\<lparr>is_docs := docs, is_exceeded_threshold := ex, is_position := 0\<rparr>"
  have "op_open (index_scan_op src coll threshold lookup) s = Some (?s, Inr ())" using d(1) by (simp add: index_scan_op_def)
  moreover have "produces (index_scan_op src coll threshold lookup) ?s rows fin"
    using index_scan_produces [where st = ?s, OF refl] d(2,3) by simp
  ultimately show "\<exists>s'. op_open (index_scan_op src coll threshold lookup) s = Some (s', Inr ()) \<and>
      produces (index_scan_op src coll threshold lookup) s' rows fin" by blast
qed (simp add: index_scan_op_def)

definition key_lookup_out :: "source \<Rightarrow> string \<Rightarrow> string \<Rightarrow> (Row list \<times> ExecuteError option) eval_result" where
  "key_lookup_out src coll k =
     and_then (storage_result (src_get_document src coll k))
       (\<lambda>doc. Inr (case doc of Some d \<Rightarrow> [from_doc d] | None \<Rightarrow> [], None))"

lemma key_lookup_produces:
  "produces (key_lookup_op src coll k) \<lparr>kl_doc = Some doc, kl_returned = False\<rparr> (case doc of Some d \<Rightarrow> [from_doc d] | None \<Rightarrow> []) None"
proof (cases doc)
  case None
  then show ?thesis by (auto simp: key_lookup_op_def intro!: at_end)
next
  case (Some d)
  have "produces (key_lookup_op src coll k) \<lparr>kl_doc = Some doc, kl_returned = True\<rparr> [] None"
    by (rule at_end) (simp add: key_lookup_op_def)
  then show ?thesis using Some by (auto simp: key_lookup_op_def intro!: at_row)
qed

interpretation key_lookup: operator "key_lookup_op src coll k" "\<lambda>_. True" "\<lambda>_. key_lookup_out src coll k" for src coll k
proof
  fix s :: lookup_state and e assume "key_lookup_out src coll k = Inl e"
  then show "\<exists>s'. op_open (key_lookup_op src coll k) s = Some (s', Inl e)"
    by (auto simp: key_lookup_op_def key_lookup_out_def storage_result_def split: sum.splits)
next
  fix s :: lookup_state and rows fin assume "key_lookup_out src coll k = Inr (rows, fin)"
  then obtain doc where "src_get_document src coll k = Inr doc" "rows = (case doc of Some d \<Rightarrow> [from_doc d] | None \<Rightarrow> [])" "fin = None"
    by (auto simp: key_lookup_out_def storage_result_def and_then_Inr_iff split: sum.splits)
  then show "\<exists>s'. op_open (key_lookup_op src coll k) s = Some (s', Inr ()) \<and> produces (key_lookup_op src coll k) s' rows fin"
    using key_lookup_produces [of src coll k doc] by (cases s) (auto simp: key_lookup_op_def)
qed (simp add: key_lookup_op_def)

subsection \<open>Table scan\<close>

text \<open>A source whose pages, from the cursors it hands out, are the documents in order.\<close>

definition paged_ok :: "(string option \<Rightarrow> nat \<Rightarrow> StorageError + document list \<times> string option) \<Rightarrow>
    (string option \<Rightarrow> document list) \<Rightarrow> (string option \<Rightarrow> bool) \<Rightarrow> bool" where
  "paged_ok paged after valid \<longleftrightarrow>
     (\<forall>c n. valid c \<and> 0 < n \<and> n \<le> SCAN_CHUNK_SIZE \<longrightarrow>
       (\<exists>nxt. paged c n = Inr (take n (after c), nxt) \<and> (nxt = None \<longleftrightarrow> length (after c) \<le> n) \<and>
          (\<forall>k. nxt = Some k \<longrightarrow> valid nxt \<and> after nxt = drop n (after c))))"

lemma paged_okD:
  assumes "paged_ok paged after valid" "valid c" "0 < n" "n \<le> SCAN_CHUNK_SIZE"
  obtains nxt where "paged c n = Inr (take n (after c), nxt)" "nxt = None \<longleftrightarrow> length (after c) \<le> n"
    "nxt \<noteq> None \<Longrightarrow> valid nxt \<and> after nxt = drop n (after c)"
proof -
  obtain nxt where *: "paged c n = Inr (take n (after c), nxt)" "nxt = None \<longleftrightarrow> length (after c) \<le> n"
    "\<forall>k. nxt = Some k \<longrightarrow> valid nxt \<and> after nxt = drop n (after c)"
    using assms unfolding paged_ok_def by blast
  show ?thesis by (rule that [OF *(1,2)]) (use *(3) in blast)
qed

definition take_opt :: "nat option \<Rightarrow> 'a list \<Rightarrow> 'a list" where
  "take_opt limit xs = (case limit of Some n \<Rightarrow> take n xs | None \<Rightarrow> xs)"

text \<open>The documents a table scan in some state has still to return, and how many of them it may.\<close>

definition pending_docs :: "(string option \<Rightarrow> document list) \<Rightarrow> table_state \<Rightarrow> document list" where
  "pending_docs after st = drop (ts_chunk_pos st) (ts_chunk st) @ (if ts_exhausted st then [] else after (ts_cursor st))"

definition quota :: "nat option \<Rightarrow> table_state \<Rightarrow> nat option" where
  "quota limit st = map_option (\<lambda>l. l - ts_total_yielded st) limit"

lemma fetch_chunk_ok:
  assumes ok: "paged_ok (src_list_documents_paged src coll) after valid" and v: "valid (ts_cursor st)"
    and q: "quota limit st \<noteq> Some 0"
  obtains st' n where "fetch_chunk src coll limit st = (st', Inr ())" "0 < n" "ts_chunk st' = take n (after (ts_cursor st))" "ts_chunk_pos st' = 0"
    "pending_docs after st' = after (ts_cursor st)" "\<not> ts_exhausted st' \<longrightarrow> valid (ts_cursor st')"
    "ts_total_yielded st' = ts_total_yielded st" "ts_opened st' = ts_opened st"
proof -
  define n where "n = min (case limit of Some l \<Rightarrow> l - ts_total_yielded st | None \<Rightarrow> SCAN_CHUNK_SIZE) SCAN_CHUNK_SIZE"
  have n: "0 < n" "n \<le> SCAN_CHUNK_SIZE" using q by (auto simp: n_def quota_def SCAN_CHUNK_SIZE_def split: option.splits)
  obtain nxt where nxt: "src_list_documents_paged src coll (ts_cursor st) n = Inr (take n (after (ts_cursor st)), nxt)"
    "nxt = None \<longleftrightarrow> length (after (ts_cursor st)) \<le> n" "nxt \<noteq> None \<Longrightarrow> valid nxt \<and> after nxt = drop n (after (ts_cursor st))"
    using paged_okD [OF ok v n] by metis
  define st' where "st' = st\<lparr>ts_exhausted := (nxt = None), ts_cursor := nxt, ts_chunk := take n (after (ts_cursor st)), ts_chunk_pos := 0\<rparr>"
  have "fetch_chunk src coll limit st = (st', Inr ())"
    using n(1) nxt(1) unfolding fetch_chunk_def Let_def n_def [symmetric] by (simp add: st'_def)
  moreover have "pending_docs after st' = after (ts_cursor st)"
    using nxt(2,3) by (cases "nxt = None") (simp_all add: pending_docs_def st'_def)
  ultimately show ?thesis using n(1) nxt(3) by (intro that [of st' n]) (auto simp: st'_def)
qed

lemma table_scan_produces:
  assumes ok: "paged_ok (src_list_documents_paged src coll) after valid"
  shows "length (take_opt (quota limit st) (pending_docs after st)) = m \<Longrightarrow> ts_opened st \<Longrightarrow>
    (\<not> ts_exhausted st \<longrightarrow> valid (ts_cursor st)) \<Longrightarrow>
    produces (table_scan_op src coll limit) st (map from_doc (take_opt (quota limit st) (pending_docs after st))) None"
proof (induction m arbitrary: st rule: less_induct)
  case (less m)
  let ?op = "table_scan_op src coll limit"
  have full: "(case limit of Some l \<Rightarrow> l \<le> ts_total_yielded st | None \<Rightarrow> False) \<longleftrightarrow> quota limit st = Some 0"
    by (simp add: quota_def split: option.splits)
  have step: "produces ?op st (map from_doc (take_opt (quota limit st) (pending_docs after st))) None"
    if e: "op_next ?op st = emit_doc st'" and pos: "ts_chunk_pos st' < length (ts_chunk st')" and p: "pending_docs after st' = pending_docs after st"
      and st': "\<not> ts_exhausted st' \<longrightarrow> valid (ts_cursor st')" "ts_total_yielded st' = ts_total_yielded st" "ts_opened st'"
      and q: "quota limit st \<noteq> Some 0" for st'
  proof -
    define d where "d = ts_chunk st' ! ts_chunk_pos st'"
    define st2 where "st2 = st'\<lparr>ts_chunk_pos := ts_chunk_pos st' + 1, ts_total_yielded := ts_total_yielded st' + 1\<rparr>"
    have pend: "pending_docs after st = d # pending_docs after st2"
      unfolding p [symmetric] using pos by (simp add: pending_docs_def st2_def d_def Cons_nth_drop_Suc [symmetric])
    have tk: "take_opt (quota limit st) (pending_docs after st) = d # take_opt (quota limit st2) (pending_docs after st2)"
      using q unfolding pend by (auto simp: take_opt_def quota_def st2_def st'(2) take_Cons' split: option.splits)
    have "produces ?op st2 (map from_doc (take_opt (quota limit st2) (pending_docs after st2))) None"
      using less.prems(1) tk st'(1,3) by (intro less.IH [OF _ refl]) (auto simp: st2_def)
    then show ?thesis unfolding tk using e by (auto simp: emit_doc_def st2_def d_def intro!: at_row)
  qed
  show ?case
  proof (cases "quota limit st = Some 0")
    case True
    then show ?thesis using full less.prems(2) by (auto simp: take_opt_def table_scan_op_def intro!: at_end)
  next
    case q: False
    show ?thesis
    proof (cases "ts_chunk_pos st < length (ts_chunk st)")
      case True
      show ?thesis by (rule step [OF _ True refl]) (use q full less.prems True in \<open>auto simp: table_scan_op_def\<close>)
    next
      case pos: False
      show ?thesis
      proof (cases "ts_exhausted st")
        case True
        then show ?thesis using pos q full less.prems(2)
          by (auto simp: pending_docs_def take_opt_def table_scan_op_def intro!: at_end split: option.splits)
      next
        case False
        then have pend: "pending_docs after st = after (ts_cursor st)" using pos by (simp add: pending_docs_def)
        obtain st' n where st': "fetch_chunk src coll limit st = (st', Inr ())" "0 < n" "ts_chunk st' = take n (after (ts_cursor st))" "ts_chunk_pos st' = 0"
          "pending_docs after st' = after (ts_cursor st)" "\<not> ts_exhausted st' \<longrightarrow> valid (ts_cursor st')"
          "ts_total_yielded st' = ts_total_yielded st" "ts_opened st' = ts_opened st"
          using fetch_chunk_ok [OF ok _ q] less.prems(3) False by blast
        have nx: "op_next ?op st = (if ts_chunk st' = [] then Some (st', Inr None) else emit_doc st')"
          using st'(1) q full less.prems(2) pos False by (simp add: table_scan_op_def)
        show ?thesis
        proof (cases "ts_chunk st' = []")
          case True
          then have "pending_docs after st = []" using st'(2,3) pend by simp
          then show ?thesis using True nx by (auto simp: take_opt_def intro!: at_end split: option.splits)
        next
          case False
          show ?thesis by (rule step [of st']) (use nx False st' pend less.prems(2) q in auto)
        qed
      qed
    qed
  qed
qed

lemma table_scan_collects:
  assumes "paged_ok (src_list_documents_paged src coll) after valid" "valid None"
  shows "\<exists>st'. collect_all (table_scan_op src coll limit) st = Some (st', Inr (map from_doc (take_opt limit (after None))))"
proof -
  let ?op = "table_scan_op src coll limit"
  define st0 where "st0 = st\<lparr>ts_chunk := [], ts_chunk_pos := 0, ts_cursor := None, ts_exhausted := False, ts_total_yielded := 0, ts_opened := True\<rparr>"
  obtain st1 where st1: "op_open ?op st = Some (st1, Inr ())"
    "take_opt (quota limit st1) (pending_docs after st1) = take_opt limit (after None)" "ts_opened st1" "\<not> ts_exhausted st1 \<longrightarrow> valid (ts_cursor st1)"
  proof (cases "quota limit st0 = Some 0")
    case True
    then have "limit = Some 0" by (auto simp: quota_def st0_def)
    then show ?thesis by (intro that [of "st0\<lparr>ts_exhausted := True\<rparr>"])
      (simp_all add: table_scan_op_def fetch_chunk_def st0_def take_opt_def quota_def)
  next
    case False
    have "valid (ts_cursor st0)" using assms(2) by (simp add: st0_def)
    then obtain st' n where st': "fetch_chunk src coll limit st0 = (st', Inr ())" "pending_docs after st' = after (ts_cursor st0)"
      "\<not> ts_exhausted st' \<longrightarrow> valid (ts_cursor st')" "ts_total_yielded st' = ts_total_yielded st0" "ts_opened st' = ts_opened st0"
      using fetch_chunk_ok [OF assms(1) _ False] by blast
    have "quota limit st' = limit" using st'(4) by (simp add: quota_def st0_def option.map_ident)
    then show ?thesis by (intro that [of st']) (use st' in \<open>simp_all add: table_scan_op_def st0_def\<close>)
  qed
  then have "produces ?op st1 (map from_doc (take_opt limit (after None))) None"
    using table_scan_produces [OF assms(1) refl st1(3,4), of limit] by simp
  from produces_collect_loop [OF this, of "[]"] obtain st2 where
    "collect_loop ?op [] st1 = Some (st2, Inr (map from_doc (take_opt limit (after None))))" by (auto simp: outcome_def)
  then show ?thesis using st1(1) by (simp add: collect_all_def table_scan_op_def)
qed

section \<open>The operators over a database\<close>

lemma sorted_list_after:
  assumes "finite S" "0 < n" "n < length (sorted_list_of_set S)"
  shows "sorted_list_of_set {x \<in> S. sorted_list_of_set S ! (n - 1) < x} = drop n (sorted_list_of_set (S :: 'a :: linorder set))"
proof -
  let ?xs = "sorted_list_of_set S"
  have mono: "?xs ! (n - 1) < ?xs ! i \<longleftrightarrow> n \<le> i" if "i < length ?xs" for i
  proof (cases "n \<le> i")
    case True
    then show ?thesis using that assms(2) sorted_wrt_nth_less [OF strict_sorted_list_of_set, of "n - 1" i S] by simp
  next
    case False
    then have "i = n - 1 \<or> ?xs ! i < ?xs ! (n - 1)"
      using assms(2,3) sorted_wrt_nth_less [OF strict_sorted_list_of_set, of i "n - 1" S] by (cases "i = n - 1") auto
    then show ?thesis using False by (auto dest: order.asym)
  qed
  have "set (drop n ?xs) = {x \<in> S. ?xs ! (n - 1) < x}"
  proof (intro set_eqI iffI)
    fix x assume "x \<in> set (drop n ?xs)"
    then obtain j where "j < length ?xs - n" "x = ?xs ! (n + j)" by (auto simp: in_set_conv_nth)
    moreover from this have "x \<in> set ?xs" by simp
    ultimately show "x \<in> {x \<in> S. ?xs ! (n - 1) < x}" using mono [of "n + j"] assms(1) by simp
  next
    fix x assume x: "x \<in> {x \<in> S. ?xs ! (n - 1) < x}"
    then have "x \<in> set ?xs" using assms(1) by simp
    then obtain i where i: "i < length ?xs" "?xs ! i = x" by (auto simp only: in_set_conv_nth)
    then have "n \<le> i" using x mono [OF i(1)] by simp
    then have "drop n ?xs ! (i - n) = x" "i - n < length (drop n ?xs)" using i by auto
    then show "x \<in> set (drop n ?xs)" by (metis nth_mem)
  qed
  moreover have "sorted_wrt (<) (drop n ?xs)" by (intro sorted_wrt_drop strict_sorted_list_of_set)
  ultimately show ?thesis by (metis sorted_list_of_set.idem_if_sorted_distinct strict_sorted_iff)
qed

lemma docs_after_next:
  assumes wf: "docs_wf X coll D" and n: "0 < n" "n < length (docs_after D c)"
  shows "docs_after D (Some (key (last (take n (docs_after D c))))) = drop n (docs_after D c)"
    "key (last (take n (docs_after D c))) \<in> dom D"
proof -
  define S where "S = {k \<in> as_bytes ` dom D. case c of None \<Rightarrow> True | Some a \<Rightarrow> as_bytes a < k}"
  define f where "f = (\<lambda>k. the (D (of_bytes k)))"
  define k where "k = sorted_list_of_set S ! (n - 1)"
  have da: "docs_after D c = map f (sorted_list_of_set S)" by (simp add: docs_after_def S_def f_def)
  have len: "n < length (sorted_list_of_set S)" using n(2) by (simp add: da)
  then have fin: "finite S" by (metis length_0_conv not_less_zero sorted_list_of_set.fold_insort_key.infinite)
  have kS: "k \<in> S" using len fin nth_mem [of "n - 1" "sorted_list_of_set S"] by (simp add: k_def)
  then obtain a d where a: "k = as_bytes a" "D a = Some d" by (auto simp: S_def)
  have "take n (docs_after D c) \<noteq> []" using n by auto
  then have last: "last (take n (docs_after D c)) = f k" using n len by (simp add: da last_conv_nth k_def min_def)
  then have key: "key (last (take n (docs_after D c))) = a" using wf a by (simp add: f_def docs_wf_def)
  then show "key (last (take n (docs_after D c))) \<in> dom D" using a by auto
  have "{k' \<in> as_bytes ` dom D. as_bytes a < k'} = {k' \<in> S. k < k'}" using kS a(1) by (auto simp: S_def split: option.splits)
  then show "docs_after D (Some (key (last (take n (docs_after D c))))) = drop n (docs_after D c)"
    using sorted_list_after [OF fin n(1) len] unfolding key by (simp add: da docs_after_def [of D "Some a"] drop_map f_def k_def)
qed

text \<open>No read of the collection fails.\<close>

definition readable :: "('ks, 'd, 'x) db_env \<Rightarrow> string \<Rightarrow> ('ks, 'x, 'z) database_scheme \<Rightarrow> bool" where
  "readable X coll s \<longleftrightarrow>
     (\<forall>after. (\<forall>item\<in>set (range_keys (ee_engine X) (docs_ks coll) (map_option as_bytes after) None s). \<not> isl item) \<and>
        (\<forall>limit. \<not> isl (documents_list X coll after limit s)))"

lemma database_pages:
  assumes "db_engine X content" "consistent X content coll D s" "readable X coll s"
  shows "paged_ok (src_list_documents_paged (database_source X s) coll) (docs_after D) (\<lambda>c. set_option c \<subseteq> dom D)"
  unfolding paged_ok_def
proof (intro allI impI, elim conjE)
  fix c n assume c: "set_option c \<subseteq> dom D" and n: "0 < n" "n \<le> SCAN_CHUNK_SIZE"
  obtain docs nxt where res: "documents_list X coll c n s = Inr (docs, nxt)"
    using assms(3) unfolding readable_def by (metis isl_def old.prod.exhaust sum.exhaust)
  have "docs = take n (docs_after D c) \<and> nxt = (if n < length (docs_after D c) \<and> 0 < n then Some (key (last docs)) else None)"
    by (rule db_engine.list_documents_exact [OF assms(1,2) _ _ _ res])
      (use assms(3) c n in \<open>auto simp: readable_def SCAN_CHUNK_SIZE_def usize_max_def\<close>)
  moreover have "docs_wf X coll D" using assms(2) by (simp add: consistent_def)
  ultimately show "\<exists>nxt. src_list_documents_paged (database_source X s) coll c n = Inr (take n (docs_after D c), nxt) \<and>
      (nxt = None \<longleftrightarrow> length (docs_after D c) \<le> n) \<and> (\<forall>k. nxt = Some k \<longrightarrow> set_option nxt \<subseteq> dom D \<and> docs_after D nxt = drop n (docs_after D c))"
    using res n(1) docs_after_next [of X coll D n c] by (auto simp: database_source_def)
qed

context db_engine
begin

lemma docs_after_none:
  assumes "consistent X content coll D s"
  shows "set (docs_after D None) = ran D"
proof -
  have m: "content (disk s (docs_ks coll)) = docs_map X D" and wf: "docs_wf X coll D" using assms by (simp_all add: consistent_def)
  have "as_bytes ` dom D \<subseteq> dom (docs_map X D)" using wf unfolding docs_wf_def docs_map_def by fastforce
  moreover have "finite (dom (docs_map X D))" using content_finite m by metis
  ultimately have "finite (as_bytes ` dom D)" by (rule finite_subset)
  then have "set (docs_after D None) = (\<lambda>k. the (D (of_bytes k))) ` as_bytes ` dom D" by (simp add: docs_after_def)
  also have "\<dots> = (\<lambda>k. the (D k)) ` dom D" by (simp add: image_image)
  also have "\<dots> = ran D" by (force simp: ran_def image_iff)
  finally show ?thesis .
qed

end

text \<open>C32: A table scan over a database, pulled to its end, returns the documents of the collection in
  the order of their keys (the first \<open>n\<close> of them under a limit), although it fetches them in pages
  of at most 1000, and these are all the documents of the collection; as long as no read fails.\<close>

theorem table_scan_reads_collection:
  assumes "db_engine X content" "consistent X content coll D s" "readable X coll s"
  shows "(\<exists>st. collect_all (table_scan_op (database_source X s) coll limit) table_scan_new =
      Some (st, Inr (map from_doc (take_opt limit (docs_after D None))))) \<and> set (docs_after D None) = ran D"
  using table_scan_collects [OF database_pages [OF assms]] db_engine.docs_after_none [OF assms(1,2)] by simp


text \<open>Witnesses on the collection with one document.\<close>

lemma linked_readable: "readable mem_db_env ''u'' linked_db"
proof -
  let ?k = "as_bytes ''a''" and ?b = "the (map_of (disk linked_db (docs_ks ''u'')) (as_bytes ''a''))"
  have one: "range_keys (ee_engine mem_db_env) (docs_ks ''u'') lo hi linked_db \<in> {[], [Inr (?k, ?b)]}" for lo hi
    by (auto simp: range_keys_def mem_filter_def linked_db_def)
  have dec: "\<not> isl (decode_docs mem_db_env (take m (drop j items)))" if "items \<in> {[], [Inr (?k, ?b)]}" for m j items
  proof -
    have "take m (drop j items) \<in> {[], [Inr (?k, ?b)]}" using that by (cases m; cases j) auto
    then show ?thesis using mem_docs_codec linked_bytes(1) by (auto simp: codec_ok_def linked_db_def)
  qed
  have ks: "docs_keyspace linked_db ''u'' = Some (docs_ks ''u'')" by (simp add: docs_keyspace_def linked_db_def)
  have "\<not> isl (documents_list mem_db_env ''u'' after limit linked_db)" for after limit
  proof -
    obtain ds where "decode_docs mem_db_env (take (min usize_max (limit + 1)) (drop (if after \<noteq> None then 1 else 0)
        (range_keys (ee_engine mem_db_env) (docs_ks ''u'') (map_option as_bytes after) None linked_db))) = Inr ds"
      using dec [OF one] by (metis isl_def sum.exhaust)
    then show ?thesis unfolding documents_list_def ks by (simp add: Let_def)
  qed
  moreover have "\<forall>item\<in>set (range_keys (ee_engine mem_db_env) (docs_ks ''u'') lo hi linked_db). \<not> isl item" for lo hi
    using one [of lo hi] by auto
  ultimately show ?thesis by (simp add: readable_def)
qed

theorem table_scan_reads_collection_witness:
  "\<exists>st. collect_all (table_scan_op (database_source mem_db_env linked_db) ''u'' (Some 5)) table_scan_new = Some (st, Inr [from_doc linked_doc])"
proof -
  have "docs_after [''a'' \<mapsto> linked_doc] None = [linked_doc]" by (simp add: docs_after_def del: as_bytes_Cons)
  then show ?thesis using table_scan_reads_collection [OF mem_db_engine linked_consistent linked_readable, of "Some 5"]
    by (simp add: take_opt_def)
qed


end
