(* ===== verification/Database_Plans.thy ===== *)
theory Database_Plans
  imports Optimizer Scan_Operators
begin

text \<open>
  The optimiser over the indexes of a database: the index lookups of its context as
  \<open>storage/context_impl.rs\<close> and \<open>storage/indexes/manager.rs\<close> implement them, and what the chosen
  lookups find when they are run.
\<close>

section \<open>The context of a database\<close>

definition manager_find_index_for_field :: "('ks, 'x, 'z) database_scheme \<Rightarrow> string \<Rightarrow> string \<Rightarrow> (string \<times> bool) option" where
  "manager_find_index_for_field s coll field =
     map_option (\<lambda>idx. (idx_fields idx ! 0, idx_unique idx)) (find_index_for_field s coll field)"

definition manager_find_compound_index :: "('ks, 'x, 'z) database_scheme \<Rightarrow> string \<Rightarrow> string list \<Rightarrow> string list option" where
  "manager_find_compound_index s coll fs = map_option idx_fields (find_compound_index s coll fs)"

definition database_planner :: "('ks, 'x, 'z) database_scheme \<Rightarrow> planner" where
  "database_planner s =
     \<lparr>pl_find_index_for_field = (\<lambda>coll field. map_option (\<lambda>(f, _). [f]) (manager_find_index_for_field s coll field)),
      pl_find_compound_index = (\<lambda>coll fs. manager_find_compound_index s coll fs)\<rparr>"

section \<open>A planned lookup of a field finds its index\<close>

fun method_lookups :: "AccessMethod \<Rightarrow> IndexLookup list" where
  "method_lookups MTableScan = []"
| "method_lookups (MIndexScan _ lookup) = [lookup]"
| "method_lookups (MUnion branches _) = map snd branches"

text \<open>Only fields with an index are indexable.\<close>

fun part_indexed :: "(string \<Rightarrow> bool) \<Rightarrow> 'q PredicatePart \<Rightarrow> bool" where
  "part_indexed indexed (Indexable field _ _ _) = indexed field"
| "part_indexed indexed (DisjunctionGroup bs _) = (\<forall>b\<in>set bs. part_indexed indexed b)"
| "part_indexed indexed (FilterOnly _) = True"

lemma classify_atom_indexed: "part_indexed (\<lambda>f. pl_find_index_for_field ctx coll f \<noteq> None) (classify_atom ctx coll e)"
  by (cases e) (auto simp: classify_atom_def split: Expr.splits option.splits)

lemma classify_indexed: "part_indexed (\<lambda>f. pl_find_index_for_field ctx coll f \<noteq> None) (classify_conjunct ctx coll c)"
proof (induction c)
  case (Atom e)
  then show ?case using classify_atom_indexed [of ctx coll e] by simp
qed simp

lemma lookup_of_field: "lookup_of field iop ival = Some l \<Longrightarrow> lookup_field l = field"
  by (auto simp: lookup_of_def lookup_field_def split: IndexableOp.splits IndexValue.splits)

lemma index_scan_paths_indexed:
  assumes "index_scan_paths coll parts ips = Some ps" "\<And>i p. (i, p) \<in> set ips \<Longrightarrow> part_indexed indexed p"
    and "p \<in> set ps" "l \<in> set (method_lookups (ap_method p))"
  shows "indexed (lookup_field l)"
  using assms
proof (induction ips arbitrary: ps)
  case (Cons ip ips)
  obtain i part where ip: "ip = (i, part)" by (cases ip)
  show ?case
  proof (cases part)
    case (Indexable field iop ival e)
    then obtain q qs where q: "index_scan coll field iop ival (combine_parts_except parts i) = Some q" "index_scan_paths coll parts ips = Some qs" "ps = q # qs"
      using Cons.prems(1) ip by (auto simp: bind_eq_Some_conv)
    show ?thesis
    proof (cases "p = q")
      case True
      then have "lookup_of field iop ival = Some l" using q(1) Cons.prems(4) by (auto simp: index_scan_def split: option.splits)
      then show ?thesis using lookup_of_field Cons.prems(2) [of i part] ip Indexable by fastforce
    next
      case False
      then have "p \<in> set qs" using q(3) Cons.prems(3) by simp
      then show ?thesis using Cons.IH [OF q(2)] Cons.prems(2,4) by auto
    qed
  qed (use Cons ip in auto)
qed simp

lemma branch_lookups_indexed:
  assumes "branch_lookups coll bs = Some ls" "\<forall>b\<in>set bs. part_indexed indexed b" "l \<in> snd ` set ls"
  shows "indexed (lookup_field l)"
  using assms
proof (induction bs arbitrary: ls)
  case (Cons b bs)
  then obtain field iop ival e l' ls' where b: "b = Indexable field iop ival e" "lookup_of field iop ival = Some l'"
    "branch_lookups coll bs = Some ls'" "ls = (\<lparr>ref_collection = coll, ref_fields = [field]\<rparr>, l') # ls'"
    by (cases b) (auto split: option.splits)
  then show ?case using Cons lookup_of_field [OF b(2)] by auto
qed simp

lemma union_paths_indexed:
  assumes "p \<in> set (union_paths coll parts)" "\<forall>part\<in>set parts. part_indexed indexed part" "l \<in> set (method_lookups (ap_method p))"
  shows "indexed (lookup_field l)"
proof -
  obtain i bs e where i: "(i, DisjunctionGroup bs e) \<in> set (enumerate 0 parts)" "try_build_union bs parts i coll = Some p"
    using assms(1) by (auto simp: union_paths_def set_map_filter split: PredicatePart.splits)
  then obtain ls where ls: "branch_lookups coll bs = Some ls" "l \<in> snd ` set ls"
    using assms(3) by (auto simp: try_build_union_def union_path_def split: option.splits)
  have "DisjunctionGroup bs e \<in> set parts" using i(1) by (auto simp: enumerate_mem)
  then have "part_indexed indexed (DisjunctionGroup bs e)" using assms(2) by blast
  then have "\<forall>b\<in>set bs. part_indexed indexed b" by simp
  then show ?thesis by (rule branch_lookups_indexed [OF ls(1) _ ls(2)])
qed

lemma compound_path_lookup:
  "try_build_compound_index ctx coll parts = Some p \<Longrightarrow> \<exists>fvs. method_lookups (ap_method p) = [LCompoundEq fvs]"
  by (auto simp: try_build_compound_index_def compound_index_scan_def Let_def dest!: find_map_Some split: if_splits option.splits)

lemma planned_lookup_indexed:
  assumes "generate_access_paths ctx coll (classify_all ctx coll (extract_conjuncts predicate)) = Some paths"
    and "p \<in> set paths" "l \<in> set (method_lookups (ap_method p))" "\<nexists>fvs. l = LCompoundEq fvs"
  shows "pl_find_index_for_field ctx coll (lookup_field l) \<noteq> None"
proof -
  define parts where "parts = classify_all ctx coll (extract_conjuncts predicate)"
  have parts: "\<forall>part\<in>set parts. part_indexed (\<lambda>f. pl_find_index_for_field ctx coll f \<noteq> None) part"
    by (simp add: parts_def classify_all_def classify_indexed del: not_None_eq)
  obtain scans where scans: "index_scan_paths coll parts (enumerate 0 parts) = Some scans"
    "paths = table_scan (combine_parts_to_filter parts) # scans @
       (case try_build_compound_index ctx coll parts of Some p \<Rightarrow> [p] | None \<Rightarrow> []) @ union_paths coll parts"
    using assms(1) unfolding parts_def [symmetric] by (auto simp: generate_access_paths_def)
  consider "p = table_scan (combine_parts_to_filter parts)" | "p \<in> set scans" | "try_build_compound_index ctx coll parts = Some p" | "p \<in> set (union_paths coll parts)"
    using assms(2) scans(2) by (auto split: option.splits)
  then show ?thesis
  proof cases
    case 1
    then show ?thesis using assms(3) by (simp add: table_scan_def)
  next
    case 2
    show ?thesis
      by (rule index_scan_paths_indexed [OF scans(1) _ 2 assms(3)]) (use parts in \<open>auto simp: enumerate_mem\<close>)
  next
    case 3
    then show ?thesis using compound_path_lookup assms(3,4) by fastforce
  next
    case 4
    then show ?thesis using union_paths_indexed [OF _ parts assms(3)] by blast
  qed
qed



text \<open>A compound lookup may leave out a field of its index: the conditions \<open>a\<close>, \<open>b\<close> and \<open>d\<close> are taken
  for an index on \<open>a\<close>, \<open>b\<close>, \<open>c\<close>, \<open>d\<close>, and then no index starts with the fields of the lookup.\<close>

lemma compound_lookup_skips_field:
  fixes s :: "('ks, 'x) database" and parts :: "unit PredicatePart list"
  assumes "get_indexes s coll = [i]" "idx_fields i = [''a'', ''b'', ''c'', ''d'']"
    and "parts = map (\<lambda>f. FilterOnly (EBinaryOp (Field f) Eq (Literal (VInt 1)))) [''a'', ''b'', ''d'']"
  shows "\<exists>p fvs e. try_build_compound_index (database_planner s) coll parts = Some p \<and>
    method_lookups (ap_method p) = [LCompoundEq fvs] \<and> compound_index s coll (map fst fvs) = Inl e"
proof -
  have conds: "eq_conditions parts = [(''a'', VInt 1, 0), (''b'', VInt 1, 1), (''d'', VInt 1, 2)]"
    by (simp add: assms(3) eq_conditions_def eq_condition_def extract_eq_condition_def List.map_filter_simps)
  have len: "length (eq_conditions parts) = 3" by (simp add: conds)
  have sizes: "rev [2..<3 + 1] = [3, 2 :: nat]" by (simp add: upt_rec)
  have combos: "combinations 3 3 = [[0, 1, 2]]" "combinations 3 2 = [[0, 1], [0, 2], [1, 2]]"
    by (simp_all add: combinations_def generate.simps upt_rec numeral_eq_Suc)
  have "pl_find_compound_index (database_planner s) coll fs = (if fs \<noteq> [] \<and> length fs \<le> 4 \<and> list_all (\<lambda>(a, b). a = b) (zip fs [''a'', ''b'', ''c'', ''d'']) then Some [''a'', ''b'', ''c'', ''d''] else None)" for fs
    by (simp add: database_planner_def manager_find_compound_index_def find_compound_index_def assms(1,2))
  then have "try_build_compound_index (database_planner s) coll parts =
      Some (compound_index_scan coll [''a'', ''b'', ''c'', ''d''] [(''a'', VInt 1), (''b'', VInt 1), (''d'', VInt 1)] (combine_parts_except_multiple parts [0, 1, 2]))"
    unfolding try_build_compound_index_def Let_def len sizes find_map.simps combos
    by (simp add: conds index_conditions_def List.map_filter_simps)
  moreover have "\<exists>e. compound_index s coll [''a'', ''b'', ''d''] = Inl e" by (simp add: compound_index_def assms(1,2))
  ultimately show ?thesis by (auto simp: compound_index_scan_def)
qed

end
