(* ===== verification/Statements.thy ===== *)
theory Statements
  imports Plans
begin

text \<open>
  Statements and their plans: \<open>query/ast/stmt.rs\<close>, \<open>LogicalPlan::from_ast\<close> of \<open>query/plan/logical.rs\<close>,
  \<open>plan_from_statement\<close> of \<open>query/execute/engine/mod.rs\<close>, and what the batch executor does with a
  statement (\<open>query/builder.rs\<close>, \<open>query/builder/direct.rs\<close>, \<open>query/builder/result.rs\<close>). Rows of a source
  that is not a collection come from \<open>materialize_source\<close>, which is an argument with the time it took.
\<close>

section \<open>Statements (stmt.rs)\<close>

record InsertAst =
  in_collection :: string
  in_objects :: "ObjectLiteral list"

record 'q CreateAst =
  cr_target :: Target
  cr_assignments :: "'q Assignment list"

record 'q UpdateAst =
  up_target :: Target
  up_filter :: "'q Expr option"
  up_assignments :: "'q Assignment list"

record 'q UpsertAst =
  us_target :: Target
  us_assignments :: "'q Assignment list"
  us_replace :: bool

datatype DeleteTarget = DelDocument Target | DelEdge Target string "Target option"

record 'q DeleteAst =
  de_target :: DeleteTarget
  de_filter :: "'q Expr option"

record SetAst =
  set_key :: string
  value_nanos :: u64

record FieldDefAst =
  fda_name :: string
  fda_field_type :: FieldType
  fda_required :: bool
  fda_default :: "DefaultValue option"

record DefineCollectionAst =
  dc_name :: string
  dc_mode :: SchemaMode
  dc_fields :: "FieldDefAst list"
  dc_indexes :: "IndexDef list"

record DropCollectionAst =
  drc_name :: string
  drc_cascade :: bool

datatype DescribeAst = DescribeOne string | DescribeAll

record CreateIndexAst =
  ci_collection :: string
  ci_fields :: "string list"
  ci_unique :: bool
  ci_index_type :: IndexType
  ci_hnsw_params :: "HnswParams option"
  ci_analyzer :: "string option"

record DropIndexAst =
  dri_name :: string
  dri_collection :: string

record ReindexAst =
  ri_name :: string
  ri_collection :: string

record 'q LetAst =
  let_name :: string
  let_expr :: "'q Expr"

datatype 'q RelateSource = RelRecord Target | RelArray "Target list" | RelSubquery "'q SelectAst"

datatype 'q RelateData = RelSet "'q Assignment list" | RelContent ObjectLiteral

datatype 'q ReturnClause = ReturnNone | ReturnBefore | ReturnAfter | ReturnFields "'q ProjectionItem list"

record 'q RelateAst =
  rel_from :: "'q RelateSource"
  rel_label :: string
  rel_to :: "'q RelateSource"
  rel_data :: "'q RelateData option"
  rel_return :: "'q ReturnClause"

datatype TokenizerConfig = TokStandard | TokWhitespace | TokNgram "8 word" "8 word" | TokPattern string

datatype FilterConfig = FLowercase | FStemmer string | FStopwords string | FLength "8 word" "8 word" | FAsciiFolding

record DefineAnalyzerAst =
  da_name :: string
  da_tokenizer :: TokenizerConfig
  da_filters :: "FilterConfig list"

record CreateUserAst =
  cu_username :: string
  cu_password :: string

datatype AlterUserAst =
    AlterPassword string string
  | AlterSet string "(string \<times> string) list"
  | AlterRemove string "string list"

record CreateApiKeyAst =
  ck_name :: string
  ck_username :: string

record PolicyConditionAst =
  pca_field :: string
  pca_op :: string
  pca_values :: "string list"

datatype PolicyEffectAst = PolicyAllow | PolicyDeny

record CreatePolicyAst =
  cp_name :: string
  cp_conditions :: "PolicyConditionAst list"
  cp_effect :: PolicyEffectAst

datatype AlterCollectionAttrsAst =
    AttrsSet string "(string \<times> string) list"
  | AttrsRemove string "string list"

text \<open>The structs of one name (\<open>DropUserAst\<close>, \<open>DropAnalyzerAst\<close> and so on) are that name.\<close>

datatype 'q Stmt =
    StSelect "'q SelectAst"
  | StInsert InsertAst
  | StCreate "'q CreateAst"
  | StUpdate "'q UpdateAst"
  | StUpsert "'q UpsertAst"
  | StDelete "'q DeleteAst"
  | StRelate "'q RelateAst"
  | StBegin | StCommit | StRollback
  | StDefineCollection DefineCollectionAst
  | StDropCollection DropCollectionAst
  | StDescribe DescribeAst
  | StCreateIndex CreateIndexAst
  | StDropIndex DropIndexAst
  | StReindex ReindexAst
  | StExplain bool "'q Stmt"
  | StLet "'q LetAst"
  | StDefineAnalyzer DefineAnalyzerAst
  | StDropAnalyzer string
  | StSet SetAst
  | StCreateUser CreateUserAst
  | StDropUser string
  | StAlterUser AlterUserAst
  | StCreateApiKey CreateApiKeyAst
  | StDropApiKey string
  | StCreatePolicy CreatePolicyAst
  | StDropPolicy string
  | StAlterCollectionAttrs AlterCollectionAttrsAst
  | StExpr "'q Expr"

section \<open>Plans of statements (logical.rs)\<close>

definition target_id :: "Target \<Rightarrow> string" where
  "target_id t = (case tg_key t of Some k \<Rightarrow> tg_collection t @ '':'' @ k | None \<Rightarrow> tg_collection t)"

definition field_def_of :: "FieldDefAst \<Rightarrow> FieldDef" where
  "field_def_of f = FieldDef (fda_name f) (fda_field_type f) (fda_required f) (fda_default f)"

text \<open>\<open>unreachable!\<close>, \<open>unimplemented!\<close> and \<open>expect\<close> are panics.\<close>

fun from_ast :: "'d env \<Rightarrow> (Value \<Rightarrow> string) \<Rightarrow> 'q Stmt \<Rightarrow> 'q LogicalPlan eval_result" where
  "from_ast E dbg (StSelect s) =
     (case select_plan E dbg s of
        Some plan \<Rightarrow> Inr plan
      | None \<Rightarrow> Inl (EPanic ''Subquery/FieldPath sources are materialized before from_ast''))"
| "from_ast E dbg (StInsert i) = Inr (LInsert (in_collection i) (in_objects i))"
| "from_ast E dbg (StCreate c) = Inr (LCreate (tg_collection (cr_target c)) (tg_key (cr_target c)) (cr_assignments c))"
| "from_ast E dbg (StUpdate u) =
     Inr (LUpdate (tg_collection (up_target u)) (tg_key (up_target u)) (up_filter u) (up_assignments u))"
| "from_ast E dbg (StUpsert u) =
     (case tg_key (us_target u) of
        Some k \<Rightarrow> Inr (LUpsert (tg_collection (us_target u)) k (us_assignments u) (us_replace u))
      | None \<Rightarrow> Inl (EPanic ''UPSERT requires key''))"
| "from_ast E dbg (StDelete d) =
     (case de_target d of
        DelDocument t \<Rightarrow> Inr (LDelete (tg_collection t) (tg_key t) (de_filter d))
      | DelEdge src label to \<Rightarrow> Inr (LDeleteEdge (target_id src) label (map_option target_id to)))"
| "from_ast E dbg StBegin = Inr LBegin"
| "from_ast E dbg StCommit = Inr LCommit"
| "from_ast E dbg StRollback = Inr LRollback"
| "from_ast E dbg (StDefineCollection a) =
     Inr (LDefineCollection (dc_name a) (dc_mode a) (map field_def_of (dc_fields a)) (dc_indexes a))"
| "from_ast E dbg (StDropCollection a) = Inr (LDropCollection (drc_name a) (drc_cascade a))"
| "from_ast E dbg (StDescribe a) =
     (case a of DescribeOne name \<Rightarrow> Inr (LDescribeCollection name) | DescribeAll \<Rightarrow> Inr LDescribeCollections)"
| "from_ast E dbg (StCreateIndex a) =
     Inr (LCreateIndex (ci_collection a) (ci_fields a) (ci_unique a) (ci_index_type a) (ci_hnsw_params a) (ci_analyzer a))"
| "from_ast E dbg (StDropIndex a) = Inr (LDropIndex (dri_name a) (dri_collection a))"
| "from_ast E dbg (StExplain analyze st) =
     and_then (from_ast E dbg st) (\<lambda>inner_plan. Inr (LExplain analyze inner_plan None))"
| "from_ast E dbg (StLet a) = Inr (LLet (let_name a) (let_expr a))"
| "from_ast E dbg (StReindex a) = Inr (LReindex (ri_name a) (ri_collection a))"
| "from_ast E dbg (StSet _) = Inl (EPanic ''SET handled in execute_batch'')"
| "from_ast E dbg (StDefineAnalyzer _) = Inl (EPanic ''Analyzer DDL statements are handled directly by the executor'')"
| "from_ast E dbg (StDropAnalyzer _) = Inl (EPanic ''Analyzer DDL statements are handled directly by the executor'')"
| "from_ast E dbg (StRelate _) = Inl (EPanic ''RELATE statements are handled directly by the executor'')"
| "from_ast E dbg (StExpr _) = Inl (EPanic ''Expression statements are handled directly by the executor'')"
| "from_ast E dbg (StCreateUser _) = Inl (EPanic ''Auth statements are handled directly by the executor'')"
| "from_ast E dbg (StDropUser _) = Inl (EPanic ''Auth statements are handled directly by the executor'')"
| "from_ast E dbg (StAlterUser _) = Inl (EPanic ''Auth statements are handled directly by the executor'')"
| "from_ast E dbg (StCreateApiKey _) = Inl (EPanic ''Auth statements are handled directly by the executor'')"
| "from_ast E dbg (StDropApiKey _) = Inl (EPanic ''Auth statements are handled directly by the executor'')"
| "from_ast E dbg (StCreatePolicy _) = Inl (EPanic ''Auth statements are handled directly by the executor'')"
| "from_ast E dbg (StDropPolicy _) = Inl (EPanic ''Auth statements are handled directly by the executor'')"
| "from_ast E dbg (StAlterCollectionAttrs _) = Inl (EPanic ''Auth statements are handled directly by the executor'')"

section \<open>Sources that are not collections (engine/mod.rs)\<close>

definition should_produce_scalar_output :: "'q DataSource \<Rightarrow> 'q Projection \<Rightarrow> bool" where
  "should_produce_scalar_output source projection =
     ((case source of DSExpr _ \<Rightarrow> True | DSFieldPath _ _ _ \<Rightarrow> True | _ \<Rightarrow> False) \<and> projection = ProjAll)"

definition build_in_memory_scan :: "'q SelectAst \<Rightarrow> Row list \<Rightarrow> bool \<Rightarrow> 'q LogicalPlan" where
  "build_in_memory_scan s rows scalar_output =
     LInMemoryScan rows (sa_filter s) (sa_projection s) (sa_order s) (sa_limit s) (sa_offset s) scalar_output
       (sa_distinct s) (sa_value_mode s) (if sa_value_mode s then extract_value_expr (sa_projection s) else None) (sa_fetch s)"

definition is_collection :: "'q DataSource \<Rightarrow> bool" where
  "is_collection source = (case source of DSCollection _ \<Rightarrow> True | _ \<Rightarrow> False)"

definition in_memory_plan :: "('q DataSource \<Rightarrow> Row list eval_result) \<Rightarrow> 'q SelectAst \<Rightarrow> 'q LogicalPlan eval_result" where
  "in_memory_plan materialize s =
     and_then (materialize (sa_source s)) (\<lambda>rows.
       Inr (build_in_memory_scan s rows
              (sa_source s = DSNone \<or> should_produce_scalar_output (sa_source s) (sa_projection s))))"

definition plan_from_statement ::
  "'d env \<Rightarrow> (Value \<Rightarrow> string) \<Rightarrow> ('q DataSource \<Rightarrow> Row list eval_result) \<Rightarrow> u64 \<Rightarrow> 'q Stmt \<Rightarrow> 'q LogicalPlan eval_result" where
  "plan_from_statement E dbg materialize micros stmt =
     (case stmt of
        StSelect s \<Rightarrow> if is_collection (sa_source s) then from_ast E dbg stmt else in_memory_plan materialize s
      | StExplain analyze (StSelect s) \<Rightarrow>
          if is_collection (sa_source s) then from_ast E dbg stmt
          else and_then (in_memory_plan materialize s) (\<lambda>inner_plan.
                 Inr (LExplain analyze inner_plan (if analyze then Some micros else None)))
      | _ \<Rightarrow> from_ast E dbg stmt)"

section \<open>Kinds of statements (builder.rs, direct.rs, result.rs)\<close>

definition is_ddl :: "'q Stmt \<Rightarrow> bool" where
  "is_ddl stmt =
     (case stmt of
        StDefineCollection _ \<Rightarrow> True | StDropCollection _ \<Rightarrow> True | StDescribe _ \<Rightarrow> True | StCreateIndex _ \<Rightarrow> True
      | StDropIndex _ \<Rightarrow> True | StReindex _ \<Rightarrow> True | StDefineAnalyzer _ \<Rightarrow> True | StDropAnalyzer _ \<Rightarrow> True
      | StCreateUser _ \<Rightarrow> True | StDropUser _ \<Rightarrow> True | StAlterUser _ \<Rightarrow> True | StCreateApiKey _ \<Rightarrow> True
      | StDropApiKey _ \<Rightarrow> True | StCreatePolicy _ \<Rightarrow> True | StDropPolicy _ \<Rightarrow> True | StAlterCollectionAttrs _ \<Rightarrow> True
      | _ \<Rightarrow> False)"

text \<open>The statements that \<open>try_handle_tx_or_set\<close> and \<open>try_handle_statement\<close> do not pass on.\<close>

definition handles_tx_or_set :: "'q Stmt \<Rightarrow> bool" where
  "handles_tx_or_set stmt =
     (case stmt of StBegin \<Rightarrow> True | StCommit \<Rightarrow> True | StRollback \<Rightarrow> True | StSet _ \<Rightarrow> True | _ \<Rightarrow> False)"

definition handles_statement :: "'q Stmt \<Rightarrow> bool" where
  "handles_statement stmt =
     (case stmt of
        StDefineAnalyzer _ \<Rightarrow> True | StDropAnalyzer _ \<Rightarrow> True | StCreateUser _ \<Rightarrow> True | StDropUser _ \<Rightarrow> True
      | StAlterUser _ \<Rightarrow> True | StCreateApiKey _ \<Rightarrow> True | StDropApiKey _ \<Rightarrow> True | StCreatePolicy _ \<Rightarrow> True
      | StDropPolicy _ \<Rightarrow> True | StAlterCollectionAttrs _ \<Rightarrow> True | StRelate _ \<Rightarrow> True | StExpr _ \<Rightarrow> True
      | _ \<Rightarrow> False)"

definition statement_type :: "'q Stmt \<Rightarrow> string" where
  "statement_type stmt =
     (case stmt of
        StSelect _ \<Rightarrow> ''SELECT'' | StInsert _ \<Rightarrow> ''INSERT'' | StCreate _ \<Rightarrow> ''CREATE'' | StUpdate _ \<Rightarrow> ''UPDATE''
      | StUpsert _ \<Rightarrow> ''UPSERT'' | StDelete _ \<Rightarrow> ''DELETE'' | StBegin \<Rightarrow> ''BEGIN'' | StCommit \<Rightarrow> ''COMMIT''
      | StRollback \<Rightarrow> ''ROLLBACK'' | StDefineCollection _ \<Rightarrow> ''DEFINE COLLECTION''
      | StDropCollection _ \<Rightarrow> ''DROP COLLECTION'' | StDescribe _ \<Rightarrow> ''DESCRIBE'' | StCreateIndex _ \<Rightarrow> ''CREATE INDEX''
      | StDropIndex _ \<Rightarrow> ''DROP INDEX'' | StExplain _ _ \<Rightarrow> ''EXPLAIN'' | StLet _ \<Rightarrow> ''LET'' | StReindex _ \<Rightarrow> ''REINDEX''
      | StDefineAnalyzer _ \<Rightarrow> ''DEFINE ANALYZER'' | StDropAnalyzer _ \<Rightarrow> ''DROP ANALYZER'' | StRelate _ \<Rightarrow> ''RELATE''
      | StSet _ \<Rightarrow> ''SET'' | StExpr _ \<Rightarrow> ''EXPR'' | StCreateUser _ \<Rightarrow> ''CREATE USER'' | StDropUser _ \<Rightarrow> ''DROP USER''
      | StAlterUser _ \<Rightarrow> ''ALTER USER'' | StCreateApiKey _ \<Rightarrow> ''CREATE API KEY'' | StDropApiKey _ \<Rightarrow> ''DROP API KEY''
      | StCreatePolicy _ \<Rightarrow> ''CREATE POLICY'' | StDropPolicy _ \<Rightarrow> ''DROP POLICY''
      | StAlterCollectionAttrs _ \<Rightarrow> ''ALTER COLLECTION'')"

text \<open>What the parser guarantees of the statements it builds (\<open>parse_upsert\<close>, \<open>parse_explain\<close>).\<close>

definition parsed :: "'q Stmt \<Rightarrow> bool" where
  "parsed stmt =
     (case stmt of
        StUpsert u \<Rightarrow> tg_key (us_target u) \<noteq> None
      | StExplain _ st \<Rightarrow> (case st of StSelect _ \<Rightarrow> True | StUpdate _ \<Rightarrow> True | StDelete _ \<Rightarrow> True | _ \<Rightarrow> False)
      | _ \<Rightarrow> True)"

section \<open>The planner meets no statement it cannot plan\<close>

lemma select_plan_collection: "is_collection (sa_source s) \<Longrightarrow> \<exists>plan. select_plan E dbg s = Some plan"
  by (auto simp: is_collection_def select_plan_def split: DataSource.splits)

lemma in_memory_plan_errors: "in_memory_plan materialize s = Inl e \<Longrightarrow> materialize (sa_source s) = Inl e"
  by (cases "materialize (sa_source s)") (auto simp: in_memory_plan_def)


definition failing_select :: "unit Stmt" where
  "failing_select = StExplain True (StSelect
     \<lparr>sa_projection = ProjAll, sa_distinct = False, sa_value_mode = False, sa_source = DSExpr (EVariable ''x''),
      sa_filter = None, sa_group = None, sa_order = None, sa_limit = None, sa_offset = None, sa_fetch = None\<rparr>)"


end
