(* ===== verification/Authorization.thy ===== *)
theory Authorization
  imports Statements Edge_Store
begin

text \<open>
  Access control: \<open>auth/types.rs\<close>, the policy engine \<open>auth/policy_engine.rs\<close>, the boundary
  \<open>auth/authorization.rs\<close>, the policies as documents (\<open>auth/service.rs\<close>), the action of a statement
  (\<open>query/builder/authz.rs\<close>) and the policy of a CREATE POLICY statement (\<open>query/builder/direct.rs\<close>).
  The policies are one value under a lock, so an operation of the engine is a function on their list.
\<close>

section \<open>Types (types.rs)\<close>

record Subject =
  user_id :: string
  subject_attributes :: "(string, string) hashmap"

datatype Action = ASelect | AInsert | AUpdate | ADelete | ACreate | ADrop | ATraverse | ASearch | AManage

definition action_as_str :: "Action \<Rightarrow> string" where
  "action_as_str action =
     (case action of
        ASelect \<Rightarrow> ''SELECT'' | AInsert \<Rightarrow> ''INSERT'' | AUpdate \<Rightarrow> ''UPDATE'' | ADelete \<Rightarrow> ''DELETE'' | ACreate \<Rightarrow> ''CREATE''
      | ADrop \<Rightarrow> ''DROP'' | ATraverse \<Rightarrow> ''TRAVERSE'' | ASearch \<Rightarrow> ''SEARCH'' | AManage \<Rightarrow> ''MANAGE'')"

record Resource =
  resource_database :: string
  resource_collection :: "string option"
  resource_attributes :: "(string, string) hashmap"

datatype Effect = EffAllow | EffDeny

datatype ConditionOp = CEq | CNeq | CIn

datatype ConditionValue = CSingle string | CList "string list"

record Condition =
  cond_field :: string
  cond_op :: ConditionOp
  cond_value :: ConditionValue

record Policy =
  policy_name :: string
  policy_conditions :: "Condition list"
  policy_effect :: Effect

datatype AuthzDecision = Allowed | Denied "string option"

section \<open>Policy engine (policy_engine.rs)\<close>

type_synonym PolicyEngine = "Policy list"

definition load_policies :: "Policy list \<Rightarrow> PolicyEngine \<Rightarrow> PolicyEngine" where
  "load_policies policies ps = policies"

definition add_policy :: "Policy \<Rightarrow> PolicyEngine \<Rightarrow> PolicyEngine" where
  "add_policy p ps = ps @ [p]"

definition remove_policy :: "string \<Rightarrow> PolicyEngine \<Rightarrow> PolicyEngine \<times> bool" where
  "remove_policy name ps =
     (let ps' = filter (\<lambda>p. policy_name p \<noteq> name) ps in (ps', length ps' < length ps))"

definition resolve_field :: "string \<Rightarrow> Subject \<Rightarrow> Action \<Rightarrow> Resource \<Rightarrow> string option" where
  "resolve_field field s action r =
     (if field = ''action'' then Some (action_as_str action)
      else case strip_prefix ''subject.'' field of
        Some attr \<Rightarrow> hm_get (subject_attributes s) attr
      | None \<Rightarrow>
          (case strip_prefix ''resource.'' field of
             Some attr \<Rightarrow>
               if attr = ''database'' then Some (resource_database r)
               else if attr = ''collection'' then resource_collection r
               else hm_get (resource_attributes r) attr
           | None \<Rightarrow> None))"

definition condition_matches :: "Condition \<Rightarrow> Subject \<Rightarrow> Action \<Rightarrow> Resource \<Rightarrow> bool" where
  "condition_matches c s action r =
     (let actual = resolve_field (cond_field c) s action r
      in case (cond_op c, cond_value c) of
           (CEq, CSingle expected) \<Rightarrow> actual = Some expected
         | (CNeq, CSingle expected) \<Rightarrow> actual \<noteq> Some expected
         | (CIn, CList expected) \<Rightarrow> (case actual of Some v \<Rightarrow> list_ex (\<lambda>e. e = v) expected | None \<Rightarrow> False)
         | _ \<Rightarrow> False)"

definition policy_matches :: "Policy \<Rightarrow> Subject \<Rightarrow> Action \<Rightarrow> Resource \<Rightarrow> bool" where
  "policy_matches p s action r = list_all (\<lambda>c. condition_matches c s action r) (policy_conditions p)"

fun evaluate_loop :: "Policy list \<Rightarrow> Subject \<Rightarrow> Action \<Rightarrow> Resource \<Rightarrow> bool \<Rightarrow> AuthzDecision" where
  "evaluate_loop [] s action r has_allow = (if has_allow then Allowed else Denied None)"
| "evaluate_loop (p # ps) s action r has_allow =
     (if policy_matches p s action r
      then case policy_effect p of
             EffDeny \<Rightarrow> Denied (Some (policy_name p))
           | EffAllow \<Rightarrow> evaluate_loop ps s action r True
      else evaluate_loop ps s action r has_allow)"

definition evaluate :: "PolicyEngine \<Rightarrow> Subject \<Rightarrow> Action \<Rightarrow> Resource \<Rightarrow> AuthzDecision" where
  "evaluate ps s action r =
     (if user_id s = ''root'' then Allowed else evaluate_loop ps s action r False)"

section \<open>The boundary (authorization.rs)\<close>

record AuthorizationProvider =
  ap_authorize :: "Subject \<Rightarrow> Action \<Rightarrow> Resource \<Rightarrow> AuthzDecision"
  ap_collection_attributes :: "string \<Rightarrow> string \<Rightarrow> (string, string) hashmap"

datatype AuthorizationError = MissingSubject | SystemDatabase | AccessDenied "string option"

definition authz_error_text :: "AuthorizationError \<Rightarrow> string" where
  "authz_error_text e =
     (case e of
        MissingSubject \<Rightarrow> ''Access denied: authenticated subject required''
      | SystemDatabase \<Rightarrow> ''Access denied: system database is private''
      | AccessDenied (Some name) \<Rightarrow> ''Access denied by policy '' @ quoted name
      | AccessDenied None \<Rightarrow> ''Access denied: no matching policy'')"

definition resource_of :: "AuthorizationProvider \<Rightarrow> string \<Rightarrow> string option \<Rightarrow> Resource" where
  "resource_of provider database coll =
     \<lparr>resource_database = database, resource_collection = coll,
      resource_attributes = (case coll of Some name \<Rightarrow> ap_collection_attributes provider database name | None \<Rightarrow> [])\<rparr>"

definition authorize ::
  "AuthorizationProvider option \<Rightarrow> Subject option \<Rightarrow> Action \<Rightarrow> string \<Rightarrow> string option \<Rightarrow> AuthorizationError + unit" where
  "authorize authorization subject action database coll =
     (if database = ''_system'' then Inl SystemDatabase
      else case authorization of
        None \<Rightarrow> Inr ()
      | Some provider \<Rightarrow>
          (case subject of
             None \<Rightarrow> Inl MissingSubject
           | Some s \<Rightarrow>
               (case ap_authorize provider s action (resource_of provider database coll) of
                  Allowed \<Rightarrow> Inr ()
                | Denied policy \<Rightarrow> Inl (AccessDenied policy))))"

section \<open>Statements (authz.rs)\<close>

definition statement_to_action :: "'q Stmt \<Rightarrow> (Action \<times> string option) option" where
  "statement_to_action stmt =
     (case stmt of
        StSelect s \<Rightarrow>
          Some (ASelect, case sa_source s of
                           DSCollection t \<Rightarrow> Some (tg_collection t)
                         | DSFieldPath t _ _ \<Rightarrow> Some (tg_collection t)
                         | _ \<Rightarrow> None)
      | StInsert i \<Rightarrow> Some (AInsert, Some (in_collection i))
      | StCreate c \<Rightarrow> Some (AInsert, Some (tg_collection (cr_target c)))
      | StUpdate u \<Rightarrow> Some (AUpdate, Some (tg_collection (up_target u)))
      | StUpsert u \<Rightarrow> Some (AUpdate, Some (tg_collection (us_target u)))
      | StDelete d \<Rightarrow>
          Some (ADelete, case de_target d of
                           DelDocument t \<Rightarrow> Some (tg_collection t)
                         | DelEdge src _ _ \<Rightarrow> Some (tg_collection src))
      | StRelate _ \<Rightarrow> Some (ATraverse, None)
      | StDefineCollection _ \<Rightarrow> Some (ACreate, None)
      | StDropCollection _ \<Rightarrow> Some (ADrop, None)
      | StCreateIndex _ \<Rightarrow> Some (ACreate, None)
      | StDropIndex _ \<Rightarrow> Some (ADrop, None)
      | StReindex _ \<Rightarrow> Some (AManage, None)
      | StDefineAnalyzer _ \<Rightarrow> Some (ACreate, None)
      | StDropAnalyzer _ \<Rightarrow> Some (ADrop, None)
      | StCreateUser _ \<Rightarrow> Some (AManage, None)
      | StDropUser _ \<Rightarrow> Some (AManage, None)
      | StAlterUser _ \<Rightarrow> Some (AManage, None)
      | StCreateApiKey _ \<Rightarrow> Some (AManage, None)
      | StDropApiKey _ \<Rightarrow> Some (AManage, None)
      | StCreatePolicy _ \<Rightarrow> Some (AManage, None)
      | StDropPolicy _ \<Rightarrow> Some (AManage, None)
      | StAlterCollectionAttrs _ \<Rightarrow> Some (AManage, None)
      | _ \<Rightarrow> None)"

definition authorize_statement ::
  "AuthorizationProvider option \<Rightarrow> Subject option \<Rightarrow> string \<Rightarrow> 'q Stmt \<Rightarrow> string + unit" where
  "authorize_statement authorization subject database stmt =
     (case statement_to_action stmt of
        None \<Rightarrow> Inr ()
      | Some (action, coll) \<Rightarrow>
          map_err authz_error_text (authorize authorization subject action database coll))"

section \<open>Policies of statements and documents (direct.rs, service.rs)\<close>

definition condition_of_ast :: "PolicyConditionAst \<Rightarrow> Condition" where
  "condition_of_ast c =
     \<lparr>cond_field = pca_field c,
      cond_op = (if pca_op c = ''='' then CEq else if pca_op c = ''!='' then CNeq else if pca_op c = ''IN'' then CIn else CEq),
      cond_value = (if length (pca_values c) = 1 then CSingle (pca_values c ! 0) else CList (pca_values c))\<rparr>"

definition policy_of_ast :: "CreatePolicyAst \<Rightarrow> Policy" where
  "policy_of_ast a =
     \<lparr>policy_name = cp_name a, policy_conditions = map condition_of_ast (cp_conditions a),
      policy_effect = (case cp_effect a of PolicyAllow \<Rightarrow> EffAllow | PolicyDeny \<Rightarrow> EffDeny)\<rparr>"

definition condition_to_value :: "Condition \<Rightarrow> Value" where
  "condition_to_value c =
     (let obj = hm_insert ''op'' (VString (case cond_op c of CEq \<Rightarrow> ''eq'' | CNeq \<Rightarrow> ''neq'' | CIn \<Rightarrow> ''in''))
                  (hm_insert ''field'' (VString (cond_field c)) [])
      in VObject (case cond_value c of
                    CSingle v \<Rightarrow> hm_insert ''value'' (VString v) obj
                  | CList vs \<Rightarrow> hm_insert ''values'' (VArray (map VString vs)) obj))"

definition policy_to_document :: "Policy \<Rightarrow> document" where
  "policy_to_document p =
     \<lparr>doc_id = ''policies:'' @ policy_name p,
      doc_fields =
        hm_insert ''conditions'' (VArray (map condition_to_value (policy_conditions p)))
          (hm_insert ''effect'' (VString (case policy_effect p of EffAllow \<Rightarrow> ''allow'' | EffDeny \<Rightarrow> ''deny''))
            (hm_insert ''name'' (VString (policy_name p)) []))\<rparr>"

definition condition_op_of :: "fields \<Rightarrow> string + ConditionOp" where
  "condition_op_of obj =
     (case hm_get obj ''op'' of
        Some (VString s) \<Rightarrow>
          if s = ''eq'' then Inr CEq else if s = ''neq'' then Inr CNeq else if s = ''in'' then Inr CIn
          else Inl (''invalid condition op: '' @ quoted s)
      | _ \<Rightarrow> Inl (''condition missing '' @ quoted ''op''))"

definition condition_value_of :: "fields \<Rightarrow> string + ConditionValue" where
  "condition_value_of obj =
     (case hm_get obj ''value'' of
        Some (VString v) \<Rightarrow> Inr (CSingle v)
      | _ \<Rightarrow>
          (case hm_get obj ''values'' of
             Some (VArray vs) \<Rightarrow>
               and_then (collect_results (\<lambda>v. case v of VString s \<Rightarrow> Inr s
                                                     | _ \<Rightarrow> Inl (''condition '' @ quoted ''values'' @ '' must contain strings'')) vs)
                 (\<lambda>list. Inr (CList list))
           | _ \<Rightarrow> Inl (''condition missing '' @ quoted ''value'' @ '' or '' @ quoted ''values'')))"

definition value_to_condition :: "Value \<Rightarrow> string + Condition" where
  "value_to_condition item =
     (case item of
        VObject obj \<Rightarrow>
          (case hm_get obj ''field'' of
             Some (VString field) \<Rightarrow>
               and_then (condition_op_of obj) (\<lambda>oper.
               and_then (condition_value_of obj) (\<lambda>v.
                 Inr \<lparr>cond_field = field, cond_op = oper, cond_value = v\<rparr>))
           | _ \<Rightarrow> Inl (''condition missing '' @ quoted ''field''))
      | _ \<Rightarrow> Inl ''condition must be an object'')"

definition document_to_policy :: "document \<Rightarrow> string + Policy" where
  "document_to_policy d =
     (case hm_get (doc_fields d) ''name'' of
        Some (VString name) \<Rightarrow>
          and_then (case hm_get (doc_fields d) ''effect'' of
                      Some (VString s) \<Rightarrow>
                        if s = ''allow'' then Inr EffAllow else if s = ''deny'' then Inr EffDeny
                        else Inl (''invalid effect: '' @ quoted s)
                    | _ \<Rightarrow> Inl (''missing or invalid '' @ quoted ''effect'' @ '' field'')) (\<lambda>effect.
          and_then (case hm_get (doc_fields d) ''conditions'' of
                      Some (VArray arr) \<Rightarrow> collect_results value_to_condition arr
                    | Some _ \<Rightarrow> Inl (quoted ''conditions'' @ '' must be an array'')
                    | None \<Rightarrow> Inr []) (\<lambda>conditions.
            Inr \<lparr>policy_name = name, policy_conditions = conditions, policy_effect = effect\<rparr>))
      | _ \<Rightarrow> Inl (''missing or invalid '' @ quoted ''name'' @ '' field''))"

text \<open>The service answers with its engine and the attributes it has stored.\<close>

definition service_provider :: "PolicyEngine \<Rightarrow> (string \<Rightarrow> string \<Rightarrow> (string, string) hashmap) \<Rightarrow> AuthorizationProvider" where
  "service_provider ps attrs = \<lparr>ap_authorize = evaluate ps, ap_collection_attributes = attrs\<rparr>"

section \<open>Deny wins\<close>

definition some_matches :: "Effect \<Rightarrow> PolicyEngine \<Rightarrow> Subject \<Rightarrow> Action \<Rightarrow> Resource \<Rightarrow> bool" where
  "some_matches effect ps s action r \<longleftrightarrow> (\<exists>p \<in> set ps. policy_effect p = effect \<and> policy_matches p s action r)"

lemma some_matches_simps [simp]:
  "\<not> some_matches effect [] s action r"
  "some_matches effect (p # ps) s action r \<longleftrightarrow>
     policy_effect p = effect \<and> policy_matches p s action r \<or> some_matches effect ps s action r"
  by (auto simp: some_matches_def)

lemma evaluate_loop_Allowed:
  "evaluate_loop ps s action r has_allow = Allowed \<longleftrightarrow>
     (has_allow \<or> some_matches EffAllow ps s action r) \<and> \<not> some_matches EffDeny ps s action r"
  by (induction ps arbitrary: has_allow) (auto split: Effect.split)

lemma evaluate_Allowed:
  "evaluate ps s action r = Allowed \<longleftrightarrow>
     user_id s = ''root'' \<or> some_matches EffAllow ps s action r \<and> \<not> some_matches EffDeny ps s action r"
  by (simp add: evaluate_def evaluate_loop_Allowed)

text \<open>The first policy that denies is reported.\<close>

lemma evaluate_loop_Denied:
  "evaluate_loop ps s action r has_allow = Denied (Some name) \<Longrightarrow>
     \<exists>p \<in> set ps. policy_name p = name \<and> policy_effect p = EffDeny \<and> policy_matches p s action r"
  by (induction ps arbitrary: has_allow) (auto split: if_splits Effect.splits)

text \<open>What the query layer relies on of a provider: the superuser passes, and everyone else needs a
  permission that nothing forbids.\<close>

locale authorization_provider =
  fixes provider :: AuthorizationProvider
    and allows denies :: "Subject \<Rightarrow> Action \<Rightarrow> Resource \<Rightarrow> bool"
  assumes decides: "ap_authorize provider s action r = Allowed \<longleftrightarrow>
    user_id s = ''root'' \<or> allows s action r \<and> \<not> denies s action r"
begin

definition may :: "Subject \<Rightarrow> Action \<Rightarrow> string \<Rightarrow> string option \<Rightarrow> bool" where
  "may s action database coll \<longleftrightarrow>
     user_id s = ''root'' \<or>
     allows s action (resource_of provider database coll) \<and> \<not> denies s action (resource_of provider database coll)"

lemma authorize_iff:
  "authorize (Some provider) subject action database coll = Inr () \<longleftrightarrow>
     database \<noteq> ''_system'' \<and> (\<exists>s. subject = Some s \<and> may s action database coll)"
proof (cases subject)
  case (Some s)
  then show ?thesis
    by (simp add: authorize_def may_def decides [symmetric] split: AuthzDecision.split)
qed (simp add: authorize_def)

lemma authorize_statement_iff:
  "authorize_statement (Some provider) subject database stmt = Inr () \<longleftrightarrow>
     (case statement_to_action stmt of
        None \<Rightarrow> True
      | Some (action, coll) \<Rightarrow> database \<noteq> ''_system'' \<and> (\<exists>s. subject = Some s \<and> may s action database coll))"
  by (cases "statement_to_action stmt")
    (auto simp: authorize_statement_def authorize_iff [symmetric] map_err_def split: sum.splits)

end

interpretation policy_provider: authorization_provider
  "service_provider ps attrs" "some_matches EffAllow ps" "some_matches EffDeny ps" for ps attrs
  by unfold_locales (simp add: service_provider_def evaluate_Allowed)

text \<open>C38: A statement passes the query boundary of a server with policies exactly when it needs no
  permission, or the database is not the private one, there is a subject, and the subject is root or
  some policy allows its action on its collection while none denies it, in whatever order they are.\<close>

theorem statement_access:
  "authorize_statement (Some (service_provider ps attrs)) subject database stmt = Inr () \<longleftrightarrow>
     (case statement_to_action stmt of
        None \<Rightarrow> True
      | Some (action, coll) \<Rightarrow>
          database \<noteq> ''_system'' \<and>
          (\<exists>s. subject = Some s \<and>
             (user_id s = ''root'' \<or>
              some_matches EffAllow ps s action (resource_of (service_provider ps attrs) database coll) \<and>
              \<not> some_matches EffDeny ps s action (resource_of (service_provider ps attrs) database coll))))"
  unfolding policy_provider.authorize_statement_iff policy_provider.may_def ..

section \<open>Stored policies\<close>

lemma value_to_condition_inverse: "value_to_condition (condition_to_value c) = Inr c"
proof -
  have "collect_results (\<lambda>v. case v of VString s \<Rightarrow> Inr s | _ \<Rightarrow> Inl e) (map VString vs) = Inr vs" for e :: string and vs
    by (induction vs) simp_all
  then show ?thesis
    by (cases c; cases "cond_value c"; cases "cond_op c")
      (simp_all add: value_to_condition_def condition_to_value_def condition_op_of_def condition_value_of_def Let_def)
qed

text \<open>C39: A policy that is stored as a document is loaded again as the same policy.\<close>

theorem policy_document_roundtrip: "document_to_policy (policy_to_document p) = Inr p"
proof -
  have "collect_results value_to_condition (map condition_to_value cs) = Inr cs" for cs
    by (induction cs) (simp_all add: value_to_condition_inverse)
  then show ?thesis
    by (cases p; cases "policy_effect p") (simp_all add: document_to_policy_def policy_to_document_def)
qed

section \<open>What the boundary lets through\<close>

text \<open>A statement without an action is not checked at all: no subject and the private database are
  enough for LET, EXPLAIN and control flow, whatever statements and subqueries they contain.\<close>

lemma unchecked_statements:
  "authorize_statement authorization None ''_system'' (StLet a) = Inr ()"
  "authorize_statement authorization None ''_system'' (StExpr e) = Inr ()"
  "authorize_statement authorization None ''_system'' (StExplain analyze st) = Inr ()"
  by (simp_all add: authorize_statement_def statement_to_action_def)

text \<open>Of a SELECT only the source is checked: the subqueries of its projection and its filter may read any
  collection, and for a source that is an expression no collection is named at all.\<close>

lemma subqueries_unchecked:
  "authorize_statement authorization subject database (StSelect (s\<lparr>sa_projection := projection, sa_filter := filter_expr\<rparr>)) =
     authorize_statement authorization subject database (StSelect s)"
  "statement_to_action (StSelect (s\<lparr>sa_source := DSExpr e\<rparr>)) = Some (ASelect, None)"
  by (simp_all add: authorize_statement_def statement_to_action_def)

text \<open>A list of one value becomes a single value, with which IN never matches; several values never
  match an equality. A policy with such a condition has no effect, even if it denies.\<close>

lemma single_in_never_matches:
  assumes "pca_op c = ''IN''" "length (pca_values c) = 1"
  shows "\<not> condition_matches (condition_of_ast c) s action r"
  using assms by (simp add: condition_matches_def condition_of_ast_def Let_def)

lemma several_equal_never_matches:
  assumes "pca_op c = ''=''" "length (pca_values c) \<noteq> 1"
  shows "\<not> condition_matches (condition_of_ast c) s action r"
  using assms by (simp add: condition_matches_def condition_of_ast_def Let_def)

lemma single_in_policy_ineffective:
  assumes "c \<in> set (cp_conditions a)" "pca_op c = ''IN''" "length (pca_values c) = 1"
  shows "\<not> policy_matches (policy_of_ast a) s action r"
  using assms single_in_never_matches [OF assms(2,3)]
  by (auto simp: policy_matches_def policy_of_ast_def list_all_iff)

end
