(* ===== verification/Error_Reports.thy ===== *)
theory Error_Reports
  imports Eval
begin

text \<open>
  How errors are reported: the texts, codes and classes of \<open>error/mod.rs\<close>, \<open>query/error.rs\<close>,
  \<open>schema/error.rs\<close> and \<open>auth/error.rs\<close>, and \<open>BatchError\<close> of \<open>query/result.rs\<close>. Internal errors are
  reported without their text, which is logged only. Panics are not reported, so their texts and codes
  here have no counterpart in the code. Parse errors end a query before it becomes a batch.
\<close>

section \<open>Texts\<close>

definition did_you_mean :: "string list \<Rightarrow> string" where
  "did_you_mean suggestions =
     (if suggestions = [] then [] else ''. Did you mean: '' @ intersperse_str '', '' suggestions @ ''?'')"

fun bind_error_text :: "BindError \<Rightarrow> string" where
  "bind_error_text (UnknownCollection name suggestions) = ''unknown collection: '' @ quoted name @ did_you_mean suggestions"
| "bind_error_text (UnknownField coll field suggestions) =
     ''unknown field '' @ quoted field @ '' in collection '' @ quoted coll @ did_you_mean suggestions"
| "bind_error_text (TypeMismatch field expected got) =
     ''type mismatch for field '' @ quoted field @ '': expected '' @ expected @ '', got '' @ got"
| "bind_error_text (RequiredFieldMissing coll field) =
     ''required field '' @ quoted field @ '' is missing in collection '' @ quoted coll"
| "bind_error_text (RequiredFieldNull coll field) =
     ''required field '' @ quoted field @ '' cannot be null in collection '' @ quoted coll"
| "bind_error_text (NestedError path error) = ''error at '' @ quoted path @ '': '' @ bind_error_text error"
| "bind_error_text (ArrayElementError field index error) =
     ''error in '' @ quoted (field @ ''['' @ nat_to_string index @ '']'') @ '': '' @ bind_error_text error"
| "bind_error_text (DuplicateFieldName coll field) =
     ''duplicate field name '' @ quoted field @ '' in collection '' @ quoted coll"
| "bind_error_text (DefaultValueTypeMismatch coll field field_type default_type) =
     ''default value type mismatch for field '' @ quoted field @ '' in collection '' @ quoted coll
       @ '': field is '' @ field_type @ '', default is '' @ default_type"
| "bind_error_text (UnknownFunction namespace name) = ''Unknown function: '' @ namespace @ ''::'' @ name"
| "bind_error_text (InvalidAggregateArg func reason) = ''Invalid argument for '' @ func @ '': '' @ reason"
| "bind_error_text MixedAggregateAndFields = ''Cannot mix aggregate functions with plain fields without GROUP''"
| "bind_error_text (InvalidGroupField field) =
     ''Field '' @ quoted field @ '' must appear in GROUP clause or be used in an aggregate function''"
| "bind_error_text (ArityMismatch func expected got) =
     ''Function '' @ func @ '' expects '' @ nat_to_string expected @ '' argument(s), got '' @ nat_to_string got"
| "bind_error_text ParentRefOutsideSubquery = ''$parent reference can only be used inside a subquery in SELECT list''"
| "bind_error_text (ConstantCalledAsFunction namespace name) =
     namespace @ ''::'' @ name @ '' is a constant, not a function - use without parentheses''"
| "bind_error_text (FunctionUsedAsConstant namespace name) =
     namespace @ ''::'' @ name @ '' is a function - must be called with parentheses''"
| "bind_error_text (UnknownConstant namespace name suggestions) =
     ''unknown constant: '' @ namespace @ ''::'' @ name @ did_you_mean (map (\<lambda>s. namespace @ ''::'' @ s) suggestions)"
| "bind_error_text (UndefinedVariable name) = ''undefined variable: $'' @ name"
| "bind_error_text (ArgumentTypeMismatch func param expected got) =
     ''type mismatch for parameter '' @ quoted param @ '' of function '' @ func @ '': expected '' @ expected @ '', got '' @ got"
| "bind_error_text FtsMixedOperators =
     ''cannot mix simple FTS operator (@@) with named FTS operator (@:name@) in the same query''"
| "bind_error_text (FtsDuplicateOperatorName name) =
     ''duplicate FTS operator name: '' @ quoted name @ '' is used more than once''"
| "bind_error_text (FtsUnknownScoreName name) =
     ''score('' @ quoted name @ '') references an FTS operator name that doesn'' @ [CHR 0x27] @ ''t exist in the query''"
| "bind_error_text (NameTooLong kind name max_length) =
     kind @ '' name '' @ quoted name @ '' exceeds maximum length of '' @ nat_to_string max_length @ '' characters''"
| "bind_error_text (InvalidName kind reason) = ''invalid '' @ kind @ '' name: '' @ reason"
| "bind_error_text (DuplicateIndexName coll index) =
     ''duplicate index name '' @ quoted index @ '' in collection '' @ quoted coll"
| "bind_error_text (IndexFieldNotFound coll index field) =
     ''index '' @ quoted index @ '' in collection '' @ quoted coll @ '' references unknown field '' @ quoted field"
| "bind_error_text (InvalidIndexConfig coll index reason) =
     ''invalid configuration for index '' @ quoted index @ '' in collection '' @ quoted coll @ '': '' @ reason"

definition storage_error_text :: "StorageError \<Rightarrow> string" where
  "storage_error_text e =
     (case e of
        Fjall m \<Rightarrow> ''storage error: '' @ m | Serialization m \<Rightarrow> ''serialization error: '' @ m
      | Conflict m \<Rightarrow> ''conflict: '' @ m | Index m \<Rightarrow> ''index error: '' @ m | Io m \<Rightarrow> ''io error: '' @ m
      | NotFound m \<Rightarrow> ''not found: '' @ m | AlreadyExists m \<Rightarrow> ''already exists: '' @ m
      | InvalidOperation m \<Rightarrow> ''invalid operation: '' @ m | CollectionNotLoaded m \<Rightarrow> ''collection not loaded: '' @ m
      | IndexLookupFailed m \<Rightarrow> ''index lookup failed: '' @ m | BackendNotFound m \<Rightarrow> ''backend not found: '' @ m
      | InvalidConfig m \<Rightarrow> ''invalid configuration: '' @ m | TransactionFailed m \<Rightarrow> ''transaction failed: '' @ m
      | OtherError m \<Rightarrow> m | StoragePanic m \<Rightarrow> m)"

definition execute_error_text :: "ExecuteError \<Rightarrow> string" where
  "execute_error_text e =
     (case e of
        ENotFound m \<Rightarrow> ''Document not found: '' @ m
      | EAlreadyExists m \<Rightarrow> ''Document already exists: '' @ m
      | EInvalidId m \<Rightarrow> ''Invalid document ID: '' @ m
      | EInvalidOperation m \<Rightarrow> ''Invalid operation: '' @ m
      | EStorage s \<Rightarrow> ''Storage error: '' @ storage_error_text s
      | ETransactionNotSupported m \<Rightarrow> ''Transaction statement '' @ m @ '' must be handled at session layer''
      | ECollectionNotEmpty m \<Rightarrow> ''Collection not empty: '' @ m @ '' (use CASCADE to force drop)''
      | ECollectionNotFound m \<Rightarrow> ''Collection not found: '' @ m
      | EDdlNotAllowedInTransaction \<Rightarrow> ''DDL statements are not allowed inside transactions''
      | ESessionRequired \<Rightarrow> ''Session required for transaction operations''
      | ESessionAccessDenied \<Rightarrow> ''session access denied''
      | ESessionDatabaseMismatch \<Rightarrow> ''session belongs to a different database''
      | ESessionExpired \<Rightarrow> ''session is unknown, expired, or no longer active''
      | ETransactionConflict \<Rightarrow> ''transaction conflict''
      | ESchemaValidation b \<Rightarrow> ''Schema validation error: '' @ bind_error_text b
      | EIndexAlreadyExists c f \<Rightarrow> ''Index already exists on '' @ c @ ''('' @ f @ '')''
      | EIndexNotFound c f \<Rightarrow> ''Index not found on '' @ c @ ''('' @ f @ '')''
      | EUniqueViolation field v \<Rightarrow> ''Unique constraint violation: '' @ field @ '' = '' @ v
      | EQueryTimeout m \<Rightarrow> ''Query timeout: exceeded '' @ m
      | EServerDeadlineExceeded \<Rightarrow> ''operation exceeded the server DB deadline''
      | ENotYetImplemented m \<Rightarrow> ''Not yet implemented: '' @ m
      | EInternal m \<Rightarrow> ''Internal error: '' @ m
      | EOperatorNotInitialized m \<Rightarrow> ''Operator not initialized: '' @ m
      | EUndefinedVariable m \<Rightarrow> ''Undefined variable: $'' @ m
      | EOverflow m \<Rightarrow> ''Arithmetic overflow in '' @ m
      | EUnexpectedExpression m \<Rightarrow> ''Unexpected expression in eval: '' @ m
      | EEdgeTypeUndefined m \<Rightarrow> ''Edge type not defined: '' @ m
      | EInvalidEncoding m \<Rightarrow> ''Invalid encoding: '' @ m
      | ETypeError expected got oper \<Rightarrow> ''Type error: expected '' @ expected @ '', got '' @ got @ '' in '' @ oper
      | EDivisionByZero \<Rightarrow> ''Division by zero''
      | EArityMismatch func expected got \<Rightarrow>
          ''Function '' @ func @ '' expects '' @ expected @ '' argument(s), got '' @ nat_to_string got
      | ESubqueryColumnCount expected got \<Rightarrow>
          ''Subquery must return exactly '' @ nat_to_string expected @ '' column(s), got '' @ nat_to_string got
      | EInvalidGroupSelect m \<Rightarrow> ''SELECT with GROUP: field '' @ quoted m @ '' must be a GROUP field or an aggregate''
      | EAnalyzerNotFound m \<Rightarrow> ''Analyzer not found: '' @ m
      | EParentDepthExceeded requested available \<Rightarrow>
          ''Cannot access parent at depth '' @ nat_to_string requested @ '': only '' @ nat_to_string available
            @ '' parent level(s) available''
      | EUnknownFunction m \<Rightarrow> ''Unknown function: '' @ m
      | EPanic m \<Rightarrow> m)"

section \<open>Codes\<close>

fun bind_code :: "BindError \<Rightarrow> string" where
  "bind_code (NestedError _ error) = bind_code error"
| "bind_code (ArrayElementError _ _ error) = bind_code error"
| "bind_code e =
     (case e of
        UnknownCollection _ _ \<Rightarrow> ''SDB-QB001'' | UnknownField _ _ _ \<Rightarrow> ''SDB-QB002'' | TypeMismatch _ _ _ \<Rightarrow> ''SDB-QB003''
      | RequiredFieldMissing _ _ \<Rightarrow> ''SDB-QB004'' | RequiredFieldNull _ _ \<Rightarrow> ''SDB-QB005''
      | DuplicateFieldName _ _ \<Rightarrow> ''SDB-QB008'' | DefaultValueTypeMismatch _ _ _ _ \<Rightarrow> ''SDB-QB009''
      | UnknownFunction _ _ \<Rightarrow> ''SDB-QB010'' | InvalidAggregateArg _ _ \<Rightarrow> ''SDB-QB011''
      | MixedAggregateAndFields \<Rightarrow> ''SDB-QB012'' | InvalidGroupField _ \<Rightarrow> ''SDB-QB013'' | ArityMismatch _ _ _ \<Rightarrow> ''SDB-QB014''
      | ParentRefOutsideSubquery \<Rightarrow> ''SDB-QB015'' | ConstantCalledAsFunction _ _ \<Rightarrow> ''SDB-QB016''
      | FunctionUsedAsConstant _ _ \<Rightarrow> ''SDB-QB017'' | UnknownConstant _ _ _ \<Rightarrow> ''SDB-QB018''
      | UndefinedVariable _ \<Rightarrow> ''SDB-QB019'' | ArgumentTypeMismatch _ _ _ _ \<Rightarrow> ''SDB-QB020''
      | FtsMixedOperators \<Rightarrow> ''SDB-QB021'' | FtsDuplicateOperatorName _ \<Rightarrow> ''SDB-QB022''
      | FtsUnknownScoreName _ \<Rightarrow> ''SDB-QB023'' | NameTooLong _ _ _ \<Rightarrow> ''SDB-QB024'' | InvalidName _ _ \<Rightarrow> ''SDB-QB025''
      | DuplicateIndexName _ _ \<Rightarrow> ''SDB-QB026'' | IndexFieldNotFound _ _ _ \<Rightarrow> ''SDB-QB027''
      | InvalidIndexConfig _ _ _ \<Rightarrow> ''SDB-QB028'' | _ \<Rightarrow> [])"

definition storage_code :: "StorageError \<Rightarrow> string" where
  "storage_code e =
     (case e of
        Fjall _ \<Rightarrow> ''SDB-ST001'' | Serialization _ \<Rightarrow> ''SDB-ST002'' | Conflict _ \<Rightarrow> ''SDB-ST003'' | Index _ \<Rightarrow> ''SDB-ST004''
      | Io _ \<Rightarrow> ''SDB-ST005'' | NotFound _ \<Rightarrow> ''SDB-ST006'' | AlreadyExists _ \<Rightarrow> ''SDB-ST007''
      | InvalidOperation _ \<Rightarrow> ''SDB-ST008'' | CollectionNotLoaded _ \<Rightarrow> ''SDB-ST010'' | IndexLookupFailed _ \<Rightarrow> ''SDB-ST011''
      | BackendNotFound _ \<Rightarrow> ''SDB-ST012'' | InvalidConfig _ \<Rightarrow> ''SDB-ST013'' | TransactionFailed _ \<Rightarrow> ''SDB-ST014''
      | OtherError _ \<Rightarrow> ''SDB-ST009'' | StoragePanic _ \<Rightarrow> [])"

definition execute_code :: "ExecuteError \<Rightarrow> string" where
  "execute_code e =
     (case e of
        ENotFound _ \<Rightarrow> ''SDB-QE001'' | EAlreadyExists _ \<Rightarrow> ''SDB-QE002'' | EInvalidId _ \<Rightarrow> ''SDB-QE003''
      | EInvalidOperation _ \<Rightarrow> ''SDB-QE035'' | EStorage s \<Rightarrow> storage_code s | ETransactionNotSupported _ \<Rightarrow> ''SDB-QE005''
      | ECollectionNotEmpty _ \<Rightarrow> ''SDB-QE006'' | ECollectionNotFound _ \<Rightarrow> ''SDB-QE007''
      | EDdlNotAllowedInTransaction \<Rightarrow> ''SDB-QE008'' | ESessionRequired \<Rightarrow> ''SDB-QE009'' | ESessionAccessDenied \<Rightarrow> ''SDB-QE031''
      | ESessionDatabaseMismatch \<Rightarrow> ''SDB-QE032'' | ETransactionConflict \<Rightarrow> ''SDB-QE033'' | ESessionExpired \<Rightarrow> ''SDB-QE034''
      | ESchemaValidation b \<Rightarrow> bind_code b | EIndexAlreadyExists _ _ \<Rightarrow> ''SDB-QE011'' | EIndexNotFound _ _ \<Rightarrow> ''SDB-QE012''
      | EUniqueViolation _ _ \<Rightarrow> ''SDB-QE013'' | EQueryTimeout _ \<Rightarrow> ''SDB-QE014'' | EServerDeadlineExceeded \<Rightarrow> ''SDB-SV003''
      | ENotYetImplemented _ \<Rightarrow> ''SDB-QE015'' | EInternal _ \<Rightarrow> ''SDB-QE016'' | EOperatorNotInitialized _ \<Rightarrow> ''SDB-QE025''
      | EUndefinedVariable _ \<Rightarrow> ''SDB-QE026'' | EOverflow _ \<Rightarrow> ''SDB-QE027'' | EUnexpectedExpression _ \<Rightarrow> ''SDB-QE028''
      | EEdgeTypeUndefined _ \<Rightarrow> ''SDB-QE029'' | EInvalidEncoding _ \<Rightarrow> ''SDB-QE030'' | ETypeError _ _ _ \<Rightarrow> ''SDB-QE017''
      | EDivisionByZero \<Rightarrow> ''SDB-QE018'' | EArityMismatch _ _ _ \<Rightarrow> ''SDB-QE019'' | ESubqueryColumnCount _ _ \<Rightarrow> ''SDB-QE020''
      | EInvalidGroupSelect _ \<Rightarrow> ''SDB-QE021'' | EAnalyzerNotFound _ \<Rightarrow> ''SDB-QE022'' | EParentDepthExceeded _ _ \<Rightarrow> ''SDB-QE023''
      | EUnknownFunction _ \<Rightarrow> ''SDB-QE024'' | EPanic _ \<Rightarrow> [])"

section \<open>Classes and safe messages (error/mod.rs)\<close>

datatype ErrorClass =
    ClsInvalidArgument | ClsNotFound | ClsAlreadyExists | ClsAborted | ClsTimeout | ClsUnauthorized
  | ClsForbidden | ClsFailedPrecondition | ClsUnimplemented | ClsInternal

definition storage_error_class :: "StorageError \<Rightarrow> ErrorClass" where
  "storage_error_class e =
     (case e of
        NotFound _ \<Rightarrow> ClsNotFound | AlreadyExists _ \<Rightarrow> ClsAlreadyExists | Conflict _ \<Rightarrow> ClsAborted
      | InvalidOperation _ \<Rightarrow> ClsInvalidArgument | InvalidConfig _ \<Rightarrow> ClsInvalidArgument | _ \<Rightarrow> ClsInternal)"

definition execute_error_class :: "ExecuteError \<Rightarrow> ErrorClass" where
  "execute_error_class e =
     (case e of
        ENotFound _ \<Rightarrow> ClsNotFound | ECollectionNotFound _ \<Rightarrow> ClsNotFound | EIndexNotFound _ _ \<Rightarrow> ClsNotFound
      | EAnalyzerNotFound _ \<Rightarrow> ClsNotFound
      | EAlreadyExists _ \<Rightarrow> ClsAlreadyExists | EIndexAlreadyExists _ _ \<Rightarrow> ClsAlreadyExists
      | EUniqueViolation _ _ \<Rightarrow> ClsAlreadyExists
      | ETransactionConflict \<Rightarrow> ClsAborted
      | EQueryTimeout _ \<Rightarrow> ClsTimeout | EServerDeadlineExceeded \<Rightarrow> ClsTimeout
      | ESessionAccessDenied \<Rightarrow> ClsForbidden
      | ESessionDatabaseMismatch \<Rightarrow> ClsFailedPrecondition | ESessionExpired \<Rightarrow> ClsFailedPrecondition
      | ENotYetImplemented _ \<Rightarrow> ClsUnimplemented
      | EStorage s \<Rightarrow> storage_error_class s
      | EInternal _ \<Rightarrow> ClsInternal | EOperatorNotInitialized _ \<Rightarrow> ClsInternal | EUnexpectedExpression _ \<Rightarrow> ClsInternal
      | _ \<Rightarrow> ClsInvalidArgument)"

datatype QueryError = QExecute ExecuteError | QBind BindError

definition query_error_class :: "QueryError \<Rightarrow> ErrorClass" where
  "query_error_class e = (case e of QBind _ \<Rightarrow> ClsInvalidArgument | QExecute x \<Rightarrow> execute_error_class x)"

definition query_code :: "QueryError \<Rightarrow> string" where
  "query_code e = (case e of QExecute x \<Rightarrow> execute_code x | QBind b \<Rightarrow> bind_code b)"

definition safe_storage_error_message :: "StorageError \<Rightarrow> string" where
  "safe_storage_error_message e = (if storage_error_class e = ClsInternal then ''Internal error'' else storage_error_text e)"

definition safe_execute_error_message :: "ExecuteError \<Rightarrow> string" where
  "safe_execute_error_message e = (if execute_error_class e = ClsInternal then ''Internal error'' else execute_error_text e)"

definition safe_query_error_message :: "QueryError \<Rightarrow> string" where
  "safe_query_error_message e =
     (case e of QExecute x \<Rightarrow> safe_execute_error_message x | QBind b \<Rightarrow> ''Bind error: '' @ bind_error_text b)"

definition class_to_http_status :: "ErrorClass \<Rightarrow> nat" where
  "class_to_http_status cls =
     (case cls of
        ClsInvalidArgument \<Rightarrow> 400 | ClsNotFound \<Rightarrow> 404 | ClsAlreadyExists \<Rightarrow> 409 | ClsAborted \<Rightarrow> 409
      | ClsFailedPrecondition \<Rightarrow> 409 | ClsTimeout \<Rightarrow> 504 | ClsUnauthorized \<Rightarrow> 401 | ClsForbidden \<Rightarrow> 403
      | ClsUnimplemented \<Rightarrow> 501 | ClsInternal \<Rightarrow> 500)"

datatype AuthError = AuAlreadyExists string string | AuNotFound string string | AuInvalid string | AuInternal string

definition auth_error_text :: "AuthError \<Rightarrow> string" where
  "auth_error_text e =
     (case e of
        AuAlreadyExists resource name \<Rightarrow> resource @ '' '' @ quoted name @ '' already exists''
      | AuNotFound resource name \<Rightarrow> resource @ '' '' @ quoted name @ '' not found''
      | AuInvalid m \<Rightarrow> m
      | AuInternal m \<Rightarrow> m)"

definition auth_error_class :: "AuthError \<Rightarrow> ErrorClass" where
  "auth_error_class e =
     (case e of AuAlreadyExists _ _ \<Rightarrow> ClsAlreadyExists | AuNotFound _ _ \<Rightarrow> ClsNotFound | AuInvalid _ \<Rightarrow> ClsInvalidArgument
      | AuInternal _ \<Rightarrow> ClsInternal)"

definition auth_code :: "AuthError \<Rightarrow> string" where
  "auth_code e =
     (case e of AuAlreadyExists _ _ \<Rightarrow> ''SDB-AC005'' | AuNotFound _ _ \<Rightarrow> ''SDB-AC004'' | AuInvalid _ \<Rightarrow> ''SDB-AC003''
      | AuInternal _ \<Rightarrow> ''SDB-AC006'')"

definition auth_safe_message :: "AuthError \<Rightarrow> string" where
  "auth_safe_message e = (case e of AuInternal _ \<Rightarrow> ''Internal error'' | _ \<Rightarrow> auth_error_text e)"

section \<open>Errors of batches (result.rs)\<close>

record BatchError =
  be_statement_index :: nat
  be_code :: string
  be_class :: ErrorClass
  be_message :: string

definition from_storage_error :: "nat \<Rightarrow> StorageError \<Rightarrow> BatchError" where
  "from_storage_error i e =
     \<lparr>be_statement_index = i, be_code = storage_code e, be_class = storage_error_class e,
      be_message = safe_storage_error_message e\<rparr>"

definition from_execute_error :: "nat \<Rightarrow> ExecuteError \<Rightarrow> BatchError" where
  "from_execute_error i e =
     (case e of
        EStorage s \<Rightarrow> from_storage_error i s
      | _ \<Rightarrow> \<lparr>be_statement_index = i, be_code = execute_code e, be_class = execute_error_class e,
              be_message = safe_execute_error_message e\<rparr>)"

definition from_query_error :: "nat \<Rightarrow> QueryError \<Rightarrow> BatchError" where
  "from_query_error i e =
     (case e of
        QExecute x \<Rightarrow> from_execute_error i x
      | _ \<Rightarrow> \<lparr>be_statement_index = i, be_code = query_code e, be_class = query_error_class e,
              be_message = safe_query_error_message e\<rparr>)"

definition from_auth_error :: "nat \<Rightarrow> AuthError \<Rightarrow> BatchError" where
  "from_auth_error i e =
     \<lparr>be_statement_index = i, be_code = auth_code e, be_class = auth_error_class e, be_message = auth_safe_message e\<rparr>"

definition batch_error_public :: "nat \<Rightarrow> string \<Rightarrow> ErrorClass \<Rightarrow> string \<Rightarrow> BatchError" where
  "batch_error_public i code cls message =
     \<lparr>be_statement_index = i, be_code = code, be_class = cls, be_message = message\<rparr>"

definition batch_error_internal :: "nat \<Rightarrow> string \<Rightarrow> string \<Rightarrow> BatchError" where
  "batch_error_internal i code source = batch_error_public i code ClsInternal ''Internal error''"

section \<open>Redaction\<close>

named_theorems error_defs

lemmas [error_defs] = from_storage_error_def from_execute_error_def from_query_error_def from_auth_error_def
  batch_error_public_def batch_error_internal_def

definition redacted :: "BatchError \<Rightarrow> bool" where
  "redacted e \<longleftrightarrow> (be_class e = ClsInternal \<longrightarrow> be_message e = ''Internal error'')"

lemma batch_errors_redacted [simp]:
  "redacted (from_storage_error i se)" "redacted (from_execute_error i ee)" "redacted (from_query_error i qe)"
  "redacted (from_auth_error i ae)" "redacted (batch_error_internal i code source)"
  "redacted (batch_error_public i code ClsForbidden message)" "redacted (batch_error_public i code ClsInvalidArgument message)"
proof -
  show se: "redacted (from_storage_error i se)" for se
    by (simp add: redacted_def error_defs safe_storage_error_message_def)
  show ee: "redacted (from_execute_error i ee)" for ee
    by (cases ee) (use se in \<open>simp_all add: redacted_def error_defs safe_execute_error_message_def\<close>)
  show "redacted (from_query_error i qe)"
    by (cases qe) (use ee in \<open>simp_all add: redacted_def from_query_error_def query_error_class_def\<close>)
  show "redacted (from_auth_error i ae)"
    by (cases ae) (simp_all add: redacted_def error_defs auth_error_class_def auth_safe_message_def)
qed (simp_all add: redacted_def error_defs)

lemma batch_error_index [simp]:
  "be_statement_index (from_storage_error i se) = i" "be_statement_index (from_execute_error i ee) = i"
  "be_statement_index (from_query_error i qe) = i" "be_statement_index (from_auth_error i ae) = i"
  "be_statement_index (batch_error_internal i code source) = i" "be_statement_index (batch_error_public i code cls message) = i"
  by (simp_all add: error_defs split: ExecuteError.split QueryError.split)

end
