(* ===== verification/Batch.thy ===== *)
theory Batch
  imports Documents "HOL-Library.Product_Lexorder"
begin

text \<open>
  Atomic batches of writes (\<open>storage/database/batch.rs\<close>, \<open>WriteOp\<close> of \<open>storage/mod.rs\<close>) and the edge
  operations of \<open>storage/database.rs\<close> that check the endpoints of an edge.

  A batch is prepared first: the operations on each document are collapsed into one mutation, and
  the unique constraints of every mutation are claimed. Then one transaction writes the documents,
  the edges to create and the edges to delete, in this order.
\<close>

section \<open>Operations and prepared batches\<close>

datatype WriteOp =
    InsertDoc document
  | CreateDoc document
  | DeleteDoc string string
  | InsertEdge Edge
  | DeleteEdge string string string

record PreparedDocInsert =
  ins_doc :: document
  ins_old_doc :: "document option"
  ins_collection :: string
  ins_create_only :: bool

record PreparedDocDelete =
  del_collection :: string
  del_key :: string
  del_old_doc :: "document option"

record PreparedBatch =
  doc_inserts :: "PreparedDocInsert list"
  doc_deletes :: "PreparedDocDelete list"
  edge_inserts :: "Edge list"
  edge_deletes :: "(string \<times> string \<times> string) list"

record PendingDocMutation =
  mut_collection :: string
  mut_key :: string
  initial_doc :: "document option"
  current_doc :: "document option"
  mut_create_only :: bool

definition constraint_old_doc :: "PreparedDocInsert \<Rightarrow> document option" where
  "constraint_old_doc i = (if ins_create_only i then None else ins_old_doc i)"

definition batch_new :: PreparedBatch where
  "batch_new = \<lparr>doc_inserts = [], doc_deletes = [], edge_inserts = [], edge_deletes = []\<rparr>"

definition batch_rollback_constraints :: "('ks, 'd, 'x) db_env \<Rightarrow> PreparedBatch \<Rightarrow> ('ks, 'x, 'z, unit) db_op" where
  "batch_rollback_constraints X b =
     try_do (for_each (doc_inserts b) (\<lambda>i. with_state (\<lambda>s.
       if ins_collection i \<in> set (collections s)
       then rollback_constraints X (ins_collection i) (get_indexes s (ins_collection i)) (constraint_old_doc i) (Some (ins_doc i))
       else ok ()))) (\<lambda>_.
     for_each (doc_deletes b) (\<lambda>d. with_state (\<lambda>s.
       case del_old_doc d of
         Some old_doc \<Rightarrow>
           if del_collection d \<in> set (collections s)
           then rollback_constraints X (del_collection d) (get_indexes s (del_collection d)) (Some old_doc) None
           else ok ()
       | None \<Rightarrow> ok ())))"

section \<open>Preparation\<close>

text \<open>The mutation of a document: the one that exists, or a new one that starts with the stored document.\<close>

type_synonym mutations = "PendingDocMutation list \<times> (string \<times> string, nat) hashmap"

definition mutation_position ::
  "('ks, 'd, 'x) db_env \<Rightarrow> string \<Rightarrow> string \<Rightarrow> mutations \<Rightarrow> ('ks, 'x, 'z) database_scheme \<Rightarrow> StorageError + nat \<times> mutations" where
  "mutation_position X coll k ms s =
     (case ms of (mutations, positions) \<Rightarrow>
        case hm_get positions (coll, k) of
          Some p \<Rightarrow> Inr (p, mutations, positions)
        | None \<Rightarrow>
            and_then (documents_get X coll k s) (\<lambda>stored.
              let p = length mutations in
              Inr (p,
                mutations @ [\<lparr>mut_collection = coll, mut_key = k, initial_doc = stored, current_doc = stored, mut_create_only = False\<rparr>],
                hm_insert (coll, k) p positions)))"

definition put_mutation :: "bool \<Rightarrow> document \<Rightarrow> PendingDocMutation \<Rightarrow> PendingDocMutation" where
  "put_mutation create_only doc m =
     m\<lparr>mut_create_only := mut_create_only m \<or> create_only \<and> initial_doc m = None, current_doc := Some doc\<rparr>"

definition collapse_put ::
  "('ks, 'd, 'x) db_env \<Rightarrow> bool \<Rightarrow> document \<Rightarrow> mutations \<Rightarrow> ('ks, 'x, 'z, mutations) db_op" where
  "collapse_put X create_only doc ms =
     try_do (get_or_create_collection X (collection doc)) (\<lambda>_. with_state (\<lambda>s.
     try_do (lift_result (mutation_position X (collection doc) (key doc) ms s)) (\<lambda>(p, mutations, positions).
       if create_only \<and> current_doc (mutations ! p) \<noteq> None then fail (AlreadyExists (doc_id doc))
       else ok (mutations[p := put_mutation create_only doc (mutations ! p)], positions))))"

definition collapse_delete :: "('ks, 'd, 'x) db_env \<Rightarrow> string \<Rightarrow> string \<Rightarrow> mutations \<Rightarrow> ('ks, 'x, 'z, mutations) db_op" where
  "collapse_delete X coll k ms = with_state (\<lambda>s.
     try_do (lift_result (mutation_position X coll k ms s)) (\<lambda>(p, mutations, positions).
       ok (mutations[p := (mutations ! p)\<lparr>current_doc := None\<rparr>], positions)))"

fun collapse_ops ::
  "('ks, 'd, 'x) db_env \<Rightarrow> WriteOp list \<Rightarrow> PreparedBatch \<Rightarrow> mutations \<Rightarrow> ('ks, 'x, 'z, PreparedBatch \<times> mutations) db_op" where
  "collapse_ops X [] b ms = ok (b, ms)"
| "collapse_ops X (InsertDoc doc # ops) b ms = try_do (collapse_put X False doc ms) (collapse_ops X ops b)"
| "collapse_ops X (CreateDoc doc # ops) b ms = try_do (collapse_put X True doc ms) (collapse_ops X ops b)"
| "collapse_ops X (DeleteDoc coll k # ops) b ms = try_do (collapse_delete X coll k ms) (collapse_ops X ops b)"
| "collapse_ops X (InsertEdge e # ops) b ms = collapse_ops X ops (b\<lparr>edge_inserts := edge_inserts b @ [e]\<rparr>) ms"
| "collapse_ops X (DeleteEdge from label to # ops) b ms =
     collapse_ops X ops (b\<lparr>edge_deletes := edge_deletes b @ [(from, label, to)]\<rparr>) ms"

definition prepare_doc_insert ::
  "('ks, 'd, 'x) db_env \<Rightarrow> PreparedBatch \<Rightarrow> document \<Rightarrow> bool \<Rightarrow> ('ks, 'x, 'z, PreparedBatch) db_op" where
  "prepare_doc_insert X b doc create_only = (let coll = collection doc; k = key doc in
     or_undo (batch_rollback_constraints X b) (
       try_do (get_or_create_collection X coll) (\<lambda>_. with_state (\<lambda>s.
       try_do (lift_result (documents_get X coll k s)) (\<lambda>old_doc.
       if coll \<notin> set (collections s) then fail (OtherError ''Collection not found after creation'')
       else
         let indexes = get_indexes s coll; c_old_doc = (if create_only then None else old_doc) in
         try_do (or_undo (rollback_constraints X coll indexes c_old_doc (Some doc)) (
           try_do (claim_constraints X coll indexes c_old_doc (Some doc)) (\<lambda>_. with_state (\<lambda>s.
             lift_result (validate_hnsw_vectors X coll doc s))))) (\<lambda>_.
           ok (b\<lparr>doc_inserts := doc_inserts b @
             [\<lparr>ins_doc = doc, ins_old_doc = old_doc, ins_collection = coll, ins_create_only = create_only\<rparr>]\<rparr>)))))))"

definition prepare_doc_delete ::
  "('ks, 'd, 'x) db_env \<Rightarrow> PreparedBatch \<Rightarrow> string \<Rightarrow> string \<Rightarrow> ('ks, 'x, 'z, PreparedBatch) db_op" where
  "prepare_doc_delete X b coll k =
     or_undo (batch_rollback_constraints X b) (with_state (\<lambda>s.
       try_do (lift_result (documents_get X coll k s)) (\<lambda>old_doc.
       try_do (case old_doc of
           Some old \<Rightarrow>
             if coll \<in> set (collections s)
             then or_undo (rollback_constraints X coll (get_indexes s coll) (Some old) None)
               (on_locks coll (remove_for_document (ee_libs X) (db_hash X) (eng_ks (ee_engine X)) (get_indexes s coll) old))
             else ok ()
         | None \<Rightarrow> ok ()) (\<lambda>_.
         ok (b\<lparr>doc_deletes := doc_deletes b @ [\<lparr>del_collection = coll, del_key = k, del_old_doc = old_doc\<rparr>]\<rparr>)))))"

fun prepare_mutations ::
  "('ks, 'd, 'x) db_env \<Rightarrow> PendingDocMutation list \<Rightarrow> PreparedBatch \<Rightarrow> ('ks, 'x, 'z, PreparedBatch) db_op" where
  "prepare_mutations X [] b = ok b"
| "prepare_mutations X (m # ms) b =
     try_do (case current_doc m of
         Some doc \<Rightarrow> prepare_doc_insert X b doc (mut_create_only m)
       | None \<Rightarrow>
           if initial_doc m \<noteq> None then prepare_doc_delete X b (mut_collection m) (mut_key m) else ok b)
       (prepare_mutations X ms)"

definition prepare :: "('ks, 'd, 'x) db_env \<Rightarrow> WriteOp list \<Rightarrow> ('ks, 'x, 'z, PreparedBatch) db_op" where
  "prepare X ops =
     try_do (collapse_ops X ops batch_new ([], [])) (\<lambda>(b, mutations, _). prepare_mutations X mutations b)"

section \<open>Edges with existing endpoints\<close>

definition validate_edge_endpoints_in_tx ::
  "('ks, 'd, 'x) db_env \<Rightarrow> tx \<Rightarrow> Edge \<Rightarrow> ('ks, 'x, 'z) database_scheme \<Rightarrow> StorageError + unit" where
  "validate_edge_endpoints_in_tx X tx e s =
     (case split_once (CHR '':'') (edge_from e) of
        None \<Rightarrow> Inl (Conflict (''Invalid document ID format: '' @ quoted (edge_from e)))
      | Some (from_collection, from_key) \<Rightarrow>
      case split_once (CHR '':'') (edge_to e) of
        None \<Rightarrow> Inl (Conflict (''Invalid document ID format: '' @ quoted (edge_to e)))
      | Some (to_collection, to_key) \<Rightarrow>
          if from_collection \<notin> set (collections s)
          then Inl (NotFound (''Collection '' @ quoted from_collection @ '' does not exist''))
          else if to_collection \<notin> set (collections s)
          then Inl (NotFound (''Collection '' @ quoted to_collection @ '' does not exist''))
          else
            and_then (tx_get (ee_engine X) tx (exists_ks from_collection) (as_bytes from_key) s) (\<lambda>from_exists.
            if from_exists = None then Inl (NotFound (''Source document '' @ quoted (edge_from e) @ '' does not exist''))
            else
              and_then (tx_get (ee_engine X) tx (exists_ks to_collection) (as_bytes to_key) s) (\<lambda>to_exists.
              if to_exists = None then Inl (NotFound (''Target document '' @ quoted (edge_to e) @ '' does not exist''))
              else Inr ())))"

definition create_edge_validated :: "('ks, 'd, 'x) db_env \<Rightarrow> tx_env \<Rightarrow> Edge \<Rightarrow> ('ks, 'x, 'z, unit) db_op" where
  "create_edge_validated X T e =
     try_do (begin_tx T) (\<lambda>_. with_state (\<lambda>s.
     try_do (lift_result (validate_edge_endpoints_in_tx X [] e s)) (\<lambda>_.
     try_do (edge_create_in_tx (edge_env.truncate X) [] e) (\<lambda>tx.
     try_do (commit X T tx) (\<lambda>committed.
       if committed then ok () else fail (NotFound ''Document was deleted during edge creation''))))))"

definition delete_edge :: "('ks, 'd, 'x) db_env \<Rightarrow> string \<Rightarrow> string \<Rightarrow> string \<Rightarrow> ('ks, 'x, 'z, bool) db_op" where
  "delete_edge X from label to = try_do (edge_delete (edge_env.truncate X) from label to) (\<lambda>count. ok (count > 0))"

section \<open>Commit\<close>

fun write_doc_inserts :: "('ks, 'd, 'x) db_env \<Rightarrow> PreparedDocInsert list \<Rightarrow> tx \<Rightarrow> ('ks, 'x, 'z, tx) db_op" where
  "write_doc_inserts X [] tx = ok tx"
| "write_doc_inserts X (i # is) tx = (let coll = ins_collection i; k = as_bytes (key (ins_doc i)) in
     with_state (\<lambda>s.
     if coll \<notin> set (collections s) then fail (CollectionNotLoaded ''collection not found'')
     else
       try_do (if ins_create_only i
               then try_do (lift_result (tx_get (ee_engine X) tx (docs_ks coll) k s)) (\<lambda>found.
                 if found \<noteq> None then fail (AlreadyExists (doc_id (ins_doc i))) else ok ())
               else ok ()) (\<lambda>_.
       try_do (lift_result (enc (db_docs X) (ins_doc i))) (\<lambda>bytes.
       try_do (update_btree_in_tx X
         (tx @ (docs_ks coll, k, Some bytes) # exists_marker coll (key (ins_doc i)) (ins_old_doc i = None))
         coll (ins_old_doc i) (Some (ins_doc i))) (\<lambda>tx. with_state (\<lambda>s.
       try_do (lift_result (write_external_index_job X tx coll (key (ins_doc i)) (ins_old_doc i) (Some (ins_doc i)) s)) (\<lambda>tx.
         write_doc_inserts X is tx)))))))"

fun write_doc_deletes :: "('ks, 'd, 'x) db_env \<Rightarrow> PreparedDocDelete list \<Rightarrow> tx \<Rightarrow> ('ks, 'x, 'z, tx) db_op" where
  "write_doc_deletes X [] tx = ok tx"
| "write_doc_deletes X (d # ds) tx = (let coll = del_collection d; k = as_bytes (del_key d) in
     with_state (\<lambda>s.
     if coll \<notin> set (collections s) then write_doc_deletes X ds tx
     else
       let tx = tx @ [(docs_ks coll, k, None), (exists_ks coll, k, None)] in
       case del_old_doc d of
         None \<Rightarrow> write_doc_deletes X ds tx
       | Some old_doc \<Rightarrow>
           try_do (update_btree_in_tx X tx coll (Some old_doc) None) (\<lambda>tx. with_state (\<lambda>s.
           try_do (lift_result (write_external_index_job X tx coll (del_key d) (Some old_doc) None s)) (\<lambda>tx.
             write_doc_deletes X ds tx)))))"

fun write_edge_inserts :: "('ks, 'd, 'x) db_env \<Rightarrow> Edge list \<Rightarrow> tx \<Rightarrow> ('ks, 'x, 'z, tx) db_op" where
  "write_edge_inserts X [] tx = ok tx"
| "write_edge_inserts X (e # es) tx = with_state (\<lambda>s.
     try_do (lift_result (validate_edge_endpoints_in_tx X tx e s)) (\<lambda>_.
     try_do (edge_create_in_tx (edge_env.truncate X) tx e) (write_edge_inserts X es)))"

fun write_edge_deletes :: "('ks, 'd, 'x) db_env \<Rightarrow> (string \<times> string \<times> string) list \<Rightarrow> tx \<Rightarrow> ('ks, 'x, 'z, tx) db_op" where
  "write_edge_deletes X [] tx = ok tx"
| "write_edge_deletes X ((from, label, to) # es) tx = with_state (\<lambda>s.
     try_do (lift_result (edge_delete_in_tx (edge_env.truncate X) tx from label to s)) (\<lambda>(tx, _).
       write_edge_deletes X es tx))"

definition apply_post_commit_indexes :: "('ks, 'd, 'x) db_env \<Rightarrow> tx_env \<Rightarrow> PreparedBatch \<Rightarrow> ('ks, 'x, 'z, unit) db_op" where
  "apply_post_commit_indexes X T b = with_state (\<lambda>s.
     try_apply_and_complete_external_index_jobs X T
       (map (\<lambda>i. \<lparr>job_collection = ins_collection i, job_key = key (ins_doc i), job_old_doc = ins_old_doc i, job_new_doc = Some (ins_doc i)\<rparr>)
          (filter (\<lambda>i. has_external_indexes s (ins_collection i)) (doc_inserts b)) @
        map (\<lambda>d. \<lparr>job_collection = del_collection d, job_key = del_key d, job_old_doc = del_old_doc d, job_new_doc = None\<rparr>)
          (filter (\<lambda>d. has_external_indexes s (del_collection d) \<and> del_old_doc d \<noteq> None) (doc_deletes b))))"

definition batch_commit :: "('ks, 'd, 'x) db_env \<Rightarrow> tx_env \<Rightarrow> tx_env \<Rightarrow> PreparedBatch \<Rightarrow> ('ks, 'x, 'z, unit) db_op" where
  "batch_commit X T T' b =
     or_undo (batch_rollback_constraints X b) (
       try_do (begin_tx T) (\<lambda>_.
       try_do (write_doc_inserts X (doc_inserts b) []) (\<lambda>tx.
       try_do (write_doc_deletes X (doc_deletes b) tx) (\<lambda>tx.
       try_do (write_edge_inserts X (edge_inserts b) tx) (\<lambda>tx.
       try_do (write_edge_deletes X (edge_deletes b) tx) (\<lambda>tx.
       try_do (commit X T tx) (\<lambda>committed.
         if committed then apply_post_commit_indexes X T' b
         else fail (Conflict ''batch write conflict''))))))))"

definition atomic_write_batch :: "('ks, 'd, 'x) db_env \<Rightarrow> tx_env \<Rightarrow> tx_env \<Rightarrow> WriteOp list \<Rightarrow> ('ks, 'x, 'z, unit) db_op" where
  "atomic_write_batch X T T' ops =
     (if ops = [] then ok () else try_do (prepare X ops) (batch_commit X T T'))"

end
