(* ===== verification/Batch_Invariant.thy ===== *)
theory Batch_Invariant
  imports Batch Document_Properties
begin

text \<open>
  The meaning of a batch as a sequence of operations on a map of documents, and the steps of its
  preparation and its transaction: collapsing the operations into mutations, claiming the unique
  constraints, and the writes of documents, markers and indexes.
\<close>

declare split_paired_All [simp del] split_paired_Ex [simp del]

section \<open>The meaning of a batch\<close>

text \<open>All documents of a database by collection and key, and what the operations mean one after
  another. The error of a rejected creation is the identifier of the document.\<close>

type_synonym all_docs = "string \<times> string \<rightharpoonup> document"

definition doc_at :: "document \<Rightarrow> string \<times> string" where
  "doc_at d = (collection d, key d)"

fun run_op :: "WriteOp \<Rightarrow> all_docs \<Rightarrow> string + all_docs" where
  "run_op (InsertDoc d) A = Inr (A(doc_at d \<mapsto> d))"
| "run_op (CreateDoc d) A = (if A (doc_at d) \<noteq> None then Inl (doc_id d) else Inr (A(doc_at d \<mapsto> d)))"
| "run_op (DeleteDoc coll k) A = Inr (A((coll, k) := None))"
| "run_op (InsertEdge e) A = Inr A"
| "run_op (DeleteEdge from label to) A = Inr A"

fun run_ops :: "WriteOp list \<Rightarrow> all_docs \<Rightarrow> string + all_docs" where
  "run_ops [] A = Inr A"
| "run_ops (w # ops) A = and_then (run_op w A) (run_ops ops)"

fun op_docs :: "WriteOp \<Rightarrow> document list" where
  "op_docs (InsertDoc d) = [d]"
| "op_docs (CreateDoc d) = [d]"
| "op_docs _ = []"

definition docs_in :: "all_docs \<Rightarrow> string \<Rightarrow> documents" where
  "docs_in A coll = (\<lambda>k. A (coll, k))"

lemma docs_in_upd: "docs_in (A((c, k) := v)) coll = (if c = coll then (docs_in A coll)(k := v) else docs_in A coll)"
  by (auto simp: docs_in_def)

text \<open>Every collection that is loaded is consistent, there are no other documents, and every document
  is stored under its own identifier.\<close>

definition represents_docs ::
  "('ks, 'd, 'x) db_env \<Rightarrow> ('ks \<Rightarrow> bytes \<rightharpoonup> bytes) \<Rightarrow> all_docs \<Rightarrow> ('ks, 'x, 'z) database_scheme \<Rightarrow> bool" where
  "represents_docs X content A s \<longleftrightarrow>
     (\<forall>c\<in>set (collections s). consistent X content c (docs_in A c) s) \<and>
     (\<forall>i d. A i = Some d \<longrightarrow> doc_at d = i \<and> fst i \<in> set (collections s))"

section \<open>Collapsing the operations\<close>

definition mut_id :: "PendingDocMutation \<Rightarrow> string \<times> string" where
  "mut_id m = (mut_collection m, mut_key m)"

text \<open>The mutations lead from \<open>A\<close> to \<open>A'\<close>, one for each document that is touched.\<close>

definition muts_ok :: "all_docs \<Rightarrow> mutations \<Rightarrow> all_docs \<Rightarrow> bool" where
  "muts_ok A ms A' \<longleftrightarrow> (case ms of (muts, positions) \<Rightarrow>
     distinct (map mut_id muts) \<and>
     (\<forall>i p. hm_get positions i = Some p \<longleftrightarrow> p < length muts \<and> mut_id (muts ! p) = i) \<and>
     (\<forall>m\<in>set muts. initial_doc m = A (mut_id m) \<and> (mut_create_only m \<longrightarrow> initial_doc m = None) \<and>
        (\<forall>d. current_doc m = Some d \<longrightarrow> doc_at d = mut_id m) \<and> current_doc m = A' (mut_id m)) \<and>
     (\<forall>i. i \<notin> mut_id ` set muts \<longrightarrow> A' i = A i))"

lemma muts_ok_Nil: "muts_ok A ([], []) A"
  by (simp add: muts_ok_def)

lemma muts_okD:
  assumes "muts_ok A (muts, positions) A'" "m \<in> set muts"
  shows "initial_doc m = A (mut_id m)" "mut_create_only m \<longrightarrow> initial_doc m = None"
    "current_doc m = Some d \<longrightarrow> doc_at d = mut_id m" "current_doc m = A' (mut_id m)"
  using bspec [OF conjunct1 [OF conjunct2 [OF conjunct2 [OF assms(1) [unfolded muts_ok_def case_prod_conv]]]] assms(2)] by auto

lemma mutation_position_ok:
  assumes ms: "muts_ok A ms A'" and pos: "mutation_position X c k ms s = Inr (p, muts, positions)"
    and get: "\<And>r. documents_get X c k s = Inr r \<Longrightarrow> r = A (c, k)" and wf: "\<And>d. A (c, k) = Some d \<Longrightarrow> doc_at d = (c, k)"
  shows "muts_ok A (muts, positions) A' \<and> p < length muts \<and> mut_id (muts ! p) = (c, k)"
proof -
  obtain muts0 pos0 where ms0: "ms = (muts0, pos0)" by fastforce
  show ?thesis
  proof (cases "hm_get pos0 (c, k)")
    case (Some q)
    then show ?thesis using pos ms by (auto simp: ms0 mutation_position_def muts_ok_def)
  next
    case None
    have lookup: "hm_get pos0 i = Some q \<longleftrightarrow> q < length muts0 \<and> mut_id (muts0 ! q) = i" for i q
      using ms by (simp add: ms0 muts_ok_def)
    obtain r where r: "documents_get X c k s = Inr r" "p = length muts0" "positions = hm_insert (c, k) p pos0"
      and muts: "muts = muts0 @ [\<lparr>mut_collection = c, mut_key = k, initial_doc = r, current_doc = r, mut_create_only = False\<rparr>]"
      using pos None by (auto simp: ms0 mutation_position_def and_then_Inr_iff Let_def)
    have fresh: "(c, k) \<notin> mut_id ` set muts0"
      using lookup [of "(c, k)"] None by (metis (no_types, lifting) image_iff in_set_conv_nth option.distinct(1))
    then have "A' (c, k) = A (c, k)" using ms by (simp add: ms0 muts_ok_def)
    moreover have "hm_get positions i = Some q \<longleftrightarrow> q < length muts \<and> mut_id (muts ! q) = i" for i q
    proof (cases "i = (c, k)")
      case True
      have "mut_id (muts0 ! q) \<noteq> (c, k)" if "q < length muts0" using fresh that by (metis image_eqI nth_mem)
      then show ?thesis using True r muts by (auto simp: nth_append mut_id_def less_Suc_eq)
    next
      case False
      then show ?thesis using lookup [of i q] r(2,3) muts by (auto simp: nth_append mut_id_def less_Suc_eq)
    qed
    ultimately show ?thesis
      using ms r(2) get [OF r(1)] wf fresh by (auto simp: ms0 muts_ok_def muts mut_id_def)
  qed
qed

lemma muts_ok_update:
  assumes ms: "muts_ok A (muts, positions) A'" and p: "p < length muts" "mut_id (muts ! p) = i"
    and m': "mut_id m' = i" "initial_doc m' = initial_doc (muts ! p)" "mut_create_only m' \<Longrightarrow> initial_doc m' = None"
      "\<And>d. current_doc m' = Some d \<Longrightarrow> doc_at d = i"
  shows "muts_ok A (muts[p := m'], positions) (A'(i := current_doc m'))"
proof -
  have ids: "map mut_id (muts[p := m']) = map mut_id muts" using p m'(1) by (metis list_update_id map_update nth_map)
  have same: "mut_id (muts[p := m'] ! q) = mut_id (muts ! q)" if "q < length muts" for q
    using ids that by (metis length_list_update nth_map)
  have changed: "m = m' \<or> m \<in> set muts \<and> mut_id m \<noteq> i" if m: "m \<in> set (muts[p := m'])" for m
  proof -
    obtain q where q: "q < length muts" "m = muts[p := m'] ! q" using m by (auto simp: in_set_conv_nth)
    have "q = p" if "mut_id (muts ! q) = i"
      using ms p q(1) that by (auto simp: muts_ok_def distinct_conv_nth)
    then show ?thesis using q p by (cases "q = p") auto
  qed
  have "initial_doc (muts ! p) = A i" using muts_okD(1) [OF ms] p by simp
  then have m: "initial_doc m = A (mut_id m) \<and> (mut_create_only m \<longrightarrow> initial_doc m = None) \<and>
        (\<forall>d. current_doc m = Some d \<longrightarrow> doc_at d = mut_id m) \<and> current_doc m = (A'(i := current_doc m')) (mut_id m)"
    if "m \<in> set (muts[p := m'])" for m
    using changed [OF that] m' muts_okD [OF ms, of m] by auto
  have img: "mut_id ` set (muts[p := m']) = mut_id ` set muts" using ids by (metis list.set_map)
  have "i \<in> mut_id ` set muts" using p by auto
  then show ?thesis using ms m same by (simp add: muts_ok_def ids img) (metis (no_types, lifting))
qed

lemma collapse_put_elim:
  assumes "collapse_put X create_only d ms s = (s', Inr ms')"
  shows "get_or_create_collection X (collection d) s = (s', Inr ()) \<and>
    (\<exists>p muts positions. mutation_position X (collection d) (key d) ms s' = Inr (p, muts, positions) \<and>
      (create_only \<longrightarrow> current_doc (muts ! p) = None) \<and> ms' = (muts[p := put_mutation create_only d (muts ! p)], positions))"
proof -
  obtain s1 where s1: "get_or_create_collection X (collection d) s = (s1, Inr ())"
    using assms by (auto simp: collapse_put_def try_do_Inr_iff)
  show ?thesis
  proof (cases "mutation_position X (collection d) (key d) ms s1")
    case (Inr r)
    obtain p muts positions where "r = (p, muts, positions)" by (cases r) auto
    then show ?thesis using assms s1 Inr by (simp add: collapse_put_def split: if_splits)
  qed (use assms s1 in \<open>simp add: collapse_put_def\<close>)
qed

lemma collapse_delete_elim:
  assumes "collapse_delete X c k ms s = (s', Inr ms')"
  shows "s' = s \<and> (\<exists>p muts positions. mutation_position X c k ms s = Inr (p, muts, positions) \<and>
    ms' = (muts[p := (muts ! p)\<lparr>current_doc := None\<rparr>], positions))"
proof (cases "mutation_position X c k ms s")
  case (Inr r)
  obtain p muts positions where "r = (p, muts, positions)" by (cases r) auto
  then show ?thesis using assms Inr by (simp add: collapse_delete_def)
qed (use assms in \<open>simp add: collapse_delete_def\<close>)

context db_engine
begin

lemma documents_get_rep:
  assumes "represents_docs X content A s" "documents_get X c k s = Inr r"
  shows "r = A (c, k)"
proof (cases "c \<in> set (collections s)")
  case True
  then show ?thesis using documents_get_ok [OF _ assms(2)] assms(1) by (auto simp: represents_docs_def docs_in_def)
next
  case False
  then have "r = None" using assms(2) by (simp add: documents_get_def docs_keyspace_def)
  moreover have "A (c, k) = None" using assms(1) False unfolding represents_docs_def by (metis fst_conv not_None_eq)
  ultimately show ?thesis by simp
qed

lemma collapse_put_ok:
  assumes rep: "represents_docs X content A s" and coll: "collection d \<in> set (collections s)" and ms: "muts_ok A ms A'"
    and res: "collapse_put X create_only d ms s = (s', Inr ms')"
  shows "s' = s \<and> (create_only \<longrightarrow> A' (doc_at d) = None) \<and> muts_ok A ms' (A'(doc_at d \<mapsto> d))"
proof -
  have s': "s' = s" using collapse_put_elim [OF res] get_or_create_existing [OF coll, of X] by simp
  obtain p muts positions where pos: "mutation_position X (collection d) (key d) ms s = Inr (p, muts, positions)"
    and free: "create_only \<longrightarrow> current_doc (muts ! p) = None"
    and ms': "ms' = (muts[p := put_mutation create_only d (muts ! p)], positions)"
    using collapse_put_elim [OF res [unfolded s']] by blast
  have wf: "doc_at d' = (collection d, key d)" if "A (collection d, key d) = Some d'" for d'
    using rep that by (simp add: represents_docs_def)
  have ok: "muts_ok A (muts, positions) A'" "p < length muts" "mut_id (muts ! p) = doc_at d"
    using mutation_position_ok [OF ms pos documents_get_rep [OF rep] wf] by (simp_all add: doc_at_def)
  have m: "current_doc (muts ! p) = A' (doc_at d)" "mut_create_only (muts ! p) \<longrightarrow> initial_doc (muts ! p) = None"
    using muts_okD [OF ok(1) nth_mem [OF ok(2)]] ok(3) by simp_all
  have "muts_ok A (muts[p := put_mutation create_only d (muts ! p)], positions)
      (A'(doc_at d := current_doc (put_mutation create_only d (muts ! p))))"
    by (rule muts_ok_update [OF ok]) (use m(2) ok(3) in \<open>auto simp: put_mutation_def mut_id_def\<close>)
  then show ?thesis using s' free m(1) ms' by (simp add: put_mutation_def)
qed

lemma collapse_delete_ok:
  assumes rep: "represents_docs X content A s" and ms: "muts_ok A ms A'" and res: "collapse_delete X c k ms s = (s', Inr ms')"
  shows "s' = s \<and> muts_ok A ms' (A'((c, k) := None))"
proof -
  obtain p muts positions where pos: "mutation_position X c k ms s = Inr (p, muts, positions)" "s' = s"
    and ms': "ms' = (muts[p := (muts ! p)\<lparr>current_doc := None\<rparr>], positions)"
    using collapse_delete_elim [OF res] by blast
  have wf: "doc_at d' = (c, k)" if "A (c, k) = Some d'" for d' using rep that by (simp add: represents_docs_def)
  have ok: "muts_ok A (muts, positions) A'" "p < length muts" "mut_id (muts ! p) = (c, k)"
    using mutation_position_ok [OF ms pos(1) documents_get_rep [OF rep] wf] by simp_all
  have "mut_create_only (muts ! p) \<longrightarrow> initial_doc (muts ! p) = None" using muts_okD(2) [OF ok(1) nth_mem [OF ok(2)]] .
  then have "muts_ok A (muts[p := (muts ! p)\<lparr>current_doc := None\<rparr>], positions) (A'((c, k) := current_doc ((muts ! p)\<lparr>current_doc := None\<rparr>)))"
    by (intro muts_ok_update [OF ok]) (use ok(3) in \<open>auto simp: mut_id_def\<close>)
  then show ?thesis using pos(2) ms' by simp
qed

text \<open>Collapsing gives the mutations of the sequential meaning, or the batch is rejected.\<close>

lemma collapse_ops_ok:
  assumes "represents_docs X content A s" "\<forall>w\<in>set ops. \<forall>d\<in>set (op_docs w). collection d \<in> set (collections s)"
    and "muts_ok A ms A'" "collapse_ops X ops b ms s = (s', Inr (b', ms'))"
  shows "\<exists>A''. run_ops ops A' = Inr A'' \<and> muts_ok A ms' A'' \<and> s' = s \<and> doc_inserts b' = doc_inserts b \<and>
    doc_deletes b' = doc_deletes b \<and> set (edge_inserts b') = set (edge_inserts b) \<union> {e. InsertEdge e \<in> set ops}"
  using assms
proof (induction ops arbitrary: b ms A')
  case (Cons w ops)
  have ops: "\<forall>w\<in>set ops. \<forall>d\<in>set (op_docs w). collection d \<in> set (collections s)" using Cons.prems(2) by simp
  have put: ?case if w: "w = InsertDoc d \<and> \<not> c \<or> w = CreateDoc d \<and> c" for d c
  proof -
    have coll: "collection d \<in> set (collections s)" using Cons.prems(2) w by auto
    obtain s1 ms1 where 1: "collapse_put X c d ms s = (s1, Inr ms1)" "collapse_ops X ops b ms1 s1 = (s', Inr (b', ms'))"
      using Cons.prems(4) w by (auto simp: try_do_Inr_iff)
    have 2: "s1 = s" "c \<longrightarrow> A' (doc_at d) = None" "muts_ok A ms1 (A'(doc_at d \<mapsto> d))"
      using collapse_put_ok [OF Cons.prems(1) coll Cons.prems(3) 1(1)] by auto
    have "run_ops (w # ops) A' = run_ops ops (A'(doc_at d \<mapsto> d))" "{e. InsertEdge e \<in> set (w # ops)} = {e. InsertEdge e \<in> set ops}"
      using w 2(2) by auto
    then show ?thesis using Cons.IH [OF Cons.prems(1) ops 2(3) 1(2) [unfolded 2(1)]] by (simp only:)
  qed
  show ?case
  proof (cases w)
    case (DeleteDoc c k)
    then obtain s1 ms1 where 1: "collapse_delete X c k ms s = (s1, Inr ms1)" "collapse_ops X ops b ms1 s1 = (s', Inr (b', ms'))"
      using Cons.prems(4) by (auto simp: try_do_Inr_iff)
    have 2: "s1 = s" "muts_ok A ms1 (A'((c, k) := None))"
      using collapse_delete_ok [OF Cons.prems(1,3) 1(1)] by auto
    have "run_ops (w # ops) A' = run_ops ops (A'((c, k) := None))" "{e. InsertEdge e \<in> set (w # ops)} = {e. InsertEdge e \<in> set ops}"
      using DeleteDoc by auto
    then show ?thesis using Cons.IH [OF Cons.prems(1) ops 2(2) 1(2) [unfolded 2(1)]] by (simp only:)
  next
    case (InsertEdge e)
    then show ?thesis
      using Cons.IH [OF Cons.prems(1) ops Cons.prems(3), of "b\<lparr>edge_inserts := edge_inserts b @ [e]\<rparr>"] Cons.prems(4) by auto
  next
    case (DeleteEdge f l t)
    then show ?thesis
      using Cons.IH [OF Cons.prems(1) ops Cons.prems(3), of "b\<lparr>edge_deletes := edge_deletes b @ [(f, l, t)]\<rparr>"] Cons.prems(4) by auto
  qed (use put in auto)
qed auto

end

section \<open>Claiming the constraints\<close>

definition prepared_insert :: "PendingDocMutation \<Rightarrow> PreparedDocInsert" where
  "prepared_insert m = \<lparr>ins_doc = the (current_doc m), ins_old_doc = initial_doc m, ins_collection = mut_collection m,
     ins_create_only = mut_create_only m\<rparr>"

definition prepared_delete :: "PendingDocMutation \<Rightarrow> PreparedDocDelete" where
  "prepared_delete m = \<lparr>del_collection = mut_collection m, del_key = mut_key m, del_old_doc = initial_doc m\<rparr>"

text \<open>A state in which only locks have changed, so that they are those of the documents \<open>A\<close>.\<close>

definition claimed ::
  "('ks, 'd, 'x) db_env \<Rightarrow> ('ks \<Rightarrow> bytes \<rightharpoonup> bytes) \<Rightarrow> all_docs \<Rightarrow> ('ks, 'x, 'z) database_scheme \<Rightarrow> ('ks, 'x, 'z) database_scheme \<Rightarrow> bool" where
  "claimed X content A s0 s \<longleftrightarrow>
     same_except (range ulock_ks) s0 s \<and>
     (\<forall>c\<in>set (collections s). docs_wf X c (docs_in A c) \<and>
        locks_held (ee_libs X) (db_hash X) (get_indexes s c) (ran (docs_in A c)) (content (disk s (ulock_ks c))))"

lemma not_lock_keyspaces [simp]:
  "docs_ks c \<notin> range ulock_ks" "exists_ks c \<notin> range ulock_ks" "idx_ks c n \<notin> range ulock_ks"
  "edge_ks l \<notin> range ulock_ks" "INDEX_JOBS_KEYSPACE \<notin> range ulock_ks"
  by (auto dest: sym)

lemma same_except_get: "same_except N s s' \<Longrightarrow> get_indexes s' c = get_indexes s c"
  by (simp add: same_except_def get_indexes_def)

lemma same_except_mono: "same_except N s s' \<Longrightarrow> N \<subseteq> M \<Longrightarrow> same_except M s s'"
  by (auto simp: same_except_def)

lemma documents_get_same: "same_except N s s' \<Longrightarrow> docs_ks c \<notin> N \<Longrightarrow> documents_get X c k s' = documents_get X c k s"
  by (simp add: same_except_def documents_get_def docs_keyspace_def)

lemma same_except_locks: "same_except (range ulock_ks) s (s\<lparr>disk := (disk s)(ulock_ks c := ks)\<rparr>)"
  by (simp add: same_except_def)

context db_engine
begin

text \<open>One document changes, and with it the locks of its collection.\<close>

lemma claimed_step:
  assumes cl: "claimed X content A s0 s" and new: "\<And>d. new = Some d \<Longrightarrow> key d = k \<and> utf8_valid (as_bytes k) \<and> (\<exists>b. enc (db_docs X) d = Inr b)"
    and held: "locks_held (ee_libs X) (db_hash X) (get_indexes s c) (ran (docs_in A c) - set_option (A (c, k)) \<union> set_option new) (content ks)"
  shows "claimed X content (A((c, k) := new)) s0 (s\<lparr>disk := (disk s)(ulock_ks c := ks)\<rparr>)"
proof -
  let ?s = "s\<lparr>disk := (disk s)(ulock_ks c := ks)\<rparr>"
  have same: "same_except (range ulock_ks) s0 ?s"
    by (rule same_except_trans [OF _ same_except_locks]) (use cl in \<open>simp add: claimed_def\<close>)
  have get: "get_indexes ?s c' = get_indexes s c'" for c' by (simp add: get_indexes_def)
  have "docs_wf X c' (docs_in (A((c, k) := new)) c') \<and>
      locks_held (ee_libs X) (db_hash X) (get_indexes ?s c') (ran (docs_in (A((c, k) := new)) c')) (content (disk ?s (ulock_ks c')))"
    if c': "c' \<in> set (collections s)" for c'
  proof (cases "c' = c")
    case True
    have wf: "docs_wf X c (docs_in A c)" using cl c' True by (simp add: claimed_def)
    have "ran (docs_in (A((c, k) := new)) c) = ran (docs_in A c) - set_option (A (c, k)) \<union> set_option new"
      unfolding docs_in_upd using ran_upd [OF wf, of new k] new by (simp add: docs_in_def)
    moreover have "docs_wf X c (docs_in (A((c, k) := new)) c)"
      unfolding docs_in_upd using docs_wf_upd [OF wf] new by simp
    ultimately show ?thesis using held True get by simp
  next
    case False
    then have "docs_in (A((c, k) := new)) c' = docs_in A c'" by (simp add: docs_in_upd)
    then show ?thesis using cl c' False get by (simp add: claimed_def)
  qed
  then show ?thesis using same by (simp add: claimed_def)
qed

lemma prepare_doc_insert_ok:
  assumes cl: "claimed X content A s0 s" and rep: "represents_docs X content A0 s0" and coll: "collection d \<in> set (collections s0)"
    and same: "A (doc_at d) = A0 (doc_at d)" and create: "create_only \<Longrightarrow> A0 (doc_at d) = None"
    and d: "utf8_valid (as_bytes (key d))" "\<exists>b. enc (db_docs X) d = Inr b"
      "locks_separate (ee_libs X) (db_hash X) (get_indexes s0 (collection d)) (A0 (doc_at d)) (Some d)"
    and res: "prepare_doc_insert X b d create_only s = (s', Inr b')"
  shows "claimed X content (A(doc_at d \<mapsto> d)) s0 s' \<and> b' = b\<lparr>doc_inserts := doc_inserts b @
    [\<lparr>ins_doc = d, ins_old_doc = A0 (doc_at d), ins_collection = collection d, ins_create_only = create_only\<rparr>]\<rparr>"
proof -
  have sm: "same_except (range ulock_ks) s0 s" using cl by (simp add: claimed_def)
  have coll': "collection d \<in> set (collections s)" using coll sm by (simp add: same_except_def)
  obtain old s1 where old: "documents_get X (collection d) (key d) s = Inr old"
    and s1: "claim_constraints X (collection d) (get_indexes s (collection d)) (if create_only then None else old) (Some d) s = (s1, Inr ())"
    and s': "s' = s1" and b': "b' = b\<lparr>doc_inserts := doc_inserts b @
      [\<lparr>ins_doc = d, ins_old_doc = old, ins_collection = collection d, ins_create_only = create_only\<rparr>]\<rparr>"
    using res coll' by (auto simp: prepare_doc_insert_def get_or_create_existing or_undo_Inr try_do_Inr_iff Let_def)
  have old': "old = A0 (doc_at d)"
    unfolding doc_at_def by (rule documents_get_rep [OF rep]) (use old documents_get_same [OF sm, of "collection d" X "key d"] in auto)
  obtain ks where ks: "validate_and_update (ee_libs X) (db_hash X) (eng_ks (ee_engine X)) (get_indexes s (collection d))
      (docs_in A (collection d) (key d)) (Some d) (disk s (ulock_ks (collection d))) = (ks, Inr ())"
    "s1 = s\<lparr>disk := (disk s)(ulock_ks (collection d) := ks)\<rparr>"
    using claim_constraints_ok [OF s1] old' create same by (auto simp: docs_in_def doc_at_def split: if_splits)
  have "docs_wf X (collection d) (docs_in A (collection d))"
    "locks_held (ee_libs X) (db_hash X) (get_indexes s (collection d)) (ran (docs_in A (collection d)))
      (content (disk s (ulock_ks (collection d))))"
    using cl coll' by (simp_all add: claimed_def)
  then have "locks_held (ee_libs X) (db_hash X) (get_indexes s (collection d))
      (ran (docs_in A (collection d)) - set_option (docs_in A (collection d) (key d)) \<union> set_option (Some d)) (content ks)"
    by (rule claimed_locks [where D = "docs_in A (collection d)" and k = "key d", OF _ _ ks(1)]) (use d(3) same same_except_get [OF sm] in \<open>simp_all add: docs_in_def doc_at_def\<close>)
  then have "claimed X content (A((collection d, key d) := Some d)) s0 s1"
    unfolding ks(2) by (intro claimed_step [OF cl]) (use d in \<open>auto simp: docs_in_def\<close>)
  then show ?thesis using s' b' old' by (simp add: doc_at_def)
qed

lemma prepare_doc_delete_ok:
  assumes cl: "claimed X content A s0 s" and rep: "represents_docs X content A0 s0"
    and same: "A (c, k) = A0 (c, k)" "A0 (c, k) = Some old" and res: "prepare_doc_delete X b c k s = (s', Inr b')"
  shows "claimed X content (A((c, k) := None)) s0 s' \<and>
    b' = b\<lparr>doc_deletes := doc_deletes b @ [\<lparr>del_collection = c, del_key = k, del_old_doc = Some old\<rparr>]\<rparr>"
proof -
  have sm: "same_except (range ulock_ks) s0 s" using cl by (simp add: claimed_def)
  have "c \<in> set (collections s0)" using rep same(2) unfolding represents_docs_def by fastforce
  then have coll: "c \<in> set (collections s)" using sm by (simp add: same_except_def)
  obtain r where r: "documents_get X c k s = Inr r" using res by (auto simp: prepare_doc_delete_def or_undo_Inr try_do_Inr_iff)
  have r': "r = Some old" using documents_get_rep [OF rep, of c k r] r documents_get_same [OF sm, of c X k] same(2) by auto
  obtain s1 where s1: "on_locks c (remove_for_document (ee_libs X) (db_hash X) (eng_ks (ee_engine X)) (get_indexes s c) old) s = (s1, Inr ())"
    and s': "s' = s1" and b': "b' = b\<lparr>doc_deletes := doc_deletes b @ [\<lparr>del_collection = c, del_key = k, del_old_doc = Some old\<rparr>]\<rparr>"
    using res r r' coll by (auto simp: prepare_doc_delete_def or_undo_Inr try_do_Inr_iff)
  have "docs_wf X c (docs_in A c)"
    "locks_held (ee_libs X) (db_hash X) (get_indexes s c) (ran (docs_in A c)) (content (disk s (ulock_ks c)))"
    using cl coll by (simp_all add: claimed_def)
  then obtain ks where ks: "s1 = s\<lparr>disk := (disk s)(ulock_ks c := ks)\<rparr>"
    "locks_held (ee_libs X) (db_hash X) (get_indexes s c) (ran (docs_in A c) - set_option (docs_in A c k) \<union> set_option None) (content ks)"
    using remove_constraints_ok [OF _ _ _ s1, of "docs_in A c" k] same by (auto simp: docs_in_def)
  then have "claimed X content (A((c, k) := None)) s0 s1"
    unfolding ks(1) by (intro claimed_step [OF cl]) (auto simp: docs_in_def)
  then show ?thesis using s' b' by simp
qed

end

text \<open>The documents after some mutations.\<close>

definition put_at :: "('a \<Rightarrow> 'i) \<Rightarrow> ('a \<Rightarrow> 'v) \<Rightarrow> 'a \<Rightarrow> ('i \<Rightarrow> 'v) \<Rightarrow> 'i \<Rightarrow> 'v" where
  "put_at f g x A = A(f x := g x)"

definition apply_muts :: "PendingDocMutation list \<Rightarrow> all_docs \<Rightarrow> all_docs" where
  "apply_muts ms A = fold (put_at mut_id current_doc) ms A"

lemma fold_put_other: "i \<notin> f ` set xs \<Longrightarrow> fold (put_at f g) xs A i = A i"
  by (induction xs arbitrary: A) (auto simp: put_at_def)

lemma fold_put_at: "distinct (map f xs) \<Longrightarrow> x \<in> set xs \<Longrightarrow> fold (put_at f g) xs A (f x) = g x"
proof (induction xs arbitrary: A)
  case (Cons y xs)
  show ?case
  proof (cases "x = y")
    case True
    then have "f x \<notin> f ` set xs" using Cons.prems(1) by simp
    then have "fold (put_at f g) xs (put_at f g y A) (f x) = put_at f g y A (f x)" by (rule fold_put_other)
    moreover have "put_at f g y A (f x) = g x" using True by (simp add: put_at_def)
    ultimately show ?thesis by simp
  qed (use Cons in simp)
qed simp

lemma apply_muts_ok: "muts_ok A (muts, positions) A' \<Longrightarrow> apply_muts muts A = A'"
proof (rule ext)
  fix i assume ms: "muts_ok A (muts, positions) A'"
  show "apply_muts muts A i = A' i"
  proof (cases "i \<in> mut_id ` set muts")
    case True
    then obtain m where m: "m \<in> set muts" "i = mut_id m" by auto
    have "distinct (map mut_id muts)" using ms by (simp add: muts_ok_def)
    then have "apply_muts muts A (mut_id m) = current_doc m" unfolding apply_muts_def by (rule fold_put_at [OF _ m(1)])
    then show ?thesis using muts_okD(4) [OF ms m(1)] m(2) by simp
  next
    case False
    then show ?thesis using ms by (simp add: apply_muts_def fold_put_other muts_ok_def)
  qed
qed

text \<open>What the properties assume of the documents of a batch: the keys are text, and a unique lock
  that a document gives up is not one that it claims.\<close>

definition docs_admissible ::
  "('ks, 'd, 'x) db_env \<Rightarrow> ('ks, 'x, 'z) database_scheme \<Rightarrow> all_docs \<Rightarrow> document \<Rightarrow> bool" where
  "docs_admissible X s A d \<longleftrightarrow>
     collection d \<in> set (collections s) \<and> utf8_valid (as_bytes (key d)) \<and> (\<exists>b. enc (db_docs X) d = Inr b) \<and>
     locks_separate (ee_libs X) (db_hash X) (get_indexes s (collection d)) (A (doc_at d)) (Some d)"

context db_engine
begin

lemma prepare_mutations_ok:
  assumes "claimed X content A s0 s" "represents_docs X content A0 s0" "distinct (map mut_id muts)"
    and "\<forall>m\<in>set muts. A (mut_id m) = A0 (mut_id m) \<and> initial_doc m = A0 (mut_id m) \<and> (mut_create_only m \<longrightarrow> initial_doc m = None) \<and>
      (\<forall>d. current_doc m = Some d \<longrightarrow> doc_at d = mut_id m \<and> docs_admissible X s0 A0 d)"
    and "prepare_mutations X muts b s = (s', Inr b')"
  shows "claimed X content (apply_muts muts A) s0 s' \<and>
    doc_inserts b' = doc_inserts b @ map prepared_insert (filter (\<lambda>m. current_doc m \<noteq> None) muts) \<and>
    doc_deletes b' = doc_deletes b @ map prepared_delete (filter (\<lambda>m. current_doc m = None \<and> initial_doc m \<noteq> None) muts) \<and>
    edge_inserts b' = edge_inserts b \<and> edge_deletes b' = edge_deletes b"
  using assms
proof (induction muts arbitrary: A b s)
  case Nil
  then show ?case by (simp add: apply_muts_def)
next
  case (Cons m muts)
  let ?A = "A(mut_id m := current_doc m)"
  have m: "A (mut_id m) = A0 (mut_id m)" "initial_doc m = A0 (mut_id m)" "mut_create_only m \<longrightarrow> initial_doc m = None"
    "\<And>d. current_doc m = Some d \<Longrightarrow> doc_at d = mut_id m \<and> docs_admissible X s0 A0 d"
    using Cons.prems(4) by auto
  obtain s1 b1 where first: "(case current_doc m of
         Some doc \<Rightarrow> prepare_doc_insert X b doc (mut_create_only m)
       | None \<Rightarrow> if initial_doc m \<noteq> None then prepare_doc_delete X b (mut_collection m) (mut_key m) else ok b) s = (s1, Inr b1)"
    and rest: "prepare_mutations X muts b1 s1 = (s', Inr b')"
    using Cons.prems(5) by (auto simp: try_do_Inr_iff)
  have step: "claimed X content ?A s0 s1 \<and>
      doc_inserts b1 = doc_inserts b @ map prepared_insert (filter (\<lambda>m. current_doc m \<noteq> None) [m]) \<and>
      doc_deletes b1 = doc_deletes b @ map prepared_delete (filter (\<lambda>m. current_doc m = None \<and> initial_doc m \<noteq> None) [m]) \<and>
      edge_inserts b1 = edge_inserts b \<and> edge_deletes b1 = edge_deletes b"
  proof (cases "current_doc m")
    case (Some d)
    then have d: "doc_at d = mut_id m" "docs_admissible X s0 A0 d" using m(4) by auto
    have res: "prepare_doc_insert X b d (mut_create_only m) s = (s1, Inr b1)" using first Some by simp
    have "claimed X content (A(doc_at d \<mapsto> d)) s0 s1 \<and> b1 = b\<lparr>doc_inserts := doc_inserts b @
        [\<lparr>ins_doc = d, ins_old_doc = A0 (doc_at d), ins_collection = collection d, ins_create_only = mut_create_only m\<rparr>]\<rparr>"
      by (rule prepare_doc_insert_ok [OF Cons.prems(1,2) _ _ _ _ _ _ res]) (use d m in \<open>auto simp: docs_admissible_def\<close>)
    then show ?thesis using Some d(1) m(2) by (simp add: prepared_insert_def doc_at_def mut_id_def)
  next
    case None
    show ?thesis
    proof (cases "initial_doc m")
      case None': None
      have "?A = A" using None None' m(1,2) by (simp add: fun_upd_idem)
      then show ?thesis using first None None' Cons.prems(1) by simp
    next
      case (Some old)
      then have res: "prepare_doc_delete X b (mut_collection m) (mut_key m) s = (s1, Inr b1)" using first None by simp
      have "claimed X content (A((mut_collection m, mut_key m) := None)) s0 s1 \<and>
        b1 = b\<lparr>doc_deletes := doc_deletes b @ [\<lparr>del_collection = mut_collection m, del_key = mut_key m, del_old_doc = Some old\<rparr>]\<rparr>"
        by (rule prepare_doc_delete_ok [OF Cons.prems(1,2) _ _ res]) (use m Some in \<open>auto simp: mut_id_def\<close>)
      then show ?thesis using None Some by (simp add: prepared_delete_def mut_id_def)
    qed
  qed
  have "?A (mut_id n) = A (mut_id n)" if "n \<in> set muts" for n using Cons.prems(3) that by (auto simp: image_iff)
  then have muts: "\<forall>m\<in>set muts. ?A (mut_id m) = A0 (mut_id m) \<and> initial_doc m = A0 (mut_id m) \<and> (mut_create_only m \<longrightarrow> initial_doc m = None) \<and>
      (\<forall>d. current_doc m = Some d \<longrightarrow> doc_at d = mut_id m \<and> docs_admissible X s0 A0 d)"
    using Cons.prems(4) by (metis list.set_intros(2))
  have "claimed X content (apply_muts muts ?A) s0 s' \<and>
    doc_inserts b' = doc_inserts b1 @ map prepared_insert (filter (\<lambda>m. current_doc m \<noteq> None) muts) \<and>
    doc_deletes b' = doc_deletes b1 @ map prepared_delete (filter (\<lambda>m. current_doc m = None \<and> initial_doc m \<noteq> None) muts) \<and>
    edge_inserts b' = edge_inserts b1 \<and> edge_deletes b' = edge_deletes b1"
    by (rule Cons.IH [where A = ?A, OF conjunct1 [OF step] Cons.prems(2) _ muts rest]) (use Cons.prems(3) in simp)
  then show ?case using step by (simp add: apply_muts_def put_at_def)
qed

end

section \<open>Writing the documents\<close>

text \<open>No two B-tree indexes of the database share a keyspace.\<close>

definition index_keyspaces_distinct :: "('ks, 'x, 'z) database_scheme \<Rightarrow> bool" where
  "index_keyspaces_distinct s \<longleftrightarrow>
     (\<forall>c. index_names_distinct s c) \<and>
     (\<forall>c c' i j. c \<noteq> c' \<longrightarrow> i \<in> set (get_indexes s c) \<longrightarrow> idx_type i = BTree \<longrightarrow>
        j \<in> set (get_indexes s c') \<longrightarrow> idx_type j = BTree \<longrightarrow> idx_ks c (idx_name i) \<noteq> idx_ks c' (idx_name j))"

text \<open>A transaction over a state \<open>s\<close> whose writes lead to the documents \<open>A\<close>.\<close>

definition tx_docs ::
  "('ks, 'd, 'x) db_env \<Rightarrow> ('ks \<Rightarrow> bytes \<rightharpoonup> bytes) \<Rightarrow> all_docs \<Rightarrow> tx \<Rightarrow> ('ks, 'x, 'z) database_scheme \<Rightarrow> bool" where
  "tx_docs X content A tx s \<longleftrightarrow>
     (\<forall>c\<in>set (collections s). data_ok X c (get_indexes s c) (docs_in A c) (\<lambda>nm. write_all (writes_to nm tx) (content (disk s nm))) \<and>
        writes_to (ulock_ks c) tx = [])"

lemma write_all_append [simp]: "write_all (ws @ ws') m = write_all ws' (write_all ws m)"
  by (simp add: write_all_def)

lemma tx_docs_step:
  assumes tx: "tx_docs X content A tx s" and names: "index_keyspaces_distinct s"
    and new: "\<And>d. new = Some d \<Longrightarrow> key d = k \<and> utf8_valid (as_bytes k) \<and> (\<exists>b. enc (db_docs X) d = Inr b)"
    and w: "adds_index_writes X c (get_indexes s c) (A (c, k)) new (tx @ tx0) tx'"
    and docs: "\<And>c'. writes_to (docs_ks c') tx0 = (if c' = c then [(as_bytes k, doc_entry X new)] else [])"
    and ex: "\<And>c'. writes_to (exists_ks c') tx0 =
      (if c' \<noteq> c then [] else if new = None then [(as_bytes k, None)] else if A (c, k) = None then [(as_bytes k, Some [])] else [])"
    and others: "\<And>c'. writes_to (ulock_ks c') tx0 = []" "\<And>c' n. writes_to (idx_ks c' n) tx0 = []"
  shows "tx_docs X content (A((c, k) := new)) tx' s"
proof -
  let ?M = "\<lambda>nm. write_all (writes_to nm tx) (content (disk s nm))" and ?M' = "\<lambda>nm. write_all (writes_to nm tx') (content (disk s nm))"
  have other: "writes_to nm tx' = writes_to nm tx @ writes_to nm tx0"
    if "\<forall>i\<in>set (get_indexes s c). idx_type i = BTree \<longrightarrow> nm \<noteq> idx_ks c (idx_name i)" "nm \<noteq> INDEX_JOBS_KEYSPACE" for nm
    using w that by (simp add: adds_index_writes_def)
  have "data_ok X c' (get_indexes s c') (docs_in (A((c, k) := new)) c') ?M'" if c': "c' \<in> set (collections s)" for c'
  proof (cases "c' = c")
    case True
    have dat: "data_ok X c (get_indexes s c) (docs_in A c) ?M" using tx c' True by (simp add: tx_docs_def)
    have "data_ok X c (get_indexes s c) ((docs_in A c)(k := new)) ?M'"
    proof (rule data_step [OF dat new])
      show "?M' (docs_ks c) = (?M (docs_ks c))(as_bytes k := doc_entry X new)" by (simp add: other docs)
      have "as_bytes k \<in> dom (?M (exists_ks c))" if "A (c, k) \<noteq> None"
        using dat that by (auto simp: data_ok_def docs_in_def)
      then show "dom (?M' (exists_ks c)) =
          (if new = None then dom (?M (exists_ks c)) - {as_bytes k} else insert (as_bytes k) (dom (?M (exists_ks c))))"
        by (auto simp: other ex)
      show "?M' (idx_ks c (idx_name i)) =
          write_all (update_in_tx (ee_libs X) (idx_fields i) (docs_in A c k) new) (?M (idx_ks c (idx_name i)))"
        if "i \<in> set (get_indexes s c)" "idx_type i = BTree" for i
        using w that by (simp add: adds_index_writes_def others(2) docs_in_def)
    qed
    then show ?thesis using True by (simp add: docs_in_upd)
  next
    case False
    have "data_ok X c' (get_indexes s c') (docs_in A c') ?M" using tx c' by (simp add: tx_docs_def)
    moreover have "writes_to (idx_ks c' (idx_name j)) tx' = writes_to (idx_ks c' (idx_name j)) tx"
      if "j \<in> set (get_indexes s c')" "idx_type j = BTree" for j
      using other [of "idx_ks c' (idx_name j)"] names False that unfolding index_keyspaces_distinct_def others(2) by fastforce
    ultimately show ?thesis using False by (simp add: docs_in_upd data_ok_def other docs ex)
  qed
  moreover have "writes_to (ulock_ks c') tx' = []" if "c' \<in> set (collections s)" for c'
    using tx that by (simp add: tx_docs_def other others(1))
  ultimately show ?thesis by (simp add: tx_docs_def)
qed

lemma tx_docs_cong:
  assumes "tx_docs X content A tx s" "same_except N s s'"
    and "\<And>c. docs_ks c \<notin> N \<and> exists_ks c \<notin> N" "\<And>c n. idx_ks c n \<notin> N"
  shows "tx_docs X content A tx s'"
  using assms unfolding tx_docs_def data_ok_def same_except_def get_indexes_def by simp

lemma index_keyspaces_distinct_cong: "index_keyspaces_distinct s \<Longrightarrow> same_except N s s' \<Longrightarrow> index_keyspaces_distinct s'"
  by (simp add: index_keyspaces_distinct_def index_names_distinct_def same_except_get)

definition ins_at :: "PreparedDocInsert \<Rightarrow> string \<times> string" where
  "ins_at i = (ins_collection i, key (ins_doc i))"

definition ins_new :: "PreparedDocInsert \<Rightarrow> document option" where
  "ins_new i = Some (ins_doc i)"

definition del_at :: "PreparedDocDelete \<Rightarrow> string \<times> string" where
  "del_at d = (del_collection d, del_key d)"

context db_engine
begin

lemma write_doc_inserts_ok:
  assumes "tx_docs X content A tx s" "index_keyspaces_distinct s" "distinct (map ins_at is)"
    and "\<forall>i\<in>set is. A (ins_at i) = ins_old_doc i \<and> utf8_valid (as_bytes (key (ins_doc i)))"
    and "write_doc_inserts X is tx s = (s', Inr tx')"
  shows "tx_docs X content (fold (put_at ins_at ins_new) is A) tx' s' \<and> same_except {} s s'"
  using assms
proof (induction "is" arbitrary: A tx s)
  case (Cons i "is")
  let ?c = "ins_collection i" and ?k = "key (ins_doc i)"
  let ?A = "A((?c, ?k) := Some (ins_doc i))"
  obtain b s1 tx1 tx2 where b: "enc (db_docs X) (ins_doc i) = Inr b"
    and u: "update_btree_in_tx X (tx @ (docs_ks ?c, as_bytes ?k, Some b) # exists_marker ?c ?k (ins_old_doc i = None))
      ?c (ins_old_doc i) (Some (ins_doc i)) s = (s1, Inr tx1)"
    and j: "write_external_index_job X tx1 ?c ?k (ins_old_doc i) (Some (ins_doc i)) s1 = Inr tx2"
    and rest: "write_doc_inserts X is tx2 s1 = (s', Inr tx')"
    using Cons.prems(5) by (auto simp: Let_def try_do_Inr_iff split: if_splits)
  have old: "A (?c, ?k) = ins_old_doc i" using Cons.prems(4) by (simp add: ins_at_def)
  have s1: "same_except {} s s1" by (rule keeps_exceptD [OF keeps_index_writes(1) u])
  have w: "adds_index_writes X ?c (get_indexes s ?c) (A (?c, ?k)) (Some (ins_doc i))
      (tx @ (docs_ks ?c, as_bytes ?k, Some b) # exists_marker ?c ?k (ins_old_doc i = None)) tx2"
    using update_btree_ok [OF u] write_job_ok [OF j] Cons.prems(2) old
    by (auto simp: adds_index_writes_def index_keyspaces_distinct_def)
  have "tx_docs X content ?A tx2 s"
    by (rule tx_docs_step [OF Cons.prems(1,2) _ w]) (use b Cons.prems(4) old in \<open>auto simp: exists_marker_def doc_entry_def\<close>)
  then have tx2: "tx_docs X content ?A tx2 s1" by (rule tx_docs_cong [OF _ s1]) simp_all
  have same: "?A (ins_at i') = A (ins_at i')" if "i' \<in> set is" for i'
    using Cons.prems(3) that by (auto simp: ins_at_def image_iff)
  have "tx_docs X content (fold (put_at ins_at ins_new) is ?A) tx' s' \<and> same_except {} s1 s'"
    by (rule Cons.IH [where A = ?A, OF tx2 index_keyspaces_distinct_cong [OF Cons.prems(2) s1] _ _ rest])
      (use Cons.prems(3,4) same in simp_all)
  moreover have "put_at ins_at ins_new i A = ?A" by (simp add: put_at_def ins_at_def ins_new_def)
  ultimately show ?case using same_except_trans [OF s1] by simp
qed simp

lemma write_doc_deletes_ok:
  assumes "tx_docs X content A tx s" "index_keyspaces_distinct s" "distinct (map del_at ds)"
    and "\<forall>d\<in>set ds. A (del_at d) = del_old_doc d \<and> del_old_doc d \<noteq> None \<and> del_collection d \<in> set (collections s)"
    and "write_doc_deletes X ds tx s = (s', Inr tx')"
  shows "tx_docs X content (fold (put_at del_at (\<lambda>_. None)) ds A) tx' s' \<and> same_except {} s s'"
  using assms
proof (induction ds arbitrary: A tx s)
  case (Cons d ds)
  let ?c = "del_collection d" and ?k = "del_key d"
  let ?A = "A((?c, ?k) := None)"
  obtain old where old: "del_old_doc d = Some old" "A (?c, ?k) = Some old" using Cons.prems(4) by (auto simp: del_at_def)
  obtain s1 tx1 tx2 where
    u: "update_btree_in_tx X (tx @ [(docs_ks ?c, as_bytes ?k, None), (exists_ks ?c, as_bytes ?k, None)]) ?c (Some old) None s = (s1, Inr tx1)"
    and j: "write_external_index_job X tx1 ?c ?k (Some old) None s1 = Inr tx2"
    and rest: "write_doc_deletes X ds tx2 s1 = (s', Inr tx')"
    using Cons.prems(4,5) old by (auto simp: Let_def try_do_Inr_iff)
  have s1: "same_except {} s s1" by (rule keeps_exceptD [OF keeps_index_writes(1) u])
  have w: "adds_index_writes X ?c (get_indexes s ?c) (A (?c, ?k)) None
      (tx @ [(docs_ks ?c, as_bytes ?k, None), (exists_ks ?c, as_bytes ?k, None)]) tx2"
    using update_btree_ok [OF u] write_job_ok [OF j] Cons.prems(2) old
    by (auto simp: adds_index_writes_def index_keyspaces_distinct_def)
  have "tx_docs X content ?A tx2 s"
    by (rule tx_docs_step [OF Cons.prems(1,2) _ w]) (auto simp: doc_entry_def)
  then have tx2: "tx_docs X content ?A tx2 s1" by (rule tx_docs_cong [OF _ s1]) simp_all
  have same: "?A (del_at d') = A (del_at d')" if "d' \<in> set ds" for d'
    using Cons.prems(3) that by (auto simp: del_at_def image_iff)
  have "tx_docs X content (fold (put_at del_at (\<lambda>_. None)) ds ?A) tx' s' \<and> same_except {} s1 s'"
    by (rule Cons.IH [where A = ?A, OF tx2 index_keyspaces_distinct_cong [OF Cons.prems(2) s1] _ _ rest])
      (use Cons.prems(3,4) same s1 in \<open>simp_all add: same_except_def\<close>)
  moreover have "put_at del_at (\<lambda>_. None) d A = ?A" by (simp add: put_at_def del_at_def)
  ultimately show ?case using same_except_trans [OF s1] by simp
qed simp

end

end
