(* ===== verification/Batch_Properties.thy ===== *)
theory Batch_Properties
  imports Batch_Invariant
begin

text \<open>
  The properties of atomic batches: a batch that succeeds has the meaning of its operations in
  order, a batch that fails leaves the data alone. The locale \<open>frame\<close> collects how operations
  compose along a relation between states.
\<close>

section \<open>Frames\<close>

text \<open>Operations along a reflexive and transitive relation between states, and operations that stay
  within it when they fail.\<close>

definition stays :: "('s \<Rightarrow> 's \<Rightarrow> bool) \<Rightarrow> ('s, 'a) op \<Rightarrow> bool" where
  "stays R m \<longleftrightarrow> (\<forall>s. R s (fst (m s)))"

definition fails_clean :: "('s \<Rightarrow> 's \<Rightarrow> bool) \<Rightarrow> ('s, 'a) op \<Rightarrow> bool" where
  "fails_clean R m \<longleftrightarrow> (\<forall>s s' e. m s = (s', Inl e) \<longrightarrow> R s s')"

lemma staysD: "stays R m \<Longrightarrow> m s = (s', r) \<Longrightarrow> R s s'"
  by (metis stays_def fst_conv)

lemma stays_fails_clean: "stays R m \<Longrightarrow> fails_clean R m"
  unfolding fails_clean_def by (blast dest: staysD)

locale frame =
  fixes R :: "'s \<Rightarrow> 's \<Rightarrow> bool"
  assumes frame_refl: "R s s"
    and frame_trans: "R s s1 \<Longrightarrow> R s1 s2 \<Longrightarrow> R s s2"
begin

lemma stays_basic: "stays R (ok a)" "stays R (fail e)" "stays R (lift_result r)"
  by (simp_all add: stays_def frame_refl)

lemma stays_try_do: "stays R m \<Longrightarrow> (\<And>a. stays R (f a)) \<Longrightarrow> stays R (try_do m f)"
proof -
  assume m: "stays R m" and f: "\<And>a. stays R (f a)"
  have "R s (fst (try_do m f s))" for s
  proof -
    obtain s1 r where s1: "m s = (s1, r)" by fastforce
    have "R s s1" by (rule staysD [OF m s1])
    then show ?thesis using s1 f frame_trans unfolding stays_def by (cases r) (auto intro: frame_trans)
  qed
  then show ?thesis by (simp add: stays_def)
qed

lemma stays_with_state: "(\<And>s. stays R (f s)) \<Longrightarrow> stays R (with_state f)"
  by (simp add: stays_def)

lemma stays_if: "stays R m \<Longrightarrow> stays R m' \<Longrightarrow> stays R (if b then m else m')"
  by simp

lemma stays_option: "stays R m \<Longrightarrow> (\<And>x. stays R (f x)) \<Longrightarrow> stays R (case r of None \<Rightarrow> m | Some x \<Rightarrow> f x)"
  by (cases r) simp_all

lemma stays_pair: "(\<And>x y. stays R (f x y)) \<Longrightarrow> stays R (case p of (x, y) \<Rightarrow> f x y)"
  by (cases p) simp

lemma stays_for_each: "(\<And>x. stays R (f x)) \<Longrightarrow> stays R (for_each xs f)"
  by (induction xs) (auto intro: stays_basic stays_try_do)

lemma stays_or_undo: "stays R undo \<Longrightarrow> stays R m \<Longrightarrow> stays R (or_undo undo m)"
proof -
  assume undo: "stays R undo" and m: "stays R m"
  have "R s (fst (or_undo undo m s))" for s
  proof -
    obtain s1 r where s1: "m s = (s1, r)" by fastforce
    have "R s s1" by (rule staysD [OF m s1])
    then show ?thesis using s1 undo unfolding stays_def or_undo_def by (cases r) (auto intro: frame_trans)
  qed
  then show ?thesis by (simp add: stays_def)
qed

lemma fails_clean_try_do: "stays R m \<Longrightarrow> (\<And>a. fails_clean R (f a)) \<Longrightarrow> fails_clean R (try_do m f)"
proof -
  assume m: "stays R m" and f: "\<And>a. fails_clean R (f a)"
  have "R s s'" if res: "try_do m f s = (s', Inl e)" for s s' e
  proof (cases "m s")
    case (Pair s1 r)
    have "R s s1" by (rule staysD [OF m Pair])
    moreover have "R s1 s'" if "r = Inr a" for a
      using res Pair f [of a] that unfolding fails_clean_def by simp
    ultimately show ?thesis using res Pair by (cases r) (auto intro: frame_trans)
  qed
  then show ?thesis by (simp add: fails_clean_def)
qed

lemma fails_clean_or_undo: "stays R undo \<Longrightarrow> fails_clean R m \<Longrightarrow> fails_clean R (or_undo undo m)"
proof -
  assume undo: "stays R undo" and m: "fails_clean R m"
  have "R s s'" if res: "or_undo undo m s = (s', Inl e)" for s s' e
  proof -
    obtain s1 where s1: "m s = (s1, Inl e)" "s' = fst (undo s1)"
      using res by (auto simp: or_undo_def split: prod.splits sum.splits)
    then have "R s s1" "R s1 s'" using m undo by (auto simp: fails_clean_def stays_def)
    then show ?thesis by (rule frame_trans)
  qed
  then show ?thesis by (simp add: fails_clean_def)
qed

lemmas stays_rules = stays_basic stays_try_do stays_with_state stays_if stays_option stays_pair stays_for_each stays_or_undo

end

text \<open>Every keyspace outside \<open>N\<close> is unchanged.\<close>

definition same_disk :: "string set \<Rightarrow> ('ks, 'x, 'z) database_scheme \<Rightarrow> ('ks, 'x, 'z) database_scheme \<Rightarrow> bool" where
  "same_disk N s s' \<longleftrightarrow> (\<forall>nm. nm \<notin> N \<longrightarrow> disk s' nm = disk s nm)"

text \<open>Only the catalogue of edge types is changed.\<close>

definition edge_types_only :: "('ks, 'x, 'z) database_scheme \<Rightarrow> ('ks, 'x, 'z) database_scheme \<Rightarrow> bool" where
  "edge_types_only s s' \<longleftrightarrow> same_disk {EDGE_META_KEYSPACE} s s' \<and> collections s' = collections s \<and> index_registry s' = index_registry s"

interpretation disk_frame: frame "same_disk N" for N
  by unfold_locales (simp_all add: same_disk_def)

interpretation edge_frame: frame edge_types_only
  by unfold_locales (simp_all add: edge_types_only_def same_disk_def)

lemma keeps_stays: "keeps_except N m \<Longrightarrow> N \<subseteq> M \<Longrightarrow> stays (same_disk M) m"
  by (auto simp: keeps_except_def stays_def same_except_def same_disk_def)

lemma stays_insert: "nm \<in> N \<Longrightarrow> stays (same_disk N) (insert_key E nm k v)" "stays edge_types_only (insert_key E EDGE_META_KEYSPACE k v)"
  by (auto simp: stays_def insert_key_def same_disk_def edge_types_only_def split: sum.split)

lemma edge_create_in_tx_stays: "stays edge_types_only (edge_create_in_tx Y tx e)"
proof -
  have upd: "stays edge_types_only (\<lambda>s. (f s, Inr ()))"
    if "\<And>s. disk (f s) = disk s \<and> collections (f s) = collections s \<and> index_registry (f s) = index_registry s"
    for f :: "('ks, 'x, 'z) database_scheme \<Rightarrow> _"
    using that by (simp add: stays_def edge_types_only_def same_disk_def)
  have "stays edge_types_only (open_keyspace E nm)" "stays edge_types_only (read_key E nm k)"
    for E nm k
    by (auto simp: stays_def open_keyspace_def read_key_def edge_types_only_def same_disk_def split: option.split)
  then show ?thesis
    unfolding edge_create_in_tx_def ensure_edge_type_def define_edge_type_def add_label_to_list_def get_labels_list_def
      save_labels_list_def get_or_create_keyspace_def Let_def
    by (intro edge_frame.stays_rules stays_insert upd) auto
qed

section \<open>The whole batch\<close>

lemma edge_create_in_tx_writes:
  "edge_create_in_tx Y tx e s = (s', Inr tx') \<Longrightarrow> \<forall>l. nm \<noteq> edge_ks l \<Longrightarrow> writes_to nm tx' = writes_to nm tx"
  by (auto simp: edge_create_in_tx_def try_do_Inr_iff get_keyspace_def writes_to_def Let_def filter_empty_conv case_prod_unfold
      split: if_splits)

lemma delete_keys_writes: "\<forall>l. nm \<noteq> edge_ks l \<Longrightarrow> writes_to nm (delete_edge_keys_in_tx tx (edge_ks l) sch f t i) = writes_to nm tx"
  by (auto simp: delete_edge_keys_in_tx_def writes_to_def filter_empty_conv)

lemma edge_delete_in_tx_writes:
  assumes "edge_delete_in_tx Y tx f l t s = Inr (tx', n)" "\<forall>l. nm \<noteq> edge_ks l"
  shows "writes_to nm tx' = writes_to nm tx"
proof -
  have "writes_to nm (fold (\<lambda>d tx. delete_edge_keys_in_tx tx (edge_ks l) sch f' t' (ed_id d)) ds tx) = writes_to nm tx" for sch f' t' ds
    using assms(2) by (induction ds arbitrary: tx) (simp_all add: delete_keys_writes)
  then show ?thesis
    using assms by (auto simp: edge_delete_in_tx_def and_then_Inr_iff get_keyspace_def delete_keys_writes Let_def
        split: option.splits if_splits EdgeCardinality.splits prod.splits)
qed

lemma tx_docs_edges:
  assumes "tx_docs X content A tx s" "edge_types_only s s'" "\<And>nm. \<forall>l. nm \<noteq> edge_ks l \<Longrightarrow> writes_to nm tx' = writes_to nm tx"
  shows "tx_docs X content A tx' s'"
proof -
  have "docs_ks c \<noteq> EDGE_META_KEYSPACE" "exists_ks c \<noteq> EDGE_META_KEYSPACE" "idx_ks c n \<noteq> EDGE_META_KEYSPACE" for c n
    by (simp_all add: docs_ks_def exists_ks_def idx_ks_def EDGE_META_KEYSPACE_def)
  then show ?thesis
    using assms unfolding tx_docs_def data_ok_def edge_types_only_def same_disk_def get_indexes_def by simp
qed

text \<open>An edge of the batch runs between documents that exist after the batch.\<close>

definition endpoints_in :: "all_docs \<Rightarrow> Edge \<Rightarrow> bool" where
  "endpoints_in A e \<longleftrightarrow> (\<exists>c k c' k'. edge_from e = c @ '':'' @ k \<and> edge_to e = c' @ '':'' @ k' \<and> A (c, k) \<noteq> None \<and> A (c', k') \<noteq> None)"

context db_engine
begin

lemma validate_endpoints_ok:
  assumes tx: "tx_docs X content A tx s" and val: "validate_edge_endpoints_in_tx X tx e s = Inr u"
  shows "endpoints_in A e"
proof -
  obtain c k c' k' a b where f: "split_once (CHR '':'') (edge_from e) = Some (c, k)" "split_once (CHR '':'') (edge_to e) = Some (c', k')"
    and c: "c \<in> set (collections s)" "c' \<in> set (collections s)"
    and g: "tx_get (ee_engine X) tx (exists_ks c) (as_bytes k) s = Inr (Some a)" "tx_get (ee_engine X) tx (exists_ks c') (as_bytes k') s = Inr (Some b)"
    using val by (auto simp: validate_edge_endpoints_in_tx_def and_then_Inr_iff split: option.splits prod.splits if_splits)
  have ex: "A (c, k) \<noteq> None" if "c \<in> set (collections s)" "tx_get (ee_engine X) tx (exists_ks c) (as_bytes k) s = Inr (Some a)" for c k a
  proof -
    have "as_bytes k \<in> dom (write_all (writes_to (exists_ks c) tx) (content (disk s (exists_ks c))))"
      using tx_get_content [OF that(2)] by (metis domI)
    then have "as_bytes k \<in> as_bytes ` dom (docs_in A c)" using tx that(1) by (simp add: tx_docs_def data_ok_def)
    then show ?thesis by (auto simp: docs_in_def inj_image_mem_iff)
  qed
  show ?thesis unfolding endpoints_in_def
    using f ex [OF c(1) g(1)] ex [OF c(2) g(2)] by (intro exI [of _ c] exI [of _ k] exI [of _ c'] exI [of _ k']) (simp add: split_once_Some_iff)
qed

lemma write_edge_inserts_ok:
  assumes "tx_docs X content A tx s" "write_edge_inserts X es tx s = (s', Inr tx')"
  shows "tx_docs X content A tx' s' \<and> edge_types_only s s' \<and> (\<forall>e\<in>set es. endpoints_in A e)"
  using assms
proof (induction es arbitrary: tx s)
  case (Cons e es)
  obtain s1 tx1 where val: "validate_edge_endpoints_in_tx X tx e s = Inr ()" and cr: "edge_create_in_tx (edge_env.truncate X) tx e s = (s1, Inr tx1)"
    and rest: "write_edge_inserts X es tx1 s1 = (s', Inr tx')"
    using Cons.prems(2) by (auto simp: try_do_Inr_iff)
  have s1: "edge_types_only s s1" by (rule staysD [OF edge_create_in_tx_stays cr])
  have "tx_docs X content A tx1 s1" by (rule tx_docs_edges [OF Cons.prems(1) s1]) (rule edge_create_in_tx_writes [OF cr])
  from Cons.IH [OF this rest] show ?case
    using validate_endpoints_ok [OF Cons.prems(1) val] edge_frame.frame_trans [OF s1] by simp
qed (simp add: edge_frame.frame_refl)

lemma write_edge_deletes_ok:
  assumes "tx_docs X content A tx s" "write_edge_deletes X es tx s = (s', Inr tx')"
  shows "tx_docs X content A tx' s' \<and> s' = s"
  using assms
proof (induction es arbitrary: tx)
  case (Cons e es)
  obtain f l t where e: "e = (f, l, t)" by (cases e)
  obtain tx1 n where del: "edge_delete_in_tx (edge_env.truncate X) tx f l t s = Inr (tx1, n)"
    and rest: "write_edge_deletes X es tx1 s = (s', Inr tx')"
    using Cons.prems(2) by (auto simp: e try_do_Inr_iff)
  have "tx_docs X content A tx1 s"
    by (rule tx_docs_edges [OF Cons.prems(1) edge_frame.frame_refl]) (rule edge_delete_in_tx_writes [OF del])
  from Cons.IH [OF this rest] show ?case .
qed simp

end

lemma mutation_replaced:
  "mutation_position X c k ms s = Inr (p, muts, positions) \<Longrightarrow> set (muts[p := m]) \<subseteq> insert m (set (fst ms))"
  using set_update_subset_insert [of "fst ms" p m]
  by (cases ms) (auto simp: mutation_position_def and_then_Inr_iff Let_def split: option.splits)

text \<open>Every document that a mutation ends with is one of the batch.\<close>

lemma collapse_ops_current:
  assumes "collapse_ops X ops b ms s = (s', Inr (b', ms'))" "\<forall>m\<in>set (fst ms). set_option (current_doc m) \<subseteq> D"
    and "\<forall>w\<in>set ops. set (op_docs w) \<subseteq> D"
  shows "\<forall>m\<in>set (fst ms'). set_option (current_doc m) \<subseteq> D"
  using assms
proof (induction ops arbitrary: b ms s)
  case (Cons w ops)
  have ops: "\<forall>w\<in>set ops. set (op_docs w) \<subseteq> D" using Cons.prems(3) by simp
  have put: ?case if w: "w = InsertDoc d \<and> \<not> c \<or> w = CreateDoc d \<and> c" for d c
  proof -
    obtain s1 ms1 where 1: "collapse_put X c d ms s = (s1, Inr ms1)" "collapse_ops X ops b ms1 s1 = (s', Inr (b', ms'))"
      using Cons.prems(1) w by (auto simp: try_do_Inr_iff)
    obtain p muts positions where "mutation_position X (collection d) (key d) ms s1 = Inr (p, muts, positions)"
      "ms1 = (muts[p := put_mutation c d (muts ! p)], positions)"
      using collapse_put_elim [OF 1(1)] by blast
    then have "set (fst ms1) \<subseteq> insert (put_mutation c d (muts ! p)) (set (fst ms))" using mutation_replaced by fastforce
    moreover have "set_option (current_doc (put_mutation c d (muts ! p))) \<subseteq> D"
      using Cons.prems(3) w by (auto simp: put_mutation_def)
    ultimately have "\<forall>m\<in>set (fst ms1). set_option (current_doc m) \<subseteq> D" using Cons.prems(2) by blast
    then show ?thesis by (rule Cons.IH [OF 1(2) _ ops])
  qed
  show ?case
  proof (cases w)
    case (DeleteDoc c k)
    then obtain s1 ms1 where 1: "collapse_delete X c k ms s = (s1, Inr ms1)" "collapse_ops X ops b ms1 s1 = (s', Inr (b', ms'))"
      using Cons.prems(1) by (auto simp: try_do_Inr_iff)
    obtain p muts positions where "mutation_position X c k ms s = Inr (p, muts, positions)"
      "ms1 = (muts[p := (muts ! p)\<lparr>current_doc := None\<rparr>], positions)"
      using collapse_delete_elim [OF 1(1)] by blast
    then have "set (fst ms1) \<subseteq> insert ((muts ! p)\<lparr>current_doc := None\<rparr>) (set (fst ms))" using mutation_replaced by fastforce
    moreover have "set_option (current_doc ((muts ! p)\<lparr>current_doc := None\<rparr>)) \<subseteq> D" by simp
    ultimately have "\<forall>m\<in>set (fst ms1). set_option (current_doc m) \<subseteq> D" using Cons.prems(2) by blast
    then show ?thesis by (rule Cons.IH [OF 1(2) _ ops])
  qed (use put Cons.IH Cons.prems ops in auto)
qed auto

text \<open>The insertions and deletions together give the documents of the mutations.\<close>

lemma inserts_deletes_ok:
  assumes ms: "muts_ok A (muts, positions) A'"
  defines "is \<equiv> map prepared_insert (filter (\<lambda>m. current_doc m \<noteq> None) muts)"
    and "ds \<equiv> map prepared_delete (filter (\<lambda>m. current_doc m = None \<and> initial_doc m \<noteq> None) muts)"
  shows "distinct (map ins_at is)" "distinct (map del_at ds)" "ins_at ` set is \<inter> del_at ` set ds = {}"
    "fold (put_at del_at (\<lambda>_. None)) ds (fold (put_at ins_at ins_new) is A) = A'"
proof -
  have dist: "distinct (map mut_id muts)" using ms by (simp add: muts_ok_def)
  have at: "ins_at (prepared_insert m) = mut_id m" if "m \<in> set muts" "current_doc m \<noteq> None" for m
    using muts_okD(3) [OF ms that(1)] that(2) by (auto simp: ins_at_def prepared_insert_def mut_id_def doc_at_def)
  have at': "del_at (prepared_delete m) = mut_id m" for m by (simp add: del_at_def prepared_delete_def mut_id_def)
  have maps: "map ins_at is = map mut_id (filter (\<lambda>m. current_doc m \<noteq> None) muts)"
    "map del_at ds = map mut_id (filter (\<lambda>m. current_doc m = None \<and> initial_doc m \<noteq> None) muts)"
    using at at' by (auto simp: is_def ds_def)
  show d: "distinct (map ins_at is)" "distinct (map del_at ds)"
    unfolding maps using dist by (simp_all add: distinct_map_filter)
  have sets: "ins_at ` set is = mut_id ` {m \<in> set muts. current_doc m \<noteq> None}"
    "del_at ` set ds = mut_id ` {m \<in> set muts. current_doc m = None \<and> initial_doc m \<noteq> None}"
    using arg_cong [OF maps(1), of set] arg_cong [OF maps(2), of set] by simp_all
  have inj: "m = n" if "m \<in> set muts" "n \<in> set muts" "mut_id m = mut_id n" for m n
    using dist that by (simp add: distinct_map inj_on_def)
  show "ins_at ` set is \<inter> del_at ` set ds = {}" unfolding sets using inj by force
  show "fold (put_at del_at (\<lambda>_. None)) ds (fold (put_at ins_at ins_new) is A) = A'"
  proof (rule ext)
    fix i
    let ?B = "fold (put_at ins_at ins_new) is A"
    show "fold (put_at del_at (\<lambda>_. None)) ds ?B i = A' i"
    proof (cases "i \<in> mut_id ` set muts")
      case True
      then obtain m where m: "m \<in> set muts" "i = mut_id m" by auto
      have A': "A' i = current_doc m" "A i = initial_doc m" using muts_okD [OF ms m(1)] m(2) by simp_all
      have only: "n = m" if "n \<in> set muts" "mut_id n = i" for n using inj m that by simp
      consider (ins) "current_doc m \<noteq> None" | (del) "current_doc m = None" "initial_doc m \<noteq> None"
        | (none) "current_doc m = None" "initial_doc m = None" by blast
      then show ?thesis
      proof cases
        case ins
        then have "i \<notin> del_at ` set ds" unfolding sets using only by auto
        moreover have "prepared_insert m \<in> set is" using ins m(1) by (simp add: is_def)
        then have "?B (ins_at (prepared_insert m)) = ins_new (prepared_insert m)" by (rule fold_put_at [OF d(1)])
        ultimately show ?thesis using ins m A' at [OF m(1) ins]
          by (auto simp: fold_put_other ins_new_def prepared_insert_def)
      next
        case del
        then have "prepared_delete m \<in> set ds" using m(1) by (simp add: ds_def)
        then have "fold (put_at del_at (\<lambda>_. None)) ds ?B (del_at (prepared_delete m)) = None" by (rule fold_put_at [OF d(2)])
        then show ?thesis using del m(2) A' at' by simp
      next
        case none
        then have "i \<notin> ins_at ` set is" "i \<notin> del_at ` set ds" unfolding sets using only by auto
        then show ?thesis using none A' by (simp add: fold_put_other)
      qed
    next
      case False
      then have "i \<notin> ins_at ` set is" "i \<notin> del_at ` set ds" unfolding sets by auto
      then show ?thesis using ms False by (simp add: fold_put_other muts_ok_def)
    qed
  qed
qed

lemma run_ops_at:
  "run_ops ops A = Inr A' \<Longrightarrow> A' i = Some d \<Longrightarrow> A i = Some d \<or> (\<exists>w\<in>set ops. d \<in> set (op_docs w) \<and> doc_at d = i)"
proof (induction ops arbitrary: A)
  case (Cons w ops)
  obtain A1 where A1: "run_op w A = Inr A1" "run_ops ops A1 = Inr A'" using Cons.prems(1) by (auto simp: and_then_Inr_iff)
  have "A i = Some d \<or> d \<in> set (op_docs w) \<and> doc_at d = i" if "A1 i = Some d"
    using A1(1) that by (cases w) (auto split: if_splits)
  then show ?case using Cons.IH [OF A1(2) Cons.prems(2)] by auto
qed simp

context db_engine
begin

lemma prepare_ok:
  assumes rep: "represents_docs X content A s" and docs: "\<forall>w\<in>set ops. \<forall>d\<in>set (op_docs w). docs_admissible X s A d"
    and res: "prepare X ops s = (s', Inr b)"
  obtains A' where "run_ops ops A = Inr A'" "claimed X content A' s s'"
    "distinct (map ins_at (doc_inserts b))" "distinct (map del_at (doc_deletes b))" "ins_at ` set (doc_inserts b) \<inter> del_at ` set (doc_deletes b) = {}"
    "fold (put_at del_at (\<lambda>_. None)) (doc_deletes b) (fold (put_at ins_at ins_new) (doc_inserts b) A) = A'"
    "\<forall>i\<in>set (doc_inserts b). A (ins_at i) = ins_old_doc i \<and> utf8_valid (as_bytes (key (ins_doc i)))"
    "\<forall>d\<in>set (doc_deletes b). A (del_at d) = del_old_doc d \<and> del_old_doc d \<noteq> None \<and> del_collection d \<in> set (collections s)"
    "set (edge_inserts b) = {e. InsertEdge e \<in> set ops}"
proof -
  obtain s0 b0 muts positions where col: "collapse_ops X ops batch_new ([], []) s = (s0, Inr (b0, muts, positions))"
    and prep: "prepare_mutations X muts b0 s0 = (s', Inr b)"
    using res by (auto simp: prepare_def try_do_Inr_iff)
  have "\<forall>w\<in>set ops. \<forall>d\<in>set (op_docs w). collection d \<in> set (collections s)" using docs by (auto simp: docs_admissible_def)
  then obtain A' where A': "run_ops ops A = Inr A'" "muts_ok A (muts, positions) A'" "s0 = s"
    "doc_inserts b0 = []" "doc_deletes b0 = []" "set (edge_inserts b0) = {e. InsertEdge e \<in> set ops}"
    using collapse_ops_ok [OF rep _ muts_ok_Nil col] by (auto simp: batch_new_def)
  have cur: "docs_admissible X s A d" if "m \<in> set muts" "current_doc m = Some d" for m d
    using collapse_ops_current [OF col, of "{d. docs_admissible X s A d}"] docs that by auto
  have "claimed X content A s s"
    using rep by (simp add: represents_docs_def claimed_def consistent_def)
  then have pm: "claimed X content (apply_muts muts A) s s'"
    "doc_inserts b = map prepared_insert (filter (\<lambda>m. current_doc m \<noteq> None) muts)"
    "doc_deletes b = map prepared_delete (filter (\<lambda>m. current_doc m = None \<and> initial_doc m \<noteq> None) muts)"
    "edge_inserts b = edge_inserts b0"
    using prepare_mutations_ok [OF _ rep _ _ prep [unfolded A'(3)], of A] A'(2,4,5) muts_okD [OF A'(2)] cur
    by (auto simp: muts_ok_def)
  have init: "A (mut_id m) = initial_doc m" if "m \<in> set muts" for m using muts_okD(1) [OF A'(2) that] by simp
  show thesis
  proof (rule that [OF A'(1)])
    show "claimed X content A' s s'" using pm(1) unfolding apply_muts_ok [OF A'(2)] .
    show "\<forall>i\<in>set (doc_inserts b). A (ins_at i) = ins_old_doc i \<and> utf8_valid (as_bytes (key (ins_doc i)))"
    proof
      fix i assume "i \<in> set (doc_inserts b)"
      then obtain m d where m: "m \<in> set muts" "current_doc m = Some d" "i = prepared_insert m" by (auto simp: pm(2))
      then have "ins_at i = mut_id m" using muts_okD(3) [OF A'(2) m(1), of d] by (simp add: ins_at_def prepared_insert_def doc_at_def mut_id_def)
      then show "A (ins_at i) = ins_old_doc i \<and> utf8_valid (as_bytes (key (ins_doc i)))"
        using init [OF m(1)] cur [OF m(1,2)] m(2,3) by (simp add: prepared_insert_def docs_admissible_def)
    qed
    show "\<forall>d\<in>set (doc_deletes b). A (del_at d) = del_old_doc d \<and> del_old_doc d \<noteq> None \<and> del_collection d \<in> set (collections s)"
    proof
      fix d assume "d \<in> set (doc_deletes b)"
      then obtain m where m: "m \<in> set muts" "initial_doc m \<noteq> None" "d = prepared_delete m" by (auto simp: pm(3))
      have "mut_collection m \<in> set (collections s)"
        using init [OF m(1)] m(2) rep unfolding represents_docs_def mut_id_def by (metis fst_conv option.exhaust)
      then show "A (del_at d) = del_old_doc d \<and> del_old_doc d \<noteq> None \<and> del_collection d \<in> set (collections s)"
        using init [OF m(1)] m(2,3) by (simp add: prepared_delete_def del_at_def mut_id_def)
    qed
  qed (use inserts_deletes_ok [OF A'(2)] pm A'(6) in simp_all)
qed

lemma batch_commit_steps:
  assumes "batch_commit X T T' b s = (s', Inr u)"
  obtains s1 s2 s3 s4 tx1 tx2 tx3 tx4 where "write_doc_inserts X (doc_inserts b) [] s = (s1, Inr tx1)"
    "write_doc_deletes X (doc_deletes b) tx1 s1 = (s2, Inr tx2)" "write_edge_inserts X (edge_inserts b) tx2 s2 = (s3, Inr tx3)"
    "write_edge_deletes X (edge_deletes b) tx3 s3 = (s4, Inr tx4)" "same_except {INDEX_JOBS_KEYSPACE} (tx_apply (ee_engine X) tx4 s4) s'"
proof -
  have "stays (same_except {INDEX_JOBS_KEYSPACE}) (apply_post_commit_indexes X T' b)"
    unfolding apply_post_commit_indexes_def stays_def op_simps using keeps_try_apply(2) [unfolded keeps_except_def] by blast
  then have post: "same_except {INDEX_JOBS_KEYSPACE} r s'" if "apply_post_commit_indexes X T' b r = (s', Inr u)" for r
    using that by (rule staysD)
  show thesis
    using assms post that by (auto simp: batch_commit_def or_undo_Inr try_do_Inr_iff begin_tx_def split: option.splits if_splits dest!: commit_True)
qed

lemma atomic_write_batch_ok:
  assumes rep: "represents_docs X content A s" and names: "index_keyspaces_distinct s"
    and docs: "\<forall>w\<in>set ops. \<forall>d\<in>set (op_docs w). docs_admissible X s A d" and res: "atomic_write_batch X T T' ops s = (s', Inr u)"
  shows "\<exists>A'. run_ops ops A = Inr A' \<and> represents_docs X content A' s' \<and> (\<forall>e. InsertEdge e \<in> set ops \<longrightarrow> endpoints_in A' e)"
proof (cases "ops = []")
  case True
  then show ?thesis using res rep by (simp add: atomic_write_batch_def)
next
  case False
  then obtain s0 b where prep: "prepare X ops s = (s0, Inr b)" and com: "batch_commit X T T' b s0 = (s', Inr u)"
    using res by (auto simp: atomic_write_batch_def try_do_Inr_iff)
  obtain A' where A': "run_ops ops A = Inr A'" "claimed X content A' s s0"
    and p: "distinct (map ins_at (doc_inserts b))" "distinct (map del_at (doc_deletes b))" "ins_at ` set (doc_inserts b) \<inter> del_at ` set (doc_deletes b) = {}"
      "fold (put_at del_at (\<lambda>_. None)) (doc_deletes b) (fold (put_at ins_at ins_new) (doc_inserts b) A) = A'"
      "\<forall>i\<in>set (doc_inserts b). A (ins_at i) = ins_old_doc i \<and> utf8_valid (as_bytes (key (ins_doc i)))"
      "\<forall>d\<in>set (doc_deletes b). A (del_at d) = del_old_doc d \<and> del_old_doc d \<noteq> None \<and> del_collection d \<in> set (collections s)"
      "set (edge_inserts b) = {e. InsertEdge e \<in> set ops}"
    by (rule prepare_ok [OF rep docs prep])
  obtain s1 s2 s3 s4 tx1 tx2 tx3 tx4 where w: "write_doc_inserts X (doc_inserts b) [] s0 = (s1, Inr tx1)"
    "write_doc_deletes X (doc_deletes b) tx1 s1 = (s2, Inr tx2)" "write_edge_inserts X (edge_inserts b) tx2 s2 = (s3, Inr tx3)"
    "write_edge_deletes X (edge_deletes b) tx3 s3 = (s4, Inr tx4)" "same_except {INDEX_JOBS_KEYSPACE} (tx_apply (ee_engine X) tx4 s4) s'"
    by (rule batch_commit_steps [OF com])
  have s0: "same_except (range ulock_ks) s s0" using A'(2) by (simp add: claimed_def)
  have "tx_docs X content A [] s" using rep by (simp add: tx_docs_def represents_docs_def consistent_iff)
  then have "tx_docs X content A [] s0" by (rule tx_docs_cong [OF _ s0]) simp_all
  note 1 = write_doc_inserts_ok [OF this index_keyspaces_distinct_cong [OF names s0] p(1,5) w(1)]
  let ?B = "fold (put_at ins_at ins_new) (doc_inserts b) A"
  have "?B (del_at d) = A (del_at d)" if "d \<in> set (doc_deletes b)" for d
    using p(3) that by (intro fold_put_other) auto
  then have 2: "tx_docs X content A' tx2 s2 \<and> same_except {} s1 s2"
    unfolding p(4) [symmetric] using 1 p(6) s0 index_keyspaces_distinct_cong [OF names s0]
    by (intro write_doc_deletes_ok [OF _ _ p(2) _ w(2)]) (auto intro: index_keyspaces_distinct_cong simp: same_except_def)
  have 3: "tx_docs X content A' tx3 s3 \<and> edge_types_only s2 s3 \<and> (\<forall>e\<in>set (edge_inserts b). endpoints_in A' e)"
    using 2 by (intro write_edge_inserts_ok [OF _ w(3)]) simp
  have 4: "tx_docs X content A' tx4 s3 \<and> s4 = s3"
    using write_edge_deletes_ok [OF _ w(4)] 3 by auto
  have locks_ks: "ulock_ks c \<noteq> EDGE_META_KEYSPACE" for c by (simp add: ulock_ks_def EDGE_META_KEYSPACE_def)
  have same: "collections s' = collections s" "index_registry s' = index_registry s" "collections s3 = collections s"
    "index_registry s3 = index_registry s" "disk s3 (ulock_ks c) = disk s0 (ulock_ks c)" for c
    using w(5) 1 2 3 4 s0 locks_ks by (auto simp: same_except_def edge_types_only_def same_disk_def)
  have disk: "content (disk s' nm) = write_all (writes_to nm tx4) (content (disk s3 nm))" if "nm \<noteq> INDEX_JOBS_KEYSPACE" for nm
    using w(5) 4 that content_tx_apply [of tx4 s3 nm] by (simp add: same_except_def)
  have "consistent X content c (docs_in A' c) s'" if c: "c \<in> set (collections s)" for c
  proof -
    have get: "get_indexes s' c = get_indexes s c" "get_indexes s3 c = get_indexes s c" "get_indexes s0 c = get_indexes s c"
      using same s0 by (simp_all add: get_indexes_def same_except_def)
    have "data_ok X c (get_indexes s c) (docs_in A' c) (\<lambda>nm. content (disk s' nm))" "writes_to (ulock_ks c) tx4 = []"
      using 4 c same(3) get by (auto simp: tx_docs_def data_ok_def disk)
    moreover have "locks_held (ee_libs X) (db_hash X) (get_indexes s c) (ran (docs_in A' c)) (content (disk s0 (ulock_ks c)))"
      using A'(2) c s0 get(3) unfolding claimed_def same_except_def by metis
    ultimately show ?thesis using c same get by (simp add: consistent_iff disk)
  qed
  moreover have "doc_at d = i \<and> fst i \<in> set (collections s)" if "A' i = Some d" for i d
    using run_ops_at [OF A'(1) that] rep docs by (auto simp: represents_docs_def docs_admissible_def doc_at_def)
  ultimately have "represents_docs X content A' s'" using same(1) by (simp add: represents_docs_def)
  then show ?thesis using A'(1) 3 p(7) by auto
qed

end

section \<open>Failed batches\<close>

text \<open>The keyspaces that a failed batch may have changed: unique locks, and the catalogues, where new
  collections and edge types are recorded before the transaction.\<close>

definition catalogue_keyspaces :: "string set" where
  "catalogue_keyspaces = range ulock_ks \<union> {META_KEYSPACE, EDGE_META_KEYSPACE}"

lemma stays_locks: "keeps_except {ulock_ks c} m \<Longrightarrow> stays (same_disk catalogue_keyspaces) m"
  by (rule keeps_stays) (auto simp: catalogue_keyspaces_def)

lemma stays_collection: "stays (same_disk catalogue_keyspaces) (get_or_create_collection X c)"
proof -
  have upd: "stays (same_disk catalogue_keyspaces) (\<lambda>s. (f s, Inr ()))"
    if "\<And>s. disk (f s) = disk s" for f :: "('ks, 'x, 'z) database_scheme \<Rightarrow> _"
    using that by (simp add: stays_def same_disk_def)
  have "stays (same_disk catalogue_keyspaces) (open_keyspace E nm)" for E nm
    by (auto simp: stays_def open_keyspace_def same_disk_def split: option.split)
  then show ?thesis
    unfolding get_or_create_collection_def ensure_exists_def open_existing_def create_keyspaces_def save_collection_meta_def
    by (intro disk_frame.stays_rules stays_insert upd) (auto simp: catalogue_keyspaces_def register_schemaless_def)
qed

lemma stays_batch_rollback: "stays (same_disk catalogue_keyspaces) (batch_rollback_constraints X b)"
  unfolding batch_rollback_constraints_def by (intro disk_frame.stays_rules stays_locks [OF keeps_constraints(2)])

lemma stays_collapse_op:
  "stays (same_disk catalogue_keyspaces) (collapse_put X c d ms)" "stays (same_disk catalogue_keyspaces) (collapse_delete X coll k ms)"
  unfolding collapse_put_def collapse_delete_def by (intro disk_frame.stays_rules stays_collection)+

lemma stays_collapse: "stays (same_disk catalogue_keyspaces) (collapse_ops X ops b ms)"
proof (induction ops arbitrary: b ms)
  case (Cons w ops)
  then show ?case by (cases w) (simp_all add: disk_frame.stays_try_do stays_collapse_op)
qed (simp add: disk_frame.stays_basic)

lemma stays_prepare: "stays (same_disk catalogue_keyspaces) (prepare X ops)"
proof -
  have "stays (same_disk catalogue_keyspaces) (prepare_doc_insert X b d c)" for b d c
    unfolding prepare_doc_insert_def Let_def
    by (intro disk_frame.stays_rules stays_batch_rollback stays_collection stays_locks [OF keeps_constraints(1)]
        stays_locks [OF keeps_constraints(2)])
  moreover have "stays (same_disk catalogue_keyspaces) (prepare_doc_delete X b c k)" for b c k
    unfolding prepare_doc_delete_def
    by (intro disk_frame.stays_rules stays_batch_rollback stays_locks [OF keeps_on_locks] stays_locks [OF keeps_constraints(2)])
  ultimately have "stays (same_disk catalogue_keyspaces) (prepare_mutations X ms b)" for ms b
    by (induction ms arbitrary: b) (auto intro!: disk_frame.stays_rules split: option.split)
  then show ?thesis unfolding prepare_def by (intro disk_frame.stays_rules stays_collapse)
qed

lemma edge_types_disk: "stays edge_types_only m \<Longrightarrow> stays (same_disk catalogue_keyspaces) m"
  by (simp add: stays_def edge_types_only_def same_disk_def catalogue_keyspaces_def)

lemma stays_writes:
  "stays (same_disk catalogue_keyspaces) (write_doc_inserts X is tx)"
  "stays (same_disk catalogue_keyspaces) (write_doc_deletes X ds tx)"
  "stays (same_disk catalogue_keyspaces) (write_edge_inserts X es tx)"
  "stays (same_disk catalogue_keyspaces) (write_edge_deletes X fs tx)"
proof -
  have btree: "stays (same_disk catalogue_keyspaces) (update_btree_in_tx X tx c old new)" for tx c old new
    by (rule keeps_stays [OF keeps_index_writes(1) empty_subsetI])
  show "stays (same_disk catalogue_keyspaces) (write_doc_inserts X is tx)"
    by (induction "is" arbitrary: tx) (auto simp: Let_def intro!: disk_frame.stays_rules btree)
  show "stays (same_disk catalogue_keyspaces) (write_doc_deletes X ds tx)"
    by (induction ds arbitrary: tx) (auto simp: Let_def intro!: disk_frame.stays_rules btree)
  have "stays (same_disk catalogue_keyspaces) (edge_create_in_tx (edge_env.truncate X) tx e)" for tx e
    by (rule edge_types_disk [OF edge_create_in_tx_stays])
  then show "stays (same_disk catalogue_keyspaces) (write_edge_inserts X es tx)"
    by (induction es arbitrary: tx) (auto intro!: disk_frame.stays_rules)
  show "stays (same_disk catalogue_keyspaces) (write_edge_deletes X fs tx)"
  proof (induction fs arbitrary: tx)
    case (Cons e fs)
    then show ?case by (cases e) (simp only: write_edge_deletes.simps, intro disk_frame.stays_rules)
  qed (simp only: write_edge_deletes.simps disk_frame.stays_basic)
qed

lemma fails_clean_batch_commit: "fails_clean (same_disk catalogue_keyspaces) (batch_commit X T T' b)"
proof -
  have commit: "fails_clean (same_disk catalogue_keyspaces) (try_do (commit X T tx) (\<lambda>committed.
      if committed then apply_post_commit_indexes X T' b else fail e))" for tx e
    by (auto simp: fails_clean_def try_do_Inl_iff commit_def tx_commit_def apply_post_commit_indexes_def
        try_apply_and_complete_external_index_jobs_def log_failure_def disk_frame.frame_refl
        split: commit_outcome.splits if_splits)
  show ?thesis
    unfolding batch_commit_def
    by (intro disk_frame.fails_clean_or_undo disk_frame.fails_clean_try_do stays_batch_rollback stays_writes commit
        keeps_stays [OF keeps_begin_tx empty_subsetI])
qed

lemma failed_batch:
  "atomic_write_batch X T T' ops s = (s', Inl e) \<Longrightarrow> same_disk catalogue_keyspaces s s'"
proof -
  have "fails_clean (same_disk catalogue_keyspaces) (atomic_write_batch X T T' ops)"
    unfolding atomic_write_batch_def
    by (simp add: stays_fails_clean disk_frame.stays_basic disk_frame.fails_clean_try_do stays_prepare fails_clean_batch_commit)
  then show "atomic_write_batch X T T' ops s = (s', Inl e) \<Longrightarrow> same_disk catalogue_keyspaces s s'"
    unfolding fails_clean_def by blast
qed

section \<open>Properties\<close>


text \<open>C23: A batch that fails, at whatever step, changes no keyspace except the unique locks and the
  catalogues of collections and edge types: no document, marker, index entry, edge or job.\<close>

theorem failed_batch_changes_no_data:
  assumes "atomic_write_batch X T T' ops s = (s', Inl e)"
  shows "\<forall>nm. nm \<notin> catalogue_keyspaces \<longrightarrow> disk s' nm = disk s nm"
  using failed_batch [OF assms] by (simp add: same_disk_def)

text \<open>Witnesses: a document is deleted and created again in one batch; the same batch when the
  transaction cannot begin.\<close>

definition replace_ops :: "WriteOp list" where
  "replace_ops = [DeleteDoc ''u'' ''a'', CreateDoc linked_doc]"

lemma linked_parts [simp]: "collection linked_doc = ''u''" "key linked_doc = ''a''" "doc_at linked_doc = (''u'', ''a'')"
  "collections linked_db = [''u'']" "get_indexes linked_db c = []"
  by (simp_all add: linked_doc_def collection_def first_segment_def key_def doc_at_def linked_db_def get_indexes_def)

lemma linked_get: "documents_get mem_db_env ''u'' ''a'' linked_db = Inr (Some linked_doc)"
  using mem_docs_codec linked_bytes(1) by (simp add: documents_get_def docs_keyspace_def linked_db_def codec_ok_def)

lemma replace_prepared:
  "prepare mem_db_env replace_ops linked_db = (linked_db, Inr \<lparr>doc_inserts =
     [\<lparr>ins_doc = linked_doc, ins_old_doc = Some linked_doc, ins_collection = ''u'', ins_create_only = False\<rparr>],
     doc_deletes = [], edge_inserts = [], edge_deletes = []\<rparr>)"
proof -
  have locks: "claim_constraints mem_db_env ''u'' [] old new linked_db = (linked_db, Inr ())" for old new
    by (simp add: claim_constraints_def on_locks_def validate_and_update_def)
  show ?thesis
    by (simp add: prepare_def replace_ops_def collapse_delete_def collapse_put_def mutation_position_def linked_get
        get_or_create_existing put_mutation_def prepare_doc_insert_def or_undo_def locks validate_hnsw_vectors_def
        batch_new_def Let_def)
qed

lemma replace_commits: "\<exists>s'. atomic_write_batch mem_db_env commits commits replace_ops linked_db = (s', Inr ())"
proof -
  obtain b where b: "enc mem_docs linked_doc = Inr b" using linked_bytes(1) by blast
  have u: "update_btree_in_tx mem_db_env tx ''u'' old new linked_db = (linked_db, Inr tx)" for tx old new
    by (simp add: update_btree_in_tx_def)
  have j: "write_external_index_job mem_db_env tx ''u'' k old new linked_db = Inr tx" for tx k old new
    by (simp add: write_external_index_job_def has_external_indexes_def)
  have post: "apply_post_commit_indexes mem_db_env commits p s = (s1, r) \<Longrightarrow> r = Inr ()" for p s s1 r
    by (auto simp: apply_post_commit_indexes_def try_apply_and_complete_external_index_jobs_def log_failure_def)
  show ?thesis
    by (simp add: atomic_write_batch_def replace_prepared batch_commit_def or_undo_def begin_tx_def b u [simplified] j [simplified]
        exists_marker_def commit_def tx_commit_def Let_def) (auto simp: replace_ops_def dest!: post split: prod.split)
qed


theorem failed_batch_changes_no_data_witness:
  "\<exists>s' e. atomic_write_batch mem_db_env cannot_begin commits replace_ops linked_db = (s', Inl e) \<and>
     disk s' (docs_ks ''u'') = disk linked_db (docs_ks ''u'')"
proof -
  obtain s' e where s': "atomic_write_batch mem_db_env cannot_begin commits replace_ops linked_db = (s', Inl e)"
    using replace_prepared
    by (simp add: atomic_write_batch_def replace_ops_def batch_commit_def or_undo_def begin_tx_def cannot_begin_def)
  moreover have "docs_ks ''u'' \<notin> catalogue_keyspaces"
    by (auto simp: catalogue_keyspaces_def) (simp_all add: docs_ks_def EDGE_META_KEYSPACE_def)
  ultimately show ?thesis using failed_batch_changes_no_data [OF s'] by blast
qed

end
