(* ===== verification/Transactions.thy ===== *)
theory Transactions
  imports Batch_Properties Index_Scans "HOL-Library.Multiset"
begin

text \<open>
  Explicit transactions (\<open>transaction/types.rs\<close>, \<open>transaction/pending.rs\<close>, \<open>transaction/error.rs\<close>). A
  transaction buffers its writes in serialised form and applies them as one atomic batch when it is
  committed. The database that it holds a reference to is an argument of its operations, and a
  result of \<open>txn_commit\<close>.

  Not in the repository are the serialisation of edges (\<open>te_edge\<close>) and the order in which the entries
  of a \<open>HashMap\<close> are visited (\<open>te_writes_order\<close>, \<open>te_edges_order\<close>): any order of the entries.
\<close>

section \<open>Errors (error.rs)\<close>

datatype TransactionError =
    TxConflict
  | TxTimeout
  | AlreadyCompleted
  | NoActiveTransaction
  | TxStorage StorageError
  | TxInternal string

text \<open>The message of an error, given the message of a storage error.\<close>

primrec transaction_error_message :: "(StorageError \<Rightarrow> string) \<Rightarrow> TransactionError \<Rightarrow> string" where
  "transaction_error_message msg TxConflict = ''Transaction conflict: another transaction modified the data''"
| "transaction_error_message msg TxTimeout = ''Transaction timed out''"
| "transaction_error_message msg AlreadyCompleted = ''Transaction already completed''"
| "transaction_error_message msg NoActiveTransaction = ''No active transaction''"
| "transaction_error_message msg (TxStorage e) = ''Storage error: '' @ msg e"
| "transaction_error_message msg (TxInternal m) = ''Internal error: '' @ m"

definition storage_error_of :: "TransactionError \<Rightarrow> StorageError" where
  "storage_error_of err =
     (case err of
        TxStorage e \<Rightarrow> e
      | TxConflict \<Rightarrow> Conflict ''transaction write conflict''
      | other \<Rightarrow> TransactionFailed (transaction_error_message (\<lambda>_. []) other))"

primrec transaction_error_code :: "TransactionError \<Rightarrow> string" where
  "transaction_error_code TxConflict = ''SDB-TX001''"
| "transaction_error_code TxTimeout = ''SDB-TX002''"
| "transaction_error_code AlreadyCompleted = ''SDB-TX003''"
| "transaction_error_code NoActiveTransaction = ''SDB-TX004''"
| "transaction_error_code (TxStorage e) = ''SDB-TX005''"
| "transaction_error_code (TxInternal m) = ''SDB-TX006''"

section \<open>State (pending.rs, types.rs)\<close>

datatype PendingWrite = PInsert bytes | PDelete

datatype TransactionState = TxActive | TxCommitted | TxRolledBack

record Transaction =
  txn_id :: string
  pending_writes :: "(bytes, PendingWrite) hashmap"
  pending_edges :: "(string \<times> string \<times> string, PendingWrite) hashmap"
  pending_deletes :: "string set"
  created_at :: nat
  txn_state :: TransactionState

record ('ks, 'd, 'x) txn_env = "('ks, 'd, 'x) db_env" +
  te_edge :: "Edge codec"
  te_writes_order :: "(bytes \<times> PendingWrite) list \<Rightarrow> (bytes \<times> PendingWrite) list"
  te_edges_order :: "((string \<times> string \<times> string) \<times> PendingWrite) list \<Rightarrow> ((string \<times> string \<times> string) \<times> PendingWrite) list"
  te_overflow_checks :: bool

abbreviation env_of :: "('ks, 'd, 'x) txn_env \<Rightarrow> ('ks, 'd, 'x) db_env" where
  "env_of X \<equiv> db_env.truncate X"

text \<open>An operation on a transaction.\<close>

type_synonym 'a txn_op = "Transaction \<Rightarrow> Transaction \<times> (TransactionError + 'a)"

definition encode_doc_key :: "string \<Rightarrow> string \<Rightarrow> bytes" where
  "encode_doc_key coll k = as_bytes (''doc:'' @ coll @ '':'' @ k)"

definition txn_new :: "string \<Rightarrow> nat \<Rightarrow> Transaction" where
  "txn_new i now =
     \<lparr>txn_id = i, pending_writes = [], pending_edges = [], pending_deletes = {}, created_at = now, txn_state = TxActive\<rparr>"

definition is_active :: "Transaction \<Rightarrow> bool" where
  "is_active tx = (txn_state tx = TxActive)"

definition ensure_active :: "Transaction \<Rightarrow> TransactionError + unit" where
  "ensure_active tx = (if txn_state tx \<noteq> TxActive then Inl AlreadyCompleted else Inr ())"

text \<open>The time since a transaction began.\<close>

definition txn_elapsed :: "nat \<Rightarrow> Transaction \<Rightarrow> nat" where
  "txn_elapsed now tx = now - created_at tx"

definition is_pending_delete :: "Transaction \<Rightarrow> string \<Rightarrow> bool" where
  "is_pending_delete tx i = (i \<in> pending_deletes tx)"

section \<open>Documents (types.rs)\<close>

text \<open>The inserted documents among some pending writes whose key has a prefix.\<close>

fun decode_inserts :: "('ks, 'd, 'x) txn_env \<Rightarrow> string \<Rightarrow> (bytes \<times> PendingWrite) list \<Rightarrow> TransactionError + document list" where
  "decode_inserts X pre [] = Inr []"
| "decode_inserts X pre ((full_key, PInsert b) # ws) =
     (if starts_with (lossy full_key) pre
      then
        and_then (map_err TxStorage (dec (db_docs X) b)) (\<lambda>d.
        and_then (decode_inserts X pre ws) (\<lambda>ds. Inr (d # ds)))
      else decode_inserts X pre ws)"
| "decode_inserts X pre ((full_key, PDelete) # ws) = decode_inserts X pre ws"

definition pending_inserts_for_collection :: "('ks, 'd, 'x) txn_env \<Rightarrow> string \<Rightarrow> Transaction \<Rightarrow> TransactionError + document list" where
  "pending_inserts_for_collection X coll tx =
     decode_inserts X (''doc:'' @ coll @ '':'') (te_writes_order X (pending_writes tx))"

definition txn_get ::
  "('ks, 'd, 'x) txn_env \<Rightarrow> string \<Rightarrow> string \<Rightarrow> ('ks, 'x, 'z) database_scheme \<Rightarrow> Transaction \<Rightarrow> TransactionError + document option" where
  "txn_get X coll k s tx =
     and_then (ensure_active tx) (\<lambda>_.
       case hm_get (pending_writes tx) (encode_doc_key coll k) of
         Some (PInsert b) \<Rightarrow> and_then (map_err TxStorage (dec (db_docs X) b)) (\<lambda>d. Inr (Some d))
       | Some PDelete \<Rightarrow> Inr None
       | None \<Rightarrow> map_err TxStorage (documents_get (env_of X) coll k s))"

definition txn_insert :: "('ks, 'd, 'x) txn_env \<Rightarrow> document \<Rightarrow> unit txn_op" where
  "txn_insert X doc tx =
     (case and_then (ensure_active tx) (\<lambda>_. map_err TxStorage (enc (db_docs X) doc)) of
        Inl e \<Rightarrow> (tx, Inl e)
      | Inr b \<Rightarrow>
          (tx\<lparr>pending_writes := hm_insert (encode_doc_key (collection doc) (key doc)) (PInsert b) (pending_writes tx),
              pending_deletes := pending_deletes tx - {doc_id doc}\<rparr>, Inr ()))"

definition txn_update :: "('ks, 'd, 'x) txn_env \<Rightarrow> document \<Rightarrow> unit txn_op" where
  "txn_update X doc = txn_insert X doc"

definition txn_delete :: "string \<Rightarrow> string \<Rightarrow> unit txn_op" where
  "txn_delete coll k tx =
     (case ensure_active tx of
        Inl e \<Rightarrow> (tx, Inl e)
      | Inr _ \<Rightarrow>
          (tx\<lparr>pending_writes := hm_insert (encode_doc_key coll k) PDelete (pending_writes tx),
              pending_deletes := insert (coll @ '':'' @ k) (pending_deletes tx)\<rparr>, Inr ()))"

definition txn_list_documents ::
  "('ks, 'd, 'x) txn_env \<Rightarrow> string \<Rightarrow> nat \<Rightarrow> ('ks, 'x, 'z) database_scheme \<Rightarrow> Transaction \<Rightarrow> TransactionError + document list" where
  "txn_list_documents X coll limit s tx =
     and_then (ensure_active tx) (\<lambda>_.
     and_then (map_err TxStorage (documents_list (env_of X) coll None 10000 s)) (\<lambda>(storage_docs, _).
       let unmodified = filter (\<lambda>doc. hm_get (pending_writes tx) (encode_doc_key coll (key doc)) = None) storage_docs in
       and_then (decode_inserts X (''doc:'' @ coll @ '':'') (te_writes_order X (pending_writes tx))) (\<lambda>inserted.
         Inr (take limit (sort_key key (unmodified @ inserted))))))"

section \<open>Edges (types.rs)\<close>

definition txn_create_edge :: "('ks, 'd, 'x) txn_env \<Rightarrow> Edge \<Rightarrow> unit txn_op" where
  "txn_create_edge X e tx =
     (case and_then (ensure_active tx) (\<lambda>_. map_err TxStorage (enc (te_edge X) e)) of
        Inl err \<Rightarrow> (tx, Inl err)
      | Inr b \<Rightarrow>
          (tx\<lparr>pending_edges := hm_insert (edge_from e, edge_label e, edge_to e) (PInsert b) (pending_edges tx)\<rparr>, Inr ()))"

definition txn_get_edge ::
  "('ks, 'd, 'x) txn_env \<Rightarrow> string \<Rightarrow> string \<Rightarrow> string \<Rightarrow> ('ks, 'x, 'z) database_scheme \<Rightarrow> Transaction \<Rightarrow> TransactionError + Edge option" where
  "txn_get_edge X from label to s tx =
     and_then (ensure_active tx) (\<lambda>_.
       case hm_get (pending_edges tx) (from, label, to) of
         Some (PInsert b) \<Rightarrow> and_then (map_err TxStorage (dec (te_edge X) b)) (\<lambda>e. Inr (Some e))
       | Some PDelete \<Rightarrow> Inr None
       | None \<Rightarrow> map_err TxStorage (edge_get (edge_env.truncate X) from label to s))"

definition txn_delete_edge :: "string \<Rightarrow> string \<Rightarrow> string \<Rightarrow> unit txn_op" where
  "txn_delete_edge from label to tx =
     (case ensure_active tx of
        Inl e \<Rightarrow> (tx, Inl e)
      | Inr _ \<Rightarrow> (tx\<lparr>pending_edges := hm_insert (from, label, to) PDelete (pending_edges tx)\<rparr>, Inr ()))"

section \<open>Commit and rollback (types.rs)\<close>

text \<open>\<open>splitn(3, ':')\<close>.\<close>

definition splitn3 :: "char \<Rightarrow> string \<Rightarrow> string list" where
  "splitn3 c s =
     (case split_once c s of
        None \<Rightarrow> [s]
      | Some (a, r) \<Rightarrow> (case split_once c r of None \<Rightarrow> [a, r] | Some (b, r') \<Rightarrow> [a, b, r']))"

definition doc_op :: "('ks, 'd, 'x) txn_env \<Rightarrow> bytes \<times> PendingWrite \<Rightarrow> TransactionError + WriteOp" where
  "doc_op X w =
     (case w of (full_key, pending) \<Rightarrow>
        let key_str = lossy full_key in
        case splitn3 (CHR '':'') key_str of
          [p, coll, k] \<Rightarrow>
            if p \<noteq> ''doc'' then Inl (TxInternal (''malformed pending_writes key: expected '' @ quoted ''doc:collection:key'' @ '', got '' @ quoted key_str))
            else
              (case pending of
                 PInsert b \<Rightarrow> and_then (map_err TxStorage (dec (db_docs X) b)) (\<lambda>d. Inr (InsertDoc d))
               | PDelete \<Rightarrow> Inr (DeleteDoc coll k))
        | _ \<Rightarrow> Inl (TxInternal (''malformed pending_writes key: expected '' @ quoted ''doc:collection:key'' @ '', got '' @ quoted key_str)))"

definition edge_write_op :: "('ks, 'd, 'x) txn_env \<Rightarrow> (string \<times> string \<times> string) \<times> PendingWrite \<Rightarrow> TransactionError + WriteOp" where
  "edge_write_op X w =
     (case w of ((from, label, to), pending) \<Rightarrow>
        case pending of
          PInsert b \<Rightarrow> and_then (map_err TxStorage (dec (te_edge X) b)) (\<lambda>e. Inr (InsertEdge e))
        | PDelete \<Rightarrow> Inr (DeleteEdge from label to))"

definition commit_ops :: "('ks, 'd, 'x) txn_env \<Rightarrow> Transaction \<Rightarrow> TransactionError + WriteOp list" where
  "commit_ops X tx =
     and_then (collect_results (doc_op X) (te_writes_order X (pending_writes tx))) (\<lambda>docs.
     and_then (collect_results (edge_write_op X) (te_edges_order X (pending_edges tx))) (\<lambda>edges.
       Inr (docs @ edges)))"

definition txn_commit ::
  "('ks, 'd, 'x) txn_env \<Rightarrow> tx_env \<Rightarrow> tx_env \<Rightarrow> Transaction \<Rightarrow> ('ks, 'x, 'z) database_scheme
     \<Rightarrow> ('ks, 'x, 'z) database_scheme \<times> Transaction \<times> (TransactionError + unit)" where
  "txn_commit X T T' tx s =
     (case and_then (ensure_active tx) (\<lambda>_. commit_ops X tx) of
        Inl e \<Rightarrow> (s, tx, Inl e)
      | Inr ops \<Rightarrow>
          (case atomic_write_batch (env_of X) T T' ops s of
             (s', Inl e) \<Rightarrow> (s', tx, Inl (TxStorage e))
           | (s', Inr _) \<Rightarrow>
               (s', tx\<lparr>pending_writes := [], pending_edges := [], pending_deletes := {}, txn_state := TxCommitted\<rparr>, Inr ())))"

definition txn_rollback :: "unit txn_op" where
  "txn_rollback tx =
     (case ensure_active tx of
        Inl e \<Rightarrow> (tx, Inl e)
      | Inr _ \<Rightarrow>
          (tx\<lparr>pending_writes := [], pending_edges := [], pending_deletes := {}, txn_state := TxRolledBack\<rparr>, Inr ()))"

section \<open>The documents that a transaction sees\<close>

lemma env_of_simps [simp]: "db_docs (env_of X) = db_docs X" "ee_engine (env_of X) = ee_engine X"
  by (simp_all add: db_env.defs)

definition overlay :: "('ks, 'd, 'x) txn_env \<Rightarrow> (bytes \<rightharpoonup> PendingWrite) \<Rightarrow> all_docs \<Rightarrow> all_docs" where
  "overlay X m A = (\<lambda>(c, k).
     if CHR '':'' \<in> set c then A (c, k)
     else case m (encode_doc_key c k) of
       None \<Rightarrow> A (c, k)
     | Some PDelete \<Rightarrow> None
     | Some (PInsert b) \<Rightarrow> (case dec (db_docs X) b of Inr d \<Rightarrow> Some d | Inl _ \<Rightarrow> None))"

definition txn_docs :: "('ks, 'd, 'x) txn_env \<Rightarrow> Transaction \<Rightarrow> all_docs \<Rightarrow> all_docs" where
  "txn_docs X tx A = overlay X (hm_get (pending_writes tx)) A"

lemma encode_doc_key_eq [simp]:
  "CHR '':'' \<notin> set c \<Longrightarrow> CHR '':'' \<notin> set c' \<Longrightarrow> encode_doc_key c k = encode_doc_key c' k' \<longleftrightarrow> c = c' \<and> k = k'"
proof -
  assume "CHR '':'' \<notin> set c" "CHR '':'' \<notin> set c'"
  then have "split_once (CHR '':'') (c @ CHR '':'' # k) = Some (c, k)" "split_once (CHR '':'') (c' @ CHR '':'' # k') = Some (c', k')"
    by (simp_all add: split_once_Some_iff)
  then have "c @ CHR '':'' # k = c' @ CHR '':'' # k' \<longleftrightarrow> c = c' \<and> k = k'" by (metis option.inject prod.inject)
  then show ?thesis unfolding encode_doc_key_def as_bytes_eq_iff by simp
qed

lemma collection_no_colon [simp]: "CHR '':'' \<notin> set (collection d)"
  by (auto simp: collection_def first_segment_def dest: set_takeWhileD)

text \<open>A pending write of a document that is well formed.\<close>

definition doc_write_ok :: "('ks, 'd, 'x) txn_env \<Rightarrow> bytes \<times> PendingWrite \<Rightarrow> bool" where
  "doc_write_ok X w \<longleftrightarrow> (\<exists>c k. CHR '':'' \<notin> set c \<and> fst w = encode_doc_key c k \<and> utf8_valid (fst w) \<and>
     (\<forall>b. snd w = PInsert b \<longrightarrow> (\<exists>d. dec (db_docs X) b = Inr d \<and> doc_at d = (c, k))))"

definition edge_write_ok :: "('ks, 'd, 'x) txn_env \<Rightarrow> (string \<times> string \<times> string) \<times> PendingWrite \<Rightarrow> bool" where
  "edge_write_ok X w \<longleftrightarrow>
     (\<forall>b. snd w = PInsert b \<longrightarrow> (\<exists>e. dec (te_edge X) b = Inr e \<and> (edge_from e, edge_label e, edge_to e) = fst w))"

definition txn_wf :: "('ks, 'd, 'x) txn_env \<Rightarrow> Transaction \<Rightarrow> bool" where
  "txn_wf X tx \<longleftrightarrow>
     hm_wf (pending_writes tx) \<and> hm_wf (pending_edges tx) \<and>
     (\<forall>w\<in>set (pending_writes tx). doc_write_ok X w) \<and> (\<forall>w\<in>set (pending_edges tx). edge_write_ok X w) \<and>
     (txn_state tx \<noteq> TxActive \<longrightarrow> pending_writes tx = [] \<and> pending_edges tx = [] \<and> pending_deletes tx = {})"

lemma overlay_cong: "(\<And>c k. CHR '':'' \<notin> set c \<Longrightarrow> m (encode_doc_key c k) = m' (encode_doc_key c k)) \<Longrightarrow> overlay X m A = overlay X m' A"
  by (auto simp: overlay_def fun_eq_iff)

lemma overlay_insert:
  assumes "dec (db_docs X) b = Inr d"
  shows "overlay X (m(encode_doc_key (collection d) (key d) \<mapsto> PInsert b)) A = (overlay X m A)(doc_at d \<mapsto> d)"
  using assms by (auto simp: overlay_def fun_eq_iff doc_at_def)

lemma overlay_delete:
  "CHR '':'' \<notin> set c \<Longrightarrow> overlay X (m(encode_doc_key c k \<mapsto> PDelete)) A = (overlay X m A)((c, k) := None)"
  by (auto simp: overlay_def fun_eq_iff)

lemma hm_get_insert_fun: "hm_get (hm_insert k v m) = (hm_get m)(k \<mapsto> v)"
  by (simp add: fun_eq_iff)

lemma txn_insert_docs:
  assumes "codec_ok (db_docs X)" "txn_insert X d tx = (tx', Inr u)"
  shows "txn_docs X tx' A = (txn_docs X tx A)(doc_at d \<mapsto> d)"
proof -
  obtain b where "enc (db_docs X) d = Inr b"
    "pending_writes tx' = hm_insert (encode_doc_key (collection d) (key d)) (PInsert b) (pending_writes tx)"
    using assms(2) by (auto simp: txn_insert_def split: sum.splits simp: and_then_Inr_iff)
  moreover from this assms(1) have "dec (db_docs X) b = Inr d" by (simp add: codec_ok_def)
  ultimately show ?thesis by (simp add: txn_docs_def hm_get_insert_fun overlay_insert)
qed

lemma txn_delete_docs:
  assumes "CHR '':'' \<notin> set c" "txn_delete c k tx = (tx', Inr u)"
  shows "txn_docs X tx' A = (txn_docs X tx A)((c, k) := None)"
  using assms by (auto simp: txn_delete_def txn_docs_def hm_get_insert_fun overlay_delete split: sum.splits)

lemma txn_get_docs:
  assumes eng: "db_engine (env_of X) content" and rep: "represents_docs (env_of X) content A s" and c: "CHR '':'' \<notin> set c"
    and get: "txn_get X c k s tx = Inr r"
  shows "r = txn_docs X tx A (c, k)"
proof (cases "hm_get (pending_writes tx) (encode_doc_key c k)")
  case None
  then have "documents_get (env_of X) c k s = Inr r" using get by (auto simp: txn_get_def and_then_Inr_iff)
  then have "r = A (c, k)" by (rule db_engine.documents_get_rep [OF eng rep])
  then show ?thesis using None c by (simp add: txn_docs_def overlay_def)
next
  case (Some w)
  then show ?thesis using get c by (cases w) (auto simp: txn_get_def txn_docs_def overlay_def and_then_Inr_iff)
qed

section \<open>The well-formed transactions\<close>

lemma hm_insert_entries: "hm_wf m \<Longrightarrow> set (hm_insert k v m) \<subseteq> insert (k, v) (set m)"
  by (induction m) (auto split: if_splits simp: hm_wf_def)

lemma hm_insert_ball: "hm_wf m \<Longrightarrow> P (k, v) \<Longrightarrow> Ball (set m) P \<Longrightarrow> Ball (set (hm_insert k v m)) P"
proof (rule ballI)
  fix w assume "hm_wf m" "P (k, v)" "Ball (set m) P" "w \<in> set (hm_insert k v m)"
  moreover from this have "w = (k, v) \<or> w \<in> set m" using hm_insert_entries by fast
  ultimately show "P w" by (elim disjE) simp_all
qed

lemma txn_wf_new: "txn_wf X (txn_new i now)"
  by (simp add: txn_wf_def txn_new_def)

lemma txn_wf_write:
  assumes "txn_wf X tx" "txn_state tx = TxActive" "doc_write_ok X (k, w)"
  shows "txn_wf X (tx\<lparr>pending_writes := hm_insert k w (pending_writes tx), pending_deletes := P\<rparr>)"
  using assms hm_insert_ball [of "pending_writes tx" "doc_write_ok X" k w] unfolding txn_wf_def by simp

lemma txn_wf_edge_write:
  assumes "txn_wf X tx" "txn_state tx = TxActive" "edge_write_ok X (k, w)"
  shows "txn_wf X (tx\<lparr>pending_edges := hm_insert k w (pending_edges tx)\<rparr>)"
  using assms hm_insert_ball [of "pending_edges tx" "edge_write_ok X" k w] unfolding txn_wf_def by simp

lemma txn_wf_insert:
  assumes wf: "txn_wf X tx" and codec: "codec_ok (db_docs X)" and key: "utf8_valid (encode_doc_key (collection d) (key d))"
    and res: "txn_insert X d tx = (tx', r)"
  shows "txn_wf X tx'"
proof (cases r)
  case (Inr u)
  obtain b where b: "enc (db_docs X) d = Inr b" "txn_state tx = TxActive"
    and tx': "tx' = tx\<lparr>pending_writes := hm_insert (encode_doc_key (collection d) (key d)) (PInsert b) (pending_writes tx),
       pending_deletes := pending_deletes tx - {doc_id d}\<rparr>"
    using res Inr by (auto simp: txn_insert_def ensure_active_def and_then_Inr_iff split: sum.splits if_splits)
  then have "doc_write_ok X (encode_doc_key (collection d) (key d), PInsert b)"
    using codec key by (auto simp: doc_write_ok_def codec_ok_def doc_at_def intro!: exI [of _ "collection d"])
  then show ?thesis unfolding tx' by (rule txn_wf_write [OF wf b(2)])
qed (use wf res in \<open>auto simp: txn_insert_def split: sum.splits\<close>)

lemma txn_wf_delete:
  assumes wf: "txn_wf X tx" and key: "CHR '':'' \<notin> set c" "utf8_valid (encode_doc_key c k)" and res: "txn_delete c k tx = (tx', r)"
  shows "txn_wf X tx'"
proof -
  have "doc_write_ok X (encode_doc_key c k, PDelete)" using key by (auto simp: doc_write_ok_def)
  then show ?thesis
    using wf res by (auto simp: txn_delete_def ensure_active_def intro: txn_wf_write split: if_splits)
qed

lemma txn_wf_create_edge:
  assumes wf: "txn_wf X tx" and codec: "codec_ok (te_edge X)" and res: "txn_create_edge X e tx = (tx', r)"
  shows "txn_wf X tx'"
proof (cases r)
  case (Inr u)
  obtain b where b: "enc (te_edge X) e = Inr b" "txn_state tx = TxActive"
    and tx': "tx' = tx\<lparr>pending_edges := hm_insert (edge_from e, edge_label e, edge_to e) (PInsert b) (pending_edges tx)\<rparr>"
    using res Inr by (auto simp: txn_create_edge_def ensure_active_def and_then_Inr_iff split: sum.splits if_splits)
  then have "edge_write_ok X ((edge_from e, edge_label e, edge_to e), PInsert b)"
    using codec by (auto simp: edge_write_ok_def codec_ok_def)
  then show ?thesis unfolding tx' by (rule txn_wf_edge_write [OF wf b(2)])
qed (use wf res in \<open>auto simp: txn_create_edge_def split: sum.splits\<close>)

lemma txn_wf_delete_edge: "txn_wf X tx \<Longrightarrow> txn_delete_edge f l t tx = (tx', r) \<Longrightarrow> txn_wf X tx'"
proof -
  assume wf: "txn_wf X tx" and res: "txn_delete_edge f l t tx = (tx', r)"
  have "edge_write_ok X ((f, l, t), PDelete)" by (simp add: edge_write_ok_def)
  then show ?thesis
    using wf res by (auto simp: txn_delete_edge_def ensure_active_def intro: txn_wf_edge_write split: if_splits)
qed

lemma txn_wf_end:
  "txn_wf X tx \<Longrightarrow> txn_rollback tx = (tx', r) \<Longrightarrow> txn_wf X tx'"
  "txn_wf X tx \<Longrightarrow> txn_commit X T T' tx s = (s', tx', r) \<Longrightarrow> txn_wf X tx'"
  by (auto simp: txn_rollback_def txn_commit_def txn_wf_def split: sum.splits prod.splits)

section \<open>Publishing the documents\<close>

lemma splitn3_doc_key: "CHR '':'' \<notin> set c \<Longrightarrow> splitn3 (CHR '':'') (''doc:'' @ c @ '':'' @ k) = [''doc'', c, k]"
proof -
  assume "CHR '':'' \<notin> set c"
  then have "split_once (CHR '':'') (c @ CHR '':'' # k) = Some (c, k)" by (simp add: split_once_Some_iff)
  then show ?thesis by (simp add: splitn3_def)
qed

lemma lossy_doc_key: "utf8_valid (encode_doc_key c k) \<Longrightarrow> lossy (encode_doc_key c k) = ''doc:'' @ c @ '':'' @ k"
  unfolding lossy_def by (simp add: encode_doc_key_def del: as_bytes_append as_bytes_Cons append_Cons append.simps)

lemma run_ops_append: "run_ops (ops @ ops') A = and_then (run_ops ops A) (run_ops ops')"
  by (induction ops arbitrary: A) (auto simp: and_then_def split: sum.split)

lemma overlay_Cons:
  assumes "f \<notin> fst ` set ws" "CHR '':'' \<notin> set c" "f = encode_doc_key c k"
  shows "overlay X (map_of ((f, w) # ws)) A =
    overlay X (map_of ws) (A((c, k) := (case w of PInsert b \<Rightarrow> (case dec (db_docs X) b of Inr d \<Rightarrow> Some d | Inl _ \<Rightarrow> None) | PDelete \<Rightarrow> None)))"
proof -
  have "map_of ws (encode_doc_key c k) = None" using assms by (simp add: map_of_eq_None_iff)
  then show ?thesis using assms(2,3) by (auto simp: overlay_def fun_eq_iff fun_upd_def split: PendingWrite.split option.split)
qed

lemma run_doc_ops:
  assumes "collect_results (doc_op X) ws = Inr ops" "\<forall>w\<in>set ws. doc_write_ok X w" "distinct (map fst ws)"
  shows "run_ops ops A = Inr (overlay X (map_of ws) A)"
  using assms
proof (induction ws arbitrary: ops A)
  case (Cons w ws)
  obtain f p where w: "w = (f, p)" by fastforce
  obtain c k where ok: "CHR '':'' \<notin> set c" "f = encode_doc_key c k" "utf8_valid f"
    and ins: "\<And>b. p = PInsert b \<Longrightarrow> \<exists>d. dec (db_docs X) b = Inr d \<and> doc_at d = (c, k)"
    using Cons.prems(2) by (auto simp: w doc_write_ok_def)
  obtain wo ops' where res: "doc_op X w = Inr wo" "collect_results (doc_op X) ws = Inr ops'" "ops = wo # ops'"
    using Cons.prems(1) by (auto simp: and_then_Inr_iff)
  let ?v = "case p of PInsert b \<Rightarrow> (case dec (db_docs X) b of Inr d \<Rightarrow> Some d | Inl _ \<Rightarrow> None) | PDelete \<Rightarrow> None"
  have "run_op wo A = Inr (A((c, k) := ?v))"
    using res(1) ins lossy_doc_key [of c k] splitn3_doc_key [OF ok(1), of k] ok(2,3)
    by (cases p) (auto simp: w doc_op_def Let_def)
  then have "run_ops ops A = run_ops ops' (A((c, k) := ?v))" by (simp add: res(3))
  also have "\<dots> = Inr (overlay X (map_of ws) (A((c, k) := ?v)))" by (rule Cons.IH [OF res(2)]) (use Cons.prems in auto)
  also have "\<dots> = Inr (overlay X (map_of (w # ws)) A)"
    unfolding w by (subst overlay_Cons [where c = c and k = k]) (use Cons.prems(3) ok in \<open>auto simp: w\<close>)
  finally show ?case .
qed (simp add: overlay_def fun_eq_iff)

lemma collect_edge_ops:
  "collect_results (edge_write_op X) ws = Inr ops \<Longrightarrow> run_ops ops A = Inr A \<and> (\<forall>w\<in>set ops. op_docs w = []) \<and>
   (\<forall>k b e. (k, PInsert b) \<in> set ws \<longrightarrow> dec (te_edge X) b = Inr e \<longrightarrow> InsertEdge e \<in> set ops)"
proof (induction ws arbitrary: ops)
  case (Cons w ws)
  obtain f l t p where w: "w = ((f, l, t), p)" by (metis surj_pair)
  obtain wo ops' where res: "edge_write_op X w = Inr wo" "collect_results (edge_write_op X) ws = Inr ops'" "ops = wo # ops'"
    using Cons.prems by (auto simp: and_then_Inr_iff)
  show ?case using Cons.IH [OF res(2)] res(1) by (cases p) (auto simp: res(3) w edge_write_op_def and_then_Inr_iff)
qed simp

lemma doc_ops_inserted:
  "collect_results (doc_op X) ws = Inr ops \<Longrightarrow> w \<in> set ops \<Longrightarrow> d \<in> set (op_docs w) \<Longrightarrow>
   \<exists>k b. (k, PInsert b) \<in> set ws \<and> dec (db_docs X) b = Inr d"
proof (induction ws arbitrary: ops)
  case (Cons v ws)
  obtain wo ops' where res: "doc_op X v = Inr wo" "collect_results (doc_op X) ws = Inr ops'" "ops = wo # ops'"
    using Cons.prems(1) by (auto simp: and_then_Inr_iff)
  show ?case
  proof (cases "w \<in> set ops'")
    case True
    then show ?thesis using Cons.IH [OF res(2) True Cons.prems(3)] by auto
  next
    case False
    then have "wo = w" using Cons.prems(2) res(3) by simp
    then have "\<exists>k b. v = (k, PInsert b) \<and> dec (db_docs X) b = Inr d"
      using res(1) Cons.prems(3) by (cases v; cases "snd v") (auto simp: doc_op_def Let_def and_then_Inr_iff split: list.splits if_splits)
    then show ?thesis by (metis list.set_intros(1))
  qed
qed simp

lemma txn_commit_steps:
  assumes "txn_commit X T T' tx s = (s', tx', Inr u)"
  obtains ops where "txn_state tx = TxActive" "commit_ops X tx = Inr ops" "atomic_write_batch (env_of X) T T' ops s = (s', Inr ())"
    "tx' = tx\<lparr>pending_writes := [], pending_edges := [], pending_deletes := {}, txn_state := TxCommitted\<rparr>"
  using assms by (auto simp: txn_commit_def ensure_active_def and_then_Inr_iff split: sum.splits prod.splits if_splits)

lemma txn_commit_fails:
  assumes "txn_commit X T T' tx s = (s', tx', Inl e)"
  shows "tx' = tx \<and> same_disk catalogue_keyspaces s s'"
  using assms failed_batch [of "env_of X" T T' _ s s']
  by (auto simp: txn_commit_def disk_frame.frame_refl split: sum.splits prod.splits)

text \<open>Any order of the entries of a map gives the same map.\<close>

lemma map_of_reordered: "hm_wf m \<Longrightarrow> mset ws = mset m \<Longrightarrow> map_of ws = hm_get m \<and> distinct (map fst ws) \<and> set ws = set m"
proof -
  assume wf: "hm_wf m" and ms: "mset ws = mset m"
  have m: "distinct (map fst m)" using wf by (simp add: hm_wf_def strict_sorted_iff)
  have "mset (map fst ws) = mset (map fst m)" by (simp only: mset_map ms)
  then have ws: "distinct (map fst ws)" using m mset_eq_imp_distinct_iff by blast
  have set: "set ws = set m" by (rule mset_eq_setD [OF ms])
  then have "map_of ws = map_of m" using map_of_inject_set [OF ws m] by simp
  then show ?thesis using ws set by (simp only: hm_get_eq_map_of)
qed

lemma txn_commit_ok:
  assumes eng: "db_engine (env_of X) content" and rep: "represents_docs (env_of X) content A s" and names: "index_keyspaces_distinct s"
    and wf: "txn_wf X tx" and order: "\<And>ws. mset (te_writes_order X ws) = mset ws" "\<And>es. mset (te_edges_order X es) = mset es"
    and docs: "\<And>k b d. (k, PInsert b) \<in> set (pending_writes tx) \<Longrightarrow> dec (db_docs X) b = Inr d \<Longrightarrow> docs_admissible (env_of X) s A d"
    and res: "txn_commit X T T' tx s = (s', tx', Inr u)"
  shows "represents_docs (env_of X) content (txn_docs X tx A) s' \<and>
    (\<forall>k b e. (k, PInsert b) \<in> set (pending_edges tx) \<longrightarrow> dec (te_edge X) b = Inr e \<longrightarrow> endpoints_in (txn_docs X tx A) e)"
proof -
  obtain ops where ops: "commit_ops X tx = Inr ops" "atomic_write_batch (env_of X) T T' ops s = (s', Inr ())"
    by (rule txn_commit_steps [OF res])
  let ?ws = "te_writes_order X (pending_writes tx)" and ?es = "te_edges_order X (pending_edges tx)"
  have ws: "map_of ?ws = hm_get (pending_writes tx)" "distinct (map fst ?ws)" "set ?ws = set (pending_writes tx)"
    using map_of_reordered [OF _ order(1)] wf by (auto simp: txn_wf_def)
  have es: "set ?es = set (pending_edges tx)" using order(2) by (metis set_mset_mset)
  obtain ds fs where ds: "collect_results (doc_op X) ?ws = Inr ds" "collect_results (edge_write_op X) ?es = Inr fs" "ops = ds @ fs"
    using ops(1) by (auto simp: commit_ops_def and_then_Inr_iff)
  have "run_ops ds A = Inr (txn_docs X tx A)"
    unfolding txn_docs_def ws(1) [symmetric] by (rule run_doc_ops [OF ds(1) _ ws(2)]) (use wf ws(3) in \<open>simp add: txn_wf_def\<close>)
  then have run: "run_ops ops A = Inr (txn_docs X tx A)" using collect_edge_ops [OF ds(2)] by (simp add: ds(3) run_ops_append)
  have "docs_admissible (env_of X) s A d" if wd: "w \<in> set ops" "d \<in> set (op_docs w)" for w d
  proof -
    have "w \<in> set ds" using wd collect_edge_ops [OF ds(2)] by (auto simp: ds(3))
    then obtain k b where "(k, PInsert b) \<in> set (pending_writes tx)" "dec (db_docs X) b = Inr d"
      using doc_ops_inserted [OF ds(1) _ wd(2)] ws(3) by auto
    then show ?thesis by (rule docs)
  qed
  then obtain A' where A': "run_ops ops A = Inr A'" "represents_docs (env_of X) content A' s'" "\<forall>e. InsertEdge e \<in> set ops \<longrightarrow> endpoints_in A' e"
    using db_engine.atomic_write_batch_ok [OF eng rep names _ ops(2)] by blast
  then show ?thesis using run collect_edge_ops [OF ds(2)] es by (auto simp: ds(3))
qed

section \<open>Listing\<close>

lemma docs_after_all:
  assumes fin: "finite (dom D)" and wf: "\<And>k d. D k = Some d \<Longrightarrow> key d = k"
    and sorted: "sorted (map key ds)" "distinct (map key ds)" and elems: "set ds = ran D"
  shows "ds = docs_after D None"
proof -
  have keys: "key ` ran D = dom D" using wf by (force simp: ran_def dom_def image_iff)
  have ds: "map key ds = sorted_list_of_set (dom D)"
    using sorted_list_of_set.idem_if_sorted_distinct [OF sorted] elems keys by simp
  have le: "as_bytes a \<le> as_bytes b \<longleftrightarrow> a \<le> b" for a b by (simp add: linorder_not_less [symmetric])
  have "sorted (map as_bytes (sorted_list_of_set (dom D)))" "distinct (map as_bytes (sorted_list_of_set (dom D)))"
    using le by (simp_all add: sorted_map distinct_map inj_on_def)
  then have bytes: "sorted_list_of_set (as_bytes ` dom D) = map as_bytes (sorted_list_of_set (dom D))"
    using sorted_list_of_set.idem_if_sorted_distinct [of "map as_bytes (sorted_list_of_set (dom D))"] fin by simp
  have "ds = map (\<lambda>k. the (D k)) (map key ds)"
    using elems wf by (intro nth_equalityI) (auto simp: ran_def dest!: nth_mem)
  then show ?thesis by (simp add: docs_after_def bytes ds comp_def)
qed

text \<open>The pending insertions of a collection are the documents that replace those of the store.\<close>

lemma starts_with_doc_key:
  assumes "CHR '':'' \<notin> set c" "CHR '':'' \<notin> set coll"
  shows "starts_with (''doc:'' @ c @ '':'' @ k) (''doc:'' @ coll @ '':'') \<longleftrightarrow> c = coll"
proof -
  have "take (Suc (length coll)) (c @ CHR '':'' # k) = coll @ '':'' \<longleftrightarrow> c = coll" (is "?l \<longleftrightarrow> _")
  proof
    assume ?l
    then have "c @ CHR '':'' # k = (coll @ '':'') @ drop (Suc (length coll)) (c @ CHR '':'' # k)" by (metis append_take_drop_id)
    then have "split_once (CHR '':'') (c @ CHR '':'' # k) = Some (coll, drop (Suc (length coll)) (c @ CHR '':'' # k))"
      using assms(2) by (subst split_once_Some_iff) simp
    moreover have "split_once (CHR '':'') (c @ CHR '':'' # k) = Some (c, k)" using assms(1) by (simp add: split_once_Some_iff)
    ultimately show "c = coll" by simp
  qed simp
  then show ?thesis by (simp add: starts_with_def)
qed

lemma decode_inserts_ok:
  assumes "decode_inserts X (''doc:'' @ coll @ '':'') ws = Inr ds" "\<forall>w\<in>set ws. doc_write_ok X w" "distinct (map fst ws)" "CHR '':'' \<notin> set coll"
  shows "distinct (map key ds) \<and>
    set ds = {d. \<exists>k b. (encode_doc_key coll k, PInsert b) \<in> set ws \<and> dec (db_docs X) b = Inr d \<and> doc_at d = (coll, k)}"
  using assms(1-3)
proof (induction ws arbitrary: ds)
  case (Cons w ws)
  obtain f p where w: "w = (f, p)" by fastforce
  obtain c k where ok: "CHR '':'' \<notin> set c" "f = encode_doc_key c k" "utf8_valid f"
    and ins: "\<And>b. p = PInsert b \<Longrightarrow> \<exists>d. dec (db_docs X) b = Inr d \<and> doc_at d = (c, k)"
    using Cons.prems(2) by (auto simp: w doc_write_ok_def)
  have new: "(encode_doc_key c k, p') \<notin> set ws" for p' using Cons.prems(3) by (force simp: w ok(2))
  have pre: "starts_with (lossy f) (''doc:'' @ coll @ '':'') \<longleftrightarrow> c = coll"
    using lossy_doc_key ok(2,3) starts_with_doc_key [OF ok(1) assms(4)] by simp
  have IH: "decode_inserts X (''doc:'' @ coll @ '':'') ws = Inr ds' \<Longrightarrow> distinct (map key ds') \<and>
    set ds' = {d. \<exists>k b. (encode_doc_key coll k, PInsert b) \<in> set ws \<and> dec (db_docs X) b = Inr d \<and> doc_at d = (coll, k)}" for ds'
    by (rule Cons.IH) (use Cons.prems in auto)
  show ?case
  proof (cases "\<exists>b. p = PInsert b \<and> c = coll")
    case True
    then obtain b d where b: "p = PInsert b" "c = coll" "dec (db_docs X) b = Inr d" "doc_at d = (coll, k)" using ins by blast
    then obtain ds' where ds': "decode_inserts X (''doc:'' @ coll @ '':'') ws = Inr ds'" "ds = d # ds'"
      using Cons.prems(1) pre by (auto simp: w and_then_Inr_iff)
    have "key d \<notin> key ` set ds'" using IH [OF ds'(1)] new b(2,4) by (auto simp: doc_at_def)
    then have "distinct (map key ds)" using IH [OF ds'(1)] by (simp add: ds'(2))
    moreover have "(\<exists>k b. (encode_doc_key coll k, PInsert b) \<in> set (w # ws) \<and> dec (db_docs X) b = Inr d' \<and> doc_at d' = (coll, k)) \<longleftrightarrow>
      d' = d \<or> (\<exists>k b. (encode_doc_key coll k, PInsert b) \<in> set ws \<and> dec (db_docs X) b = Inr d' \<and> doc_at d' = (coll, k))" for d'
      using b ok assms(4) by (auto simp: w)
    ultimately show ?thesis using IH [OF ds'(1)] by (auto simp: ds'(2))
  next
    case False
    then have "decode_inserts X (''doc:'' @ coll @ '':'') ws = Inr ds" using Cons.prems(1) pre by (cases p) (auto simp: w)
    from IH [OF this] False show ?thesis using ok assms(4) by (cases p) (auto simp: w)
  qed
qed simp

lemma docs_after_parts:
  assumes "finite (dom D)" "\<And>k d. D k = Some d \<Longrightarrow> key d = k"
  shows "set (docs_after D None) = ran D \<and> distinct (map key (docs_after D None))"
proof -
  have fin: "finite (as_bytes ` dom D)" using assms(1) by simp
  have keys: "key (the (D (of_bytes b))) = of_bytes b" if "b \<in> as_bytes ` dom D" for b using that assms(2) by auto
  have "map key (docs_after D None) = map of_bytes (sorted_list_of_set (as_bytes ` dom D))"
    using fin keys by (simp add: docs_after_def comp_def)
  then have "distinct (map key (docs_after D None))" using fin by (auto simp: distinct_map intro!: inj_onI)
  moreover have "set (docs_after D None) = ran D" 
  proof -
    have "set (docs_after D None) = (\<lambda>k. the (D k)) ` dom D" using fin by (simp add: docs_after_def image_image)
    then show ?thesis by (force simp: ran_def dom_def image_iff)
  qed
  ultimately show ?thesis by simp
qed

lemma docs_in_txn:
  assumes "CHR '':'' \<notin> set coll"
  shows "docs_in (txn_docs X tx A) coll k = (case hm_get (pending_writes tx) (encode_doc_key coll k) of
     None \<Rightarrow> A (coll, k) | Some PDelete \<Rightarrow> None
   | Some (PInsert b) \<Rightarrow> (case dec (db_docs X) b of Inr d \<Rightarrow> Some d | Inl _ \<Rightarrow> None))"
  using assms by (simp add: docs_in_def txn_docs_def overlay_def)

lemma stored_documents:
  assumes eng: "db_engine (env_of X) content" and rep: "represents_docs (env_of X) content A s"
    and scan: "\<forall>item\<in>set (range_keys (ee_engine X) (docs_ks coll) None None s). \<not> isl item"
    and few: "length (docs_after (docs_in A coll) None) \<le> 10000" and res: "documents_list (env_of X) coll None 10000 s = Inr (docs, c)"
  shows "set docs = ran (docs_in A coll) \<and> distinct (map key docs)"
proof (cases "coll \<in> set (collections s)")
  case True
  then have con: "consistent (env_of X) content coll (docs_in A coll) s" using rep by (simp add: represents_docs_def)
  have "docs = take 10000 (docs_after (docs_in A coll) None)"
    using db_engine.list_documents_exact [OF eng con _ _ _ res] scan by (simp add: usize_max_def)
  moreover have "finite (dom (docs_in A coll))"
  proof -
    have "content (disk s (docs_ks coll)) = docs_map (env_of X) (docs_in A coll)" "docs_wf (env_of X) coll (docs_in A coll)"
      using con by (simp_all add: consistent_def)
    then have "as_bytes ` dom (docs_in A coll) = dom (content (disk s (docs_ks coll)))"
      by (force simp: docs_map_def docs_wf_def dom_def image_iff split: option.splits sum.splits)
    moreover have "finite (dom (content (disk s (docs_ks coll))))"
      using eng unfolding db_engine_def engine_def by (blast intro: keyspace.content_finite)
    ultimately have "finite (as_bytes ` dom (docs_in A coll))" by simp
    then show ?thesis by (rule finite_imageD) (simp add: inj_on_def)
  qed
  moreover have "key d = k" if "docs_in A coll k = Some d" for k d
    using rep that unfolding represents_docs_def docs_in_def doc_at_def by (metis snd_conv)
  ultimately show ?thesis using docs_after_parts few by simp
next
  case False
  then have "docs_in A coll k = None" for k using rep unfolding represents_docs_def docs_in_def by (metis fst_conv option.exhaust)
  then have "ran (docs_in A coll) = {}" by (simp add: ran_def)
  then show ?thesis using res False by (simp add: documents_list_def docs_keyspace_def)
qed

lemma txn_list_ok:
  assumes eng: "db_engine (env_of X) content" and rep: "represents_docs (env_of X) content A s" and wf: "txn_wf X tx"
    and order: "\<And>ws. mset (te_writes_order X ws) = mset ws" and coll: "CHR '':'' \<notin> set coll"
    and scan: "\<forall>item\<in>set (range_keys (ee_engine X) (docs_ks coll) None None s). \<not> isl item"
    and few: "length (docs_after (docs_in A coll) None) \<le> 10000" and res: "txn_list_documents X coll limit s tx = Inr docs"
  shows "docs = take limit (docs_after (docs_in (txn_docs X tx A) coll) None)"
proof -
  let ?m = "hm_get (pending_writes tx)" and ?ws = "te_writes_order X (pending_writes tx)" and ?D = "docs_in (txn_docs X tx A) coll"
  obtain st c ins where st: "documents_list (env_of X) coll None 10000 s = Inr (st, c)"
    and ins: "decode_inserts X (''doc:'' @ coll @ '':'') ?ws = Inr ins"
    and docs: "docs = take limit (sort_key key (filter (\<lambda>d. ?m (encode_doc_key coll (key d)) = None) st @ ins))"
    using res by (auto simp: txn_list_documents_def and_then_Inr_iff)
  let ?L = "filter (\<lambda>d. ?m (encode_doc_key coll (key d)) = None) st @ ins"
  have S: "set st = ran (docs_in A coll)" "distinct (map key st)" using stored_documents [OF eng rep scan few st] by auto
  have at: "A (coll, k) = Some d \<Longrightarrow> key d = k" for k d using rep unfolding represents_docs_def doc_at_def by (metis snd_conv)
  have hm: "hm_wf (pending_writes tx)" "\<forall>w\<in>set (pending_writes tx). doc_write_ok X w" using wf by (simp_all add: txn_wf_def)
  have ws: "distinct (map fst ?ws)" "set ?ws = set (pending_writes tx)" using map_of_reordered [OF hm(1) order] by auto
  have get: "?m f = Some w \<longleftrightarrow> (f, w) \<in> set ?ws" for f w by (simp only: hm_get_iff_set [OF hm(1)] ws(2))
  have I: "distinct (map key ins)" "set ins = {d. \<exists>k b. ?m (encode_doc_key coll k) = Some (PInsert b) \<and> dec (db_docs X) b = Inr d \<and> doc_at d = (coll, k)}"
    using decode_inserts_ok [OF ins _ ws(1) coll] hm(2) ws(2) by (auto simp only: get)
  have wr: "doc_at d = (coll, k)" if "?m (encode_doc_key coll k) = Some (PInsert b)" "dec (db_docs X) b = Inr d" for k b d
    using that hm(2) coll unfolding hm_get_iff_set [OF hm(1)] by (fastforce simp: doc_write_ok_def)
  have D: "?D k = Some d \<longleftrightarrow> ?m (encode_doc_key coll k) = None \<and> A (coll, k) = Some d \<or>
      (\<exists>b. ?m (encode_doc_key coll k) = Some (PInsert b) \<and> dec (db_docs X) b = Inr d)" for k d
    unfolding docs_in_txn [OF coll] by (auto split: option.split PendingWrite.split sum.split)
  have elems: "set ?L = ran ?D"
  proof (rule set_eqI)
    fix d
    have "d \<in> set ?L \<longleftrightarrow> (\<exists>k. ?m (encode_doc_key coll k) = None \<and> A (coll, k) = Some d) \<or>
        (\<exists>k b. ?m (encode_doc_key coll k) = Some (PInsert b) \<and> dec (db_docs X) b = Inr d)"
      using at wr by (auto simp: S(1) I(2) ran_def docs_in_def)
    also have "\<dots> \<longleftrightarrow> d \<in> ran ?D" by (auto simp: ran_def D)
    finally show "d \<in> set ?L \<longleftrightarrow> d \<in> ran ?D" .
  qed
  have wfD: "key d = k" if "?D k = Some d" for k d using that at wr [of k _ d] by (auto simp: D doc_at_def)
  have "key ` ran ?D = dom ?D" using wfD by (force simp: ran_def dom_def image_iff)
  then have fin: "finite (dom ?D)" by (metis elems finite_imageI finite_set)
  have "distinct (map key ?L)" using S(2) I by (auto simp: distinct_map_filter doc_at_def)
  moreover have "mset (map key (sort_key key ?L)) = mset (map key ?L)" by simp
  ultimately have "distinct (map key (sort_key key ?L))" by (metis mset_eq_imp_distinct_iff)
  then have "sort_key key ?L = docs_after ?D None"
    by (intro docs_after_all [OF fin wfD]) (simp_all add: elems [simplified])
  then show ?thesis using docs by simp
qed

section \<open>Life of a transaction\<close>

text \<open>The steps that a client can take; keys are valid strings and a collection has no colon.\<close>

inductive txn_step :: "('ks, 'd, 'x) txn_env \<Rightarrow> Transaction \<Rightarrow> Transaction \<Rightarrow> bool" for X where
  step_insert: "utf8_valid (encode_doc_key (collection d) (key d)) \<Longrightarrow> txn_insert X d tx = (tx', r) \<Longrightarrow> txn_step X tx tx'"
| step_delete: "CHR '':'' \<notin> set c \<Longrightarrow> utf8_valid (encode_doc_key c k) \<Longrightarrow> txn_delete c k tx = (tx', r) \<Longrightarrow> txn_step X tx tx'"
| step_create_edge: "txn_create_edge X e tx = (tx', r) \<Longrightarrow> txn_step X tx tx'"
| step_delete_edge: "txn_delete_edge f l t tx = (tx', r) \<Longrightarrow> txn_step X tx tx'"
| step_commit: "txn_commit X T T' tx (s :: ('ks, 'x, unit) database_scheme) = (s', tx', r) \<Longrightarrow> txn_step X tx tx'"
| step_rollback: "txn_rollback tx = (tx', r) \<Longrightarrow> txn_step X tx tx'"

inductive_cases txn_stepE: "txn_step X tx tx'"

lemma txn_step_wf:
  assumes "codec_ok (db_docs X)" "codec_ok (te_edge X)" "txn_step X tx tx'" "txn_wf X tx"
  shows "txn_wf X tx'"
  using assms(3,4) by (cases rule: txn_step.cases)
    (auto intro: txn_wf_insert [OF _ assms(1)] txn_wf_delete txn_wf_create_edge [OF _ assms(2)] txn_wf_delete_edge txn_wf_end)

lemma completed_refuses:
  assumes "txn_state tx \<noteq> TxActive"
  shows "txn_get X c k s tx = Inl AlreadyCompleted" "txn_insert X d tx = (tx, Inl AlreadyCompleted)" "txn_delete c k tx = (tx, Inl AlreadyCompleted)"
    "txn_list_documents X c n s tx = Inl AlreadyCompleted" "txn_create_edge X e tx = (tx, Inl AlreadyCompleted)"
    "txn_get_edge X f l t s tx = Inl AlreadyCompleted" "txn_delete_edge f l t tx = (tx, Inl AlreadyCompleted)"
    "txn_commit X T T' tx s = (s, tx, Inl AlreadyCompleted)" "txn_rollback tx = (tx, Inl AlreadyCompleted)"
  using assms by (simp_all add: txn_get_def txn_insert_def txn_delete_def txn_list_documents_def txn_create_edge_def txn_get_edge_def
      txn_delete_edge_def txn_commit_def txn_rollback_def ensure_active_def)

section \<open>Properties\<close>


text \<open>C27: Every transaction that a client can reach is well formed: its pending writes decode to the
  documents and edges of their keys. Once it is committed or rolled back it holds no pending write,
  refuses every operation, and never changes again.\<close>

theorem transaction_lifecycle:
  assumes "codec_ok (db_docs X)" "codec_ok (te_edge X)" "(txn_step X)\<^sup>*\<^sup>* (txn_new i now) tx"
  shows "txn_wf X tx \<and>
    (\<not> is_active tx \<longrightarrow>
       (\<forall>tx'. txn_step X tx tx' \<longrightarrow> tx' = tx) \<and> pending_writes tx = [] \<and> pending_edges tx = [] \<and>
       txn_get X c k s tx = Inl AlreadyCompleted \<and> txn_list_documents X c n s tx = Inl AlreadyCompleted \<and>
       txn_get_edge X f l t s tx = Inl AlreadyCompleted \<and> txn_commit X T T' tx s = (s, tx, Inl AlreadyCompleted))"
proof -
  have wf: "txn_wf X tx" using assms(3) by (induction rule: rtranclp_induct) (auto intro: txn_wf_new txn_step_wf [OF assms(1,2)])
  moreover have "tx' = tx" if "txn_step X tx tx'" "txn_state tx \<noteq> TxActive" for tx'
    using that by (cases rule: txn_step.cases) (auto simp: completed_refuses)
  ultimately show ?thesis by (auto simp: txn_wf_def is_active_def completed_refuses)
qed

text \<open>The listing of a collection in a transaction is the beginning of the documents it sees, in the
  order of their keys, whatever the order in which the pending writes are visited, as long as the
  store holds at most 10000 documents of the collection.\<close>

theorem transaction_listing:
  assumes "db_engine (env_of X) content" "represents_docs (env_of X) content A s" "txn_wf X tx"
    and "\<And>ws. mset (te_writes_order X ws) = mset ws" "CHR '':'' \<notin> set coll"
    and "\<forall>item\<in>set (range_keys (ee_engine X) (docs_ks coll) None None s). \<not> isl item"
    and "length (docs_after (docs_in A coll) None) \<le> 10000" "txn_list_documents X coll limit s tx = Inr docs"
  shows "docs = take limit (docs_after (docs_in (txn_docs X tx A) coll) None)"
  by (rule txn_list_ok [OF assms])

text \<open>Witnesses: a transaction over a database with one document, which writes that document again.\<close>

definition linked_edge :: Edge where
  "linked_edge = edge_with_id ''knows:1'' ''u:a'' ''knows'' ''u:a'' 0"

definition mem_txn_env :: "(mem_ks, int, unit) txn_env" where
  "mem_txn_env = db_env.extend mem_db_env (txn_env.fields
     \<lparr>enc = (\<lambda>e. if e = linked_edge then Inr [] else Inl (Serialization ''edge'')), dec = (\<lambda>b. Inr linked_edge)\<rparr>
     (\<lambda>ws. ws) rev True)"

lemma mem_txn_env_simps [simp]:
  "env_of mem_txn_env = mem_db_env" "db_docs mem_txn_env = mem_docs" "ee_engine mem_txn_env = mem_engine"
  "te_writes_order mem_txn_env ws = ws" "te_edges_order mem_txn_env es = rev es"
proof -
  show "db_docs mem_txn_env = mem_docs" "ee_engine mem_txn_env = mem_engine"
    using mem_db_env_simps by (simp_all add: mem_txn_env_def db_env.defs)
qed (simp_all add: mem_txn_env_def db_env.defs txn_env.defs)

lemma mem_edge_codec: "codec_ok (te_edge mem_txn_env)"
  by (simp add: codec_ok_def mem_txn_env_def db_env.defs txn_env.defs)

definition rewriting :: Transaction where
  "rewriting = fst (txn_insert mem_txn_env linked_doc (txn_new ''tx_1'' 0))"

lemma rewriting_insert: "txn_insert mem_txn_env linked_doc (txn_new ''tx_1'' 0) = (rewriting, Inr ())"
  using linked_bytes(1) by (auto simp: rewriting_def txn_insert_def txn_new_def ensure_active_def)

lemma rewriting_step: "txn_step mem_txn_env (txn_new ''tx_1'' 0) rewriting"
  by (rule step_insert [OF _ rewriting_insert]) (simp add: encode_doc_key_def, code_simp)

lemma rewriting_wf: "txn_wf mem_txn_env rewriting"
  using txn_step_wf [OF _ mem_edge_codec rewriting_step txn_wf_new] mem_docs_codec by simp

lemma linked_represents: "represents_docs mem_db_env map_of [(''u'', ''a'') \<mapsto> linked_doc] linked_db"
proof -
  have "docs_in [(''u'', ''a'') \<mapsto> linked_doc] ''u'' = [''a'' \<mapsto> linked_doc]" by (rule ext) (simp add: docs_in_def)
  then show ?thesis using linked_consistent by (simp add: represents_docs_def)
qed

lemma rewriting_pending:
  "pending_edges rewriting = []" "txn_state rewriting = TxActive"
  "\<exists>b. enc mem_docs linked_doc = Inr b \<and> pending_writes rewriting = [(encode_doc_key ''u'' ''a'', PInsert b)]"
  using linked_bytes(1) by (simp_all add: rewriting_def txn_insert_def txn_new_def ensure_active_def)

lemma rewriting_ops: "commit_ops mem_txn_env rewriting = Inr [InsertDoc linked_doc]"
proof -
  obtain b where b: "enc mem_docs linked_doc = Inr b" "pending_writes rewriting = [(encode_doc_key ''u'' ''a'', PInsert b)]"
    using rewriting_pending(3) by blast
  then have "dec mem_docs b = Inr linked_doc" using mem_docs_codec by (simp add: codec_ok_def)
  moreover have "lossy (encode_doc_key ''u'' ''a'') = ''doc:u:a''"
    using lossy_doc_key [of "''u''" "''a''"] by (simp add: encode_doc_key_def) code_simp
  ultimately show ?thesis
    using b(2) rewriting_pending(1) splitn3_doc_key [of "''u''" "''a''"] by (simp add: commit_ops_def doc_op_def)
qed

lemma rewriting_commits:
  "\<exists>s' tx'. txn_commit mem_txn_env commits commits rewriting linked_db = (s', tx', Inr ())"
proof -
  have locks: "claim_constraints mem_db_env ''u'' [] old new linked_db = (linked_db, Inr ())" for old new
    by (simp add: claim_constraints_def on_locks_def validate_and_update_def)
  have "prepare mem_db_env [InsertDoc linked_doc] linked_db = prepare mem_db_env replace_ops linked_db"
    unfolding replace_prepared
    by (simp add: prepare_def collapse_put_def mutation_position_def linked_get get_or_create_existing put_mutation_def
        prepare_doc_insert_def or_undo_def locks validate_hnsw_vectors_def batch_new_def Let_def)
  then have "atomic_write_batch mem_db_env commits commits [InsertDoc linked_doc] linked_db =
      atomic_write_batch mem_db_env commits commits replace_ops linked_db"
    using replace_prepared by (simp add: atomic_write_batch_def replace_ops_def)
  then obtain s' where "atomic_write_batch mem_db_env commits commits [InsertDoc linked_doc] linked_db = (s', Inr ())"
    using replace_commits by auto
  then show ?thesis using rewriting_ops rewriting_pending(2) by (simp add: txn_commit_def ensure_active_def)
qed

lemma rewriting_admissible:
  assumes "(k, PInsert b) \<in> set (pending_writes rewriting)" "dec mem_docs b = Inr d"
  shows "docs_admissible mem_db_env linked_db [(''u'', ''a'') \<mapsto> linked_doc] d"
proof -
  have "d = linked_doc" using assms rewriting_pending(3) mem_docs_codec by (auto simp: codec_ok_def)
  then show ?thesis using linked_bytes(1) by (simp add: docs_admissible_def locks_separate_def del: as_bytes_Cons)
qed


theorem transaction_lifecycle_witness:
  "\<exists>tx. (txn_step mem_txn_env)\<^sup>*\<^sup>* (txn_new ''tx_1'' 0) tx \<and> txn_state tx = TxRolledBack \<and>
     txn_get mem_txn_env ''u'' ''a'' linked_db tx = Inl AlreadyCompleted"
proof -
  let ?tx = "fst (txn_rollback rewriting)"
  have "txn_step mem_txn_env rewriting ?tx" by (rule step_rollback [of _ _ "snd (txn_rollback rewriting)"]) simp
  then have "(txn_step mem_txn_env)\<^sup>*\<^sup>* (txn_new ''tx_1'' 0) ?tx" using rewriting_step by simp
  moreover have "txn_state ?tx = TxRolledBack" using rewriting_pending(2) by (simp add: txn_rollback_def ensure_active_def)
  ultimately show ?thesis
    using transaction_lifecycle [of mem_txn_env "''tx_1''" 0 ?tx "''u''" "''a''" linked_db] mem_docs_codec mem_edge_codec
    by (auto simp: is_active_def)
qed

theorem transaction_listing_witness:
  "\<exists>docs. txn_list_documents mem_txn_env ''u'' 10 linked_db rewriting = Inr docs \<and>
     docs = take 10 (docs_after (docs_in (txn_docs mem_txn_env rewriting [(''u'', ''a'') \<mapsto> linked_doc]) ''u'') None)"
proof -
  have "documents_list mem_db_env ''u'' None 10000 linked_db = Inr ([linked_doc], None)"
    using mem_docs_codec linked_bytes(1)
    by (simp add: codec_ok_def documents_list_def docs_keyspace_def linked_db_def range_keys_def mem_filter_def in_range_def usize_max_def)
  moreover have "\<exists>ds. decode_inserts mem_txn_env ''doc:u:'' (pending_writes rewriting) = Inr ds"
    using rewriting_pending(3) mem_docs_codec by (auto simp: codec_ok_def)
  ultimately obtain docs where docs: "txn_list_documents mem_txn_env ''u'' 10 linked_db rewriting = Inr docs"
    using rewriting_pending(2) by (auto simp: txn_list_documents_def ensure_active_def)
  have "docs_in [(''u'', ''a'') \<mapsto> linked_doc] ''u'' = [''a'' \<mapsto> linked_doc]" by (rule ext) (simp add: docs_in_def)
  then have "length (docs_after (docs_in [(''u'', ''a'') \<mapsto> linked_doc] ''u'') None) \<le> 10000" by (simp add: docs_after_def)
  moreover have "\<forall>item\<in>set (range_keys mem_engine (docs_ks ''u'') None None linked_db). \<not> isl item"
    by (auto simp: range_keys_def mem_fjall_def)
  ultimately show ?thesis
    using transaction_listing [OF _ linked_represents [folded mem_txn_env_simps(1)] rewriting_wf _ _ _ _ docs] mem_db_engine docs by simp
qed

end
