(* ===== verification/Transaction_Context.thy ===== *)
theory Transaction_Context
  imports Transactions
begin

text \<open>
  A transaction as the context in which queries are executed (\<open>transaction/context_impl.rs\<close>): the traits
  \<open>DocumentOps\<close>, \<open>IndexOps\<close> and \<open>EdgeOps\<close> over the operations of \<open>Transactions\<close>. What the database returns
  is merged with the pending writes. Operations that only forward to the database are left out.
\<close>

section \<open>Fields of pending documents\<close>

definition ctx_resolve_nested_field :: "fields \<Rightarrow> string \<Rightarrow> Value option" where
  "ctx_resolve_nested_field fs path =
     (case split_str (CHR ''.'') path of
        [] \<Rightarrow> None
      | root # segments \<Rightarrow> (case hm_get fs root of None \<Rightarrow> None | Some v \<Rightarrow> walk_path v segments))"

definition ctx_get_field_value :: "document \<Rightarrow> string \<Rightarrow> Value option" where
  "ctx_get_field_value doc field =
     (if field = ''id'' then Some (VString (doc_id doc))
      else if CHR ''.'' \<in> set field then ctx_resolve_nested_field (doc_fields doc) field
      else hm_get (doc_fields doc) field)"

definition field_matches :: "document \<Rightarrow> string \<Rightarrow> Value \<Rightarrow> bool" where
  "field_matches doc field expected = option_value_eq (ctx_get_field_value doc field) (Some expected)"

definition ctx_values_compare :: "Value \<Rightarrow> Value \<Rightarrow> ordering option" where
  "ctx_values_compare v w =
     (case (v, w) of
        (VInt a, VInt b) \<Rightarrow> Some (cmp (sint a) (sint b))
      | (VFloat a, VFloat b) \<Rightarrow> f64_partial_cmp a b
      | (VInt a, VFloat b) \<Rightarrow> f64_partial_cmp (f64_of_i64 a) b
      | (VFloat a, VInt b) \<Rightarrow> f64_partial_cmp a (f64_of_i64 b)
      | (VString a, VString b) \<Rightarrow> Some (cmp a b)
      | (VBool a, VBool b) \<Rightarrow> Some (cmp a b)
      | _ \<Rightarrow> None)"

definition field_matches_range :: "document \<Rightarrow> string \<Rightarrow> Value \<Rightarrow> string \<Rightarrow> bool" where
  "field_matches_range doc field v rop =
     (case ctx_get_field_value doc field of
        None \<Rightarrow> False
      | Some actual \<Rightarrow>
          (case ctx_values_compare actual v of
             None \<Rightarrow> False
           | Some c \<Rightarrow>
               if rop = ''gt'' then c = Greater
               else if rop = ''gte'' then c = Greater \<or> c = Equal
               else if rop = ''lt'' then c = Less
               else if rop = ''lte'' then c = Less \<or> c = Equal
               else False))"

definition field_matches_between :: "document \<Rightarrow> string \<Rightarrow> Value \<Rightarrow> bool \<Rightarrow> Value \<Rightarrow> bool \<Rightarrow> bool" where
  "field_matches_between doc field lower lower_incl upper upper_incl =
     (case ctx_get_field_value doc field of
        None \<Rightarrow> False
      | Some actual \<Rightarrow>
          (case (ctx_values_compare actual lower, ctx_values_compare actual upper) of
             (Some lower_cmp, Some upper_cmp) \<Rightarrow>
               (if lower_incl then lower_cmp \<noteq> Less else lower_cmp = Greater) \<and>
               (if upper_incl then upper_cmp \<noteq> Greater else upper_cmp = Less)
           | _ \<Rightarrow> False))"

section \<open>Documents\<close>

definition ctx_get_document ::
  "('ks, 'd, 'x) txn_env \<Rightarrow> string \<Rightarrow> string \<Rightarrow> ('ks, 'x, 'z) database_scheme \<Rightarrow> Transaction \<Rightarrow> StorageError + document option" where
  "ctx_get_document X coll k s tx = map_err storage_error_of (txn_get X coll k s tx)"

definition ctx_list_documents ::
  "('ks, 'd, 'x) txn_env \<Rightarrow> string \<Rightarrow> nat \<Rightarrow> ('ks, 'x, 'z) database_scheme \<Rightarrow> Transaction \<Rightarrow> StorageError + document list" where
  "ctx_list_documents X coll limit s tx = map_err storage_error_of (txn_list_documents X coll limit s tx)"

text \<open>The index of the first element with a property.\<close>

fun find_position :: "('a \<Rightarrow> bool) \<Rightarrow> 'a list \<Rightarrow> nat option" where
  "find_position P [] = None"
| "find_position P (x # xs) = (if P x then Some 0 else map_option Suc (find_position P xs))"

definition ctx_list_documents_paged ::
  "('ks, 'd, 'x) txn_env \<Rightarrow> string \<Rightarrow> string option \<Rightarrow> nat \<Rightarrow> ('ks, 'x, 'z) database_scheme \<Rightarrow> Transaction
     \<Rightarrow> StorageError + document list \<times> string option" where
  "ctx_list_documents_paged X coll after limit s tx =
     and_then (map_err storage_error_of (txn_list_documents X coll (usize_max - 1) s tx)) (\<lambda>all.
       let start =
             (case after of
                Some cursor \<Rightarrow> (case find_position (\<lambda>d. key d = cursor) all of Some i \<Rightarrow> i + 1 | None \<Rightarrow> length all)
              | None \<Rightarrow> 0);
           page = take limit (drop start all)
       in Inr (page, if length page = limit \<and> page \<noteq> [] then Some (key (last page)) else None))"

text \<open>An operation that reads the transaction and then may change it.\<close>

definition after_get ::
  "('ks, 'd, 'x) txn_env \<Rightarrow> string \<Rightarrow> string \<Rightarrow> ('ks, 'x, 'z) database_scheme \<Rightarrow>
     (document option \<Rightarrow> Transaction \<Rightarrow> Transaction \<times> (StorageError + 'a)) \<Rightarrow> Transaction \<Rightarrow> Transaction \<times> (StorageError + 'a)" where
  "after_get X coll k s f tx =
     (case txn_get X coll k s tx of Inl e \<Rightarrow> (tx, Inl (storage_error_of e)) | Inr r \<Rightarrow> f r tx)"

definition as_storage :: "'a \<Rightarrow> unit txn_op \<Rightarrow> Transaction \<Rightarrow> Transaction \<times> (StorageError + 'a)" where
  "as_storage a m tx = (case m tx of (tx', Inl e) \<Rightarrow> (tx', Inl (storage_error_of e)) | (tx', Inr _) \<Rightarrow> (tx', Inr a))"

definition ctx_set_document ::
  "('ks, 'd, 'x) txn_env \<Rightarrow> document \<Rightarrow> ('ks, 'x, 'z) database_scheme \<Rightarrow> Transaction \<Rightarrow> Transaction \<times> (StorageError + unit)" where
  "ctx_set_document X doc s = after_get X (collection doc) (key doc) s (\<lambda>r.
     if r \<noteq> None then as_storage () (txn_update X doc) else as_storage () (txn_insert X doc))"

definition ctx_create_document ::
  "('ks, 'd, 'x) txn_env \<Rightarrow> document \<Rightarrow> ('ks, 'x, 'z) database_scheme \<Rightarrow> Transaction \<Rightarrow> Transaction \<times> (StorageError + bool)" where
  "ctx_create_document X doc s = after_get X (collection doc) (key doc) s (\<lambda>r.
     if r \<noteq> None then (\<lambda>tx. (tx, Inr False)) else as_storage True (txn_insert X doc))"

definition ctx_delete_document ::
  "('ks, 'd, 'x) txn_env \<Rightarrow> string \<Rightarrow> string \<Rightarrow> ('ks, 'x, 'z) database_scheme \<Rightarrow> Transaction \<Rightarrow> Transaction \<times> (StorageError + bool)" where
  "ctx_delete_document X coll k s = after_get X coll k s (\<lambda>r.
     if r \<noteq> None then as_storage True (txn_delete coll k) else (\<lambda>tx. (tx, Inr False)))"

fun ctx_get_documents_by_ids ::
  "('ks, 'd, 'x) txn_env \<Rightarrow> string \<Rightarrow> string list \<Rightarrow> ('ks, 'x, 'z) database_scheme \<Rightarrow> Transaction \<Rightarrow> StorageError + document list" where
  "ctx_get_documents_by_ids X coll [] s tx = Inr []"
| "ctx_get_documents_by_ids X coll (i # ids) s tx =
     and_then (map_err storage_error_of (txn_get X coll (last (split_str (CHR '':'') i)) s tx)) (\<lambda>r.
     and_then (ctx_get_documents_by_ids X coll ids s tx) (\<lambda>docs. Inr (case r of Some d \<Rightarrow> d # docs | None \<Rightarrow> docs)))"

section \<open>Index scans\<close>

definition BUFFER :: nat where "BUFFER = 100"

definition saturating_add :: "nat \<Rightarrow> nat \<Rightarrow> nat" where
  "saturating_add a b = min usize_max (a + b)"

text \<open>\<open>a + b\<close> on \<open>usize\<close>: a panic when overflow is checked, and wrap-around otherwise.\<close>

definition usize_add :: "bool \<Rightarrow> nat \<Rightarrow> nat \<Rightarrow> StorageError + nat" where
  "usize_add checks a b =
     (if a + b \<le> usize_max then Inr (a + b)
      else if checks then Inl (StoragePanic ''attempt to add with overflow'')
      else Inr ((a + b) mod 2 ^ 64))"

fun add_matching :: "(document \<Rightarrow> bool) \<Rightarrow> document list \<Rightarrow> string list \<Rightarrow> string list" where
  "add_matching P [] ids = ids"
| "add_matching P (doc # docs) ids =
     add_matching P docs (if P doc \<and> doc_id doc \<notin> set ids then ids @ [doc_id doc] else ids)"

text \<open>The steps that all scans share after the scan of the store.\<close>

definition merge_scan ::
  "('ks, 'd, 'x) txn_env \<Rightarrow> string \<Rightarrow> (document \<Rightarrow> bool) \<Rightarrow> nat \<Rightarrow> Transaction \<Rightarrow> string list \<times> bool \<Rightarrow> StorageError + string list \<times> bool" where
  "merge_scan X coll P limit tx r =
     (case r of (storage_ids, exceeded) \<Rightarrow>
        let storage_ids = filter (\<lambda>i. \<not> is_pending_delete tx i) storage_ids in
        and_then (map_err storage_error_of (pending_inserts_for_collection X coll tx)) (\<lambda>pending_docs.
          let storage_ids = add_matching P pending_docs storage_ids in
          Inr (if limit < length storage_ids then (take limit storage_ids, True) else (storage_ids, exceeded))))"

definition ctx_scan_index_eq ::
  "('ks, 'd, 'x) txn_env \<Rightarrow> string \<Rightarrow> string \<Rightarrow> Value \<Rightarrow> nat \<Rightarrow> ('ks, 'x, 'z) database_scheme \<Rightarrow> Transaction
     \<Rightarrow> StorageError + string list \<times> bool" where
  "ctx_scan_index_eq X coll field v limit s tx =
     and_then (scan_index_eq (env_of X) coll field v (saturating_add limit BUFFER) s)
       (merge_scan X coll (\<lambda>doc. field_matches doc field v) limit tx)"

fun scan_in_loop :: "(Value \<Rightarrow> StorageError + string list \<times> bool) \<Rightarrow> nat \<Rightarrow> Value list \<Rightarrow> string list \<Rightarrow> bool \<Rightarrow> StorageError + string list \<times> bool" where
  "scan_in_loop scan limit [] all_ids exceeded = Inr (all_ids, exceeded)"
| "scan_in_loop scan limit (v # vs) all_ids exceeded =
     and_then (scan v) (\<lambda>(ids, exc).
       let all_ids = all_ids @ ids; exceeded = (exceeded \<or> exc) in
       if limit \<le> length all_ids then Inr (all_ids, True) else scan_in_loop scan limit vs all_ids exceeded)"

definition ctx_scan_index_in ::
  "('ks, 'd, 'x) txn_env \<Rightarrow> string \<Rightarrow> string \<Rightarrow> Value list \<Rightarrow> nat \<Rightarrow> ('ks, 'x, 'z) database_scheme \<Rightarrow> Transaction
     \<Rightarrow> StorageError + string list \<times> bool" where
  "ctx_scan_index_in X coll field vs limit s tx =
     and_then (scan_in_loop (\<lambda>v. ctx_scan_index_eq X coll field v limit s tx) limit vs [] False) (\<lambda>(all_ids, exceeded).
       Inr (remdups_adj (sort all_ids), exceeded))"

definition ctx_scan_index_range ::
  "('ks, 'd, 'x) txn_env \<Rightarrow> string \<Rightarrow> string \<Rightarrow> Value \<Rightarrow> string \<Rightarrow> nat \<Rightarrow> ('ks, 'x, 'z) database_scheme \<Rightarrow> Transaction
     \<Rightarrow> StorageError + string list \<times> bool" where
  "ctx_scan_index_range X coll field v rop limit s tx =
     and_then (scan_index_range (env_of X) coll field v rop (saturating_add limit BUFFER) s)
       (merge_scan X coll (\<lambda>doc. field_matches_range doc field v rop) limit tx)"

definition ctx_scan_index_range_between ::
  "('ks, 'd, 'x) txn_env \<Rightarrow> string \<Rightarrow> string \<Rightarrow> Value \<Rightarrow> bool \<Rightarrow> Value \<Rightarrow> bool \<Rightarrow> nat \<Rightarrow> ('ks, 'x, 'z) database_scheme \<Rightarrow> Transaction
     \<Rightarrow> StorageError + string list \<times> bool" where
  "ctx_scan_index_range_between X coll field lower lower_incl upper upper_incl limit s tx =
     and_then (scan_index_range_between (env_of X) coll field lower lower_incl upper upper_incl (saturating_add limit BUFFER) s)
       (merge_scan X coll (\<lambda>doc. field_matches_between doc field lower lower_incl upper upper_incl) limit tx)"

definition ctx_scan_compound_index_eq ::
  "('ks, 'd, 'x) txn_env \<Rightarrow> string \<Rightarrow> (string \<times> Value) list \<Rightarrow> nat \<Rightarrow> ('ks, 'x, 'z) database_scheme \<Rightarrow> Transaction
     \<Rightarrow> StorageError + string list \<times> bool" where
  "ctx_scan_compound_index_eq X coll field_values limit s tx =
     and_then (scan_compound_index_eq (env_of X) coll field_values (saturating_add limit BUFFER) s)
       (merge_scan X coll (\<lambda>doc. list_all (\<lambda>(field, v). field_matches doc field v) field_values) limit tx)"

text \<open>The pending documents of a collection; those that do not decode are skipped here.\<close>

fun matching_inserts :: "('ks, 'd, 'x) txn_env \<Rightarrow> string \<Rightarrow> (document \<Rightarrow> bool) \<Rightarrow> (bytes \<times> PendingWrite) list \<Rightarrow> document list" where
  "matching_inserts X pre P [] = []"
| "matching_inserts X pre P ((full_key, PInsert b) # ws) =
     (case dec (db_docs X) b of
        Inr doc \<Rightarrow> if starts_with (lossy full_key) pre \<and> P doc then doc # matching_inserts X pre P ws else matching_inserts X pre P ws
      | Inl _ \<Rightarrow> matching_inserts X pre P ws)"
| "matching_inserts X pre P ((full_key, PDelete) # ws) = matching_inserts X pre P ws"

definition ctx_scan_compound_index_eq_docs ::
  "('ks, 'd, 'x) txn_env \<Rightarrow> string \<Rightarrow> (string \<times> Value) list \<Rightarrow> nat \<Rightarrow> ('ks, 'x, 'z) database_scheme \<Rightarrow> Transaction
     \<Rightarrow> StorageError + document list \<times> bool" where
  "ctx_scan_compound_index_eq_docs X coll field_values limit s tx =
     and_then (usize_add (te_overflow_checks X) limit 100) (\<lambda>n.
     and_then (scan_compound_index_eq_docs (env_of X) coll field_values n s) (\<lambda>(docs, _).
       let docs = filter (\<lambda>doc. \<not> hm_contains (pending_writes tx) (encode_doc_key coll (key doc))) docs @
             matching_inserts X (''doc:'' @ coll @ '':'') (\<lambda>doc. list_all (\<lambda>(field, v). field_matches doc field v) field_values)
               (te_writes_order X (pending_writes tx))
       in Inr (take limit docs, limit < length docs)))"

section \<open>Edges\<close>

definition ctx_create_edge :: "('ks, 'd, 'x) txn_env \<Rightarrow> Edge \<Rightarrow> Transaction \<Rightarrow> Transaction \<times> (StorageError + unit)" where
  "ctx_create_edge X e = as_storage () (txn_create_edge X e)"

definition ctx_get_edge ::
  "('ks, 'd, 'x) txn_env \<Rightarrow> string \<Rightarrow> string \<Rightarrow> string \<Rightarrow> ('ks, 'x, 'z) database_scheme \<Rightarrow> Transaction \<Rightarrow> StorageError + Edge option" where
  "ctx_get_edge X from label to s tx = map_err storage_error_of (txn_get_edge X from label to s tx)"

definition ctx_delete_edge ::
  "('ks, 'd, 'x) txn_env \<Rightarrow> string \<Rightarrow> string \<Rightarrow> string \<Rightarrow> ('ks, 'x, 'z) database_scheme \<Rightarrow> Transaction \<Rightarrow> Transaction \<times> (StorageError + bool)" where
  "ctx_delete_edge X from label to s tx =
     (case txn_get_edge X from label to s tx of
        Inl e \<Rightarrow> (tx, Inl (storage_error_of e))
      | Inr None \<Rightarrow> (tx, Inr False)
      | Inr (Some _) \<Rightarrow> as_storage True (txn_delete_edge from label to) tx)"

definition edge_key :: "Edge \<Rightarrow> string \<times> string \<times> string" where
  "edge_key e = (edge_from e, edge_label e, edge_to e)"

text \<open>The edges of the store without those deleted in the transaction.\<close>

definition retain_edges :: "Transaction \<Rightarrow> Edge list \<Rightarrow> Edge list" where
  "retain_edges tx edges = filter (\<lambda>e. hm_get (pending_edges tx) (edge_key e) \<noteq> Some PDelete) edges"

text \<open>Pending insertions that match, unless the list has an edge with the same ends and label.\<close>

fun add_pending_edges ::
  "('ks, 'd, 'x) txn_env \<Rightarrow> (string \<times> string \<times> string \<Rightarrow> bool) \<Rightarrow> ((string \<times> string \<times> string) \<times> PendingWrite) list \<Rightarrow> Edge list \<Rightarrow> Edge list" where
  "add_pending_edges X P [] edges = edges"
| "add_pending_edges X P ((k, PInsert b) # ws) edges =
     add_pending_edges X P ws
       (if P k then
          case dec (te_edge X) b of
            Inr e \<Rightarrow> if edge_key e \<in> edge_key ` set edges then edges else edges @ [e]
          | Inl _ \<Rightarrow> edges
        else edges)"
| "add_pending_edges X P ((k, PDelete) # ws) edges = add_pending_edges X P ws edges"

definition merge_edges ::
  "('ks, 'd, 'x) txn_env \<Rightarrow> (string \<times> string \<times> string \<Rightarrow> bool) \<Rightarrow> (Edge \<Rightarrow> string) \<Rightarrow> Transaction \<Rightarrow> Edge list \<Rightarrow> Edge list" where
  "merge_edges X P f tx edges =
     sort_key f (add_pending_edges X P (te_edges_order X (pending_edges tx)) (retain_edges tx edges))"

definition cut_page :: "(Edge \<Rightarrow> string) \<Rightarrow> nat \<Rightarrow> Edge list \<Rightarrow> Edge list \<times> string option" where
  "cut_page f limit edges =
     (if limit < length edges
      then (take limit edges, if limit = 0 then None else Some (f (edges ! (limit - 1))))
      else (edges, None))"

definition ctx_list_edges_out ::
  "('ks, 'd, 'x) txn_env \<Rightarrow> string \<Rightarrow> string \<Rightarrow> string option \<Rightarrow> nat \<Rightarrow> ('ks, 'x, 'z) database_scheme \<Rightarrow> Transaction
     \<Rightarrow> StorageError + Edge list \<times> string option" where
  "ctx_list_edges_out X from label after limit s tx =
     and_then (usize_add (te_overflow_checks X) limit 100) (\<lambda>n.
     and_then (list_out (edge_env.truncate X) from label after n s) (\<lambda>(edges, _).
       Inr (cut_page edge_to limit (merge_edges X (\<lambda>(f, l, _). f = from \<and> l = label) edge_to tx edges))))"

definition ctx_list_edges_in ::
  "('ks, 'd, 'x) txn_env \<Rightarrow> string \<Rightarrow> string \<Rightarrow> string option \<Rightarrow> nat \<Rightarrow> ('ks, 'x, 'z) database_scheme \<Rightarrow> Transaction
     \<Rightarrow> StorageError + Edge list \<times> string option" where
  "ctx_list_edges_in X to label after limit s tx =
     and_then (usize_add (te_overflow_checks X) limit 100) (\<lambda>n.
     and_then (list_in (edge_env.truncate X) to label after n s) (\<lambda>(edges, _).
       Inr (cut_page edge_from limit (merge_edges X (\<lambda>(_, l, t). t = to \<and> l = label) edge_from tx edges))))"

fun merge_nodes ::
  "(string \<Rightarrow> Edge list \<Rightarrow> Edge list) \<Rightarrow> string list \<Rightarrow> (string, Edge list) hashmap \<Rightarrow> (string, Edge list) hashmap" where
  "merge_nodes f [] results = results"
| "merge_nodes f (n # ns) results =
     merge_nodes f ns (hm_insert n (f n (case hm_get results n of Some edges \<Rightarrow> edges | None \<Rightarrow> [])) results)"

definition ctx_batch_list_edges_out ::
  "('ks, 'd, 'x) txn_env \<Rightarrow> string list \<Rightarrow> string \<Rightarrow> nat \<Rightarrow> ('ks, 'x, 'z) database_scheme \<Rightarrow> Transaction
     \<Rightarrow> StorageError + (string, Edge list) hashmap" where
  "ctx_batch_list_edges_out X from_nodes label limit_per_node s tx =
     and_then (list_out_batch (edge_env.truncate X) from_nodes label limit_per_node s) (\<lambda>results.
       Inr (merge_nodes (\<lambda>n edges. take limit_per_node (merge_edges X (\<lambda>(f, l, _). f = n \<and> l = label) edge_to tx edges)) from_nodes results))"

definition ctx_batch_list_edges_in ::
  "('ks, 'd, 'x) txn_env \<Rightarrow> string list \<Rightarrow> string \<Rightarrow> nat \<Rightarrow> ('ks, 'x, 'z) database_scheme \<Rightarrow> Transaction
     \<Rightarrow> StorageError + (string, Edge list) hashmap" where
  "ctx_batch_list_edges_in X to_nodes label limit_per_node s tx =
     and_then (list_in_batch (edge_env.truncate X) to_nodes label limit_per_node s) (\<lambda>results.
       Inr (merge_nodes (\<lambda>n edges. take limit_per_node (merge_edges X (\<lambda>(_, l, t). t = n \<and> l = label) edge_from tx edges)) to_nodes results))"

section \<open>Properties\<close>

text \<open>C25: A query in a transaction reads the writes of that transaction: the documents it sees are those
  of the database overlaid with the pending writes. A lookup returns the document seen, a write
  replaces it, a creation succeeds exactly when there is none, and a deletion exactly when there is
  one; no other document changes for the transaction.\<close>

theorem transaction_reads_own_writes:
  assumes "db_engine (env_of X) content" "represents_docs (env_of X) content A s" "CHR '':'' \<notin> set c"
  shows "(\<forall>r. ctx_get_document X c k s tx = Inr r \<longrightarrow> r = txn_docs X tx A (c, k)) \<and>
    (\<forall>tx'. ctx_set_document X d s tx = (tx', Inr ()) \<longrightarrow> txn_docs X tx' A = (txn_docs X tx A)(doc_at d \<mapsto> d)) \<and>
    (\<forall>tx' b. ctx_create_document X d s tx = (tx', Inr b) \<longrightarrow>
       (b \<longleftrightarrow> txn_docs X tx A (doc_at d) = None) \<and> txn_docs X tx' A = (if b then (txn_docs X tx A)(doc_at d \<mapsto> d) else txn_docs X tx A)) \<and>
    (\<forall>tx' b. ctx_delete_document X c k s tx = (tx', Inr b) \<longrightarrow>
       (b \<longleftrightarrow> txn_docs X tx A (c, k) \<noteq> None) \<and> txn_docs X tx' A = (txn_docs X tx A)((c, k) := None))"
proof -
  note get = txn_get_docs [OF assms(1,2), of "collection d" "key d" tx] txn_get_docs [OF assms, of k tx]
  have codec: "codec_ok (db_docs X)" using db_engine.docs_codec [OF assms(1)] by simp
  note ins = txn_insert_docs [OF codec, of d tx] and del = txn_delete_docs [OF assms(3), of k tx]
  have none: "f i = None \<Longrightarrow> f = f(i := None)" for f :: all_docs and i by (simp add: fun_upd_idem)
  have "ctx_get_document X c k s tx = Inr r \<Longrightarrow> r = txn_docs X tx A (c, k)" for r
    using get(2) by (simp add: ctx_get_document_def)
  moreover have "ctx_set_document X d s tx = (tx', Inr ()) \<Longrightarrow> txn_docs X tx' A = (txn_docs X tx A)(doc_at d \<mapsto> d)" for tx'
    using ins by (auto simp: ctx_set_document_def after_get_def as_storage_def txn_update_def split: sum.splits prod.splits if_splits)
  moreover have "(b \<longleftrightarrow> txn_docs X tx A (doc_at d) = None) \<and> txn_docs X tx' A = (if b then (txn_docs X tx A)(doc_at d \<mapsto> d) else txn_docs X tx A)"
    if "ctx_create_document X d s tx = (tx', Inr b)" for tx' b
    using that ins get(1) by (auto simp: ctx_create_document_def after_get_def as_storage_def doc_at_def split: sum.splits prod.splits if_splits)
  moreover have "(b \<longleftrightarrow> txn_docs X tx A (c, k) \<noteq> None) \<and> txn_docs X tx' A = (txn_docs X tx A)((c, k) := None)"
    if "ctx_delete_document X c k s tx = (tx', Inr b)" for tx' b
    using that del get(2) none [of "txn_docs X tx A" "(c, k)"]
    by (auto simp: ctx_delete_document_def after_get_def as_storage_def split: sum.splits prod.splits if_splits)
  ultimately show ?thesis by blast
qed

text \<open>Witness: the stored document is written again, and looked up.\<close>

theorem transaction_reads_own_writes_witness:
  "ctx_get_document mem_txn_env ''u'' ''a'' linked_db rewriting = Inr (Some linked_doc) \<and>
   txn_docs mem_txn_env rewriting [(''u'', ''a'') \<mapsto> linked_doc] (''u'', ''a'') = Some linked_doc"
proof -
  have "ctx_get_document mem_txn_env ''u'' ''a'' linked_db rewriting = Inr (Some linked_doc)"
    using rewriting_pending mem_docs_codec by (auto simp: ctx_get_document_def txn_get_def ensure_active_def codec_ok_def)
  then show ?thesis
    using transaction_reads_own_writes [of mem_txn_env map_of "[(''u'', ''a'') \<mapsto> linked_doc]" linked_db "''u''" "''a''" rewriting]
      mem_db_engine linked_represents by auto
qed

text \<open>The keys that a scan of the store returns are not identifiers, so a document that was written again
  in the transaction is found twice.\<close>

lemma indexed_scan_finds_twice:
  "\<exists>ids ex. ctx_scan_index_eq mem_txn_env ''u'' ''email'' (VString ''x'') 10 indexed_db rewriting = Inr (ids, ex) \<and>
     ctx_get_documents_by_ids mem_txn_env ''u'' ids indexed_db rewriting = Inr [linked_doc, linked_doc]"
proof -
  obtain b where b: "enc mem_docs linked_doc = Inr b" "pending_writes rewriting = [(encode_doc_key ''u'' ''a'', PInsert b)]"
    using rewriting_pending(3) by blast
  have dec: "dec mem_docs b = Inr linked_doc" using b(1) mem_docs_codec by (simp add: codec_ok_def)
  have scan: "scan_index_eq mem_db_env ''u'' ''email'' (VString ''x'') 110 indexed_db = Inr ([''a''], False)"
  proof -
    let ?k = "encode_index_key int_libs [VString ''x''] ''a''"
    have "has_prefix (encode_index_prefix int_libs [VString ''x'']) ?k" by (simp add: has_prefix_def encode_index_key_def encode_index_prefix_def)
    then have "mem_filter (has_prefix (encode_index_prefix int_libs [VString ''x''])) [(?k, [])] = [(?k, [])]" by (simp add: mem_filter_def)
    moreover have "extract_doc_key ?k = Some ''a''" by (rule extract_encoded_doc_key) (simp add: utf8_next_def)
    moreover have "disk indexed_db (idx_ks ''u'' ''email'') = [(?k, [])]" by (simp add: indexed_db_def)
    ultimately show ?thesis by (simp add: scan_index_eq_def manager_scan_eq_def scan_eq_def scan_pair_def)
  qed
  have "lossy (encode_doc_key ''u'' ''a'') = ''doc:u:a''"
    using lossy_doc_key [of "''u''" "''a''"] by (simp add: encode_doc_key_def) code_simp
  then have "pending_inserts_for_collection mem_txn_env ''u'' rewriting = Inr [linked_doc]"
    using b(2) dec by (simp add: pending_inserts_for_collection_def starts_with_def)
  moreover have "pending_deletes rewriting = {}" using b(1) by (simp add: rewriting_def txn_insert_def txn_new_def ensure_active_def)
  moreover have "field_matches linked_doc ''email'' (VString ''x'')"
    by (simp add: field_matches_def ctx_get_field_value_def linked_doc_def option_value_eq_def)
  moreover have "txn_get mem_txn_env ''u'' ''a'' indexed_db rewriting = Inr (Some linked_doc)"
    using b(2) dec rewriting_pending(2) by (simp add: txn_get_def ensure_active_def)
  moreover have "doc_id linked_doc = ''u:a''" by (simp add: linked_doc_def)
  ultimately show ?thesis using scan
    by (auto simp: ctx_scan_index_eq_def saturating_add_def BUFFER_def usize_max_def merge_scan_def is_pending_delete_def)
qed

end
