(* ===== verification/Sessions.thy ===== *)
theory Sessions
  imports Transaction_Context
begin

text \<open>
  Sessions of clients (\<open>session/types.rs\<close>, \<open>session/manager.rs\<close>). A session belongs to a principal and a
  database and holds one transaction. The manager keeps the sessions in a map under one lock, so an
  operation is a function of the whole map. The database of a transaction and the current time are
  arguments.
\<close>

section \<open>Types (types.rs)\<close>

datatype SessionPrincipal = Anonymous | Authenticated string

record SessionOwner =
  principal :: SessionPrincipal
  owner_database :: string

definition owner_anonymous :: "string \<Rightarrow> SessionOwner" where
  "owner_anonymous db = \<lparr>principal = Anonymous, owner_database = db\<rparr>"

definition owner_authenticated :: "string \<Rightarrow> string \<Rightarrow> SessionOwner" where
  "owner_authenticated identity db = \<lparr>principal = Authenticated identity, owner_database = db\<rparr>"

datatype SessionAccessError = PrincipalMismatch | DatabaseMismatch | Expired

datatype SessionError = SessionAccess SessionAccessError | SessionTransaction TransactionError

datatype 'e SessionOperationError = OpAccess SessionAccessError | OpTransaction TransactionError | OpOperation 'e

text \<open>Durations and instants in seconds; the query timeout, which is only kept here, in nanoseconds.\<close>

record SessionConfig =
  transaction_timeout :: nat
  cleanup_interval :: nat

definition config_default :: SessionConfig where
  "config_default = \<lparr>transaction_timeout = 5 * 60, cleanup_interval = 30\<rparr>"

record Session =
  session_id :: string
  session_owner :: SessionOwner
  session_transaction :: "Transaction option"
  last_activity :: nat
  query_timeout :: "nat option"

definition session_new :: "string \<Rightarrow> SessionOwner \<Rightarrow> nat \<Rightarrow> Session" where
  "session_new i owner now =
     \<lparr>session_id = i, session_owner = owner, session_transaction = None, last_activity = now, query_timeout = None\<rparr>"

definition session_touch :: "nat \<Rightarrow> Session \<Rightarrow> Session" where
  "session_touch now ses = ses\<lparr>last_activity := now\<rparr>"

definition has_transaction :: "Session \<Rightarrow> bool" where
  "has_transaction ses = (case session_transaction ses of Some tx \<Rightarrow> is_active tx | None \<Rightarrow> False)"

definition is_timed_out :: "nat \<Rightarrow> nat \<Rightarrow> Session \<Rightarrow> bool" where
  "is_timed_out now timeout ses = (timeout < now - last_activity ses)"

section \<open>Manager (manager.rs)\<close>

type_synonym sessions = "(string, Session) hashmap"

record SessionManager =
  sessions :: sessions
  session_config :: SessionConfig

definition manager_new :: "SessionConfig \<Rightarrow> SessionManager" where
  "manager_new config = \<lparr>sessions = [], session_config = config\<rparr>"

text \<open>
  The identifiers come from the generator \<open>nanoid\<close>, here a sequence of draws: one for each session id
  that is tried, and after the first that is free, one for the transaction. The loop ends only when
  a draw is free.
\<close>

partial_function (option) begin_loop ::
  "(nat \<Rightarrow> string) \<Rightarrow> nat \<Rightarrow> SessionOwner \<Rightarrow> nat \<Rightarrow> SessionManager \<Rightarrow> (SessionManager \<times> string) option" where
  "begin_loop nano now owner n mgr =
     (if hm_contains (sessions mgr) (nano n) then begin_loop nano now owner (n + 1) mgr
      else
        let tx = txn_new (''tx_'' @ nano (n + 1)) now;
            ses = (session_new (nano n) owner now)\<lparr>session_transaction := Some tx\<rparr>
        in Some (mgr\<lparr>sessions := hm_insert (nano n) ses (sessions mgr)\<rparr>, nano n))"

definition begin_transaction :: "(nat \<Rightarrow> string) \<Rightarrow> nat \<Rightarrow> SessionOwner \<Rightarrow> SessionManager \<Rightarrow> (SessionManager \<times> string) option" where
  "begin_transaction nano now owner mgr = begin_loop nano now owner 0 mgr"

definition validate_owner :: "Session \<Rightarrow> SessionOwner \<Rightarrow> SessionAccessError + unit" where
  "validate_owner ses owner =
     (if principal (session_owner ses) \<noteq> principal owner then Inl PrincipalMismatch
      else if owner_database (session_owner ses) \<noteq> owner_database owner then Inl DatabaseMismatch
      else Inr ())"

text \<open>A session of the owner with an active transaction.\<close>

definition accessible_session :: "string \<Rightarrow> SessionOwner \<Rightarrow> SessionManager \<Rightarrow> SessionAccessError + Session" where
  "accessible_session i owner mgr =
     (case hm_get (sessions mgr) i of
        None \<Rightarrow> Inl Expired
      | Some ses \<Rightarrow>
          and_then (validate_owner ses owner) (\<lambda>_. if \<not> has_transaction ses then Inl Expired else Inr ses))"

definition validate_access :: "string \<Rightarrow> SessionOwner \<Rightarrow> SessionManager \<Rightarrow> SessionAccessError + unit" where
  "validate_access i owner mgr = and_then (accessible_session i owner mgr) (\<lambda>_. Inr ())"

definition put_session :: "string \<Rightarrow> Session \<Rightarrow> SessionManager \<Rightarrow> SessionManager" where
  "put_session i ses mgr = mgr\<lparr>sessions := hm_insert i ses (sessions mgr)\<rparr>"

text \<open>The closure changes the transaction and, through it, may read the database \<open>'s\<close>.\<close>

definition with_transaction ::
  "nat \<Rightarrow> string \<Rightarrow> SessionOwner \<Rightarrow> 'a txn_op \<Rightarrow> SessionManager \<Rightarrow> SessionManager \<times> (SessionError + 'a)" where
  "with_transaction now i owner f mgr =
     (case hm_get (sessions mgr) i of
        None \<Rightarrow> (mgr, Inl (SessionTransaction NoActiveTransaction))
      | Some ses \<Rightarrow>
          (case validate_owner ses owner of
             Inl e \<Rightarrow> (mgr, Inl (SessionAccess e))
           | Inr _ \<Rightarrow>
               let ses = session_touch now ses in
               (case session_transaction ses of
                  None \<Rightarrow> (put_session i ses mgr, Inl (SessionTransaction NoActiveTransaction))
                | Some tx \<Rightarrow>
                    if \<not> is_active tx then (put_session i ses mgr, Inl (SessionTransaction AlreadyCompleted))
                    else
                      (case f tx of (tx', r) \<Rightarrow>
                         (put_session i (ses\<lparr>session_transaction := Some tx'\<rparr>) mgr, map_err SessionTransaction r)))))"

definition with_transaction_operation ::
  "nat \<Rightarrow> string \<Rightarrow> SessionOwner \<Rightarrow> (Transaction \<Rightarrow> Transaction \<times> ('e + 'a)) \<Rightarrow> SessionManager
     \<Rightarrow> SessionManager \<times> ('e SessionOperationError + 'a)" where
  "with_transaction_operation now i owner f mgr =
     (case hm_get (sessions mgr) i of
        None \<Rightarrow> (mgr, Inl (OpTransaction NoActiveTransaction))
      | Some ses \<Rightarrow>
          (case validate_owner ses owner of
             Inl e \<Rightarrow> (mgr, Inl (OpAccess e))
           | Inr _ \<Rightarrow>
               let ses = session_touch now ses in
               (case session_transaction ses of
                  None \<Rightarrow> (put_session i ses mgr, Inl (OpTransaction NoActiveTransaction))
                | Some tx \<Rightarrow>
                    if \<not> is_active tx then (put_session i ses mgr, Inl (OpTransaction AlreadyCompleted))
                    else
                      (case f tx of (tx', r) \<Rightarrow>
                         (put_session i (ses\<lparr>session_transaction := Some tx'\<rparr>) mgr, map_err OpOperation r)))))"

text \<open>The session of an owner with its transaction, for \<open>commit\<close> and \<open>rollback\<close>.\<close>

definition owned_transaction :: "string \<Rightarrow> SessionOwner \<Rightarrow> SessionManager \<Rightarrow> SessionError + Session \<times> Transaction" where
  "owned_transaction i owner mgr =
     (case hm_get (sessions mgr) i of
        None \<Rightarrow> Inl (SessionTransaction NoActiveTransaction)
      | Some ses \<Rightarrow>
          and_then (map_err SessionAccess (validate_owner ses owner)) (\<lambda>_.
            case session_transaction ses of
              None \<Rightarrow> Inl (SessionTransaction NoActiveTransaction)
            | Some tx \<Rightarrow> Inr (ses, tx)))"

definition drop_session :: "string \<Rightarrow> SessionManager \<Rightarrow> SessionManager" where
  "drop_session i mgr = mgr\<lparr>sessions := hm_remove i (sessions mgr)\<rparr>"

definition session_commit ::
  "('ks, 'd, 'x) txn_env \<Rightarrow> tx_env \<Rightarrow> tx_env \<Rightarrow> string \<Rightarrow> SessionOwner \<Rightarrow> SessionManager \<Rightarrow> ('ks, 'x, 'z) database_scheme
     \<Rightarrow> ('ks, 'x, 'z) database_scheme \<times> SessionManager \<times> (SessionError + unit)" where
  "session_commit X T T' i owner mgr s =
     (case owned_transaction i owner mgr of
        Inl e \<Rightarrow> (s, mgr, Inl e)
      | Inr (ses, tx) \<Rightarrow>
          (case txn_commit X T T' tx s of
             (s', tx', Inl e) \<Rightarrow> (s', put_session i (ses\<lparr>session_transaction := Some tx'\<rparr>) mgr, Inl (SessionTransaction e))
           | (s', tx', Inr _) \<Rightarrow> (s', drop_session i mgr, Inr ())))"

definition session_rollback :: "string \<Rightarrow> SessionOwner \<Rightarrow> SessionManager \<Rightarrow> SessionManager \<times> (SessionError + unit)" where
  "session_rollback i owner mgr =
     (case owned_transaction i owner mgr of
        Inl e \<Rightarrow> (mgr, Inl e)
      | Inr (ses, tx) \<Rightarrow>
          (case txn_rollback tx of
             (tx', Inl e) \<Rightarrow> (put_session i (ses\<lparr>session_transaction := Some tx'\<rparr>) mgr, Inl (SessionTransaction e))
           | (tx', Inr _) \<Rightarrow> (drop_session i mgr, Inr ())))"

definition has_active_transaction :: "string \<Rightarrow> SessionOwner \<Rightarrow> SessionManager \<Rightarrow> SessionAccessError + bool" where
  "has_active_transaction i owner mgr = and_then (validate_access i owner mgr) (\<lambda>_. Inr True)"

text \<open>The transaction of a session that timed out is rolled back, which has no effect outside it.\<close>

definition cleanup_timed_out :: "nat \<Rightarrow> SessionManager \<Rightarrow> SessionManager \<times> nat" where
  "cleanup_timed_out now mgr =
     (let timeout = transaction_timeout (session_config mgr);
          to_remove = map fst (filter (\<lambda>(_, ses). is_timed_out now timeout ses) (sessions mgr))
      in (fold drop_session to_remove mgr, length to_remove))"

definition set_query_timeout :: "string \<Rightarrow> SessionOwner \<Rightarrow> nat option \<Rightarrow> SessionManager \<Rightarrow> SessionManager \<times> (SessionAccessError + unit)" where
  "set_query_timeout i owner timeout mgr =
     (case accessible_session i owner mgr of
        Inl e \<Rightarrow> (mgr, Inl e)
      | Inr ses \<Rightarrow> (put_session i (ses\<lparr>query_timeout := timeout\<rparr>) mgr, Inr ()))"

definition get_query_timeout :: "string \<Rightarrow> SessionOwner \<Rightarrow> SessionManager \<Rightarrow> SessionAccessError + nat option" where
  "get_query_timeout i owner mgr = and_then (accessible_session i owner mgr) (\<lambda>ses. Inr (query_timeout ses))"

definition active_count :: "SessionManager \<Rightarrow> nat" where
  "active_count mgr = length (sessions mgr)"

section \<open>Effect of the operations\<close>

lemma hm_contains_iff: "hm_contains m k \<longleftrightarrow> hm_get m k \<noteq> None"
  by (simp add: hm_contains_def)

lemma put_session_get [simp]:
  "hm_get (sessions (put_session i ses mgr)) j = (if j = i then Some ses else hm_get (sessions mgr) j)"
  "session_config (put_session i ses mgr) = session_config mgr"
  by (simp_all add: put_session_def)

lemma drop_session_parts [simp]:
  "sessions (drop_session i mgr) = hm_remove i (sessions mgr)" "session_config (drop_session i mgr) = session_config mgr"
  by (simp_all add: drop_session_def)

text \<open>The loop tries the draws in turn.\<close>

lemma begin_loop_result:
  assumes "\<not> hm_contains (sessions mgr) (nano m)" "n \<le> m" "\<And>j. n \<le> j \<Longrightarrow> j < m \<Longrightarrow> hm_contains (sessions mgr) (nano j)"
  shows "begin_loop nano now owner n mgr =
    Some (put_session (nano m) ((session_new (nano m) owner now)\<lparr>session_transaction := Some (txn_new (''tx_'' @ nano (m + 1)) now)\<rparr>) mgr, nano m)"
  using assms(2,3)
proof (induction "m - n" arbitrary: n)
  case 0
  then have "n = m" by simp
  then show ?case using assms(1) by (subst begin_loop.simps) (simp add: put_session_def)
next
  case (Suc d)
  then have "n < m" by simp
  moreover from this have "hm_contains (sessions mgr) (nano n)" using Suc.prems(2) by simp
  ultimately show ?case using Suc.hyps(1) [of "n + 1"] Suc.hyps(2) Suc.prems(2) by (subst begin_loop.simps) simp
qed

lemma begin_loop_Some:
  assumes "begin_loop nano now owner n mgr = Some (mgr', i)"
  shows "hm_get (sessions mgr) i = None \<and>
    (\<exists>tid. mgr' = put_session i ((session_new i owner now)\<lparr>session_transaction := Some (txn_new tid now)\<rparr>) mgr)"
proof -
  have "case r of (mgr', i) \<Rightarrow> hm_get (sessions mgr) i = None \<and>
      (\<exists>tid. mgr' = put_session i ((session_new i owner now)\<lparr>session_transaction := Some (txn_new tid now)\<rparr>) mgr)"
    if "begin_loop nano now owner n mgr = Some r" for r
    using that
    by (rule begin_loop.raw_induct [rotated]) (auto simp: hm_contains_iff put_session_def Let_def split: if_splits)
  from this [OF assms] show ?thesis by simp
qed

lemma cleanup_get:
  assumes "hm_wf (sessions mgr)"
  shows "hm_get (sessions (fst (cleanup_timed_out now mgr))) i =
    (case hm_get (sessions mgr) i of
       Some ses \<Rightarrow> if is_timed_out now (transaction_timeout (session_config mgr)) ses then None else Some ses
     | None \<Rightarrow> None)"
proof -
  let ?P = "\<lambda>ses. is_timed_out now (transaction_timeout (session_config mgr)) ses"
  have drop: "hm_wf (sessions m) \<Longrightarrow> hm_get (sessions (fold drop_session ids m)) j = (if j \<in> set ids then None else hm_get (sessions m) j)" for ids m j
    by (induction ids arbitrary: m) auto
  have "i \<in> set (map fst (filter (\<lambda>(_, ses). ?P ses) (sessions mgr))) \<longleftrightarrow> (\<exists>ses. hm_get (sessions mgr) i = Some ses \<and> ?P ses)"
    by (force simp: hm_get_iff_set [OF assms])
  then show ?thesis using drop [OF assms] by (auto simp: cleanup_timed_out_def Let_def split: option.split)
qed

lemma cleanup_wf: "hm_wf (sessions mgr) \<Longrightarrow> hm_wf (sessions (fst (cleanup_timed_out now mgr)))"
proof -
  have "hm_wf (sessions m) \<Longrightarrow> hm_wf (sessions (fold drop_session ids m))" for ids m
    by (induction ids arbitrary: m) auto
  then show "hm_wf (sessions mgr) \<Longrightarrow> hm_wf (sessions (fst (cleanup_timed_out now mgr)))" by (simp add: cleanup_timed_out_def Let_def)
qed

section \<open>Steps\<close>

text \<open>What the server runs in a session: it leaves the transaction active and well formed.\<close>

definition data_op :: "('ks, 'd, 'x) txn_env \<Rightarrow> 'a txn_op \<Rightarrow> bool" where
  "data_op X f \<longleftrightarrow> (\<forall>tx tx' r. f tx = (tx', r) \<longrightarrow> is_active tx \<longrightarrow> txn_wf X tx \<longrightarrow> is_active tx' \<and> txn_wf X tx')"

text \<open>The steps of a manager, with the owner that takes the step; the cleanup is taken by nobody.\<close>

inductive mgr_step :: "('ks, 'd, 'x) txn_env \<Rightarrow> SessionOwner option \<Rightarrow> SessionManager \<Rightarrow> SessionManager \<Rightarrow> bool" for X where
  step_begin: "begin_transaction nano now owner mgr = Some (mgr', i) \<Longrightarrow> mgr_step X (Some owner) mgr mgr'"
| step_use: "data_op X f \<Longrightarrow> with_transaction now i owner (f :: unit txn_op) mgr = (mgr', r) \<Longrightarrow> mgr_step X (Some owner) mgr mgr'"
| step_session_commit: "session_commit X T T' i owner mgr (s :: ('ks, 'x) database) = (s', mgr', r) \<Longrightarrow> mgr_step X (Some owner) mgr mgr'"
| step_session_rollback: "session_rollback i owner mgr = (mgr', r) \<Longrightarrow> mgr_step X (Some owner) mgr mgr'"
| step_timeout: "set_query_timeout i owner timeout mgr = (mgr', r) \<Longrightarrow> mgr_step X (Some owner) mgr mgr'"
| step_cleanup: "cleanup_timed_out now mgr = (mgr', n) \<Longrightarrow> mgr_step X None mgr mgr'"

inductive_cases mgr_stepE: "mgr_step X a mgr mgr'"

definition session_ok :: "('ks, 'd, 'x) txn_env \<Rightarrow> string \<Rightarrow> Session \<Rightarrow> bool" where
  "session_ok X i ses \<longleftrightarrow> session_id ses = i \<and> (\<exists>tx. session_transaction ses = Some tx \<and> is_active tx \<and> txn_wf X tx)"

definition mgr_ok :: "('ks, 'd, 'x) txn_env \<Rightarrow> SessionManager \<Rightarrow> bool" where
  "mgr_ok X mgr \<longleftrightarrow> hm_wf (sessions mgr) \<and> (\<forall>i ses. hm_get (sessions mgr) i = Some ses \<longrightarrow> session_ok X i ses)"

text \<open>A step of an owner: one session, new or its own, is written or dropped.\<close>

inductive owner_change :: "('ks, 'd, 'x) txn_env \<Rightarrow> SessionOwner \<Rightarrow> SessionManager \<Rightarrow> SessionManager \<Rightarrow> bool" for X owner where
  change_none: "owner_change X owner mgr mgr"
| change_put: "hm_get (sessions mgr) i = None \<or> hm_get (sessions mgr) i = Some ses0 \<and> session_owner ses0 = owner \<Longrightarrow>
    session_owner ses = owner \<Longrightarrow> (mgr_ok X mgr \<Longrightarrow> session_ok X i ses) \<Longrightarrow> owner_change X owner mgr (put_session i ses mgr)"
| change_drop: "hm_get (sessions mgr) i = Some ses0 \<Longrightarrow> session_owner ses0 = owner \<Longrightarrow> owner_change X owner mgr (drop_session i mgr)"

lemma validate_owner_Inr [simp]: "validate_owner ses owner = Inr u \<longleftrightarrow> session_owner ses = owner"
  by (auto simp: validate_owner_def)

lemma session_okD:
  "mgr_ok X mgr \<Longrightarrow> hm_get (sessions mgr) i = Some ses \<Longrightarrow> session_ok X i ses" "mgr_ok X mgr \<Longrightarrow> hm_wf (sessions mgr)"
  by (simp_all add: mgr_ok_def)

lemma with_transaction_change:
  assumes f: "data_op X f" and res: "with_transaction now i owner f mgr = (mgr', r)"
  shows "owner_change X owner mgr mgr'"
proof (cases "hm_get (sessions mgr) i")
  case (Some ses)
  show ?thesis
  proof (cases "session_owner ses = owner")
    case True
    then have v: "validate_owner ses owner = Inr ()" by simp
    show ?thesis
    proof (cases "\<exists>tx. session_transaction ses = Some tx \<and> is_active tx")
      case active: True
      then obtain tx tx' q where tx: "session_transaction ses = Some tx" "is_active tx" "f tx = (tx', q)" by (metis surj_pair)
      have f': "txn_wf X tx \<Longrightarrow> is_active tx' \<and> txn_wf X tx'" using f tx(2,3) unfolding data_op_def by blast
      have mgr': "mgr' = put_session i ((session_touch now ses)\<lparr>session_transaction := Some tx'\<rparr>) mgr"
        using res Some tx by (simp add: with_transaction_def session_touch_def v)
      show ?thesis unfolding mgr'
        by (rule change_put [of _ _ ses]) (use Some True tx(1,2) f' in \<open>auto simp: session_touch_def session_ok_def dest!: session_okD(1)\<close>)
    next
      case inactive: False
      then have mgr': "mgr' = put_session i (session_touch now ses) mgr"
        using res Some by (cases "session_transaction ses") (simp_all add: with_transaction_def session_touch_def v)
      show ?thesis unfolding mgr'
        by (rule change_put [of _ _ ses]) (use Some True inactive in \<open>auto simp: session_touch_def session_ok_def dest!: session_okD(1)\<close>)
    qed
  next
    case False
    then have "mgr' = mgr" using res Some by (auto simp: with_transaction_def split: sum.splits)
    then show ?thesis by (simp add: change_none)
  qed
qed (use res in \<open>auto simp: with_transaction_def intro: change_none\<close>)

lemma owned_transaction_Inr:
  "owned_transaction i owner mgr = Inr (ses, tx) \<longleftrightarrow>
     hm_get (sessions mgr) i = Some ses \<and> session_owner ses = owner \<and> session_transaction ses = Some tx"
  by (auto simp: owned_transaction_def and_then_Inr_iff split: option.splits)

lemma commit_change:
  assumes res: "session_commit X T T' i owner mgr s = (s', mgr', r)"
  shows "owner_change X owner mgr mgr'"
proof (cases "owned_transaction i owner mgr")
  case (Inr p)
  then obtain ses tx where p: "owned_transaction i owner mgr = Inr (ses, tx)" by (cases p) simp
  note own = p [unfolded owned_transaction_Inr]
  obtain s1 tx1 q where com: "txn_commit X T T' tx s = (s1, tx1, q)" by (metis surj_pair)
  show ?thesis
  proof (cases q)
    case (Inl e)
    then have tx1: "tx1 = tx" using txn_commit_fails [of X T T' tx s s1 tx1 e] com by simp
    have mgr': "mgr' = put_session i (ses\<lparr>session_transaction := Some tx\<rparr>) mgr"
      using res p com Inl tx1 by (simp add: session_commit_def)
    show ?thesis unfolding mgr' by (rule change_put [of _ _ ses]) (use own in \<open>auto simp: session_ok_def dest!: session_okD(1)\<close>)
  next
    case (Inr u)
    then have "mgr' = drop_session i mgr" using res p com by (simp add: session_commit_def)
    then show ?thesis using own by (auto intro: change_drop)
  qed
qed (use res in \<open>auto simp: session_commit_def intro: change_none\<close>)

lemma rollback_change:
  assumes res: "session_rollback i owner mgr = (mgr', r)"
  shows "owner_change X owner mgr mgr'"
proof (cases "owned_transaction i owner mgr")
  case (Inr p)
  then obtain ses tx where p: "owned_transaction i owner mgr = Inr (ses, tx)" by (cases p) simp
  note own = p [unfolded owned_transaction_Inr]
  show ?thesis
  proof (cases "is_active tx")
    case True
    then have "mgr' = drop_session i mgr" using res p by (simp add: session_rollback_def txn_rollback_def ensure_active_def is_active_def)
    then show ?thesis using own by (auto intro: change_drop)
  next
    case False
    then have mgr': "mgr' = put_session i (ses\<lparr>session_transaction := Some tx\<rparr>) mgr"
      using res p by (auto simp: session_rollback_def txn_rollback_def ensure_active_def is_active_def)
    show ?thesis unfolding mgr' by (rule change_put [of _ _ ses]) (use own in \<open>auto simp: session_ok_def dest!: session_okD(1)\<close>)
  qed
qed (use res in \<open>auto simp: session_rollback_def intro: change_none\<close>)

lemma timeout_change:
  assumes res: "set_query_timeout i owner timeout mgr = (mgr', r)"
  shows "owner_change X owner mgr mgr'"
proof (cases "accessible_session i owner mgr")
  case (Inr ses)
  then have own: "hm_get (sessions mgr) i = Some ses" "session_owner ses = owner"
    by (auto simp: accessible_session_def and_then_Inr_iff split: option.splits if_splits)
  have mgr': "mgr' = put_session i (ses\<lparr>query_timeout := timeout\<rparr>) mgr" using res Inr by (simp add: set_query_timeout_def)
  show ?thesis unfolding mgr' by (rule change_put [of _ _ ses]) (use own in \<open>auto simp: session_ok_def dest!: session_okD(1)\<close>)
qed (use res in \<open>auto simp: set_query_timeout_def intro: change_none\<close>)

lemma begin_change:
  assumes "begin_transaction nano now owner mgr = Some (mgr', i)"
  shows "owner_change X owner mgr mgr'"
proof -
  obtain tid where new: "hm_get (sessions mgr) i = None"
    "mgr' = put_session i ((session_new i owner now)\<lparr>session_transaction := Some (txn_new tid now)\<rparr>) mgr"
    using begin_loop_Some assms unfolding begin_transaction_def by blast
  have "is_active (txn_new tid now)" by (simp add: is_active_def txn_new_def)
  then show ?thesis unfolding new(2)
    by (intro change_put) (use new(1) in \<open>auto simp: session_new_def session_ok_def txn_wf_new\<close>)
qed

lemma step_owner_change: "mgr_step X (Some owner) mgr mgr' \<Longrightarrow> owner_change X owner mgr mgr'"
  by (erule mgr_stepE) (auto intro: begin_change with_transaction_change commit_change rollback_change timeout_change)

lemma owner_change_ok:
  assumes "owner_change X owner mgr mgr'" "mgr_ok X mgr"
  shows "mgr_ok X mgr'"
  using assms(1)
proof (cases rule: owner_change.cases)
  case (change_put i ses0 ses)
  then show ?thesis using assms(2) by (auto simp: mgr_ok_def put_session_def)
next
  case (change_drop i ses0)
  then show ?thesis using assms(2) by (auto simp: mgr_ok_def split: if_splits)
qed (use assms in simp)

lemma step_ok: "mgr_step X a mgr mgr' \<Longrightarrow> mgr_ok X mgr \<Longrightarrow> mgr_ok X mgr'"
proof (cases a)
  case None
  assume st: "mgr_step X a mgr mgr'" and ok: "mgr_ok X mgr"
  obtain now where "mgr' = fst (cleanup_timed_out now mgr)" using st None by (auto elim!: mgr_stepE) (metis fst_conv)
  then show ?thesis using ok cleanup_get [OF session_okD(2) [OF ok]] cleanup_wf [OF session_okD(2) [OF ok]]
    by (auto simp: mgr_ok_def split: option.splits if_splits)
qed (use step_owner_change owner_change_ok in blast)

lemma owner_change_others:
  assumes "owner_change X owner mgr mgr'" "hm_wf (sessions mgr)" "hm_get (sessions mgr) i = Some ses"
  shows "(session_owner ses \<noteq> owner \<longrightarrow> hm_get (sessions mgr') i = Some ses) \<and>
    (\<forall>ses'. hm_get (sessions mgr') i = Some ses' \<longrightarrow> session_owner ses' = session_owner ses)"
  using assms by (cases rule: owner_change.cases) auto

lemma reachable_ok: "(\<lambda>m m'. \<exists>a. mgr_step X a m m')\<^sup>*\<^sup>* (manager_new config) mgr \<Longrightarrow> mgr_ok X mgr"
proof (induction rule: rtranclp_induct)
  case base
  show ?case by (simp add: manager_new_def mgr_ok_def)
qed (use step_ok in blast)

section \<open>Properties\<close>



text \<open>The loop that draws a session identifier ends: when the first draws, one more than there are
  sessions, are different, a transaction begins, under an identifier that was free, and the other
  sessions stay as they are.\<close>

theorem begin_transaction_terminates:
  assumes "hm_wf (sessions mgr)" "inj_on nano {..active_count mgr}"
  shows "\<exists>mgr' i ses. begin_transaction nano now owner mgr = Some (mgr', i) \<and> hm_get (sessions mgr) i = None \<and>
    hm_get (sessions mgr') i = Some ses \<and> session_owner ses = owner \<and> has_transaction ses \<and>
    (\<forall>j. j \<noteq> i \<longrightarrow> hm_get (sessions mgr') j = hm_get (sessions mgr) j)"
proof -
  have "\<exists>m. \<not> hm_contains (sessions mgr) (nano m)"
  proof (rule ccontr)
    assume "\<nexists>m. \<not> hm_contains (sessions mgr) (nano m)"
    then have "nano ` {..active_count mgr} \<subseteq> set (map fst (sessions mgr))" by (auto simp: hm_contains_iff hm_get_None_iff)
    then have "card (nano ` {..active_count mgr}) \<le> length (map fst (sessions mgr))" by (meson List.finite_set card_length card_mono le_trans)
    then show False using card_image [OF assms(2)] by (simp add: active_count_def)
  qed
  then obtain m where "\<not> hm_contains (sessions mgr) (nano m)" "\<And>j. j < m \<Longrightarrow> hm_contains (sessions mgr) (nano j)"
    using exists_least_iff [of "\<lambda>m. \<not> hm_contains (sessions mgr) (nano m)"] by blast
  then have "begin_transaction nano now owner mgr = Some (put_session (nano m)
      ((session_new (nano m) owner now)\<lparr>session_transaction := Some (txn_new (''tx_'' @ nano (m + 1)) now)\<rparr>) mgr, nano m)"
    "hm_get (sessions mgr) (nano m) = None"
    unfolding begin_transaction_def using begin_loop_result [of mgr nano m 0 now owner] by (simp_all add: hm_contains_iff)
  then show ?thesis by (simp add: session_new_def has_transaction_def is_active_def txn_new_def)
qed

text \<open>The commit of a session publishes exactly the documents that its transaction saw, and ends the
  session. When it fails, the session and its transaction are as before and the data is unchanged.\<close>

theorem session_commit_publishes:
  assumes "db_engine (env_of X) content" "represents_docs (env_of X) content A s" "index_keyspaces_distinct s"
    and "\<And>ws. mset (te_writes_order X ws) = mset ws" "\<And>es. mset (te_edges_order X es) = mset es"
    and "(\<lambda>m m'. \<exists>a. mgr_step X a m m')\<^sup>*\<^sup>* (manager_new config) mgr"
    and "hm_get (sessions mgr) i = Some ses" "session_transaction ses = Some tx"
    and "\<And>k b d. (k, PInsert b) \<in> set (pending_writes tx) \<Longrightarrow> dec (db_docs X) b = Inr d \<Longrightarrow> docs_admissible (env_of X) s A d"
    and "session_commit X T T' i owner mgr s = (s', mgr', r)"
  shows "case r of
      Inr _ \<Rightarrow> session_owner ses = owner \<and> represents_docs (env_of X) content (txn_docs X tx A) s' \<and> hm_get (sessions mgr') i = None
    | Inl _ \<Rightarrow> hm_get (sessions mgr') i = Some ses \<and> (\<forall>nm. nm \<notin> catalogue_keyspaces \<longrightarrow> disk s' nm = disk s nm)"
proof -
  have ok: "mgr_ok X mgr" by (rule reachable_ok [OF assms(6)])
  have wf: "txn_wf X tx" using session_okD(1) [OF ok assms(7)] assms(8) by (simp add: session_ok_def)
  show ?thesis
  proof (cases "owned_transaction i owner mgr")
    case (Inl e)
    then show ?thesis using assms(7,10) by (auto simp: session_commit_def)
  next
    case (Inr p)
    then have p: "owned_transaction i owner mgr = Inr (ses, tx)" "session_owner ses = owner"
      using owned_transaction_Inr [of i owner mgr "fst p" "snd p"] assms(7,8) by auto
    obtain s1 tx1 q where com: "txn_commit X T T' tx s = (s1, tx1, q)" by (metis surj_pair)
    have same: "ses\<lparr>session_transaction := Some tx\<rparr> = ses" using assms(8) by (cases ses) simp
    show ?thesis
    proof (cases q)
      case (Inl e)
      then have "tx1 = tx \<and> same_disk catalogue_keyspaces s s1" using txn_commit_fails [of X T T' tx s s1 tx1 e] com by simp
      then show ?thesis using assms(10) p(1) com Inl same by (auto simp: session_commit_def same_disk_def)
    next
      case (Inr u)
      then have c: "txn_commit X T T' tx s = (s1, tx1, Inr u)" using com by simp
      have "represents_docs (env_of X) content (txn_docs X tx A) s1"
        by (rule conjunct1 [OF txn_commit_ok [OF assms(1-3) wf assms(4,5) _ c]]) (rule assms(9))
      then show ?thesis using assms(10) p com Inr session_okD(2) [OF ok] by (auto simp: session_commit_def)
    qed
  qed
qed

text \<open>Witnesses: Alice begins a transaction, writes a document and commits; Bob tries to roll it back.\<close>

definition alice :: SessionOwner where "alice = owner_authenticated ''alice'' ''db1''"
definition bob :: SessionOwner where "bob = owner_authenticated ''bob'' ''db1''"

definition draws :: "nat \<Rightarrow> string" where "draws n = (if n = 1 then ''1'' else replicate (n + 1) (CHR ''s''))"

definition alices :: SessionManager where
  "alices = \<lparr>sessions = [(''s'', \<lparr>session_id = ''s'', session_owner = alice, session_transaction = Some (txn_new ''tx_1'' 0),
     last_activity = 0, query_timeout = None\<rparr>)], session_config = config_default\<rparr>"

definition alices_write :: SessionManager where
  "alices_write = fst (with_transaction 1 ''s'' alice (txn_insert mem_txn_env linked_doc) alices)"

lemma draws_inj: "inj_on draws A"
  by (rule inj_onI) (auto simp: draws_def split: if_splits)

lemma alices_begin: "begin_transaction draws 0 alice (manager_new config_default) = Some (alices, ''s'')"
  by (simp add: begin_transaction_def manager_new_def begin_loop.simps hm_contains_def draws_def session_new_def alices_def)

lemma alices_step: "mgr_step mem_txn_env (Some alice) (manager_new config_default) alices"
  by (rule step_begin [OF alices_begin])

theorem begin_transaction_terminates_witness:
  "\<exists>mgr' i. begin_transaction draws 0 bob alices = Some (mgr', i) \<and> hm_get (sessions mgr') ''s'' = hm_get (sessions alices) ''s''"
  using begin_transaction_terminates [of alices draws 0 bob] draws_inj by (auto simp: alices_def hm_wf_def split: if_splits)



lemma alices_write_session:
  "hm_get (sessions alices_write) ''s'' = Some \<lparr>session_id = ''s'', session_owner = alice, session_transaction = Some rewriting,
     last_activity = 1, query_timeout = None\<rparr>"
  using rewriting_insert
  by (simp add: alices_write_def with_transaction_def alices_def validate_owner_def session_touch_def is_active_def txn_new_def put_session_def)

lemma insert_data_op: "data_op mem_txn_env (txn_insert mem_txn_env linked_doc)"
proof -
  have "utf8_valid (encode_doc_key (collection linked_doc) (key linked_doc))" by (simp add: encode_doc_key_def) code_simp
  then have "txn_wf mem_txn_env tx'" if "txn_insert mem_txn_env linked_doc tx = (tx', r)" "txn_wf mem_txn_env tx" for tx tx' r
    using txn_wf_insert [OF that(2) _ _ that(1)] mem_docs_codec by simp
  moreover have "is_active tx'" if "txn_insert mem_txn_env linked_doc tx = (tx', r)" "is_active tx" for tx tx' r
    using that by (auto simp: txn_insert_def is_active_def split: sum.splits)
  ultimately show ?thesis unfolding data_op_def by blast
qed

theorem session_commit_publishes_witness:
  "\<exists>s' mgr'. session_commit mem_txn_env commits commits ''s'' alice alices_write linked_db = (s', mgr', Inr ()) \<and>
     hm_get (sessions mgr') ''s'' = None \<and>
     represents_docs mem_db_env map_of (txn_docs mem_txn_env rewriting [(''u'', ''a'') \<mapsto> linked_doc]) s'"
proof -
  obtain s' tx' where "txn_commit mem_txn_env commits commits rewriting linked_db = (s', tx', Inr ())" using rewriting_commits by blast
  then have com: "session_commit mem_txn_env commits commits ''s'' alice alices_write linked_db = (s', drop_session ''s'' alices_write, Inr ())"
    by (simp add: session_commit_def owned_transaction_def alices_write_session validate_owner_def)
  have names: "index_keyspaces_distinct linked_db" by (simp add: index_keyspaces_distinct_def index_names_distinct_def)
  have "mgr_step mem_txn_env (Some alice) alices alices_write"
    by (rule step_use [OF insert_data_op, of 1 "''s''" alice alices _ "snd (with_transaction 1 ''s'' alice (txn_insert mem_txn_env linked_doc) alices)"])
      (simp add: alices_write_def)
  then have reach: "(\<lambda>m m'. \<exists>a. mgr_step mem_txn_env a m m')\<^sup>*\<^sup>* (manager_new config_default) alices_write"
    using alices_step by (blast intro: rtranclp.rtrancl_into_rtrancl)
  show ?thesis
    using session_commit_publishes [OF _ _ names _ _ reach alices_write_session _ _ com, of map_of "[(''u'', ''a'') \<mapsto> linked_doc]" rewriting]
      rewriting_admissible com mem_db_engine linked_represents by simp
qed

end
