(* ===== verification/Query_Batch.thy ===== *)
theory Query_Batch
  imports Authorization Error_Reports Sessions
begin

text \<open>
  Execution of a batch of statements: \<open>query/builder.rs\<close> with \<open>builder/direct.rs\<close>, \<open>builder/planned.rs\<close>,
  \<open>builder/state.rs\<close> and \<open>builder/result.rs\<close>, in a build with the feature \<open>auth\<close>. A batch checks the access
  of each statement, handles transaction control, SET and the statements without a plan, and hands
  the others to the planner, on the database or in the transaction of a session.

  What runs one statement on a context is the argument \<open>executors\<close>: once for the database itself, once
  for a transaction with its database. Binding, the analyzers and the operations of the authentication
  service are arguments too. \<open>stmt_env\<close> holds what a statement meets: the clock, the draws of \<open>nanoid\<close> and
  the engine transactions of a commit. The lock against DDL that a query takes is not modelled, as
  operations run one at a time.
\<close>

section \<open>Context and state (builder.rs, state.rs, result.rs)\<close>

record 'au ExecuteContext =
  ec_session_id :: "string option"
  ec_query_timeout :: "nat option"
  ec_params :: fields
  ec_query_timeout_explicit :: bool
  ec_execution_started_at :: nat
  ec_server_db_deadline :: "nat option"
  ec_request_deadline :: "nat option"
  ec_database :: "string option"
  ec_authorization :: "('au \<Rightarrow> AuthorizationProvider) option"
  ec_auth :: bool
  ec_subject :: "Subject option"
  ec_principal_identity :: "string option"

definition ctx_owner :: "'au ExecuteContext \<Rightarrow> SessionOwner" where
  "ctx_owner ctx =
     (let database = (case ec_database ctx of Some d \<Rightarrow> d | None \<Rightarrow> [])
      in case ec_subject ctx of
           Some s \<Rightarrow> owner_authenticated (case ec_principal_identity ctx of Some p \<Rightarrow> p | None \<Rightarrow> user_id s) database
         | None \<Rightarrow> owner_anonymous database)"

record StatementResult =
  sr_statement_index :: nat
  sr_statement_type :: string
  sr_rows :: "Row list"
  sr_rows_affected :: "u64 option"
  sr_session_id :: "string option"

record BatchResult =
  br_results :: "StatementResult list"
  br_completed :: nat
  br_error :: "BatchError option"

record BatchState =
  bs_results :: "StatementResult list"
  bs_vars :: VarScope
  bs_batch_tx :: "string option"
  bs_query_timeout :: "nat option option"

definition batch_state_new :: "fields \<Rightarrow> BatchState" where
  "batch_state_new params = \<lparr>bs_results = [], bs_vars = [params], bs_batch_tx = None, bs_query_timeout = None\<rparr>"

definition result_data :: "nat \<Rightarrow> string \<Rightarrow> Row list \<Rightarrow> StatementResult" where
  "result_data i stmt_type rows =
     \<lparr>sr_statement_index = i, sr_statement_type = stmt_type, sr_rows = rows, sr_rows_affected = None, sr_session_id = None\<rparr>"

definition result_affected :: "nat \<Rightarrow> string \<Rightarrow> u64 \<Rightarrow> StatementResult" where
  "result_affected i stmt_type n =
     \<lparr>sr_statement_index = i, sr_statement_type = stmt_type, sr_rows = [], sr_rows_affected = Some n, sr_session_id = None\<rparr>"

definition result_begin :: "nat \<Rightarrow> string \<Rightarrow> StatementResult" where
  "result_begin i sid = (result_data i ''BEGIN'' [])\<lparr>sr_session_id := Some sid\<rparr>"

definition result_commit :: "nat \<Rightarrow> StatementResult" where
  "result_commit i = result_data i ''COMMIT'' []"

definition result_rollback :: "nat \<Rightarrow> StatementResult" where
  "result_rollback i = result_data i ''ROLLBACK'' []"

definition push_result :: "StatementResult \<Rightarrow> BatchState \<Rightarrow> BatchState" where
  "push_result r st = st\<lparr>bs_results := bs_results st @ [r]\<rparr>"

definition status_row :: "(string \<times> Value) list \<Rightarrow> Row list" where
  "status_row fs = [from_doc \<lparr>doc_id = [], doc_fields = hm_extend [] fs\<rparr>]"

definition make_statement_result :: "nat \<Rightarrow> 'q Stmt \<Rightarrow> Row list \<Rightarrow> StatementResult" where
  "make_statement_result i stmt rows =
     (case stmt of
        StDelete d \<Rightarrow>
          (case de_target d of
             DelDocument _ \<Rightarrow> result_affected i (statement_type stmt) (of_nat (length rows))
           | DelEdge _ _ _ \<Rightarrow> result_data i (statement_type stmt) rows)
      | _ \<Rightarrow> result_data i (statement_type stmt) rows)"

definition error_result :: "StatementResult list \<Rightarrow> nat \<Rightarrow> BatchError \<Rightarrow> BatchResult" where
  "error_result results i error = \<lparr>br_results = results, br_completed = i, br_error = Some error\<rparr>"

definition query_error_result :: "StatementResult list \<Rightarrow> nat \<Rightarrow> QueryError \<Rightarrow> BatchResult" where
  "query_error_result results i error = error_result results i (from_query_error i error)"

section \<open>Errors of sessions (builder.rs)\<close>

definition map_session_access_error :: "SessionAccessError \<Rightarrow> ExecuteError" where
  "map_session_access_error e =
     (case e of PrincipalMismatch \<Rightarrow> ESessionAccessDenied | DatabaseMismatch \<Rightarrow> ESessionDatabaseMismatch | Expired \<Rightarrow> ESessionExpired)"

definition map_session_error :: "SessionError \<Rightarrow> ExecuteError" where
  "map_session_error e =
     (case e of
        SessionAccess a \<Rightarrow> map_session_access_error a
      | SessionTransaction t \<Rightarrow>
          (case t of
             TxConflict \<Rightarrow> ETransactionConflict
           | TxTimeout \<Rightarrow> EQueryTimeout ''transaction deadline exceeded''
           | NoActiveTransaction \<Rightarrow> ETransactionNotSupported ''No active transaction''
           | AlreadyCompleted \<Rightarrow> ETransactionNotSupported ''Transaction already completed''
           | TxStorage x \<Rightarrow> EStorage x
           | TxInternal m \<Rightarrow> EInternal m))"

definition map_session_operation_error :: "ExecuteError SessionOperationError \<Rightarrow> ExecuteError" where
  "map_session_operation_error e =
     (case e of
        OpAccess a \<Rightarrow> map_session_access_error a
      | OpTransaction t \<Rightarrow> map_session_error (SessionTransaction t)
      | OpOperation x \<Rightarrow> x)"

section \<open>What a batch runs on\<close>

record ('ks, 'x, 'au) world =
  w_db :: "('ks, 'x) database"
  w_sessions :: "SessionManager option"
  w_auth :: 'au

datatype DeadlineSource = QueryExecution | ServerDb | RequestTransport

type_synonym QueryDeadline = "(nat \<times> DeadlineSource) option"

datatype ControlFlow = CfValue Value | CfBreak | CfContinue

record ('q, 'c) executors =
  x_has_subquery :: "'q Projection \<Rightarrow> bool"
  x_resolve_projection :: "VarScope \<Rightarrow> 'q Projection \<Rightarrow> 'c \<Rightarrow> 'q Projection eval_result"
  x_resolve_expr :: "VarScope \<Rightarrow> 'q Expr \<Rightarrow> 'c \<Rightarrow> 'q Expr eval_result"
  x_materialize :: "VarScope \<Rightarrow> 'q DataSource \<Rightarrow> 'c \<Rightarrow> Row list eval_result"
  x_eval :: "VarScope \<Rightarrow> 'q Expr \<Rightarrow> 'c \<Rightarrow> Value eval_result"
  x_block :: "'q Expr \<Rightarrow> QueryDeadline \<Rightarrow> VarScope \<Rightarrow> 'c \<Rightarrow> 'c \<times> (VarScope \<times> ControlFlow) eval_result"
  x_execute_ddl :: "'q LogicalPlan \<Rightarrow> 'c \<Rightarrow> 'c \<times> Row list eval_result"
  x_explain :: "'q LogicalPlan \<Rightarrow> QueryDeadline \<Rightarrow> 'c \<Rightarrow> 'c \<times> Row list eval_result"
  x_execute_statement :: "VarScope \<Rightarrow> 'q Stmt \<Rightarrow> QueryDeadline \<Rightarrow> 'c \<Rightarrow> 'c \<times> Row list eval_result"
  x_relate :: "VarScope \<Rightarrow> 'q RelateAst \<Rightarrow> 'c \<Rightarrow> 'c \<times> Row list eval_result"

record 'au auth_service =
  au_create_user :: "string \<Rightarrow> string \<Rightarrow> 'au \<Rightarrow> 'au \<times> (AuthError + unit)"
  au_drop_user :: "string \<Rightarrow> 'au \<Rightarrow> 'au \<times> (AuthError + unit)"
  au_alter_user_password :: "string \<Rightarrow> string \<Rightarrow> 'au \<Rightarrow> 'au \<times> (AuthError + unit)"
  au_alter_user_set :: "string \<Rightarrow> (string, string) hashmap \<Rightarrow> 'au \<Rightarrow> 'au \<times> (AuthError + unit)"
  au_alter_user_remove :: "string \<Rightarrow> string list \<Rightarrow> 'au \<Rightarrow> 'au \<times> (AuthError + unit)"
  au_create_api_key :: "string \<Rightarrow> string \<Rightarrow> 'au \<Rightarrow> 'au \<times> (AuthError + string)"
  au_drop_api_key :: "string \<Rightarrow> 'au \<Rightarrow> 'au \<times> (AuthError + unit)"
  au_create_policy :: "Policy \<Rightarrow> 'au \<Rightarrow> 'au \<times> (AuthError + unit)"
  au_drop_policy :: "string \<Rightarrow> 'au \<Rightarrow> 'au \<times> (AuthError + unit)"
  au_set_collection_attributes :: "string \<Rightarrow> string \<Rightarrow> (string, string) hashmap \<Rightarrow> 'au \<Rightarrow> 'au \<times> (string + unit)"
  au_remove_collection_attributes :: "string \<Rightarrow> string \<Rightarrow> string list \<Rightarrow> 'au \<Rightarrow> 'au \<times> (string + unit)"

record stmt_env =
  se_nanoid :: "nat \<Rightarrow> string"
  se_now :: nat
  se_check_now :: nat
  se_begin_tx :: tx_env
  se_commit_tx :: tx_env
  se_micros :: u64

record ('q, 'ks, 'd, 'x, 'e, 'au) batch_engine =
  en_txn :: "('ks, 'd, 'x) txn_env"
  en_env :: "'e env"
  en_debug :: "Value \<Rightarrow> string"
  en_on_db :: "('q, ('ks, 'x) database) executors"
  en_on_tx :: "('q, ('ks, 'x) database \<times> Transaction) executors"
  en_bind :: "'q Stmt \<Rightarrow> ('ks, 'x) database \<Rightarrow> BindError + 'q Stmt"
  en_define_analyzer :: "DefineAnalyzerAst \<Rightarrow> ('ks, 'x) database \<Rightarrow> ('ks, 'x) database \<times> Row list eval_result"
  en_drop_analyzer :: "string \<Rightarrow> ('ks, 'x) database \<Rightarrow> ('ks, 'x) database \<times> Row list eval_result"
  en_auth :: "'au auth_service"
  en_checked_add :: "nat \<Rightarrow> nat \<Rightarrow> nat option"
  en_stmt :: "nat \<Rightarrow> stmt_env"

section \<open>Failures\<close>

definition is_panic :: "ExecuteError \<Rightarrow> bool" where
  "is_panic e = (case e of EPanic _ \<Rightarrow> True | EStorage (StoragePanic _) \<Rightarrow> True | _ \<Rightarrow> False)"

definition auto_rollback :: "string option \<Rightarrow> 'au ExecuteContext \<Rightarrow> ('ks, 'x, 'au) world \<Rightarrow> ('ks, 'x, 'au) world" where
  "auto_rollback batch_tx ctx w =
     (case (batch_tx, w_sessions w) of
        (Some tx_id, Some mgr) \<Rightarrow> w\<lparr>w_sessions := Some (fst (session_rollback tx_id (ctx_owner ctx) mgr))\<rparr>
      | _ \<Rightarrow> w)"

text \<open>What becomes of a statement: the batch goes on, or the statement is passed on, or the batch ends
  with its result. A panic ends it without a rollback.\<close>

datatype 'q DirectOutcome = Handled BatchState | NotHandled "'q Stmt" | Ended "BatchResult eval_result"

definition finish_failure ::
  "nat \<Rightarrow> BatchError \<Rightarrow> 'au ExecuteContext \<Rightarrow> BatchState \<Rightarrow> ('ks, 'x, 'au) world \<Rightarrow> ('ks, 'x, 'au) world \<times> 'q DirectOutcome" where
  "finish_failure i error ctx st w =
     (auto_rollback (bs_batch_tx st) ctx w, Ended (Inr (error_result (bs_results st) i error)))"

definition direct_fail ::
  "nat \<Rightarrow> string \<Rightarrow> 'au ExecuteContext \<Rightarrow> BatchState \<Rightarrow> ('ks, 'x, 'au) world \<Rightarrow> ('ks, 'x, 'au) world \<times> 'q DirectOutcome" where
  "direct_fail i message ctx st w = finish_failure i (batch_error_public i ''SDB-QE000'' ClsInvalidArgument message) ctx st w"

definition fail_execute ::
  "nat \<Rightarrow> ExecuteError \<Rightarrow> 'au ExecuteContext \<Rightarrow> BatchState \<Rightarrow> ('ks, 'x, 'au) world \<Rightarrow> ('ks, 'x, 'au) world \<times> 'q DirectOutcome" where
  "fail_execute i e ctx st w =
     (if is_panic e then (w, Ended (Inl e)) else finish_failure i (from_execute_error i e) ctx st w)"

definition fail_auth ::
  "nat \<Rightarrow> AuthError \<Rightarrow> 'au ExecuteContext \<Rightarrow> BatchState \<Rightarrow> ('ks, 'x, 'au) world \<Rightarrow> ('ks, 'x, 'au) world \<times> 'q DirectOutcome" where
  "fail_auth i e ctx st w = finish_failure i (from_auth_error i e) ctx st w"

definition fail_internal ::
  "nat \<Rightarrow> string \<Rightarrow> 'au ExecuteContext \<Rightarrow> BatchState \<Rightarrow> ('ks, 'x, 'au) world \<Rightarrow> ('ks, 'x, 'au) world \<times> 'q DirectOutcome" where
  "fail_internal i source ctx st w = finish_failure i (batch_error_internal i ''SDB-QE016'' source) ctx st w"

text \<open>\<open>fail\<close> of \<open>planned.rs\<close>, and the failures in the loop of \<open>execute_batch\<close>.\<close>

definition fail_query ::
  "nat \<Rightarrow> QueryError \<Rightarrow> 'au ExecuteContext \<Rightarrow> BatchState \<Rightarrow> ('ks, 'x, 'au) world \<Rightarrow> ('ks, 'x, 'au) world \<times> 'q DirectOutcome" where
  "fail_query i e ctx st w =
     (case e of
        QExecute x \<Rightarrow>
          if is_panic x then (w, Ended (Inl x))
          else (auto_rollback (bs_batch_tx st) ctx w, Ended (Inr (query_error_result (bs_results st) i e)))
      | QBind _ \<Rightarrow> (auto_rollback (bs_batch_tx st) ctx w, Ended (Inr (query_error_result (bs_results st) i e))))"

section \<open>Deadlines (builder.rs, operator.rs)\<close>

definition check_deadline :: "nat \<Rightarrow> QueryDeadline \<Rightarrow> unit eval_result" where
  "check_deadline now deadline =
     (case deadline of
        Some (dl, source) \<Rightarrow>
          if dl < now
          then Inl (case source of
                      QueryExecution \<Rightarrow> EQueryTimeout ''query execution deadline''
                    | ServerDb \<Rightarrow> EServerDeadlineExceeded
                    | RequestTransport \<Rightarrow> EQueryTimeout ''request transport deadline'')
          else Inr ()
      | None \<Rightarrow> Inr ())"

text \<open>\<open>min_by_key\<close> keeps the first of the least.\<close>

fun min_deadline :: "(nat \<times> DeadlineSource) list \<Rightarrow> QueryDeadline" where
  "min_deadline [] = None"
| "min_deadline (d # ds) =
     (case min_deadline ds of None \<Rightarrow> Some d | Some m \<Rightarrow> if fst d \<le> fst m then Some d else Some m)"

definition or_else :: "'a option \<Rightarrow> 'a option \<Rightarrow> 'a option" where
  "or_else a b = (case a of Some _ \<Rightarrow> a | None \<Rightarrow> b)"

definition session_timeout :: "'au ExecuteContext \<Rightarrow> BatchState \<Rightarrow> SessionManager option \<Rightarrow> nat option" where
  "session_timeout ctx st mgr =
     (case (mgr, or_else (bs_batch_tx st) (ec_session_id ctx)) of
        (Some m, Some i) \<Rightarrow> (case get_query_timeout i (ctx_owner ctx) m of Inr t \<Rightarrow> t | Inl _ \<Rightarrow> None)
      | _ \<Rightarrow> None)"

definition effective_timeout :: "'au ExecuteContext \<Rightarrow> BatchState \<Rightarrow> SessionManager option \<Rightarrow> nat option" where
  "effective_timeout ctx st mgr =
     (if ec_query_timeout_explicit ctx then ec_query_timeout ctx
      else case bs_query_timeout st of
             Some t \<Rightarrow> t
           | None \<Rightarrow> or_else (session_timeout ctx st mgr) (ec_query_timeout ctx))"

definition execution_deadline ::
  "('q, 'ks, 'd, 'x, 'e, 'au) batch_engine \<Rightarrow> 'au ExecuteContext \<Rightarrow> BatchState \<Rightarrow> SessionManager option \<Rightarrow> QueryDeadline" where
  "execution_deadline en ctx st mgr =
     (let query_deadline = (case effective_timeout ctx st mgr of
            Some duration \<Rightarrow>
              map_option (\<lambda>deadline. (deadline, QueryExecution)) (en_checked_add en (ec_execution_started_at ctx) duration)
          | None \<Rightarrow> None)
      in min_deadline (List.map_filter id
           [query_deadline, map_option (\<lambda>d. (d, ServerDb)) (ec_server_db_deadline ctx),
            map_option (\<lambda>d. (d, RequestTransport)) (ec_request_deadline ctx)]))"

section \<open>Transaction control and SET (direct.rs)\<close>

text \<open>\<open>None\<close>: the search for a free session identifier does not end.\<close>

definition begin_statement ::
  "('q, 'ks, 'd, 'x, 'e, 'au) batch_engine \<Rightarrow> nat \<Rightarrow> 'au ExecuteContext \<Rightarrow> BatchState \<Rightarrow> ('ks, 'x, 'au) world
     \<Rightarrow> (('ks, 'x, 'au) world \<times> BatchState eval_result) option" where
  "begin_statement en i ctx st w =
     (case w_sessions w of
        None \<Rightarrow> Some (w, Inl ESessionRequired)
      | Some mgr \<Rightarrow>
          if bs_batch_tx st \<noteq> None \<or> ec_session_id ctx \<noteq> None
          then Some (w, Inl (ETransactionNotSupported ''BEGIN requires no active transaction''))
          else case begin_transaction (se_nanoid (en_stmt en i)) (se_now (en_stmt en i)) (ctx_owner ctx) mgr of
                 None \<Rightarrow> None
               | Some (mgr', sid) \<Rightarrow>
                   Some (w\<lparr>w_sessions := Some mgr'\<rparr>, Inr (push_result (result_begin i sid) (st\<lparr>bs_batch_tx := Some sid\<rparr>))))"

definition commit_statement ::
  "('q, 'ks, 'd, 'x, 'e, 'au) batch_engine \<Rightarrow> nat \<Rightarrow> 'au ExecuteContext \<Rightarrow> BatchState \<Rightarrow> ('ks, 'x, 'au) world
     \<Rightarrow> ('ks, 'x, 'au) world \<times> BatchState eval_result" where
  "commit_statement en i ctx st w =
     (case w_sessions w of
        None \<Rightarrow> (w, Inl ESessionRequired)
      | Some mgr \<Rightarrow>
          (case or_else (bs_batch_tx st) (ec_session_id ctx) of
             None \<Rightarrow> (w, Inl (ETransactionNotSupported ''COMMIT requires active transaction''))
           | Some tx_id \<Rightarrow>
               (case session_commit (en_txn en) (se_begin_tx (en_stmt en i)) (se_commit_tx (en_stmt en i)) tx_id (ctx_owner ctx) mgr (w_db w) of
                  (s', mgr', Inl e) \<Rightarrow> (w\<lparr>w_db := s', w_sessions := Some mgr'\<rparr>, Inl (map_session_error e))
                | (s', mgr', Inr _) \<Rightarrow>
                    (w\<lparr>w_db := s', w_sessions := Some mgr'\<rparr>, Inr (push_result (result_commit i) (st\<lparr>bs_batch_tx := None\<rparr>))))))"

definition rollback_statement ::
  "nat \<Rightarrow> 'au ExecuteContext \<Rightarrow> BatchState \<Rightarrow> ('ks, 'x, 'au) world \<Rightarrow> ('ks, 'x, 'au) world \<times> BatchState eval_result" where
  "rollback_statement i ctx st w =
     (case w_sessions w of
        None \<Rightarrow> (w, Inl ESessionRequired)
      | Some mgr \<Rightarrow>
          (case or_else (bs_batch_tx st) (ec_session_id ctx) of
             None \<Rightarrow> (w, Inl (ETransactionNotSupported ''ROLLBACK requires active transaction''))
           | Some tx_id \<Rightarrow>
               (case session_rollback tx_id (ctx_owner ctx) mgr of
                  (mgr', Inl e) \<Rightarrow> (w\<lparr>w_sessions := Some mgr'\<rparr>, Inl (map_session_error e))
                | (mgr', Inr _) \<Rightarrow>
                    (w\<lparr>w_sessions := Some mgr'\<rparr>, Inr (push_result (result_rollback i) (st\<lparr>bs_batch_tx := None\<rparr>))))))"

definition set_statement ::
  "nat \<Rightarrow> SetAst \<Rightarrow> 'au ExecuteContext \<Rightarrow> BatchState \<Rightarrow> ('ks, 'x, 'au) world \<Rightarrow> ('ks, 'x, 'au) world \<times> BatchState eval_result" where
  "set_statement i a ctx st w =
     (let timeout = (if value_nanos a = 0 then None else Some (unat (value_nanos a)));
          st' = push_result (result_data i ''SET'' (status_row [(''key'', VString (set_key a)), (''status'', VString ''ok'')]))
                  (st\<lparr>bs_query_timeout := Some timeout\<rparr>)
      in case (w_sessions w, or_else (bs_batch_tx st) (ec_session_id ctx)) of
           (Some mgr, Some sid) \<Rightarrow>
             (case set_query_timeout sid (ctx_owner ctx) timeout mgr of
                (mgr', Inl e) \<Rightarrow> (w\<lparr>w_sessions := Some mgr'\<rparr>, Inl (map_session_access_error e))
              | (mgr', Inr _) \<Rightarrow> (w\<lparr>w_sessions := Some mgr'\<rparr>, Inr st'))
         | _ \<Rightarrow> (w, Inr st'))"

definition try_handle_tx_or_set ::
  "('q, 'ks, 'd, 'x, 'e, 'au) batch_engine \<Rightarrow> nat \<Rightarrow> 'q Stmt \<Rightarrow> 'au ExecuteContext \<Rightarrow> BatchState \<Rightarrow> ('ks, 'x, 'au) world
     \<Rightarrow> (('ks, 'x, 'au) world \<times> 'q DirectOutcome eval_result) option" where
  "try_handle_tx_or_set en i stmt ctx st w =
     (case stmt of
        StBegin \<Rightarrow> map_option (\<lambda>(w', r). (w', map_sum id Handled r)) (begin_statement en i ctx st w)
      | StCommit \<Rightarrow> Some (map_prod id (map_sum id Handled) (commit_statement en i ctx st w))
      | StRollback \<Rightarrow> Some (map_prod id (map_sum id Handled) (rollback_statement i ctx st w))
      | StSet a \<Rightarrow> Some (map_prod id (map_sum id Handled) (set_statement i a ctx st w))
      | _ \<Rightarrow> Some (w, Inr (NotHandled stmt)))"

section \<open>Database or transaction\<close>

text \<open>An operation on the database, or in the transaction of the session; the transaction can change
  the database only through what its operations return.\<close>

definition in_transaction_of ::
  "('s \<times> Transaction \<Rightarrow> ('s \<times> Transaction) \<times> 'a eval_result) \<Rightarrow> 's \<Rightarrow> Transaction \<Rightarrow> Transaction \<times> ('s \<times> ExecuteError + 's \<times> 'a)" where
  "in_transaction_of g s tx =
     (case g (s, tx) of ((s', tx'), r) \<Rightarrow> (tx', map_sum (Pair s') (Pair s') r))"

definition in_context ::
  "nat \<Rightarrow> 'au ExecuteContext \<Rightarrow> string option \<Rightarrow> (('ks, 'x) database \<Rightarrow> ('ks, 'x) database \<times> 'a eval_result)
     \<Rightarrow> (('ks, 'x) database \<times> Transaction \<Rightarrow> (('ks, 'x) database \<times> Transaction) \<times> 'a eval_result)
     \<Rightarrow> ('ks, 'x, 'au) world \<Rightarrow> ('ks, 'x, 'au) world \<times> 'a eval_result" where
  "in_context now ctx active_tx_id f g w =
     (case active_tx_id of
        None \<Rightarrow> (case f (w_db w) of (s', r) \<Rightarrow> (w\<lparr>w_db := s'\<rparr>, r))
      | Some tx_id \<Rightarrow>
          (case w_sessions w of
             None \<Rightarrow> (w, Inl (EPanic ''sessions required for transaction context''))
           | Some mgr \<Rightarrow>
               (case with_transaction_operation now tx_id (ctx_owner ctx) (in_transaction_of g (w_db w)) mgr of
                  (mgr', Inr (s', a)) \<Rightarrow> (w\<lparr>w_db := s', w_sessions := Some mgr'\<rparr>, Inr a)
                | (mgr', Inl (OpOperation (s', e))) \<Rightarrow>
                    (w\<lparr>w_db := s', w_sessions := Some mgr'\<rparr>, Inl (map_session_operation_error (OpOperation e)))
                | (mgr', Inl (OpAccess e)) \<Rightarrow> (w\<lparr>w_sessions := Some mgr'\<rparr>, Inl (map_session_operation_error (OpAccess e)))
                | (mgr', Inl (OpTransaction e)) \<Rightarrow> (w\<lparr>w_sessions := Some mgr'\<rparr>, Inl (map_session_operation_error (OpTransaction e))))))"

section \<open>Statements without a plan (direct.rs)\<close>

definition push_rows ::
  "nat \<Rightarrow> string \<Rightarrow> 'au ExecuteContext \<Rightarrow> BatchState \<Rightarrow> ('ks, 'x, 'au) world \<times> Row list eval_result
     \<Rightarrow> ('ks, 'x, 'au) world \<times> 'q DirectOutcome" where
  "push_rows i stmt_type ctx st p =
     (case p of
        (w, Inr rows) \<Rightarrow> (w, Handled (push_result (result_data i stmt_type rows) st))
      | (w, Inl e) \<Rightarrow> fail_execute i e ctx st w)"

definition on_db ::
  "(('ks, 'x) database \<Rightarrow> ('ks, 'x) database \<times> 'a) \<Rightarrow> ('ks, 'x, 'au) world \<Rightarrow> ('ks, 'x, 'au) world \<times> 'a" where
  "on_db f w = (case f (w_db w) of (s', r) \<Rightarrow> (w\<lparr>w_db := s'\<rparr>, r))"

text \<open>A statement of the authentication service: its operation, and the row from its answer.\<close>

definition auth_statement ::
  "nat \<Rightarrow> string \<Rightarrow> ('au \<Rightarrow> 'au \<times> (AuthError + 'a)) \<Rightarrow> ('a \<Rightarrow> (string \<times> Value) list) \<Rightarrow> 'au ExecuteContext \<Rightarrow> BatchState
     \<Rightarrow> ('ks, 'x, 'au) world \<Rightarrow> ('ks, 'x, 'au) world \<times> 'q DirectOutcome" where
  "auth_statement i stmt_type f row ctx st w =
     (if \<not> ec_auth ctx then direct_fail i ''Auth not configured'' ctx st w
      else case f (w_auth w) of
        (au, Inr a) \<Rightarrow> (w\<lparr>w_auth := au\<rparr>, Handled (push_result (result_data i stmt_type (status_row (row a))) st))
      | (au, Inl e) \<Rightarrow> fail_auth i e ctx st (w\<lparr>w_auth := au\<rparr>))"

definition attrs_statement ::
  "nat \<Rightarrow> ('au \<Rightarrow> 'au \<times> (string + unit)) \<Rightarrow> (string \<times> Value) list \<Rightarrow> 'au ExecuteContext \<Rightarrow> BatchState
     \<Rightarrow> ('ks, 'x, 'au) world \<Rightarrow> ('ks, 'x, 'au) world \<times> 'q DirectOutcome" where
  "attrs_statement i f row ctx st w =
     (if \<not> ec_auth ctx then direct_fail i ''Auth not configured'' ctx st w
      else case f (w_auth w) of
        (au, Inr _) \<Rightarrow> (w\<lparr>w_auth := au\<rparr>, Handled (push_result (result_data i ''ALTER COLLECTION'' (status_row row)) st))
      | (au, Inl e) \<Rightarrow> fail_internal i e ctx st (w\<lparr>w_auth := au\<rparr>))"

definition expr_statement ::
  "('q, 'ks, 'd, 'x, 'e, 'au) batch_engine \<Rightarrow> nat \<Rightarrow> 'q Expr \<Rightarrow> string option \<Rightarrow> 'au ExecuteContext \<Rightarrow> BatchState \<Rightarrow> QueryDeadline
     \<Rightarrow> ('ks, 'x, 'au) world \<Rightarrow> ('ks, 'x, 'au) world \<times> 'q DirectOutcome" where
  "expr_statement en i expr active_tx_id ctx st deadline w =
     (case in_context (se_now (en_stmt en i)) ctx active_tx_id
             (x_block (en_on_db en) expr deadline (bs_vars st)) (x_block (en_on_tx en) expr deadline (bs_vars st)) w of
        (w', Inr (vars, CfValue v)) \<Rightarrow>
          (w', Handled (push_result (result_data i ''EXPR'' [row_scalar v]) (st\<lparr>bs_vars := vars\<rparr>)))
      | (w', Inr (vars, CfBreak)) \<Rightarrow> direct_fail i ''BREAK outside of FOR loop'' ctx st w'
      | (w', Inr (vars, CfContinue)) \<Rightarrow> direct_fail i ''CONTINUE outside of FOR loop'' ctx st w'
      | (w', Inl e) \<Rightarrow> fail_execute i e ctx st w')"

abbreviation status :: "string \<Rightarrow> (string \<times> Value)" where
  "status s \<equiv> (''status'', VString s)"

abbreviation database_of :: "'au ExecuteContext \<Rightarrow> string" where
  "database_of ctx \<equiv> (case ec_database ctx of Some d \<Rightarrow> d | None \<Rightarrow> [])"

definition try_handle_statement ::
  "('q, 'ks, 'd, 'x, 'e, 'au) batch_engine \<Rightarrow> nat \<Rightarrow> 'q Stmt \<Rightarrow> string option \<Rightarrow> 'au ExecuteContext \<Rightarrow> BatchState \<Rightarrow> QueryDeadline
     \<Rightarrow> ('ks, 'x, 'au) world \<Rightarrow> ('ks, 'x, 'au) world \<times> 'q DirectOutcome" where
  "try_handle_statement en i stmt active_tx_id ctx st deadline w =
     (let au = en_auth en in
      if is_ddl stmt \<and> active_tx_id \<noteq> None then fail_execute i EDdlNotAllowedInTransaction ctx st w
      else case stmt of
        StDefineAnalyzer a \<Rightarrow> push_rows i ''DEFINE ANALYZER'' ctx st (on_db (en_define_analyzer en a) w)
      | StDropAnalyzer name \<Rightarrow> push_rows i ''DROP ANALYZER'' ctx st (on_db (en_drop_analyzer en name) w)
      | StCreateUser a \<Rightarrow>
          auth_statement i ''CREATE USER'' (au_create_user au (cu_username a) (cu_password a))
            (\<lambda>_. [status ''created'', (''user'', VString (cu_username a))]) ctx st w
      | StDropUser name \<Rightarrow>
          auth_statement i ''DROP USER'' (au_drop_user au name) (\<lambda>_. [status ''dropped'', (''user'', VString name)]) ctx st w
      | StAlterUser (AlterPassword name password) \<Rightarrow>
          auth_statement i ''ALTER USER'' (au_alter_user_password au name password)
            (\<lambda>_. [status ''password_changed'', (''user'', VString name)]) ctx st w
      | StAlterUser (AlterSet name attrs) \<Rightarrow>
          auth_statement i ''ALTER USER'' (au_alter_user_set au name (hm_extend [] attrs))
            (\<lambda>_. [status ''attributes_set'', (''user'', VString name)]) ctx st w
      | StAlterUser (AlterRemove name attrs) \<Rightarrow>
          auth_statement i ''ALTER USER'' (au_alter_user_remove au name attrs)
            (\<lambda>_. [status ''attributes_removed'', (''user'', VString name)]) ctx st w
      | StCreateApiKey a \<Rightarrow>
          auth_statement i ''CREATE API KEY'' (au_create_api_key au (ck_name a) (ck_username a))
            (\<lambda>k. [status ''created'', (''name'', VString (ck_name a)), (''user'', VString (ck_username a)), (''key'', VString k)]) ctx st w
      | StDropApiKey name \<Rightarrow>
          auth_statement i ''DROP API KEY'' (au_drop_api_key au name) (\<lambda>_. [status ''dropped'', (''name'', VString name)]) ctx st w
      | StCreatePolicy a \<Rightarrow>
          auth_statement i ''CREATE POLICY'' (au_create_policy au (policy_of_ast a))
            (\<lambda>_. [status ''created'', (''policy'', VString (cp_name a))]) ctx st w
      | StDropPolicy name \<Rightarrow>
          auth_statement i ''DROP POLICY'' (au_drop_policy au name) (\<lambda>_. [status ''dropped'', (''policy'', VString name)]) ctx st w
      | StAlterCollectionAttrs (AttrsSet coll attrs) \<Rightarrow>
          attrs_statement i (au_set_collection_attributes au (database_of ctx) coll (hm_extend [] attrs))
            [status ''attributes_set'', (''collection'', VString coll)] ctx st w
      | StAlterCollectionAttrs (AttrsRemove coll attrs) \<Rightarrow>
          attrs_statement i (au_remove_collection_attributes au (database_of ctx) coll attrs)
            [status ''attributes_removed'', (''collection'', VString coll)] ctx st w
      | StRelate a \<Rightarrow>
          push_rows i ''RELATE'' ctx st
            (in_context (se_now (en_stmt en i)) ctx active_tx_id
               (x_relate (en_on_db en) (bs_vars st) a) (x_relate (en_on_tx en) (bs_vars st) a) w)
      | StExpr e \<Rightarrow> expr_statement en i e active_tx_id ctx st deadline w
      | _ \<Rightarrow> (w, NotHandled stmt))"

section \<open>Planned statements (planned.rs)\<close>

definition bind_variable_result :: "string \<Rightarrow> Value \<Rightarrow> VarScope \<Rightarrow> (VarScope \<times> Row list) eval_result" where
  "bind_variable_result name v vars =
     (case scope_set name v vars of
        None \<Rightarrow> Inl (EPanic ''VarScope must always have at least one frame'')
      | Some vars' \<Rightarrow>
          Inr (vars', status_row [(''variable'', VString name), (''value'', v), status ''bound'']))"

definition is_block :: "'q Expr \<Rightarrow> bool" where
  "is_block e = (case e of EIf _ _ \<Rightarrow> True | EFor _ _ _ \<Rightarrow> True | _ \<Rightarrow> False)"

definition execute_let ::
  "('q, 'c) executors \<Rightarrow> string \<Rightarrow> 'q Expr \<Rightarrow> VarScope \<Rightarrow> QueryDeadline \<Rightarrow> 'c \<Rightarrow> 'c \<times> (VarScope \<times> Row list) eval_result" where
  "execute_let ex name expr vars deadline c =
     (case x_resolve_expr ex vars expr c of
        Inl e \<Rightarrow> (c, Inl e)
      | Inr resolved_expr \<Rightarrow>
          if is_block resolved_expr
          then (case x_block ex resolved_expr deadline vars c of
                  (c', Inr (vars', CfValue v)) \<Rightarrow> (c', bind_variable_result name v vars')
                | (c', Inr _) \<Rightarrow> (c', Inl (EInternal ''BREAK/CONTINUE in LET expression''))
                | (c', Inl e) \<Rightarrow> (c', Inl e))
          else (c, and_then (x_eval ex vars resolved_expr c) (\<lambda>v. bind_variable_result name v vars)))"

definition with_vars :: "VarScope \<Rightarrow> 'c \<times> Row list eval_result \<Rightarrow> 'c \<times> (VarScope \<times> Row list) eval_result" where
  "with_vars vars p = map_prod id (map_sum id (Pair vars)) p"

definition execute_plan ::
  "('q, 'c) executors \<Rightarrow> 'q Stmt \<Rightarrow> 'q LogicalPlan \<Rightarrow> VarScope \<Rightarrow> QueryDeadline \<Rightarrow> bool \<Rightarrow> 'c \<Rightarrow> 'c \<times> (VarScope \<times> Row list) eval_result" where
  "execute_plan ex resolved_stmt plan vars deadline in_transaction c =
     (case plan of
        LDefineCollection _ _ _ _ \<Rightarrow> with_vars vars (x_execute_ddl ex plan c)
      | LDropCollection _ _ \<Rightarrow> with_vars vars (x_execute_ddl ex plan c)
      | LDescribeCollection _ \<Rightarrow> with_vars vars (x_execute_ddl ex plan c)
      | LDescribeCollections \<Rightarrow> with_vars vars (x_execute_ddl ex plan c)
      | LCreateIndex _ _ _ _ _ _ \<Rightarrow> with_vars vars (x_execute_ddl ex plan c)
      | LDropIndex _ _ \<Rightarrow> with_vars vars (x_execute_ddl ex plan c)
      | LReindex _ _ \<Rightarrow> with_vars vars (x_execute_ddl ex plan c)
      | LExplain _ _ _ \<Rightarrow>
          if in_transaction then (c, Inl (EInternal ''EXPLAIN not allowed in transactions''))
          else with_vars vars (x_explain ex plan deadline c)
      | LLet name expr \<Rightarrow> execute_let ex name expr vars deadline c
      | LBegin \<Rightarrow> (c, Inl (EPanic ''TX control handled above''))
      | LCommit \<Rightarrow> (c, Inl (EPanic ''TX control handled above''))
      | LRollback \<Rightarrow> (c, Inl (EPanic ''TX control handled above''))
      | _ \<Rightarrow> with_vars vars (x_execute_statement ex vars resolved_stmt deadline c))"

definition resolve_statement :: "('q, 'c) executors \<Rightarrow> VarScope \<Rightarrow> 'q Stmt \<Rightarrow> 'c \<Rightarrow> 'q Stmt eval_result" where
  "resolve_statement ex vars stmt c =
     (case stmt of
        StSelect s \<Rightarrow>
          if x_has_subquery ex (sa_projection s)
          then and_then (x_resolve_projection ex vars (sa_projection s) c) (\<lambda>projection.
                 Inr (StSelect (s\<lparr>sa_projection := projection\<rparr>)))
          else Inr stmt
      | _ \<Rightarrow> Inr stmt)"

definition execute_bound_statement ::
  "'e env \<Rightarrow> (Value \<Rightarrow> string) \<Rightarrow> u64 \<Rightarrow> ('q, 'c) executors \<Rightarrow> VarScope \<Rightarrow> QueryDeadline \<Rightarrow> bool \<Rightarrow> 'q Stmt \<Rightarrow> 'c
     \<Rightarrow> 'c \<times> ('q Stmt \<times> VarScope \<times> Row list) eval_result" where
  "execute_bound_statement E dbg micros ex vars deadline in_transaction stmt c =
     (case resolve_statement ex vars stmt c of
        Inl e \<Rightarrow> (c, Inl e)
      | Inr resolved_stmt \<Rightarrow>
          (case plan_from_statement E dbg (\<lambda>source. x_materialize ex vars source c) micros resolved_stmt of
             Inl e \<Rightarrow> (c, Inl e)
           | Inr plan \<Rightarrow>
               map_prod id (map_sum id (Pair resolved_stmt)) (execute_plan ex resolved_stmt plan vars deadline in_transaction c)))"

definition execute_planned_statement ::
  "('q, 'ks, 'd, 'x, 'e, 'au) batch_engine \<Rightarrow> nat \<Rightarrow> 'q Stmt \<Rightarrow> string option \<Rightarrow> 'au ExecuteContext \<Rightarrow> BatchState \<Rightarrow> QueryDeadline
     \<Rightarrow> ('ks, 'x, 'au) world \<Rightarrow> ('ks, 'x, 'au) world \<times> 'q DirectOutcome" where
  "execute_planned_statement en i stmt active_tx_id ctx st deadline w =
     (if is_ddl stmt \<and> active_tx_id \<noteq> None then fail_query i (QExecute EDdlNotAllowedInTransaction) ctx st w
      else case en_bind en stmt (w_db w) of
        Inl e \<Rightarrow> fail_query i (QBind e) ctx st w
      | Inr bound \<Rightarrow>
          (case in_context (se_now (en_stmt en i)) ctx active_tx_id
                  (execute_bound_statement (en_env en) (en_debug en) (se_micros (en_stmt en i)) (en_on_db en) (bs_vars st) deadline False bound)
                  (execute_bound_statement (en_env en) (en_debug en) (se_micros (en_stmt en i)) (en_on_tx en) (bs_vars st) deadline True bound)
                  w of
             (w', Inl e) \<Rightarrow> fail_query i (QExecute e) ctx st w'
           | (w', Inr (resolved_stmt, vars, rows)) \<Rightarrow>
               (w', Handled (push_result (make_statement_result i resolved_stmt rows) (st\<lparr>bs_vars := vars\<rparr>)))))"

section \<open>The loop (builder.rs)\<close>

definition authorized ::
  "'au ExecuteContext \<Rightarrow> 'au \<Rightarrow> 'q Stmt \<Rightarrow> string + unit" where
  "authorized ctx au stmt =
     authorize_statement (map_option (\<lambda>provider. provider au) (ec_authorization ctx)) (ec_subject ctx) (database_of ctx) stmt"

text \<open>The body of the loop, from the access check to the result.\<close>

definition dispatch_statement ::
  "('q, 'ks, 'd, 'x, 'e, 'au) batch_engine \<Rightarrow> nat \<Rightarrow> 'q Stmt \<Rightarrow> string option \<Rightarrow> 'au ExecuteContext \<Rightarrow> BatchState
     \<Rightarrow> ('ks, 'x, 'au) world \<Rightarrow> ('ks, 'x, 'au) world \<times> 'q DirectOutcome" where
  "dispatch_statement en i stmt active_tx_id ctx st w =
     (let deadline = execution_deadline en ctx st (w_sessions w)
      in case check_deadline (se_check_now (en_stmt en i)) deadline of
           Inl e \<Rightarrow> fail_query i (QExecute e) ctx st w
         | Inr _ \<Rightarrow>
             (case try_handle_statement en i stmt active_tx_id ctx st deadline w of
                (w', NotHandled stmt') \<Rightarrow> execute_planned_statement en i stmt' active_tx_id ctx st deadline w'
              | done_with \<Rightarrow> done_with))"

definition run_statement ::
  "('q, 'ks, 'd, 'x, 'e, 'au) batch_engine \<Rightarrow> nat \<Rightarrow> 'q Stmt \<Rightarrow> 'au ExecuteContext \<Rightarrow> BatchState
     \<Rightarrow> ('ks, 'x, 'au) world \<Rightarrow> (('ks, 'x, 'au) world \<times> 'q DirectOutcome) option" where
  "run_statement en i stmt ctx st w =
     (case authorized ctx (w_auth w) stmt of
        Inl message \<Rightarrow> Some (finish_failure i (batch_error_public i ''SDB-AC002'' ClsForbidden message) ctx st w)
      | Inr _ \<Rightarrow>
          (let active_tx_id = or_else (bs_batch_tx st) (ec_session_id ctx)
           in case try_handle_tx_or_set en i stmt ctx st w of
                None \<Rightarrow> None
              | Some (w', Inr (NotHandled stmt')) \<Rightarrow> Some (dispatch_statement en i stmt' active_tx_id ctx st w')
              | Some (w', Inr res) \<Rightarrow> Some (w', res)
              | Some (w', Inl e) \<Rightarrow> Some (fail_query i (QExecute e) ctx st w')))"

fun batch_loop ::
  "('q, 'ks, 'd, 'x, 'e, 'au) batch_engine \<Rightarrow> nat \<Rightarrow> 'q Stmt list \<Rightarrow> 'au ExecuteContext \<Rightarrow> BatchState
     \<Rightarrow> ('ks, 'x, 'au) world \<Rightarrow> (('ks, 'x, 'au) world \<times> BatchResult eval_result) option" where
  "batch_loop en i [] ctx st w =
     Some (w, Inr \<lparr>br_results = bs_results st, br_completed = length (bs_results st), br_error = None\<rparr>)"
| "batch_loop en i (stmt # stmts) ctx st w =
     (case run_statement en i stmt ctx st w of
        None \<Rightarrow> None
      | Some (w', Handled st') \<Rightarrow> batch_loop en (i + 1) stmts ctx st' w'
      | Some (w', Ended r) \<Rightarrow> Some (w', r)
      | Some (w', NotHandled _) \<Rightarrow> None)"

definition execute_batch ::
  "('q, 'ks, 'd, 'x, 'e, 'au) batch_engine \<Rightarrow> 'q Stmt list \<Rightarrow> 'au ExecuteContext
     \<Rightarrow> ('ks, 'x, 'au) world \<Rightarrow> (('ks, 'x, 'au) world \<times> BatchResult eval_result) option" where
  "execute_batch en stmts ctx w =
     (case (case (w_sessions w, ec_session_id ctx) of
              (Some mgr, Some sid) \<Rightarrow> validate_access sid (ctx_owner ctx) mgr
            | _ \<Rightarrow> Inr ()) of
        Inl e \<Rightarrow> Some (w, Inl (map_session_access_error e))
      | Inr _ \<Rightarrow> batch_loop en 0 stmts ctx (batch_state_new (ec_params ctx)) w)"

end
