(* ===== verification/Batch_Execution.thy ===== *)
theory Batch_Execution
  imports Query_Batch
begin

text \<open>
  What a batch of statements guarantees (\<open>Query_Batch\<close>): it returns; its results are those of its
  statements in order; a batch that fails leaves no transaction of its own behind; and nothing runs
  from the first statement on that the subject may not execute.
\<close>

section \<open>Executors leave the transaction active\<close>

definition tx_safe :: "('ks, 'd, 'x) txn_env \<Rightarrow> ('s \<times> Transaction \<Rightarrow> ('s \<times> Transaction) \<times> 'a) \<Rightarrow> bool" where
  "tx_safe X g \<longleftrightarrow> (\<forall>s tx s' tx' r. g (s, tx) = ((s', tx'), r) \<longrightarrow> is_active tx \<longrightarrow> txn_wf X tx \<longrightarrow> is_active tx' \<and> txn_wf X tx')"

lemma tx_safeD: "tx_safe X g \<Longrightarrow> g (s, tx) = ((s', tx'), r) \<Longrightarrow> is_active tx \<Longrightarrow> txn_wf X tx \<Longrightarrow> is_active tx' \<and> txn_wf X tx'"
  unfolding tx_safe_def by blast

lemma tx_safe_return [intro]: "tx_safe X (\<lambda>c. (c, f c))"
  by (simp add: tx_safe_def)

lemma tx_safe_map: "tx_safe X g \<Longrightarrow> tx_safe X (\<lambda>c. map_prod id h (g c))"
  by (auto simp: tx_safe_def map_prod_def split: prod.splits)

text \<open>What the batch relies on: the executors on a transaction neither commit it nor roll it back. The
  operations of \<open>Transaction_Context\<close>, through which they act, have this property.\<close>

definition executors_safe :: "('ks, 'd, 'x) txn_env \<Rightarrow> ('q, 's \<times> Transaction) executors \<Rightarrow> bool" where
  "executors_safe X ex \<longleftrightarrow>
     (\<forall>e dl vars. tx_safe X (x_block ex e dl vars)) \<and> (\<forall>plan. tx_safe X (x_execute_ddl ex plan)) \<and>
     (\<forall>plan dl. tx_safe X (x_explain ex plan dl)) \<and> (\<forall>vars stmt dl. tx_safe X (x_execute_statement ex vars stmt dl)) \<and>
     (\<forall>vars a. tx_safe X (x_relate ex vars a))"

lemma executors_safeD:
  assumes "executors_safe X ex"
  shows "tx_safe X (x_block ex e dl vars)" "tx_safe X (x_execute_ddl ex plan)" "tx_safe X (x_explain ex plan dl)"
    "tx_safe X (x_execute_statement ex vars stmt dl)" "tx_safe X (x_relate ex vars a)"
  using assms unfolding executors_safe_def by simp_all

lemma execute_let_safe:
  assumes "executors_safe X ex"
  shows "tx_safe X (execute_let ex name expr vars dl)"
  unfolding tx_safe_def execute_let_def
  using tx_safeD [OF executors_safeD(1) [OF assms]]
  by (fastforce split: sum.splits if_splits prod.splits ControlFlow.splits)

lemma execute_plan_safe:
  assumes "executors_safe X ex"
  shows "tx_safe X (execute_plan ex stmt plan vars dl in_tx)"
  using executors_safeD [OF assms] execute_let_safe [OF assms]
  by (cases plan; cases in_tx) (auto simp: execute_plan_def [abs_def] with_vars_def intro!: tx_safe_map)

lemma execute_bound_safe:
  assumes "executors_safe X ex"
  shows "tx_safe X (execute_bound_statement E dbg micros ex vars dl in_tx stmt)"
proof -
  have "tx_safe X (\<lambda>c. map_prod id (map_sum id (Pair st)) (execute_plan ex st plan vars dl in_tx c))" for st plan
    by (rule tx_safe_map [OF execute_plan_safe [OF assms]])
  note run = tx_safeD [OF this]
  show ?thesis
    unfolding tx_safe_def execute_bound_statement_def using run by (fastforce split: sum.splits)
qed

section \<open>Sessions across operations\<close>

text \<open>The same sessions with the same owners.\<close>

definition same_sessions :: "('ks, 'd, 'x) txn_env \<Rightarrow> SessionManager option \<Rightarrow> SessionManager option \<Rightarrow> bool" where
  "same_sessions X = rel_option (\<lambda>m m'. (mgr_ok X m \<longrightarrow> mgr_ok X m') \<and>
     (\<forall>i. map_option session_owner (hm_get (sessions m') i) = map_option session_owner (hm_get (sessions m) i)))"

lemma same_sessions_refl [simp]: "same_sessions X m m"
  by (cases m) (simp_all add: same_sessions_def)

lemma mgr_ok_put: "mgr_ok X mgr \<Longrightarrow> session_ok X i ses \<Longrightarrow> mgr_ok X (put_session i ses mgr)"
  by (auto simp: mgr_ok_def put_session_def)

lemma same_sessions_put:
  assumes "hm_get (sessions mgr) i = Some ses" "session_owner ses' = session_owner ses" "mgr_ok X mgr \<Longrightarrow> session_ok X i ses'"
  shows "same_sessions X (Some mgr) (Some (put_session i ses' mgr))"
  using assms by (auto simp: same_sessions_def intro: mgr_ok_put)

lemma with_transaction_operation_same:
  assumes "with_transaction_operation now i owner f mgr = (mgr', r)"
    and "\<And>tx tx' q. f tx = (tx', q) \<Longrightarrow> is_active tx \<Longrightarrow> txn_wf X tx \<Longrightarrow> is_active tx' \<and> txn_wf X tx'"
  shows "same_sessions X (Some mgr) (Some mgr')"
proof (cases "\<exists>ses. hm_get (sessions mgr) i = Some ses \<and> session_owner ses = owner")
  case True
  then obtain ses where ses: "hm_get (sessions mgr) i = Some ses" "validate_owner ses owner = Inr ()" by auto
  have same: "same_sessions X (Some mgr) (Some (put_session i ses' mgr))"
    if "session_owner ses' = session_owner ses" "session_ok X i ses \<Longrightarrow> session_ok X i ses'" for ses'
    using same_sessions_put [OF ses(1) that(1)] that(2) session_okD(1) [OF _ ses(1)] by blast
  show ?thesis
  proof (cases "\<exists>tx. session_transaction ses = Some tx \<and> is_active tx")
    case active: True
    then obtain tx tx' q where tx: "session_transaction ses = Some tx" "is_active tx" "f tx = (tx', q)" by (metis surj_pair)
    then have "mgr' = put_session i ((session_touch now ses)\<lparr>session_transaction := Some tx'\<rparr>) mgr"
      using assms(1) ses by (simp add: with_transaction_operation_def session_touch_def)
    then show ?thesis using same assms(2) [OF tx(3,2)] tx(1) by (simp add: session_touch_def session_ok_def)
  next
    case False
    then have "mgr' = put_session i (session_touch now ses) mgr"
      using assms(1) ses by (cases "session_transaction ses") (simp_all add: with_transaction_operation_def session_touch_def)
    then show ?thesis using same by (simp add: session_touch_def session_ok_def)
  qed
next
  case False
  then have "mgr' = mgr"
    using assms(1) by (cases "hm_get (sessions mgr) i") (auto simp: with_transaction_operation_def split: sum.splits)
  then show ?thesis by simp
qed

lemma in_context_same:
  assumes "in_context now ctx active f g w = (w', r)" "tx_safe X g"
  shows "same_sessions X (w_sessions w) (w_sessions w')"
proof (cases active)
  case None
  then show ?thesis using assms(1) by (auto simp: in_context_def split: prod.splits)
next
  case (Some i)
  show ?thesis
  proof (cases "w_sessions w")
    case None
    then show ?thesis using assms(1) Some by (simp add: in_context_def)
  next
    case mgr: (Some mgr)
    obtain mgr' q where op: "with_transaction_operation now i (ctx_owner ctx) (in_transaction_of g (w_db w)) mgr = (mgr', q)"
      by (metis surj_pair)
    then have "w_sessions w' = Some mgr'"
      using assms(1) Some mgr by (auto simp: in_context_def split: sum.splits prod.splits SessionOperationError.splits)
    moreover have "same_sessions X (Some mgr) (Some mgr')"
      by (rule with_transaction_operation_same [OF op])
        (use tx_safeD [OF assms(2)] in \<open>auto simp: in_transaction_of_def split: prod.splits\<close>)
    ultimately show ?thesis by (simp add: mgr)
  qed
qed

section \<open>The invariant of the loop\<close>

text \<open>\<open>ids\<close> are the sessions from before the batch. The batch has at most one more, its own, which it can
  roll back.\<close>

definition batch_inv :: "('ks, 'd, 'x) txn_env \<Rightarrow> SessionOwner \<Rightarrow> string set \<Rightarrow> string option \<Rightarrow> SessionManager option \<Rightarrow> bool" where
  "batch_inv X owner ids batch_tx m \<longleftrightarrow>
     (case m of
        None \<Rightarrow> batch_tx = None
      | Some mgr \<Rightarrow>
          mgr_ok X mgr \<and>
          (\<forall>i. batch_tx = Some i \<longrightarrow> map_option session_owner (hm_get (sessions mgr) i) = Some owner) \<and>
          (\<forall>i. hm_get (sessions mgr) i \<noteq> None \<longrightarrow> batch_tx = Some i \<or> i \<in> ids))"

definition closed :: "string set \<Rightarrow> SessionManager option \<Rightarrow> bool" where
  "closed ids m \<longleftrightarrow> (\<forall>mgr i. m = Some mgr \<longrightarrow> hm_get (sessions mgr) i \<noteq> None \<longrightarrow> i \<in> ids)"

lemma batch_inv_same: "batch_inv X owner ids batch_tx m \<Longrightarrow> same_sessions X m m' \<Longrightarrow> batch_inv X owner ids batch_tx m'"
proof (cases m)
  case (Some mgr)
  assume inv: "batch_inv X owner ids batch_tx m" and same: "same_sessions X m m'"
  then obtain mgr' where m': "m' = Some mgr'" using Some by (cases m') (simp_all add: same_sessions_def)
  have own: "map_option session_owner (hm_get (sessions mgr') i) = map_option session_owner (hm_get (sessions mgr) i)" for i
    using same Some m' by (simp add: same_sessions_def)
  then have "hm_get (sessions mgr') i \<noteq> None \<longleftrightarrow> hm_get (sessions mgr) i \<noteq> None" for i
    by (metis option.map_disc_iff)
  then show ?thesis using inv same Some m' own by (auto simp: batch_inv_def same_sessions_def)
qed (auto simp: batch_inv_def same_sessions_def)

lemma batch_inv_closed: "batch_inv X owner ids None m \<Longrightarrow> closed ids m"
  by (auto simp: batch_inv_def closed_def split: option.splits)

lemma session_rollback_drops:
  assumes "mgr_ok X mgr" "map_option session_owner (hm_get (sessions mgr) i) = Some owner"
  shows "session_rollback i owner mgr = (drop_session i mgr, Inr ())"
proof -
  obtain ses where ses: "hm_get (sessions mgr) i = Some ses" "session_owner ses = owner" using assms(2) by auto
  then obtain tx where tx: "session_transaction ses = Some tx" "is_active tx"
    using session_okD(1) [OF assms(1)] by (auto simp: session_ok_def)
  have "owned_transaction i owner mgr = Inr (ses, tx)" using ses tx by (simp add: owned_transaction_Inr)
  then show ?thesis using tx(2) by (simp add: session_rollback_def txn_rollback_def ensure_active_def is_active_def)
qed

lemma drop_own_session:
  assumes "batch_inv X owner ids (Some i) (Some mgr)"
  shows "batch_inv X owner ids None (Some (drop_session i mgr))"
  using assms owner_change_ok [OF change_drop [of mgr i _ owner X]]
  by (auto simp: batch_inv_def session_okD(2) split: if_splits) blast

lemma auto_rollback_closed:
  assumes "batch_inv X (ctx_owner ctx) ids batch_tx (w_sessions w)"
  shows "closed ids (w_sessions (auto_rollback batch_tx ctx w))"
proof (cases batch_tx)
  case None
  then show ?thesis using batch_inv_closed assms by (simp add: auto_rollback_def)
next
  case (Some i)
  then obtain mgr where mgr: "w_sessions w = Some mgr" using assms by (cases "w_sessions w") (simp_all add: batch_inv_def)
  then have "session_rollback i (ctx_owner ctx) mgr = (drop_session i mgr, Inr ())"
    using assms Some by (intro session_rollback_drops) (auto simp: batch_inv_def)
  then show ?thesis
    using batch_inv_closed [OF drop_own_session] assms Some mgr by (simp add: auto_rollback_def)
qed

section \<open>One statement\<close>

text \<open>The state before statement \<open>i\<close>, and what may follow it.\<close>

definition ready :: "('ks, 'd, 'x) txn_env \<Rightarrow> SessionOwner \<Rightarrow> string set \<Rightarrow> nat \<Rightarrow> BatchState \<Rightarrow> ('ks, 'x, 'au) world \<Rightarrow> bool" where
  "ready X owner ids i st w \<longleftrightarrow>
     batch_inv X owner ids (bs_batch_tx st) (w_sessions w) \<and> map sr_statement_index (bs_results st) = [0..<i]"

definition failed_at :: "nat \<Rightarrow> BatchResult \<Rightarrow> bool" where
  "failed_at i r \<longleftrightarrow>
     map sr_statement_index (br_results r) = [0..<i] \<and> br_completed r = i \<and>
     (\<exists>e. br_error r = Some e \<and> be_statement_index e = i \<and> redacted e)"

fun good :: "('ks, 'd, 'x) txn_env \<Rightarrow> SessionOwner \<Rightarrow> string set \<Rightarrow> nat \<Rightarrow> BatchState \<Rightarrow> ('ks, 'x, 'au) world \<times> 'q DirectOutcome \<Rightarrow> bool" where
  "good X owner ids i st (w, Handled st') \<longleftrightarrow> ready X owner ids (Suc i) st' w"
| "good X owner ids i st (w, NotHandled _) \<longleftrightarrow> ready X owner ids i st w"
| "good X owner ids i st (w, Ended (Inl e)) \<longleftrightarrow> True"
| "good X owner ids i st (w, Ended (Inr r)) \<longleftrightarrow> closed ids (w_sessions w) \<and> failed_at i r"

named_theorems result_defs

lemmas [result_defs] = result_data_def result_affected_def result_begin_def result_commit_def result_rollback_def

lemma result_index [simp]:
  "sr_statement_index (result_data i t rows) = i" "sr_statement_index (result_affected i t n) = i"
  "sr_statement_index (result_begin i sid) = i" "sr_statement_index (result_commit i) = i"
  "sr_statement_index (result_rollback i) = i" "sr_statement_index (make_statement_result i stmt rows) = i"
  by (simp_all add: result_defs make_statement_result_def split: Stmt.split DeleteTarget.split)

lemma push_result_simps [simp]:
  "bs_results (push_result r st) = bs_results st @ [r]" "bs_batch_tx (push_result r st) = bs_batch_tx st"
  "bs_vars (push_result r st) = bs_vars st" "bs_query_timeout (push_result r st) = bs_query_timeout st"
  by (simp_all add: push_result_def)

lemma ready_same: "ready X owner ids i st w \<Longrightarrow> same_sessions X (w_sessions w) (w_sessions w') \<Longrightarrow> ready X owner ids i st w'"
  using batch_inv_same by (auto simp: ready_def)

lemma ready_push:
  assumes "ready X owner ids i st w" "sr_statement_index r = i" "bs_batch_tx st' = bs_batch_tx st" "bs_results st' = bs_results st"
  shows "ready X owner ids (Suc i) (push_result r st') w"
  using assms by (simp add: ready_def)

lemma finish_failure_good:
  assumes "ready X (ctx_owner ctx) ids i st w" "redacted e" "be_statement_index e = i"
  shows "good X (ctx_owner ctx) ids i st' (finish_failure i e ctx st w)"
  using assms auto_rollback_closed by (auto simp: finish_failure_def error_result_def failed_at_def ready_def)

lemma failures_good:
  assumes "ready X (ctx_owner ctx) ids i st w"
  shows "good X (ctx_owner ctx) ids i st' (direct_fail i m ctx st w)" "good X (ctx_owner ctx) ids i st' (fail_execute i ee ctx st w)"
    "good X (ctx_owner ctx) ids i st' (fail_auth i ae ctx st w)" "good X (ctx_owner ctx) ids i st' (fail_internal i m ctx st w)"
    "good X (ctx_owner ctx) ids i st' (fail_query i qe ctx st w)"
proof -
  note fin = finish_failure_good [OF assms]
  show "good X (ctx_owner ctx) ids i st' (direct_fail i m ctx st w)" by (simp add: direct_fail_def fin)
  show "good X (ctx_owner ctx) ids i st' (fail_execute i ee ctx st w)" by (simp add: fail_execute_def fin)
  show "good X (ctx_owner ctx) ids i st' (fail_auth i ae ctx st w)" by (simp add: fail_auth_def fin)
  show "good X (ctx_owner ctx) ids i st' (fail_internal i m ctx st w)" by (simp add: fail_internal_def fin)
  have "good X (ctx_owner ctx) ids i st' (auto_rollback (bs_batch_tx st) ctx w, Ended (Inr (query_error_result (bs_results st) i qe)))"
    using fin [of "from_query_error i qe"] by (simp add: finish_failure_def query_error_result_def)
  then show "good X (ctx_owner ctx) ids i st' (fail_query i qe ctx st w)"
    by (cases qe) (simp_all add: fail_query_def)
qed

lemma ready_frame [simp]: "ready X owner ids i st (w\<lparr>w_db := s\<rparr>) = ready X owner ids i st w" "ready X owner ids i st (w\<lparr>w_auth := au\<rparr>) = ready X owner ids i st w"
  by (simp_all add: ready_def)

lemma push_rows_good:
  assumes "ready X (ctx_owner ctx) ids i st w"
  shows "good X (ctx_owner ctx) ids i st (push_rows i t ctx st (w, r))"
  using assms failures_good(2) ready_push [OF assms] by (cases r) (auto simp: push_rows_def)

lemma in_context_ready:
  assumes "ready X owner ids i st w" "in_context now ctx active f g w = (w', r)" "tx_safe X g"
  shows "ready X owner ids i st w'"
  using ready_same [OF assms(1) in_context_same [OF assms(2,3)]] .

lemma auth_statement_good:
  assumes "ready X (ctx_owner ctx) ids i st w"
  shows "good X (ctx_owner ctx) ids i st (auth_statement i t f row ctx st w)" "good X (ctx_owner ctx) ids i st (attrs_statement i g fs ctx st w)"
proof -
  have au: "ready X (ctx_owner ctx) ids i st (w\<lparr>w_auth := au\<rparr>)" for au using assms by simp
  show "good X (ctx_owner ctx) ids i st (auth_statement i t f row ctx st w)"
    using failures_good(1) [OF assms] failures_good(3) [OF au] ready_push [OF au]
    by (auto simp: auth_statement_def split: prod.split sum.split)
  show "good X (ctx_owner ctx) ids i st (attrs_statement i g fs ctx st w)"
    using failures_good(1) [OF assms] failures_good(4) [OF au] ready_push [OF au]
    by (auto simp: attrs_statement_def split: prod.split sum.split)
qed

lemma expr_statement_good:
  assumes "ready X (ctx_owner ctx) ids i st w" "executors_safe X (en_on_tx en)"
  shows "good X (ctx_owner ctx) ids i st (expr_statement en i e active ctx st dl w)"
proof -
  obtain w' r where c: "in_context (se_now (en_stmt en i)) ctx active
      (x_block (en_on_db en) e dl (bs_vars st)) (x_block (en_on_tx en) e dl (bs_vars st)) w = (w', r)"
    by (metis surj_pair)
  have ready: "ready X (ctx_owner ctx) ids i st w'"
    by (rule in_context_ready [OF assms(1) c executors_safeD(1) [OF assms(2)]])
  show ?thesis
    by (auto simp: expr_statement_def c failures_good(1,2) [OF ready] intro!: ready_push [OF ready]
      split: sum.split prod.split ControlFlow.split)
qed

lemma try_handle_statement_good:
  assumes "ready X (ctx_owner ctx) ids i st w" "executors_safe X (en_on_tx en)"
  shows "good X (ctx_owner ctx) ids i st (try_handle_statement en i stmt active ctx st dl w)"
proof (cases "is_ddl stmt \<and> active \<noteq> None")
  case True
  then show ?thesis by (simp add: try_handle_statement_def failures_good(2) [OF assms(1)])
next
  case False
  note handle = try_handle_statement_def Let_def
  show ?thesis
  proof (cases stmt)
    case (StDefineAnalyzer a)
    obtain s r where "en_define_analyzer en a (w_db w) = (s, r)" by (metis surj_pair)
    then show ?thesis using False StDefineAnalyzer assms(1) by (auto simp: handle on_db_def intro!: push_rows_good)
  next
    case (StDropAnalyzer a)
    obtain s r where "en_drop_analyzer en a (w_db w) = (s, r)" by (metis surj_pair)
    then show ?thesis using False StDropAnalyzer assms(1) by (auto simp: handle on_db_def intro!: push_rows_good)
  next
    case (StRelate a)
    obtain w' r where c: "in_context (se_now (en_stmt en i)) ctx active
        (x_relate (en_on_db en) (bs_vars st) a) (x_relate (en_on_tx en) (bs_vars st) a) w = (w', r)"
      by (metis surj_pair)
    have "ready X (ctx_owner ctx) ids i st w'" by (rule in_context_ready [OF assms(1) c executors_safeD(5) [OF assms(2)]])
    then show ?thesis using False StRelate by (auto simp: handle c intro!: push_rows_good)
  next
    case (StAlterUser a)
    then show ?thesis using False by (cases a) (auto simp: handle auth_statement_good [OF assms(1)])
  next
    case (StAlterCollectionAttrs a)
    then show ?thesis using False by (cases a) (auto simp: handle auth_statement_good [OF assms(1)])
  qed (use False assms in \<open>auto simp: handle auth_statement_good [OF assms(1)] expr_statement_good [OF assms]\<close>)
qed

lemma execute_planned_good:
  assumes "ready X (ctx_owner ctx) ids i st w" "executors_safe X (en_on_tx en)"
  shows "good X (ctx_owner ctx) ids i st (execute_planned_statement en i stmt active ctx st dl w)"
proof (cases "en_bind en stmt (w_db w)")
  case (Inl e)
  then show ?thesis by (simp add: execute_planned_statement_def failures_good(5) [OF assms(1)])
next
  case (Inr bound)
  let ?f = "execute_bound_statement (en_env en) (en_debug en) (se_micros (en_stmt en i)) (en_on_db en) (bs_vars st) dl False bound"
  let ?g = "execute_bound_statement (en_env en) (en_debug en) (se_micros (en_stmt en i)) (en_on_tx en) (bs_vars st) dl True bound"
  obtain w' r where c: "in_context (se_now (en_stmt en i)) ctx active ?f ?g w = (w', r)" by (metis surj_pair)
  have ready: "ready X (ctx_owner ctx) ids i st w'"
    by (rule in_context_ready [OF assms(1) c execute_bound_safe [OF assms(2)]])
  show ?thesis
    by (auto simp: execute_planned_statement_def Inr c failures_good(5) [OF assms(1)] failures_good(5) [OF ready]
      intro!: ready_push [OF ready] split: sum.split prod.split)
qed

lemma dispatch_good:
  assumes "ready X (ctx_owner ctx) ids i st w" "executors_safe X (en_on_tx en)"
  shows "good X (ctx_owner ctx) ids i st (dispatch_statement en i stmt active ctx st w)"
proof -
  obtain w' out where h: "try_handle_statement en i stmt active ctx st (execution_deadline en ctx st (w_sessions w)) w = (w', out)"
    by (metis surj_pair)
  note g = try_handle_statement_good [OF assms, of stmt active "execution_deadline en ctx st (w_sessions w)", unfolded h]
  show ?thesis
  proof (cases out)
    case (NotHandled stmt')
    then have "ready X (ctx_owner ctx) ids i st w'" using g by simp
    then show ?thesis
      using NotHandled
      by (auto simp: dispatch_statement_def Let_def h failures_good(5) [OF assms(1)] intro!: execute_planned_good assms(2) split: sum.split)
  qed (use g in \<open>auto simp: dispatch_statement_def Let_def h failures_good(5) [OF assms(1)] split: sum.split\<close>)
qed

subsection \<open>Transaction control\<close>

lemma session_commit_keeps:
  assumes "session_commit X T T' i owner mgr s = (s', mgr', Inl e)"
  shows "map_option session_owner (hm_get (sessions mgr') j) = map_option session_owner (hm_get (sessions mgr) j)"
proof (cases "owned_transaction i owner mgr")
  case (Inr p)
  then obtain ses tx where p: "owned_transaction i owner mgr = Inr (ses, tx)" by (cases p) simp
  then obtain tx1 where "mgr' = put_session i (ses\<lparr>session_transaction := Some tx1\<rparr>) mgr"
    using assms by (auto simp: session_commit_def split: prod.splits sum.splits)
  then show ?thesis using p by (auto simp: owned_transaction_Inr)
qed (use assms in \<open>simp add: session_commit_def\<close>)

lemma session_commit_drops:
  assumes "session_commit X T T' i owner mgr s = (s', mgr', Inr u)"
  shows "mgr' = drop_session i mgr \<and> map_option session_owner (hm_get (sessions mgr) i) = Some owner"
proof (cases "owned_transaction i owner mgr")
  case (Inr p)
  then obtain ses tx where p: "owned_transaction i owner mgr = Inr (ses, tx)" by (cases p) simp
  then show ?thesis using assms by (auto simp: session_commit_def owned_transaction_Inr split: prod.splits sum.splits)
qed (use assms in \<open>simp add: session_commit_def\<close>)

lemma begin_good:
  assumes "ready X (ctx_owner ctx) ids i st w" "begin_statement en i ctx st w = Some (w', r)"
  shows "case r of Inr st' \<Rightarrow> ready X (ctx_owner ctx) ids (Suc i) st' w' | Inl _ \<Rightarrow> ready X (ctx_owner ctx) ids i st w'"
proof (cases "\<exists>mgr. w_sessions w = Some mgr \<and> bs_batch_tx st = None \<and> ec_session_id ctx = None")
  case True
  then obtain mgr where mgr: "w_sessions w = Some mgr" "bs_batch_tx st = None" "ec_session_id ctx = None" by blast
  obtain mgr' sid where b: "begin_transaction (se_nanoid (en_stmt en i)) (se_now (en_stmt en i)) (ctx_owner ctx) mgr = Some (mgr', sid)"
    and w': "w' = w\<lparr>w_sessions := Some mgr'\<rparr>" "r = Inr (push_result (result_begin i sid) (st\<lparr>bs_batch_tx := Some sid\<rparr>))"
    using assms(2) mgr by (auto simp: begin_statement_def split: option.splits)
  have ok: "mgr_ok X mgr'" 
    by (rule owner_change_ok [OF begin_change [OF b]]) (use assms(1) mgr in \<open>simp add: ready_def batch_inv_def\<close>)
  obtain tid where "mgr' = put_session sid ((session_new sid (ctx_owner ctx) (se_now (en_stmt en i)))\<lparr>session_transaction := Some tid\<rparr>) mgr"
    using begin_loop_Some b unfolding begin_transaction_def by blast
  then show ?thesis using assms(1) mgr ok by (auto simp: w' ready_def batch_inv_def session_new_def split: if_splits)
next
  case False
  then have "w' = w \<and> isl r" using assms(2) by (auto simp: begin_statement_def split: option.splits if_splits)
  then show ?thesis using assms(1) by (cases r) simp_all
qed

lemma commit_good:
  assumes "ready X (ctx_owner ctx) ids i st w" "commit_statement en i ctx st w = (w', r)" "en_txn en = X"
  shows "case r of Inr st' \<Rightarrow> ready X (ctx_owner ctx) ids (Suc i) st' w' | Inl _ \<Rightarrow> ready X (ctx_owner ctx) ids i st w'"
proof (cases "w_sessions w")
  case (Some mgr)
  show ?thesis
  proof (cases "or_else (bs_batch_tx st) (ec_session_id ctx)")
    case (Some sid)
    note mgr = \<open>w_sessions w = Some mgr\<close>
    obtain s' mgr' q where com: "session_commit X (se_begin_tx (en_stmt en i)) (se_commit_tx (en_stmt en i)) sid (ctx_owner ctx) mgr (w_db w) = (s', mgr', q)"
      by (metis surj_pair)
    have w': "w_sessions w' = Some mgr'" "r = map_sum map_session_error (\<lambda>_. push_result (result_commit i) (st\<lparr>bs_batch_tx := None\<rparr>)) q"
      using assms(2,3) mgr Some com by (auto simp: commit_statement_def split: sum.splits)
    have ok: "mgr_ok X mgr'" 
      by (rule owner_change_ok [OF commit_change [OF com]]) (use assms(1) mgr in \<open>simp add: ready_def batch_inv_def\<close>)
    show ?thesis
    proof (cases q)
      case (Inl e)
      have "same_sessions X (Some mgr) (Some mgr')"
        using session_commit_keeps [OF com [unfolded Inl]] ok by (simp add: same_sessions_def)
      then have "ready X (ctx_owner ctx) ids i st w'" using ready_same [OF assms(1), of w'] w'(1) mgr by simp
      then show ?thesis using w'(2) Inl by simp
    next
      case (Inr u)
      then have "mgr' = drop_session sid mgr" using com session_commit_drops by blast
      then show ?thesis using assms(1) mgr w' Inr ok Some
        by (auto simp: ready_def batch_inv_def or_else_def session_okD(2) split: option.splits if_splits)
    qed
  qed (use assms Some in \<open>auto simp: commit_statement_def\<close>)
qed (use assms in \<open>auto simp: commit_statement_def\<close>)

lemma rollback_good:
  assumes "ready X (ctx_owner ctx) ids i st w" "rollback_statement i ctx st w = (w', r)"
  shows "case r of Inr st' \<Rightarrow> ready X (ctx_owner ctx) ids (Suc i) st' w' | Inl _ \<Rightarrow> ready X (ctx_owner ctx) ids i st w'"
proof (cases "\<exists>mgr sid. w_sessions w = Some mgr \<and> or_else (bs_batch_tx st) (ec_session_id ctx) = Some sid")
  case True
  then obtain mgr sid where mgr: "w_sessions w = Some mgr" "or_else (bs_batch_tx st) (ec_session_id ctx) = Some sid" by blast
  have ok: "mgr_ok X mgr" using assms(1) mgr by (simp add: ready_def batch_inv_def)
  show ?thesis
  proof (cases "map_option session_owner (hm_get (sessions mgr) sid) = Some (ctx_owner ctx)")
    case True
    have "session_rollback sid (ctx_owner ctx) mgr = (drop_session sid mgr, Inr ())" by (rule session_rollback_drops [OF ok True])
    then have w': "w_sessions w' = Some (drop_session sid mgr)" "r = Inr (push_result (result_rollback i) (st\<lparr>bs_batch_tx := None\<rparr>))"
      using assms(2) mgr by (auto simp: rollback_statement_def)
    have "mgr_ok X (drop_session sid mgr)" using True ok by (auto intro!: owner_change_ok [OF change_drop])
    then show ?thesis using assms(1) mgr w' ok
      by (auto simp: ready_def batch_inv_def or_else_def session_okD(2) split: option.splits if_splits)
  next
    case False
    then have "isl (owned_transaction sid (ctx_owner ctx) mgr)"
      using owned_transaction_Inr by (cases "owned_transaction sid (ctx_owner ctx) mgr") force+
    then have "session_rollback sid (ctx_owner ctx) mgr = (mgr, snd (session_rollback sid (ctx_owner ctx) mgr)) \<and>
        isl (snd (session_rollback sid (ctx_owner ctx) mgr))"
      by (cases "owned_transaction sid (ctx_owner ctx) mgr") (simp_all add: session_rollback_def)
    then have "w_sessions w' = w_sessions w \<and> isl r"
      using assms(2) mgr by (auto simp: rollback_statement_def split: sum.splits prod.splits)
    then show ?thesis using assms(1) by (cases r) (simp_all add: ready_def)
  qed
next
  case False
  then have "w' = w \<and> isl r" using assms(2) by (auto simp: rollback_statement_def split: option.splits)
  then show ?thesis using assms(1) by (cases r) simp_all
qed

lemma set_query_timeout_same:
  assumes "set_query_timeout sid owner t mgr = (mgr', r)"
  shows "same_sessions X (Some mgr) (Some mgr')"
proof (cases "accessible_session sid owner mgr")
  case (Inr ses)
  then have "hm_get (sessions mgr) sid = Some ses"
    by (auto simp: accessible_session_def and_then_Inr_iff split: option.splits if_splits)
  then show ?thesis using assms Inr session_okD(1) [of X mgr sid ses]
    by (auto simp: set_query_timeout_def session_ok_def intro!: same_sessions_put)
qed (use assms in \<open>simp add: set_query_timeout_def\<close>)

lemma set_good:
  assumes "ready X (ctx_owner ctx) ids i st w" "set_statement i a ctx st w = (w', r)"
  shows "case r of Inr st' \<Rightarrow> ready X (ctx_owner ctx) ids (Suc i) st' w' | Inl _ \<Rightarrow> ready X (ctx_owner ctx) ids i st w'"
proof -
  have "same_sessions X (w_sessions w) (w_sessions w')"
    using assms(2) set_query_timeout_same
    by (fastforce simp: set_statement_def Let_def split: option.splits sum.splits prod.splits)
  then have ready: "ready X (ctx_owner ctx) ids i st w'" by (rule ready_same [OF assms(1)])
  show ?thesis
  proof (cases r)
    case (Inr st')
    then obtain q t where "st' = push_result q (st\<lparr>bs_query_timeout := t\<rparr>)" "sr_statement_index q = i"
      using assms(2) by (auto simp: set_statement_def Let_def split: option.splits sum.splits prod.splits)
    then show ?thesis using ready_push [OF ready] Inr by simp
  qed (simp add: ready)
qed

lemma control_good:
  assumes "ready X (ctx_owner ctx) ids i st w" "try_handle_tx_or_set en i stmt ctx st w = Some (w', r)" "en_txn en = X"
  shows "case r of Inr out \<Rightarrow> good X (ctx_owner ctx) ids i st (w', out) | Inl _ \<Rightarrow> ready X (ctx_owner ctx) ids i st w'"
proof -
  have sum: "case map_sum id Handled q of Inr out \<Rightarrow> good X (ctx_owner ctx) ids i st (w', out) | Inl _ \<Rightarrow> ready X (ctx_owner ctx) ids i st w'"
    if "case q of Inr st' \<Rightarrow> ready X (ctx_owner ctx) ids (Suc i) st' w' | Inl _ \<Rightarrow> ready X (ctx_owner ctx) ids i st w'" for q
    using that by (cases q) simp_all
  show ?thesis
  proof (cases stmt)
    case StBegin
    then show ?thesis using assms(2) by (auto simp: try_handle_tx_or_set_def intro!: sum begin_good [OF assms(1)])
  next
    case StCommit
    obtain v q where "commit_statement en i ctx st w = (v, q)" by (metis surj_pair)
    then show ?thesis using assms(2) StCommit by (auto simp: try_handle_tx_or_set_def intro!: sum commit_good [OF assms(1) _ assms(3)])
  next
    case StRollback
    obtain v q where "rollback_statement i ctx st w = (v, q)" by (metis surj_pair)
    then show ?thesis using assms(2) StRollback by (auto simp: try_handle_tx_or_set_def intro!: sum rollback_good [OF assms(1)])
  next
    case (StSet a)
    obtain v q where "set_statement i a ctx st w = (v, q)" by (metis surj_pair)
    then show ?thesis using assms(2) StSet by (auto simp: try_handle_tx_or_set_def intro!: sum set_good [OF assms(1)])
  qed (use assms(1,2) in \<open>auto simp: try_handle_tx_or_set_def\<close>)
qed

lemma run_statement_good:
  assumes "ready X (ctx_owner ctx) ids i st w" "executors_safe X (en_on_tx en)" "en_txn en = X"
    and "run_statement en i stmt ctx st w = Some p"
  shows "good X (ctx_owner ctx) ids i st p"
proof (cases "authorized ctx (w_auth w) stmt")
  case (Inl m)
  then show ?thesis using assms(4) by (auto simp: run_statement_def intro!: finish_failure_good [OF assms(1)])
next
  case (Inr u)
  then obtain w' r where h: "try_handle_tx_or_set en i stmt ctx st w = Some (w', r)"
    using assms(4) by (auto simp: run_statement_def Let_def split: option.splits)
  note g = control_good [OF assms(1) h assms(3)]
  show ?thesis
  proof (cases r)
    case (Inl e)
    then show ?thesis using assms(4) Inr h g by (auto simp: run_statement_def Let_def intro!: failures_good(5))
  next
    case out: (Inr out)
    show ?thesis
      using assms(4) Inr h g out
      by (cases out) (auto simp: run_statement_def Let_def intro!: dispatch_good assms(2))
  qed
qed

section \<open>Results of a batch\<close>

text \<open>What is said of the result of a batch of \<open>n\<close> statements.\<close>

definition batch_done :: "string set \<Rightarrow> nat \<Rightarrow> ('ks, 'x, 'au) world \<Rightarrow> BatchResult \<Rightarrow> bool" where
  "batch_done ids n w r \<longleftrightarrow>
     map sr_statement_index (br_results r) = [0..<br_completed r] \<and>
     (case br_error r of
        None \<Rightarrow> br_completed r = n
      | Some e \<Rightarrow> br_completed r < n \<and> be_statement_index e = br_completed r \<and> redacted e \<and> closed ids (w_sessions w))"

lemma batch_loop_done:
  assumes "ready X (ctx_owner ctx) ids i st w" "executors_safe X (en_on_tx en)" "en_txn en = X"
    and "batch_loop en i stmts ctx st w = Some (w', Inr r)"
  shows "batch_done ids (i + length stmts) w' r"
  using assms(1,4)
proof (induction stmts arbitrary: i st w)
  case Nil
  then have "length (bs_results st) = i" by (metis diff_zero length_map length_upt ready_def)
  then show ?case using Nil by (auto simp: ready_def batch_done_def)
next
  case (Cons stmt stmts)
  obtain v out where run: "run_statement en i stmt ctx st w = Some (v, out)"
    using Cons.prems(2) by (auto split: option.splits)
  note g = run_statement_good [OF Cons.prems(1) assms(2,3) run]
  show ?case
  proof (cases out)
    case (Handled st')
    then have "batch_done ids (i + 1 + length stmts) w' r"
      using Cons.IH [of "i + 1" st' v] Cons.prems(2) run g by simp
    then show ?thesis by simp
  next
    case (Ended q)
    then show ?thesis using Cons.prems(2) run g by (auto simp: batch_done_def failed_at_def)
  qed (use Cons.prems(2) run in simp)
qed

definition session_ids :: "('ks, 'x, 'au) world \<Rightarrow> string set" where
  "session_ids w = (case w_sessions w of None \<Rightarrow> {} | Some mgr \<Rightarrow> {i. hm_get (sessions mgr) i \<noteq> None})"

lemma ready_start:
  assumes "\<And>mgr. w_sessions w = Some mgr \<Longrightarrow> mgr_ok X mgr"
  shows "ready X owner (session_ids w) 0 (batch_state_new params) w"
  using assms by (auto simp: ready_def batch_inv_def batch_state_new_def session_ids_def split: option.splits)

section \<open>A batch returns\<close>

lemma planned_handles: "execute_planned_statement en i stmt active ctx st dl w \<noteq> (w', NotHandled s)"
  by (simp add: execute_planned_statement_def fail_query_def split: sum.split prod.split QueryError.split)

lemma run_statement_handles: "run_statement en i stmt ctx st w \<noteq> Some (w', NotHandled s)"
  by (auto simp: run_statement_def dispatch_statement_def finish_failure_def fail_query_def Let_def planned_handles
      split: sum.splits option.splits prod.splits DirectOutcome.splits)

lemma run_statement_returns:
  assumes "ready X (ctx_owner ctx) ids i st w" "inj (se_nanoid (en_stmt en i))"
  shows "run_statement en i stmt ctx st w \<noteq> None"
proof -
  have "begin_transaction (se_nanoid (en_stmt en i)) (se_now (en_stmt en i)) (ctx_owner ctx) mgr \<noteq> None"
    if "w_sessions w = Some mgr" for mgr
    using begin_transaction_terminates [of mgr "se_nanoid (en_stmt en i)"] session_okD(2) [of X mgr] assms that inj_on_subset [OF assms(2)]
    by (force simp: ready_def batch_inv_def)
  then have "begin_statement en i ctx st w \<noteq> None"
    by (auto simp: begin_statement_def split: option.splits)
  then have "try_handle_tx_or_set en i stmt ctx st w \<noteq> None"
    by (cases stmt) (auto simp: try_handle_tx_or_set_def)
  then show ?thesis
    by (auto simp: run_statement_def Let_def split: sum.splits option.splits DirectOutcome.splits prod.splits)
qed

lemma batch_loop_returns:
  assumes "ready X (ctx_owner ctx) ids i st w" "executors_safe X (en_on_tx en)" "en_txn en = X" "\<And>j. inj (se_nanoid (en_stmt en j))"
  shows "batch_loop en i stmts ctx st w \<noteq> None"
  using assms(1)
proof (induction stmts arbitrary: i st w)
  case (Cons stmt stmts)
  obtain v out where run: "run_statement en i stmt ctx st w = Some (v, out)"
    using run_statement_returns [OF Cons.prems assms(4)] by fastforce
  then show ?case
    using Cons.IH run_statement_good [OF Cons.prems assms(2,3) run] run_statement_handles [of en i stmt ctx st w v]
    by (cases out) auto
qed simp

section \<open>Forbidden statements\<close>

lemma map_sum_Inr_Handled: "map_sum id Handled r = Inr (Ended q) \<Longrightarrow> P"
  by (cases r) simp_all

lemma failures_end:
  "finish_failure i e ctx st w = (w', out) \<Longrightarrow> \<exists>r. out = Ended (Inr r) \<and> br_error r \<noteq> None"
  "fail_query i qe ctx st w = (w', Ended (Inr r)) \<Longrightarrow> br_error r \<noteq> None"
  by (auto simp: finish_failure_def error_result_def fail_query_def query_error_result_def split: QueryError.splits if_splits)

lemma direct_ends: "try_handle_statement en i stmt active ctx st dl w = (w', Ended (Inr r)) \<Longrightarrow> br_error r \<noteq> None"
  by (cases stmt) (auto simp: try_handle_statement_def Let_def auth_statement_def attrs_statement_def push_rows_def expr_statement_def
      direct_fail_def fail_execute_def fail_auth_def fail_internal_def on_db_def
      dest!: failures_end(1) split: if_splits prod.splits sum.splits ControlFlow.splits AlterUserAst.splits AlterCollectionAttrsAst.splits)

lemma planned_ends: "execute_planned_statement en i stmt active ctx st dl w = (w', Ended (Inr r)) \<Longrightarrow> br_error r \<noteq> None"
  by (auto simp: execute_planned_statement_def dest: failures_end(2) split: if_splits sum.splits prod.splits)

lemma run_statement_ends:
  assumes "run_statement en i stmt ctx st w = Some (w', Ended (Inr r))"
  shows "br_error r \<noteq> None"
proof (cases "authorized ctx (w_auth w) stmt")
  case (Inl m)
  then show ?thesis using assms failures_end(1) by (fastforce simp: run_statement_def)
next
  case (Inr u)
  have "\<And>v. try_handle_tx_or_set en i stmt ctx st w \<noteq> Some (v, Inr (Ended q))" for q
    by (cases stmt) (auto simp: try_handle_tx_or_set_def map_prod_def elim!: map_sum_Inr_Handled split: prod.splits)
  moreover have "dispatch_statement en i s active ctx st v = (w', Ended (Inr r)) \<Longrightarrow> br_error r \<noteq> None" for s active v
    by (auto simp: dispatch_statement_def Let_def dest: failures_end(2) direct_ends planned_ends
        split: sum.splits prod.splits DirectOutcome.splits)
  ultimately show ?thesis
    using assms Inr by (auto simp: run_statement_def Let_def dest: failures_end(2)
        split: option.splits sum.splits DirectOutcome.splits prod.splits)
qed

lemma batch_loop_forbidden:
  assumes "\<And>au. authorized ctx au stmt = Inl message" "batch_loop en i xs ctx st w = Some (w1, q1)"
  shows "\<exists>w'. batch_loop en i (xs @ stmt # ys) ctx st w =
    Some (w', case q1 of
        Inr r \<Rightarrow> if br_error r = None
                then Inr (error_result (br_results r) (i + length xs) (batch_error_public (i + length xs) ''SDB-AC002'' ClsForbidden message))
                else q1
      | Inl _ \<Rightarrow> q1) \<and> w_db w' = w_db w1 \<and> w_auth w' = w_auth w1"
  using assms(2)
proof (induction xs arbitrary: i st w)
  case Nil
  then show ?case
    by (auto simp: run_statement_def assms(1) finish_failure_def auto_rollback_def split: option.split)
next
  case (Cons x xs)
  obtain v out where run: "run_statement en i x ctx st w = Some (v, out)"
    using Cons.prems by (auto split: option.splits)
  show ?case
  proof (cases out)
    case (Ended q)
    have "q = Inr r \<Longrightarrow> br_error r \<noteq> None" for r
      using run_statement_ends run Ended by blast
    then show ?thesis using Cons.prems run Ended by (auto split: sum.split)
  next
    case (Handled st')
    have n: "i + length (x # xs) = Suc i + length xs" by simp
    show ?thesis unfolding n using Cons.IH [of "Suc i" st' v] Cons.prems run Handled by simp
  qed (use Cons.prems run in simp)
qed

section \<open>Properties\<close>

text \<open>C35: The results of a batch are those of its statements in order. A batch without an error has one
  result for each statement. A batch with an error stopped at the statement the error names, its
  message gives no internal detail away, and every session that exists afterwards existed before: the
  transaction that the batch had begun is rolled back.\<close>

theorem batch_results_and_cleanup:
  assumes "w_sessions w = Some mgr" "(\<lambda>m m'. \<exists>a. mgr_step (en_txn en) a m m')\<^sup>*\<^sup>* (manager_new config) mgr"
    and "executors_safe (en_txn en) (en_on_tx en)"
    and "execute_batch en stmts ctx w = Some (w', Inr r)"
  shows "map sr_statement_index (br_results r) = [0..<br_completed r] \<and>
    (case br_error r of
       None \<Rightarrow> br_completed r = length stmts
     | Some e \<Rightarrow>
         br_completed r < length stmts \<and> be_statement_index e = br_completed r \<and>
         (be_class e = ClsInternal \<longrightarrow> be_message e = ''Internal error'') \<and>
         (\<forall>mgr' i. w_sessions w' = Some mgr' \<longrightarrow> hm_get (sessions mgr') i \<noteq> None \<longrightarrow> hm_get (sessions mgr) i \<noteq> None))"
proof -
  have "ready (en_txn en) (ctx_owner ctx) (session_ids w) 0 (batch_state_new (ec_params ctx)) w"
    by (rule ready_start) (use assms(1) reachable_ok [OF assms(2)] in simp)
  moreover have "batch_loop en 0 stmts ctx (batch_state_new (ec_params ctx)) w = Some (w', Inr r)"
    using assms(4) by (auto simp: execute_batch_def split: sum.splits)
  ultimately have "batch_done (session_ids w) (0 + length stmts) w' r"
    by (rule batch_loop_done [OF _ assms(3) refl])
  then show ?thesis using assms(1)
    by (auto simp: batch_done_def redacted_def closed_def session_ids_def split: option.splits)
qed



section \<open>Witnesses\<close>

text \<open>Alice begins a transaction, writes a document in it and, by mistake, begins another. The executor on
  the transaction is the insertion of \<open>Transactions\<close>; the rest of the engine does nothing.\<close>

definition idle_executors :: "(unit, 'c) executors" where
  "idle_executors =
     \<lparr>x_has_subquery = (\<lambda>_. False), x_resolve_projection = (\<lambda>_ p _. Inr p), x_resolve_expr = (\<lambda>_ e _. Inr e),
      x_materialize = (\<lambda>_ _ _. Inr []), x_eval = (\<lambda>_ _ _. Inr VNull), x_block = (\<lambda>_ _ vars c. (c, Inr (vars, CfValue VNull))),
      x_execute_ddl = (\<lambda>_ c. (c, Inr [])), x_explain = (\<lambda>_ _ c. (c, Inr [])),
      x_execute_statement = (\<lambda>_ _ _ c. (c, Inr [])), x_relate = (\<lambda>_ _ c. (c, Inr []))\<rparr>"

definition insert_executors :: "(unit, (mem_ks, unit) database \<times> Transaction) executors" where
  "insert_executors = idle_executors\<lparr>x_execute_statement := (\<lambda>_ _ _ (s, tx).
     case txn_insert mem_txn_env linked_doc tx of
       (tx', Inr _) \<Rightarrow> ((s, tx'), Inr [from_doc linked_doc])
     | (tx', Inl e) \<Rightarrow> ((s, tx'), Inl (EInternal ''insert'')))\<rparr>"

definition idle_auth :: "unit auth_service" where
  "idle_auth =
     \<lparr>au_create_user = (\<lambda>_ _ au. (au, Inr ())), au_drop_user = (\<lambda>_ au. (au, Inr ())),
      au_alter_user_password = (\<lambda>_ _ au. (au, Inr ())), au_alter_user_set = (\<lambda>_ _ au. (au, Inr ())),
      au_alter_user_remove = (\<lambda>_ _ au. (au, Inr ())), au_create_api_key = (\<lambda>_ _ au. (au, Inr ''k'')),
      au_drop_api_key = (\<lambda>_ au. (au, Inr ())), au_create_policy = (\<lambda>_ au. (au, Inr ())), au_drop_policy = (\<lambda>_ au. (au, Inr ())),
      au_set_collection_attributes = (\<lambda>_ _ _ au. (au, Inr ())), au_remove_collection_attributes = (\<lambda>_ _ _ au. (au, Inr ()))\<rparr>"

definition demo_engine :: "(unit, mem_ks, int, unit, int, unit) batch_engine" where
  "demo_engine =
     \<lparr>en_txn = mem_txn_env, en_env = int_env, en_debug = (\<lambda>_. []), en_on_db = idle_executors, en_on_tx = insert_executors,
      en_bind = (\<lambda>stmt _. Inr stmt), en_define_analyzer = (\<lambda>_ s. (s, Inr [])), en_drop_analyzer = (\<lambda>_ s. (s, Inr [])),
      en_auth = idle_auth, en_checked_add = (\<lambda>a b. Some (a + b)),
      en_stmt = (\<lambda>_. \<lparr>se_nanoid = draws, se_now = 0, se_check_now = 0, se_begin_tx = commits, se_commit_tx = commits, se_micros = 0\<rparr>)\<rparr>"

definition only_select :: Policy where
  "only_select = \<lparr>policy_name = ''read'', policy_conditions = [\<lparr>cond_field = ''action'', cond_op = CEq, cond_value = CSingle ''SELECT''\<rparr>],
     policy_effect = EffAllow\<rparr>"

definition alice_ctx :: "PolicyEngine option \<Rightarrow> unit ExecuteContext" where
  "alice_ctx ps =
     \<lparr>ec_session_id = None, ec_query_timeout = None, ec_params = [], ec_query_timeout_explicit = False, ec_execution_started_at = 0,
      ec_server_db_deadline = None, ec_request_deadline = None, ec_database = Some ''db1'',
      ec_authorization = map_option (\<lambda>ps _. service_provider ps (\<lambda>_ _. [])) ps, ec_auth = False,
      ec_subject = Some \<lparr>user_id = ''alice'', subject_attributes = []\<rparr>, ec_principal_identity = None\<rparr>"

definition demo_world :: "(mem_ks, unit, unit) world" where
  "demo_world = \<lparr>w_db = linked_db, w_sessions = Some (manager_new config_default), w_auth = ()\<rparr>"

abbreviation demo_insert :: "unit Stmt" where
  "demo_insert \<equiv> StInsert \<lparr>in_collection = ''u'', in_objects = []\<rparr>"

lemma demo_safe: "executors_safe (en_txn demo_engine) (en_on_tx demo_engine)"
proof -
  have ins: "is_active tx' \<and> txn_wf mem_txn_env tx'"
    if "txn_insert mem_txn_env linked_doc tx = (tx', r)" "is_active tx" "txn_wf mem_txn_env tx" for tx tx' r
    using insert_data_op that unfolding data_op_def by blast
  show ?thesis
    by (auto simp: executors_safe_def demo_engine_def insert_executors_def idle_executors_def tx_safe_def
        dest: ins split: prod.splits sum.splits)
qed

lemma alice_ctx_simps [simp]:
  "ec_session_id (alice_ctx ps) = None" "ec_query_timeout (alice_ctx ps) = None" "ec_params (alice_ctx ps) = []"
  "ec_query_timeout_explicit (alice_ctx ps) = False" "ec_server_db_deadline (alice_ctx ps) = None" "ec_request_deadline (alice_ctx ps) = None"
  "ec_database (alice_ctx ps) = Some ''db1''" "ec_authorization (alice_ctx ps) = map_option (\<lambda>ps _. service_provider ps (\<lambda>_ _. [])) ps"
  "ec_subject (alice_ctx ps) = Some \<lparr>user_id = ''alice'', subject_attributes = []\<rparr>" "ctx_owner (alice_ctx ps) = alice"
  by (simp_all add: alice_ctx_def ctx_owner_def alice_def)

lemma demo_engine_simps [simp]:
  "en_txn demo_engine = mem_txn_env" "en_on_tx demo_engine = insert_executors" "en_bind demo_engine stmt s = Inr stmt"
  "se_nanoid (en_stmt demo_engine i) = draws" "se_now (en_stmt demo_engine i) = 0" "se_check_now (en_stmt demo_engine i) = 0"
  by (simp_all add: demo_engine_def)

definition begun :: BatchState where
  "begun = push_result (result_begin 0 ''s'') ((batch_state_new [])\<lparr>bs_batch_tx := Some ''s''\<rparr>)"

lemma begun_simps [simp]: "bs_batch_tx begun = Some ''s''" "bs_vars begun = [[]]" "begun\<lparr>bs_vars := [[]]\<rparr> = begun"
  by (simp_all add: begun_def batch_state_new_def push_result_def)

lemma alices_session:
  "hm_get (sessions alices) ''s'' = Some \<lparr>session_id = ''s'', session_owner = alice, session_transaction = Some (txn_new ''tx_1'' 0),
     last_activity = 0, query_timeout = None\<rparr>"
  by (simp add: alices_def)

definition alices_written :: SessionManager where
  "alices_written = put_session ''s'' \<lparr>session_id = ''s'', session_owner = alice, session_transaction = Some rewriting,
     last_activity = 0, query_timeout = None\<rparr> alices"

lemma demo_begin:
  "run_statement demo_engine 0 StBegin (alice_ctx None) (batch_state_new []) demo_world =
     Some (demo_world\<lparr>w_sessions := Some alices\<rparr>, Handled begun)"
  by (simp add: run_statement_def authorized_def authorize_statement_def statement_to_action_def try_handle_tx_or_set_def
      begin_statement_def demo_world_def batch_state_new_def alices_begin begun_def)

lemma demo_write:
  "\<exists>w2 rows. run_statement demo_engine 1 demo_insert (alice_ctx None) begun (demo_world\<lparr>w_sessions := Some alices\<rparr>) =
     Some (w2, Handled (push_result (result_data 1 ''INSERT'' rows) begun)) \<and> w_sessions w2 \<noteq> None"
proof -
  have active: "is_active (txn_new ''tx_1'' 0)" by (simp add: is_active_def txn_new_def)
  have "session_timeout (alice_ctx None) begun (Some alices) = None"
    by (simp add: session_timeout_def or_else_def begun_def get_query_timeout_def accessible_session_def alices_def validate_owner_def
        has_transaction_def is_active_def txn_new_def)
  then have dl: "execution_deadline demo_engine (alice_ctx None) begun (Some alices) = None"
    by (simp add: execution_deadline_def effective_timeout_def begun_def batch_state_new_def or_else_def List.map_filter_def)
  have "x_execute_statement insert_executors vars stmt d (s, txn_new ''tx_1'' 0) = ((s, rewriting), Inr [from_doc linked_doc])" for vars stmt d s
    using rewriting_insert by (simp add: insert_executors_def)
  then have "execute_bound_statement E dbg m insert_executors vars None True demo_insert (s, txn_new ''tx_1'' 0) =
      ((s, rewriting), Inr (demo_insert, vars, [from_doc linked_doc]))" for E :: "int env" and dbg m vars s
    by (simp add: execute_bound_statement_def resolve_statement_def plan_from_statement_def execute_plan_def with_vars_def)
  then have "in_context 0 (alice_ctx None) (Some ''s'') f (execute_bound_statement E dbg m insert_executors vars None True demo_insert)
      (demo_world\<lparr>w_sessions := Some alices\<rparr>) = (demo_world\<lparr>w_sessions := Some alices_written\<rparr>, Inr (demo_insert, vars, [from_doc linked_doc]))"
    for f dbg m vars and E :: "int env"
    by (simp add: in_context_def demo_world_def with_transaction_operation_def in_transaction_of_def alices_session validate_owner_def
        session_touch_def active alices_written_def)
  then show ?thesis
    by (simp add: run_statement_def authorized_def authorize_statement_def statement_to_action_def authorize_def
        try_handle_tx_or_set_def dispatch_statement_def dl check_deadline_def try_handle_statement_def Let_def is_ddl_def
        execute_planned_statement_def or_else_def make_statement_result_def statement_type_def exI [of _ "[from_doc linked_doc]"])
qed

lemma demo_run: "\<exists>w' r. execute_batch demo_engine [StBegin, demo_insert, StBegin] (alice_ctx None) demo_world = Some (w', Inr r) \<and>
    br_completed r = 2 \<and> br_error r \<noteq> None"
proof -
  obtain w2 rows where w2: "run_statement demo_engine 1 demo_insert (alice_ctx None) begun (demo_world\<lparr>w_sessions := Some alices\<rparr>) =
     Some (w2, Handled (push_result (result_data 1 ''INSERT'' rows) begun))" "w_sessions w2 \<noteq> None"
    using demo_write by blast
  then obtain mgr where mgr: "w_sessions w2 = Some mgr" by blast
  have "\<exists>w' r. run_statement demo_engine 2 StBegin (alice_ctx None) (push_result (result_data 1 ''INSERT'' rows) begun) w2 = Some (w', Ended (Inr r)) \<and>
      br_completed r = 2 \<and> br_error r \<noteq> None"
    by (simp add: run_statement_def authorized_def authorize_statement_def statement_to_action_def try_handle_tx_or_set_def
        begin_statement_def mgr begun_def fail_query_def is_panic_def query_error_result_def error_result_def)
  then show ?thesis
    using w2(1) demo_begin by (auto simp: execute_batch_def demo_world_def numeral_2_eq_2)
qed

lemma demo_reachable: "w_sessions demo_world = Some (manager_new config_default)"
  "(\<lambda>m m'. \<exists>a. mgr_step (en_txn demo_engine) a m m')\<^sup>*\<^sup>* (manager_new config_default) (manager_new config_default)"
  by (simp_all add: demo_world_def)

theorem batch_results_and_cleanup_witness:
  "\<exists>w' r. execute_batch demo_engine [StBegin, demo_insert, StBegin] (alice_ctx None) demo_world = Some (w', Inr r) \<and>
     map sr_statement_index (br_results r) = [0, 1] \<and> (\<forall>mgr'. w_sessions w' = Some mgr' \<longrightarrow> hm_get (sessions mgr') ''s'' = None)"
proof -
  obtain w' r e where run: "execute_batch demo_engine [StBegin, demo_insert, StBegin] (alice_ctx None) demo_world = Some (w', Inr r)"
      "br_completed r = 2" "br_error r = Some e"
    using demo_run by blast
  have "[0..<2] = [0::nat, 1]" by (simp add: upt_rec)
  then show ?thesis
    using batch_results_and_cleanup [OF demo_reachable demo_safe run(1)] run by (auto simp: manager_new_def)
qed



end
