(* ===== verification/Spec2Isabelle.thy ===== *)
theory Spec2Isabelle
  imports Pipelines Lock_Stripes Database_Plans Batch_Execution
begin

text \<open>
  A verification library for StellarDB, an embeddable database for documents, graphs, vectors and
  full text (\<open>src/src\<close>, in Rust). File names below are relative to that directory.

  \<^bold>\<open>The program.\<close> A query is a batch of statements (\<open>query/builder.rs\<close>), each checked against the policies
  (\<open>auth\<close>). It is parsed (\<open>query/parse\<close>), bound and planned (\<open>query/bind\<close>, \<open>query/plan\<close>,
  \<open>query/optimize\<close>) and executed by pull-based operators (\<open>query/execute\<close>) that evaluate expressions on
  rows. The operators read and write through an execution context, which is the database itself
  (\<open>storage/database.rs\<close>) or an explicit transaction of a session (\<open>transaction\<close>, \<open>session\<close>). The
  database keeps documents, existence markers, B-tree indexes, unique locks, graph edges and jobs for
  the external indexes in keyspaces of the engine \<open>fjall\<close>, under keys that \<open>storage/encoding.rs\<close> builds.
  Schemas (\<open>schema\<close>) say which documents a collection accepts.

  \<^bold>\<open>Theories and sources.\<close>

  \<^item> \<open>Stellar_Prelude\<close>: words, byte strings and UTF-8, \<open>Ordering\<close>, results with \<open>?\<close>, hash maps as sorted
    association lists, the lexicographic order on bytes.
  \<^item> \<open>Float64\<close>: the 64 bits of \<open>f64\<close> with comparison, rounding and arithmetic.
  \<^item> \<open>Values\<close>: \<open>document.rs\<close>. \<open>Key_Encoding\<close>: \<open>storage/encoding.rs\<close>.
  \<^item> \<open>Keyspace\<close> and \<open>Engine\<close>: the interface of \<open>fjall\<close> as locales (\<open>keyspace\<close>, \<open>engine\<close>), operations that
    may fail, write transactions, and an in-memory engine that satisfies the laws.
  \<^item> \<open>Btree_Index\<close>: \<open>storage/indexes/btree.rs\<close>. \<open>Unique_Constraints\<close>: \<open>storage/constraints/unique.rs\<close>.
  \<^item> \<open>Schema_Types\<close>, \<open>Schema_Validate\<close>: \<open>schema/types.rs\<close>, \<open>schema/validate.rs\<close>. \<open>Suggestions\<close>:
    \<open>util/suggestions.rs\<close>.
  \<^item> \<open>Ast\<close>: \<open>query/ast\<close>. \<open>Eval\<close>: \<open>query/execute/eval\<close> and \<open>query/execute/var_scope.rs\<close>.
  \<^item> \<open>Comparators\<close>, \<open>Accumulator\<close>, \<open>Operators\<close>, \<open>Pipelines\<close>: \<open>query/execute/operators\<close>.
  \<^item> \<open>Lock_Stripes\<close>: \<open>storage/lock_stripes.rs\<close>.
  \<^item> \<open>Edge_Store\<close>, \<open>Edge_Graph\<close>, \<open>Edge_Operations\<close>: \<open>edge.rs\<close>, \<open>storage/edges/store.rs\<close>.
  \<^item> \<open>Catalog\<close>: \<open>storage/keyspaces.rs\<close>, \<open>storage/indexes/registry.rs\<close>, \<open>schema/registry.rs\<close>,
    \<open>schema/storage.rs\<close>, \<open>storage/schema/manager.rs\<close>.
  \<^item> \<open>Documents\<close>, \<open>Document_Invariant\<close>, \<open>Document_Properties\<close>: \<open>storage/documents/store.rs\<close>, index
    maintenance in \<open>storage/indexes/manager.rs\<close>, and the document operations of \<open>storage/database.rs\<close>.
  \<^item> \<open>Batch\<close>, \<open>Batch_Invariant\<close>, \<open>Batch_Properties\<close>: \<open>storage/database/batch.rs\<close>.
  \<^item> \<open>Index_Scans\<close>: the index lookups of \<open>storage/database.rs\<close> and \<open>storage/indexes/manager.rs\<close>.
  \<^item> \<open>Transactions\<close>, \<open>Transaction_Context\<close>: \<open>transaction\<close>. \<open>Sessions\<close>: \<open>session\<close>.
  \<^item> \<open>Access_Paths\<close>: \<open>query/optimize/predicate.rs\<close>, \<open>query/optimize/access_path.rs\<close>. \<open>Plans\<close>:
    \<open>query/plan/logical.rs\<close>, \<open>query/plan/physical.rs\<close>. \<open>Optimizer\<close>: \<open>query/optimize/index.rs\<close>,
    \<open>query/optimize/optimizer.rs\<close>.
  \<^item> \<open>Scan_Operators\<close>: \<open>query/execute/operators/scan.rs\<close> over \<open>storage/context_impl.rs\<close>.
    \<open>Database_Plans\<close>: the optimiser on the indexes a database has, and the scans of its plans.
  \<^item> \<open>Statements\<close>: \<open>query/ast/stmt.rs\<close>, the plans of all statements (\<open>query/plan/logical.rs\<close>,
    \<open>query/execute/engine/mod.rs\<close>). \<open>Authorization\<close>: \<open>auth/types.rs\<close>, \<open>auth/policy_engine.rs\<close>,
    \<open>auth/authorization.rs\<close>, \<open>query/builder/authz.rs\<close>, the policies of \<open>auth/service.rs\<close>.
  \<^item> \<open>Error_Reports\<close>: the texts, codes and classes of \<open>error/mod.rs\<close>, \<open>query/error.rs\<close>, \<open>schema/error.rs\<close>,
    \<open>auth/error.rs\<close> and \<open>BatchError\<close> of \<open>query/result.rs\<close>.
  \<^item> \<open>Query_Batch\<close>, \<open>Batch_Execution\<close>: \<open>query/builder.rs\<close> with \<open>direct.rs\<close>, \<open>planned.rs\<close>, \<open>state.rs\<close> and
    \<open>result.rs\<close> of \<open>query/builder\<close>.

  \<^bold>\<open>State and operations.\<close> A struct is a record, an enum a datatype, a function that returns
  \<open>Result\<close> a function into a sum with the error on the left. A method that changes the database is a
  function from a state to a state and a result (\<open>op\<close>); errors keep what was already written. The
  state \<open>database\<close> extends \<open>edge_store\<close>, which extends \<open>store\<close>: a disk of named keyspaces. The
  operators are records of \<open>open\<close>, \<open>next\<close> and \<open>close\<close> on their own state, and a plan is their
  composition. A panic is the error \<open>EPanic\<close> or \<open>StoragePanic\<close>. Operations run one at a time, except
  in \<open>Lock_Stripes\<close>, where threads interleave; sessions and transactions are step relations.

  \<^bold>\<open>What the lemmas show.\<close>

  \<^item> Keys: the byte order of encoded values is the order of values, keys of compound indexes compare
    field by field, and keys and edge identifiers decode to what was encoded.
  \<^item> Indexes: updates keep an index in step with the documents, and scans return exactly the selected
    documents up to the limit; a unique constraint that is accepted holds.
  \<^item> Schemas: a document that is accepted is valid after its defaults are filled in, and keeps its data.
  \<^item> Expressions: three-valued logic, exact integer arithmetic, constant folding that agrees with
    evaluation, assignment to paths, and the discipline of variable scopes.
  \<^item> Operators: what each operator returns for any input operator that meets its contract (locales),
    and what composed plans return.
  \<^item> Edges: the keyspace of a label represents a graph, on which the operations act.
  \<^item> Documents: \<open>consistent\<close> relates a collection on disk (documents, markers, indexes, locks) to a map
    from keys to documents; every operation that succeeds moves to the changed map, every one that
    fails leaves the data alone. \<open>represents_docs\<close> says so for all collections, and a batch has the
    meaning of its operations one after another.
  \<^item> Transactions: the documents seen are the stored ones overlaid with the pending writes; a commit
    publishes exactly these or nothing. Sessions: isolation of owners, active transactions, and an
    end to the search for a free identifier.
  \<^item> Plans: the access paths of the optimiser select every row of the predicate, and with the filter
    that is left above them exactly these rows; the search for compound indexes misses none; a query
    with aggregates computes each of them once and reads it back where the query names it.
  \<^item> Scans: a table scan returns the documents of its collection page by page, an index scan the
    documents of its lookup, and a lookup that the optimiser plans finds its index in the database.
    Lemmas next to these record the plans that return other rows than the query asks for.
  \<^item> Batches: a batch returns, reports its statements in order, rolls its own transaction back when it
    fails, gives no internal message away and runs nothing from the first forbidden statement on.
    Access is granted when a policy allows it and none denies it, and policies survive their storage.
    Lemmas record the statements that pass without a check and the policies without effect.

  \<^bold>\<open>Interfaces.\<close> \<open>keyspace\<close>, \<open>engine\<close>, \<open>edge_engine\<close> and \<open>db_engine\<close> state what the storage layer relies
  on; they are interpreted on the in-memory engine. The locales of the operators state what an input
  delivers and are interpreted on each operator. \<open>authorization_provider\<close> is what the query layer
  relies on of an authorizer and is interpreted on the policy engine. \<open>frame\<close> collects how operations compose along a
  relation of states and is interpreted for unchanged keyspaces and for unchanged edge types.

  \<^bold>\<open>Parameters.\<close> The record \<open>libs\<close> holds the crate \<open>rust_decimal\<close>; codecs stand for the derived
  serialisation (\<open>rkyv\<close>), with the law that decoding inverts encoding (\<open>codec_ok\<close>); \<open>db_hash\<close> is
  \<open>xxh3\<close>; \<open>tx_env\<close> is what an engine transaction meets at its begin and commit; \<open>env\<close> holds the
  function registry and Unicode case conversion; the full-text and vector backends are functions on
  the component \<open>external\<close>; \<open>te_writes_order\<close> and \<open>te_edges_order\<close> are the iteration orders of hash
  maps; the draws of \<open>nanoid\<close> are a sequence of strings; in the optimiser \<open>ord\<close> is the iteration order
  of the hash map of range bounds and \<open>dbg\<close> the debug text of values. In a batch, \<open>executors\<close> stand for
  what executes one statement on the database or on a transaction, with the law that a transaction
  stays active (\<open>executors_safe\<close>); binding, analyzers and the authentication service are functions.

  \<^bold>\<open>Bounds and fuel.\<close> Only the printing of floats uses fixed bounds, 17 significant digits and at most
  400 leading zeros, which every \<open>f64\<close> meets. Loops over an input that may never end are
  \<open>partial_function (option)\<close>, and the theorems on plans and on \<open>begin_transaction\<close> state that they
  return. The limits of the code are kept: 1000 edges per page, 10000 documents in the listing of a
  transaction, the buffer of 100 in its scans, the pages of 1000 documents of a table scan and the
  batch of 1000 of an index scan. The scores of the optimiser are 32-bit words that wrap.

  \<^bold>\<open>Not modelled.\<close> The parsers, which walk the parse trees of grammars that the crate \<open>pest\<close> generates;
  binding, EXPLAIN, control flow in blocks and the translation of plans into operators; traversal,
  projection, DML and DDL operators, subqueries and the function registry; the full-text and vector
  backends and analyzers, which wrap \<open>tantivy\<close> and \<open>usearch\<close>; building indexes in the background;
  authentication; namespaces; the HTTP and gRPC servers, the command line, metrics and
  fault injection. The manifest lists them with the reason for each.
\<close>

end
